(* ===== verification/Prelude.thy ===== *)
theory Prelude
  imports "HOL-Library.Word" "HOL-Library.Multiset"
begin

text \<open>Shared vocabulary of the development: the names of the machine types, the fatal
  reports of report.h as values, the result type of every operation that may die, the
  collections of simplification facts, and generic lemmas on words, lists and sums.\<close>

section \<open>Machine types\<close>

unbundle bit_operations_syntax

type_synonym u8 = "8 word"
type_synonym u16 = "16 word"
type_synonym u32 = "32 word"
type_synonym u64 = "64 word"
type_synonym uptr = "64 word"

named_theorems arith_defs \<open>definitions of the arithmetic helpers\<close>
named_theorems heap_simps \<open>reads of a heap after an update\<close>
named_theorems list_abs \<open>refinement of the intrusive lists to HOL lists\<close>

section \<open>Fatal reports\<close>

datatype AllocatorAction = Recycling | Deallocating | Reallocating | Sizing

text \<open>One constructor for each NORETURN report; each call of one is the value Inl. The last one is not
  a report but the crash of the process on an access through a null pointer.\<close>

datatype report =
    CheckFailed string
  | ReportError string
  | InvalidFlag string string
  | HeaderCorruption uptr
  | SanityCheckError string
  | AlignmentTooBig uptr uptr
  | AllocationSizeTooBig uptr uptr uptr
  | OutOfBatchClass
  | OutOfMemory uptr
  | InvalidChunkState AllocatorAction uptr
  | MisalignedPointer AllocatorAction uptr
  | DeallocTypeMismatch AllocatorAction uptr u8 u8
  | DeleteSizeMismatch uptr uptr uptr
  | AlignmentNotPowerOfTwo uptr
  | InvalidPosixMemalignAlignment uptr
  | CallocOverflow uptr uptr
  | PvallocOverflow uptr
  | InvalidAlignedAllocAlignment uptr uptr
  | NullDereference string

type_synonym 'a result = "report + 'a"

fun bindR :: "'a result \<Rightarrow> ('a \<Rightarrow> 'b result) \<Rightarrow> 'b result" where
  "bindR (Inl e) f = Inl e"
| "bindR (Inr x) f = f x"

definition CHECK :: "bool \<Rightarrow> string \<Rightarrow> unit result" where
  "CHECK c msg = (if c then Inr () else Inl (CheckFailed msg))"

lemma bindR_Inr_iff [simp]: "bindR r f = Inr y \<longleftrightarrow> (\<exists>x. r = Inr x \<and> f x = Inr y)"
  by (cases r) auto

lemma bindR_Inl_iff: "bindR r f = Inl e \<longleftrightarrow> (r = Inl e \<or> (\<exists>x. r = Inr x \<and> f x = Inl e))"
  by (cases r) auto

lemma CHECK_Inr [simp]: "CHECK c m = Inr u \<longleftrightarrow> c"
  by (simp add: CHECK_def)

section \<open>Words\<close>

lemma unat_less_exp: "unat (x :: 'a::len word) < 2 ^ LENGTH('a)"
  by (rule unsigned_less)

lemma bit_imp_exp_le: "2 ^ n \<le> unat w" if "bit w n" for w :: "'a::len word"
proof (rule ccontr)
  assume "\<not> 2 ^ n \<le> unat w"
  then have "unat w div 2 ^ n = 0" by simp
  moreover have "bit (unat w) n"
    using that bit_imp_le_length [OF that] by (simp add: bit_unsigned_iff)
  ultimately show False by (simp add: bit_iff_odd)
qed

lemma unat_mult_lt: "unat (a * b :: 'a::len word) = unat a * unat b" if "unat a * unat b < 2 ^ LENGTH('a)"
  using that by (simp add: unat_word_ariths)

lemma and_not_mask_eq: "x AND NOT (mask n) = push_bit n (drop_bit n (x :: 'a::len word))"
  by (rule bit_word_eqI) (auto simp: bit_simps)

lemma unat_and_not_mask:
  "unat (x AND NOT (mask n) :: 'a::len word) = unat x div 2 ^ n * 2 ^ n"
proof -
  have "unat (x AND mask n) = unat x mod 2 ^ n"
    by (metis take_bit_eq_mask unsigned_take_bit_eq take_bit_eq_mod)
  moreover have "(x AND NOT (mask n)) + (x AND mask n) = x"
    by (metis bits_ident and_not_mask_eq take_bit_eq_mask)
  moreover have "unat (x AND NOT (mask n)) \<le> unat x"
    by (metis word_and_le1 word_le_nat_alt and.commute)
  ultimately have "unat (x AND NOT (mask n)) = unat x - unat x mod 2 ^ n"
    by (metis add_diff_cancel_right' unat_sub word_and_le2 word_le_nat_alt)
  then show ?thesis
    by (simp add: minus_mod_eq_div_mult)
qed

lemma unat_and_mask: "unat (x AND mask n :: 'a::len word) = unat x mod 2 ^ n"
  by (metis take_bit_eq_mask unsigned_take_bit_eq take_bit_eq_mod)

lemma word_exp_minus_1: "(2 ^ n - 1 :: 'a::len word) = mask n"
  by (simp add: mask_eq_exp_minus_1)

lemma unat_exp: "n < LENGTH('a) \<Longrightarrow> unat (2 ^ n :: 'a::len word) = 2 ^ n"
proof -
  assume n: "n < LENGTH('a)"
  have "uint (2 ^ n :: 'a word) = 2 ^ n mod 2 ^ LENGTH('a)"
    by (metis uint_word_of_int of_int_power of_int_numeral)
  also have "\<dots> = 2 ^ n"
    using n by (intro mod_pos_pos_trivial) (auto intro: power_strict_increasing)
  finally show ?thesis
    by (metis nat_power_eq nat_numeral unat_eq_nat_uint zero_le_numeral)
qed

section \<open>Naturals\<close>

lemma ceil_mult_bounds:
  assumes "0 < (b::nat)"
  shows "x \<le> (x + b - 1) div b * b" "(x + b - 1) div b * b < x + b"
proof -
  have "(x + b - 1) div b * b + (x + b - 1) mod b = x + b - 1"
    by (rule div_mult_mod_eq)
  moreover have "(x + b - 1) mod b < b"
    using assms by simp
  ultimately show "x \<le> (x + b - 1) div b * b" "(x + b - 1) div b * b < x + b"
    using assms by linarith+
qed

lemma ceil_div_exact: "0 < (b::nat) \<Longrightarrow> (b * k + b - 1) div b = k"
proof -
  assume b: "0 < b"
  then have "b * k + b - 1 = (b - 1) + b * k" by simp
  then have "(b * k + b - 1) div b = k + (b - 1) div b"
    using div_mult_self2 [of b "b - 1" k] b by simp
  then show ?thesis using b by simp
qed

section \<open>Lists\<close>

definition swap_list :: "'a list \<Rightarrow> nat \<Rightarrow> nat \<Rightarrow> 'a list" where
  "swap_list xs i j = xs[i := xs ! j, j := xs ! i]"

lemma length_swap_list [simp]: "length (swap_list xs i j) = length xs"
  by (simp add: swap_list_def)

lemma mset_swap_list [simp]:
  "i < length xs \<Longrightarrow> j < length xs \<Longrightarrow> mset (swap_list xs i j) = mset xs"
  by (simp add: swap_list_def mset_swap)

end
