(* ===== verification/Common.thy ===== *)
theory Common
  imports Prelude
begin

text \<open>common.h and wrappers_c_checks.h: alignment arithmetic on 64-bit words, powers of two,
  the xorshift generator, the shuffle built on it, percentages, and the overflow checks of the
  C wrappers. The debug-only DCHECKs are not part of a release build: where a lemma needs what
  one of them states it has it as a hypothesis.\<close>

section \<open>Alignment\<close>

definition isPowerOfTwo :: "uptr \<Rightarrow> bool" where
  "isPowerOfTwo X = (if X = 0 then False else X AND (X - 1) = 0)"

definition roundUp :: "uptr \<Rightarrow> uptr \<Rightarrow> uptr" where
  "roundUp X Boundary = (X + Boundary - 1) AND NOT (Boundary - 1)"

definition roundUpSlow :: "uptr \<Rightarrow> uptr \<Rightarrow> uptr" where
  "roundUpSlow X Boundary = ((X + Boundary - 1) div Boundary) * Boundary"

definition roundDown :: "uptr \<Rightarrow> uptr \<Rightarrow> uptr" where
  "roundDown X Boundary = X AND NOT (Boundary - 1)"

definition roundDownSlow :: "uptr \<Rightarrow> uptr \<Rightarrow> uptr" where
  "roundDownSlow X Boundary = (X div Boundary) * Boundary"

definition isAligned :: "uptr \<Rightarrow> uptr \<Rightarrow> bool" where
  "isAligned X Alignment \<longleftrightarrow> X AND (Alignment - 1) = 0"

definition isAlignedSlow :: "uptr \<Rightarrow> uptr \<Rightarrow> bool" where
  "isAlignedSlow X Alignment \<longleftrightarrow> X mod Alignment = 0"

lemmas [arith_defs] = isPowerOfTwo_def roundUp_def roundUpSlow_def roundDown_def
  roundDownSlow_def isAligned_def isAlignedSlow_def

lemma unat_roundDown: "unat (roundDown x (2 ^ n)) = unat x div 2 ^ n * 2 ^ n"
  by (simp add: roundDown_def word_exp_minus_1 unat_and_not_mask)

lemma isAligned_exp: "isAligned x (2 ^ n) \<longleftrightarrow> unat x mod 2 ^ n = 0"
  by (simp add: isAligned_def word_exp_minus_1 unat_and_mask flip: unat_eq_zero)

lemma unat_roundUp:
  assumes "n < 64" and "unat x + 2 ^ n \<le> 2 ^ 64"
  shows "unat (roundUp x (2 ^ n)) = (unat x + 2 ^ n - 1) div 2 ^ n * 2 ^ n"
proof -
  have n: "unat (2 ^ n :: uptr) = 2 ^ n"
    using assms(1) by (simp add: unat_exp)
  have "unat (x + (2 ^ n - 1)) = unat x + (2 ^ n - 1)"
  proof -
    have "unat (2 ^ n - 1 :: uptr) = 2 ^ n - 1"
      using n by (simp add: unat_sub word_le_nat_alt)
    then show ?thesis
      using assms(2) by (subst unat_add_lem [THEN iffD1]) (auto simp: less_eq_Suc_le)
  qed
  then show ?thesis
    using unat_and_not_mask [of "x + (2 ^ n - 1)" n] by (simp add: roundUp_def mask_eq_exp_minus_1 add_diff_eq)
qed

lemma isPowerOfTwo_iff: "isPowerOfTwo X \<longleftrightarrow> (\<exists>n<64. X = 2 ^ n)"
proof
  assume X: "isPowerOfTwo X"
  then have "X \<noteq> 0" and and0: "X AND (X - 1) = 0"
    by (auto simp: isPowerOfTwo_def split: if_splits)
  then have pos: "0 < unat X"
    by (simp add: unat_gt_0)
  obtain n where n: "2 ^ n \<le> unat X" "unat X < 2 ^ (n + 1)"
    using ex_power_ivl1 [of 2 "unat X"] pos by auto
  have n64: "n < 64"
  proof (rule ccontr)
    assume "\<not> n < 64"
    then have "(2::nat) ^ 64 \<le> 2 ^ n"
      by (intro power_increasing) auto
    then show False
      using n(1) unat_less_exp [of X] by simp
  qed
  have bitn: "bit w n" if "2 ^ n \<le> unat w" "unat w < 2 ^ (n + 1)" for w :: uptr
  proof -
    have "unat w div 2 ^ n = 1"
      using that by (intro div_nat_eqI) auto
    then show ?thesis
      by (metis bit_iff_odd bit_unsigned_iff odd_one)
  qed
  have "unat X = 2 ^ n"
  proof (rule ccontr)
    assume "unat X \<noteq> 2 ^ n"
    then have "2 ^ n \<le> unat X - 1" "unat X - 1 < 2 ^ (n + 1)"
      using n by auto
    moreover have "unat (X - 1) = unat X - 1"
      using pos by (simp add: unat_minus_one \<open>X \<noteq> 0\<close>)
    ultimately have "bit (X - 1) n"
      using bitn [of "X - 1"] by simp
    then have "bit (X AND (X - 1)) n"
      using bitn [OF n] by (simp add: bit_and_iff)
    then show False
      using and0 by simp
  qed
  then show "\<exists>n<64. X = 2 ^ n"
    using n64 unat_exp [of n, where 'a = 64] by (auto simp: word_unat_eq_iff)
next
  assume "\<exists>n<64. X = 2 ^ n"
  then obtain n where n: "n < 64" "X = 2 ^ n"
    by blast
  have "(2 ^ n :: uptr) AND mask n = 0"
    by (rule bit_word_eqI) (auto simp: bit_simps)
  moreover have "(2 ^ n :: uptr) \<noteq> 0"
    using unat_exp [of n, where 'a = 64] n(1) by auto
  ultimately show "isPowerOfTwo X"
    by (simp add: isPowerOfTwo_def n(2) word_exp_minus_1)
qed

lemma roundUp_ge:
  assumes "isPowerOfTwo b" and "unat x + unat b \<le> 2 ^ 64"
  shows "x \<le> roundUp x b" and "isAligned (roundUp x b) b" and "unat (roundUp x b) < unat x + unat b"
proof -
  obtain n where n: "n < 64" "b = 2 ^ n"
    using assms(1) isPowerOfTwo_iff by blast
  have b: "unat b = 2 ^ n"
    by (simp add: n unat_exp)
  have r: "unat (roundUp x b) = (unat x + 2 ^ n - 1) div 2 ^ n * 2 ^ n"
    using unat_roundUp [of n x] n assms(2) b by simp
  show "x \<le> roundUp x b" "isAligned (roundUp x b) b" "unat (roundUp x b) < unat x + unat b"
    using r b isAligned_exp [of "roundUp x b" n] ceil_mult_bounds [of "2 ^ n" "unat x"]
    by (simp_all add: n(2) word_le_nat_alt)
qed

section \<open>Bit indices\<close>

text \<open>The builtins clzl and ctzl on 64-bit words; like the builtins they are only meaningful on
  a non-zero argument.\<close>

definition clzl :: "uptr \<Rightarrow> nat" where
  "clzl X = List.length (takeWhile (\<lambda>i. \<not> bit X i) (rev [0..<64]))"

definition ctzl :: "uptr \<Rightarrow> nat" where
  "ctzl X = List.length (takeWhile (\<lambda>i. \<not> bit X i) [0..<64])"

definition getMostSignificantSetBitIndex :: "uptr \<Rightarrow> nat" where
  "getMostSignificantSetBitIndex X = 64 - 1 - clzl X"

definition roundUpPowerOfTwo :: "uptr \<Rightarrow> uptr" where
  "roundUpPowerOfTwo Size = (if isPowerOfTwo Size then Size
     else push_bit (getMostSignificantSetBitIndex Size + 1) 1)"

definition getLeastSignificantSetBitIndex :: "uptr \<Rightarrow> nat" where
  "getLeastSignificantSetBitIndex X = ctzl X"

definition getLog2 :: "uptr \<Rightarrow> nat" where
  "getLog2 X = getLeastSignificantSetBitIndex X"

lemma ctzl_spec: "X \<noteq> 0 \<Longrightarrow> ctzl X < 64 \<and> bit X (ctzl X) \<and> (\<forall>j<ctzl X. \<not> bit X j)"
proof -
  assume X: "X \<noteq> 0"
  let ?t = "takeWhile (\<lambda>i. \<not> bit X i) [0..<64]"
  have lt: "ctzl X < 64"
  proof (rule ccontr)
    assume "\<not> ctzl X < 64"
    then have "?t = [0..<64]"
      using length_takeWhile_le [of "\<lambda>i. \<not> bit X i" "[0..<64]"]
      by (metis ctzl_def length_upt diff_zero not_less le_antisym takeWhile_eq_take take_all)
    then have "\<forall>i<64. \<not> bit X i"
      by (metis takeWhile_eq_all_conv atLeastLessThan_iff set_upt le0)
    then have "X = 0"
      by (intro bit_word_eqI) auto
    with X show False ..
  qed
  moreover have "bit X (ctzl X)"
    using nth_length_takeWhile [of "\<lambda>i. \<not> bit X i" "[0..<64]"] lt by (simp add: ctzl_def)
  moreover have "\<not> bit X j" if "j < ctzl X" for j
    using nth_mem [of j ?t] that lt takeWhile_nth [of j "\<lambda>i. \<not> bit X i" "[0..<64]"]
    by (auto simp: ctzl_def dest: set_takeWhileD)
  ultimately show ?thesis by blast
qed

lemma getLog2_exp: "n < 64 \<Longrightarrow> getLog2 (2 ^ n) = n"
proof -
  assume n: "n < 64"
  then have "(2 ^ n :: uptr) \<noteq> 0"
    using unat_exp [of n, where 'a = 64] by auto
  from ctzl_spec [OF this] show ?thesis
    by (auto simp: getLog2_def getLeastSignificantSetBitIndex_def bit_simps)
qed

lemma msb_spec:
  assumes "X \<noteq> 0"
  shows "2 ^ getMostSignificantSetBitIndex X \<le> unat X \<and>
    unat X < 2 ^ (getMostSignificantSetBitIndex X + 1) \<and> getMostSignificantSetBitIndex X < 64"
proof -
  let ?P = "\<lambda>i. \<not> bit X i" and ?l = "rev [0..<64]"
  let ?t = "takeWhile ?P ?l"
  have lt: "clzl X < 64"
  proof (rule ccontr)
    assume "\<not> clzl X < 64"
    then have "?t = ?l"
      using length_takeWhile_le [of ?P ?l]
      by (metis clzl_def length_rev length_upt diff_zero not_less le_antisym takeWhile_eq_take take_all)
    then have "\<forall>i<64. \<not> bit X i"
      by (metis takeWhile_eq_all_conv atLeastLessThan_iff set_upt set_rev le0)
    then have "X = 0"
      by (intro bit_word_eqI) auto
    with assms show False ..
  qed
  define m where "m = getMostSignificantSetBitIndex X"
  have m: "m < 64" "m = 63 - clzl X"
    by (simp_all add: m_def getMostSignificantSetBitIndex_def)
  have "bit X m"
    using nth_length_takeWhile [of ?P ?l] lt by (simp add: clzl_def m rev_nth)
  then have "2 ^ m \<le> unat X"
    by (rule bit_imp_exp_le)
  moreover have "\<not> bit X j" if "m < j" "j < 64" for j
  proof -
    have "63 - j < clzl X" using that lt m by simp
    then have "?t ! (63 - j) = ?l ! (63 - j)" "?t ! (63 - j) \<in> set ?t"
      using nth_mem [of "63 - j" ?t] by (auto simp: clzl_def takeWhile_nth)
    then show ?thesis
      using that by (auto simp: rev_nth dest: set_takeWhileD)
  qed
  then have "\<not> bit X j" if "m < j" for j
    using that bit_imp_le_length [of X j] by auto
  then have "drop_bit (Suc m) X = 0"
    by (intro bit_word_eqI) (auto simp: bit_simps)
  then have "unat X div 2 ^ Suc m = 0"
    by (metis unat_drop_bit_eq drop_bit_eq_div unsigned_0)
  then have "unat X < 2 ^ (m + 1)"
    using div_greater_zero_iff [of "unat X" "2 ^ Suc m"] by (simp add: not_le)
  ultimately show ?thesis
    using m(1) by (simp add: m_def)
qed

section \<open>Pseudo-random numbers and the shuffle\<close>

definition getRandomU32 :: "u32 \<Rightarrow> u32 \<times> u32" where
  "getRandomU32 State =
    (let S1 = State XOR push_bit 13 State;
         S2 = S1 XOR drop_bit 17 S1;
         S3 = S2 XOR push_bit 5 S2
     in (S3, S3))"

definition getRandomModN :: "u32 \<Rightarrow> u32 \<Rightarrow> u32 \<times> u32" where
  "getRandomModN State N = (let (r, State') = getRandomU32 State in (r mod N, State'))"

fun shuffle_loop :: "nat \<Rightarrow> 'a list \<Rightarrow> u32 \<Rightarrow> 'a list \<times> u32" where
  "shuffle_loop 0 A State = (A, State)"
| "shuffle_loop (Suc i) A State =
    (let I = Suc i; (J, State') = getRandomModN State (of_nat (I + 1))
     in shuffle_loop i (swap_list A I (unat J)) State')"

definition shuffle :: "'a list \<Rightarrow> u32 \<Rightarrow> u32 \<Rightarrow> 'a list \<times> u32" where
  "shuffle A N RandState =
    (if N \<le> 1 then (A, RandState) else shuffle_loop (unat (N - 1)) A RandState)"

lemma xor_push_inj:
  assumes "0 < k" "x XOR push_bit k x = y XOR push_bit k (y :: 'a::len word)"
  shows "x = y"
proof (rule bit_word_eqI)
  fix n assume "n < LENGTH('a)"
  then show "bit x n \<longleftrightarrow> bit y n"
  proof (induction n rule: less_induct)
    case (less n)
    have "bit (x XOR push_bit k x) n \<longleftrightarrow> bit (y XOR push_bit k y) n"
      by (simp add: assms(2))
    then show ?case
      using less assms(1) by (cases "k \<le> n") (auto simp: bit_simps)
  qed
qed

lemma xor_drop_inj:
  assumes "0 < k" "x XOR drop_bit k x = y XOR drop_bit k (y :: 'a::len word)"
  shows "x = y"
proof (rule bit_word_eqI)
  fix n assume "n < LENGTH('a)"
  then show "bit x n \<longleftrightarrow> bit y n"
  proof (induction "LENGTH('a) - n" arbitrary: n rule: less_induct)
    case less
    have "bit (x XOR drop_bit k x) n \<longleftrightarrow> bit (y XOR drop_bit k y) n"
      by (simp add: assms(2))
    moreover have "bit x (k + n) \<longleftrightarrow> bit y (k + n)"
      using less assms(1) by (cases "k + n < LENGTH('a)") (auto dest: bit_imp_le_length)
    ultimately show ?case
      by (auto simp: bit_simps)
  qed
qed

lemma getRandomU32_inj: "snd (getRandomU32 s) = snd (getRandomU32 t) \<Longrightarrow> s = t"
  unfolding getRandomU32_def Let_def snd_conv
  by (drule xor_push_inj [OF zero_less_numeral], drule xor_drop_inj [OF zero_less_numeral],
      erule xor_push_inj [OF zero_less_numeral])

lemma getRandomModN_less: "N \<noteq> 0 \<Longrightarrow> unat (fst (getRandomModN s N)) < unat N"
  by (simp add: getRandomModN_def unat_mod split: prod.split)
    (metis gr0I mod_less_divisor unat_eq_zero)

lemma shuffle_loop_perm:
  assumes "n < List.length A" "n + 1 < 2 ^ 32"
  shows "mset (fst (shuffle_loop n A s)) = mset A"
  using assms
proof (induction n A s rule: shuffle_loop.induct)
  case (2 i A s)
  obtain J s' where J: "getRandomModN s (of_nat (Suc i + 1)) = (J, s')"
    by fastforce
  have n: "unat (of_nat (Suc i + 1) :: u32) = Suc i + 1"
    using 2(3) by (subst unat_of_nat) simp
  then have "(of_nat (Suc i + 1) :: u32) \<noteq> 0"
    by (metis Suc_eq_plus1 nat.distinct(1) unsigned_0)
  from getRandomModN_less [OF this, of s] have "unat J < List.length A"
    using J n 2(2) by simp
  then show ?case
    using 2 J by simp
qed simp

section \<open>Percentages\<close>

definition computePercentage :: "uptr \<Rightarrow> uptr \<Rightarrow> uptr \<times> uptr" where
  "computePercentage Numerator Denominator =
    (let Digits = 100 in
     if Denominator = 0 then (100, 0)
     else (Numerator * Digits div Denominator,
           ((Numerator * Digits mod Denominator) * Digits + Denominator div 2) div Denominator))"

section \<open>Checks of the C wrappers\<close>

text \<open>As in the source, a check returns true on failure.\<close>

definition checkAlignedAllocAlignmentAndSize :: "uptr \<Rightarrow> uptr \<Rightarrow> bool" where
  "checkAlignedAllocAlignmentAndSize Alignment Size \<longleftrightarrow>
    \<not> isPowerOfTwo Alignment \<or> \<not> isAligned Size Alignment"

definition checkPosixMemalignAlignment :: "uptr \<Rightarrow> bool" where
  "checkPosixMemalignAlignment Alignment \<longleftrightarrow> \<not> isPowerOfTwo Alignment \<or> \<not> isAligned Alignment 8"

definition checkForPvallocOverflow :: "uptr \<Rightarrow> uptr \<Rightarrow> bool" where
  "checkForPvallocOverflow Size PageSize \<longleftrightarrow> roundUp Size PageSize < Size"

text \<open>The two preprocessor branches of the multiplication check: the compiler builtin (overflow
  flag and wrapped product) and the portable fallback with a division.\<close>

definition checkForCallocOverflow :: "uptr \<Rightarrow> uptr \<Rightarrow> bool \<times> uptr" where
  "checkForCallocOverflow Size N = (2 ^ 64 \<le> unat Size * unat N, Size * N)"

definition checkForCallocOverflow_portable :: "uptr \<Rightarrow> uptr \<Rightarrow> bool \<times> uptr" where
  "checkForCallocOverflow_portable Size N =
    (let Product = Size * N in
     if Size = 0 then (False, Product) else (Product div Size \<noteq> N, Product))"

section \<open>Properties\<close>

lemma calloc_checks_agree:
  "checkForCallocOverflow_portable Size N = checkForCallocOverflow Size N"
proof (cases "Size = 0")
  case True
  then show ?thesis
    by (simp add: checkForCallocOverflow_portable_def checkForCallocOverflow_def Let_def)
next
  case False
  then have S: "0 < unat Size" by (simp add: unat_gt_0)
  let ?p = "unat Size * unat N"
  show ?thesis
  proof (cases "?p < 2 ^ 64")
    case True
    then have "unat (Size * N) = ?p"
      by (intro unat_mult_lt) simp
    then have "Size * N div Size = N"
      using S by (simp add: word_unat_eq_iff unat_div)
    then show ?thesis
      using True False by (simp add: checkForCallocOverflow_portable_def checkForCallocOverflow_def Let_def)
  next
    case False
    have "Size * N div Size \<noteq> N"
    proof
      assume "Size * N div Size = N"
      then have "unat (Size * N) div unat Size = unat N"
        by (metis unat_div)
      then have "?p \<le> unat (Size * N)"
        by (metis times_div_less_eq_dividend)
      then show False
        using False unat_less_exp [of "Size * N"] by simp
    qed
    then show ?thesis
      using False S by (auto simp: checkForCallocOverflow_portable_def checkForCallocOverflow_def Let_def)
  qed
qed

text \<open>Both preprocessor branches of the calloc check are the same function: the flag is set
  exactly when the mathematical product does not fit in 64 bits, and the reported product is the
  exact one otherwise.\<close>

theorem calloc_overflow_exact:
  "checkForCallocOverflow_portable Size N = checkForCallocOverflow Size N \<and>
   (if fst (checkForCallocOverflow Size N) then 2 ^ 64 \<le> unat Size * unat N
    else unat (snd (checkForCallocOverflow Size N)) = unat Size * unat N)"
  using calloc_checks_agree [of Size N]
  by (auto simp: checkForCallocOverflow_def intro!: unat_mult_lt)

lemma shuffle_mset:
  assumes "unat N \<le> List.length A"
  shows "mset (fst (shuffle A N s)) = mset A"
proof (cases "N \<le> 1")
  case False
  then have "1 < unat N"
    by (simp add: word_le_nat_alt)
  then have "N \<noteq> 0" by auto
  then have u: "unat (N - 1) = unat N - 1"
    by (rule unat_minus_one)
  then show ?thesis
    using False assms \<open>1 < unat N\<close> unat_less_exp [of N]
    by (simp add: shuffle_def shuffle_loop_perm)
qed (simp add: shuffle_def)

text \<open>The shuffle of the free lists permutes the array it is given, for every generator
  state: no block is lost or duplicated, and its length is kept.\<close>

theorem shuffle_permutes:
  assumes "unat N \<le> List.length A"
  shows "mset (fst (shuffle A N s)) = mset A \<and> List.length (fst (shuffle A N s)) = List.length A"
  using shuffle_mset [OF assms, of s] mset_eq_length by blast

theorem shuffle_permutes_witness:
  "mset (fst (shuffle [10, 20, 30 :: nat] 3 12345)) = mset [10, 20, 30 :: nat] \<and>
   List.length (fst (shuffle [10, 20, 30 :: nat] 3 12345)) = List.length [10, 20, 30 :: nat]"
  by (rule shuffle_permutes) simp

text \<open>The xorshift step is a bijection on 32-bit states, so a non-zero seed never reaches the
  absorbing state 0.\<close>

lemma getRandomU32_bij:
  "bij (\<lambda>s. snd (getRandomU32 s)) \<and> (snd (getRandomU32 s) = 0 \<longleftrightarrow> s = 0)"
proof -
  have "inj (\<lambda>s. snd (getRandomU32 s))"
    by (rule injI) (rule getRandomU32_inj)
  then have "bij (\<lambda>s. snd (getRandomU32 s))"
    by (intro bijI finite_UNIV_inj_surj finite)
  moreover have "snd (getRandomU32 0) = 0"
    by (simp add: getRandomU32_def)
  ultimately show ?thesis
    by (metis getRandomU32_inj)
qed

end
