(* ===== verification/Intrusive_List.thy ===== *)
theory Intrusive_List
  imports Prelude
begin

text \<open>list.h: the two link representations of LinkOp (pointers, and indices into an array with an
  end-of-list value), and the singly and doubly linked intrusive lists over either of them. The
  link fields live in a store that every operation updates; the laws of a link representation are
  the locale link_laws, and every list operation is proved there to refine the corresponding
  operation on HOL lists. Both representations interpret the locale.\<close>

section \<open>Link representations\<close>

text \<open>What LinkOp offers to a list, over a store of type 's and node pointers of type 'p.\<close>

record ('s, 'p) link_op =
  null :: 'p
  getNext :: "'s \<Rightarrow> 'p \<Rightarrow> 'p"
  setNext :: "'p \<Rightarrow> 'p \<Rightarrow> 's \<Rightarrow> 's"
  getPrev :: "'s \<Rightarrow> 'p \<Rightarrow> 'p"
  setPrev :: "'p \<Rightarrow> 'p \<Rightarrow> 's \<Rightarrow> 's"

text \<open>LinkOp with LinkWithPtr: the fields are the pointers.\<close>

record ptr_links =
  pNext :: "uptr \<Rightarrow> uptr"
  pPrev :: "uptr \<Rightarrow> uptr"

definition ptr_link_op :: "(ptr_links, uptr) link_op" where
  "ptr_link_op =
    \<lparr> null = 0,
      getNext = (\<lambda>s x. pNext s x),
      setNext = (\<lambda>x n s. s\<lparr>pNext := (pNext s)(x := n)\<rparr>),
      getPrev = (\<lambda>s x. pPrev s x),
      setPrev = (\<lambda>x n s. s\<lparr>pPrev := (pPrev s)(x := n)\<rparr>) \<rparr>"

text \<open>LinkOp without LinkWithPtr, with u16 links: a pointer into the array is its index, the null
  pointer is None, and the fields hold indices or EndOfListVal.\<close>

record idx_links =
  iNext :: "nat \<Rightarrow> u16"
  iPrev :: "nat \<Rightarrow> u16"

definition idx_read :: "u16 \<Rightarrow> u16 \<Rightarrow> nat option" where
  "idx_read EndOfListVal v = (if v = EndOfListVal then None else Some (unat v))"

definition idx_write :: "u16 \<Rightarrow> nat option \<Rightarrow> u16" where
  "idx_write EndOfListVal p = (case p of None \<Rightarrow> EndOfListVal | Some i \<Rightarrow> of_nat i)"

definition idx_link_op :: "u16 \<Rightarrow> (idx_links, nat option) link_op" where
  "idx_link_op EndOfListVal =
    \<lparr> null = None,
      getNext = (\<lambda>s x. idx_read EndOfListVal (iNext s (the x))),
      setNext = (\<lambda>x n s. s\<lparr>iNext := (iNext s)(the x := idx_write EndOfListVal n)\<rparr>),
      getPrev = (\<lambda>s x. idx_read EndOfListVal (iPrev s (the x))),
      setPrev = (\<lambda>x n s. s\<lparr>iPrev := (iPrev s)(the x := idx_write EndOfListVal n)\<rparr>) \<rparr>"

section \<open>The lists\<close>

record 'p ilist =
  First :: 'p
  Last :: 'p
  Size :: uptr

definition il_empty :: "'p ilist \<Rightarrow> bool" where
  "il_empty l \<longleftrightarrow> Size l = 0"

definition il_clear :: "('s, 'p) link_op \<Rightarrow> 'p ilist \<Rightarrow> 'p ilist" where
  "il_clear op l = l\<lparr>First := null op, Last := null op, Size := 0\<rparr>"

text \<open>checkConsistency walks from First to Last; on a corrupted list the walk need not end.\<close>

partial_function (option) il_walk ::
  "('s, 'p) link_op \<Rightarrow> 's \<Rightarrow> 'p \<Rightarrow> 'p \<Rightarrow> uptr \<Rightarrow> uptr option" where
  "il_walk op s LastI I Count =
    (if I = LastI then Some (Count + 1) else il_walk op s LastI (getNext op s I) (Count + 1))"

definition checkConsistency :: "('s, 'p) link_op \<Rightarrow> 's \<Rightarrow> 'p ilist \<Rightarrow> unit result option" where
  "checkConsistency op s l =
    (if Size l = 0 then
       Some (bindR (CHECK (First l = null op) ''First == nullptr'')
         (\<lambda>_. CHECK (Last l = null op) ''Last == nullptr''))
     else (case il_walk op s (Last l) (First l) 0 of
         None \<Rightarrow> None
       | Some Count \<Rightarrow> Some (bindR (CHECK (Size l = Count) ''size() == Count'')
           (\<lambda>_. CHECK (getNext op s (Last l) = null op) ''getNext(Last) == nullptr''))))"

text \<open>A loop over the list with its iterators visits these nodes: from First along the next links
  to the null pointer, at most n of them. A list of n nodes is walked completely (iter_refines).\<close>

fun il_nodes :: "('s, 'p) link_op \<Rightarrow> 's \<Rightarrow> nat \<Rightarrow> 'p \<Rightarrow> 'p list" where
  "il_nodes op s 0 p = []"
| "il_nodes op s (Suc n) p = (if p = null op then [] else p # il_nodes op s n (getNext op s p))"

definition il_iter :: "('s, 'p) link_op \<Rightarrow> 's \<Rightarrow> 'p ilist \<Rightarrow> 'p list" where
  "il_iter op s l = il_nodes op s (unat (Size l)) (First l)"

subsection \<open>SinglyLinkedList\<close>

definition sl_push_back :: "('s, 'p) link_op \<Rightarrow> 'p \<Rightarrow> 's \<times> 'p ilist \<Rightarrow> 's \<times> 'p ilist" where
  "sl_push_back op X = (\<lambda>(s, l).
    let s = setNext op X (null op) s;
        (s, l) = (if il_empty l then (s, l\<lparr>First := X\<rparr>) else (setNext op (Last l) X s, l))
    in (s, l\<lparr>Last := X, Size := Size l + 1\<rparr>))"

definition sl_push_front :: "('s, 'p) link_op \<Rightarrow> 'p \<Rightarrow> 's \<times> 'p ilist \<Rightarrow> 's \<times> 'p ilist" where
  "sl_push_front op X = (\<lambda>(s, l).
    let l = (if il_empty l then l\<lparr>Last := X\<rparr> else l);
        s = setNext op X (First l) s
    in (s, l\<lparr>First := X, Size := Size l + 1\<rparr>))"

definition sl_pop_front :: "('s, 'p) link_op \<Rightarrow> 's \<times> 'p ilist \<Rightarrow> 's \<times> 'p ilist" where
  "sl_pop_front op = (\<lambda>(s, l).
    let l = l\<lparr>First := getNext op s (First l)\<rparr>;
        l = (if First l = null op then l\<lparr>Last := null op\<rparr> else l)
    in (s, l\<lparr>Size := Size l - 1\<rparr>))"

definition sl_insert :: "('s, 'p) link_op \<Rightarrow> 'p \<Rightarrow> 'p \<Rightarrow> 's \<times> 'p ilist \<Rightarrow> 's \<times> 'p ilist" where
  "sl_insert op Prev X = (\<lambda>(s, l).
    let s = setNext op X (getNext op s Prev) s;
        s = setNext op Prev X s;
        l = (if Last l = Prev then l\<lparr>Last := X\<rparr> else l)
    in (s, l\<lparr>Size := Size l + 1\<rparr>))"

definition sl_extract :: "('s, 'p) link_op \<Rightarrow> 'p \<Rightarrow> 'p \<Rightarrow> 's \<times> 'p ilist \<Rightarrow> 's \<times> 'p ilist" where
  "sl_extract op Prev X = (\<lambda>(s, l).
    let s = setNext op Prev (getNext op s X) s;
        l = (if Last l = X then l\<lparr>Last := Prev\<rparr> else l)
    in (s, l\<lparr>Size := Size l - 1\<rparr>))"

text \<open>append_back returns the store, this list and the cleared argument.\<close>

definition sl_append_back ::
  "('s, 'p) link_op \<Rightarrow> 's \<Rightarrow> 'p ilist \<Rightarrow> 'p ilist \<Rightarrow> 's \<times> 'p ilist \<times> 'p ilist" where
  "sl_append_back op s l L =
    (if il_empty L then (s, l, L)
     else if il_empty l then (s, L, il_clear op L)
     else (setNext op (Last l) (First L) s, l\<lparr>Last := Last L, Size := Size l + Size L\<rparr>, il_clear op L))"

subsection \<open>DoublyLinkedList\<close>

definition dl_push_front :: "('s, 'p) link_op \<Rightarrow> 'p \<Rightarrow> 's \<times> 'p ilist \<Rightarrow> 's \<times> 'p ilist" where
  "dl_push_front op X = (\<lambda>(s, l).
    let s = setPrev op X (null op) s;
        (s, l) = (if il_empty l then (s, l\<lparr>Last := X\<rparr>) else (setPrev op (First l) X s, l));
        s = setNext op X (First l) s
    in (s, l\<lparr>First := X, Size := Size l + 1\<rparr>))"

definition dl_insert ::
  "('s, 'p) link_op \<Rightarrow> 'p \<Rightarrow> 'p \<Rightarrow> 's \<times> 'p ilist \<Rightarrow> ('s \<times> 'p ilist) result" where
  "dl_insert op X Y = (\<lambda>(s, l).
    if Y = First l then Inr (dl_push_front op X (s, l))
    else let Prev = getPrev op s Y in
      bindR (CHECK (getNext op s Prev = Y) ''getNext(Prev) == Y'') (\<lambda>_.
        let s = setNext op Prev X s;
            s = setPrev op X Prev s;
            s = setNext op X Y s;
            s = setPrev op Y X s
        in Inr (s, l\<lparr>Size := Size l + 1\<rparr>)))"

definition dl_push_back :: "('s, 'p) link_op \<Rightarrow> 'p \<Rightarrow> 's \<times> 'p ilist \<Rightarrow> 's \<times> 'p ilist" where
  "dl_push_back op X = (\<lambda>(s, l).
    let s = setNext op X (null op) s;
        (s, l) = (if il_empty l then (s, l\<lparr>First := X\<rparr>) else (setNext op (Last l) X s, l));
        s = setPrev op X (Last l) s
    in (s, l\<lparr>Last := X, Size := Size l + 1\<rparr>))"

definition dl_pop_front :: "('s, 'p) link_op \<Rightarrow> 's \<times> 'p ilist \<Rightarrow> 's \<times> 'p ilist" where
  "dl_pop_front op = (\<lambda>(s, l).
    let l = l\<lparr>First := getNext op s (First l)\<rparr>;
        (s, l) = (if First l = null op then (s, l\<lparr>Last := null op\<rparr>)
                  else (setPrev op (First l) (null op) s, l))
    in (s, l\<lparr>Size := Size l - 1\<rparr>))"

definition dl_remove :: "('s, 'p) link_op \<Rightarrow> 'p \<Rightarrow> 's \<times> 'p ilist \<Rightarrow> ('s \<times> 'p ilist) result" where
  "dl_remove op X = (\<lambda>(s, l).
    let Prev = getPrev op s X; Next = getNext op s X in
    bindR (if Prev \<noteq> null op then
             bindR (CHECK (getNext op s Prev = X) ''getNext(Prev) == X'')
               (\<lambda>_. Inr (setNext op Prev Next s))
           else Inr s) (\<lambda>s.
    bindR (if Next \<noteq> null op then
             bindR (CHECK (getPrev op s Next = X) ''getPrev(Next) == X'')
               (\<lambda>_. Inr (setPrev op Next Prev s))
           else Inr s) (\<lambda>s.
    let l = (if First l = X then l\<lparr>First := Next\<rparr> else l);
        l = (if Last l = X then l\<lparr>Last := Prev\<rparr> else l)
    in Inr (s, l\<lparr>Size := Size l - 1\<rparr>))))"

section \<open>Abstraction to HOL lists\<close>

fun lseg :: "('s, 'p) link_op \<Rightarrow> 's \<Rightarrow> 'p \<Rightarrow> 'p list \<Rightarrow> 'p \<Rightarrow> bool" where
  "lseg op s p [] q \<longleftrightarrow> p = q"
| "lseg op s p (x # xs) q \<longleftrightarrow> p = x \<and> lseg op s (getNext op s x) xs q"

fun pseg :: "('s, 'p) link_op \<Rightarrow> 's \<Rightarrow> 'p \<Rightarrow> 'p list \<Rightarrow> bool" where
  "pseg op s p [] \<longleftrightarrow> True"
| "pseg op s p (x # xs) \<longleftrightarrow> getPrev op s x = p \<and> pseg op s x xs"

text \<open>The list l over the store s holds the nodes xs; node says which pointers are nodes.\<close>

definition sl_abs :: "('s, 'p) link_op \<Rightarrow> ('p \<Rightarrow> bool) \<Rightarrow> 's \<Rightarrow> 'p ilist \<Rightarrow> 'p list \<Rightarrow> bool" where
  "sl_abs op node s l xs \<longleftrightarrow>
    lseg op s (First l) xs (null op) \<and> Last l = (if xs = [] then null op else last xs) \<and>
    Size l = of_nat (List.length xs) \<and> List.length xs < 2 ^ 64 \<and> distinct xs \<and> (\<forall>x\<in>set xs. node x)"

definition dl_abs :: "('s, 'p) link_op \<Rightarrow> ('p \<Rightarrow> bool) \<Rightarrow> 's \<Rightarrow> 'p ilist \<Rightarrow> 'p list \<Rightarrow> bool" where
  "dl_abs op node s l xs \<longleftrightarrow> sl_abs op node s l xs \<and> pseg op s (null op) xs"

lemma lseg_append: "lseg op s p (xs @ ys) q \<longleftrightarrow> (\<exists>m. lseg op s p xs m \<and> lseg op s m ys q)"
  by (induction xs arbitrary: p) auto

lemma lseg_snoc: "lseg op s p (xs @ [x]) q \<longleftrightarrow> lseg op s p xs x \<and> getNext op s x = q"
  by (auto simp: lseg_append)

lemma pseg_append:
  "pseg op s p (xs @ ys) \<longleftrightarrow> pseg op s p xs \<and> pseg op s (if xs = [] then p else last xs) ys"
  by (induction xs arbitrary: p) auto

lemma lseg_cong: "(\<And>x. x \<in> set xs \<Longrightarrow> getNext op t x = getNext op s x) \<Longrightarrow> lseg op t p xs q = lseg op s p xs q"
  by (induction xs arbitrary: p) auto

lemma pseg_cong: "(\<And>x. x \<in> set xs \<Longrightarrow> getPrev op t x = getPrev op s x) \<Longrightarrow> pseg op t p xs = pseg op s p xs"
  by (induction xs arbitrary: p) auto

lemma of_nat_length_0: "n < 2 ^ 64 \<Longrightarrow> (of_nat n :: uptr) = 0 \<longleftrightarrow> n = 0"
  by (simp add: word_of_nat_eq_0_iff) (metis dvd_imp_le leD neq0_conv dvd_0_right)

lemma sl_abs_empty_iff: "sl_abs op node s l xs \<Longrightarrow> il_empty l \<longleftrightarrow> xs = []"
  by (auto simp: sl_abs_def il_empty_def of_nat_length_0)

lemma dl_abs_imp_sl: "dl_abs op node s l xs \<Longrightarrow> sl_abs op node s l xs"
  by (simp add: dl_abs_def)

lemma sl_abs_Nil: "sl_abs op node s (il_clear op l) []"
  by (simp add: sl_abs_def il_clear_def)

section \<open>The laws of a link representation and the refinement\<close>

locale link_laws =
  fixes op :: "('s, 'p) link_op" and node :: "'p \<Rightarrow> bool"
  assumes null_node: "\<not> node (null op)"
    and next_setNext: "\<lbrakk> node x; node y; n = null op \<or> node n \<rbrakk> \<Longrightarrow>
      getNext op (setNext op x n s) y = (if y = x then n else getNext op s y)"
    and prev_setNext: "\<lbrakk> node x; node y \<rbrakk> \<Longrightarrow> getPrev op (setNext op x n s) y = getPrev op s y"
    and prev_setPrev: "\<lbrakk> node x; node y; n = null op \<or> node n \<rbrakk> \<Longrightarrow>
      getPrev op (setPrev op x n s) y = (if y = x then n else getPrev op s y)"
    and next_setPrev: "\<lbrakk> node x; node y \<rbrakk> \<Longrightarrow> getNext op (setPrev op x n s) y = getNext op s y"
begin

lemma lseg_setNext:
  "\<lbrakk> x \<notin> set xs; node x; \<forall>y\<in>set xs. node y; n = null op \<or> node n \<rbrakk> \<Longrightarrow>
    lseg op (setNext op x n s) p xs q = lseg op s p xs q"
  by (rule lseg_cong) (auto simp: next_setNext)

lemma lseg_setPrev:
  "\<lbrakk> node x; \<forall>y\<in>set xs. node y \<rbrakk> \<Longrightarrow> lseg op (setPrev op x n s) p xs q = lseg op s p xs q"
  by (rule lseg_cong) (auto simp: next_setPrev)

lemma pseg_setPrev:
  "\<lbrakk> x \<notin> set xs; node x; \<forall>y\<in>set xs. node y; n = null op \<or> node n \<rbrakk> \<Longrightarrow>
    pseg op (setPrev op x n s) p xs = pseg op s p xs"
  by (rule pseg_cong) (auto simp: prev_setPrev)

lemma pseg_setNext:
  "\<lbrakk> node x; \<forall>y\<in>set xs. node y \<rbrakk> \<Longrightarrow> pseg op (setNext op x n s) p xs = pseg op s p xs"
  by (rule pseg_cong) (auto simp: prev_setNext)

lemmas seg_simps = lseg_setNext lseg_setPrev pseg_setPrev pseg_setNext next_setNext prev_setNext
  prev_setPrev next_setPrev

lemma lseg_head: "lseg op s p xs (null op) \<Longrightarrow> p = (if xs = [] then null op else hd xs)"
  by (cases xs) auto

lemma nodes_refines: "lseg op s p xs (null op) \<Longrightarrow> \<forall>x\<in>set xs. node x \<Longrightarrow> il_nodes op s (List.length xs) p = xs"
  using null_node by (induction xs arbitrary: p) auto

lemma iter_refines: "sl_abs op node s l xs \<Longrightarrow> il_iter op s l = xs"
  using nodes_refines [of s "First l" xs] by (simp add: sl_abs_def il_iter_def unat_of_nat)

lemma push_back_refines:
  assumes abs: "sl_abs op node s l xs" and x: "node x" "x \<notin> set xs" and len: "Suc (List.length xs) < 2 ^ 64"
  shows "(case sl_push_back op x (s, l) of (s', l') \<Rightarrow> sl_abs op node s' l' (xs @ [x]))"
proof (cases xs rule: rev_cases)
  case Nil
  then show ?thesis
    using assms sl_abs_empty_iff [OF abs] by (simp add: sl_push_back_def sl_abs_def next_setNext)
next
  case (snoc ys y)
  then show ?thesis
    using assms sl_abs_empty_iff [OF abs]
    by (auto simp: sl_push_back_def sl_abs_def lseg_append seg_simps Let_def)
qed

lemma push_front_refines:
  assumes abs: "sl_abs op node s l xs" and x: "node x" "x \<notin> set xs" and len: "Suc (List.length xs) < 2 ^ 64"
  shows "(case sl_push_front op x (s, l) of (s', l') \<Rightarrow> sl_abs op node s' l' (x # xs))"
proof -
  have "First l = null op \<or> node (First l)"
    using abs by (cases xs) (auto simp: sl_abs_def)
  then show ?thesis
    using assms sl_abs_empty_iff [OF abs]
    by (auto simp: sl_push_front_def sl_abs_def seg_simps Let_def)
qed

lemma pop_front_refines:
  assumes abs: "sl_abs op node s l (x # xs)"
  shows "(case sl_pop_front op (s, l) of (s', l') \<Rightarrow> s' = s \<and> sl_abs op node s' l' xs)"
proof -
  have "getNext op s x = null op \<longleftrightarrow> xs = []"
    using abs null_node by (cases xs) (auto simp: sl_abs_def)
  then show ?thesis
    using assms by (auto simp: sl_pop_front_def sl_abs_def Let_def)
qed

lemma insert_refines:
  assumes abs: "sl_abs op node s l (xs @ p # ys)" and x: "node x" "x \<notin> set (xs @ p # ys)"
    and len: "Suc (List.length (xs @ p # ys)) < 2 ^ 64"
  shows "(case sl_insert op p x (s, l) of (s', l') \<Rightarrow> sl_abs op node s' l' (xs @ p # x # ys))"
proof -
  have "getNext op s p = null op \<or> node (getNext op s p)"
    using abs by (cases ys) (auto simp: sl_abs_def lseg_append)
  moreover have "Last l = p \<longleftrightarrow> ys = []"
    using abs by (auto simp: sl_abs_def)
  ultimately show ?thesis
    using assms by (auto simp: sl_insert_def sl_abs_def seg_simps Let_def lseg_append add.commute)
qed

lemma extract_refines:
  assumes abs: "sl_abs op node s l (xs @ p # x # ys)"
  shows "(case sl_extract op p x (s, l) of (s', l') \<Rightarrow> sl_abs op node s' l' (xs @ p # ys))"
proof -
  have "getNext op s x = null op \<or> node (getNext op s x)"
    using abs by (cases ys) (auto simp: sl_abs_def lseg_append)
  moreover have "Last l = x \<longleftrightarrow> ys = []"
    using abs by (auto simp: sl_abs_def)
  ultimately show ?thesis
    using assms by (auto simp: sl_extract_def sl_abs_def seg_simps Let_def lseg_append)
qed

lemma append_back_refines:
  assumes "sl_abs op node s l xs" and "sl_abs op node s L ys" and "set xs \<inter> set ys = {}"
    and "List.length xs + List.length ys < 2 ^ 64"
  shows "(case sl_append_back op s l L of (s', l', L') \<Rightarrow>
    sl_abs op node s' l' (xs @ ys) \<and> sl_abs op node s' L' [])"
proof (cases "xs = [] \<or> ys = []")
  case True
  then show ?thesis
    using assms(1,2) [THEN sl_abs_empty_iff] assms(1,2) sl_abs_Nil [of op node s L]
    by (auto simp: sl_append_back_def)
next
  case False
  then obtain zs z where xs: "xs = zs @ [z]"
    by (cases xs rule: rev_cases) auto
  have "First L = hd ys" "node (First L)"
    using assms(2) False by (cases ys; auto simp: sl_abs_def)+
  then show ?thesis
    using False assms assms(1,2) [THEN sl_abs_empty_iff] sl_abs_Nil [of op node _ L]
    by (auto simp: xs sl_append_back_def sl_abs_def seg_simps lseg_append)
qed

lemma dl_push_front_refines:
  assumes abs: "dl_abs op node s l xs" and x: "node x" "x \<notin> set xs" and len: "Suc (List.length xs) < 2 ^ 64"
  shows "(case dl_push_front op x (s, l) of (s', l') \<Rightarrow> dl_abs op node s' l' (x # xs))"
proof -
  have "il_empty l \<longleftrightarrow> xs = []"
    by (rule sl_abs_empty_iff [OF dl_abs_imp_sl [OF abs]])
  then show ?thesis
    using assms
    by (cases xs) (auto simp: dl_push_front_def dl_abs_def sl_abs_def seg_simps Let_def)
qed

lemma dl_push_back_refines:
  assumes abs: "dl_abs op node s l xs" and x: "node x" "x \<notin> set xs" and len: "Suc (List.length xs) < 2 ^ 64"
  shows "(case dl_push_back op x (s, l) of (s', l') \<Rightarrow> dl_abs op node s' l' (xs @ [x]))"
proof -
  have "il_empty l \<longleftrightarrow> xs = []"
    by (rule sl_abs_empty_iff [OF dl_abs_imp_sl [OF abs]])
  then show ?thesis
    using assms
    by (cases xs rule: rev_cases)
      (auto simp: dl_push_back_def dl_abs_def sl_abs_def seg_simps Let_def lseg_append pseg_append)
qed

lemma dl_pop_front_refines:
  assumes abs: "dl_abs op node s l (x # xs)"
  shows "(case dl_pop_front op (s, l) of (s', l') \<Rightarrow> dl_abs op node s' l' xs)"
proof (cases xs)
  case Nil
  then show ?thesis
    using assms by (auto simp: dl_pop_front_def dl_abs_def sl_abs_def Let_def)
next
  case (Cons y ys)
  then have "getNext op s x = y" "y \<noteq> null op"
    using abs null_node by (auto simp: dl_abs_def sl_abs_def)
  then show ?thesis
    using assms Cons by (auto simp: dl_pop_front_def dl_abs_def sl_abs_def Let_def seg_simps)
qed

lemma dl_insert_refines:
  assumes abs: "dl_abs op node s l (xs @ y # ys)" and x: "node x" "x \<notin> set (xs @ y # ys)"
    and len: "Suc (List.length (xs @ y # ys)) < 2 ^ 64"
  shows "\<exists>s' l'. dl_insert op x y (s, l) = Inr (s', l') \<and> dl_abs op node s' l' (xs @ x # y # ys)"
proof (cases xs rule: rev_cases)
  case Nil
  then show ?thesis
    using dl_push_front_refines [OF abs x len] abs
    by (auto simp: dl_insert_def dl_abs_def sl_abs_def split: prod.splits)
next
  case (snoc zs p)
  then have "First l \<noteq> y"
    using abs by (cases zs) (auto simp: dl_abs_def sl_abs_def)
  moreover have "getPrev op s y = p" "getNext op s p = y"
    using abs snoc by (auto simp: dl_abs_def sl_abs_def lseg_append pseg_append)
  ultimately show ?thesis
    using assms snoc
    by (auto simp: dl_insert_def dl_abs_def sl_abs_def seg_simps Let_def lseg_append pseg_append
        CHECK_def)
qed

lemma dl_remove_refines:
  assumes abs: "dl_abs op node s l (xs @ x # ys)"
  shows "\<exists>s' l'. dl_remove op x (s, l) = Inr (s', l') \<and> dl_abs op node s' l' (xs @ ys)"
proof -
  have nd: "\<forall>z\<in>set (xs @ x # ys). node z" "distinct (xs @ x # ys)"
    using abs by (auto simp: dl_abs_def sl_abs_def)
  have nn: "z \<noteq> null op" if "node z" for z using that null_node by auto
  have lx: "Last l \<noteq> x" if "ys \<noteq> []"
    using that nd abs last_in_set [OF that] by (auto simp: dl_abs_def sl_abs_def)
  show ?thesis
  proof (cases xs rule: rev_cases; cases ys)
    assume "xs = []" "ys = []"
    then show ?thesis
      using assms by (auto simp: dl_remove_def dl_abs_def sl_abs_def Let_def)
  next
    fix y zs assume *: "xs = []" "ys = y # zs"
    then show ?thesis
      using assms nd nn [of y] lx
      by (auto simp: dl_remove_def dl_abs_def sl_abs_def Let_def seg_simps CHECK_def)
  next
    fix zs p assume *: "xs = zs @ [p]" "ys = []"
    moreover have "First l \<noteq> x"
      using abs * by (cases zs) (auto simp: dl_abs_def sl_abs_def)
    ultimately show ?thesis
      using assms nd nn [of p]
      by (auto simp: dl_remove_def dl_abs_def sl_abs_def Let_def seg_simps CHECK_def lseg_append pseg_append)
  next
    fix zs p y us assume *: "xs = zs @ [p]" "ys = y # us"
    moreover have "First l \<noteq> x"
      using abs * by (cases zs) (auto simp: dl_abs_def sl_abs_def)
    ultimately show ?thesis
      using assms nd nn [of p] nn [of y] lx
      by (auto simp: dl_remove_def dl_abs_def sl_abs_def Let_def seg_simps CHECK_def lseg_append pseg_append)
  qed
qed

text \<open>Frames: what an operation on one list leaves of the links of the nodes outside of it, for lists
  that share a store.\<close>

lemma sl_abs_agree:
  "sl_abs op node s l xs \<Longrightarrow> (\<And>y. y \<in> set xs \<Longrightarrow> getNext op s' y = getNext op s y) \<Longrightarrow> sl_abs op node s' l xs"
  using lseg_cong [of xs op s' s] by (auto simp: sl_abs_def)

lemma dl_abs_agree:
  "dl_abs op node s l xs \<Longrightarrow> (\<And>y. y \<in> set xs \<Longrightarrow> getNext op s' y = getNext op s y \<and> getPrev op s' y = getPrev op s y) \<Longrightarrow>
    dl_abs op node s' l xs"
  using sl_abs_agree [of s l xs s'] pseg_cong [of xs op s' s] by (auto simp: dl_abs_def)

lemma sl_first: "sl_abs op node s l xs \<Longrightarrow> First l = null op \<or> node (First l)"
  by (cases xs) (auto simp: sl_abs_def)

lemma sl_push_front_frame:
  assumes "sl_abs op node s l xs" "node x" "node y" "y \<noteq> x" "sl_push_front op x (s, l) = (s', l')"
  shows "getNext op s' y = getNext op s y \<and> getPrev op s' y = getPrev op s y"
  using assms sl_first [OF assms(1)] by (auto simp: sl_push_front_def Let_def seg_simps)

lemma dl_push_front_frame:
  assumes "dl_abs op node s l xs" "node x" "node y" "y \<noteq> x" "y \<notin> set xs" "dl_push_front op x (s, l) = (s', l')"
  shows "getNext op s' y = getNext op s y \<and> getPrev op s' y = getPrev op s y"
  using assms sl_first [OF dl_abs_imp_sl [OF assms(1)]] sl_abs_empty_iff [OF dl_abs_imp_sl [OF assms(1)]]
  by (cases xs) (auto simp: dl_push_front_def dl_abs_def sl_abs_def Let_def seg_simps split: if_splits)

lemma dl_remove_frame:
  assumes abs: "dl_abs op node s l (xs @ x # ys)" and y: "node y" "y \<notin> set (xs @ x # ys)"
    and r: "dl_remove op x (s, l) = Inr (s', l')"
  shows "getNext op s' y = getNext op s y \<and> getPrev op s' y = getPrev op s y"
proof -
  have nd: "\<forall>z\<in>set (xs @ x # ys). node z"
    using abs by (auto simp: dl_abs_def sl_abs_def)
  have p: "getPrev op s x = (if xs = [] then null op else last xs)"
    using abs by (auto simp: dl_abs_def pseg_append)
  have n: "getNext op s x = (if ys = [] then null op else hd ys)"
    using abs by (cases ys) (auto simp: dl_abs_def sl_abs_def lseg_append)
  have pn: "xs \<noteq> [] \<Longrightarrow> node (last xs) \<and> last xs \<noteq> y" "ys \<noteq> [] \<Longrightarrow> node (hd ys) \<and> hd ys \<noteq> y"
    using nd y by (auto dest: last_in_set hd_in_set)
  define Pv Nx where "Pv = getPrev op s x" and "Nx = getNext op s x"
  have g: "Pv \<noteq> null op \<Longrightarrow> node Pv \<and> Pv \<noteq> y" "Nx \<noteq> null op \<Longrightarrow> node Nx \<and> Nx \<noteq> y"
  proof -
    have "Pv = (if xs = [] then null op else last xs)" "Nx = (if ys = [] then null op else hd ys)"
      using p n by (simp_all add: Pv_def Nx_def)
    then show "Pv \<noteq> null op \<Longrightarrow> node Pv \<and> Pv \<noteq> y" "Nx \<noteq> null op \<Longrightarrow> node Nx \<and> Nx \<noteq> y"
      using pn by (cases "xs = []"; cases "ys = []"; simp)+
  qed
  have s': "s' = (let t = (if Pv \<noteq> null op then setNext op Pv Nx s else s)
      in if Nx \<noteq> null op then setPrev op Nx Pv t else t)"
    using r [unfolded dl_remove_def Let_def prod.case, folded Pv_def Nx_def]
    by (cases "Pv = null op"; cases "Nx = null op") (auto simp: Let_def)
  show ?thesis
    using g y(1) by (cases "Pv = null op"; cases "Nx = null op") (auto simp: s' Let_def seg_simps)
qed

end

section \<open>Both representations obey the laws\<close>

definition ptr_node :: "uptr \<Rightarrow> bool" where
  "ptr_node p \<longleftrightarrow> p \<noteq> 0"

definition idx_node :: "u16 \<Rightarrow> nat option \<Rightarrow> bool" where
  "idx_node EndOfListVal p = (case p of None \<Rightarrow> False
     | Some i \<Rightarrow> i < 2 ^ 16 \<and> of_nat i \<noteq> EndOfListVal)"

lemma idx_read_write: "p = None \<or> idx_node e p \<Longrightarrow> idx_read e (idx_write e p) = p"
  by (auto simp: idx_read_def idx_write_def idx_node_def unat_of_nat split: option.splits)

lemma idx_node_the: "idx_node e x \<Longrightarrow> idx_node e y \<Longrightarrow> the y = the x \<longleftrightarrow> y = x"
  by (cases x; cases y) (auto simp: idx_node_def)

interpretation ptr: link_laws ptr_link_op ptr_node
  by unfold_locales (auto simp: ptr_link_op_def ptr_node_def)

interpretation idx: link_laws "idx_link_op e" "idx_node e" for e
  by unfold_locales
    (auto simp: idx_link_op_def idx_read_write idx_node_the, simp_all add: idx_node_def)

section \<open>Consistency checks\<close>

lemma il_walk_lseg:
  assumes "lseg op s p xs q" "xs \<noteq> []" "distinct xs" "L = last xs"
  shows "il_walk op s L p c = Some (c + of_nat (List.length xs))"
  using assms
proof (induction xs arbitrary: p c)
  case (Cons x xs)
  show ?case
  proof (cases "xs = []")
    case True
    then show ?thesis using Cons.prems by (subst il_walk.simps) simp
  next
    case False
    then have "x \<noteq> L"
      using Cons.prems by auto
    then show ?thesis
      using Cons.prems False Cons.IH [of "getNext op s x" "c + 1"]
      by (subst il_walk.simps) (simp add: add.assoc)
  qed
qed simp

lemma lseg_last_next: "lseg op s p xs q \<Longrightarrow> xs \<noteq> [] \<Longrightarrow> getNext op s (last xs) = q"
  by (cases xs rule: rev_cases) (auto simp: lseg_append)

section \<open>Properties\<close>

text \<open>C27: A singly linked list that holds the nodes xs, after push_back, push_front, pop_front,
  insert after its i-th node or extract of the node after its i-th node, holds exactly the list
  that the operation names describe, for a fresh node x.\<close>

theorem singly_linked_refines:
  assumes "sl_abs ptr_link_op ptr_node s l xs" and "x \<noteq> 0" and "x \<notin> set xs"
    and "Suc (List.length xs) < 2 ^ 64"
  shows "(case sl_push_back ptr_link_op x (s, l) of (s', l') \<Rightarrow> sl_abs ptr_link_op ptr_node s' l' (xs @ [x])) \<and>
    (case sl_push_front ptr_link_op x (s, l) of (s', l') \<Rightarrow> sl_abs ptr_link_op ptr_node s' l' (x # xs)) \<and>
    (xs \<noteq> [] \<longrightarrow> (case sl_pop_front ptr_link_op (s, l) of (s', l') \<Rightarrow>
      First l = hd xs \<and> sl_abs ptr_link_op ptr_node s' l' (tl xs))) \<and>
    (\<forall>ys p zs. xs = ys @ p # zs \<longrightarrow> (case sl_insert ptr_link_op p x (s, l) of (s', l') \<Rightarrow>
      sl_abs ptr_link_op ptr_node s' l' (ys @ p # x # zs))) \<and>
    (\<forall>ys p y zs. xs = ys @ p # y # zs \<longrightarrow> (case sl_extract ptr_link_op p y (s, l) of (s', l') \<Rightarrow>
      sl_abs ptr_link_op ptr_node s' l' (ys @ p # zs)))"
proof (intro conjI impI allI)
  have x: "ptr_node x" using assms(2) by (simp add: ptr_node_def)
  show "case sl_push_back ptr_link_op x (s, l) of (s', l') \<Rightarrow> sl_abs ptr_link_op ptr_node s' l' (xs @ [x])"
    using assms x by (intro ptr.push_back_refines)
  show "case sl_push_front ptr_link_op x (s, l) of (s', l') \<Rightarrow> sl_abs ptr_link_op ptr_node s' l' (x # xs)"
    using assms x by (intro ptr.push_front_refines)
  show "case sl_pop_front ptr_link_op (s, l) of (s', l') \<Rightarrow>
      First l = hd xs \<and> sl_abs ptr_link_op ptr_node s' l' (tl xs)" if "xs \<noteq> []"
    using that assms(1) ptr.pop_front_refines [of s l "hd xs" "tl xs"]
    by (cases xs) (auto simp: sl_abs_def)
  show "case sl_insert ptr_link_op p x (s, l) of (s', l') \<Rightarrow>
      sl_abs ptr_link_op ptr_node s' l' (ys @ p # x # zs)" if "xs = ys @ p # zs" for ys p zs
    using assms(1,3,4) x unfolding that by (intro ptr.insert_refines)
  show "case sl_extract ptr_link_op p y (s, l) of (s', l') \<Rightarrow>
      sl_abs ptr_link_op ptr_node s' l' (ys @ p # zs)" if "xs = ys @ p # y # zs" for ys p y zs
    using assms(1) unfolding that by (rule ptr.extract_refines)
qed

theorem singly_linked_refines_witness:
  "case sl_push_back ptr_link_op 32 (\<lparr>pNext = (\<lambda>_. 0), pPrev = (\<lambda>_. 0)\<rparr>, \<lparr>First = 16, Last = 16, Size = 1\<rparr>)
   of (s', l') \<Rightarrow> sl_abs ptr_link_op ptr_node s' l' ([16] @ [32])"
  by (rule singly_linked_refines [THEN conjunct1])
    (simp_all add: sl_abs_def ptr_link_op_def ptr_node_def)

text \<open>C28: A doubly linked list with index links that holds the nodes xs, after push_front,
  push_back, pop_front, insert before one of its nodes or remove of one of its nodes, holds the
  described list, and neither insert nor remove reports a failed CHECK.\<close>

theorem doubly_linked_refines:
  assumes "dl_abs (idx_link_op e) (idx_node e) s l xs" and "idx_node e x" and "x \<notin> set xs"
    and "Suc (List.length xs) < 2 ^ 64"
  shows "(case dl_push_back (idx_link_op e) x (s, l) of (s', l') \<Rightarrow>
      dl_abs (idx_link_op e) (idx_node e) s' l' (xs @ [x])) \<and>
    (case dl_push_front (idx_link_op e) x (s, l) of (s', l') \<Rightarrow>
      dl_abs (idx_link_op e) (idx_node e) s' l' (x # xs)) \<and>
    (\<forall>y ys. xs = y # ys \<longrightarrow> (case dl_pop_front (idx_link_op e) (s, l) of (s', l') \<Rightarrow>
      dl_abs (idx_link_op e) (idx_node e) s' l' ys)) \<and>
    (\<forall>ys y zs. xs = ys @ y # zs \<longrightarrow> (\<exists>s' l'. dl_insert (idx_link_op e) x y (s, l) = Inr (s', l') \<and>
      dl_abs (idx_link_op e) (idx_node e) s' l' (ys @ x # y # zs))) \<and>
    (\<forall>ys y zs. xs = ys @ y # zs \<longrightarrow> (\<exists>s' l'. dl_remove (idx_link_op e) y (s, l) = Inr (s', l') \<and>
      dl_abs (idx_link_op e) (idx_node e) s' l' (ys @ zs)))"
proof (intro conjI impI allI)
  show "case dl_push_back (idx_link_op e) x (s, l) of (s', l') \<Rightarrow>
      dl_abs (idx_link_op e) (idx_node e) s' l' (xs @ [x])"
    using assms by (intro idx.dl_push_back_refines)
  show "case dl_push_front (idx_link_op e) x (s, l) of (s', l') \<Rightarrow>
      dl_abs (idx_link_op e) (idx_node e) s' l' (x # xs)"
    using assms by (intro idx.dl_push_front_refines)
  show "case dl_pop_front (idx_link_op e) (s, l) of (s', l') \<Rightarrow>
      dl_abs (idx_link_op e) (idx_node e) s' l' ys" if "xs = y # ys" for y ys
    using assms(1) unfolding that by (rule idx.dl_pop_front_refines)
  show "\<exists>s' l'. dl_insert (idx_link_op e) x y (s, l) = Inr (s', l') \<and>
      dl_abs (idx_link_op e) (idx_node e) s' l' (ys @ x # y # zs)" if "xs = ys @ y # zs" for ys y zs
    using assms unfolding that by (rule idx.dl_insert_refines)
  show "\<exists>s' l'. dl_remove (idx_link_op e) y (s, l) = Inr (s', l') \<and>
      dl_abs (idx_link_op e) (idx_node e) s' l' (ys @ zs)" if "xs = ys @ y # zs" for ys y zs
    using assms(1) unfolding that by (rule idx.dl_remove_refines)
qed

theorem doubly_linked_refines_witness:
  "case dl_push_back (idx_link_op 0xffff) (Some 3)
     (\<lparr>iNext = (\<lambda>_. 0xffff), iPrev = (\<lambda>_. 0xffff)\<rparr>, \<lparr>First = Some 7, Last = Some 7, Size = 1\<rparr>)
   of (s', l') \<Rightarrow> dl_abs (idx_link_op 0xffff) (idx_node 0xffff) s' l' ([Some 7] @ [Some 3])"
  by (rule doubly_linked_refines [THEN conjunct1])
    (simp_all add: dl_abs_def sl_abs_def idx_link_op_def idx_node_def idx_read_def)

text \<open>On every list whose links hold its nodes, in either representation, checkConsistency
  terminates and passes all its CHECKs.\<close>

theorem checkConsistency_passes:
  assumes "sl_abs op node s l xs"
  shows "checkConsistency op s l = Some (Inr ())"
proof (cases "xs = []")
  case True
  then show ?thesis
    using assms by (simp add: checkConsistency_def sl_abs_def CHECK_def)
next
  case False
  have "il_walk op s (Last l) (First l) 0 = Some (Size l)"
    using assms False il_walk_lseg [of op s "First l" xs "null op" "Last l" 0] by (simp add: sl_abs_def)
  moreover have "Size l \<noteq> 0"
    using sl_abs_empty_iff [OF assms] False by (simp add: il_empty_def)
  moreover have "getNext op s (Last l) = null op"
    using assms False lseg_last_next [of op s "First l" xs "null op"] by (simp add: sl_abs_def)
  ultimately show ?thesis
    by (simp add: checkConsistency_def CHECK_def)
qed

theorem checkConsistency_passes_witness:
  "checkConsistency ptr_link_op \<lparr>pNext = (\<lambda>p. if p = 16 then 48 else 0), pPrev = (\<lambda>_. 0)\<rparr>
     \<lparr>First = 16, Last = 48, Size = 2\<rparr> = Some (Inr ())"
  by (rule checkConsistency_passes [where xs = "[16, 48]" and node = ptr_node])
    (simp add: sl_abs_def ptr_link_op_def ptr_node_def)



end
