(* ===== verification/Options_Stats.thy ===== *)
theory Options_Stats
  imports Common Intrusive_List
begin

text \<open>options.h: the option word and its atomic updates, each one atomic step. stats.h: the
  statistics counters of a cache, and the global statistics that sum the counters of the linked
  caches.\<close>

section \<open>Options\<close>

datatype OptionBit = MayReturnNull | FillContents0of2 | FillContents1of2 | OptDeallocTypeMismatch
  | OptDeleteSizeMismatch | TrackAllocationStacks | UseOddEvenTags | UseMemoryTagging
  | AddLargeAllocationSlack

fun bit_of :: "OptionBit \<Rightarrow> nat" where
  "bit_of MayReturnNull = 0"
| "bit_of FillContents0of2 = 1"
| "bit_of FillContents1of2 = 2"
| "bit_of OptDeallocTypeMismatch = 3"
| "bit_of OptDeleteSizeMismatch = 4"
| "bit_of TrackAllocationStacks = 5"
| "bit_of UseOddEvenTags = 6"
| "bit_of UseMemoryTagging = 7"
| "bit_of AddLargeAllocationSlack = 8"

text \<open>FillContentsMode of common.h by its value: NoFill 0, ZeroFill 1, PatternOrZeroFill 2.\<close>

definition NoFill :: u32 where "NoFill = 0"
definition ZeroFill :: u32 where "ZeroFill = 1"
definition PatternOrZeroFill :: u32 where "PatternOrZeroFill = 2"

definition opt_get :: "u32 \<Rightarrow> OptionBit \<Rightarrow> bool" where
  "opt_get Val Opt \<longleftrightarrow> Val AND push_bit (bit_of Opt) 1 \<noteq> 0"

definition getFillContentsMode :: "u32 \<Rightarrow> u32" where
  "getFillContentsMode Val = drop_bit (bit_of FillContents0of2) Val AND 3"

definition opt_clear :: "OptionBit \<Rightarrow> u32 \<Rightarrow> u32" where
  "opt_clear Opt Val = Val AND NOT (push_bit (bit_of Opt) 1)"

definition opt_set :: "OptionBit \<Rightarrow> u32 \<Rightarrow> u32" where
  "opt_set Opt Val = Val OR push_bit (bit_of Opt) 1"

definition setFillContentsMode :: "u32 \<Rightarrow> u32 \<Rightarrow> u32" where
  "setFillContentsMode FillContents Opts =
    (let NewOpts = Opts AND NOT (push_bit (bit_of FillContents0of2) 3)
     in NewOpts OR push_bit (bit_of FillContents0of2) FillContents)"

definition useMemoryTagging :: "bool \<Rightarrow> u32 \<Rightarrow> bool" where
  "useMemoryTagging supported Val \<longleftrightarrow> supported \<and> opt_get Val UseMemoryTagging"

lemma bit_of_inj: "bit_of a = bit_of b \<longleftrightarrow> a = b"
  by (cases a; cases b) auto

lemma bit_of_less: "bit_of a < 32"
  by (cases a) auto

lemma opt_get_bit: "opt_get Val Opt \<longleftrightarrow> bit Val (bit_of Opt)"
proof -
  have "Val AND push_bit (bit_of Opt) 1 = (if bit Val (bit_of Opt) then push_bit (bit_of Opt) 1 else 0)"
    by (rule bit_word_eqI) (auto simp: bit_simps)
  moreover have "unat (push_bit (bit_of Opt) 1 :: u32) = 2 ^ bit_of Opt"
    using unat_exp [of "bit_of Opt", where 'a = 32] bit_of_less [of Opt] by (simp add: push_bit_eq_mult)
  then have "push_bit (bit_of Opt) 1 \<noteq> (0 :: u32)" using bit_of_less [of Opt] by auto
  ultimately show ?thesis by (simp add: opt_get_def)
qed

lemma and_three_bits: "bit (3 :: u32) n \<longleftrightarrow> n < 2"
proof -
  have "bit (mask 2 :: u32) n \<longleftrightarrow> n < 2" by (auto simp only: bit_mask_iff len_of_numeral_defs) simp_all
  moreover have "(mask 2 :: u32) = 3" by (simp add: mask_eq_exp_minus_1)
  ultimately show ?thesis by simp
qed

lemma fill_bit: "bit (setFillContentsMode (m AND 3) Val) n \<longleftrightarrow>
    n < 32 \<and> (if n = 1 \<or> n = 2 then bit m (n - 1) else bit Val n)"
proof -
  have "bit (setFillContentsMode (m AND 3) Val) n \<longleftrightarrow> n < 32 \<and>
      (bit Val n \<and> \<not> (1 \<le> n \<and> n - 1 < 2) \<or> 1 \<le> n \<and> bit m (n - 1) \<and> n - 1 < 2)"
    unfolding setFillContentsMode_def Let_def bit_of.simps bit_or_iff bit_and_iff bit_not_iff
      bit_push_bit_iff and_three_bits by (auto dest: bit_imp_le_length)
  then show ?thesis by auto
qed

section \<open>Statistics\<close>

datatype StatType = StatAllocated | StatFree | StatMapped

type_synonym counters = "StatType \<Rightarrow> uptr"

definition stat_add :: "StatType \<Rightarrow> uptr \<Rightarrow> counters \<Rightarrow> counters" where
  "stat_add I V S = S(I := V + S I)"

definition stat_sub :: "StatType \<Rightarrow> uptr \<Rightarrow> counters \<Rightarrow> counters" where
  "stat_sub I V S = S(I := S I - V)"

definition stat_set :: "StatType \<Rightarrow> uptr \<Rightarrow> counters \<Rightarrow> counters" where
  "stat_set I V S = S(I := V)"

definition stat_get :: "StatType \<Rightarrow> counters \<Rightarrow> uptr" where
  "stat_get I S = S I"

text \<open>GlobalStats: its own counters and the list of linked LocalStats objects, which live at
  addresses and carry their counters and links.\<close>

record global_stats =
  gOwn :: counters
  gLocals :: "uptr \<Rightarrow> counters"
  gLinks :: ptr_links
  gList :: "uptr ilist"

definition gs_link :: "uptr \<Rightarrow> global_stats \<Rightarrow> global_stats" where
  "gs_link S G = (case dl_push_back ptr_link_op S (gLinks G, gList G) of
     (s, l) \<Rightarrow> G\<lparr>gLinks := s, gList := l\<rparr>)"

definition gs_unlink :: "uptr \<Rightarrow> global_stats \<Rightarrow> global_stats result" where
  "gs_unlink S G = bindR (dl_remove ptr_link_op S (gLinks G, gList G)) (\<lambda>(s, l).
     Inr (G\<lparr>gLinks := s, gList := l,
       gOwn := fold (\<lambda>I. stat_add I (stat_get I (gLocals G S))) [StatAllocated, StatFree, StatMapped] (gOwn G)\<rparr>))"

definition gs_get :: "global_stats \<Rightarrow> StatType \<Rightarrow> uptr" where
  "gs_get G I =
    (let S = fold (\<lambda>p acc. acc + stat_get I (gLocals G p)) (il_iter ptr_link_op (gLinks G) (gList G))
           (stat_get I (gOwn G))
     in if 0 \<le> sint S then S else 0)"

lemma fold_add_sum: "fold (\<lambda>p acc. acc + f p) xs a = a + sum_list (map f xs)" for a :: "'a::comm_monoid_add"
  by (induction xs arbitrary: a) (simp_all add: add.assoc)

lemma gs_get_sum:
  assumes "dl_abs ptr_link_op ptr_node (gLinks G) (gList G) xs"
  shows "gs_get G I = (let S = gOwn G I + sum_list (map (\<lambda>p. gLocals G p I) xs) in if 0 \<le> sint S then S else 0)"
  using ptr.iter_refines [OF dl_abs_imp_sl [OF assms]] by (simp add: gs_get_def stat_get_def fold_add_sum)

section \<open>Properties\<close>

text \<open>Setting and clearing an option changes exactly that option, and the fill mode written by
  setFillContentsMode (a value below 4) is the one read back, all other options being kept.\<close>

theorem options_independent:
  "opt_get (opt_set a Val) b = (a = b \<or> opt_get Val b) \<and>
   opt_get (opt_clear a Val) b = (a \<noteq> b \<and> opt_get Val b) \<and>
   getFillContentsMode (setFillContentsMode (m AND 3) Val) = m AND 3 \<and>
   (b = FillContents0of2 \<or> b = FillContents1of2 \<or>
     opt_get (setFillContentsMode (m AND 3) Val) b = opt_get Val b)"
proof (intro conjI)
  show "opt_get (opt_set a Val) b = (a = b \<or> opt_get Val b)"
    using bit_of_less [of b] bit_of_inj [of a b]
    by (auto simp: opt_get_bit opt_set_def bit_simps)
  show "opt_get (opt_clear a Val) b = (a \<noteq> b \<and> opt_get Val b)"
    using bit_of_less [of b] bit_of_inj [of a b]
    by (auto simp: opt_get_bit opt_clear_def bit_simps)
  show "getFillContentsMode (setFillContentsMode (m AND 3) Val) = m AND 3"
  proof (rule bit_word_eqI)
    fix n assume "n < LENGTH(32)"
    show "bit (getFillContentsMode (setFillContentsMode (m AND 3) Val)) n = bit (m AND 3) n"
      unfolding getFillContentsMode_def bit_and_iff bit_drop_bit_eq fill_bit and_three_bits bit_of.simps comp_def
      by auto
  qed
  show "b = FillContents0of2 \<or> b = FillContents1of2 \<or>
     opt_get (setFillContentsMode (m AND 3) Val) b = opt_get Val b"
    by (cases b) (simp_all add: opt_get_bit fill_bit)
qed

text \<open>Unlinking the counters of an exiting cache succeeds and leaves every global statistic as it
  was: the counters are folded into the global ones exactly when they leave the list.\<close>

theorem unlink_keeps_totals:
  assumes "dl_abs ptr_link_op ptr_node (gLinks G) (gList G) (xs @ S # ys)"
  shows "\<exists>G'. gs_unlink S G = Inr G' \<and> gs_get G' = gs_get G \<and>
    dl_abs ptr_link_op ptr_node (gLinks G') (gList G') (xs @ ys)"
proof -
  obtain s l where r: "dl_remove ptr_link_op S (gLinks G, gList G) = Inr (s, l)"
    and a: "dl_abs ptr_link_op ptr_node s l (xs @ ys)"
    using ptr.dl_remove_refines [OF assms] by blast
  define G' where "G' = G\<lparr>gLinks := s, gList := l,
    gOwn := fold (\<lambda>I. stat_add I (stat_get I (gLocals G S))) [StatAllocated, StatFree, StatMapped] (gOwn G)\<rparr>"
  have "gs_unlink S G = Inr G'"
    by (simp add: gs_unlink_def r G'_def)
  moreover have "gOwn G' I = gLocals G S I + gOwn G I" for I
    by (cases I) (simp_all add: G'_def stat_add_def stat_get_def)
  then have "gs_get G' I = gs_get G I" for I
    using gs_get_sum [OF assms] gs_get_sum [of G' "xs @ ys"] a
    by (simp add: G'_def algebra_simps)
  ultimately show ?thesis
    using a by (auto simp: G'_def fun_eq_iff)
qed

theorem unlink_keeps_totals_witness:
  "\<exists>G'. gs_unlink 16 \<lparr> gOwn = (\<lambda>_. 5), gLocals = (\<lambda>_. (\<lambda>_. 3)), gLinks = \<lparr>pNext = (\<lambda>_. 0), pPrev = (\<lambda>_. 0)\<rparr>,
      gList = \<lparr>First = 16, Last = 16, Size = 1\<rparr> \<rparr> = Inr G' \<and> gs_get G' StatFree = 8"
proof -
  let ?G = "\<lparr> gOwn = (\<lambda>_. 5), gLocals = (\<lambda>_. (\<lambda>_. 3)), gLinks = \<lparr>pNext = (\<lambda>_. 0), pPrev = (\<lambda>_. 0)\<rparr>,
      gList = \<lparr>First = 16, Last = 16, Size = 1\<rparr> \<rparr>"
  have "\<exists>G'. gs_unlink 16 ?G = Inr G' \<and> gs_get G' = gs_get ?G \<and>
    dl_abs ptr_link_op ptr_node (gLinks G') (gList G') ([] @ [])"
    by (rule unlink_keeps_totals) (simp add: dl_abs_def sl_abs_def ptr_link_op_def ptr_node_def)
  moreover have "gs_get ?G StatFree = 8"
    by (simp add: gs_get_def il_iter_def stat_get_def ptr_link_op_def)
  ultimately show ?thesis by metis
qed

end
