(* ===== verification/Mem_Map.thy ===== *)
theory Mem_Map
  imports Options_Stats
begin

text \<open>The memory mappings as the allocators see them: a MemMapT is a base and a capacity, and what an
  operation asks of the platform is recorded as an event, in order. What the platform answers is
  part of the environment: whether a mapping can be created or replaced, and the time.\<close>

record mem_map =
  mBase :: uptr
  mCapacity :: uptr

definition no_map :: mem_map where
  "no_map = \<lparr> mBase = 0, mCapacity = 0 \<rparr>"

datatype os_event =
    Map mem_map
  | Unmap mem_map
  | SetPermission mem_map uptr uptr uptr
  | ReleaseAndZero mem_map uptr uptr
  | Remap mem_map uptr uptr uptr
  | StoreTags uptr uptr
  | MemSet uptr u8 uptr

text \<open>The platform: page size, the build (Trusty, Fuchsia), whether a remap of an address, a size
  and flags succeeds, whether a vector buffer of a size can be mapped, and getMonotonicTimeFast.\<close>

record os_env =
  osPageSize :: uptr
  osTrusty :: bool
  osFuchsia :: bool
  remapOk :: "uptr \<Rightarrow> uptr \<Rightarrow> uptr \<Rightarrow> bool"
  growOk :: "uptr \<Rightarrow> bool"
  now :: u64

definition MAP_ALLOWNOMEM :: uptr where "MAP_ALLOWNOMEM = 1"
definition MAP_NOACCESS :: uptr where "MAP_NOACCESS = 2"
definition MAP_RESIZABLE :: uptr where "MAP_RESIZABLE = 4"
definition MAP_MEMTAG :: uptr where "MAP_MEMTAG = 8"

text \<open>The mappings that a sequence of events creates and removes.\<close>

definition unmapped :: "os_event list \<Rightarrow> mem_map multiset" where
  "unmapped ev = mset (List.map_filter (\<lambda>e. case e of Unmap m \<Rightarrow> Some m | _ \<Rightarrow> None) ev)"

definition mapped :: "os_event list \<Rightarrow> mem_map multiset" where
  "mapped ev = mset (List.map_filter (\<lambda>e. case e of Map m \<Rightarrow> Some m | _ \<Rightarrow> None) ev)"

lemma unmapped_simps [simp]:
  "unmapped [] = {#}" "unmapped (Unmap m # ev) = add_mset m (unmapped ev)"
  "unmapped (Map m # ev) = unmapped ev" "unmapped (SetPermission m b s f # ev) = unmapped ev"
  "unmapped (ReleaseAndZero m b s # ev) = unmapped ev" "unmapped (Remap m b s f # ev) = unmapped ev"
  "unmapped (StoreTags b e # ev) = unmapped ev" "unmapped (MemSet b v s # ev) = unmapped ev"
  "unmapped (ev @ ev') = unmapped ev + unmapped ev'"
  by (simp_all add: unmapped_def List.map_filter_def)

lemma mapped_simps [simp]:
  "mapped [] = {#}" "mapped (Map m # ev) = add_mset m (mapped ev)"
  "mapped (Unmap m # ev) = mapped ev" "mapped (SetPermission m b s f # ev) = mapped ev"
  "mapped (ReleaseAndZero m b s # ev) = mapped ev" "mapped (Remap m b s f # ev) = mapped ev"
  "mapped (StoreTags b e # ev) = mapped ev" "mapped (MemSet b v s # ev) = mapped ev"
  "mapped (ev @ ev') = mapped ev + mapped ev'"
  by (simp_all add: mapped_def List.map_filter_def)

end
