(* ===== verification/Vector.thy ===== *)
theory Vector
  imports Common
begin

text \<open>vector.h: the growable array whose first entries live in the object and whose later buffers
  are mapped memory. The buffer is a function from indices to elements; es is sizeof(T), zero the
  all-zero element, and grow says of a size in bytes whether mapping a buffer of it succeeds.\<close>

record 'a vector =
  Data :: "nat \<Rightarrow> 'a"
  CapacityBytes :: uptr
  vSize :: uptr
  External :: "uptr option"

definition vec_capacity :: "uptr \<Rightarrow> 'a vector \<Rightarrow> uptr" where
  "vec_capacity es v = CapacityBytes v div es"

text \<open>reallocate: the old external buffer, if any, is unmapped by destroy; the fresh pages are zero.\<close>

definition vec_reallocate :: "uptr \<Rightarrow> uptr \<Rightarrow> 'a \<Rightarrow> (uptr \<Rightarrow> bool) \<Rightarrow> uptr \<Rightarrow> 'a vector \<Rightarrow> bool \<times> 'a vector" where
  "vec_reallocate PageSize es zero grow NewCapacity v =
    (let NewCapacity = roundUp (NewCapacity * es) PageSize
     in if \<not> grow NewCapacity then (False, v)
     else (True, v\<lparr>Data := (\<lambda>i. if i < unat (vSize v) then Data v i else zero),
                   CapacityBytes := NewCapacity, External := Some NewCapacity\<rparr>))"

definition vec_push_back :: "uptr \<Rightarrow> uptr \<Rightarrow> 'a \<Rightarrow> (uptr \<Rightarrow> bool) \<Rightarrow> 'a \<Rightarrow> 'a vector \<Rightarrow> 'a vector" where
  "vec_push_back PageSize es zero grow x v =
    (let (ok, v) = (if vSize v = vec_capacity es v
                    then vec_reallocate PageSize es zero grow (roundUpPowerOfTwo (vSize v + 1)) v
                    else (True, v))
     in if \<not> ok then v
     else v\<lparr>Data := (Data v)(unat (vSize v) := x), vSize := vSize v + 1\<rparr>)"

definition vec_back :: "'a vector \<Rightarrow> 'a" where
  "vec_back v = Data v (unat (vSize v - 1))"

definition vec_pop_back :: "'a vector \<Rightarrow> 'a vector" where
  "vec_pop_back v = v\<lparr>vSize := vSize v - 1\<rparr>"

definition vec_reserve :: "uptr \<Rightarrow> uptr \<Rightarrow> 'a \<Rightarrow> (uptr \<Rightarrow> bool) \<Rightarrow> uptr \<Rightarrow> 'a vector \<Rightarrow> bool \<times> 'a vector" where
  "vec_reserve PageSize es zero grow NewSize v =
    (if vec_capacity es v < NewSize then vec_reallocate PageSize es zero grow NewSize v else (True, v))"

definition vec_resize :: "uptr \<Rightarrow> uptr \<Rightarrow> 'a \<Rightarrow> (uptr \<Rightarrow> bool) \<Rightarrow> uptr \<Rightarrow> 'a vector \<Rightarrow> 'a vector" where
  "vec_resize PageSize es zero grow NewSize v =
    (if vSize v < NewSize then
       (case vec_reserve PageSize es zero grow NewSize v of
          (ok, v) \<Rightarrow> if \<not> ok then v
            else v\<lparr>Data := (\<lambda>i. if unat (vSize v) \<le> i \<and> i < unat NewSize then zero else Data v i),
                   vSize := NewSize\<rparr>)
     else v\<lparr>vSize := NewSize\<rparr>)"

definition vec_clear :: "'a vector \<Rightarrow> 'a vector" where
  "vec_clear v = v\<lparr>vSize := 0\<rparr>"

definition vec_init :: "uptr \<Rightarrow> uptr \<Rightarrow> 'a \<Rightarrow> (uptr \<Rightarrow> bool) \<Rightarrow> uptr \<Rightarrow> uptr \<Rightarrow> 'a vector" where
  "vec_init PageSize es zero grow StaticNumEntries InitialCapacity =
    (let v = \<lparr> Data = (\<lambda>_. zero), CapacityBytes = StaticNumEntries * es, vSize = 0, External = None \<rparr>
     in if vec_capacity es v < InitialCapacity
        then snd (vec_reserve PageSize es zero grow InitialCapacity v) else v)"

section \<open>Abstraction to lists\<close>

definition vec_list :: "'a vector \<Rightarrow> 'a list" where
  "vec_list v = map (Data v) [0..<unat (vSize v)]"

definition vec_ok :: "uptr \<Rightarrow> 'a vector \<Rightarrow> bool" where
  "vec_ok es v \<longleftrightarrow> es \<noteq> 0 \<and> vSize v \<le> vec_capacity es v"

lemma vec_reallocate_list: "vec_list (snd (vec_reallocate P es z g n v)) = vec_list v"
  by (simp add: vec_reallocate_def vec_list_def Let_def)

lemma vec_reallocate_size [simp]: "vSize (snd (vec_reallocate P es z g n v)) = vSize v"
  by (simp add: vec_reallocate_def Let_def)

lemma roundUpPowerOfTwo_ge:
  assumes "0 < unat x" and "unat x \<le> 2 ^ 63"
  shows "x \<le> roundUpPowerOfTwo x" and "unat (roundUpPowerOfTwo x) < 2 * unat x"
proof -
  have x: "x \<noteq> 0" using assms by auto
  note m = msb_spec [OF x]
  let ?m = "getMostSignificantSetBitIndex x"
  have "x \<le> roundUpPowerOfTwo x \<and> unat (roundUpPowerOfTwo x) < 2 * unat x"
  proof (cases "isPowerOfTwo x")
    case False
    have m64: "?m < 64" using m by blast
    have "unat x \<noteq> 2 ^ ?m"
      using False m64 isPowerOfTwo_iff [of x] unat_exp [of ?m, where 'a = 64] by (auto simp: word_unat_eq_iff)
    then have lt: "2 ^ ?m < unat x" using m by simp
    have "?m \<noteq> 63"
      using lt assms(2) by auto
    then have "?m + 1 < 64" using m64 by simp
    then have "unat (push_bit (?m + 1) (1 :: uptr)) = 2 ^ (?m + 1)"
      using unat_exp [of "?m + 1", where 'a = 64] by (simp add: push_bit_eq_mult)
    then show ?thesis
      using m False lt by (simp add: roundUpPowerOfTwo_def word_le_nat_alt)
  qed (use x in \<open>simp add: roundUpPowerOfTwo_def unat_gt_0\<close>)
  then show "x \<le> roundUpPowerOfTwo x" "unat (roundUpPowerOfTwo x) < 2 * unat x" by auto
qed

text \<open>The vector after push_back holds the old elements and the new one, unless the buffer was full
  and could not grow; then the element is dropped.\<close>

lemma vec_push_back_list:
  assumes ok: "vec_ok es v" and P: "isPowerOfTwo P"
    and fit: "2 * (unat (vSize v) + 1) * unat es + unat P \<le> 2 ^ 64"
  shows "vec_ok es (vec_push_back P es z grow x v)"
    and "vec_list (vec_push_back P es z grow x v) =
      (if vSize v = vec_capacity es v \<and> \<not> grow (roundUp (roundUpPowerOfTwo (vSize v + 1) * es) P)
       then vec_list v else vec_list v @ [x])"
proof -
  have es: "0 < unat es" using ok by (simp add: vec_ok_def unat_gt_0)
  have "2 * (unat (vSize v) + 1) * 1 \<le> 2 * (unat (vSize v) + 1) * unat es"
    using es by (intro mult_le_mono2) simp
  then have s63: "unat (vSize v) + 1 \<le> 2 ^ 63" using fit by simp
  have s1: "unat (vSize v + 1) = unat (vSize v) + 1"
    using s63 by (subst unat_add_lem [THEN iffD1]) auto
  define r where "r = roundUpPowerOfTwo (vSize v + 1)"
  have r: "unat (vSize v) + 1 \<le> unat r" "unat r < 2 * (unat (vSize v) + 1)"
    using roundUpPowerOfTwo_ge [of "vSize v + 1"] s1 s63 by (auto simp: r_def word_le_nat_alt)
  have re: "unat r * unat es \<le> 2 * (unat (vSize v) + 1) * unat es"
    using r by (intro mult_le_mono1) simp
  have P0: "0 < unat P" using P by (auto simp: isPowerOfTwo_def unat_gt_0)
  have m: "unat (r * es) = unat r * unat es"
    using re fit P0 by (intro unat_mult_lt) simp
  have ge: "r * es \<le> roundUp (r * es) P"
    using roundUp_ge [OF P, of "r * es"] m re fit by simp
  have cap: "vSize v + 1 \<le> roundUp (r * es) P div es"
  proof -
    have "(unat (vSize v) + 1) * unat es \<le> unat (roundUp (r * es) P)"
    proof -
      have "(unat (vSize v) + 1) * unat es \<le> unat r * unat es" using r(1) by (rule mult_le_mono1)
      also have "\<dots> \<le> unat (roundUp (r * es) P)" using ge m by (simp only: word_le_nat_alt)
      finally show ?thesis .
    qed
    then have "unat (vSize v) + 1 \<le> unat (roundUp (r * es) P) div unat es"
      using es by (simp add: less_eq_div_iff_mult_less_eq)
    then show ?thesis
      using s1 by (simp add: word_le_nat_alt unat_div)
  qed
  let ?full = "vSize v = vec_capacity es v" and ?g = "grow (roundUp (r * es) P)"
  let ?v = "v\<lparr>Data := (\<lambda>i. if i < unat (vSize v) then Data v i else z),
    CapacityBytes := roundUp (r * es) P, External := Some (roundUp (r * es) P)\<rparr>"
  let ?put = "\<lambda>v :: 'a vector. v\<lparr>Data := (Data v)(unat (vSize v) := x), vSize := vSize v + 1\<rparr>"
  have e: "vec_push_back P es z grow x v = (if ?full then if ?g then ?put ?v else v else ?put v)"
    unfolding r_def by (simp add: vec_push_back_def vec_reallocate_def Let_def)
  have "vec_ok es (?put ?v)"
    using ok cap by (simp add: vec_ok_def vec_capacity_def)
  moreover have "vec_ok es (?put v)" if "\<not> ?full"
  proof -
    have "vSize v < vec_capacity es v" using ok that by (auto simp: vec_ok_def word_le_less_eq)
    then have "vSize v + 1 \<le> vec_capacity es v" using s1 by (simp add: word_le_nat_alt word_less_nat_alt)
    then show ?thesis using ok by (simp add: vec_ok_def vec_capacity_def)
  qed
  ultimately show "vec_ok es (vec_push_back P es z grow x v)"
    unfolding e using ok by (cases ?full; cases ?g) auto
  have p: "vec_list (?put w) = vec_list w @ [x]" if "vSize w = vSize v" for w
    using s1 that by (simp add: vec_list_def)
  have pv: "vec_list (?put ?v) = vec_list v @ [x]"
    using p [of ?v] by (simp add: vec_list_def)
  have "vec_list (if F then if G then a else v else b) = (if F \<and> \<not> G then vec_list v else vec_list v @ [x])"
    if "vec_list a = vec_list v @ [x]" "vec_list b = vec_list v @ [x]" for F G a b
    using that by simp
  from this [OF pv p [OF refl], of ?full ?g]
  show "vec_list (vec_push_back P es z grow x v) =
      (if vSize v = vec_capacity es v \<and> \<not> grow (roundUp (roundUpPowerOfTwo (vSize v + 1) * es) P)
       then vec_list v else vec_list v @ [x])"
    unfolding e unfolding r_def .
qed

end
