(* ===== verification/Secondary_Cache.thy ===== *)
theory Secondary_Cache
  imports Mem_Map Vector
begin

text \<open>secondary.h: the cache of large blocks. The entries live in an array; the ones in use form the
  LRU list and the others the list of available entries, both linked by array indices. Each
  operation returns the events it asks of the platform. The link fields of an entry that is copied
  are overwritten by the following push_front and are not part of CachedBlock here.\<close>

section \<open>State\<close>

record CachedBlock =
  cCommitBase :: uptr
  cCommitSize :: uptr
  cBlockBegin :: uptr
  cMemMap :: mem_map
  cTime :: u64

definition no_block :: CachedBlock where
  "no_block = \<lparr> cCommitBase = 0, cCommitSize = 0, cBlockBegin = 0, cMemMap = no_map, cTime = 0 \<rparr>"

definition isValidBlock :: "CachedBlock \<Rightarrow> bool" where
  "isValidBlock E \<longleftrightarrow> cCommitBase E \<noteq> 0"

definition invalidate :: "CachedBlock \<Rightarrow> CachedBlock" where
  "invalidate E = E\<lparr>cCommitBase := 0\<rparr>"

definition EndOfListVal :: u16 where "EndOfListVal = 0xFFFF"
definition MaxReleasedCachePages :: uptr where "MaxReleasedCachePages = 4"
definition MaxUnreleasedCachePages :: uptr where "MaxUnreleasedCachePages = 4"

record cache_config =
  EntriesArraySize :: nat
  QuarantineSize :: nat
  DefaultMaxEntriesCount :: nat
  DefaultMaxEntrySize :: uptr
  DefaultReleaseToOsIntervalMs :: int
  MinReleaseToOsIntervalMs :: int
  MaxReleaseToOsIntervalMs :: int

text \<open>The two configurations with a cache.\<close>

definition DefaultCacheConfig :: cache_config where
  "DefaultCacheConfig = \<lparr> EntriesArraySize = 32, QuarantineSize = 0, DefaultMaxEntriesCount = 32,
     DefaultMaxEntrySize = push_bit 19 1, DefaultReleaseToOsIntervalMs = - (2 ^ 31),
     MinReleaseToOsIntervalMs = - (2 ^ 31), MaxReleaseToOsIntervalMs = 2 ^ 31 - 1 \<rparr>"

definition AndroidCacheConfig :: cache_config where
  "AndroidCacheConfig = \<lparr> EntriesArraySize = 256, QuarantineSize = 32, DefaultMaxEntriesCount = 32,
     DefaultMaxEntrySize = push_bit 20 2, DefaultReleaseToOsIntervalMs = - (2 ^ 31),
     MinReleaseToOsIntervalMs = 0, MaxReleaseToOsIntervalMs = 1000 \<rparr>"

record cache =
  QuarantinePos :: u32
  MaxEntriesCount :: u32
  MaxEntrySize :: uptr
  OldestTime :: u64
  ReleaseToOsIntervalMs :: int
  CallsToRetrieve :: u32
  SuccessfulRetrieves :: u32
  cEntries :: "nat \<Rightarrow> CachedBlock"
  cQuarantine :: "nat \<Rightarrow> CachedBlock"
  cLinks :: idx_links
  LRUEntries :: "nat option ilist"
  AvailEntries :: "nat option ilist"

abbreviation "cop \<equiv> idx_link_op EndOfListVal"

section \<open>mapSecondary\<close>

text \<open>The result and the remap requests made; the second request of a pair is only made when the
  first one succeeded.\<close>

definition remap :: "os_env \<Rightarrow> mem_map \<Rightarrow> uptr \<Rightarrow> uptr \<Rightarrow> uptr \<Rightarrow> bool \<times> os_event list" where
  "remap env M Addr Sz Flags = (remapOk env Addr Sz Flags, [Remap M Addr Sz Flags])"

definition remap2 :: "bool \<times> os_event list \<Rightarrow> bool \<times> os_event list \<Rightarrow> bool \<times> os_event list" where
  "remap2 r r' = (if fst r then (fst r', snd r @ snd r') else r)"

definition mapSecondary :: "os_env \<Rightarrow> bool \<Rightarrow> uptr \<Rightarrow> uptr \<Rightarrow> uptr \<Rightarrow> uptr \<Rightarrow> mem_map \<Rightarrow> bool \<times> os_event list" where
  "mapSecondary env tag CommitBase CommitSize AllocPos Flags M =
    (let Flags = Flags OR MAP_RESIZABLE OR MAP_ALLOWNOMEM;
         PageSize = osPageSize env;
         RemapFlags = (if tag then MAP_MEMTAG else 0) OR Flags
     in if osTrusty env then
          let TaggedSize = AllocPos - CommitBase in
          if tag \<and> isAligned TaggedSize PageSize then
            remap2 (remap env M CommitBase TaggedSize (MAP_MEMTAG OR Flags))
              (remap env M AllocPos (CommitSize - TaggedSize) Flags)
          else remap env M CommitBase CommitSize RemapFlags
        else
          let MaxUnreleasedCacheBytes = MaxUnreleasedCachePages * PageSize in
          if tag \<and> MaxUnreleasedCacheBytes < CommitSize then
            let UntaggedPos = max AllocPos (CommitBase + MaxUnreleasedCacheBytes) in
            remap2 (remap env M CommitBase (UntaggedPos - CommitBase) (MAP_MEMTAG OR Flags))
              (remap env M UntaggedPos (CommitBase + CommitSize - UntaggedPos) Flags)
          else remap env M CommitBase CommitSize RemapFlags)"

section \<open>Entries\<close>

definition cache_insert :: "CachedBlock \<Rightarrow> cache \<Rightarrow> cache result" where
  "cache_insert Entry C =
    (case First (AvailEntries C) of
       None \<Rightarrow> Inl (NullDereference ''AvailEntries.front()'')
     | Some i \<Rightarrow>
       (let (s, av) = sl_pop_front cop (cLinks C, AvailEntries C);
            (s, lru) = dl_push_front cop (Some i) (s, LRUEntries C)
        in Inr (C\<lparr>cEntries := (cEntries C)(i := Entry), cLinks := s, AvailEntries := av, LRUEntries := lru\<rparr>)))"

definition cache_remove :: "nat \<Rightarrow> cache \<Rightarrow> cache result" where
  "cache_remove i C =
    bindR (dl_remove cop (Some i) (cLinks C, LRUEntries C)) (\<lambda>(s, lru).
      let (s, av) = sl_push_front cop (Some i) (s, AvailEntries C)
      in Inr (C\<lparr>cEntries := (cEntries C)(i := invalidate (cEntries C i)),
                cLinks := s, LRUEntries := lru, AvailEntries := av\<rparr>))"

text \<open>The loop of store that evicts the excess entries, least recently used first, and keeps their
  mappings in the vector EvictionMemMaps. Each round takes an entry off the list, so its size and
  one more round for the final test are enough fuel.\<close>

definition sizeof_MemMap :: uptr where "sizeof_MemMap = 16"

definition push_map :: "os_env \<Rightarrow> mem_map \<Rightarrow> mem_map vector \<Rightarrow> mem_map vector" where
  "push_map env = vec_push_back (osPageSize env) sizeof_MemMap no_map (growOk env)"

fun cache_evict :: "os_env \<Rightarrow> nat \<Rightarrow> mem_map vector \<Rightarrow> cache \<Rightarrow> (mem_map vector \<times> cache) result" where
  "cache_evict env 0 V C = Inr (V, C)"
| "cache_evict env (Suc n) V C =
    (if ucast (MaxEntriesCount C) \<le> Size (LRUEntries C) then
       case Last (LRUEntries C) of
         None \<Rightarrow> Inl (NullDereference ''LRUEntries.back()'')
       | Some i \<Rightarrow> bindR (cache_remove i C) (cache_evict env n (push_map env (cMemMap (cEntries C i)) V))
     else Inr (V, C))"

section \<open>Releasing memory of old entries\<close>

definition releaseIfOlderThan :: "u64 \<Rightarrow> CachedBlock \<Rightarrow> u64 \<Rightarrow> CachedBlock \<times> u64 \<times> os_event list" where
  "releaseIfOlderThan Time E Oldest =
    (if \<not> isValidBlock E \<or> cTime E = 0 then (E, Oldest, [])
     else if Time < cTime E then
       (E, if Oldest = 0 \<or> cTime E < Oldest then cTime E else Oldest, [])
     else (E\<lparr>cTime := 0\<rparr>, Oldest, [ReleaseAndZero (cMemMap E) (cCommitBase E) (cCommitSize E)]))"

definition release_quarantine :: "u64 \<Rightarrow> nat \<Rightarrow> cache \<times> os_event list \<Rightarrow> cache \<times> os_event list" where
  "release_quarantine Time I = (\<lambda>(C, ev). case releaseIfOlderThan Time (cQuarantine C I) (OldestTime C) of
     (E, Oldest, ev') \<Rightarrow> (C\<lparr>cQuarantine := (cQuarantine C)(I := E), OldestTime := Oldest\<rparr>, ev @ ev'))"

definition release_entry :: "u64 \<Rightarrow> nat \<Rightarrow> cache \<times> os_event list \<Rightarrow> cache \<times> os_event list" where
  "release_entry Time I = (\<lambda>(C, ev). case releaseIfOlderThan Time (cEntries C I) (OldestTime C) of
     (E, Oldest, ev') \<Rightarrow> (C\<lparr>cEntries := (cEntries C)(I := E), OldestTime := Oldest\<rparr>, ev @ ev'))"

definition releaseOlderThan :: "cache_config \<Rightarrow> u64 \<Rightarrow> cache \<Rightarrow> cache \<times> os_event list" where
  "releaseOlderThan cfg Time C =
    (if Size (LRUEntries C) = 0 \<or> OldestTime C = 0 \<or> Time < OldestTime C then (C, [])
     else fold (release_entry Time) [0..<EntriesArraySize cfg]
       (fold (release_quarantine Time) [0..<QuarantineSize cfg] (C\<lparr>OldestTime := 0\<rparr>, [])))"

definition cache_releaseToOS :: "cache_config \<Rightarrow> cache \<Rightarrow> cache \<times> os_event list" where
  "cache_releaseToOS cfg C = releaseOlderThan cfg (- 1) C"

section \<open>store\<close>

definition canCache :: "uptr \<Rightarrow> cache \<Rightarrow> bool" where
  "canCache Sz C \<longleftrightarrow> MaxEntriesCount C \<noteq> 0 \<and> Sz \<le> MaxEntrySize C"

text \<open>The entry that store creates, its time to be set under the lock, after the change of the
  memory's permission that tagging needs.\<close>

definition new_entry :: "os_env \<Rightarrow> bool \<Rightarrow> int \<Rightarrow> uptr \<Rightarrow> uptr \<Rightarrow> uptr \<Rightarrow> mem_map \<Rightarrow> CachedBlock \<times> os_event list" where
  "new_entry env tag Interval CommitBase CommitSize BlockBegin M =
    (let Entry = \<lparr> cCommitBase = CommitBase, cCommitSize = CommitSize, cBlockBegin = BlockBegin,
                   cMemMap = M, cTime = - 1 \<rparr>
     in if tag then
          if Interval = 0 \<and> \<not> osFuchsia env then
            (Entry\<lparr>cTime := 0\<rparr>, snd (mapSecondary env tag CommitBase CommitSize CommitBase MAP_NOACCESS M))
          else (Entry, [SetPermission M CommitBase CommitSize MAP_NOACCESS])
        else (Entry, []))"

text \<open>The quarantine that tagging puts in front of the cache: the new entry takes the next slot; the
  entry that it replaces goes on to the cache, and if there was none, store is done.\<close>

definition quarantine_step :: "cache_config \<Rightarrow> CachedBlock \<Rightarrow> cache \<Rightarrow> CachedBlock option \<times> cache" where
  "quarantine_step cfg Entry C =
    (let pos = (QuarantinePos C + 1) mod max (of_nat (QuarantineSize cfg)) 1;
         C = C\<lparr>QuarantinePos := pos\<rparr>;
         PrevEntry = cQuarantine C (unat pos);
         C = C\<lparr>cQuarantine := (cQuarantine C)(unat pos := Entry)\<rparr>
     in if \<not> isValidBlock PrevEntry then (None, C)
        else (Some PrevEntry, if OldestTime C = 0 then C\<lparr>OldestTime := cTime Entry\<rparr> else C))"

text \<open>Evict and insert, still under the lock.\<close>

definition insert_lru :: "os_env \<Rightarrow> CachedBlock \<Rightarrow> cache \<Rightarrow> (mem_map vector \<times> cache) result" where
  "insert_lru env Entry C =
    bindR (cache_evict env (Suc (unat (Size (LRUEntries C))))
        (vec_init (osPageSize env) sizeof_MemMap no_map (growOk env) 1 0) C) (\<lambda>(V, C).
    bindR (cache_insert Entry C) (\<lambda>C.
      Inr (V, if OldestTime C = 0 then C\<lparr>OldestTime := cTime Entry\<rparr> else C)))"

text \<open>After the lock: unmap what was evicted, then release what is old enough.\<close>

definition store_finish :: "cache_config \<Rightarrow> int \<Rightarrow> u64 \<Rightarrow> os_event list \<Rightarrow> mem_map list \<Rightarrow> cache \<Rightarrow> cache \<times> os_event list" where
  "store_finish cfg Interval Time ev Evicted C =
    (let ev = ev @ map Unmap Evicted in
     if 0 \<le> Interval then
       (case releaseOlderThan cfg (Time - of_int Interval * 1000000) C of (C, ev') \<Rightarrow> (C, ev @ ev'))
     else (C, ev))"

definition cache_store :: "os_env \<Rightarrow> cache_config \<Rightarrow> bool \<Rightarrow> uptr \<Rightarrow> uptr \<Rightarrow> uptr \<Rightarrow> mem_map \<Rightarrow> cache \<Rightarrow>
    (cache \<times> os_event list) result" where
  "cache_store env cfg tag CommitBase CommitSize BlockBegin M C =
    (let Interval = ReleaseToOsIntervalMs C;
         (Entry, ev) = new_entry env tag Interval CommitBase CommitSize BlockBegin M;
         Time = now env;
         Entry = (if cTime Entry \<noteq> 0 then Entry\<lparr>cTime := Time\<rparr> else Entry)
     in if tag \<and> QuarantinePos C = - 1 then
          Inr (store_finish cfg Interval Time (ev @ [Unmap (cMemMap Entry)]) [] C)
        else case (if QuarantineSize cfg \<noteq> 0 \<and> tag then quarantine_step cfg Entry C else (Some Entry, C)) of
          (None, C) \<Rightarrow> Inr (C, ev)
        | (Some Entry, C) \<Rightarrow> bindR (insert_lru env Entry C) (\<lambda>(V, C).
            Inr (store_finish cfg Interval Time ev (vec_list V) C)))"

section \<open>retrieve\<close>

text \<open>The position of the header that a request would get in an entry, the loop over the LRU list
  with the smallest difference so far, the entry that has it and its header position, and retrieve.\<close>

definition entry_AllocPos :: "uptr \<Rightarrow> uptr \<Rightarrow> CachedBlock \<Rightarrow> uptr" where
  "entry_AllocPos Sz Alignment E = roundDown (cCommitBase E + cCommitSize E - Sz) Alignment"

definition entry_unsuitable :: "os_env \<Rightarrow> uptr \<Rightarrow> uptr \<Rightarrow> uptr \<Rightarrow> uptr \<Rightarrow> CachedBlock \<Rightarrow> bool" where
  "entry_unsuitable env MaxAllowedFragmentedPages Sz Alignment HeadersSize E =
    (let AllocPos = entry_AllocPos Sz Alignment E; HeaderPos = AllocPos - HeadersSize;
         MaxAllowedFragmentedBytes = MaxAllowedFragmentedPages * osPageSize env
     in cCommitBase E + cCommitSize E < HeaderPos \<or> HeaderPos < cCommitBase E \<or>
        cCommitBase E + MaxAllowedFragmentedBytes < AllocPos)"

definition entry_Diff :: "os_env \<Rightarrow> uptr \<Rightarrow> uptr \<Rightarrow> uptr \<Rightarrow> CachedBlock \<Rightarrow> uptr" where
  "entry_Diff env Sz Alignment HeadersSize E =
    roundDown (entry_AllocPos Sz Alignment E - HeadersSize) (osPageSize env) - cCommitBase E"

fun cache_scan :: "os_env \<Rightarrow> uptr \<Rightarrow> uptr \<Rightarrow> uptr \<Rightarrow> uptr \<Rightarrow> (nat \<Rightarrow> CachedBlock) \<Rightarrow> nat list \<Rightarrow>
    uptr \<times> nat option \<times> uptr \<Rightarrow> uptr \<times> nat option \<times> uptr" where
  "cache_scan env MaxPages Sz Alignment HeadersSize Es [] acc = acc"
| "cache_scan env MaxPages Sz Alignment HeadersSize Es (i # is) (MinDiff, R, EntryHeaderPos) =
    (let E = Es i; HeaderPos = entry_AllocPos Sz Alignment E - HeadersSize;
         Diff = entry_Diff env Sz Alignment HeadersSize E
     in if entry_unsuitable env MaxPages Sz Alignment HeadersSize E \<or> MinDiff \<le> Diff then
          cache_scan env MaxPages Sz Alignment HeadersSize Es is (MinDiff, R, EntryHeaderPos)
        else if Diff \<le> (cCommitBase E + cCommitSize E - HeaderPos) div 10 then (Diff, Some i, HeaderPos)
        else cache_scan env MaxPages Sz Alignment HeadersSize Es is (Diff, Some i, HeaderPos))"

text \<open>The release of the part of a fragmented entry that lies before the header.\<close>

definition fragment_release :: "os_env \<Rightarrow> uptr \<Rightarrow> CachedBlock \<Rightarrow> os_event list" where
  "fragment_release env EntryHeaderPos E =
    (if cTime E = 0 then []
     else let PageSize = osPageSize env;
              FragmentedBytes = roundDown EntryHeaderPos PageSize - cCommitBase E;
              MaxUnreleasedCacheBytes = MaxUnreleasedCachePages * PageSize
     in if MaxUnreleasedCacheBytes < FragmentedBytes then
          let MaxReleasedCacheBytes = MaxReleasedCachePages * PageSize;
              BytesToRelease = roundUp (min MaxReleasedCacheBytes (FragmentedBytes - MaxUnreleasedCacheBytes)) PageSize
          in [ReleaseAndZero (cMemMap E) (cCommitBase E) BytesToRelease]
        else [])"

definition cache_retrieve :: "os_env \<Rightarrow> uptr \<Rightarrow> uptr \<Rightarrow> uptr \<Rightarrow> uptr \<Rightarrow> cache \<Rightarrow>
    (CachedBlock \<times> uptr \<times> cache \<times> os_event list) result" where
  "cache_retrieve env MaxAllowedFragmentedPages Sz Alignment HeadersSize C =
    (let C = C\<lparr>CallsToRetrieve := CallsToRetrieve C + 1\<rparr> in
     if Size (LRUEntries C) = 0 then Inr (no_block, 0, C, [])
     else case cache_scan env MaxAllowedFragmentedPages Sz Alignment HeadersSize (cEntries C)
         (map the (il_iter cop (cLinks C) (LRUEntries C))) (- 1, None, 0) of
       (_, None, EntryHeaderPos) \<Rightarrow>
         Inr (no_block, EntryHeaderPos, C, fragment_release env EntryHeaderPos no_block)
     | (_, Some i, EntryHeaderPos) \<Rightarrow>
         bindR (cache_remove i C) (\<lambda>C'.
           Inr (cEntries C i, EntryHeaderPos, C'\<lparr>SuccessfulRetrieves := SuccessfulRetrieves C' + 1\<rparr>,
             fragment_release env EntryHeaderPos (cEntries C i))))"

section \<open>Options, initialisation and the rest\<close>

datatype Option = ReleaseInterval | MemtagTuning | ThreadDisableMemInit | MaxCacheEntriesCount
  | MaxCacheEntrySize | MaxTSDsCount

definition to_s32 :: "int \<Rightarrow> int" where
  "to_s32 v = sint (of_int v :: 32 word)"

fun cache_setOption :: "cache_config \<Rightarrow> Option \<Rightarrow> int \<Rightarrow> cache \<Rightarrow> bool \<times> cache" where
  "cache_setOption cfg ReleaseInterval Value C = (True, C\<lparr>ReleaseToOsIntervalMs :=
     max (min (to_s32 Value) (MaxReleaseToOsIntervalMs cfg)) (MinReleaseToOsIntervalMs cfg)\<rparr>)"
| "cache_setOption cfg MaxCacheEntriesCount Value C =
    (if Value < 0 then (False, C)
     else (True, C\<lparr>MaxEntriesCount := min (of_int Value) (of_nat (EntriesArraySize cfg))\<rparr>))"
| "cache_setOption cfg MaxCacheEntrySize Value C = (True, C\<lparr>MaxEntrySize := of_int Value\<rparr>)"
| "cache_setOption cfg _ Value C = (True, C)"

definition INT32_MIN :: int where "INT32_MIN = - (2 ^ 31)"

definition cache_init :: "cache_config \<Rightarrow> int \<Rightarrow> cache \<Rightarrow> cache" where
  "cache_init cfg ReleaseToOsInterval C =
    (let C = snd (cache_setOption cfg MaxCacheEntriesCount (int (DefaultMaxEntriesCount cfg)) C);
         C = snd (cache_setOption cfg MaxCacheEntrySize (sint (DefaultMaxEntrySize cfg)) C);
         ReleaseToOsInterval = (if DefaultReleaseToOsIntervalMs cfg \<noteq> INT32_MIN
           then DefaultReleaseToOsIntervalMs cfg else ReleaseToOsInterval);
         C = snd (cache_setOption cfg ReleaseInterval ReleaseToOsInterval C);
         (s, av) = fold (\<lambda>I. sl_push_back cop (Some I)) [0..<EntriesArraySize cfg]
           (cLinks C, il_clear cop (AvailEntries C))
     in C\<lparr>LRUEntries := il_clear cop (LRUEntries C), cLinks := s, AvailEntries := av\<rparr>)"

definition cache_disableMemoryTagging :: "cache_config \<Rightarrow> cache \<Rightarrow> cache \<times> os_event list" where
  "cache_disableMemoryTagging cfg C =
    (let (Q, ev) = fold (\<lambda>I (Q, ev). if isValidBlock (Q I)
           then (Q(I := invalidate ((Q I)\<lparr>cMemMap := no_map\<rparr>)), ev @ [Unmap (cMemMap (Q I))]) else (Q, ev))
           [0..<QuarantineSize cfg] (cQuarantine C, []);
         perms = map (\<lambda>p. let E = cEntries C (the p) in SetPermission (cMemMap E) (cCommitBase E) (cCommitSize E) 0)
           (il_iter cop (cLinks C) (LRUEntries C))
     in (C\<lparr>cQuarantine := Q, QuarantinePos := - 1\<rparr>, ev @ perms))"

text \<open>empty, which only unmapTestOnly calls: the entries leave the LRU list but are not made available
  again.\<close>

definition cache_empty :: "cache \<Rightarrow> cache \<times> os_event list" where
  "cache_empty C = (C\<lparr>LRUEntries := il_clear cop (LRUEntries C)\<rparr>,
     map (\<lambda>p. Unmap (cMemMap (cEntries C (the p)))) (il_iter cop (cLinks C) (LRUEntries C)))"

record SecondaryCacheDebugStats =
  EntriesCount :: uptr
  CachedBytes :: uptr
  UnreleasedBytes :: uptr
  ReleasedBytes :: uptr
  dMaxEntriesCount :: uptr
  dMaxEntrySize :: uptr
  RetrieveCalls :: u32
  RetrieveHits :: u32

definition no_debug_stats :: SecondaryCacheDebugStats where
  "no_debug_stats = \<lparr> EntriesCount = 0, CachedBytes = 0, UnreleasedBytes = 0, ReleasedBytes = 0,
     dMaxEntriesCount = 0, dMaxEntrySize = 0, RetrieveCalls = 0, RetrieveHits = 0 \<rparr>"

definition cache_getDebugStats :: "cache \<Rightarrow> SecondaryCacheDebugStats" where
  "cache_getDebugStats C =
    fold (\<lambda>p D. let E = cEntries C (the p); D = D\<lparr>CachedBytes := CachedBytes D + cCommitSize E\<rparr>
        in if cTime E = 0 then D\<lparr>ReleasedBytes := ReleasedBytes D + cCommitSize E\<rparr>
           else D\<lparr>UnreleasedBytes := UnreleasedBytes D + cCommitSize E\<rparr>)
      (il_iter cop (cLinks C) (LRUEntries C))
      (no_debug_stats\<lparr>EntriesCount := Size (LRUEntries C), dMaxEntriesCount := ucast (MaxEntriesCount C),
         dMaxEntrySize := MaxEntrySize C, RetrieveCalls := CallsToRetrieve C, RetrieveHits := SuccessfulRetrieves C\<rparr>)"

definition cache_getRetrieveStats :: "cache \<Rightarrow> u32 \<times> u32" where
  "cache_getRetrieveStats C = (CallsToRetrieve C, SuccessfulRetrieves C)"

section \<open>The cache that never caches\<close>

definition nocache_retrieve :: "CachedBlock" where
  "nocache_retrieve = no_block"

definition nocache_store :: "'a result" where
  "nocache_store = Inl (CheckFailed ''It is not valid to call store on MapAllocatorNoCache objects.'')"

definition nocache_canCache :: "uptr \<Rightarrow> bool" where
  "nocache_canCache Sz = False"

definition nocache_setOption :: "Option \<Rightarrow> bool" where
  "nocache_setOption op \<longleftrightarrow> \<not> (op = ReleaseInterval \<or> op = MaxCacheEntriesCount \<or> op = MaxCacheEntrySize)"

end
