(* ===== verification/Secondary_Cache_Inv.thy ===== *)
theory Secondary_Cache_Inv
  imports Secondary_Cache
begin

text \<open>The invariant of the cache of large blocks (the LRU list and the available list partition the
  entry array, and exactly the entries on the LRU list are valid), that every operation keeps it,
  and what each operation does to the list of cached blocks and to the set of cached mappings.\<close>

section \<open>Invariant and abstraction\<close>

abbreviation "cnode \<equiv> idx_node EndOfListVal"

definition cache_inv :: "cache_config \<Rightarrow> nat list \<Rightarrow> nat list \<Rightarrow> cache \<Rightarrow> bool" where
  "cache_inv cfg lru av C \<longleftrightarrow>
    dl_abs cop cnode (cLinks C) (LRUEntries C) (map Some lru) \<and>
    sl_abs cop cnode (cLinks C) (AvailEntries C) (map Some av) \<and>
    distinct (lru @ av) \<and> set (lru @ av) = {..<EntriesArraySize cfg} \<and> EntriesArraySize cfg < 65535 \<and>
    (\<forall>i\<in>set lru. isValidBlock (cEntries C i)) \<and> (\<forall>i\<in>set av. \<not> isValidBlock (cEntries C i)) \<and>
    unat (MaxEntriesCount C) \<le> EntriesArraySize cfg"

text \<open>The cached blocks, most recently used first, and the mappings that the cache owns: those of the
  cached blocks and of the valid entries in the quarantine.\<close>

definition cached :: "nat list \<Rightarrow> cache \<Rightarrow> CachedBlock list" where
  "cached lru C = map (cEntries C) lru"

definition quarantined :: "cache_config \<Rightarrow> cache \<Rightarrow> CachedBlock list" where
  "quarantined cfg C = filter isValidBlock (map (cQuarantine C) [0..<QuarantineSize cfg])"

definition owned_maps :: "cache_config \<Rightarrow> nat list \<Rightarrow> cache \<Rightarrow> mem_map multiset" where
  "owned_maps cfg lru C = mset (map cMemMap (cached lru C)) + mset (map cMemMap (quarantined cfg C))"

definition same_rest :: "cache \<Rightarrow> cache \<Rightarrow> bool" where
  "same_rest C C' \<longleftrightarrow> C' = C\<lparr>cEntries := cEntries C', cLinks := cLinks C', LRUEntries := LRUEntries C',
     AvailEntries := AvailEntries C'\<rparr>"

lemma same_rest_fields:
  assumes "same_rest C C'"
  shows "QuarantinePos C' = QuarantinePos C" "MaxEntriesCount C' = MaxEntriesCount C" "MaxEntrySize C' = MaxEntrySize C"
    "OldestTime C' = OldestTime C" "ReleaseToOsIntervalMs C' = ReleaseToOsIntervalMs C" "cQuarantine C' = cQuarantine C"
  by (subst assms [unfolded same_rest_def], simp)+

lemma same_rest_refl [simp]: "same_rest C C"
  by (simp add: same_rest_def)

lemma same_rest_trans: "same_rest A B \<Longrightarrow> same_rest B C \<Longrightarrow> same_rest A C"
  by (cases A; cases B; cases C) (simp add: same_rest_def)

lemma same_rest_quarantined: "same_rest C C' \<Longrightarrow> quarantined cfg C' = quarantined cfg C"
  by (simp add: quarantined_def same_rest_fields)

lemma cnode_Some: "i < 65535 \<Longrightarrow> cnode (Some i)"
proof -
  assume i: "i < 65535"
  have "(of_nat i :: u16) \<noteq> 0xFFFF"
  proof
    assume "(of_nat i :: u16) = 0xFFFF"
    then have "unat (of_nat i :: u16) = 65535" by simp
    then show False using i by (simp add: unat_of_nat take_bit_eq_mod)
  qed
  then show ?thesis using i by (simp add: idx_node_def EndOfListVal_def)
qed

lemma cache_inv_len:
  assumes "cache_inv cfg lru av C"
  shows "List.length lru + List.length av = EntriesArraySize cfg" "List.length lru < 65535"
    "unat (Size (LRUEntries C)) = List.length lru"
proof -
  have "card (set (lru @ av)) = List.length (lru @ av)"
    using assms by (intro distinct_card) (simp add: cache_inv_def)
  then show l: "List.length lru + List.length av = EntriesArraySize cfg"
    using assms by (simp add: cache_inv_def)
  then show "List.length lru < 65535"
    using assms by (simp add: cache_inv_def)
  then show "unat (Size (LRUEntries C)) = List.length lru"
    using assms by (simp add: cache_inv_def dl_abs_def sl_abs_def unat_of_nat take_bit_eq_mod)
qed

lemma cache_inv_node: "cache_inv cfg lru av C \<Longrightarrow> i \<in> set lru \<union> set av \<Longrightarrow> cnode (Some i)"
  by (rule cnode_Some) (auto simp: cache_inv_def)

section \<open>Moving one entry\<close>

lemma cache_remove_inv:
  assumes inv: "cache_inv cfg (xs @ i # ys) av C"
  shows "\<exists>C'. cache_remove i C = Inr C' \<and> cache_inv cfg (xs @ ys) (i # av) C' \<and> same_rest C C' \<and>
    cEntries C' = (cEntries C)(i := invalidate (cEntries C i))"
proof -
  let ?s = "cLinks C" and ?xs = "map Some xs" and ?ys = "map Some ys" and ?av = "map Some av"
  have d: "dl_abs cop cnode ?s (LRUEntries C) (?xs @ Some i # ?ys)"
    and a: "sl_abs cop cnode ?s (AvailEntries C) ?av" and dis: "distinct ((xs @ i # ys) @ av)"
    using inv by (simp_all add: cache_inv_def)
  have nd: "cnode (Some j)" if "j \<in> set (xs @ i # ys) \<union> set av" for j
    using cache_inv_node [OF inv] that by auto
  obtain s1 l1 where r: "dl_remove cop (Some i) (?s, LRUEntries C) = Inr (s1, l1)"
    and d1: "dl_abs cop cnode s1 l1 (?xs @ ?ys)"
    using idx.dl_remove_refines [OF d] by blast
  have a1: "sl_abs cop cnode s1 (AvailEntries C) ?av"
  proof (rule idx.sl_abs_agree [OF a])
    fix y assume "y \<in> set ?av"
    then show "getNext cop s1 y = getNext cop ?s y"
      using idx.dl_remove_frame [OF d _ _ r, of y] dis nd by auto
  qed
  obtain s2 l2 where p: "sl_push_front cop (Some i) (s1, AvailEntries C) = (s2, l2)"
    by fastforce
  have len: "Suc (List.length ?av) < 2 ^ 64"
    using cache_inv_len(1) [OF inv] inv by (simp add: cache_inv_def)
  have a2: "sl_abs cop cnode s2 l2 (Some i # ?av)"
    using idx.push_front_refines [OF a1 _ _ len, of "Some i"] p dis nd [of i] by auto
  have d2: "dl_abs cop cnode s2 l1 (?xs @ ?ys)"
  proof (rule idx.dl_abs_agree [OF d1])
    fix y assume "y \<in> set (?xs @ ?ys)"
    then show "getNext cop s2 y = getNext cop s1 y \<and> getPrev cop s2 y = getPrev cop s1 y"
      using idx.sl_push_front_frame [OF a1 nd [of i] _ _ p, of y] dis nd by auto
  qed
  let ?C = "C\<lparr>cEntries := (cEntries C)(i := invalidate (cEntries C i)), cLinks := s2, LRUEntries := l1, AvailEntries := l2\<rparr>"
  have "cache_remove i C = Inr ?C"
    by (simp add: cache_remove_def r p)
  moreover have "cache_inv cfg (xs @ ys) (i # av) ?C"
    using inv d2 a2 unfolding cache_inv_def by (auto simp: invalidate_def isValidBlock_def)
  moreover have "same_rest C ?C" by (simp add: same_rest_def)
  ultimately show ?thesis by auto
qed

lemma cache_insert_inv:
  assumes inv: "cache_inv cfg lru (i # av) C" and E: "isValidBlock E"
  shows "\<exists>C'. cache_insert E C = Inr C' \<and> cache_inv cfg (i # lru) av C' \<and> same_rest C C' \<and>
    cEntries C' = (cEntries C)(i := E)"
proof -
  let ?s = "cLinks C" and ?lru = "map Some lru" and ?av = "map Some av"
  have d: "dl_abs cop cnode ?s (LRUEntries C) ?lru" and a: "sl_abs cop cnode ?s (AvailEntries C) (Some i # ?av)"
    and dis: "distinct (lru @ i # av)"
    using inv by (simp_all add: cache_inv_def)
  have nd: "cnode (Some j)" if "j \<in> set lru \<union> set (i # av)" for j
    using cache_inv_node [OF inv that] .
  have f: "First (AvailEntries C) = Some i"
    using a by (simp add: sl_abs_def)
  obtain s1 l1 where p: "sl_pop_front cop (?s, AvailEntries C) = (s1, l1)" by fastforce
  have a1: "s1 = ?s" "sl_abs cop cnode s1 l1 ?av"
    using idx.pop_front_refines [OF a] p by auto
  obtain s2 l2 where q: "dl_push_front cop (Some i) (s1, LRUEntries C) = (s2, l2)" by fastforce
  have len: "Suc (List.length ?lru) < 2 ^ 64"
    using cache_inv_len(2) [OF inv] by simp
  have d2: "dl_abs cop cnode s2 l2 (Some i # ?lru)"
    using idx.dl_push_front_refines [OF d _ _ len, of "Some i"] q a1(1) dis nd [of i] by auto
  have a2: "sl_abs cop cnode s2 l1 ?av"
  proof (rule idx.sl_abs_agree [OF a1(2)])
    fix y assume "y \<in> set ?av"
    then show "getNext cop s2 y = getNext cop s1 y"
      using idx.dl_push_front_frame [OF d nd [of i] _ _ _ q [unfolded a1(1)], of y] a1(1) dis nd by auto
  qed
  let ?C = "C\<lparr>cEntries := (cEntries C)(i := E), cLinks := s2, AvailEntries := l1, LRUEntries := l2\<rparr>"
  have "cache_insert E C = Inr ?C"
    by (simp add: cache_insert_def f p q)
  moreover have "cache_inv cfg (i # lru) av ?C"
    using inv d2 a2 E unfolding cache_inv_def by auto
  moreover have "same_rest C ?C" by (simp add: same_rest_def)
  ultimately show ?thesis by auto
qed

section \<open>Eviction\<close>

text \<open>A page size and vectors small enough for their arithmetic not to wrap.\<close>

definition page_ok :: "os_env \<Rightarrow> bool" where
  "page_ok env \<longleftrightarrow> isPowerOfTwo (osPageSize env) \<and> unat (osPageSize env) \<le> 2 ^ 32"

lemma push_map_list:
  assumes "vec_ok sizeof_MemMap V" and "unat (vSize V) < 2 ^ 32" and "page_ok env" and "\<forall>n. growOk env n"
  shows "vec_ok sizeof_MemMap (push_map env m V)" and "vec_list (push_map env m V) = vec_list V @ [m]"
    and "unat (vSize (push_map env m V)) = Suc (unat (vSize V))"
proof -
  have fit: "2 * (unat (vSize V) + 1) * unat sizeof_MemMap + unat (osPageSize env) \<le> 2 ^ 64"
    using assms(2,3) by (simp add: page_ok_def sizeof_MemMap_def)
  have P: "isPowerOfTwo (osPageSize env)" using assms(3) by (simp add: page_ok_def)
  show "vec_ok sizeof_MemMap (push_map env m V)" and l: "vec_list (push_map env m V) = vec_list V @ [m]"
    using vec_push_back_list [OF assms(1) P fit, of no_map "growOk env" m] assms(4) by (simp_all add: push_map_def)
  from arg_cong [OF l, of List.length] show "unat (vSize (push_map env m V)) = Suc (unat (vSize V))"
    by (simp add: vec_list_def)
qed

lemma vec_init_list: "vec_ok sizeof_MemMap (vec_init P sizeof_MemMap no_map g 1 0)"
  "vec_list (vec_init P sizeof_MemMap no_map g 1 0) = []" "vSize (vec_init P sizeof_MemMap no_map g 1 0) = 0"
  by (simp_all add: vec_init_def vec_ok_def vec_list_def sizeof_MemMap_def vec_capacity_def)

lemma cache_evict_inv:
  assumes "cache_inv cfg lru av C" and "0 < unat (MaxEntriesCount C)" and "List.length lru < n"
    and "vec_ok sizeof_MemMap V" and "unat (vSize V) + List.length lru < 2 ^ 32" and "page_ok env" and "\<forall>n. growOk env n"
  shows "\<exists>V' C' av'. cache_evict env n V C = Inr (V', C') \<and>
    cache_inv cfg (take (unat (MaxEntriesCount C) - 1) lru) av' C' \<and> same_rest C C' \<and>
    (\<forall>i\<in>set (take (unat (MaxEntriesCount C) - 1) lru). cEntries C' i = cEntries C i) \<and>
    vec_list V' = vec_list V @ map cMemMap (cached (rev (drop (unat (MaxEntriesCount C) - 1) lru)) C)"
  using assms
proof (induction n arbitrary: lru av C V)
  case (Suc n)
  let ?m = "unat (MaxEntriesCount C)"
  have u: "unat (ucast (MaxEntriesCount C) :: uptr) = ?m"
    using unat_less_exp [of "MaxEntriesCount C"] by (simp add: unsigned_ucast_eq take_bit_eq_mod)
  have c: "ucast (MaxEntriesCount C) \<le> Size (LRUEntries C) \<longleftrightarrow> ?m \<le> List.length lru"
    using cache_inv_len(3) [OF Suc.prems(1)] u by (simp add: word_le_nat_alt)
  show ?case
  proof (cases "?m \<le> List.length lru")
    case False
    then show ?thesis
      using Suc.prems c by (auto simp: cached_def)
  next
    case True
    then obtain xs i where lru: "lru = xs @ [i]"
      using Suc.prems(2) by (cases lru rule: rev_cases) auto
    have L: "Last (LRUEntries C) = Some i"
      using Suc.prems(1) by (simp add: cache_inv_def dl_abs_def sl_abs_def lru)
    obtain C1 where r: "cache_remove i C = Inr C1" and inv1: "cache_inv cfg xs (i # av) C1"
      and sr: "same_rest C C1" and e1: "cEntries C1 = (cEntries C)(i := invalidate (cEntries C i))"
      using cache_remove_inv [of cfg xs i "[]" av C] Suc.prems(1) by (auto simp: lru)
    let ?V1 = "push_map env (cMemMap (cEntries C i)) V"
    have V: "unat (vSize V) < 2 ^ 32" using Suc.prems(5) by simp
    note pm = push_map_list [OF Suc.prems(4) V Suc.prems(6,7), of "cMemMap (cEntries C i)"]
    have m1: "MaxEntriesCount C1 = MaxEntriesCount C" using same_rest_fields [OF sr] by simp
    have ixs: "i \<notin> set xs" using Suc.prems(1) by (simp add: cache_inv_def lru)
    have tk: "take (?m - 1) lru = take (?m - 1) xs"
      using True Suc.prems(2) by (simp add: lru)
    have dr: "rev (drop (?m - 1) lru) = i # rev (drop (?m - 1) xs)"
      using True Suc.prems(2) by (simp add: lru)
    have ch: "cached (rev (drop (?m - 1) xs)) C1 = cached (rev (drop (?m - 1) xs)) C"
      using ixs by (auto simp: cached_def e1 dest: in_set_dropD)
    have tk1: "\<forall>j\<in>set (take (?m - 1) xs). cEntries C1 j = cEntries C j"
      using ixs by (auto simp: e1 dest: in_set_takeD)
    have eq: "cache_evict env (Suc n) V C = cache_evict env n ?V1 C1"
      using True c L r by simp
    have "\<exists>V' C' av'. cache_evict env n ?V1 C1 = Inr (V', C') \<and>
      cache_inv cfg (take (unat (MaxEntriesCount C1) - 1) xs) av' C' \<and> same_rest C1 C' \<and>
      (\<forall>i\<in>set (take (unat (MaxEntriesCount C1) - 1) xs). cEntries C' i = cEntries C1 i) \<and>
      vec_list V' = vec_list ?V1 @ map cMemMap (cached (rev (drop (unat (MaxEntriesCount C1) - 1) xs)) C1)"
      using Suc.prems pm by (intro Suc.IH [OF inv1]) (simp_all add: m1 lru)
    then obtain V' C' av' where ih: "cache_evict env n ?V1 C1 = Inr (V', C')"
      "cache_inv cfg (take (?m - 1) xs) av' C'" "same_rest C1 C'"
      "\<forall>i\<in>set (take (?m - 1) xs). cEntries C' i = cEntries C1 i"
      "vec_list V' = vec_list ?V1 @ map cMemMap (cached (rev (drop (?m - 1) xs)) C1)"
      unfolding m1 by blast
    have "vec_list V' = vec_list V @ map cMemMap (cached (rev (drop (?m - 1) lru)) C)"
      unfolding ih(5) pm(2) ch dr by (simp add: cached_def)
    then show ?thesis
      unfolding eq tk using ih(1-4) tk1 same_rest_trans [OF sr ih(3)] by (intro exI conjI) (assumption | simp)+
  qed
qed simp

section \<open>Releasing changes times only\<close>

definition timeless :: "CachedBlock \<Rightarrow> CachedBlock" where
  "timeless E = E\<lparr>cTime := 0\<rparr>"

lemma timeless_eqD: "timeless E = timeless F \<Longrightarrow> isValidBlock E = isValidBlock F \<and> cMemMap E = cMemMap F"
  by (cases E; cases F) (simp add: timeless_def isValidBlock_def)

definition time_rel :: "cache \<times> os_event list \<Rightarrow> cache \<times> os_event list \<Rightarrow> bool" where
  "time_rel S S' \<longleftrightarrow> fst S' = (fst S)\<lparr>cEntries := cEntries (fst S'), cQuarantine := cQuarantine (fst S'),
      OldestTime := OldestTime (fst S')\<rparr> \<and>
    (\<forall>i. timeless (cEntries (fst S') i) = timeless (cEntries (fst S) i)) \<and>
    (\<forall>i. timeless (cQuarantine (fst S') i) = timeless (cQuarantine (fst S) i)) \<and>
    unmapped (snd S') = unmapped (snd S) \<and> mapped (snd S') = mapped (snd S)"

lemma time_rel_refl: "time_rel S S"
  by (simp add: time_rel_def)

lemma time_rel_trans: "time_rel A B \<Longrightarrow> time_rel B C \<Longrightarrow> time_rel A C"
proof -
  assume *: "time_rel A B" "time_rel B C"
  have "fst C = (fst B)\<lparr>cEntries := cEntries (fst C), cQuarantine := cQuarantine (fst C), OldestTime := OldestTime (fst C)\<rparr>"
    using *(2) unfolding time_rel_def by blast
  moreover have "fst B = (fst A)\<lparr>cEntries := cEntries (fst B), cQuarantine := cQuarantine (fst B), OldestTime := OldestTime (fst B)\<rparr>"
    using *(1) unfolding time_rel_def by blast
  ultimately have "fst C = (fst A)\<lparr>cEntries := cEntries (fst C), cQuarantine := cQuarantine (fst C), OldestTime := OldestTime (fst C)\<rparr>"
    by (cases "fst A"; cases "fst B"; cases "fst C") simp
  then show ?thesis
    using * unfolding time_rel_def by simp
qed

lemma time_rel_fold: "(\<And>x s. time_rel s (f x s)) \<Longrightarrow> time_rel s (fold f xs s)"
proof (induction xs arbitrary: s)
  case (Cons x xs)
  show ?case using time_rel_trans [OF Cons.prems Cons.IH [OF Cons.prems]] by simp
qed (simp add: time_rel_refl)

lemma releaseIfOlderThan_timeless:
  assumes "releaseIfOlderThan T E O1 = (E', O2, ev)"
  shows "timeless E' = timeless E \<and> unmapped ev = {#} \<and> mapped ev = {#}"
  using assms by (auto simp: releaseIfOlderThan_def timeless_def split: if_splits)

lemma release_step_rel: "time_rel S (release_entry T i S)" "time_rel S (release_quarantine T i S)"
proof -
  obtain C ev where S: "S = (C, ev)" by fastforce
  obtain E O1 e where r: "releaseIfOlderThan T (cEntries C i) (OldestTime C) = (E, O1, e)"
    using prod_cases3 by blast
  show "time_rel S (release_entry T i S)"
    using releaseIfOlderThan_timeless [OF r] by (simp add: S release_entry_def r time_rel_def)
  obtain E O1 e where r: "releaseIfOlderThan T (cQuarantine C i) (OldestTime C) = (E, O1, e)"
    using prod_cases3 by blast
  show "time_rel S (release_quarantine T i S)"
    using releaseIfOlderThan_timeless [OF r] by (simp add: S release_quarantine_def r time_rel_def)
qed

lemma releaseOlderThan_rel: "time_rel (C, []) (releaseOlderThan cfg T C)"
proof -
  have "time_rel (C, []) (C\<lparr>OldestTime := 0\<rparr>, [])" by (simp add: time_rel_def)
  from time_rel_trans [OF this time_rel_fold [of "release_quarantine T", OF release_step_rel(2)]]
  have "time_rel (C, []) (fold (release_quarantine T) [0..<QuarantineSize cfg] (C\<lparr>OldestTime := 0\<rparr>, []))" .
  from time_rel_trans [OF this time_rel_fold [of "release_entry T", OF release_step_rel(1)]]
  show ?thesis
    by (simp add: releaseOlderThan_def time_rel_refl)
qed

lemma time_rel_keeps:
  assumes "time_rel (C, ev) (C', ev')"
  shows "cache_inv cfg lru av C' = cache_inv cfg lru av C" and "owned_maps cfg lru C' = owned_maps cfg lru C"
    and "map timeless (cached lru C') = map timeless (cached lru C)" and "MaxEntriesCount C' = MaxEntriesCount C"
    and "QuarantinePos C' = QuarantinePos C" and "ReleaseToOsIntervalMs C' = ReleaseToOsIntervalMs C"
proof -
  have f: "cLinks C' = cLinks C" "LRUEntries C' = LRUEntries C" "AvailEntries C' = AvailEntries C"
    "MaxEntriesCount C' = MaxEntriesCount C" "QuarantinePos C' = QuarantinePos C"
    "ReleaseToOsIntervalMs C' = ReleaseToOsIntervalMs C"
    using assms by (simp_all only: time_rel_def fst_conv, (metis cache.surjective cache.update_convs cache.select_convs)+)
  have t: "timeless (cEntries C' i) = timeless (cEntries C i)" "timeless (cQuarantine C' i) = timeless (cQuarantine C i)" for i
    using assms by (simp_all add: time_rel_def)
  note v = timeless_eqD [OF t(1)] timeless_eqD [OF t(2)]
  show "cache_inv cfg lru av C' = cache_inv cfg lru av C"
    using v by (simp add: cache_inv_def f)
  show "map timeless (cached lru C') = map timeless (cached lru C)"
    by (simp add: cached_def t)
  have "map cMemMap (quarantined cfg C') = map cMemMap (quarantined cfg C)"
    using v by (simp add: quarantined_def filter_map comp_def)
  then show "owned_maps cfg lru C' = owned_maps cfg lru C"
    using v by (simp add: owned_maps_def cached_def comp_def)
qed (use assms in \<open>simp_all only: time_rel_def fst_conv, (metis cache.surjective cache.update_convs cache.select_convs)+\<close>)

section \<open>The quarantine\<close>

lemma mset_filter_upd:
  assumes "i < n"
  shows "mset (filter P (map (f(i := x)) [0..<n])) + (if P (f i) then {#f i#} else {#}) =
    mset (filter P (map f [0..<n])) + (if P x then {#x#} else {#})"
proof -
  have s: "[0..<n] = [0..<i] @ i # [Suc i..<n]"
    using assms by (metis add_0 less_imp_add_positive less_nat_zero_code upt_add_eq_append upt_conv_Cons le_add1 order_less_imp_le)
  have "map (f(i := x)) [0..<i] = map f [0..<i]" "map (f(i := x)) [Suc i..<n] = map f [Suc i..<n]" by auto
  then show ?thesis unfolding s map_append list.map by simp
qed

definition quarantine_ok :: "cache_config \<Rightarrow> bool" where
  "quarantine_ok cfg \<longleftrightarrow> 0 < QuarantineSize cfg \<and> QuarantineSize cfg < 2 ^ 32"

lemma quarantine_step_maps:
  assumes q: "quarantine_ok cfg" and E: "isValidBlock E" and r: "quarantine_step cfg E C = (F, C')"
  shows "(case F of None \<Rightarrow> {#} | Some F \<Rightarrow> {#cMemMap F#}) + mset (map cMemMap (quarantined cfg C')) =
      mset (map cMemMap (quarantined cfg C)) + {#cMemMap E#}"
    and "C' = C\<lparr>QuarantinePos := QuarantinePos C', cQuarantine := cQuarantine C', OldestTime := OldestTime C'\<rparr>"
    and "\<And>G. F = Some G \<Longrightarrow> isValidBlock G"
proof -
  define pos where "pos = (QuarantinePos C + 1) mod max (of_nat (QuarantineSize cfg)) (1 :: u32)"
  have u: "unat (of_nat (QuarantineSize cfg) :: u32) = QuarantineSize cfg"
    using q by (simp add: quarantine_ok_def unat_of_nat take_bit_eq_mod)
  then have "max (of_nat (QuarantineSize cfg)) (1 :: u32) = of_nat (QuarantineSize cfg)"
    using q by (auto simp: max_def word_le_nat_alt quarantine_ok_def word_unat_eq_iff)
  then have pos: "unat pos < QuarantineSize cfg"
    using u q by (simp add: pos_def unat_mod quarantine_ok_def)
  let ?Q = "(cQuarantine C)(unat pos := E)" and ?P = "cQuarantine C (unat pos)"
  have Q: "cQuarantine C' = ?Q" and F: "F = (if isValidBlock ?P then Some ?P else None)"
    and fr: "C' = C\<lparr>QuarantinePos := QuarantinePos C', cQuarantine := cQuarantine C', OldestTime := OldestTime C'\<rparr>"
    using r by (auto simp: quarantine_step_def Let_def simp flip: pos_def split: if_splits)
  show "C' = C\<lparr>QuarantinePos := QuarantinePos C', cQuarantine := cQuarantine C', OldestTime := OldestTime C'\<rparr>"
    by (fact fr)
  show "\<And>G. F = Some G \<Longrightarrow> isValidBlock G" using F by (auto split: if_splits)
  have "mset (quarantined cfg C') + (if isValidBlock ?P then {#?P#} else {#}) = mset (quarantined cfg C) + {#E#}"
    using mset_filter_upd [OF pos, of isValidBlock "cQuarantine C" E] E by (simp add: quarantined_def Q)
  from arg_cong [OF this, of "image_mset cMemMap"]
  show "(case F of None \<Rightarrow> {#} | Some F \<Rightarrow> {#cMemMap F#}) + mset (map cMemMap (quarantined cfg C')) =
      mset (map cMemMap (quarantined cfg C)) + {#cMemMap E#}"
    by (cases "isValidBlock ?P") (simp_all add: F add.commute)
qed

end
