(* ===== verification/Secondary_Cache_Props.thy ===== *)
theory Secondary_Cache_Props
  imports Secondary_Cache_Inv
begin

text \<open>What store and retrieve of the cache of large blocks do: the refinement to the list of cached
  blocks, conservation of the mappings, and the choice that retrieve makes.\<close>

section \<open>store\<close>

definition evictions :: "cache \<Rightarrow> nat list \<Rightarrow> mem_map list" where
  "evictions C lru = map cMemMap (cached (rev (drop (unat (MaxEntriesCount C) - 1) lru)) C)"

lemma insert_lru_inv:
  assumes inv: "cache_inv cfg lru av C" and m: "MaxEntriesCount C \<noteq> 0" and E: "isValidBlock E"
    and env: "page_ok env" "\<forall>n. growOk env n"
  shows "\<exists>V C' i av'. insert_lru env E C = Inr (V, C') \<and> vec_list V = evictions C lru \<and>
    cache_inv cfg (i # take (unat (MaxEntriesCount C) - 1) lru) av' C' \<and>
    cached (i # take (unat (MaxEntriesCount C) - 1) lru) C' = E # cached (take (unat (MaxEntriesCount C) - 1) lru) C \<and>
    cQuarantine C' = cQuarantine C \<and> MaxEntriesCount C' = MaxEntriesCount C"
proof -
  let ?V = "vec_init (osPageSize env) sizeof_MemMap no_map (growOk env) 1 0" and ?m = "unat (MaxEntriesCount C)"
  let ?n = "Suc (unat (Size (LRUEntries C)))" and ?keep = "take (unat (MaxEntriesCount C) - 1) lru"
  note len = cache_inv_len [OF inv]
  have m0: "0 < ?m" using m by (simp add: unat_gt_0)
  have mle: "?m \<le> EntriesArraySize cfg" using inv by (simp add: cache_inv_def)
  obtain V C1 av1 where ev: "cache_evict env ?n ?V C = Inr (V, C1)" and inv1: "cache_inv cfg ?keep av1 C1"
    and sr: "same_rest C C1" and same: "\<forall>i\<in>set ?keep. cEntries C1 i = cEntries C i"
    and V: "vec_list V = evictions C lru"
  proof -
    have "List.length lru < ?n" "unat (vSize ?V) + List.length lru < 2 ^ 32"
      using len vec_init_list(3) by simp_all
    from cache_evict_inv [OF inv m0 this(1) vec_init_list(1) this(2) env] obtain V C1 av1 where
      "cache_evict env ?n ?V C = Inr (V, C1)" "cache_inv cfg ?keep av1 C1" "same_rest C C1"
      "\<forall>i\<in>set ?keep. cEntries C1 i = cEntries C i" "vec_list V = evictions C lru"
      unfolding vec_init_list(2) append_Nil evictions_def by blast
    then show ?thesis by (rule that)
  qed
  have "List.length ?keep < EntriesArraySize cfg" using m0 mle by simp
  then obtain i av2 where av1: "av1 = i # av2"
    using cache_inv_len(1) [OF inv1] by (cases av1) auto
  obtain C2 where ins: "cache_insert E C1 = Inr C2" "cache_inv cfg (i # ?keep) av2 C2" "same_rest C1 C2"
    "cEntries C2 = (cEntries C1)(i := E)"
    using cache_insert_inv [OF inv1 [unfolded av1] E] by blast
  define C3 where "C3 = (if OldestTime C2 = 0 then C2\<lparr>OldestTime := cTime E\<rparr> else C2)"
  have "i \<notin> set ?keep" using inv1 by (simp add: av1 cache_inv_def)
  then have c2: "cached (i # ?keep) C3 = E # cached ?keep C"
    using same ins(4) by (auto simp: cached_def C3_def)
  have "insert_lru env E C = Inr (V, C3)"
    by (simp only: insert_lru_def ev bindR.simps prod.case ins(1) C3_def)
  moreover have "cache_inv cfg (i # ?keep) av2 C3"
    using ins(2) by (simp add: cache_inv_def C3_def)
  moreover have "cQuarantine C3 = cQuarantine C" "MaxEntriesCount C3 = MaxEntriesCount C"
    using same_rest_fields [OF sr] same_rest_fields [OF ins(3)] by (simp_all add: C3_def)
  ultimately show ?thesis using V c2 by blast
qed

lemma store_finish_rel:
  "\<exists>C' ev'. store_finish cfg Interval T ev Ev C = (C', ev') \<and> time_rel (C, []) (C', []) \<and>
    unmapped ev' = unmapped ev + mset Ev \<and> mapped ev' = mapped ev"
proof -
  have u: "unmapped (map Unmap Ev) = mset Ev" "mapped (map Unmap Ev) = {#}"
    by (induction Ev) simp_all
  obtain C1 e1 where r: "releaseOlderThan cfg (T - of_int Interval * 1000000) C = (C1, e1)" by fastforce
  have t: "time_rel (C, []) (C1, e1)" using releaseOlderThan_rel [of C cfg] by (metis r)
  then have "unmapped e1 = {#}" "mapped e1 = {#}" "time_rel (C, []) (C1, [])" by (simp_all add: time_rel_def)
  then show ?thesis
    using u r by (cases "0 \<le> Interval") (auto simp: store_finish_def time_rel_refl)
qed

lemma new_entry_valid:
  assumes "new_entry env tag Interval B S BB M = (E, ev)"
  shows "timeless E = \<lparr> cCommitBase = B, cCommitSize = S, cBlockBegin = BB, cMemMap = M, cTime = 0 \<rparr>"
    and "unmapped ev = {#}" "mapped ev = {#}"
proof -
  have "unmapped (snd (mapSecondary env tag B S P F M)) = {#} \<and> mapped (snd (mapSecondary env tag B S P F M)) = {#}" for P F
    by (simp add: mapSecondary_def Let_def remap_def remap2_def)
  then show "timeless E = \<lparr> cCommitBase = B, cCommitSize = S, cBlockBegin = BB, cMemMap = M, cTime = 0 \<rparr>"
    "unmapped ev = {#}" "mapped ev = {#}"
    using assms by (auto simp: new_entry_def timeless_def Let_def split: if_splits)
qed

text \<open>The result of store in terms of the lists: the mapping given to it is cached, quarantined or
  unmapped, and so is every mapping that the cache owned before.\<close>

definition stored_block :: "cache_config \<Rightarrow> bool \<Rightarrow> CachedBlock \<Rightarrow> nat list \<Rightarrow> cache \<Rightarrow> nat list \<Rightarrow> cache \<Rightarrow> os_event list \<Rightarrow> bool" where
  "stored_block cfg tag E lru C lru' C' ev \<longleftrightarrow>
    owned_maps cfg lru' C' + unmapped ev = owned_maps cfg lru C + {#cMemMap E#} \<and> mapped ev = {#} \<and>
    MaxEntriesCount C' = MaxEntriesCount C \<and>
    (\<not> tag \<longrightarrow> map timeless (cached lru' C') =
      timeless E # map timeless (take (unat (MaxEntriesCount C) - 1) (cached lru C)))"

lemma insert_finish:
  assumes inv: "cache_inv cfg lru av C" and m: "MaxEntriesCount C \<noteq> 0" and E: "isValidBlock E"
    and env: "page_ok env" "\<forall>n. growOk env n"
  shows "\<exists>C' ev' lru' av'. bindR (insert_lru env E C) (\<lambda>(V, C). Inr (store_finish cfg Interval T ev (vec_list V) C)) = Inr (C', ev') \<and>
    cache_inv cfg lru' av' C' \<and> unmapped ev' + owned_maps cfg lru' C' = unmapped ev + owned_maps cfg lru C + {#cMemMap E#} \<and>
    mapped ev' = mapped ev \<and> MaxEntriesCount C' = MaxEntriesCount C \<and>
    map timeless (cached lru' C') = timeless E # map timeless (take (unat (MaxEntriesCount C) - 1) (cached lru C))"
proof -
  let ?m = "unat (MaxEntriesCount C) - 1" and ?keep = "take (unat (MaxEntriesCount C) - 1) lru"
  obtain V C1 i av1 where i: "insert_lru env E C = Inr (V, C1)" "vec_list V = evictions C lru"
    "cache_inv cfg (i # ?keep) av1 C1" "cached (i # ?keep) C1 = E # cached ?keep C"
    "cQuarantine C1 = cQuarantine C" "MaxEntriesCount C1 = MaxEntriesCount C"
    using insert_lru_inv [OF assms] by blast
  obtain C2 ev2 where f: "store_finish cfg Interval T ev (vec_list V) C1 = (C2, ev2)" "time_rel (C1, []) (C2, [])"
    "unmapped ev2 = unmapped ev + mset (evictions C lru)" "mapped ev2 = mapped ev"
    using store_finish_rel [of cfg Interval T ev "vec_list V" C1] i(2) by auto
  note k = time_rel_keeps [OF f(2)]
  have split: "mset (map cMemMap (cached ?keep C)) + mset (evictions C lru) = mset (map cMemMap (cached lru C))"
  proof -
    have "mset (evictions C lru) = mset (map cMemMap (cached (drop ?m lru) C))"
      by (simp add: evictions_def cached_def)
    moreover have "cached lru C = cached ?keep C @ cached (drop ?m lru) C"
      by (simp add: cached_def flip: map_append)
    ultimately show ?thesis by simp
  qed
  have "owned_maps cfg (i # ?keep) C1 = {#cMemMap E#} + mset (map cMemMap (cached ?keep C)) + mset (map cMemMap (quarantined cfg C))"
    unfolding owned_maps_def i(4) by (simp add: quarantined_def i(5))
  then have "unmapped ev2 + owned_maps cfg (i # ?keep) C2 = unmapped ev + owned_maps cfg lru C + {#cMemMap E#}"
    unfolding k(2) f(3) owned_maps_def [of cfg lru C] split [symmetric] by (simp add: ac_simps)
  moreover have "map timeless (cached (i # ?keep) C2) = timeless E # map timeless (take ?m (cached lru C))"
    unfolding k(3) i(4) by (simp add: cached_def take_map)
  moreover have "bindR (insert_lru env E C) (\<lambda>(V, C). Inr (store_finish cfg Interval T ev (vec_list V) C)) = Inr (C2, ev2)"
    by (simp add: i(1) f(1))
  moreover have "cache_inv cfg (i # ?keep) av1 C2" using i(3) k(1) by simp
  ultimately show ?thesis using f(4) k(4) i(6) by metis
qed

lemma cache_store_spec:
  assumes inv: "cache_inv cfg lru av C" and m: "MaxEntriesCount C \<noteq> 0" and B: "CommitBase \<noteq> 0"
    and env: "page_ok env" "\<forall>n. growOk env n" and q: "QuarantineSize cfg < 2 ^ 32"
  shows "\<exists>C' ev lru' av'. cache_store env cfg tag CommitBase CommitSize BlockBegin M C = Inr (C', ev) \<and>
    cache_inv cfg lru' av' C' \<and>
    stored_block cfg tag \<lparr> cCommitBase = CommitBase, cCommitSize = CommitSize, cBlockBegin = BlockBegin, cMemMap = M, cTime = 0 \<rparr>
      lru C lru' C' ev"
proof -
  let ?I = "ReleaseToOsIntervalMs C" and ?T = "now env"
  let ?E0 = "\<lparr> cCommitBase = CommitBase, cCommitSize = CommitSize, cBlockBegin = BlockBegin, cMemMap = M, cTime = 0 \<rparr>"
  obtain E1 ev1 where ne: "new_entry env tag ?I CommitBase CommitSize BlockBegin M = (E1, ev1)" by fastforce
  define E where "E = (if cTime E1 \<noteq> 0 then E1\<lparr>cTime := ?T\<rparr> else E1)"
  have tE: "timeless E = ?E0" using new_entry_valid(1) [OF ne] by (cases E1) (auto simp: E_def timeless_def)
  then have E: "isValidBlock E" "cMemMap E = M" "timeless E = timeless ?E0"
    using B by (cases E; simp add: timeless_def isValidBlock_def)+
  note ev1 = new_entry_valid(2,3) [OF ne]
  have st: "cache_store env cfg tag CommitBase CommitSize BlockBegin M C =
    (if tag \<and> QuarantinePos C = - 1 then Inr (store_finish cfg ?I ?T (ev1 @ [Unmap (cMemMap E)]) [] C)
     else case (if QuarantineSize cfg \<noteq> 0 \<and> tag then quarantine_step cfg E C else (Some E, C)) of
          (None, C) \<Rightarrow> Inr (C, ev1)
        | (Some Entry, C) \<Rightarrow> bindR (insert_lru env Entry C) (\<lambda>(V, C). Inr (store_finish cfg ?I ?T ev1 (vec_list V) C)))"
    by (simp add: cache_store_def ne E_def Let_def)
  consider (gone) "tag" "QuarantinePos C = - 1" | (quar) "tag" "QuarantinePos C \<noteq> - 1" "QuarantineSize cfg \<noteq> 0"
    | (plain) "\<not> (tag \<and> QuarantinePos C = - 1)" "\<not> (QuarantineSize cfg \<noteq> 0 \<and> tag)" by blast
  then show ?thesis
  proof cases
    case gone
    obtain C' ev' where f: "store_finish cfg ?I ?T (ev1 @ [Unmap (cMemMap E)]) [] C = (C', ev')" "time_rel (C, []) (C', [])"
      "unmapped ev' = {#M#}" "mapped ev' = {#}"
      using store_finish_rel [of cfg ?I ?T "ev1 @ [Unmap (cMemMap E)]" "[]" C] ev1 E(2) by auto
    note k = time_rel_keeps [OF f(2)]
    have "stored_block cfg tag ?E0 lru C lru C' ev'"
      using f k gone by (simp add: stored_block_def)
    then show ?thesis using st gone f(1) k(1) inv by auto
  next
    case plain
    from insert_finish [OF inv m E(1) env, of ?I ?T ev1] obtain C' ev' lru' av' where
      "bindR (insert_lru env E C) (\<lambda>(V, C). Inr (store_finish cfg ?I ?T ev1 (vec_list V) C)) = Inr (C', ev')"
      "cache_inv cfg lru' av' C'" "unmapped ev' + owned_maps cfg lru' C' = owned_maps cfg lru C + {#M#}" "mapped ev' = {#}"
      "MaxEntriesCount C' = MaxEntriesCount C"
      "map timeless (cached lru' C') = timeless E # map timeless (take (unat (MaxEntriesCount C) - 1) (cached lru C))"
      unfolding ev1 E(2) add_0 by (elim exE conjE) (rule that; assumption)
    note g = this
    have sel: "(if QuarantineSize cfg \<noteq> 0 \<and> tag then quarantine_step cfg E C else (Some E, C)) = (Some E, C)"
      using plain(2) by (rule if_not_P)
    have "cache_store env cfg tag CommitBase CommitSize BlockBegin M C = Inr (C', ev')"
      unfolding st sel if_not_P [OF plain(1)] using g(1) by simp
    moreover have "stored_block cfg tag ?E0 lru C lru' C' ev'"
      using g(3-6) E(3) by (simp add: stored_block_def add.commute)
    ultimately show ?thesis using g(2) by blast
  next
    case quar
    obtain F C1 where s: "quarantine_step cfg E C = (F, C1)" by fastforce
    have qok: "quarantine_ok cfg" using quar q by (simp add: quarantine_ok_def)
    note qs = quarantine_step_maps [OF qok E(1) s]
    have f: "cLinks C1 = cLinks C" "LRUEntries C1 = LRUEntries C" "AvailEntries C1 = AvailEntries C"
      "MaxEntriesCount C1 = MaxEntriesCount C" "cEntries C1 = cEntries C"
      by (subst qs(2), simp)+
    have inv1: "cache_inv cfg lru av C1" using inv by (simp add: cache_inv_def f)
    have ow: "(case F of None \<Rightarrow> {#} | Some F \<Rightarrow> {#cMemMap F#}) + owned_maps cfg lru C1 = owned_maps cfg lru C + {#M#}"
      using qs(1) by (simp add: owned_maps_def cached_def f E(2) ac_simps)
    show ?thesis
    proof (cases F)
      case None
      then have "cache_store env cfg tag CommitBase CommitSize BlockBegin M C = Inr (C1, ev1)" using st quar s by simp
      then show ?thesis
        using inv1 ow quar None ev1 f by (auto simp: stored_block_def)
    next
      case (Some G)
      have m1: "MaxEntriesCount C1 \<noteq> 0" using m f by simp
      from insert_finish [OF inv1 m1 qs(3) [OF Some] env, of ?I ?T ev1] obtain C' ev' lru' av' where
        g: "bindR (insert_lru env G C1) (\<lambda>(V, C). Inr (store_finish cfg ?I ?T ev1 (vec_list V) C)) = Inr (C', ev')"
        "cache_inv cfg lru' av' C'" "unmapped ev' + owned_maps cfg lru' C' = owned_maps cfg lru C1 + {#cMemMap G#}" "mapped ev' = {#}"
        "MaxEntriesCount C' = MaxEntriesCount C1"
        unfolding ev1 add_0 by (elim exE conjE) (rule that; assumption)
      have "cache_store env cfg tag CommitBase CommitSize BlockBegin M C = Inr (C', ev')" using st quar s Some g(1) by simp
      moreover have "stored_block cfg tag ?E0 lru C lru' C' ev'"
        using g ow Some quar f by (simp add: stored_block_def ac_simps)
      ultimately show ?thesis using g(2) by blast
    qed
  qed
qed

section \<open>retrieve\<close>

text \<open>The choice of the scan: a suitable entry whose unused part is the smallest of all suitable ones,
  or at most a tenth of what is used; none only when no entry is suitable.\<close>

definition good_choice :: "os_env \<Rightarrow> uptr \<Rightarrow> uptr \<Rightarrow> uptr \<Rightarrow> uptr \<Rightarrow> CachedBlock set \<Rightarrow> CachedBlock \<Rightarrow> bool" where
  "good_choice env MaxPages Sz Al Hs Bs E \<longleftrightarrow> E \<in> Bs \<and> \<not> entry_unsuitable env MaxPages Sz Al Hs E \<and>
    ((\<forall>B\<in>Bs. entry_unsuitable env MaxPages Sz Al Hs B \<or> entry_Diff env Sz Al Hs E \<le> entry_Diff env Sz Al Hs B) \<or>
     entry_Diff env Sz Al Hs E \<le> (cCommitBase E + cCommitSize E - (entry_AllocPos Sz Al E - Hs)) div 10)"

lemma cache_scan_choice:
  assumes "\<forall>B\<in>Es ` set is \<union> Bs. entry_unsuitable env MP Sz Al Hs B \<or> entry_Diff env Sz Al Hs B \<noteq> - 1"
    and "case R of None \<Rightarrow> MinDiff = - 1 \<and> (\<forall>B\<in>Bs. entry_unsuitable env MP Sz Al Hs B)
      | Some i \<Rightarrow> good_choice env MP Sz Al Hs Bs (Es i) \<and> i \<in> I \<and> MinDiff = entry_Diff env Sz Al Hs (Es i) \<and>
          (\<forall>B\<in>Bs. entry_unsuitable env MP Sz Al Hs B \<or> MinDiff \<le> entry_Diff env Sz Al Hs B) \<and>
          Pos = entry_AllocPos Sz Al (Es i) - Hs"
    and "cache_scan env MP Sz Al Hs Es is (MinDiff, R, Pos) = (D', R', Pos')"
  shows "case R' of None \<Rightarrow> \<forall>B\<in>Es ` set is \<union> Bs. entry_unsuitable env MP Sz Al Hs B
    | Some i \<Rightarrow> i \<in> set is \<union> I \<and> good_choice env MP Sz Al Hs (Es ` set is \<union> Bs) (Es i) \<and> Pos' = entry_AllocPos Sz Al (Es i) - Hs"
  using assms
proof (induction "is" arbitrary: MinDiff R Pos Bs I)
  case Nil
  then show ?case by (cases R) auto
next
  case (Cons j "is")
  let ?E = "Es j" and ?D = "entry_Diff env Sz Al Hs (Es j)" and ?Bs = "insert (Es j) Bs"
  have Bs: "Es ` set (j # is) \<union> Bs = Es ` set is \<union> ?Bs" "set (j # is) \<union> I = set is \<union> insert j I" by auto
  show ?case
  proof (cases "entry_unsuitable env MP Sz Al Hs ?E \<or> MinDiff \<le> ?D")
    case True
    then have "cache_scan env MP Sz Al Hs Es is (MinDiff, R, Pos) = (D', R', Pos')"
      using Cons.prems(3) by (simp add: Let_def)
    moreover have "case R of None \<Rightarrow> MinDiff = - 1 \<and> (\<forall>B\<in>?Bs. entry_unsuitable env MP Sz Al Hs B)
      | Some i \<Rightarrow> good_choice env MP Sz Al Hs ?Bs (Es i) \<and> i \<in> insert j I \<and> MinDiff = entry_Diff env Sz Al Hs (Es i) \<and>
          (\<forall>B\<in>?Bs. entry_unsuitable env MP Sz Al Hs B \<or> MinDiff \<le> entry_Diff env Sz Al Hs B) \<and>
          Pos = entry_AllocPos Sz Al (Es i) - Hs"
    proof (cases R)
      case None
      have "entry_unsuitable env MP Sz Al Hs ?E"
      proof (rule ccontr)
        assume u: "\<not> entry_unsuitable env MP Sz Al Hs ?E"
        then have "- 1 \<le> ?D" using True Cons.prems(2) None by simp
        then have "?D = - 1" by (simp add: word_order.extremum_unique)
        then show False using u Cons.prems(1) by simp
      qed
      then show ?thesis using Cons.prems(2) None by simp
    next
      case (Some i)
      then show ?thesis using Cons.prems(2) True unfolding good_choice_def by auto
    qed
    ultimately show ?thesis
      using Cons.IH [where Bs = ?Bs and R = R and MinDiff = MinDiff and I = "insert j I" and Pos = Pos] Cons.prems(1)
      unfolding Bs by blast
  next
    case False
    then have le: "\<forall>B\<in>?Bs. entry_unsuitable env MP Sz Al Hs B \<or> ?D \<le> entry_Diff env Sz Al Hs B"
      using Cons.prems(2) by (cases R) auto
    then have gc: "good_choice env MP Sz Al Hs ?Bs ?E"
      using False by (simp add: good_choice_def)
    show ?thesis
    proof (cases "?D \<le> (cCommitBase ?E + cCommitSize ?E - (entry_AllocPos Sz Al ?E - Hs)) div 10")
      case True
      then have "R' = Some j" "Pos' = entry_AllocPos Sz Al ?E - Hs"
        using Cons.prems(3) False by (simp_all add: Let_def)
      then show ?thesis using False True by (simp add: good_choice_def)
    next
      case f: False
      then have "cache_scan env MP Sz Al Hs Es is (?D, Some j, entry_AllocPos Sz Al ?E - Hs) = (D', R', Pos')"
        using Cons.prems(3) False by (simp add: Let_def)
      from Cons.IH [OF _ _ this, where Bs = ?Bs and I = "insert j I"] show ?thesis
        using Cons.prems(1) gc le unfolding Bs by simp
    qed
  qed
qed

definition retrieved_block :: "os_env \<Rightarrow> uptr \<Rightarrow> uptr \<Rightarrow> uptr \<Rightarrow> uptr \<Rightarrow> nat list \<Rightarrow> cache \<Rightarrow> CachedBlock \<Rightarrow> uptr \<Rightarrow> nat list \<Rightarrow> cache \<Rightarrow> bool" where
  "retrieved_block env MP Sz Al Hs lru C E pos lru' C' \<longleftrightarrow>
    (if isValidBlock E then
       (\<exists>xs i ys. lru = xs @ i # ys \<and> lru' = xs @ ys \<and> E = cEntries C i) \<and>
       cached lru' C' = cached lru' C \<and> good_choice env MP Sz Al Hs (set (cached lru C)) E \<and>
       pos = entry_AllocPos Sz Al E - Hs
     else lru' = lru \<and> cached lru' C' = cached lru C \<and> (\<forall>B\<in>set (cached lru C). entry_unsuitable env MP Sz Al Hs B))"

lemma fragment_release_maps [simp]: "unmapped (fragment_release env p E) = {#}" "mapped (fragment_release env p E) = {#}"
  by (simp_all add: fragment_release_def Let_def)

lemma cache_retrieve_spec:
  assumes inv: "cache_inv cfg lru av C"
    and D: "\<forall>B\<in>set (cached lru C). entry_unsuitable env MP Sz Al Hs B \<or> entry_Diff env Sz Al Hs B \<noteq> - 1"
  shows "\<exists>E pos C' lru' av'. cache_retrieve env MP Sz Al Hs C = Inr (E, pos, C', fragment_release env pos E) \<and>
    cache_inv cfg lru' av' C' \<and> retrieved_block env MP Sz Al Hs lru C E pos lru' C' \<and>
    owned_maps cfg lru' C' + (if isValidBlock E then {#cMemMap E#} else {#}) = owned_maps cfg lru C \<and>
    MaxEntriesCount C' = MaxEntriesCount C \<and> QuarantinePos C' = QuarantinePos C"
proof -
  define C1 where "C1 = C\<lparr>CallsToRetrieve := CallsToRetrieve C + 1\<rparr>"
  have f: "LRUEntries C1 = LRUEntries C" "cEntries C1 = cEntries C" "cLinks C1 = cLinks C"
    "MaxEntriesCount C1 = MaxEntriesCount C" "QuarantinePos C1 = QuarantinePos C" "AvailEntries C1 = AvailEntries C"
    "cQuarantine C1 = cQuarantine C" by (simp_all add: C1_def)
  have inv1: "cache_inv cfg lru av C1" using inv by (simp add: cache_inv_def f)
  have ow1: "owned_maps cfg l C1 = owned_maps cfg l C" and ca1: "cached l C1 = cached l C" for l
    by (simp_all add: owned_maps_def cached_def quarantined_def f)
  have nb: "\<not> isValidBlock no_block" by (simp add: no_block_def isValidBlock_def)
  have it: "map the (il_iter cop (cLinks C1) (LRUEntries C1)) = lru"
    using idx.iter_refines [of EndOfListVal "cLinks C" "LRUEntries C" "map Some lru"] inv
    by (simp add: f cache_inv_def dl_abs_def comp_def)
  show ?thesis
  proof (cases "Size (LRUEntries C1) = 0")
    case True
    then have "lru = []" using cache_inv_len(3) [OF inv1] by simp
    moreover have "cache_retrieve env MP Sz Al Hs C = Inr (no_block, 0, C1, fragment_release env 0 no_block)"
      using True by (simp add: cache_retrieve_def f fragment_release_def no_block_def flip: C1_def)
    ultimately show ?thesis
      using inv1 nb ow1 by (auto simp: retrieved_block_def cached_def f)
  next
    case False
    obtain Df R pos where sc: "cache_scan env MP Sz Al Hs (cEntries C1) lru (- 1, None, 0) = (Df, R, pos)"
      using prod_cases3 by blast
    have ch: "case R of None \<Rightarrow> \<forall>B\<in>set (cached lru C). entry_unsuitable env MP Sz Al Hs B
      | Some i \<Rightarrow> i \<in> set lru \<and> good_choice env MP Sz Al Hs (set (cached lru C)) (cEntries C i) \<and>
          pos = entry_AllocPos Sz Al (cEntries C i) - Hs"
      using cache_scan_choice [OF _ _ sc, where Bs = "{}" and I = "{}"] D by (cases R) (simp_all add: cached_def f)
    show ?thesis
    proof (cases R)
      case None
      have "cache_retrieve env MP Sz Al Hs C = Inr (no_block, pos, C1, fragment_release env pos no_block)"
        using False sc None by (simp add: cache_retrieve_def it Let_def flip: C1_def)
      then show ?thesis
        using inv1 nb ow1 ca1 ch None by (auto simp: retrieved_block_def f)
    next
      case (Some i)
      then have i: "i \<in> set lru" using ch by simp
      then obtain xs ys where lru: "lru = xs @ i # ys" by (meson split_list)
      obtain C2 where r: "cache_remove i C1 = Inr C2" "cache_inv cfg (xs @ ys) (i # av) C2" "same_rest C1 C2"
        "cEntries C2 = (cEntries C1)(i := invalidate (cEntries C1 i))"
        using cache_remove_inv [OF inv1 [unfolded lru]] by blast
      define C3 where "C3 = C2\<lparr>SuccessfulRetrieves := SuccessfulRetrieves C2 + 1\<rparr>"
      have "cache_retrieve env MP Sz Al Hs C = Inr (cEntries C i, pos, C3, fragment_release env pos (cEntries C i))"
        using False sc Some r(1) by (simp add: cache_retrieve_def it [unfolded f] Let_def C3_def f flip: C1_def)
      moreover have "cache_inv cfg (xs @ ys) (i # av) C3"
        using r(2) by (simp add: cache_inv_def C3_def)
      moreover have v: "isValidBlock (cEntries C i)"
        using inv i by (simp add: cache_inv_def)
      moreover have "i \<notin> set xs \<union> set ys" using inv by (auto simp: cache_inv_def lru)
      then have ca: "cached (xs @ ys) C3 = cached (xs @ ys) C"
        by (auto simp: cached_def C3_def r(4) f)
      moreover have "owned_maps cfg (xs @ ys) C3 + {#cMemMap (cEntries C i)#} = owned_maps cfg lru C"
      proof -
        have "owned_maps cfg (xs @ ys) C3 = mset (map cMemMap (cached (xs @ ys) C)) + mset (map cMemMap (quarantined cfg C))"
          unfolding owned_maps_def ca using same_rest_fields(6) [OF r(3)] by (simp add: quarantined_def C3_def f)
        then show ?thesis by (simp add: owned_maps_def cached_def lru)
      qed
      moreover have "MaxEntriesCount C3 = MaxEntriesCount C" "QuarantinePos C3 = QuarantinePos C"
        using same_rest_fields [OF r(3)] by (simp_all add: C3_def f)
      moreover have "retrieved_block env MP Sz Al Hs lru C (cEntries C i) pos (xs @ ys) C3"
        using ca v ch Some lru by (auto simp: retrieved_block_def)
      ultimately show ?thesis by (intro exI conjI) (assumption | simp only: if_True)+
    qed
  qed
qed

section \<open>Where a retrieved block lies\<close>

text \<open>The geometry of an entry and a request: page-aligned block below 2 ^ 48, power-of-two alignment
  up to a page, headers smaller than a page.\<close>

definition entry_geo :: "os_env \<Rightarrow> nat \<Rightarrow> CachedBlock \<Rightarrow> bool" where
  "entry_geo env p E \<longleftrightarrow> osPageSize env = 2 ^ p \<and> p \<le> 32 \<and> isAligned (cCommitBase E) (2 ^ p) \<and>
    unat (cCommitBase E) + unat (cCommitSize E) < 2 ^ 48"

lemma unat_diff_wrap:
  "unat (x - y :: uptr) = (if unat y \<le> unat x then unat x - unat y else 2 ^ 64 + unat x - unat y)"
  by (subst unat_sub_if_size) (simp add: word_size add.commute [of "unat x"])

lemma entry_fits:
  assumes geo: "entry_geo env p E" and Sz: "unat Sz < 2 ^ 48" and Hs: "unat Hs \<le> 2 ^ p" and a: "a \<le> p"
    and suit: "\<not> entry_unsuitable env MP Sz (2 ^ a) Hs E"
  defines "pos \<equiv> entry_AllocPos Sz (2 ^ a) E - Hs"
  shows "unat (cCommitBase E) \<le> unat pos" and "unat pos + unat Hs + unat Sz \<le> unat (cCommitBase E) + unat (cCommitSize E)"
    and "isAligned (pos + Hs) (2 ^ a)" and "pos + Hs \<le> cCommitBase E + MP * osPageSize env"
    and "unat (cCommitBase E) + unat (cCommitSize E) < unat pos + unat Hs + unat Sz + 2 ^ a"
proof -
  let ?b = "unat (cCommitBase E)" and ?e = "unat (cCommitBase E) + unat (cCommitSize E)"
  have e: "unat (cCommitBase E + cCommitSize E) = ?e"
    using geo by (subst unat_add_lem [THEN iffD1]) (auto simp: entry_geo_def)
  let ?y = "cCommitBase E + cCommitSize E - Sz"
  have p32: "(2::nat) ^ p \<le> 2 ^ 32" "(2::nat) ^ a \<le> 2 ^ p"
    using geo a power_increasing [of p 32 "2::nat"] by (simp_all add: entry_geo_def)
  have y: "unat ?y = (if unat Sz \<le> ?e then ?e - unat Sz else 2 ^ 64 + ?e - unat Sz)"
    using unat_diff_wrap [of "cCommitBase E + cCommitSize E" Sz] by (simp only: e)
  define q where "q = entry_AllocPos Sz (2 ^ a) E"
  have q: "unat q = unat ?y div 2 ^ a * 2 ^ a"
    by (simp add: q_def entry_AllocPos_def unat_roundDown)
  have qlo: "unat q \<le> unat ?y" "unat ?y < unat q + 2 ^ a"
  proof -
    have "unat ?y div 2 ^ a * 2 ^ a + unat ?y mod 2 ^ a = unat ?y" by (rule div_mult_mod_eq)
    moreover have "unat ?y mod 2 ^ a < 2 ^ a" by simp
    ultimately show "unat q \<le> unat ?y" "unat ?y < unat q + 2 ^ a" using q by linarith+
  qed
  have pos: "pos = q - Hs" by (simp add: pos_def q_def)
  have c: "unat pos \<le> ?e" "?b \<le> unat pos" "q \<le> cCommitBase E + MP * osPageSize env"
    using suit e by (auto simp: entry_unsuitable_def Let_def not_less word_le_nat_alt pos_def q_def)
  have up: "unat pos = (if unat Hs \<le> unat q then unat q - unat Hs else 2 ^ 64 + unat q - unat Hs)"
    unfolding pos by (rule unat_diff_wrap)
  have e48: "?e < 2 ^ 48" using geo by (simp add: entry_geo_def)
  have hq: "unat Hs \<le> unat q"
  proof (rule ccontr)
    assume "\<not> unat Hs \<le> unat q"
    then have "unat pos = 2 ^ 64 + unat q - unat Hs" using up by simp
    then show False using c(1) e48 Hs p32(1) by simp
  qed
  have sz: "unat Sz \<le> ?e"
  proof (rule ccontr)
    assume "\<not> unat Sz \<le> ?e"
    then have "unat ?y = 2 ^ 64 + ?e - unat Sz" using y by simp
    then have "2 ^ 64 + ?e < unat q + 2 ^ a + unat Sz" using qlo(2) Sz by simp
    moreover have "unat q = unat pos + unat Hs" using up hq by simp
    ultimately show False using c(1) e48 Hs p32(1) order.trans [OF p32(2,1)] Sz by simp
  qed
  have "unat q + unat Sz \<le> ?e" using qlo(1) y sz by simp
  then show "unat pos + unat Hs + unat Sz \<le> ?e" using up hq by simp
  show "?e < unat pos + unat Hs + unat Sz + 2 ^ a" using qlo(2) y sz up hq by simp
  show "?b \<le> unat pos" by (fact c(2))
  have ph: "pos + Hs = q" by (simp add: pos)
  show "pos + Hs \<le> cCommitBase E + MP * osPageSize env" using c(3) by (simp add: ph)
  show "isAligned (pos + Hs) (2 ^ a)" unfolding ph isAligned_exp q by simp
qed

lemma entry_Diff_not_max:
  assumes geo: "entry_geo env p E" and Sz: "unat Sz < 2 ^ 48" and Hs: "unat Hs \<le> 2 ^ p" and a: "a \<le> p"
    and suit: "\<not> entry_unsuitable env MP Sz (2 ^ a) Hs E"
  defines "pos \<equiv> entry_AllocPos Sz (2 ^ a) E - Hs"
  shows "unat (entry_Diff env Sz (2 ^ a) Hs E) = unat pos div 2 ^ p * 2 ^ p - unat (cCommitBase E)"
    and "unat (cCommitBase E) \<le> unat pos div 2 ^ p * 2 ^ p" and "entry_Diff env Sz (2 ^ a) Hs E \<noteq> - 1"
proof -
  note f = entry_fits [OF assms(1-5), folded pos_def]
  have P: "osPageSize env = 2 ^ p" "unat (cCommitBase E) mod 2 ^ p = 0"
    using geo by (simp_all add: entry_geo_def isAligned_exp)
  have rd: "unat (roundDown pos (2 ^ p)) = unat pos div 2 ^ p * 2 ^ p" by (rule unat_roundDown)
  have "unat (cCommitBase E) div 2 ^ p * 2 ^ p \<le> unat pos div 2 ^ p * 2 ^ p"
    using f(1) by (intro mult_le_mono1 div_le_mono)
  moreover have "unat (cCommitBase E) div 2 ^ p * 2 ^ p = unat (cCommitBase E)"
    using P(2) div_mult_mod_eq [of "unat (cCommitBase E)" "2 ^ p"] by simp
  ultimately show ge: "unat (cCommitBase E) \<le> unat pos div 2 ^ p * 2 ^ p" by simp
  show d: "unat (entry_Diff env Sz (2 ^ a) Hs E) = unat pos div 2 ^ p * 2 ^ p - unat (cCommitBase E)"
    using ge rd by (simp add: entry_Diff_def P(1) unat_diff_wrap flip: pos_def)
  show "entry_Diff env Sz (2 ^ a) Hs E \<noteq> - 1"
  proof
    assume "entry_Diff env Sz (2 ^ a) Hs E = - 1"
    then have "unat (entry_Diff env Sz (2 ^ a) Hs E) = 2 ^ 64 - 1"
      by (simp only: unsigned_minus_1_eq_mask) (simp add: mask_eq_exp_minus_1)
    moreover have "unat pos < 2 ^ 48" using f(2) geo by (simp add: entry_geo_def)
    moreover have "unat (entry_Diff env Sz (2 ^ a) Hs E) \<le> unat pos"
      using d div_times_less_eq_dividend [of "unat pos" "2 ^ p"] by linarith
    ultimately show False by simp
  qed
qed

text \<open>The release of a fragmented block stays below the page of the header.\<close>

lemma fragment_release_below:
  assumes geo: "entry_geo env p E" and Sz: "unat Sz < 2 ^ 48" and Hs: "unat Hs \<le> 2 ^ p" and a: "a \<le> p"
    and suit: "\<not> entry_unsuitable env MP Sz (2 ^ a) Hs E"
    and ev: "ReleaseAndZero m b n \<in> set (fragment_release env pos E)" and pos: "pos = entry_AllocPos Sz (2 ^ a) E - Hs"
  shows "m = cMemMap E \<and> b = cCommitBase E \<and> unat b + unat n \<le> unat pos \<and> unat n \<le> 4 * 2 ^ p"
proof -
  note f = entry_fits [OF assms(1-5), folded pos] and d = entry_Diff_not_max [OF assms(1-5), folded pos]
  have P: "osPageSize env = 2 ^ p" "p \<le> 32" "unat (cCommitBase E) mod 2 ^ p = 0"
    using geo by (simp_all add: entry_geo_def isAligned_exp)
  have u: "unat (2 ^ p :: uptr) = 2 ^ p" using P(2) by (simp add: unat_exp)
  have p32: "(2::nat) ^ p \<le> 2 ^ 32" using power_increasing [OF P(2), of "2::nat"] by simp
  have u4: "unat (4 * 2 ^ p :: uptr) = 4 * 2 ^ p"
    using p32 u unat_mult_lt [of "4 :: uptr" "2 ^ p"] by simp
  define F where "F = roundDown pos (2 ^ p) - cCommitBase E"
  have F: "unat F = unat pos div 2 ^ p * 2 ^ p - unat (cCommitBase E)"
    using d(1) by (simp add: F_def entry_Diff_def P(1) pos)
  have Fmod: "unat F mod 2 ^ p = 0"
    unfolding F using P(3) by (metis dvd_diff_nat dvd_imp_mod_0 dvd_triv_right mod_0_imp_dvd)
  have ev2: "m = cMemMap E" "b = cCommitBase E" "n = roundUp (min (4 * 2 ^ p) (F - 4 * 2 ^ p)) (2 ^ p)" "4 * 2 ^ p < F"
    using ev by (auto simp: fragment_release_def Let_def P(1) MaxUnreleasedCachePages_def MaxReleasedCachePages_def
        simp flip: F_def split: if_splits)
  define x where "x = min (4 * 2 ^ p) (F - 4 * 2 ^ p)"
  have lt: "4 * 2 ^ p < unat F" using ev2(4) u4 by (simp add: word_less_nat_alt)
  have uF: "unat (F - 4 * 2 ^ p) = unat F - 4 * 2 ^ p" using lt u4 by (simp add: unat_diff_wrap)
  have ux: "unat x = min (4 * 2 ^ p) (unat F - 4 * 2 ^ p)"
    using uF u4 by (simp add: min_def word_le_nat_alt x_def)
  have "2 ^ p dvd unat F - 4 * 2 ^ p"
    using Fmod by (intro dvd_diff_nat) (auto simp: mod_eq_0_iff_dvd)
  then have xmod: "2 ^ p dvd unat x" using ux by (simp add: min_def)
  have fit: "unat x + 2 ^ p \<le> 2 ^ 64" using ux p32 by (simp add: min_def)
  have rn: "unat n = (unat x + 2 ^ p - 1) div 2 ^ p * 2 ^ p"
    unfolding ev2(3) x_def [symmetric] using P(2) fit by (intro unat_roundUp) auto
  have n: "unat n = unat x"
  proof -
    obtain k where k: "unat x = 2 ^ p * k" using xmod by auto
    have "(2 ^ p * k + 2 ^ p - 1) div 2 ^ p = k" by (rule ceil_div_exact) simp
    then show ?thesis using rn k by simp
  qed
  have "unat (cCommitBase E) + unat F \<le> unat pos"
  proof -
    have "unat pos div 2 ^ p * 2 ^ p \<le> unat pos" by (rule div_times_less_eq_dividend)
    then show ?thesis using F d(2) by linarith
  qed
  then show ?thesis using n ux ev2(1,2) by (auto simp: min_def split: if_splits)
qed

end
