(* ===== verification/Shared_Arena.thy ===== *)
theory Shared_Arena
  imports Common
begin

text \<open>shared_arena.h and shared_arena_linux.cpp: one arena of the cross-process pool. The header
  in shared memory, the intrusive free list whose nodes are the first bytes of the free pages,
  the bump pointer, and the log ring read by the kernel. Addresses and byte sizes are 64-bit
  words; page offsets, page counts and ring counters are u32 values, naturals below 2 ^ 32 with
  the truncations and wrap-arounds of the code written out.\<close>

section \<open>32-bit arithmetic on naturals\<close>

definition u32_of :: "nat \<Rightarrow> nat" where "u32_of n = n mod 2 ^ 32"
definition add32 :: "nat \<Rightarrow> nat \<Rightarrow> nat" where "add32 a b = (a + b) mod 2 ^ 32"
definition sub32 :: "nat \<Rightarrow> nat \<Rightarrow> nat" where "sub32 a b = (a + (2 ^ 32 - b)) mod 2 ^ 32"

lemma u32_of_id [simp]: "n < 2 ^ 32 \<Longrightarrow> u32_of n = n"
  by (simp add: u32_of_def)

lemma u32_of_less [simp]: "u32_of n < 4294967296"
  by (simp add: u32_of_def)

lemma add32_id [simp]: "a + b < 2 ^ 32 \<Longrightarrow> add32 a b = a + b"
  by (simp add: add32_def)

lemma sub32_id [simp]: "b \<le> a \<Longrightarrow> a < 2 ^ 32 \<Longrightarrow> sub32 a b = a - b"
proof -
  assume *: "b \<le> a" "a < 2 ^ 32"
  then have "a + (2 ^ 32 - b) = (a - b) + 2 ^ 32" by simp
  then have "sub32 a b = ((a - b) + 2 ^ 32) mod 2 ^ 32"
    by (simp only: sub32_def)
  also have "\<dots> = (a - b) mod 2 ^ 32"
    by (rule mod_add_self2)
  finally show ?thesis using * by simp
qed

lemma sub32_add32 [simp]: "b < 2 ^ 32 \<Longrightarrow> a < 2 ^ 32 \<Longrightarrow> sub32 (add32 a b) b = a"
proof -
  assume *: "b < 2 ^ 32" "a < 2 ^ 32"
  have "sub32 (add32 a b) b = (a + b + (2 ^ 32 - b)) mod 2 ^ 32"
    unfolding sub32_def add32_def by (rule mod_add_left_eq)
  also have "a + b + (2 ^ 32 - b) = a + 2 ^ 32"
    using * by simp
  finally show ?thesis using * by simp
qed

section \<open>Constants\<close>

definition kSharedArenaBaseAddr :: uptr where "kSharedArenaBaseAddr = 0x200000000000"
definition kArenaCapacityPerCore :: uptr where "kArenaCapacityPerCore = 512 * 1024 * 1024"
definition kArenaMaxCores :: nat where "kArenaMaxCores = 16"
definition kArenaHeaderSize :: uptr where "kArenaHeaderSize = 4096"
definition kFreeListEnd :: nat where "kFreeListEnd = 0xFFFFFFFF"
definition kFreeBlockMagic :: nat where "kFreeBlockMagic = 0xF4EEB10C"
definition kLogRingMagic :: nat where "kLogRingMagic = 0x4d44524c"
definition kLogRingVersion :: nat where "kLogRingVersion = 1"

section \<open>Data\<close>

datatype SharedArenaLogOp = LogAlloc | LogFree

fun log_op_val :: "SharedArenaLogOp \<Rightarrow> nat" where
  "log_op_val LogAlloc = 1"
| "log_op_val LogFree = 2"

record SharedArenaLogEntry =
  Op :: nat
  SrcCpu :: nat
  eFlags :: nat
  StartPage :: nat
  NumPages :: nat

record SharedArenaLogRing =
  rMagic :: nat
  rVersion :: nat
  rFlags :: nat
  rCapacity :: nat
  ArenaNrPages :: nat
  RingSize :: nat
  Head :: nat
  Tail :: nat
  Dropped :: nat
  Entries :: "nat \<Rightarrow> SharedArenaLogEntry"

record FreeBlockHeader =
  PrevPageOff :: nat
  NextPageOff :: nat
  SizeInPages :: nat
  Magic :: nat

record SharedArenaHeader =
  Lock :: nat
  Version :: nat
  BumpOffsetInPages :: nat
  TotalDataPages :: nat
  FreeListHeadPageOff :: nat
  FreeCount :: nat
  TotalDonatedBytes :: uptr
  TotalRetrievedBytes :: uptr
  DonateCount :: nat
  RetrieveCount :: nat

text \<open>One arena as a process sees it: the process-local fields, the shared header, and the free
  block headers in the shared data area by page offset.\<close>

record SharedArena =
  Initialized :: bool
  CoreId :: nat
  ShmFd :: int
  BaseAddr :: uptr
  DataBase :: uptr
  Hdr :: SharedArenaHeader
  Blocks :: "nat \<Rightarrow> FreeBlockHeader"
  LogRing :: "SharedArenaLogRing option"
  LogRingSize :: uptr
  LogHeadCache :: nat
  LogTailCache :: nat
  LogCapacityCache :: nat
  LogCapacityMask :: nat

text \<open>The surroundings: the page size, the cached environment flags, and what the kernel does to
  the ring while the thread yields (it consumes entries, that is, it moves Head).\<close>

record arena_env =
  PageSize :: uptr
  AllowNoKernel :: bool
  FreelistDisabled :: bool
  kernelConsume :: "SharedArenaLogRing \<Rightarrow> SharedArenaLogRing"

section \<open>Addresses\<close>

definition pageOffToAddr :: "arena_env \<Rightarrow> SharedArena \<Rightarrow> nat \<Rightarrow> uptr" where
  "pageOffToAddr env A PageOff = DataBase A + of_nat PageOff * PageSize env"

definition addrToPageOff :: "arena_env \<Rightarrow> SharedArena \<Rightarrow> uptr \<Rightarrow> nat" where
  "addrToPageOff env A Addr = u32_of (unat ((Addr - DataBase A) div PageSize env))"

definition containsVa :: "SharedArena \<Rightarrow> uptr \<Rightarrow> bool" where
  "containsVa A Va \<longleftrightarrow> Initialized A \<and> BaseAddr A \<le> Va \<and> Va < BaseAddr A + kArenaCapacityPerCore"

definition FreeBlockLooksValid :: "FreeBlockHeader \<Rightarrow> nat \<Rightarrow> nat \<Rightarrow> bool" where
  "FreeBlockLooksValid Blk PageOff NPages =
    (if Magic Blk \<noteq> kFreeBlockMagic \<or> SizeInPages Blk = 0 then False
     else if NPages \<le> PageOff \<or> NPages - PageOff < SizeInPages Blk then False
     else if PrevPageOff Blk \<noteq> kFreeListEnd \<and> NPages \<le> PrevPageOff Blk then False
     else if NextPageOff Blk \<noteq> kFreeListEnd \<and> NPages \<le> NextPageOff Blk then False
     else True)"

section \<open>The log ring\<close>

definition sizeof_LogRing :: uptr where "sizeof_LogRing = 36"
definition sizeof_LogEntry :: uptr where "sizeof_LogEntry = 12"

definition appendLogPagesLocked :: "arena_env \<Rightarrow> SharedArenaLogOp \<Rightarrow> nat \<Rightarrow> nat \<Rightarrow> uptr \<Rightarrow> nat \<Rightarrow>
    SharedArena \<Rightarrow> bool \<times> SharedArena" where
  "appendLogPagesLocked env op Src Start CommitSize Flags A =
    (if AllowNoKernel env then (True, A)
     else if CommitSize = 0 \<or> \<not> isAligned CommitSize (PageSize env) then (False, A)
     else if LogCapacityCache A = 0 then (False, A)
     else case LogRing A of None \<Rightarrow> (False, A) | Some R \<Rightarrow>
       let Capacity = LogCapacityCache A;
           T = LogTailCache A;
           full = (\<lambda>H. Capacity \<le> sub32 T H);
           (H, R, dropped) =
             (if full (LogHeadCache A) then
                (let H = Head R in
                 if full H then
                   (let R = kernelConsume env R; H = Head R in (H, R, full H))
                 else (H, R, False))
              else (LogHeadCache A, R, False))
       in if dropped then
            (False, A\<lparr>LogHeadCache := H, LogRing := Some (R\<lparr>Dropped := add32 (Dropped R) 1\<rparr>)\<rparr>)
          else
            (let i = of_nat T AND of_nat (LogCapacityMask A) :: u32;
                 e = \<lparr> Op = log_op_val op, SrcCpu = Src, eFlags = Flags, StartPage = Start,
                       NumPages = u32_of (unat (CommitSize div PageSize env)) \<rparr>;
                 NewTail = add32 T 1
             in (True, A\<lparr>LogHeadCache := H, LogTailCache := NewTail,
                   LogRing := Some (R\<lparr>Entries := (Entries R)(unat i := e), Tail := NewTail\<rparr>)\<rparr>)))"

definition appendLogLocked :: "arena_env \<Rightarrow> SharedArenaLogOp \<Rightarrow> uptr \<Rightarrow> uptr \<Rightarrow> nat \<Rightarrow>
    SharedArena \<Rightarrow> bool \<times> SharedArena" where
  "appendLogLocked env op CommitBase CommitSize Flags A =
    (if \<not> isAligned CommitBase (PageSize env) then (False, A)
     else appendLogPagesLocked env op (CoreId A mod 256) (addrToPageOff env A CommitBase) CommitSize Flags A)"

definition no_log_ring :: "SharedArena \<Rightarrow> SharedArena" where
  "no_log_ring A = A\<lparr>LogRing := None, LogRingSize := 0, LogHeadCache := 0, LogTailCache := 0,
     LogCapacityCache := 0, LogCapacityMask := 0\<rparr>"

text \<open>initLogRing, given whether the anonymous mapping succeeds. The ring page is zeroed.\<close>

definition initLogRing :: "arena_env \<Rightarrow> bool \<Rightarrow> SharedArena \<Rightarrow> bool \<times> SharedArena" where
  "initLogRing env mmap_ok A =
    (if \<not> mmap_ok then (False, A)
     else if PageSize env \<le> sizeof_LogRing then (False, no_log_ring A)
     else let RawCapacity = u32_of (unat ((PageSize env - sizeof_LogRing) div sizeof_LogEntry)) in
       if RawCapacity = 0 then (False, no_log_ring A)
       else let Capacity = 2 ^ getMostSignificantSetBitIndex (of_nat RawCapacity) in
         (True, A\<lparr>LogRing := Some \<lparr> rMagic = kLogRingMagic, rVersion = kLogRingVersion, rFlags = 0,
              rCapacity = Capacity, ArenaNrPages = TotalDataPages (Hdr A),
              RingSize = u32_of (unat (PageSize env)), Head = 0, Tail = 0, Dropped = 0,
              Entries = (\<lambda>_. \<lparr> Op = 0, SrcCpu = 0, eFlags = 0, StartPage = 0, NumPages = 0 \<rparr>) \<rparr>,
            LogRingSize := PageSize env, LogHeadCache := 0, LogTailCache := 0,
            LogCapacityCache := Capacity, LogCapacityMask := Capacity - 1\<rparr>))"

section \<open>store: sorted insertion with coalescing\<close>

text \<open>The search of store for the insertion point: the last node at or below the new offset, the
  first one above it, and whether a corrupt header was met (the free list is then dropped). On
  a cyclic list the loop does not end.\<close>

partial_function (option) find_position ::
  "(nat \<Rightarrow> FreeBlockHeader) \<Rightarrow> nat \<Rightarrow> nat \<Rightarrow> nat \<Rightarrow> nat \<Rightarrow> (nat \<times> nat \<times> bool) option" where
  "find_position M NPages NewPageOff PrevOff NextOff =
    (if NextOff = kFreeListEnd then Some (PrevOff, NextOff, False)
     else if \<not> FreeBlockLooksValid (M NextOff) NextOff NPages then Some (kFreeListEnd, kFreeListEnd, True)
     else if NewPageOff < NextOff then Some (PrevOff, NextOff, False)
     else find_position M NPages NewPageOff NextOff (NextPageOff (M NextOff)))"

text \<open>A write to one free block header.\<close>

definition upd :: "nat \<Rightarrow> (FreeBlockHeader \<Rightarrow> FreeBlockHeader) \<Rightarrow> (nat \<Rightarrow> FreeBlockHeader) \<Rightarrow> nat \<Rightarrow> FreeBlockHeader" where
  "upd x f M = M(x := f (M x))"

definition merge_next ::
  "nat \<Rightarrow> nat \<Rightarrow> nat \<Rightarrow> SharedArenaHeader \<times> (nat \<Rightarrow> FreeBlockHeader) \<Rightarrow> SharedArenaHeader \<times> (nat \<Rightarrow> FreeBlockHeader)" where
  "merge_next NewPageOff NewPages NextOff = (\<lambda>(H, M).
    if NextOff \<noteq> kFreeListEnd \<and> add32 NewPageOff NewPages = NextOff then
      let M = upd NewPageOff (\<lambda>b. b\<lparr>SizeInPages := add32 (SizeInPages b) (SizeInPages (M NextOff))\<rparr>) M;
          M = upd NewPageOff (\<lambda>b. b\<lparr>NextPageOff := NextPageOff (M NextOff)\<rparr>) M;
          M = (if NextPageOff (M NextOff) \<noteq> kFreeListEnd
               then upd (NextPageOff (M NextOff)) (\<lambda>b. b\<lparr>PrevPageOff := NewPageOff\<rparr>) M else M);
          M = upd NextOff (\<lambda>b. b\<lparr>Magic := 0\<rparr>) M
      in (H\<lparr>FreeCount := sub32 (FreeCount H) 1\<rparr>, M)
    else (H, M))"

definition merge_prev ::
  "nat \<Rightarrow> nat \<Rightarrow> SharedArenaHeader \<times> (nat \<Rightarrow> FreeBlockHeader) \<Rightarrow> SharedArenaHeader \<times> (nat \<Rightarrow> FreeBlockHeader)" where
  "merge_prev NewPageOff PrevOff = (\<lambda>(H, M).
    if PrevOff \<noteq> kFreeListEnd \<and> add32 PrevOff (SizeInPages (M PrevOff)) = NewPageOff then
      let M = upd PrevOff (\<lambda>b. b\<lparr>SizeInPages := add32 (SizeInPages b) (SizeInPages (M NewPageOff))\<rparr>) M;
          M = upd PrevOff (\<lambda>b. b\<lparr>NextPageOff := NextPageOff (M NewPageOff)\<rparr>) M;
          M = (if NextPageOff (M NewPageOff) \<noteq> kFreeListEnd
               then upd (NextPageOff (M NewPageOff)) (\<lambda>b. b\<lparr>PrevPageOff := PrevOff\<rparr>) M else M);
          M = upd NewPageOff (\<lambda>b. b\<lparr>Magic := 0\<rparr>) M
      in (H\<lparr>FreeCount := sub32 (FreeCount H) 1\<rparr>, M)
    else (H, M))"

text \<open>The part of store that changes the free list: search, link, merge with both neighbours.\<close>

definition insert_free :: "nat \<Rightarrow> nat \<Rightarrow> SharedArenaHeader \<times> (nat \<Rightarrow> FreeBlockHeader) \<Rightarrow>
    (SharedArenaHeader \<times> (nat \<Rightarrow> FreeBlockHeader)) option" where
  "insert_free NewPageOff NewPages = (\<lambda>(H, M).
    case find_position M (TotalDataPages H) NewPageOff kFreeListEnd (FreeListHeadPageOff H) of
      None \<Rightarrow> None
    | Some (PrevOff, NextOff, corrupt) \<Rightarrow>
       (let H = (if corrupt then H\<lparr>FreeListHeadPageOff := kFreeListEnd, FreeCount := 0\<rparr> else H);
            M = M(NewPageOff := \<lparr> PrevPageOff = PrevOff, NextPageOff = NextOff,
                    SizeInPages = NewPages, Magic = kFreeBlockMagic \<rparr>);
            (H, M) = (if PrevOff \<noteq> kFreeListEnd
                      then (H, upd PrevOff (\<lambda>b. b\<lparr>NextPageOff := NewPageOff\<rparr>) M)
                      else (H\<lparr>FreeListHeadPageOff := NewPageOff\<rparr>, M));
            M = (if NextOff \<noteq> kFreeListEnd
                 then upd NextOff (\<lambda>b. b\<lparr>PrevPageOff := NewPageOff\<rparr>) M else M);
            H = H\<lparr>FreeCount := add32 (FreeCount H) 1\<rparr>
        in Some (merge_prev NewPageOff PrevOff (merge_next NewPageOff NewPages NextOff (H, M)))))"

section \<open>retrieve: best fit, tail cut, bump pointer\<close>

text \<open>The scan of the free list: the best block found and whether a corrupt header was met.\<close>

partial_function (option) best_fit ::
  "(nat \<Rightarrow> FreeBlockHeader) \<Rightarrow> nat \<Rightarrow> nat \<Rightarrow> nat \<Rightarrow> nat \<Rightarrow> nat \<Rightarrow> (nat \<times> bool) option" where
  "best_fit M NPages NeededPages BestOff BestPages Cur =
    (if Cur = kFreeListEnd then Some (BestOff, False)
     else if \<not> FreeBlockLooksValid (M Cur) Cur NPages then Some (kFreeListEnd, True)
     else if Magic (M Cur) = kFreeBlockMagic \<and> NeededPages \<le> SizeInPages (M Cur) \<and>
             SizeInPages (M Cur) < BestPages then
       (if SizeInPages (M Cur) = NeededPages then Some (Cur, False)
        else best_fit M NPages NeededPages Cur (SizeInPages (M Cur)) (NextPageOff (M Cur)))
     else best_fit M NPages NeededPages BestOff BestPages (NextPageOff (M Cur)))"

text \<open>Take the needed pages from the best block: the whole block, or its tail. The result has the
  page offset of the allocation.\<close>

definition take_best :: "nat \<Rightarrow> nat \<Rightarrow> SharedArenaHeader \<times> (nat \<Rightarrow> FreeBlockHeader) \<Rightarrow>
    nat \<times> SharedArenaHeader \<times> (nat \<Rightarrow> FreeBlockHeader)" where
  "take_best BestOff NeededPages = (\<lambda>(H, M).
    let Best = M BestOff; Remainder = sub32 (SizeInPages Best) NeededPages in
    if Remainder = 0 then
      let (H, M) = (if PrevPageOff Best \<noteq> kFreeListEnd
                    then (H, upd (PrevPageOff Best) (\<lambda>b. b\<lparr>NextPageOff := NextPageOff Best\<rparr>) M)
                    else (H\<lparr>FreeListHeadPageOff := NextPageOff Best\<rparr>, M));
          M = (if NextPageOff Best \<noteq> kFreeListEnd
               then upd (NextPageOff Best) (\<lambda>b. b\<lparr>PrevPageOff := PrevPageOff Best\<rparr>) M else M);
          M = upd BestOff (\<lambda>b. b\<lparr>Magic := 0\<rparr>) M
      in (BestOff, H\<lparr>FreeCount := sub32 (FreeCount H) 1\<rparr>, M)
    else (add32 BestOff Remainder, H, upd BestOff (\<lambda>b. b\<lparr>SizeInPages := Remainder\<rparr>) M))"

text \<open>The undo when the allocation cannot be logged: relink or regrow the block, or move the bump
  pointer back. The flag says whether the whole block was taken.\<close>

definition undo_take :: "nat \<Rightarrow> nat \<Rightarrow> bool \<Rightarrow> SharedArenaHeader \<times> (nat \<Rightarrow> FreeBlockHeader) \<Rightarrow>
    SharedArenaHeader \<times> (nat \<Rightarrow> FreeBlockHeader)" where
  "undo_take BestOff NeededPages whole = (\<lambda>(H, M).
    if BestOff \<noteq> kFreeListEnd then
      if whole then
        let M = upd BestOff (\<lambda>b. b\<lparr>Magic := kFreeBlockMagic\<rparr>) M;
            Best = M BestOff;
            (H, M) = (if PrevPageOff Best \<noteq> kFreeListEnd
                      then (H, upd (PrevPageOff Best) (\<lambda>b. b\<lparr>NextPageOff := BestOff\<rparr>) M)
                      else (H\<lparr>FreeListHeadPageOff := BestOff\<rparr>, M));
            M = (if NextPageOff Best \<noteq> kFreeListEnd
                 then upd (NextPageOff Best) (\<lambda>b. b\<lparr>PrevPageOff := BestOff\<rparr>) M else M)
        in (H\<lparr>FreeCount := add32 (FreeCount H) 1\<rparr>, M)
      else (H, upd BestOff (\<lambda>b. b\<lparr>SizeInPages := add32 (SizeInPages b) NeededPages\<rparr>) M)
    else (H\<lparr>BumpOffsetInPages := sub32 (BumpOffsetInPages H) NeededPages\<rparr>, M))"

definition lock :: "SharedArena \<Rightarrow> SharedArena option" where
  "lock A = (if Lock (Hdr A) = 0 then Some (A\<lparr>Hdr := (Hdr A)\<lparr>Lock := 1\<rparr>\<rparr>) else None)"

definition unlock :: "SharedArena \<Rightarrow> SharedArena" where
  "unlock A = A\<lparr>Hdr := (Hdr A)\<lparr>Lock := 0\<rparr>\<rparr>"

definition NeededSize :: "arena_env \<Rightarrow> uptr \<Rightarrow> uptr \<Rightarrow> uptr" where
  "NeededSize env sz HeadersSize = roundUp (sz + HeadersSize) (PageSize env)"

definition NeededPages :: "arena_env \<Rightarrow> uptr \<Rightarrow> uptr \<Rightarrow> nat" where
  "NeededPages env sz HeadersSize = u32_of (unat (NeededSize env sz HeadersSize div PageSize env))"

text \<open>Phase 1: the scan, skipped when the free list is disabled or empty.\<close>

definition find_best :: "arena_env \<Rightarrow> nat \<Rightarrow> SharedArenaHeader \<Rightarrow> (nat \<Rightarrow> FreeBlockHeader) \<Rightarrow>
    (nat \<times> SharedArenaHeader) option" where
  "find_best env Needed H M =
    (if \<not> FreelistDisabled env \<and> FreeCount H \<noteq> 0 then
       case best_fit M (TotalDataPages H) Needed kFreeListEnd (2 ^ 32 - 1) (FreeListHeadPageOff H) of
         None \<Rightarrow> None
       | Some (BestOff, corrupt) \<Rightarrow> Some (BestOff,
           if corrupt then H\<lparr>FreeListHeadPageOff := kFreeListEnd, FreeCount := 0\<rparr> else H)
     else Some (kFreeListEnd, H))"

text \<open>Phase 1 and phase 2 together: the best block, the address of the allocation if any, and the
  header and blocks after it.\<close>

definition alloc_pages :: "arena_env \<Rightarrow> nat \<Rightarrow> SharedArena \<Rightarrow> (nat \<times> uptr option \<times> SharedArena) option" where
  "alloc_pages env Needed A =
    (case find_best env Needed (Hdr A) (Blocks A) of None \<Rightarrow> None
     | Some (BestOff, H) \<Rightarrow>
       let A = A\<lparr>Hdr := H\<rparr>;
           (AllocBase, A) =
             (if BestOff \<noteq> kFreeListEnd then
                (case take_best BestOff Needed (Hdr A, Blocks A) of
                   (AllocOff, H, M) \<Rightarrow> (pageOffToAddr env A AllocOff, A\<lparr>Hdr := H, Blocks := M\<rparr>))
              else (0, A))
       in Some (if AllocBase = 0 then
            let BumpOff = BumpOffsetInPages (Hdr A) in
            if TotalDataPages (Hdr A) < add32 BumpOff Needed then (BestOff, None, A)
            else (BestOff, Some (pageOffToAddr env A BumpOff),
                  A\<lparr>Hdr := (Hdr A)\<lparr>BumpOffsetInPages := add32 BumpOff Needed\<rparr>\<rparr>)
          else (BestOff, Some AllocBase, A)))"

text \<open>retrieve. None: the call does not return. The result is the commit base, the commit size
  and the position of the entry header, or no block, with the arena afterwards.\<close>

definition retrieve :: "arena_env \<Rightarrow> uptr \<Rightarrow> uptr \<Rightarrow> uptr \<Rightarrow> SharedArena \<Rightarrow>
    ((uptr \<times> uptr \<times> uptr) option \<times> SharedArena) option" where
  "retrieve env sz Alignment HeadersSize A =
    (if \<not> Initialized A then Some (None, A)
     else case lock A of None \<Rightarrow> None | Some A \<Rightarrow>
       let AllocSize = NeededSize env sz HeadersSize; Needed = NeededPages env sz HeadersSize in
       case alloc_pages env Needed A of
         None \<Rightarrow> None
       | Some (_, None, A) \<Rightarrow> Some (None, unlock A)
       | Some (BestOff, Some AllocBase, A) \<Rightarrow>
         let AllocPos = roundDown (AllocBase + AllocSize - sz) Alignment;
             HeaderPos = AllocPos - HeadersSize
         in if HeaderPos < AllocBase \<or> AllocBase + AllocSize < AllocPos then Some (None, unlock A)
         else let A = A\<lparr>Hdr := (Hdr A)\<lparr>TotalRetrievedBytes := TotalRetrievedBytes (Hdr A) + AllocSize,
                                        RetrieveCount := add32 (RetrieveCount (Hdr A)) 1\<rparr>\<rparr>;
                  (ok, A) = appendLogLocked env LogAlloc AllocBase AllocSize 0 A
         in if \<not> ok then
              (case undo_take BestOff Needed (AllocBase = pageOffToAddr env A BestOff) (Hdr A, Blocks A) of
                 (H, M) \<Rightarrow> Some (None, unlock (A\<lparr>Blocks := M,
                   Hdr := H\<lparr>TotalRetrievedBytes := TotalRetrievedBytes H - AllocSize,
                            RetrieveCount := sub32 (RetrieveCount H) 1\<rparr>\<rparr>)))
            else Some (Some (AllocBase, AllocSize, HeaderPos), unlock A))"

section \<open>Initialisation, reset and statistics\<close>

definition DataPages :: "arena_env \<Rightarrow> nat" where
  "DataPages env = u32_of (unat ((kArenaCapacityPerCore - kArenaHeaderSize) div PageSize env))"

definition fresh_header :: "nat \<Rightarrow> SharedArenaHeader \<Rightarrow> SharedArenaHeader" where
  "fresh_header NPages H = H\<lparr>BumpOffsetInPages := 0, TotalDataPages := NPages,
     FreeListHeadPageOff := kFreeListEnd, FreeCount := 0, TotalDonatedBytes := 0,
     TotalRetrievedBytes := 0, DonateCount := 0, RetrieveCount := 0\<rparr>"

text \<open>init, given the outcomes of the system calls: the descriptor of shm_open (negative on
  failure), whether ftruncate and the two mmaps succeed, whether prctl returns 0 and whether its
  errno is EINVAL, and the shared header and blocks that the mapping shows. While another
  process is between Version 1 and 2 the call waits.\<close>

record init_env =
  shmFd :: int
  ftruncateOk :: bool
  mmapOk :: bool
  ringMmapOk :: bool
  prctlOk :: bool
  prctlEINVAL :: bool

definition registerWithKernel :: "arena_env \<Rightarrow> init_env \<Rightarrow> bool" where
  "registerWithKernel env ie = (prctlOk ie \<or> prctlEINVAL ie \<and> AllowNoKernel env)"

definition arena_init :: "arena_env \<Rightarrow> init_env \<Rightarrow> nat \<Rightarrow> SharedArenaHeader \<Rightarrow>
    (nat \<Rightarrow> FreeBlockHeader) \<Rightarrow> SharedArena \<Rightarrow> (bool \<times> SharedArena) option" where
  "arena_init env ie cid SharedHdr SharedBlocks A =
    (let base = kSharedArenaBaseAddr + of_nat cid * kArenaCapacityPerCore;
         A = A\<lparr>CoreId := cid, BaseAddr := base, DataBase := base + kArenaHeaderSize\<rparr>
     in if shmFd ie < 0 then Some (False, A)
     else if \<not> ftruncateOk ie then Some (False, A)
     else if \<not> mmapOk ie then Some (False, A)
     else let H = (if Version SharedHdr = 0
                   then (fresh_header (DataPages env) SharedHdr)\<lparr>Lock := 0, Version := 2\<rparr>
                   else SharedHdr)
     in if Version H < 2 then None
     else let A = A\<lparr>ShmFd := shmFd ie, Hdr := H, Blocks := SharedBlocks\<rparr>;
              (ok, A) = initLogRing env (ringMmapOk ie) A
     in if \<not> ok then Some (False, A\<lparr>ShmFd := -1\<rparr>)
     else if \<not> registerWithKernel env ie then Some (False, (no_log_ring A)\<lparr>ShmFd := -1\<rparr>)
     else Some (True, A\<lparr>Initialized := True\<rparr>))"

text \<open>The range that releasePages gives to madvise, None when it returns early.\<close>

definition releasePages_range :: "arena_env \<Rightarrow> uptr \<Rightarrow> uptr \<Rightarrow> SharedArena \<Rightarrow> (uptr \<times> uptr) option" where
  "releasePages_range env Addr Sz A =
    (if \<not> Initialized A \<or> Sz = 0 then None
     else let AlignedAddr = roundUp Addr (PageSize env);
              AlignedEnd = roundDown (Addr + Sz) (PageSize env)
       in if AlignedEnd \<le> AlignedAddr then None else Some (AlignedAddr, AlignedEnd - AlignedAddr))"

definition arena_reset :: "arena_env \<Rightarrow> SharedArena \<Rightarrow> (SharedArena \<times> (uptr \<times> uptr) option) option" where
  "arena_reset env A =
    (if \<not> Initialized A then Some (A, None)
     else case lock A of None \<Rightarrow> None | Some A \<Rightarrow>
       let A = unlock (A\<lparr>Hdr := fresh_header (DataPages env) (Hdr A)\<rparr>);
           A = (case LogRing A of None \<Rightarrow> A
             | Some R \<Rightarrow> A\<lparr>LogRing := Some (R\<lparr>ArenaNrPages := DataPages env, Head := 0, Tail := 0, Dropped := 0\<rparr>),
                 LogHeadCache := 0, LogTailCache := 0, LogCapacityCache := rCapacity R,
                 LogCapacityMask := sub32 (rCapacity R) 1\<rparr>)
       in Some (A, releasePages_range env (DataBase A) (kArenaCapacityPerCore - kArenaHeaderSize) A))"

definition getStats :: "SharedArena \<Rightarrow> nat \<times> uptr \<times> uptr" where
  "getStats A = (if \<not> Initialized A then (0, 0, 0)
     else (FreeCount (Hdr A), TotalDonatedBytes (Hdr A), TotalRetrievedBytes (Hdr A)))"

text \<open>The bounded walk of getDebugStats: blocks walked, bad magics, bytes on the list.\<close>

function debug_walk :: "arena_env \<Rightarrow> (nat \<Rightarrow> FreeBlockHeader) \<Rightarrow> nat \<Rightarrow> nat \<Rightarrow> nat \<Rightarrow> uptr \<Rightarrow> nat \<times> nat \<times> uptr" where
  "debug_walk env M MaxWalk Cur Count Bytes =
    (if Cur = kFreeListEnd \<or> MaxWalk \<le> Count then (Count, 0, Bytes)
     else if Magic (M Cur) \<noteq> kFreeBlockMagic then (Count, 1, Bytes)
     else debug_walk env M MaxWalk (NextPageOff (M Cur)) (Count + 1)
       (Bytes + of_nat (SizeInPages (M Cur)) * PageSize env))"
  by pat_completeness auto
termination by (relation "measure (\<lambda>(env, M, MaxWalk, Cur, Count, Bytes). MaxWalk - Count)") auto

declare debug_walk.simps [simp del]

end
