(* ===== verification/Arena_Invariant.thy ===== *)
theory Arena_Invariant
  imports Shared_Arena
begin

text \<open>The invariant of an arena's free list and what store and retrieve do to it. A free list is
  abstracted to the list of its blocks (page offset, page count) and further to the set of free
  pages. The invariant says that the links in the pages are exactly those of the list, that the
  blocks are ordered, positive, apart from each other and below the bump pointer, and that
  FreeCount is their number.\<close>

section \<open>Abstraction\<close>

type_synonym block = "nat \<times> nat"

fun first_off :: "block list \<Rightarrow> nat \<Rightarrow> nat" where
  "first_off [] q = q"
| "first_off (b # bs) q = fst b"

definition last_off :: "nat \<Rightarrow> block list \<Rightarrow> nat" where
  "last_off p bs = (if bs = [] then p else fst (last bs))"

text \<open>The segment bs of the list, entered from the node p and left to the node q.\<close>

fun fseg :: "(nat \<Rightarrow> FreeBlockHeader) \<Rightarrow> nat \<Rightarrow> block list \<Rightarrow> nat \<Rightarrow> bool" where
  "fseg M p [] q \<longleftrightarrow> True"
| "fseg M p (b # bs) q \<longleftrightarrow>
    M (fst b) = \<lparr> PrevPageOff = p, NextPageOff = first_off bs q, SizeInPages = snd b, Magic = kFreeBlockMagic \<rparr> \<and>
    fseg M (fst b) bs q"

definition before :: "block \<Rightarrow> block \<Rightarrow> bool" where
  "before a b \<longleftrightarrow> fst a + snd a \<le> fst b"

definition apart :: "block \<Rightarrow> block \<Rightarrow> bool" where
  "apart a b \<longleftrightarrow> fst a + snd a < fst b"

definition pages_of :: "block \<Rightarrow> nat set" where
  "pages_of b = {fst b..<fst b + snd b}"

definition free_pages :: "block list \<Rightarrow> nat set" where
  "free_pages bs = (\<Union>b\<in>set bs. pages_of b)"

definition fl_ok :: "SharedArenaHeader \<times> (nat \<Rightarrow> FreeBlockHeader) \<Rightarrow> block list \<Rightarrow> bool" where
  "fl_ok = (\<lambda>(H, M) bs.
    fseg M kFreeListEnd bs kFreeListEnd \<and> FreeListHeadPageOff H = first_off bs kFreeListEnd \<and>
    FreeCount H = List.length bs \<and> sorted_wrt before bs \<and>
    (\<forall>b\<in>set bs. 0 < snd b \<and> fst b + snd b \<le> BumpOffsetInPages H) \<and>
    BumpOffsetInPages H \<le> TotalDataPages H \<and> TotalDataPages H < 2 ^ 31)"

definition arena_ok :: "SharedArenaHeader \<times> (nat \<Rightarrow> FreeBlockHeader) \<Rightarrow> block list \<Rightarrow> bool" where
  "arena_ok S bs \<longleftrightarrow> fl_ok S bs \<and> sorted_wrt apart bs"

lemma first_off_append: "first_off (xs @ ys) q = first_off xs (first_off ys q)"
  by (cases xs) auto

lemma last_off_simps [simp]:
  "last_off p [] = p" "last_off p (xs @ [b]) = fst b"
  "last_off p (b # bs) = last_off (fst b) bs"
  by (auto simp: last_off_def)

lemma fseg_append: "fseg M p (xs @ ys) q \<longleftrightarrow> fseg M p xs (first_off ys q) \<and> fseg M (last_off p xs) ys q"
  by (induction xs arbitrary: p) (auto simp: first_off_append)

lemma fseg_upd [simp]: "x \<notin> fst ` set bs \<Longrightarrow> fseg (M(x := v)) p bs q = fseg M p bs q"
  by (induction bs arbitrary: p) auto

lemma before_fst: "before a b \<Longrightarrow> 0 < snd a \<Longrightarrow> fst a < fst b"
  by (auto simp: before_def)

lemma free_pages_simps [simp]:
  "free_pages [] = {}" "free_pages (b # bs) = pages_of b \<union> free_pages bs"
  "free_pages (xs @ ys) = free_pages xs \<union> free_pages ys"
  by (auto simp: free_pages_def)

lemma pages_of_not_empty: "0 < snd b \<Longrightarrow> fst b \<in> pages_of b"
  by (simp add: pages_of_def)

section \<open>The search of store\<close>

lemma looks_valid:
  assumes "M (fst b) = \<lparr> PrevPageOff = p, NextPageOff = n, SizeInPages = snd b, Magic = kFreeBlockMagic \<rparr>"
    and "0 < snd b" "fst b + snd b \<le> N" "p = kFreeListEnd \<or> p < N" "n = kFreeListEnd \<or> n < N"
  shows "FreeBlockLooksValid (M (fst b)) (fst b) N"
  using assms by (auto simp: FreeBlockLooksValid_def)

lemma find_position_correct:
  assumes "fseg M p bs kFreeListEnd" and "sorted_wrt before bs"
    and "\<forall>b\<in>set bs. 0 < snd b \<and> fst b + snd b \<le> N" and "N < 2 ^ 31" and "p = kFreeListEnd \<or> p < N"
  shows "find_position M N x p (first_off bs kFreeListEnd) =
    Some (last_off p (takeWhile (\<lambda>b. fst b \<le> x) bs),
          first_off (dropWhile (\<lambda>b. fst b \<le> x) bs) kFreeListEnd, False)"
  using assms
proof (induction bs arbitrary: p)
  case Nil
  then show ?case by (subst find_position.simps) simp
next
  case (Cons b bs)
  have N: "fst b < N" "N < kFreeListEnd"
    using Cons.prems by (auto simp: kFreeListEnd_def)
  have "first_off bs kFreeListEnd = kFreeListEnd \<or> first_off bs kFreeListEnd < N"
    using Cons.prems by (cases bs) auto
  then have "FreeBlockLooksValid (M (fst b)) (fst b) N"
    using Cons.prems by (intro looks_valid [of M b p "first_off bs kFreeListEnd"]) auto
  then show ?case
    using Cons.prems N Cons.IH [of "fst b"] by (subst find_position.simps) auto
qed

section \<open>store keeps the invariant\<close>

lemma split_at:
  assumes "sorted_wrt before bs" and "\<forall>b\<in>set bs. 0 < snd b"
  shows "\<forall>b\<in>set (dropWhile (\<lambda>b. fst b \<le> x) bs). x < fst b"
    and "\<forall>b\<in>set (takeWhile (\<lambda>b. fst b \<le> x) bs). fst b \<le> x"
proof -
  show "\<forall>b\<in>set (dropWhile (\<lambda>b. fst b \<le> x) bs). x < fst b"
    using assms by (induction bs) (auto simp: before_def)
  show "\<forall>b\<in>set (takeWhile (\<lambda>b. fst b \<le> x) bs). fst b \<le> x"
    by (auto dest: set_takeWhileD)
qed

lemma disjoint_side:
  assumes "pages_of (x, k) \<inter> pages_of b = {}" "0 < k" "0 < snd b"
  shows "fst b \<le> x \<Longrightarrow> before b (x, k)" and "x < fst b \<Longrightarrow> before (x, k) b"
proof -
  show "before b (x, k)" if "fst b \<le> x"
    using assms that pages_of_not_empty [of "(x, k)"] by (force simp: before_def pages_of_def)
  show "before (x, k) b" if "x < fst b"
    using assms that pages_of_not_empty [of b] by (force simp: before_def pages_of_def)
qed

text \<open>Linking the new block between its neighbours.\<close>

definition link_new :: "nat \<Rightarrow> nat \<Rightarrow> nat \<Rightarrow> nat \<Rightarrow> SharedArenaHeader \<times> (nat \<Rightarrow> FreeBlockHeader) \<Rightarrow>
    SharedArenaHeader \<times> (nat \<Rightarrow> FreeBlockHeader)" where
  "link_new x k PrevOff NextOff = (\<lambda>(H, M).
    let M = M(x := \<lparr> PrevPageOff = PrevOff, NextPageOff = NextOff,
                    SizeInPages = k, Magic = kFreeBlockMagic \<rparr>);
        (H, M) = (if PrevOff \<noteq> kFreeListEnd then (H, upd PrevOff (\<lambda>b. b\<lparr>NextPageOff := x\<rparr>) M)
                  else (H\<lparr>FreeListHeadPageOff := x\<rparr>, M));
        M = (if NextOff \<noteq> kFreeListEnd then upd NextOff (\<lambda>b. b\<lparr>PrevPageOff := x\<rparr>) M else M)
    in (H\<lparr>FreeCount := add32 (FreeCount H) 1\<rparr>, M))"

lemma insert_free_link:
  "find_position M (TotalDataPages H) x kFreeListEnd (FreeListHeadPageOff H) = Some (p, n, False) \<Longrightarrow>
   insert_free x k (H, M) = Some (merge_prev x p (merge_next x k n (link_new x k p n (H, M))))"
  by (simp add: insert_free_def link_new_def Let_def split_beta)

text \<open>Offsets on the list are below the end marker and distinct.\<close>

lemma fl_ok_offs:
  assumes "fl_ok (H, M) bs"
  shows "\<forall>b\<in>set bs. fst b < TotalDataPages H" and "TotalDataPages H < kFreeListEnd"
    and "distinct (map fst bs)"
proof -
  have b: "\<forall>b\<in>set bs. 0 < snd b" "sorted_wrt before bs"
    using assms by (auto simp: fl_ok_def)
  show "\<forall>b\<in>set bs. fst b < TotalDataPages H" "TotalDataPages H < kFreeListEnd"
    using assms by (auto simp: fl_ok_def kFreeListEnd_def)
  show "distinct (map fst bs)"
    using b by (induction bs) (auto dest!: before_fst)
qed

lemma fl_ok_below:
  assumes "fl_ok (H, M) bs"
  shows "\<forall>b\<in>set bs. 0 < snd b \<and> fst b + snd b \<le> TotalDataPages H"
proof
  fix b assume "b \<in> set bs"
  then have "0 < snd b \<and> fst b + snd b \<le> BumpOffsetInPages H" "BumpOffsetInPages H \<le> TotalDataPages H"
    using assms by (auto simp: fl_ok_def)
  then show "0 < snd b \<and> fst b + snd b \<le> TotalDataPages H" by linarith
qed

lemma length_blocks:
  assumes "sorted_wrt before bs" "\<forall>b\<in>set bs. 0 < snd b \<and> fst b + snd b \<le> N"
  shows "List.length bs \<le> N"
proof -
  have "distinct (map fst bs)" "set (map fst bs) \<subseteq> {..<N}"
    using assms by (induction bs) (auto dest!: before_fst)
  then show ?thesis
    by (metis card_lessThan card_mono distinct_card finite_lessThan length_map)
qed

lemma link_new_ok:
  assumes ok: "fl_ok (H, M) (as @ cs)" and k: "0 < k" "x + k \<le> BumpOffsetInPages H"
    and as: "\<forall>b\<in>set as. before b (x, k)" and cs: "\<forall>b\<in>set cs. before (x, k) b"
  shows "fl_ok (link_new x k (last_off kFreeListEnd as) (first_off cs kFreeListEnd) (H, M)) (as @ (x, k) # cs)"
proof -
  note offs = fl_ok_offs [OF ok]
  have "List.length (as @ (x, k) # cs) \<le> BumpOffsetInPages H"
    using ok k as cs by (intro length_blocks) (auto simp: fl_ok_def sorted_wrt_append)
  then have len: "List.length (as @ (x, k) # cs) \<le> TotalDataPages H"
    using ok by (simp add: fl_ok_def)
  have x: "x < kFreeListEnd" "x \<notin> fst ` set as" "x \<notin> fst ` set cs"
    using ok k as cs by (auto simp: fl_ok_def kFreeListEnd_def dest!: before_fst)
  have cnt: "add32 (FreeCount H) 1 = FreeCount H + 1"
    using ok len by (simp add: fl_ok_def)
  show ?thesis
  proof (cases as rule: rev_cases; cases cs)
    assume "as = []" "cs = []"
    then show ?thesis
      using ok k x cnt by (auto simp: fl_ok_def link_new_def Let_def upd_def)
  next
    fix c ds assume *: "as = []" "cs = c # ds"
    then show ?thesis
      using ok k x cnt cs offs by (auto simp: fl_ok_def link_new_def Let_def upd_def)
  next
    fix bs' b assume *: "as = bs' @ [b]" "cs = []"
    then show ?thesis
      using ok k x cnt as offs
      by (auto simp: fl_ok_def link_new_def Let_def upd_def fseg_append sorted_wrt_append first_off_append)
  next
    fix bs' b c ds assume *: "as = bs' @ [b]" "cs = c # ds"
    then show ?thesis
      using ok k x cnt as cs offs
      by (auto simp: fl_ok_def link_new_def Let_def upd_def fseg_append sorted_wrt_append first_off_append)
  qed
qed

text \<open>Coalescing on the abstract lists: with the block on the right, with the block on the left.\<close>

fun mergeR :: "block \<Rightarrow> block list \<Rightarrow> block list" where
  "mergeR b [] = [b]"
| "mergeR b (c # cs) = (if fst b + snd b = fst c then (fst b, snd b + snd c) # cs else b # c # cs)"

definition mergeL :: "block list \<Rightarrow> block \<Rightarrow> block list \<Rightarrow> block list" where
  "mergeL as d ds = (if as \<noteq> [] \<and> fst (last as) + snd (last as) = fst d
     then butlast as @ (fst (last as), snd (last as) + snd d) # ds else as @ d # ds)"

lemma pages_of_join: "fst b + snd b = fst c \<Longrightarrow> pages_of (fst b, snd b + snd c) = pages_of b \<union> pages_of c"
  by (auto simp: pages_of_def)

lemma mergeR_pages: "free_pages (mergeR b cs) = pages_of b \<union> free_pages cs"
  by (cases cs) (auto simp: pages_of_join)

lemma mergeL_pages: "free_pages (mergeL as d ds) = free_pages as \<union> pages_of d \<union> free_pages ds"
  by (cases as rule: rev_cases) (auto simp: mergeL_def pages_of_join)

lemma mergeR_hd: "\<exists>k ds. mergeR b cs = (fst b, k) # ds \<and> snd b \<le> k"
  by (cases cs) (auto intro: exI [of _ "snd b"])

lemma mergeR_apart:
  assumes "sorted_wrt apart cs" and "\<forall>c\<in>set cs. before b c \<and> 0 < snd c"
  shows "sorted_wrt apart (mergeR b cs)"
proof (cases cs)
  case (Cons c ds)
  have "apart b c'" if "fst b + snd b \<noteq> fst c" "c' \<in> set ds" for c'
    using that assms Cons by (auto simp: apart_def before_def)
  then show ?thesis
    using assms Cons by (auto simp: apart_def before_def)
qed simp

lemma mergeL_apart:
  assumes "sorted_wrt apart as" and "sorted_wrt apart (d # ds)" and "\<forall>a\<in>set as. before a d \<and> 0 < snd a"
    and "0 < snd d"
  shows "sorted_wrt apart (mergeL as d ds)"
proof (cases as rule: rev_cases)
  case (snoc bs b)
  have "apart a c" if "a \<in> set bs" "c \<in> set ds" for a c
    using that assms snoc by (auto simp: apart_def before_def sorted_wrt_append) fastforce
  moreover have "apart a d" if "a \<in> set bs" for a
    using that assms snoc by (auto simp: apart_def before_def sorted_wrt_append)
  ultimately show ?thesis
    using assms snoc by (auto simp: mergeL_def apart_def before_def sorted_wrt_append)
qed (use assms in \<open>simp add: mergeL_def\<close>)

lemma merge_next_ok:
  assumes ok: "fl_ok (H, M) (as @ (x, k) # cs)"
  shows "fl_ok (merge_next x k (first_off cs kFreeListEnd) (H, M)) (as @ mergeR (x, k) cs)"
proof (cases cs)
  case Nil
  then show ?thesis using ok by (simp add: merge_next_def)
next
  case (Cons c ds)
  note offs = fl_ok_offs [OF ok]
  have sum: "add32 x k = x + k" "add32 k (snd c) = k + snd c"
    "FreeCount H = Suc (Suc (List.length as + List.length ds))"
    using ok Cons offs by (auto simp: fl_ok_def)
  show ?thesis
  proof (cases "x + k = fst c")
    case False
    then show ?thesis
      using ok Cons sum by (auto simp: merge_next_def)
  next
    case True
    have "List.length (as @ (x, k) # cs) \<le> BumpOffsetInPages H"
      using ok by (intro length_blocks) (auto simp: fl_ok_def)
    then have "List.length as + List.length ds + 2 < 2 ^ 32"
      using ok Cons by (simp add: fl_ok_def)
    then show ?thesis
      using ok Cons offs True sum
      by (cases ds) (auto simp: fl_ok_def merge_next_def upd_def Let_def fseg_append sorted_wrt_append
          first_off_append before_def)
  qed
qed

lemma merge_prev_ok:
  assumes ok: "fl_ok (H, M) (as @ d # ds)"
  shows "fl_ok (merge_prev (fst d) (last_off kFreeListEnd as) (H, M)) (mergeL as d ds)"
proof (cases as rule: rev_cases)
  case Nil
  then show ?thesis using ok by (simp add: merge_prev_def mergeL_def)
next
  case (snoc bs b)
  note offs = fl_ok_offs [OF ok]
  have sum: "add32 (fst b) (snd b) = fst b + snd b" "add32 (snd b) (snd d) = snd b + snd d"
    "FreeCount H = Suc (Suc (List.length bs + List.length ds))"
    "M (fst b) = \<lparr> PrevPageOff = last_off kFreeListEnd bs, NextPageOff = fst d, SizeInPages = snd b, Magic = kFreeBlockMagic \<rparr>"
    using ok snoc offs by (auto simp: fl_ok_def fseg_append)
  show ?thesis
  proof (cases "fst b + snd b = fst d")
    case False
    then show ?thesis
      using ok snoc sum by (auto simp: merge_prev_def mergeL_def)
  next
    case True
    have "List.length (as @ d # ds) \<le> BumpOffsetInPages H"
      using ok by (intro length_blocks) (auto simp: fl_ok_def)
    then have "List.length bs + List.length ds + 2 < 2 ^ 32"
      using ok snoc by (simp add: fl_ok_def)
    then show ?thesis
      using ok snoc offs True sum
      by (cases ds) (auto simp: fl_ok_def merge_prev_def mergeL_def upd_def Let_def fseg_append sorted_wrt_append
          first_off_append before_def)
  qed
qed

text \<open>The writes of store: only headers of free blocks.\<close>

lemma link_new_frame:
  assumes "y \<noteq> x" "y \<notin> fst ` set as" "y \<notin> fst ` set cs"
  shows "snd (link_new x k (last_off kFreeListEnd as) (first_off cs kFreeListEnd) (H, M)) y = M y"
  using assms by (cases as rule: rev_cases; cases cs) (auto simp: link_new_def Let_def upd_def)

lemma merge_next_frame:
  assumes "fseg M p ((x, k) # cs) kFreeListEnd" "y \<noteq> x" "y \<notin> fst ` set cs"
  shows "snd (merge_next x k (first_off cs kFreeListEnd) (H, M)) y = M y"
proof (cases cs)
  case (Cons c ds)
  then show ?thesis
    using assms by (cases ds) (auto simp: merge_next_def Let_def upd_def)
qed (simp add: merge_next_def)

lemma merge_prev_frame:
  assumes "fseg M p (as @ d # ds) kFreeListEnd" "y \<noteq> fst d" "y \<notin> fst ` set as" "y \<notin> fst ` set ds"
  shows "snd (merge_prev (fst d) (last_off kFreeListEnd as) (H, M)) y = M y"
proof (cases as rule: rev_cases)
  case (snoc bs b)
  then show ?thesis
    using assms by (cases ds) (auto simp: merge_prev_def Let_def upd_def fseg_append)
qed (simp add: merge_prev_def)

definition hdr_same :: "SharedArenaHeader \<Rightarrow> SharedArenaHeader \<Rightarrow> bool" where
  "hdr_same H H' \<longleftrightarrow> H' = H\<lparr>FreeListHeadPageOff := FreeListHeadPageOff H', FreeCount := FreeCount H'\<rparr>"

lemma link_new_hdr: "hdr_same H (fst (link_new x k p n (H, M)))"
  by (auto simp: hdr_same_def link_new_def Let_def)

lemma merge_next_hdr: "hdr_same H (fst (merge_next x k n (H, M)))"
  by (auto simp: hdr_same_def merge_next_def Let_def)

lemma merge_prev_hdr: "hdr_same H (fst (merge_prev x p (H, M)))"
  by (auto simp: hdr_same_def merge_prev_def Let_def)

lemma hdr_same_trans: "hdr_same H H' \<Longrightarrow> hdr_same H' H'' \<Longrightarrow> hdr_same H H''"
  unfolding hdr_same_def by (cases H; cases H'; cases H'') simp

lemma mergeR_offs: "fst ` set (mergeR b cs) \<subseteq> insert (fst b) (fst ` set cs)"
  by (cases cs) auto

lemma offs_free: "\<forall>b\<in>set bs. 0 < snd b \<Longrightarrow> fst ` set bs \<subseteq> free_pages bs"
  by (force simp: free_pages_def pages_of_def)

lemma insert_free_correct:
  assumes ok: "arena_ok (H, M) bs" and k: "0 < k" "x + k \<le> BumpOffsetInPages H"
    and dis: "pages_of (x, k) \<inter> free_pages bs = {}"
  shows "\<exists>H' M' bs'. insert_free x k (H, M) = Some (H', M') \<and> arena_ok (H', M') bs' \<and>
    free_pages bs' = free_pages bs \<union> pages_of (x, k) \<and> hdr_same H H' \<and>
    (\<forall>y. y \<notin> free_pages bs' \<longrightarrow> M' y = M y)"
proof -
  define as where "as = takeWhile (\<lambda>b. fst b \<le> x) bs"
  define cs where "cs = dropWhile (\<lambda>b. fst b \<le> x) bs"
  have bs: "bs = as @ cs" by (simp add: as_def cs_def)
  have fl: "fl_ok (H, M) (as @ cs)" and ap: "sorted_wrt apart as" "sorted_wrt apart cs"
    using ok by (auto simp: arena_ok_def bs sorted_wrt_append)
  have pos: "\<forall>b\<in>set bs. 0 < snd b" and srt: "sorted_wrt before bs"
    using fl by (auto simp: fl_ok_def bs)
  have dj: "pages_of (x, k) \<inter> pages_of b = {}" if "b \<in> set bs" for b
    using dis that by (auto simp: free_pages_def)
  have side: "\<forall>b\<in>set as. before b (x, k)" "\<forall>b\<in>set cs. before (x, k) b"
    using split_at [OF srt pos, of x] disjoint_side [OF dj k(1)] pos
    unfolding as_def [symmetric] cs_def [symmetric] by (auto simp: bs)
  have "find_position M (TotalDataPages H) x kFreeListEnd (FreeListHeadPageOff H) =
      Some (last_off kFreeListEnd as, first_off cs kFreeListEnd, False)"
  proof -
    have "fseg M kFreeListEnd bs kFreeListEnd" "TotalDataPages H < 2 ^ 31"
      "FreeListHeadPageOff H = first_off bs kFreeListEnd"
      using fl by (auto simp: fl_ok_def bs)
    moreover have "\<forall>b\<in>set bs. 0 < snd b \<and> fst b + snd b \<le> TotalDataPages H"
      using fl_ok_below [OF fl] by (simp add: bs)
    ultimately show ?thesis
      using find_position_correct [of M kFreeListEnd bs "TotalDataPages H" x] srt
      by (simp add: as_def cs_def)
  qed
  note ins = insert_free_link [OF this, of k]
  obtain H1 M1 where L: "link_new x k (last_off kFreeListEnd as) (first_off cs kFreeListEnd) (H, M) = (H1, M1)"
    by fastforce
  have ok1: "fl_ok (H1, M1) (as @ (x, k) # cs)"
    using link_new_ok [OF fl k side] L by simp
  obtain H2 M2 where L2: "merge_next x k (first_off cs kFreeListEnd) (H1, M1) = (H2, M2)"
    by fastforce
  obtain k' ds where mR: "mergeR (x, k) cs = (x, k') # ds" "k \<le> k'"
    using mergeR_hd [of "(x, k)" cs] by auto
  have ok2: "fl_ok (H2, M2) (as @ (x, k') # ds)"
    using merge_next_ok [OF ok1] L2 mR by simp
  obtain H3 M3 where L3: "merge_prev x (last_off kFreeListEnd as) (H2, M2) = (H3, M3)"
    by fastforce
  let ?bs = "mergeL as (x, k') ds"
  have ok3: "fl_ok (H3, M3) ?bs"
    using merge_prev_ok [OF ok2] L3 by simp
  have "sorted_wrt apart ((x, k') # ds)"
    using mergeR_apart [OF ap(2), of "(x, k)"] side pos mR by (auto simp: bs)
  then have "sorted_wrt apart ?bs"
    using mergeL_apart [OF ap(1), of "(x, k')" ds] side pos k mR by (auto simp: bs before_def)
  moreover have fp: "free_pages ?bs = free_pages bs \<union> pages_of (x, k)"
    using mergeL_pages [of as "(x, k')" ds] mergeR_pages [of "(x, k)" cs] mR by (auto simp: bs)
  moreover have "hdr_same H H3"
    using link_new_hdr [of H x k _ _ M] merge_next_hdr [of H1 x k _ M1] merge_prev_hdr [of H2 x _ M2] L L2 L3
    by (metis hdr_same_trans fst_conv)
  moreover have "M3 y = M y" if y: "y \<notin> free_pages ?bs" for y
  proof -
    have "y \<notin> fst ` set (as @ (x, k) # cs)"
      using y offs_free [of "as @ (x, k) # cs"] pos k by (auto simp: fp bs)
    then have ny: "y \<noteq> x" "y \<notin> fst ` set as" "y \<notin> fst ` set cs" by auto
    have "y \<notin> fst ` set ds"
      using ny mergeR_offs [of "(x, k)" cs] mR by auto
    then have "M3 y = M2 y"
      using merge_prev_frame [of M2 kFreeListEnd as "(x, k')" ds y H2] ok2 ny L3 by (simp add: fl_ok_def)
    moreover have "M2 y = M1 y"
      using merge_next_frame [of M1 _ x k cs y H1] ok1 ny L2 by (simp add: fl_ok_def fseg_append)
    moreover have "M1 y = M y"
      using link_new_frame [of y x as cs k H M] ny L by simp
    ultimately show ?thesis by simp
  qed
  moreover have "insert_free x k (H, M) = Some (H3, M3)"
    using ins by (simp only: L L2 L3)
  moreover have "arena_ok (H3, M3) ?bs"
    using ok3 calculation(1) by (simp add: arena_ok_def)
  ultimately show ?thesis by blast
qed

section \<open>The scan of retrieve\<close>

text \<open>The scan on the abstract list, starting from a best candidate.\<close>

fun best_of :: "nat \<Rightarrow> nat \<Rightarrow> nat \<Rightarrow> block list \<Rightarrow> nat" where
  "best_of n bo bp [] = bo"
| "best_of n bo bp (b # bs) =
    (if n \<le> snd b \<and> snd b < bp then
       (if snd b = n then fst b else best_of n (fst b) (snd b) bs)
     else best_of n bo bp bs)"

lemma best_fit_correct:
  assumes "fseg M p bs kFreeListEnd" and "\<forall>b\<in>set bs. 0 < snd b \<and> fst b + snd b \<le> N"
    and "N < 2 ^ 31" and "p = kFreeListEnd \<or> p < N"
  shows "best_fit M N n bo bp (first_off bs kFreeListEnd) = Some (best_of n bo bp bs, False)"
  using assms
proof (induction bs arbitrary: p bo bp)
  case Nil
  then show ?case by (subst best_fit.simps) simp
next
  case (Cons b bs)
  have N: "fst b < N" "N < kFreeListEnd"
    using Cons.prems by (auto simp: kFreeListEnd_def)
  have "first_off bs kFreeListEnd = kFreeListEnd \<or> first_off bs kFreeListEnd < N"
    using Cons.prems by (cases bs) auto
  then have "FreeBlockLooksValid (M (fst b)) (fst b) N"
    using Cons.prems by (intro looks_valid [of M b p "first_off bs kFreeListEnd"]) auto
  then show ?case
    using Cons.prems N Cons.IH [of "fst b"] by (subst best_fit.simps) auto
qed

lemma best_of_spec:
  assumes "\<forall>b\<in>set bs. snd b < bp'" "bp \<le> bp'"
  shows "(best_of n bo bp bs = bo \<and> (\<forall>b\<in>set bs. n \<le> snd b \<longrightarrow> bp \<le> snd b)) \<or>
    (\<exists>b\<in>set bs. best_of n bo bp bs = fst b \<and> n \<le> snd b \<and> snd b < bp \<and>
       (\<forall>c\<in>set bs. n \<le> snd c \<longrightarrow> snd b \<le> snd c))"
  using assms
proof (induction bs arbitrary: bo bp)
  case (Cons b bs)
  show ?case
  proof (cases "n \<le> snd b \<and> snd b < bp")
    case True
    have "snd b \<le> bp'" using Cons.prems by simp
    from Cons.IH [OF _ this, of "fst b"] Cons.prems True show ?thesis
      by (auto 0 3)
  next
    case False
    from Cons.IH [of bp bo] Cons.prems False show ?thesis
      by (auto 0 3)
  qed
qed simp

section \<open>Taking pages and giving them back\<close>

lemma take_best_exact:
  assumes ok: "fl_ok (H, M) (as @ b # cs)" and n: "n = snd b"
  shows "case take_best (fst b) n (H, M) of (x, H', M') \<Rightarrow>
    x = fst b \<and> fl_ok (H', M') (as @ cs) \<and> hdr_same H H' \<and>
    (\<forall>y. y \<notin> fst ` set (as @ b # cs) \<longrightarrow> M' y = M y) \<and>
    undo_take (fst b) n True (H', M') = (H, M)"
proof -
  note offs = fl_ok_offs [OF ok]
  have "List.length (as @ b # cs) \<le> BumpOffsetInPages H"
    using ok by (intro length_blocks) (auto simp: fl_ok_def)
  then have len: "List.length as + List.length cs + 1 < 2 ^ 32" "FreeCount H = Suc (List.length as + List.length cs)"
    using ok by (auto simp: fl_ok_def)
  have sz: "snd b < 2 ^ 32"
    using fl_ok_below [OF ok] ok by (auto simp: fl_ok_def)
  have "\<forall>c\<in>set (as @ b # cs). fst c \<noteq> kFreeListEnd"
    using offs(1,2) by (metis less_asym)
  then have bx: "fst b \<noteq> kFreeListEnd" "\<forall>c\<in>set as \<union> set cs. fst c \<noteq> kFreeListEnd"
    by simp_all
  show ?thesis
  proof (cases as rule: rev_cases; cases cs)
    assume "as = []" "cs = []"
    then show ?thesis
      using ok n bx len sz offs
      by (auto simp: take_best_def undo_take_def Let_def upd_def fl_ok_def hdr_same_def)
  next
    fix c ds assume "as = []" "cs = c # ds"
    then show ?thesis
      using ok n bx len sz offs
      by (auto simp: take_best_def undo_take_def Let_def upd_def fl_ok_def hdr_same_def intro!: ext)
  next
    fix es e assume "as = es @ [e]" "cs = []"
    then show ?thesis
      using ok n bx len sz offs
      by (auto simp: take_best_def undo_take_def Let_def upd_def fl_ok_def hdr_same_def fseg_append
          sorted_wrt_append first_off_append intro!: ext)
  next
    fix es e c ds assume "as = es @ [e]" "cs = c # ds"
    then show ?thesis
      using ok n bx len sz offs
      by (auto simp: take_best_def undo_take_def Let_def upd_def fl_ok_def hdr_same_def fseg_append
          sorted_wrt_append first_off_append intro!: ext)
  qed
qed

lemma take_best_tail:
  assumes ok: "fl_ok (H, M) (as @ b # cs)" and n: "n < snd b"
  shows "case take_best (fst b) n (H, M) of (x, H', M') \<Rightarrow>
    x = fst b + (snd b - n) \<and> fl_ok (H', M') (as @ (fst b, snd b - n) # cs) \<and> hdr_same H H' \<and>
    (\<forall>y. y \<notin> fst ` set (as @ b # cs) \<longrightarrow> M' y = M y) \<and>
    undo_take (fst b) n False (H', M') = (H, M)"
proof -
  note offs = fl_ok_offs [OF ok]
  have sz: "snd b < 2 ^ 32" "fst b + snd b < 2 ^ 32"
    using fl_ok_below [OF ok] ok by (auto simp: fl_ok_def)
  have Mb: "M (fst b) = \<lparr> PrevPageOff = last_off kFreeListEnd as, NextPageOff = first_off cs kFreeListEnd,
      SizeInPages = snd b, Magic = kFreeBlockMagic \<rparr>"
    using ok by (auto simp: fl_ok_def fseg_append)
  have d: "fst b \<notin> fst ` set as" "fst b \<notin> fst ` set cs" "fst b \<noteq> kFreeListEnd"
    using offs by auto
  have "fl_ok (H, M((fst b) := M (fst b)\<lparr>SizeInPages := snd b - n\<rparr>)) (as @ (fst b, snd b - n) # cs)"
    using ok Mb d n by (auto simp: fl_ok_def fseg_append sorted_wrt_append before_def first_off_append)
  then show ?thesis
    using Mb d n sz by (auto simp: take_best_def undo_take_def Let_def upd_def hdr_same_def intro!: ext)
qed

end
