(* ===== verification/Arena_Retrieve.thy ===== *)
theory Arena_Retrieve
  imports Arena_Invariant
begin

text \<open>What retrieve promises: on an arena that satisfies its invariant it returns, a returned block
  consists of pages that were free (or fresh from the bump pointer), lies page aligned in the
  data area, and has room for the headers and the request; and a refused log append leaves the
  free list exactly as it was.\<close>

section \<open>Geometry of the data area\<close>

definition arena_geo :: "arena_env \<Rightarrow> SharedArena \<Rightarrow> nat \<Rightarrow> bool" where
  "arena_geo env A p \<longleftrightarrow> p < 32 \<and> PageSize env = 2 ^ p \<and> 0 < unat (DataBase A) \<and>
    unat (DataBase A) mod 2 ^ p = 0 \<and> unat (DataBase A) + TotalDataPages (Hdr A) * 2 ^ p < 2 ^ 64"

lemma unat_PageSize: "arena_geo env A p \<Longrightarrow> unat (PageSize env) = 2 ^ p"
  by (simp add: arena_geo_def unat_exp)

lemma unat_pageOffToAddr:
  assumes geo: "arena_geo env A p" and x: "x \<le> TotalDataPages (Hdr A)" "TotalDataPages (Hdr A) < 2 ^ 31"
  shows "unat (pageOffToAddr env A x) = unat (DataBase A) + x * 2 ^ p"
proof -
  have "x * 2 ^ p \<le> TotalDataPages (Hdr A) * 2 ^ p"
    using x by simp
  then have b: "unat (DataBase A) + x * 2 ^ p < 2 ^ 64"
    using geo unfolding arena_geo_def by linarith
  have ux: "unat (of_nat x :: uptr) = x"
    using x by (simp add: unat_of_nat)
  have "unat (of_nat x * PageSize env :: uptr) = x * 2 ^ p"
    using b unat_PageSize [OF geo] by (subst unat_mult_lt) (simp_all add: ux)
  then show ?thesis
    using b by (simp add: pageOffToAddr_def unat_word_ariths)
qed

lemma addrToPageOff_pageOffToAddr:
  assumes geo: "arena_geo env A p" and x: "x \<le> TotalDataPages (Hdr A)" "TotalDataPages (Hdr A) < 2 ^ 31"
  shows "addrToPageOff env A (pageOffToAddr env A x) = x"
    and "isAligned (pageOffToAddr env A x) (PageSize env)"
proof -
  have u: "unat (pageOffToAddr env A x) = unat (DataBase A) + x * 2 ^ p"
    using assms by (rule unat_pageOffToAddr)
  have "DataBase A \<le> pageOffToAddr env A x"
    using u by (simp add: word_le_nat_alt)
  then have "unat (pageOffToAddr env A x - DataBase A) = x * 2 ^ p"
    using u by (simp add: unat_sub)
  then have "unat ((pageOffToAddr env A x - DataBase A) div PageSize env) = x"
    by (simp add: unat_div unat_PageSize [OF geo])
  then show "addrToPageOff env A (pageOffToAddr env A x) = x"
    using x by (simp add: addrToPageOff_def)
  have "PageSize env = 2 ^ p" using geo by (simp add: arena_geo_def)
  then show "isAligned (pageOffToAddr env A x) (PageSize env)"
    using geo u by (simp add: isAligned_exp arena_geo_def)
qed

lemma pageOffToAddr_inj:
  assumes "arena_geo env A p" "x \<le> TotalDataPages (Hdr A)" "y \<le> TotalDataPages (Hdr A)"
    "TotalDataPages (Hdr A) < 2 ^ 31"
  shows "pageOffToAddr env A x = pageOffToAddr env A y \<longleftrightarrow> x = y"
  using assms addrToPageOff_pageOffToAddr by metis

lemma pageOffToAddr_not_0:
  assumes "arena_geo env A p" "x \<le> TotalDataPages (Hdr A)" "TotalDataPages (Hdr A) < 2 ^ 31"
  shows "pageOffToAddr env A x \<noteq> 0"
  using unat_pageOffToAddr [OF assms] assms(1) by (auto simp: arena_geo_def)

lemma pageOffToAddr_cong: "DataBase A = DataBase B \<Longrightarrow> pageOffToAddr env A x = pageOffToAddr env B x"
  by (simp add: pageOffToAddr_def)

section \<open>The size of a request\<close>

text \<open>The request rounded to pages does not wrap and its page count is below 2 ^ 31; the check of the bump
  pointer is a 32-bit sum, which could wrap beyond that.\<close>

definition request_ok :: "arena_env \<Rightarrow> nat \<Rightarrow> uptr \<Rightarrow> uptr \<Rightarrow> bool" where
  "request_ok env p sz hs \<longleftrightarrow> 0 < unat sz + unat hs \<and> unat sz + unat hs + 2 ^ p \<le> 2 ^ (31 + p) \<and> p < 32"

lemma NeededSize_pages:
  assumes geo: "arena_geo env A p" and r: "request_ok env p sz hs"
  shows "unat (NeededSize env sz hs) = NeededPages env sz hs * 2 ^ p"
    and "0 < NeededPages env sz hs" and "NeededPages env sz hs < 2 ^ 31"
    and "unat sz + unat hs \<le> unat (NeededSize env sz hs)"
proof -
  let ?s = "unat sz + unat hs"
  have p: "p < 32" "PageSize env = 2 ^ p" using geo by (simp_all add: arena_geo_def)
  have "(2::nat) ^ (31 + p) \<le> 2 ^ 62"
    using p by (intro power_increasing) auto
  then have b: "?s + 2 ^ p \<le> 2 ^ 62"
    using r by (simp add: request_ok_def)
  then have u: "unat (sz + hs) = ?s"
    by (simp add: unat_word_ariths)
  have ns: "unat (NeededSize env sz hs) = (?s + 2 ^ p - 1) div 2 ^ p * 2 ^ p"
    using unat_roundUp [of p "sz + hs"] p b u by (simp add: NeededSize_def)
  have q: "(?s + 2 ^ p - 1) div 2 ^ p < 2 ^ 31"
  proof (rule less_mult_imp_div_less)
    have "?s + 2 ^ p \<le> 2 ^ 31 * 2 ^ p" "0 < ?s"
      using r by (auto simp: request_ok_def power_add)
    then show "?s + 2 ^ p - 1 < 2 ^ 31 * 2 ^ p" by linarith
  qed
  have np: "NeededPages env sz hs = (?s + 2 ^ p - 1) div 2 ^ p"
    using q by (simp add: NeededPages_def unat_div ns unat_PageSize [OF geo])
  show "unat (NeededSize env sz hs) = NeededPages env sz hs * 2 ^ p"
    by (simp add: ns np)
  show "0 < NeededPages env sz hs"
    using r by (auto simp: np request_ok_def div_greater_zero_iff)
  show "NeededPages env sz hs < 2 ^ 31"
    using q np by simp
  show "?s \<le> unat (NeededSize env sz hs)"
    using ceil_mult_bounds(1) [of "2 ^ p" ?s] by (simp add: ns)
qed

section \<open>Frames\<close>

lemma arena_ok_stats [simp]:
  "arena_ok (H\<lparr>Lock := v\<rparr>, M) bs = arena_ok (H, M) bs"
  "arena_ok (H\<lparr>TotalRetrievedBytes := t\<rparr>, M) bs = arena_ok (H, M) bs"
  "arena_ok (H\<lparr>RetrieveCount := c\<rparr>, M) bs = arena_ok (H, M) bs"
  "arena_ok (H\<lparr>TotalDonatedBytes := t\<rparr>, M) bs = arena_ok (H, M) bs"
  "arena_ok (H\<lparr>DonateCount := c\<rparr>, M) bs = arena_ok (H, M) bs"
  by (simp_all add: arena_ok_def fl_ok_def)

lemma appendLogPagesLocked_frame:
  assumes "appendLogPagesLocked env op src st sz fl A = (ok, A')"
  shows "A' = A\<lparr>LogHeadCache := LogHeadCache A', LogTailCache := LogTailCache A', LogRing := LogRing A'\<rparr>"
  using assms by (auto simp: appendLogPagesLocked_def Let_def split: if_splits option.splits prod.splits)

lemma appendLogLocked_frame:
  assumes "appendLogLocked env op b sz fl A = (ok, A')"
  shows "A' = A\<lparr>LogHeadCache := LogHeadCache A', LogTailCache := LogTailCache A', LogRing := LogRing A'\<rparr>"
  using assms appendLogPagesLocked_frame by (auto simp: appendLogLocked_def split: if_splits)

lemma undo_take_stats:
  "undo_take bo n w (H\<lparr>TotalRetrievedBytes := t, RetrieveCount := c\<rparr>, M) =
    (case undo_take bo n w (H, M) of (H', M') \<Rightarrow> (H'\<lparr>TotalRetrievedBytes := t, RetrieveCount := c\<rparr>, M'))"
  by (simp add: undo_take_def Let_def)

section \<open>Both phases of the allocation\<close>

text \<open>How the pages [x, x + n) were obtained from an arena: from the smallest sufficient free block
  (exactly or cut from its end), or from the bump pointer.\<close>

definition from_list :: "SharedArenaHeader \<Rightarrow> block list \<Rightarrow> nat \<Rightarrow> nat \<Rightarrow> SharedArenaHeader \<Rightarrow> block list \<Rightarrow> bool" where
  "from_list H bs x n H' bs' \<longleftrightarrow>
    (\<exists>b\<in>set bs. n \<le> snd b \<and> (\<forall>c\<in>set bs. n \<le> snd c \<longrightarrow> snd b \<le> snd c) \<and> x = fst b + (snd b - n)) \<and>
    pages_of (x, n) \<subseteq> free_pages bs \<and> free_pages bs' = free_pages bs - pages_of (x, n) \<and> hdr_same H H'"

definition from_bump :: "SharedArenaHeader \<Rightarrow> block list \<Rightarrow> nat \<Rightarrow> nat \<Rightarrow> SharedArenaHeader \<Rightarrow> block list \<Rightarrow> bool" where
  "from_bump H bs x n H' bs' \<longleftrightarrow>
    x = BumpOffsetInPages H \<and> x + n \<le> TotalDataPages H \<and> bs' = bs \<and> H' = H\<lparr>BumpOffsetInPages := x + n\<rparr>"

lemma arena_ok_fl: "arena_ok S bs \<Longrightarrow> fl_ok S bs"
  by (simp add: arena_ok_def)

lemma pages_disjoint:
  assumes "sorted_wrt before (as @ b # cs)"
  shows "pages_of b \<inter> free_pages as = {}" "pages_of b \<inter> free_pages cs = {}"
  using assms by (fastforce simp: sorted_wrt_append before_def pages_of_def free_pages_def)+

lemma find_best_correct:
  assumes ok: "arena_ok (H, M) bs"
  shows "\<exists>bo. find_best env n H M = Some (bo, H) \<and>
    (bo = kFreeListEnd \<and> (FreelistDisabled env \<or> (\<forall>b\<in>set bs. snd b < n)) \<or>
     (\<exists>b\<in>set bs. bo = fst b \<and> n \<le> snd b \<and> (\<forall>c\<in>set bs. n \<le> snd c \<longrightarrow> snd b \<le> snd c)))"
proof (cases "FreelistDisabled env \<or> bs = []")
  case True
  have "FreeCount H = 0" if "bs = []" using ok that by (simp add: arena_ok_def fl_ok_def)
  then show ?thesis
    using True by (auto simp: find_best_def)
next
  case False
  note fl = arena_ok_fl [OF ok]
  note below = fl_ok_below [OF fl]
  have "FreeCount H \<noteq> 0" "fseg M kFreeListEnd bs kFreeListEnd" "TotalDataPages H < 2 ^ 31"
    "FreeListHeadPageOff H = first_off bs kFreeListEnd"
    using fl False by (auto simp: fl_ok_def)
  then have fb: "find_best env n H M = Some (best_of n kFreeListEnd (2 ^ 32 - 1) bs, H)"
    using False best_fit_correct [of M kFreeListEnd bs "TotalDataPages H" n kFreeListEnd "2 ^ 32 - 1"] below
    by (simp add: find_best_def)
  have small: "\<forall>b\<in>set bs. snd b < 2 ^ 32 - 1"
    using below \<open>TotalDataPages H < 2 ^ 31\<close> by fastforce
  have "snd b < n" if "b \<in> set bs" "\<forall>b\<in>set bs. n \<le> snd b \<longrightarrow> 2 ^ 32 - 1 \<le> snd b" for b
    using small that by (meson leD le_less_linear)
  then show ?thesis
    using fb best_of_spec [OF small order_refl, of n kFreeListEnd] by blast
qed

text \<open>The pages [x, x + n) were taken from A, leaving A' with the free list bs'; undoing it gives A
  back.\<close>

definition taken :: "arena_env \<Rightarrow> nat \<Rightarrow> SharedArena \<Rightarrow> block list \<Rightarrow> nat \<Rightarrow> nat \<Rightarrow> SharedArena \<Rightarrow> block list \<Rightarrow> bool" where
  "taken env n A bs bo x A' bs' \<longleftrightarrow>
    A' = A\<lparr>Hdr := Hdr A', Blocks := Blocks A'\<rparr> \<and> x + n \<le> TotalDataPages (Hdr A) \<and>
    arena_ok (Hdr A', Blocks A') bs' \<and> (\<forall>y. y \<notin> free_pages bs \<longrightarrow> Blocks A' y = Blocks A y) \<and>
    (from_list (Hdr A) bs x n (Hdr A') bs' \<or>
     from_bump (Hdr A) bs x n (Hdr A') bs' \<and> (FreelistDisabled env \<or> (\<forall>b\<in>set bs. snd b < n))) \<and>
    undo_take bo n (pageOffToAddr env A x = pageOffToAddr env A bo) (Hdr A', Blocks A') = (Hdr A, Blocks A)"

lemma alloc_pages_correct:
  assumes ok: "arena_ok (Hdr A, Blocks A) bs" and geo: "arena_geo env A p" and n: "0 < n" "n < 2 ^ 31"
  shows "(\<exists>bo. alloc_pages env n A = Some (bo, None, A)) \<or>
    (\<exists>bo x A' bs'. alloc_pages env n A = Some (bo, Some (pageOffToAddr env A x), A') \<and>
      taken env n A bs bo x A' bs')"
proof -
  obtain H M where HM: "Hdr A = H" "Blocks A = M" by blast
  note ok' = ok [unfolded HM] and fl = arena_ok_fl [OF ok [unfolded HM]]
  have T: "TotalDataPages H < 2 ^ 31" "BumpOffsetInPages H \<le> TotalDataPages H"
    using fl by (auto simp: fl_ok_def)
  note addr0 = pageOffToAddr_not_0 [OF geo, unfolded HM, OF _ T(1)]
  obtain bo where bo: "find_best env n H M = Some (bo, H)"
    and bo_cases: "bo = kFreeListEnd \<and> (FreelistDisabled env \<or> (\<forall>b\<in>set bs. snd b < n)) \<or>
      (\<exists>b\<in>set bs. bo = fst b \<and> n \<le> snd b \<and> (\<forall>c\<in>set bs. n \<le> snd c \<longrightarrow> snd b \<le> snd c))"
    using find_best_correct [OF ok', of env n] by blast
  from bo_cases show ?thesis
  proof
    assume *: "bo = kFreeListEnd \<and> (FreelistDisabled env \<or> (\<forall>b\<in>set bs. snd b < n))"
    show ?thesis
    proof (cases "TotalDataPages H < add32 (BumpOffsetInPages H) n")
      case True
      then show ?thesis
        using bo * HM by (auto simp: alloc_pages_def)
    next
      case False
      let ?x = "BumpOffsetInPages H"
      have sum: "add32 ?x n = ?x + n" "?x + n \<le> TotalDataPages H"
        using False T n by auto
      let ?A = "A\<lparr>Hdr := H\<lparr>BumpOffsetInPages := ?x + n\<rparr>\<rparr>"
      have "alloc_pages env n A = Some (bo, Some (pageOffToAddr env A ?x), ?A)"
        using bo * HM sum False by (simp add: alloc_pages_def Let_def pageOffToAddr_def)
      moreover have "arena_ok (Hdr ?A, Blocks ?A) bs"
        using ok' HM sum by (auto simp: arena_ok_def fl_ok_def)
      moreover have "from_bump H bs ?x n (Hdr ?A) bs"
        using sum by (simp add: from_bump_def)
      moreover have "undo_take bo n w (Hdr ?A, Blocks ?A) = (H, M)" for w
        using * HM sum n T by (simp add: undo_take_def)
      ultimately have "taken env n A bs bo ?x ?A bs"
        using * sum HM by (simp add: taken_def)
      then show ?thesis
        using \<open>alloc_pages env n A = _\<close> by blast
    qed
  next
    assume "\<exists>b\<in>set bs. bo = fst b \<and> n \<le> snd b \<and> (\<forall>c\<in>set bs. n \<le> snd c \<longrightarrow> snd b \<le> snd c)"
    then obtain b where b: "b \<in> set bs" "bo = fst b" "n \<le> snd b"
      "\<forall>c\<in>set bs. n \<le> snd c \<longrightarrow> snd b \<le> snd c" by blast
    obtain as cs where bs: "bs = as @ b # cs"
      using b(1) by (meson split_list)
    have fl': "fl_ok (H, M) (as @ b # cs)" using fl bs by simp
    have bT: "fst b + snd b \<le> TotalDataPages H" "0 < snd b" "fst b \<noteq> kFreeListEnd"
      using fl_ok_below [OF fl] fl_ok_offs(1,2) [OF fl] b(1) by (auto dest: bspec)
    have ap: "sorted_wrt apart bs" "sorted_wrt before bs"
      using ok' by (auto simp: arena_ok_def fl_ok_def)
    note dis = pages_disjoint [OF ap(2) [unfolded bs]]
    let ?x = "fst b + (snd b - n)"
    define bs' where "bs' = (if n = snd b then as @ cs else as @ (fst b, snd b - n) # cs)"
    obtain x' H' M' where tb: "take_best (fst b) n (H, M) = (x', H', M')"
      by (cases "take_best (fst b) n (H, M)") auto
    have all: "x' = ?x \<and> fl_ok (H', M') bs' \<and> hdr_same H H' \<and>
      (\<forall>y. y \<notin> fst ` set bs \<longrightarrow> M' y = M y) \<and> undo_take bo n (n = snd b) (H', M') = (H, M)"
    proof (cases "n = snd b")
      case True
      then show ?thesis
        using take_best_exact [OF fl', of n] tb by (simp add: bs'_def b(2) bs)
    next
      case False
      then show ?thesis
        using take_best_tail [OF fl', of n] tb b(3) by (simp add: bs'_def b(2) bs)
    qed
    then have T': "x' = ?x" and ok1: "fl_ok (H', M') bs'" and same: "hdr_same H H'"
      and fr: "\<forall>y. y \<notin> fst ` set bs \<longrightarrow> M' y = M y"
      and un: "undo_take bo n (n = snd b) (H', M') = (H, M)"
      by auto
    let ?A = "A\<lparr>Hdr := H', Blocks := M'\<rparr>"
    have "sorted_wrt apart bs'"
      using ap(1) by (auto simp: bs'_def bs sorted_wrt_append apart_def)
    then have "arena_ok (Hdr ?A, Blocks ?A) bs'"
      using ok1 by (simp add: arena_ok_def)
    moreover have xT: "?x + n \<le> TotalDataPages H" using b bT by simp
    moreover have "alloc_pages env n A = Some (bo, Some (pageOffToAddr env A ?x), ?A)"
      using bo tb T' HM bT(3) b(2) addr0 [of ?x] xT
      by (simp add: alloc_pages_def Let_def pageOffToAddr_def)
    moreover have fp: "pages_of (?x, n) \<subseteq> free_pages bs \<and> free_pages bs' = free_pages bs - pages_of (?x, n)"
    proof -
      have P: "pages_of b = pages_of (fst b, snd b - n) \<union> pages_of (?x, n)"
        "pages_of (fst b, snd b - n) \<inter> pages_of (?x, n) = {}"
        using b(3) by (auto simp: pages_of_def)
      have A: "free_pages bs = free_pages as \<union> pages_of b \<union> free_pages cs"
        by (auto simp: bs)
      have B: "free_pages bs' = free_pages as \<union> pages_of (fst b, snd b - n) \<union> free_pages cs"
        by (auto simp: bs'_def pages_of_def)
      show ?thesis
        using dis P unfolding A B by blast
    qed
    moreover have "from_list H bs ?x n H' bs'"
      unfolding from_list_def using fp same b(1,3,4) by (intro conjI bexI [of _ b]) simp_all
    moreover have "\<forall>y. y \<notin> free_pages bs \<longrightarrow> M' y = M y"
    proof -
      have "fst ` set bs \<subseteq> free_pages bs"
        using fl_ok_below [OF fl] by (intro offs_free) simp
      then show ?thesis using fr by (meson subsetD)
    qed
    moreover have "(pageOffToAddr env A ?x = pageOffToAddr env A bo) \<longleftrightarrow> n = snd b"
    proof -
      have "?x \<le> TotalDataPages H" "bo \<le> TotalDataPages H" "?x = bo \<longleftrightarrow> n = snd b"
        using xT bT(1) b(2,3) by auto
      then show ?thesis
        using pageOffToAddr_inj [OF geo, unfolded HM, OF _ _ T(1), of ?x bo] by simp
    qed
    ultimately have "taken env n A bs bo ?x ?A bs'"
      using un HM by (simp add: taken_def)
    then show ?thesis
      using \<open>alloc_pages env n A = _\<close> by blast
  qed
qed

section \<open>The position of the header\<close>

definition AllocPos :: "arena_env \<Rightarrow> uptr \<Rightarrow> uptr \<Rightarrow> uptr \<Rightarrow> uptr \<Rightarrow> uptr" where
  "AllocPos env sz al hs base = roundDown (base + NeededSize env sz hs - sz) al"

lemma roundDown_nat:
  assumes "b mod 2 ^ a = 0" "b \<le> e"
  shows "b \<le> e div 2 ^ a * (2 ^ a :: nat)" "e div 2 ^ a * 2 ^ a \<le> e" "e < e div 2 ^ a * 2 ^ a + 2 ^ a"
proof -
  show "b \<le> e div 2 ^ a * 2 ^ a"
    using assms by (metis div_le_mono div_mult_mod_eq add_0_right mult_le_mono1)
  show "e div 2 ^ a * 2 ^ a \<le> e"
    by (rule div_times_less_eq_dividend)
  have "e mod 2 ^ a < 2 ^ a" by simp
  then show "e < e div 2 ^ a * 2 ^ a + 2 ^ a"
    using div_mult_mod_eq [of e "2 ^ a"] by linarith
qed

lemma AllocPos_bounds:
  assumes geo: "arena_geo env A p" and req: "request_ok env p sz hs"
    and x: "x + NeededPages env sz hs \<le> TotalDataPages (Hdr A)" "TotalDataPages (Hdr A) < 2 ^ 31"
    and al: "al = 2 ^ a" "a \<le> p" and hs: "unat hs \<le> 2 ^ p"
  shows "unat (AllocPos env sz al hs (pageOffToAddr env A x)) + unat sz \<le>
      unat (pageOffToAddr env A x) + unat (NeededSize env sz hs)"
    and "unat (pageOffToAddr env A x) + unat (NeededSize env sz hs) < 2 ^ 64"
    and "unat (AllocPos env sz al hs (pageOffToAddr env A x) - hs) + unat hs =
      unat (AllocPos env sz al hs (pageOffToAddr env A x))"
    and "isAligned (AllocPos env sz al hs (pageOffToAddr env A x)) al"
    and "unat sz + unat hs + 2 ^ a \<le> unat (NeededSize env sz hs) + 1 \<Longrightarrow>
      pageOffToAddr env A x \<le> AllocPos env sz al hs (pageOffToAddr env A x) - hs"
proof -
  define n where "n = NeededPages env sz hs"
  define b where "b = unat (pageOffToAddr env A x)"
  define S where "S = unat (NeededSize env sz hs)"
  have bx: "b = unat (DataBase A) + x * 2 ^ p"
    unfolding b_def using x by (intro unat_pageOffToAddr [OF geo]) auto
  have S: "S = n * 2 ^ p" "unat sz + unat hs \<le> S"
    using NeededSize_pages [OF geo req] by (simp_all add: S_def n_def)
  have "(x + n) * 2 ^ p \<le> TotalDataPages (Hdr A) * 2 ^ p"
    using x by (simp add: n_def)
  then have bS: "b + S < 2 ^ 64"
    using geo bx S by (simp add: arena_geo_def algebra_simps)
  then show "unat (pageOffToAddr env A x) + unat (NeededSize env sz hs) < 2 ^ 64"
    by (simp add: b_def S_def)
  have "unat (pageOffToAddr env A x + NeededSize env sz hs) = b + S"
    using bS by (simp add: b_def S_def unat_word_ariths)
  moreover have "sz \<le> pageOffToAddr env A x + NeededSize env sz hs"
    using calculation S by (simp add: word_le_nat_alt)
  ultimately have e: "unat (pageOffToAddr env A x + NeededSize env sz hs - sz) = b + S - unat sz"
    by (simp add: unat_sub)
  let ?e = "b + S - unat sz"
  have P: "unat (AllocPos env sz al hs (pageOffToAddr env A x)) = ?e div 2 ^ a * 2 ^ a"
    by (simp add: AllocPos_def al unat_roundDown e)
  have "(2::nat) ^ a dvd 2 ^ p" using al by (simp add: le_imp_power_dvd)
  moreover have bp: "b mod 2 ^ p = 0" using geo bx by (simp add: arena_geo_def)
  ultimately have ba: "b mod 2 ^ a = 0"
    by (metis dvd_trans mod_0_imp_dvd dvd_imp_mod_0)
  have be: "b \<le> ?e" using S by simp
  note rd = roundDown_nat [OF ba be]
  show "unat (AllocPos env sz al hs (pageOffToAddr env A x)) + unat sz \<le>
      unat (pageOffToAddr env A x) + unat (NeededSize env sz hs)"
    using rd(2) S(2) unfolding P b_def [symmetric] S_def [symmetric] by linarith
  have "0 < b" using geo bx by (simp add: arena_geo_def)
  then have "2 ^ p \<le> b" using bp by (metis dvd_imp_le mod_0_imp_dvd)
  then have hb: "unat hs \<le> ?e div 2 ^ a * 2 ^ a" using hs rd(1) by linarith
  then show q: "unat (AllocPos env sz al hs (pageOffToAddr env A x) - hs) + unat hs =
      unat (AllocPos env sz al hs (pageOffToAddr env A x))"
    by (simp add: unat_sub word_le_nat_alt P)
  show "isAligned (AllocPos env sz al hs (pageOffToAddr env A x)) al"
    by (simp add: al isAligned_exp P [unfolded al])
  assume slack: "unat sz + unat hs + 2 ^ a \<le> unat (NeededSize env sz hs) + 1"
  have "b + unat hs \<le> ?e div 2 ^ a * 2 ^ a"
    using rd(3) slack S by (simp flip: S_def)
  then show "pageOffToAddr env A x \<le> AllocPos env sz al hs (pageOffToAddr env A x) - hs"
    using q by (simp add: word_le_nat_alt P flip: b_def)
qed

section \<open>retrieve as a whole\<close>

text \<open>The pages [x, x + n) left the arena: what the header and the free list look like before and
  after.\<close>

definition pages_moved :: "arena_env \<Rightarrow> nat \<Rightarrow> SharedArena \<Rightarrow> block list \<Rightarrow> nat \<Rightarrow> SharedArena \<Rightarrow> block list \<Rightarrow> bool" where
  "pages_moved env n A bs x A' bs' \<longleftrightarrow>
    x + n \<le> TotalDataPages (Hdr A) \<and> TotalDataPages (Hdr A') = TotalDataPages (Hdr A) \<and>
    arena_ok (Hdr A', Blocks A') bs' \<and> (\<forall>y. y \<notin> free_pages bs \<longrightarrow> Blocks A' y = Blocks A y) \<and>
    ((\<exists>b\<in>set bs. n \<le> snd b \<and> (\<forall>c\<in>set bs. n \<le> snd c \<longrightarrow> snd b \<le> snd c) \<and> x = fst b + (snd b - n)) \<and>
       pages_of (x, n) \<subseteq> free_pages bs \<and> free_pages bs' = free_pages bs - pages_of (x, n) \<and>
       BumpOffsetInPages (Hdr A') = BumpOffsetInPages (Hdr A) \<or>
     x = BumpOffsetInPages (Hdr A) \<and> BumpOffsetInPages (Hdr A') = x + n \<and> bs' = bs \<and>
       (FreelistDisabled env \<or> (\<forall>b\<in>set bs. snd b < n)))"

lemma hdr_same_fields:
  assumes "hdr_same H H'"
  shows "BumpOffsetInPages H' = BumpOffsetInPages H" "TotalDataPages H' = TotalDataPages H" "Lock H' = Lock H"
    "TotalRetrievedBytes H' = TotalRetrievedBytes H" "RetrieveCount H' = RetrieveCount H"
    "TotalDonatedBytes H' = TotalDonatedBytes H" "DonateCount H' = DonateCount H" "Version H' = Version H"
  using assms by (cases H; cases H'; simp add: hdr_same_def)+

lemma taken_fields:
  assumes "taken env n A bs bo x A1 bs'"
  shows "Lock (Hdr A1) = Lock (Hdr A)" "TotalDataPages (Hdr A1) = TotalDataPages (Hdr A)"
    "TotalRetrievedBytes (Hdr A1) = TotalRetrievedBytes (Hdr A)" "RetrieveCount (Hdr A1) = RetrieveCount (Hdr A)"
  using assms by (auto simp: taken_def from_list_def from_bump_def hdr_same_fields)

lemma taken_pages_moved:
  assumes "taken env n (A\<lparr>Hdr := (Hdr A)\<lparr>Lock := 1\<rparr>\<rparr>) bs bo x A1 bs'"
    and "arena_ok (Hdr A2, Blocks A2) bs' = arena_ok (Hdr A1, Blocks A1) bs'"
    and "TotalDataPages (Hdr A2) = TotalDataPages (Hdr A1)"
    and "BumpOffsetInPages (Hdr A2) = BumpOffsetInPages (Hdr A1)" "Blocks A2 = Blocks A1"
  shows "pages_moved env n A bs x A2 bs'"
  using assms by (auto simp: taken_def pages_moved_def from_list_def from_bump_def hdr_same_fields)

lemma retrieve_cases:
  assumes init: "Initialized A" and unlocked: "Lock (Hdr A) = 0" and cnt: "RetrieveCount (Hdr A) < 2 ^ 32"
    and ok: "arena_ok (Hdr A, Blocks A) bs" and geo: "arena_geo env A p" and req: "request_ok env p sz hs"
  defines "n \<equiv> NeededPages env sz hs" and "S \<equiv> NeededSize env sz hs"
  shows "\<exists>r A'. retrieve env sz al hs A = Some (r, A') \<and> Lock (Hdr A') = 0 \<and>
    RetrieveCount (Hdr A') < 2 ^ 32 \<and> DataBase A' = DataBase A \<and> Initialized A' = Initialized A \<and>
    (r = None \<and> Hdr A' = Hdr A \<and> Blocks A' = Blocks A \<or>
     (\<exists>x bs'. pages_moved env n A bs x A' bs' \<and>
       (let base = pageOffToAddr env A x; pos = AllocPos env sz al hs base in
        if pos - hs < base \<or> base + S < pos then r = None else r = Some (base, S, pos - hs))))"
proof -
  define A0 where "A0 = A\<lparr>Hdr := (Hdr A)\<lparr>Lock := 1\<rparr>\<rparr>"
  have lk: "lock A = Some A0" using unlocked by (simp add: lock_def A0_def)
  have ok0: "arena_ok (Hdr A0, Blocks A0) bs" and geo0: "arena_geo env A0 p"
    using ok geo by (simp_all add: A0_def arena_geo_def)
  have n: "0 < n" "n < 2 ^ 31"
    using NeededSize_pages [OF geo req] by (simp_all add: n_def)
  have addr: "pageOffToAddr env A0 x = pageOffToAddr env A x" for x
    by (rule pageOffToAddr_cong) (simp add: A0_def)
  have bk: "unlock A0 = A"
    using unlocked by (simp add: A0_def unlock_def)
  from alloc_pages_correct [OF ok0 geo0 n] show ?thesis
  proof
    assume "\<exists>bo. alloc_pages env n A0 = Some (bo, None, A0)"
    then have "retrieve env sz al hs A = Some (None, A)"
      using init lk bk by (auto simp: retrieve_def n_def Let_def)
    then show ?thesis using unlocked cnt by auto
  next
    assume "\<exists>bo x A' bs'. alloc_pages env n A0 = Some (bo, Some (pageOffToAddr env A0 x), A') \<and>
      taken env n A0 bs bo x A' bs'"
    then obtain bo x A1 bs' where ap: "alloc_pages env n A0 = Some (bo, Some (pageOffToAddr env A x), A1)"
      and t: "taken env n A0 bs bo x A1 bs'"
      by (auto simp: addr)
    let ?base = "pageOffToAddr env A x"
    let ?pos = "AllocPos env sz al hs ?base"
    have P: "?pos = roundDown (?base + S - sz) al"
      by (simp add: AllocPos_def S_def)
    note moved = taken_pages_moved [OF t [unfolded A0_def]]
    note tf = taken_fields [OF t]
    have A1: "A1 = A0\<lparr>Hdr := Hdr A1, Blocks := Blocks A1\<rparr>"
      using t by (simp add: taken_def)
    have db1: "DataBase A1 = DataBase A" "Initialized A1 = Initialized A"
      by (subst A1, simp add: A0_def)+
    have cnt1: "RetrieveCount (Hdr A1) = RetrieveCount (Hdr A)"
      using tf by (simp add: A0_def)
    show ?thesis
    proof (cases "?pos - hs < ?base \<or> ?base + S < ?pos")
      case True
      then have "retrieve env sz al hs A = Some (None, unlock A1)"
        using init lk ap by (simp add: retrieve_def n_def [symmetric] S_def [symmetric] P Let_def)
      moreover have "pages_moved env n A bs x (unlock A1) bs'"
        by (rule moved) (simp_all add: unlock_def)
      ultimately show ?thesis
        using True db1 cnt1 cnt by (intro exI [of _ None] exI [of _ "unlock A1"]) (auto simp: unlock_def Let_def)
    next
      case False
      define A2 where "A2 = A1\<lparr>Hdr := (Hdr A1)\<lparr>TotalRetrievedBytes := TotalRetrievedBytes (Hdr A1) + S,
        RetrieveCount := add32 (RetrieveCount (Hdr A1)) 1\<rparr>\<rparr>"
      obtain lok A3 where log: "appendLogLocked env LogAlloc ?base S 0 A2 = (lok, A3)"
        by fastforce
      note fr = appendLogLocked_frame [OF log]
      have same: "Hdr A3 = Hdr A2" "Blocks A3 = Blocks A2" "DataBase A3 = DataBase A2" "Initialized A3 = Initialized A2"
        by (subst fr, simp)+
      show ?thesis
      proof (cases lok)
        case True
        have "retrieve env sz al hs A = Some (Some (?base, S, ?pos - hs), unlock A3)"
          using init lk ap False log [unfolded A2_def] True
          by (simp add: retrieve_def n_def [symmetric] S_def [symmetric] P Let_def)
        moreover have "pages_moved env n A bs x (unlock A3) bs'"
          by (rule moved) (simp_all add: unlock_def same A2_def)
        ultimately show ?thesis
          using False db1 by (intro exI [of _ "Some (?base, S, ?pos - hs)"] exI [of _ "unlock A3"])
            (auto simp: unlock_def Let_def same A2_def add32_def)
      next
        case nolog: False
        have db: "DataBase A3 = DataBase A"
          by (simp add: same A2_def db1)
        then have addr3: "pageOffToAddr env A3 y = pageOffToAddr env A y" for y
          by (rule pageOffToAddr_cong)
        have undo: "undo_take bo n (?base = pageOffToAddr env A3 bo) (Hdr A3, Blocks A3) =
          ((Hdr A0)\<lparr>TotalRetrievedBytes := TotalRetrievedBytes (Hdr A1) + S,
            RetrieveCount := add32 (RetrieveCount (Hdr A1)) 1\<rparr>, Blocks A0)"
          using t by (simp add: same A2_def undo_take_stats taken_def addr addr3)
        let ?H = "(Hdr A0)\<lparr>TotalRetrievedBytes := TotalRetrievedBytes (Hdr A1) + S,
            RetrieveCount := add32 (RetrieveCount (Hdr A1)) 1\<rparr>"
        let ?A = "unlock (A3\<lparr>Blocks := Blocks A0, Hdr := ?H\<lparr>TotalRetrievedBytes := TotalRetrievedBytes ?H - S,
            RetrieveCount := sub32 (RetrieveCount ?H) 1\<rparr>\<rparr>)"
        have "retrieve env sz al hs A = Some (None, ?A)"
          using init lk ap False log [unfolded A2_def] nolog undo
          by (simp add: retrieve_def n_def [symmetric] S_def [symmetric] P Let_def)
        moreover have "Hdr ?A = Hdr A"
          using cnt unlocked tf by (intro SharedArenaHeader.equality) (simp_all add: unlock_def A0_def)
        moreover have "Blocks ?A = Blocks A" "DataBase ?A = DataBase A" "Initialized ?A = Initialized A"
          by (simp_all add: unlock_def A0_def same A2_def db1)
        ultimately have "\<exists>A'. retrieve env sz al hs A = Some (None, A') \<and> Hdr A' = Hdr A \<and> Blocks A' = Blocks A \<and>
            DataBase A' = DataBase A \<and> Initialized A' = Initialized A"
          by blast
        then show ?thesis using unlocked cnt by auto
      qed
    qed
  qed
qed

end
