(* ===== verification/Shared_Arena_Pool.thy ===== *)
theory Shared_Arena_Pool
  imports Arena_Retrieve
begin

text \<open>The pool of arenas of shared_arena_linux.cpp: store, which may log in another core's arena
  and then holds two locks, the routing of addresses to arenas, the memory-pressure switch with
  its reading of /proc/meminfo, initialisation, refresh after fork, reset and statistics. What
  the operating system answers is an argument of the operation that asks.\<close>

section \<open>State\<close>

record SharedArenaPool =
  pInitialized :: bool
  OwnerPid :: uptr
  NumCores :: nat
  Arenas :: "nat \<Rightarrow> SharedArena"
  AllocCounter :: nat
  ArenaActive :: bool

datatype lock_event = Acquire nat | Release nat

definition set_arena :: "nat \<Rightarrow> SharedArena \<Rightarrow> SharedArenaPool \<Rightarrow> SharedArenaPool" where
  "set_arena i A P = P\<lparr>Arenas := (Arenas P)(i := A)\<rparr>"

text \<open>Locking and unlocking the i-th arena, with the trace of lock events. The lock of an arena
  that is already held is not obtained.\<close>

definition lock_at :: "nat \<Rightarrow> SharedArenaPool \<times> lock_event list \<Rightarrow> (SharedArenaPool \<times> lock_event list) option" where
  "lock_at i = (\<lambda>(P, tr). case lock (Arenas P i) of None \<Rightarrow> None
     | Some A \<Rightarrow> Some (set_arena i A P, tr @ [Acquire i]))"

definition unlock_at :: "nat \<Rightarrow> SharedArenaPool \<times> lock_event list \<Rightarrow> SharedArenaPool \<times> lock_event list" where
  "unlock_at i = (\<lambda>(P, tr). (set_arena i (unlock (Arenas P i)) P, tr @ [Release i]))"

section \<open>store\<close>

definition store_range_ok :: "arena_env \<Rightarrow> SharedArena \<Rightarrow> uptr \<Rightarrow> uptr \<Rightarrow> bool" where
  "store_range_ok env A CommitBase CommitSize =
    (let NewPageOff = addrToPageOff env A CommitBase;
         NewPages = u32_of (unat (CommitSize div PageSize env))
     in \<not> (\<not> isAligned CommitBase (PageSize env) \<or> \<not> isAligned CommitSize (PageSize env) \<or>
           TotalDataPages (Hdr A) \<le> NewPageOff \<or> NewPages = 0 \<or>
           TotalDataPages (Hdr A) - NewPageOff < NewPages))"

text \<open>The order in which store takes its one or two locks.\<close>

definition store_locks :: "nat \<Rightarrow> nat \<Rightarrow> SharedArenaPool \<Rightarrow> (SharedArenaPool \<times> lock_event list) option" where
  "store_locks own lg P =
    (if lg = own then lock_at own (P, [])
     else if CoreId (Arenas P lg) < CoreId (Arenas P own)
     then Option.bind (lock_at lg (P, [])) (lock_at own)
     else Option.bind (lock_at own (P, [])) (lock_at lg))"

definition donate_stats :: "uptr \<Rightarrow> SharedArenaHeader \<Rightarrow> SharedArenaHeader" where
  "donate_stats CommitSize H = H\<lparr>TotalDonatedBytes := TotalDonatedBytes H + CommitSize,
     DonateCount := add32 (DonateCount H) 1\<rparr>"

text \<open>store on the arena with index own; log is the LogArena argument, None for nullptr. The result
  is None when the call does not return, and otherwise its value, the pool and the lock events.\<close>

definition store :: "arena_env \<Rightarrow> nat \<Rightarrow> uptr \<Rightarrow> uptr \<Rightarrow> nat option \<Rightarrow> SharedArenaPool \<Rightarrow>
    (bool \<times> SharedArenaPool \<times> lock_event list) option" where
  "store env own CommitBase CommitSize log P =
    (let A = Arenas P own in
     if \<not> Initialized A \<or> CommitSize = 0 then Some (False, P, [])
     else let NewPageOff = addrToPageOff env A CommitBase;
              NewPages = u32_of (unat (CommitSize div PageSize env))
     in if \<not> store_range_ok env A CommitBase CommitSize then Some (False, P, [])
     else let lg = (case log of None \<Rightarrow> own | Some l \<Rightarrow> l)
     in case store_locks own lg P of None \<Rightarrow> None
     | Some (P, tr) \<Rightarrow>
       (case appendLogPagesLocked env LogFree (CoreId A mod 256) NewPageOff CommitSize 0 (Arenas P lg) of
         (ok, L) \<Rightarrow>
          let S = (set_arena lg L P, tr);
              S = (if lg \<noteq> own then unlock_at lg S else S)
          in if \<not> ok then (case unlock_at own S of (P, tr) \<Rightarrow> Some (False, P, tr))
          else let (P, tr) = S; A = Arenas P own in
            if FreelistDisabled env then
              (case unlock_at own (set_arena own (A\<lparr>Hdr := donate_stats CommitSize (Hdr A)\<rparr>) P, tr) of
                (P, tr) \<Rightarrow> Some (True, P, tr))
            else (case insert_free NewPageOff NewPages (Hdr A, Blocks A) of None \<Rightarrow> None
              | Some (H, M) \<Rightarrow>
                (case unlock_at own (set_arena own (A\<lparr>Hdr := donate_stats CommitSize H, Blocks := M\<rparr>) P, tr) of
                  (P, tr) \<Rightarrow> Some (True, P, tr)))))"

section \<open>Routing\<close>

definition isArenaAddr :: "SharedArenaPool \<Rightarrow> uptr \<Rightarrow> bool" where
  "isArenaAddr P Va = (if \<not> pInitialized P then False
     else kSharedArenaBaseAddr \<le> Va \<and> Va < kSharedArenaBaseAddr + of_nat (NumCores P) * kArenaCapacityPerCore)"

definition getArena :: "SharedArenaPool \<Rightarrow> nat \<Rightarrow> nat option" where
  "getArena P cid = (if NumCores P \<le> cid then None else Some cid)"

definition getOwningArena :: "SharedArenaPool \<Rightarrow> uptr \<Rightarrow> nat option" where
  "getOwningArena P Va =
    (if \<not> pInitialized P \<or> \<not> isArenaAddr P Va then None
     else let Core = u32_of (unat ((Va - kSharedArenaBaseAddr) div kArenaCapacityPerCore))
     in if NumCores P \<le> Core then None
     else if Initialized (Arenas P Core) then Some Core else None)"

text \<open>getCurrentArena, given what rseq and sched_getcpu answer (negative: unavailable).\<close>

definition getCurrentArena :: "SharedArenaPool \<Rightarrow> int \<Rightarrow> int \<Rightarrow> nat option" where
  "getCurrentArena P rseqCpu schedCpu =
    (if \<not> pInitialized P then None
     else let Cpu = (if rseqCpu < 0 then schedCpu else rseqCpu)
     in if Cpu < 0 \<or> NumCores P \<le> nat Cpu then None
     else if Initialized (Arenas P (nat Cpu)) then Some (nat Cpu) else None)"

section \<open>The pressure switch\<close>

fun starts_with :: "string \<Rightarrow> string \<Rightarrow> bool" where
  "starts_with [] s \<longleftrightarrow> True"
| "starts_with (c # cs) [] \<longleftrightarrow> False"
| "starts_with (c # cs) (d # ds) \<longleftrightarrow> c = d \<and> starts_with cs ds"

fun read_digits :: "uptr \<Rightarrow> string \<Rightarrow> uptr" where
  "read_digits Value [] = Value"
| "read_digits Value (c # cs) =
    (if 48 \<le> (of_char c :: nat) \<and> (of_char c :: nat) \<le> 57
     then read_digits (Value * 10 + of_nat (of_char c - 48)) cs else Value)"

text \<open>The search of parseProcMemInfoValue: prev is the character before the current position, None
  at the start of the buffer.\<close>

fun meminfo_value :: "string \<Rightarrow> char option \<Rightarrow> string \<Rightarrow> uptr" where
  "meminfo_value FieldName prev [] = 0"
| "meminfo_value FieldName prev (c # cs) =
    (if starts_with FieldName (c # cs) \<and> (prev = None \<or> prev = Some (CHR 0x0A)) then
       read_digits 0 (dropWhile (\<lambda>d. d = CHR '':'' \<or> d = CHR '' '' \<or> d = CHR 0x09)
         (drop (List.length FieldName) (c # cs)))
     else meminfo_value FieldName (Some c) cs)"

definition parseProcMemInfoValue :: "string \<Rightarrow> string \<Rightarrow> uptr" where
  "parseProcMemInfoValue Buf FieldName = meminfo_value FieldName None Buf"

definition kMemoryPressureThresholdPercent :: nat where "kMemoryPressureThresholdPercent = 80"
definition kPressureCheckInterval :: nat where "kPressureCheckInterval = 64"

text \<open>The environment of the switch: the contents of /proc/meminfo if it can be read, the two
  numeric variables as sharedArenaEnvU32 parses them (None when unset or malformed), the cached
  flags, and the process id.\<close>

record pressure_env =
  meminfo :: "string option"
  envThreshold :: "nat option"
  envCheckInterval :: "nat option"
  envForce :: bool
  forceForTesting :: nat
  currentPid :: uptr

definition sharedArenaEnvU32 :: "nat option \<Rightarrow> nat \<Rightarrow> nat" where
  "sharedArenaEnvU32 parsed Fallback = (case parsed of None \<Rightarrow> Fallback
     | Some v \<Rightarrow> if 2 ^ 32 - 1 < v then Fallback else v)"

definition checkMemoryPressure :: "pressure_env \<Rightarrow> bool" where
  "checkMemoryPressure pe = (case meminfo pe of None \<Rightarrow> False
    | Some Buf \<Rightarrow> if Buf = [] then False else
       let MemTotalKB = parseProcMemInfoValue Buf ''MemTotal'';
           MemAvailableKB = parseProcMemInfoValue Buf ''MemAvailable''
       in if MemTotalKB = 0 then False
       else let UsagePercent = (MemTotalKB - MemAvailableKB) * 100 div MemTotalKB;
                ThresholdPercent = sharedArenaEnvU32 (envThreshold pe) kMemoryPressureThresholdPercent
       in ThresholdPercent \<le> unat UsagePercent)"

definition sharedArenaForceEnabled :: "pressure_env \<Rightarrow> bool" where
  "sharedArenaForceEnabled pe =
    (if forceForTesting pe = 2 then True else if forceForTesting pe = 1 then False else envForce pe)"

definition sharedArenaForceDisabledForTesting :: "pressure_env \<Rightarrow> bool" where
  "sharedArenaForceDisabledForTesting pe \<longleftrightarrow> forceForTesting pe = 1"

definition setSharedArenaForceForTesting :: "bool \<Rightarrow> pressure_env \<Rightarrow> pressure_env" where
  "setSharedArenaForceForTesting b pe = pe\<lparr>forceForTesting := (if b then 2 else 1)\<rparr>"

definition clearSharedArenaForceForTesting :: "pressure_env \<Rightarrow> pressure_env" where
  "clearSharedArenaForceForTesting pe = pe\<lparr>forceForTesting := 0\<rparr>"

text \<open>shouldUseArena, where reinit is what init does when the process has forked.\<close>

definition shouldUseArena :: "pressure_env \<Rightarrow> (SharedArenaPool \<Rightarrow> SharedArenaPool) \<Rightarrow> SharedArenaPool \<Rightarrow>
    bool \<times> SharedArenaPool" where
  "shouldUseArena pe reinit P =
    (if \<not> pInitialized P then (False, P)
     else let P = (if OwnerPid P \<noteq> currentPid pe then reinit P else P)
     in if \<not> pInitialized P then (False, P)
     else if sharedArenaForceDisabledForTesting pe then (False, P\<lparr>ArenaActive := False\<rparr>)
     else if sharedArenaForceEnabled pe then (True, P\<lparr>ArenaActive := True\<rparr>)
     else let Count = AllocCounter P;
              P = P\<lparr>AllocCounter := add32 Count 1\<rparr>;
              CheckInterval = sharedArenaEnvU32 (envCheckInterval pe) kPressureCheckInterval;
              P = (if CheckInterval = 0 \<or> Count mod CheckInterval = 0
                   then P\<lparr>ArenaActive := checkMemoryPressure pe\<rparr> else P)
     in (ArenaActive P, P))"

section \<open>Initialisation, fork and reset\<close>

text \<open>What the operating system provides to init and refresh: per core the outcomes of the system
  calls and the shared memory behind the mapping, whether the remapping after a fork succeeds,
  the number of CPUs, and the cached environment flags.\<close>

record pool_env =
  coreInit :: "nat \<Rightarrow> init_env"
  sharedHdr :: "nat \<Rightarrow> SharedArenaHeader"
  sharedBlocks :: "nat \<Rightarrow> nat \<Rightarrow> FreeBlockHeader"
  remapOk :: "nat \<Rightarrow> bool"
  cpus :: nat
  disabled :: bool
  resetOnInit :: bool
  pid :: uptr

definition refreshLogRing :: "arena_env \<Rightarrow> pool_env \<Rightarrow> nat \<Rightarrow> SharedArena \<Rightarrow> bool \<times> SharedArena" where
  "refreshLogRing env pe i A =
    (if \<not> Initialized A then (True, A)
     else if ShmFd A < 0 \<or> BaseAddr A = 0 then (False, A)
     else if \<not> remapOk pe i then (False, A)
     else let A = no_log_ring (A\<lparr>Hdr := sharedHdr pe i, Blocks := sharedBlocks pe i\<rparr>);
              (ok, A) = initLogRing env (ringMmapOk (coreInit pe i)) A
     in if \<not> ok then (False, A) else (registerWithKernel env (coreInit pe i), A))"

fun refresh_all :: "arena_env \<Rightarrow> pool_env \<Rightarrow> nat list \<Rightarrow> bool \<times> SharedArenaPool \<Rightarrow> bool \<times> SharedArenaPool" where
  "refresh_all env pe [] S = S"
| "refresh_all env pe (i # is) (allOk, P) =
    (if Initialized (Arenas P i) then
       (case refreshLogRing env pe i (Arenas P i) of
          (ok, A) \<Rightarrow> refresh_all env pe is (allOk \<and> ok, set_arena i A P))
     else refresh_all env pe is (allOk, P))"

fun init_all :: "arena_env \<Rightarrow> pool_env \<Rightarrow> nat list \<Rightarrow> bool \<times> SharedArenaPool \<Rightarrow> (bool \<times> SharedArenaPool) option" where
  "init_all env pe [] S = Some S"
| "init_all env pe (i # is) (allOk, P) =
    (case arena_init env (coreInit pe i) i (sharedHdr pe i) (sharedBlocks pe i) (Arenas P i) of
       None \<Rightarrow> None
     | Some (ok, A) \<Rightarrow> init_all env pe is (allOk \<and> ok, set_arena i A P))"

fun reset_all :: "arena_env \<Rightarrow> nat list \<Rightarrow> SharedArenaPool \<Rightarrow> SharedArenaPool option" where
  "reset_all env [] P = Some P"
| "reset_all env (i # is) P =
    (if Initialized (Arenas P i) then
       (case arena_reset env (Arenas P i) of None \<Rightarrow> None
        | Some (A, _) \<Rightarrow> reset_all env is (set_arena i A P))
     else reset_all env is P)"

definition pool_init :: "arena_env \<Rightarrow> pool_env \<Rightarrow> SharedArenaPool \<Rightarrow> SharedArenaPool option" where
  "pool_init env pe P =
    (if disabled pe then Some (P\<lparr>pInitialized := False, OwnerPid := pid pe, NumCores := 0\<rparr>)
     else if pInitialized P \<and> OwnerPid P = pid pe then Some P
     else if pInitialized P \<and> OwnerPid P \<noteq> pid pe then
       (case refresh_all env pe [0..<NumCores P] (True, P) of (allOk, P) \<Rightarrow>
          let P = P\<lparr>pInitialized := allOk\<rparr> in
          Some (if allOk then P\<lparr>OwnerPid := pid pe\<rparr> else P))
     else let n = cpus pe; n = (if n = 0 then 1 else n);
              n = (if kArenaMaxCores < n then kArenaMaxCores else n);
              P = P\<lparr>NumCores := n\<rparr>
     in case init_all env pe [0..<n] (True, P) of None \<Rightarrow> None
     | Some (allOk, P) \<Rightarrow>
       (case (if allOk \<and> resetOnInit pe then reset_all env [0..<n] P else Some P) of None \<Rightarrow> None
        | Some P \<Rightarrow> let P = P\<lparr>pInitialized := allOk\<rparr> in
            Some (if allOk then P\<lparr>OwnerPid := pid pe\<rparr> else P)))"

definition pool_reset :: "arena_env \<Rightarrow> SharedArenaPool \<Rightarrow> SharedArenaPool option" where
  "pool_reset env P = (if \<not> pInitialized P then Some P else reset_all env [0..<NumCores P] P)"

section \<open>Statistics\<close>

record SharedArenaDebugStats =
  dCoreId :: nat
  dInitialized :: nat
  dTotalDataPages :: nat
  dBumpOffsetInPages :: nat
  dFreeListHeadPageOff :: nat
  dFreeCount :: nat
  dFreeListWalkCount :: nat
  dFreeListBadMagic :: nat
  dFreeListBytes :: uptr
  dTotalDonatedBytes :: uptr
  dTotalRetrievedBytes :: uptr
  dDonateCount :: nat
  dRetrieveCount :: nat
  dLogHead :: nat
  dLogTail :: nat
  dLogDropped :: nat

definition getDebugStats :: "arena_env \<Rightarrow> SharedArena \<Rightarrow> SharedArenaDebugStats" where
  "getDebugStats env A =
    (let Out = \<lparr> dCoreId = CoreId A, dInitialized = 0, dTotalDataPages = 0, dBumpOffsetInPages = 0,
           dFreeListHeadPageOff = kFreeListEnd, dFreeCount = 0, dFreeListWalkCount = 0,
           dFreeListBadMagic = 0, dFreeListBytes = 0, dTotalDonatedBytes = 0, dTotalRetrievedBytes = 0,
           dDonateCount = 0, dRetrieveCount = 0, dLogHead = 0, dLogTail = 0, dLogDropped = 0 \<rparr>
     in if \<not> Initialized A then Out
     else let H = Hdr A;
              Out = Out\<lparr> dInitialized := 1, dTotalDataPages := TotalDataPages H,
                dBumpOffsetInPages := BumpOffsetInPages H, dFreeListHeadPageOff := FreeListHeadPageOff H,
                dFreeCount := FreeCount H, dTotalDonatedBytes := TotalDonatedBytes H,
                dTotalRetrievedBytes := TotalRetrievedBytes H, dDonateCount := DonateCount H,
                dRetrieveCount := RetrieveCount H \<rparr>;
              Out = (case LogRing A of None \<Rightarrow> Out
                | Some R \<Rightarrow> Out\<lparr> dLogHead := Head R, dLogTail := Tail R, dLogDropped := Dropped R \<rparr>)
     in (case debug_walk env (Blocks A) (add32 (TotalDataPages H) 1) (FreeListHeadPageOff H) 0 0 of
           (Count, Bad, Bytes) \<Rightarrow>
             Out\<lparr> dFreeListWalkCount := Count, dFreeListBadMagic := Bad, dFreeListBytes := Bytes \<rparr>))"

record SharedArenaPoolDebugStats =
  sInitialized :: nat
  sNumCores :: nat
  sInitializedArenas :: nat
  sFreeCount :: nat
  sFreeListWalkCount :: nat
  sFreeListBadMagic :: nat
  sTotalDataBytes :: uptr
  sBumpBytes :: uptr
  sFreeListBytes :: uptr
  sInUseBytes :: uptr
  sTotalDonatedBytes :: uptr
  sTotalRetrievedBytes :: uptr
  sDonateCount :: nat
  sRetrieveCount :: nat
  sLogDropped :: nat

definition add_stats :: "arena_env \<Rightarrow> SharedArenaDebugStats \<Rightarrow> SharedArenaPoolDebugStats \<Rightarrow> SharedArenaPoolDebugStats" where
  "add_stats env S Out =
    (if dInitialized S = 0 then Out
     else Out\<lparr> sInitializedArenas := add32 (sInitializedArenas Out) 1,
       sFreeCount := add32 (sFreeCount Out) (dFreeCount S),
       sFreeListWalkCount := add32 (sFreeListWalkCount Out) (dFreeListWalkCount S),
       sFreeListBadMagic := add32 (sFreeListBadMagic Out) (dFreeListBadMagic S),
       sTotalDataBytes := sTotalDataBytes Out + of_nat (dTotalDataPages S) * PageSize env,
       sBumpBytes := sBumpBytes Out + of_nat (dBumpOffsetInPages S) * PageSize env,
       sFreeListBytes := sFreeListBytes Out + dFreeListBytes S,
       sTotalDonatedBytes := sTotalDonatedBytes Out + dTotalDonatedBytes S,
       sTotalRetrievedBytes := sTotalRetrievedBytes Out + dTotalRetrievedBytes S,
       sDonateCount := add32 (sDonateCount Out) (dDonateCount S),
       sRetrieveCount := add32 (sRetrieveCount Out) (dRetrieveCount S),
       sLogDropped := add32 (sLogDropped Out) (dLogDropped S) \<rparr>)"

definition pool_getDebugStats :: "arena_env \<Rightarrow> SharedArenaPool \<Rightarrow> SharedArenaPoolDebugStats" where
  "pool_getDebugStats env P =
    (let Out = \<lparr> sInitialized = (if pInitialized P then 1 else 0), sNumCores = NumCores P,
           sInitializedArenas = 0, sFreeCount = 0, sFreeListWalkCount = 0, sFreeListBadMagic = 0,
           sTotalDataBytes = 0, sBumpBytes = 0, sFreeListBytes = 0, sInUseBytes = 0,
           sTotalDonatedBytes = 0, sTotalRetrievedBytes = 0, sDonateCount = 0, sRetrieveCount = 0,
           sLogDropped = 0 \<rparr>
     in if \<not> pInitialized P then Out
     else let Out = fold (\<lambda>i. add_stats env (getDebugStats env (Arenas P i))) [0..<NumCores P] Out
     in Out\<lparr> sInUseBytes := (if sFreeListBytes Out < sBumpBytes Out
          then sBumpBytes Out - sFreeListBytes Out else 0) \<rparr>)"

end
