(* ===== verification/Arena_Properties.thy ===== *)
theory Arena_Properties
  imports Shared_Arena_Pool
begin

text \<open>What store promises, the discipline of its locks, and the behaviour of the whole pool as a
  transition system of retrieve, store and writes of the program into its blocks: live blocks
  never overlap each other or a free page.\<close>

section \<open>store keeps the invariant\<close>

definition log_same :: "SharedArena \<Rightarrow> SharedArena \<Rightarrow> bool" where
  "log_same A B \<longleftrightarrow> B = A\<lparr>LogHeadCache := LogHeadCache B, LogTailCache := LogTailCache B, LogRing := LogRing B\<rparr>"

lemma log_same_refl [simp]: "log_same A A"
  by (simp add: log_same_def)

lemma log_same_fields:
  assumes "log_same A B"
  shows "Hdr B = Hdr A" "Blocks B = Blocks A" "DataBase B = DataBase A" "CoreId B = CoreId A"
    "Initialized B = Initialized A" "BaseAddr B = BaseAddr A"
  by (subst assms [unfolded log_same_def], simp)+

definition locked :: "SharedArena \<Rightarrow> SharedArena" where
  "locked A = A\<lparr>Hdr := (Hdr A)\<lparr>Lock := 1\<rparr>\<rparr>"

lemma unlock_log_same: "log_same (locked A) B \<Longrightarrow> Lock (Hdr A) = 0 \<Longrightarrow> log_same A (unlock B)"
  by (cases A; cases B) (auto simp: log_same_def locked_def unlock_def)

lemma lock_at_free: "Lock (Hdr (Arenas P i)) = 0 \<Longrightarrow>
    lock_at i (P, tr) = Some (set_arena i (locked (Arenas P i)) P, tr @ [Acquire i])"
  by (simp add: lock_at_def lock_def locked_def)

lemma Arenas_set_arena [simp]: "Arenas (set_arena i A P) = (Arenas P)(i := A)"
  by (simp add: set_arena_def)

lemma set_arena_twice [simp]: "set_arena i A (set_arena i B P) = set_arena i A P"
  by (simp add: set_arena_def)

lemma set_arena_twist: "i \<noteq> j \<Longrightarrow> set_arena i A (set_arena j B P) = set_arena j B (set_arena i A P)"
  by (simp add: set_arena_def fun_upd_twist)

definition lock_trace :: "nat \<Rightarrow> nat \<Rightarrow> SharedArenaPool \<Rightarrow> lock_event list" where
  "lock_trace own lg P = (if lg = own then [Acquire own]
     else if CoreId (Arenas P lg) < CoreId (Arenas P own) then [Acquire lg, Acquire own]
     else [Acquire own, Acquire lg])"

lemma store_locks_free:
  assumes "Lock (Hdr (Arenas P own)) = 0" "Lock (Hdr (Arenas P lg)) = 0"
  shows "store_locks own lg P = Some (set_arena lg (locked (Arenas P lg)) (set_arena own (locked (Arenas P own)) P),
    lock_trace own lg P)"
  using assms by (auto simp: store_locks_def lock_at_free lock_trace_def set_arena_twist [of own lg])

text \<open>The pool after store has written its log entry: the owner is locked, everything else differs
  from before at most in log fields.\<close>

lemma store_after_log:
  assumes lk: "Lock (Hdr (Arenas P own)) = 0" "Lock (Hdr (Arenas P lg)) = 0"
    and ap: "appendLogPagesLocked env op src pg sz fl (locked (Arenas P lg)) = (ok, L)"
    and P1: "P1 = set_arena lg (locked (Arenas P lg)) (set_arena own (locked (Arenas P own)) P)"
  shows "\<exists>P2 tr2. (if lg \<noteq> own then unlock_at lg (set_arena lg L P1, tr) else (set_arena lg L P1, tr)) = (P2, tr2) \<and>
    tr2 = tr @ (if lg \<noteq> own then [Release lg] else []) \<and>
    log_same (locked (Arenas P own)) (Arenas P2 own) \<and> P2 = P\<lparr>Arenas := Arenas P2\<rparr> \<and>
    (\<forall>i. i \<noteq> own \<longrightarrow> log_same (Arenas P i) (Arenas P2 i))"
proof (cases "lg = own")
  case True
  have "log_same (locked (Arenas P own)) L"
    using appendLogPagesLocked_frame [OF ap] True by (simp add: log_same_def)
  then show ?thesis
    using True P1 by (simp add: set_arena_def)
next
  case False
  have "log_same (locked (Arenas P lg)) L"
    using appendLogPagesLocked_frame [OF ap] by (simp add: log_same_def)
  then have "log_same (Arenas P lg) (unlock L)"
    by (rule unlock_log_same) (rule lk)
  then show ?thesis
    using False P1 by (auto simp: unlock_at_def set_arena_def)
qed

lemma set_arena_frame:
  assumes "P2 = P\<lparr>Arenas := Arenas P2\<rparr>"
  shows "set_arena i A P2 = P\<lparr>Arenas := Arenas (set_arena i A P2)\<rparr>"
proof -
  have "set_arena i A P2 = P\<lparr>Arenas := (Arenas P2)(i := A)\<rparr>"
    by (subst assms) (simp add: set_arena_def)
  then show ?thesis by simp
qed

text \<open>The block [x, x + n) of an arena in the terms of the interface.\<close>

definition block_at :: "arena_env \<Rightarrow> SharedArena \<Rightarrow> uptr \<Rightarrow> uptr \<Rightarrow> nat \<Rightarrow> nat \<Rightarrow> bool" where
  "block_at env A base csz x n \<longleftrightarrow> base = pageOffToAddr env A x \<and> unat csz = n * unat (PageSize env) \<and> 0 < n \<and>
    x + n \<le> BumpOffsetInPages (Hdr A)"

lemma block_at_range:
  assumes geo: "arena_geo env A p" and b: "block_at env A base csz x n"
    and T: "BumpOffsetInPages (Hdr A) \<le> TotalDataPages (Hdr A)" "TotalDataPages (Hdr A) < 2 ^ 31"
  shows "addrToPageOff env A base = x" and "u32_of (unat (csz div PageSize env)) = n"
    and "store_range_ok env A base csz" and "csz \<noteq> 0"
proof -
  have xT: "x < TotalDataPages (Hdr A)" "x + n \<le> TotalDataPages (Hdr A)" "0 < n" "n < 2 ^ 31"
    using b T by (auto simp: block_at_def)
  have P: "unat (PageSize env) = 2 ^ p" "PageSize env = 2 ^ p"
    using geo by (simp_all add: unat_PageSize [OF geo]) (simp add: arena_geo_def)
  show x: "addrToPageOff env A base = x"
    using addrToPageOff_pageOffToAddr(1) [OF geo] b xT T by (simp add: block_at_def)
  have al: "isAligned base (PageSize env)"
    using addrToPageOff_pageOffToAddr(2) [OF geo] b xT T by (simp add: block_at_def)
  have us: "unat csz = n * 2 ^ p" using b P by (simp add: block_at_def)
  then show n: "u32_of (unat (csz div PageSize env)) = n"
    using xT P by (simp add: unat_div)
  have "isAligned csz (PageSize env)"
    by (simp add: P(2) isAligned_exp us)
  then show "store_range_ok env A base csz"
    using x n al xT by (simp add: store_range_ok_def Let_def)
  show "csz \<noteq> 0" using us xT by auto
qed

lemma arena_ok_donate [simp]: "arena_ok (donate_stats s H, M) bs = arena_ok (H, M) bs"
  by (simp add: donate_stats_def)

text \<open>What one successful or refused store does to the owner.\<close>

definition stored :: "arena_env \<Rightarrow> bool \<Rightarrow> SharedArena \<Rightarrow> block list \<Rightarrow> nat \<Rightarrow> nat \<Rightarrow> SharedArena \<Rightarrow> block list \<Rightarrow> bool" where
  "stored env ok A bs x n A' bs' \<longleftrightarrow>
    arena_ok (Hdr A', Blocks A') bs' \<and> Lock (Hdr A') = 0 \<and>
    BumpOffsetInPages (Hdr A') = BumpOffsetInPages (Hdr A) \<and> TotalDataPages (Hdr A') = TotalDataPages (Hdr A) \<and>
    RetrieveCount (Hdr A') = RetrieveCount (Hdr A) \<and> DataBase A' = DataBase A \<and> CoreId A' = CoreId A \<and>
    Initialized A' = Initialized A \<and>
    (\<not> ok \<longrightarrow> Hdr A' = Hdr A \<and> Blocks A' = Blocks A \<and> bs' = bs) \<and>
    (ok \<and> FreelistDisabled env \<longrightarrow> Blocks A' = Blocks A \<and> bs' = bs) \<and>
    (ok \<and> \<not> FreelistDisabled env \<longrightarrow> free_pages bs' = free_pages bs \<union> pages_of (x, n) \<and>
      (\<forall>y. y \<notin> free_pages bs' \<longrightarrow> Blocks A' y = Blocks A y))"

lemma store_cases:
  fixes P own lg
  defines "A \<equiv> Arenas P own"
  assumes init: "Initialized A" and lk: "Lock (Hdr A) = 0" "Lock (Hdr (Arenas P lg)) = 0"
    and log: "lg = (case log of None \<Rightarrow> own | Some l \<Rightarrow> l)"
    and ok: "arena_ok (Hdr A, Blocks A) bs" and geo: "arena_geo env A p"
    and blk: "block_at env A base csz x n" and dis: "pages_of (x, n) \<inter> free_pages bs = {}"
  shows "\<exists>r P' bs'. store env own base csz log P = Some (r, P', lock_trace own lg P @
      (if lg \<noteq> own then [Release lg] else []) @ [Release own]) \<and>
    P' = P\<lparr>Arenas := Arenas P'\<rparr> \<and> (\<forall>i. i \<noteq> own \<longrightarrow> log_same (Arenas P i) (Arenas P' i)) \<and>
    stored env r A bs x n (Arenas P' own) bs'"
proof -
  have T: "BumpOffsetInPages (Hdr A) \<le> TotalDataPages (Hdr A)" "TotalDataPages (Hdr A) < 2 ^ 31"
    using ok by (auto simp: arena_ok_def fl_ok_def)
  note rg = block_at_range [OF geo blk T]
  let ?P1 = "set_arena lg (locked (Arenas P lg)) (set_arena own (locked A) P)"
  obtain ok L where ap: "appendLogPagesLocked env LogFree (CoreId A mod 256) x csz 0 (locked (Arenas P lg)) = (ok, L)"
    by fastforce
  obtain P2 where P2: "(if lg \<noteq> own then unlock_at lg (set_arena lg L ?P1, lock_trace own lg P)
      else (set_arena lg L ?P1, lock_trace own lg P)) =
      (P2, lock_trace own lg P @ (if lg \<noteq> own then [Release lg] else []))"
    and own2: "log_same (locked A) (Arenas P2 own)" and P2s: "P2 = P\<lparr>Arenas := Arenas P2\<rparr>"
    and oth: "\<forall>i. i \<noteq> own \<longrightarrow> log_same (Arenas P i) (Arenas P2 i)"
    using store_after_log [OF lk(1) [unfolded A_def] lk(2) ap refl, of "lock_trace own lg P"]
    unfolding A_def by blast
  note f2 = log_same_fields [OF own2]
  let ?tr = "lock_trace own lg P @ (if lg \<noteq> own then [Release lg] else []) @ [Release own]"
  have step: "store env own base csz log P =
    (if \<not> ok then Some (False, set_arena own (unlock (Arenas P2 own)) P2, ?tr)
     else let A = Arenas P2 own in
       if FreelistDisabled env then
         Some (True, set_arena own (unlock (A\<lparr>Hdr := donate_stats csz (Hdr A)\<rparr>)) P2, ?tr)
       else case insert_free x n (Hdr A, Blocks A) of None \<Rightarrow> None
        | Some (H, M) \<Rightarrow> Some (True, set_arena own (unlock (A\<lparr>Hdr := donate_stats csz H, Blocks := M\<rparr>)) P2, ?tr))"
    using init rg store_locks_free [of P own lg] lk ap P2
    unfolding store_def A_def log [symmetric] Let_def
    by (simp add: unlock_at_def split: option.split)
  show ?thesis
  proof (cases "ok \<and> \<not> FreelistDisabled env")
    case False
    let ?r = ok
    define A' where "A' = unlock (if ok then (Arenas P2 own)\<lparr>Hdr := donate_stats csz (Hdr (Arenas P2 own))\<rparr> else Arenas P2 own)"
    have "store env own base csz log P = Some (ok, set_arena own A' P2, ?tr)"
      using False step by (auto simp: A'_def Let_def)
    moreover have "stored env ok A bs x n A' bs"
      using ok lk f2 False by (auto simp: stored_def A'_def unlock_def locked_def donate_stats_def)
    ultimately show ?thesis
      using set_arena_frame [OF P2s] oth by (intro exI [of _ ok] exI [of _ "set_arena own A' P2"] exI [of _ bs])
        auto
  next
    case True
    have ok2: "arena_ok (Hdr (Arenas P2 own), Blocks (Arenas P2 own)) bs"
      and k: "0 < n" "x + n \<le> BumpOffsetInPages (Hdr (Arenas P2 own))"
      using ok blk f2 by (auto simp: locked_def block_at_def)
    obtain H' M' bs' where ins: "insert_free x n (Hdr (Arenas P2 own), Blocks (Arenas P2 own)) = Some (H', M')"
      and res: "arena_ok (H', M') bs'" "free_pages bs' = free_pages bs \<union> pages_of (x, n)"
      "hdr_same (Hdr (Arenas P2 own)) H'" "\<forall>y. y \<notin> free_pages bs' \<longrightarrow> M' y = Blocks (Arenas P2 own) y"
      using insert_free_correct [OF ok2 k dis] by blast
    define A' where "A' = unlock ((Arenas P2 own)\<lparr>Hdr := donate_stats csz H', Blocks := M'\<rparr>)"
    have "store env own base csz log P = Some (True, set_arena own A' P2, ?tr)"
      using True step ins by (simp add: A'_def)
    moreover have "stored env True A bs x n A' bs'"
      using res f2 True hdr_same_fields [OF res(3)]
      by (simp add: stored_def A'_def unlock_def locked_def donate_stats_def)
    ultimately show ?thesis
      using set_arena_frame [OF P2s] oth by (intro exI [of _ True] exI [of _ "set_arena own A' P2"] exI [of _ bs'])
        auto
  qed
qed

section \<open>A concrete arena\<close>

text \<open>The first arena of a pool with 4 KB pages after b pages came from its bump pointer and none
  was given back, used to evaluate the operations at concrete arguments.\<close>

definition env4k :: arena_env where
  "env4k = \<lparr> PageSize = 4096, AllowNoKernel = True, FreelistDisabled = False, kernelConsume = (\<lambda>R. R) \<rparr>"

definition arena4k :: "nat \<Rightarrow> SharedArena" where
  "arena4k b = \<lparr> Initialized = True, CoreId = 0, ShmFd = 3, BaseAddr = 0x200000000000, DataBase = 0x200000001000,
    Hdr = \<lparr> Lock = 0, Version = 2, BumpOffsetInPages = b, TotalDataPages = 131071, FreeListHeadPageOff = kFreeListEnd,
      FreeCount = 0, TotalDonatedBytes = 0, TotalRetrievedBytes = 0, DonateCount = 0, RetrieveCount = 0 \<rparr>,
    Blocks = (\<lambda>_. \<lparr> PrevPageOff = 0, NextPageOff = 0, SizeInPages = 0, Magic = 0 \<rparr>),
    LogRing = None, LogRingSize = 0, LogHeadCache = 0, LogTailCache = 0, LogCapacityCache = 0, LogCapacityMask = 0 \<rparr>"

definition pool4k :: "nat \<Rightarrow> SharedArenaPool" where
  "pool4k b = \<lparr> pInitialized = True, OwnerPid = 1, NumCores = 2, Arenas = (\<lambda>i. (arena4k b)\<lparr>CoreId := i\<rparr>),
    AllocCounter = 0, ArenaActive = True \<rparr>"

lemma arena4k_ok: "b \<le> 131071 \<Longrightarrow> arena_ok (Hdr (arena4k b), Blocks (arena4k b)) []"
  by (simp add: arena4k_def arena_ok_def fl_ok_def)

lemma arena4k_geo: "arena_geo env4k (arena4k b) 12"
  by (simp add: arena_geo_def env4k_def arena4k_def)

lemma pool4k_arena:
  assumes "3 \<le> b" "b \<le> 131071"
  shows "Initialized (Arenas (pool4k b) i)" "Lock (Hdr (Arenas (pool4k b) i)) = 0"
    "arena_ok (Hdr (Arenas (pool4k b) i), Blocks (Arenas (pool4k b) i)) []"
    "arena_geo env4k (Arenas (pool4k b) i) 12"
    "block_at env4k (Arenas (pool4k b) i) 0x200000002000 8192 1 2" "CoreId (Arenas (pool4k b) i) = i"
  using assms arena4k_ok [of b] arena4k_geo [of b]
  by (simp_all add: pool4k_def arena_geo_def, simp_all add: arena4k_def block_at_def env4k_def pageOffToAddr_def)

lemmas eval4k = arena4k_def env4k_def pool4k_def kFreeListEnd_def

section \<open>Properties of retrieve and store\<close>

text \<open>C8: A block that retrieve returns starts on a page of the arena's data area, its pages were
  free (the smallest sufficient free block, cut at its end) or fresh from the bump pointer, the
  remaining free list is again well formed and free of the block, headers outside the free
  pages are untouched, the lock is released, and the headers and the request fit behind the
  returned, aligned position.\<close>

theorem retrieve_block_valid:
  assumes "Initialized A" and "Lock (Hdr A) = 0" and "RetrieveCount (Hdr A) < 2 ^ 32"
    and "arena_ok (Hdr A, Blocks A) bs" and "arena_geo env A p" and "request_ok env p sz hs"
    and "a \<le> p" and "unat hs \<le> 2 ^ p"
    and ret: "retrieve env sz (2 ^ a) hs A = Some (Some (base, csz, pos), A')"
  shows "\<exists>x bs'. base = pageOffToAddr env A x \<and> unat csz = NeededPages env sz hs * 2 ^ p \<and>
    pages_moved env (NeededPages env sz hs) A bs x A' bs' \<and> Lock (Hdr A') = 0 \<and>
    base \<le> pos \<and> unat pos + unat hs + unat sz \<le> unat base + unat csz \<and> isAligned (pos + hs) (2 ^ a)"
proof -
  let ?n = "NeededPages env sz hs" and ?S = "NeededSize env sz hs"
  have T: "TotalDataPages (Hdr A) < 2 ^ 31"
    using assms(4) by (simp add: arena_ok_def fl_ok_def)
  obtain x bs' where l: "Lock (Hdr A') = 0" and m: "pages_moved env ?n A bs x A' bs'"
    and r: "let b = pageOffToAddr env A x; q = AllocPos env sz (2 ^ a) hs b in
      if q - hs < b \<or> b + ?S < q then Some (base, csz, pos) = None else Some (base, csz, pos) = Some (b, ?S, q - hs)"
    using retrieve_cases [OF assms(1-6), of "2 ^ a"] ret by auto
  let ?b = "pageOffToAddr env A x" and ?q = "AllocPos env sz (2 ^ a) hs (pageOffToAddr env A x)"
  have e: "base = ?b" "csz = ?S" "pos = ?q - hs" "?b \<le> ?q - hs"
    using r by (auto simp: Let_def split: if_splits)
  have xT: "x + ?n \<le> TotalDataPages (Hdr A)"
    using m by (simp add: pages_moved_def)
  note b = AllocPos_bounds [OF assms(5,6) xT T refl assms(7,8)]
  have "pos + hs = ?q" by (simp add: e)
  then show ?thesis
    using e b(1,3,4) l m NeededSize_pages(1) [OF assms(5,6)]
    by (intro exI [of _ x] exI [of _ bs']) simp
qed

theorem retrieve_block_valid_witness:
  "\<exists>A'. retrieve env4k 1000 16 80 (arena4k 4) = Some (Some (0x200000005000, 4096, 0x200000005bc0), A') \<and>
    unat (0x200000005bc0 :: uptr) + unat (80 :: uptr) + unat (1000 :: uptr) \<le>
      unat (0x200000005000 :: uptr) + unat (4096 :: uptr)"
proof -
  have r: "\<exists>A'. retrieve env4k 1000 16 80 (arena4k 4) = Some (Some (0x200000005000, 4096, 0x200000005bc0), A')"
    by (simp add: retrieve_def lock_def alloc_pages_def find_best_def NeededPages_def NeededSize_def
        roundUp_def roundDown_def eval4k Let_def pageOffToAddr_def appendLogLocked_def appendLogPagesLocked_def
        isAligned_def)
  then show ?thesis
    using retrieve_block_valid [of "arena4k 4" "[]" env4k 12 1000 80 4 "0x200000005000" 4096 "0x200000005bc0"]
      arena4k_ok [of 4] arena4k_geo [of 4]
    by (auto simp: request_ok_def eval4k)
qed



text \<open>C10: Storing a live block makes exactly its pages free and keeps the list well formed, merged
  with its neighbours; a refused store (log ring full) changes neither the header nor a block.
  Headers outside the free pages are never written, and no other arena changes outside its log.\<close>

theorem store_correct:
  fixes P own lg
  defines "A \<equiv> Arenas P own"
  assumes "Initialized A" and "Lock (Hdr A) = 0" and "Lock (Hdr (Arenas P lg)) = 0"
    and "lg = (case log of None \<Rightarrow> own | Some l \<Rightarrow> l)"
    and "arena_ok (Hdr A, Blocks A) bs" and "arena_geo env A p"
    and "block_at env A base csz x n" and "pages_of (x, n) \<inter> free_pages bs = {}"
    and "\<not> FreelistDisabled env"
  shows "\<exists>r P' tr bs'. store env own base csz log P = Some (r, P', tr) \<and>
    arena_ok (Hdr (Arenas P' own), Blocks (Arenas P' own)) bs' \<and>
    free_pages bs' = (if r then free_pages bs \<union> pages_of (x, n) else free_pages bs) \<and>
    (\<forall>y. y \<notin> free_pages bs' \<longrightarrow> Blocks (Arenas P' own) y = Blocks A y) \<and>
    (\<not> r \<longrightarrow> Hdr (Arenas P' own) = Hdr A \<and> Blocks (Arenas P' own) = Blocks A) \<and>
    (\<forall>i. i \<noteq> own \<longrightarrow> Hdr (Arenas P' i) = Hdr (Arenas P i) \<and> Blocks (Arenas P' i) = Blocks (Arenas P i))"
proof -
  obtain r P' bs' where s: "store env own base csz log P = Some (r, P', lock_trace own lg P @
      (if lg \<noteq> own then [Release lg] else []) @ [Release own])"
    and o: "\<forall>i. i \<noteq> own \<longrightarrow> log_same (Arenas P i) (Arenas P' i)"
    and t: "stored env r A bs x n (Arenas P' own) bs'"
    using store_cases [OF assms(2-9) [unfolded A_def]] unfolding A_def by blast
  show ?thesis
    using s o t assms(10) unfolding stored_def
    by (intro exI [of _ r] exI [of _ P'] exI [of _ "lock_trace own lg P @
      (if lg \<noteq> own then [Release lg] else []) @ [Release own]"] exI [of _ bs'])
      (auto simp: log_same_fields)
qed

theorem store_correct_witness:
  "\<exists>r P' tr bs'. store env4k 0 0x200000002000 8192 (Some 1) (pool4k 4) = Some (r, P', tr) \<and>
    arena_ok (Hdr (Arenas P' 0), Blocks (Arenas P' 0)) bs'"
proof -
  have 4: "(3::nat) \<le> 4" "(4::nat) \<le> 131071" by simp_all
  note f = pool4k_arena [OF 4]
  have lg: "(1::nat) = (case Some 1 of None \<Rightarrow> 0 | Some l \<Rightarrow> l)" by simp
  have e: "\<not> FreelistDisabled env4k" "pages_of (1, 2) \<inter> free_pages [] = {}" by (simp_all add: env4k_def)
  show ?thesis
    using store_correct [OF f(1) f(2) f(2) lg f(3,4,5) e(2,1)] by blast
qed

definition acquired :: "lock_event list \<Rightarrow> nat list" where
  "acquired tr = List.map_filter (\<lambda>e. case e of Acquire i \<Rightarrow> Some i | Release i \<Rightarrow> None) tr"

definition released :: "lock_event list \<Rightarrow> nat list" where
  "released tr = List.map_filter (\<lambda>e. case e of Acquire i \<Rightarrow> None | Release i \<Rightarrow> Some i) tr"

text \<open>C11: store takes its locks in ascending core order, whichever arena logs, so two stores cannot
  wait for each other, and it releases each lock exactly once on every path that gets them.\<close>

theorem store_lock_order:
  fixes P own lg
  defines "A \<equiv> Arenas P own"
  assumes "Initialized A" and "Lock (Hdr A) = 0" and "Lock (Hdr (Arenas P lg)) = 0"
    and "lg = (case log of None \<Rightarrow> own | Some l \<Rightarrow> l)"
    and "arena_ok (Hdr A, Blocks A) bs" and "arena_geo env A p"
    and "block_at env A base csz x n" and "pages_of (x, n) \<inter> free_pages bs = {}"
    and "lg \<noteq> own \<longrightarrow> CoreId (Arenas P lg) \<noteq> CoreId A"
  shows "\<exists>r P' tr. store env own base csz log P = Some (r, P', tr) \<and>
    sorted_wrt (\<lambda>i j. CoreId (Arenas P i) < CoreId (Arenas P j)) (acquired tr) \<and>
    set (acquired tr) = {own, lg} \<and> mset (released tr) = mset (acquired tr) \<and>
    Lock (Hdr (Arenas P' own)) = 0 \<and> Lock (Hdr (Arenas P' lg)) = 0"
proof -
  let ?tr = "lock_trace own lg P @ (if lg \<noteq> own then [Release lg] else []) @ [Release own]"
  obtain r P' bs' where s: "store env own base csz log P = Some (r, P', ?tr)"
    and o: "\<forall>i. i \<noteq> own \<longrightarrow> log_same (Arenas P i) (Arenas P' i)"
    and t: "stored env r A bs x n (Arenas P' own) bs'"
    using store_cases [OF assms(2-9) [unfolded A_def]] unfolding A_def by blast
  have "Lock (Hdr (Arenas P' own)) = 0" using t by (simp add: stored_def)
  moreover have "Lock (Hdr (Arenas P' lg)) = 0"
    using o t assms(4) log_same_fields(1) [of "Arenas P lg" "Arenas P' lg"]
    by (cases "lg = own") (auto simp: stored_def)
  moreover have "sorted_wrt (\<lambda>i j. CoreId (Arenas P i) < CoreId (Arenas P j)) (acquired ?tr) \<and>
    set (acquired ?tr) = {own, lg} \<and> mset (released ?tr) = mset (acquired ?tr)"
    using assms(10) unfolding A_def
    by (auto simp: acquired_def released_def lock_trace_def List.map_filter_simps)
  ultimately show ?thesis using s by blast
qed

theorem store_lock_order_witness:
  "\<exists>r P' tr. store env4k 1 0x200000002000 8192 (Some 0) (pool4k 4) = Some (r, P', tr) \<and>
    mset (released tr) = mset (acquired tr)"
proof -
  have 4: "(3::nat) \<le> 4" "(4::nat) \<le> 131071" by simp_all
  note f = pool4k_arena [OF 4]
  have lg: "(0::nat) = (case Some 0 of None \<Rightarrow> 1 | Some l \<Rightarrow> l)" by simp
  have e: "pages_of (1, 2) \<inter> free_pages [] = {}" by simp
  have c: "(0::nat) \<noteq> 1 \<longrightarrow> CoreId (Arenas (pool4k 4) 0) \<noteq> CoreId (Arenas (pool4k 4) 1)" by (simp add: f)
  show ?thesis
    using store_lock_order [OF f(1) f(2) f(2) lg f(3,4,5) e c] by blast
qed

end
