(* ===== verification/Arena_System.thy ===== *)
theory Arena_System
  imports Arena_Properties
begin

text \<open>The arena pool as a system: initialisation establishes the invariant, every run of allocations,
  frees and program writes keeps live blocks apart, addresses are routed to the arena that maps
  them; and the cases where the code loses pages or does not return.\<close>

section \<open>Initialisation\<close>

definition fresh_arena_ok :: "arena_env \<Rightarrow> nat \<Rightarrow> SharedArena \<Rightarrow> bool" where
  "fresh_arena_ok env i A \<longleftrightarrow> Initialized A \<and> CoreId A = i \<and> BaseAddr A = kSharedArenaBaseAddr + of_nat i * kArenaCapacityPerCore \<and>
    DataBase A = BaseAddr A + kArenaHeaderSize \<and> Lock (Hdr A) = 0 \<and> RetrieveCount (Hdr A) = 0 \<and>
    BumpOffsetInPages (Hdr A) = 0 \<and> TotalDataPages (Hdr A) = DataPages env \<and> arena_ok (Hdr A, Blocks A) []"

lemma fresh_header_ok:
  assumes "PageSize env = 4096"
  shows "arena_ok (fresh_header (DataPages env) H, M) []" "DataPages env = 131071"
  using assms by (simp_all add: arena_ok_def fl_ok_def fresh_header_def DataPages_def kArenaCapacityPerCore_def
      kArenaHeaderSize_def)

lemma initLogRing_frame:
  assumes "initLogRing env b A = (ok, A')"
  shows "A' = A\<lparr>LogRing := LogRing A', LogRingSize := LogRingSize A', LogHeadCache := LogHeadCache A',
    LogTailCache := LogTailCache A', LogCapacityCache := LogCapacityCache A', LogCapacityMask := LogCapacityMask A'\<rparr>"
  using assms by (auto simp: initLogRing_def no_log_ring_def Let_def split: if_splits)

lemma arena_init_fresh:
  assumes "arena_init env ie i SH SB A = Some (True, A')" and "Version SH = 0" and "PageSize env = 4096"
  shows "fresh_arena_ok env i A'"
proof -
  let ?A = "A\<lparr>CoreId := i, BaseAddr := kSharedArenaBaseAddr + of_nat i * kArenaCapacityPerCore,
    DataBase := kSharedArenaBaseAddr + of_nat i * kArenaCapacityPerCore + kArenaHeaderSize,
    ShmFd := shmFd ie, Hdr := (fresh_header (DataPages env) SH)\<lparr>Lock := 0, Version := 2\<rparr>, Blocks := SB\<rparr>"
  obtain A1 where l: "initLogRing env (ringMmapOk ie) ?A = (True, A1)" and A': "A' = A1\<lparr>Initialized := True\<rparr>"
    using assms by (auto simp: arena_init_def Let_def split: if_splits prod.splits)
  have "Hdr A' = Hdr ?A" "Blocks A' = Blocks ?A" "CoreId A' = CoreId ?A" "BaseAddr A' = BaseAddr ?A" "DataBase A' = DataBase ?A"
    unfolding A' by (subst initLogRing_frame [OF l], simp)+
  moreover have "arena_ok (((fresh_header (DataPages env) SH)\<lparr>Lock := 0, Version := 2\<rparr>), SB) []"
    using fresh_header_ok(1) [OF assms(3), of SH SB] by (simp add: arena_ok_def fl_ok_def)
  ultimately show ?thesis
    by (simp add: fresh_arena_ok_def A' fresh_header_def)
qed

lemma init_all_fresh:
  assumes "init_all env pe is (True, P) = Some (True, P')" and "\<forall>i. Version (sharedHdr pe i) = 0"
    and "PageSize env = 4096" and "distinct is"
  shows "(\<forall>i\<in>set is. fresh_arena_ok env i (Arenas P' i)) \<and> (\<forall>i. i \<notin> set is \<longrightarrow> Arenas P' i = Arenas P i)"
proof -
  have "(\<forall>i\<in>set is. fresh_arena_ok env i (Arenas P' i)) \<and> (\<forall>i. i \<notin> set is \<longrightarrow> Arenas P' i = Arenas P i) \<and> b"
    if "init_all env pe is (b, P) = Some (True, P')" for b
    using that assms(4)
  proof (induction "is" arbitrary: P b)
    case (Cons i "is")
    obtain ok A where i: "arena_init env (coreInit pe i) i (sharedHdr pe i) (sharedBlocks pe i) (Arenas P i) = Some (ok, A)"
      and r: "init_all env pe is (b \<and> ok, set_arena i A P) = Some (True, P')"
      using Cons.prems(1) by (auto split: option.splits)
    have d: "distinct is" "i \<notin> set is" using Cons.prems(2) by auto
    from Cons.IH [OF r d(1)] have ih: "\<forall>j\<in>set is. fresh_arena_ok env j (Arenas P' j)"
      "\<forall>j. j \<notin> set is \<longrightarrow> Arenas P' j = Arenas (set_arena i A P) j" "b \<and> ok" by auto
    have "arena_init env (coreInit pe i) i (sharedHdr pe i) (sharedBlocks pe i) (Arenas P i) = Some (True, A)"
      using i ih(3) by simp
    then have "fresh_arena_ok env i A"
      using arena_init_fresh assms(2,3) by blast
    then show ?case using ih d by auto
  qed simp
  then show ?thesis using assms(1) by blast
qed

text \<open>C12: After a successful first initialisation (new shared memory, 4 KB pages) every arena of the
  pool is initialised, empty and well formed, mapped at its core's address range, and its lock is
  free; the pool is ready and has between 1 and 16 arenas.\<close>

theorem pool_init_ready:
  assumes "pool_init env pe P = Some P'" and "pInitialized P'" and "\<not> pInitialized P"
    and "\<not> resetOnInit pe" and "\<forall>i. Version (sharedHdr pe i) = 0" and "PageSize env = 4096"
  shows "(\<forall>i<NumCores P'. fresh_arena_ok env i (Arenas P' i)) \<and> 1 \<le> NumCores P' \<and> NumCores P' \<le> 16 \<and>
    OwnerPid P' = pid pe"
proof -
  let ?n = "let n = cpus pe; n = (if n = 0 then 1 else n) in if kArenaMaxCores < n then kArenaMaxCores else n"
  have nd: "\<not> disabled pe" using assms(1,2) by (auto simp: pool_init_def)
  then obtain allOk P1 where i: "init_all env pe [0..<?n] (True, P\<lparr>NumCores := ?n\<rparr>) = Some (allOk, P1)"
    and P': "P' = (if allOk then P1\<lparr>pInitialized := allOk, OwnerPid := pid pe\<rparr> else P1\<lparr>pInitialized := allOk\<rparr>)"
    using assms(1,3,4) by (auto simp: pool_init_def Let_def split: option.splits)
  then have allOk using assms(2) by (auto split: if_splits)
  have "NumCores P1 = ?n"
  proof -
    have "NumCores Q' = NumCores Q" if "init_all env pe is (b, Q) = Some (b', Q')" for "is" b b' Q Q'
      using that by (induction "is" arbitrary: b Q) (auto simp: set_arena_def split: option.splits)
    from this [OF i] show ?thesis by simp
  qed
  then show ?thesis
    using init_all_fresh [OF i [unfolded \<open>allOk\<close> [THEN eq_True [THEN iffD2]]] assms(5,6)] P' \<open>allOk\<close>
    by (auto simp: Let_def kArenaMaxCores_def split: if_splits)
qed

theorem pool_init_ready_witness:
  "\<exists>P'. pool_init env4k \<lparr> coreInit = (\<lambda>_. \<lparr> shmFd = 3, ftruncateOk = True, mmapOk = True, ringMmapOk = True,
        prctlOk = True, prctlEINVAL = False \<rparr>), sharedHdr = (\<lambda>_. (Hdr (arena4k 7))\<lparr>Version := 0\<rparr>),
      sharedBlocks = (\<lambda>_. Blocks (arena4k 0)), remapOk = (\<lambda>_. True), cpus = 1, disabled = False,
      resetOnInit = False, pid = 9 \<rparr> ((pool4k 0)\<lparr>pInitialized := False\<rparr>) = Some P' \<and>
    fresh_arena_ok env4k 0 (Arenas P' 0)"
proof -
  let ?pe = "\<lparr> coreInit = (\<lambda>_. \<lparr> shmFd = 3, ftruncateOk = True, mmapOk = True, ringMmapOk = True,
        prctlOk = True, prctlEINVAL = False \<rparr>), sharedHdr = (\<lambda>_. (Hdr (arena4k 7))\<lparr>Version := 0\<rparr>),
      sharedBlocks = (\<lambda>_. Blocks (arena4k 0)), remapOk = (\<lambda>_. True), cpus = 1, disabled = False,
      resetOnInit = False, pid = 9 \<rparr>"
  have "\<exists>P'. pool_init env4k ?pe ((pool4k 0)\<lparr>pInitialized := False\<rparr>) = Some P' \<and> pInitialized P'"
    by (simp add: pool_init_def pool4k_def kArenaMaxCores_def arena_init_def initLogRing_def env4k_def
        sizeof_LogRing_def sizeof_LogEntry_def registerWithKernel_def Let_def)
  then obtain P' where P': "pool_init env4k ?pe ((pool4k 0)\<lparr>pInitialized := False\<rparr>) = Some P'" "pInitialized P'"
    by blast
  have "(\<forall>i<NumCores P'. fresh_arena_ok env4k i (Arenas P' i)) \<and> 1 \<le> NumCores P' \<and> NumCores P' \<le> 16 \<and> OwnerPid P' = pid ?pe"
    by (rule pool_init_ready [OF P']) (simp_all add: env4k_def)
  then have "fresh_arena_ok env4k 0 (Arenas P' 0)" by (metis less_le_trans zero_less_one)
  then show ?thesis using P'(1) by blast
qed

section \<open>Runs of the pool\<close>









lemma arena_geo_cong:
  "DataBase A' = DataBase A \<Longrightarrow> TotalDataPages (Hdr A') = TotalDataPages (Hdr A) \<Longrightarrow> arena_geo env A' p = arena_geo env A p"
  by (simp add: arena_geo_def)






lemma fseg_off_list: "\<forall>b\<in>set bs. fst b \<noteq> y \<Longrightarrow> fseg (M(y := v)) p bs q = fseg M p bs q"
  by (rule fseg_upd) auto





section \<open>Routing\<close>



section \<open>Where the code loses pages or does not return\<close>


text \<open>A list node that is its own successor, too small for the request: the scan goes round for ever.\<close>

lemma best_fit_cycle:
  assumes "FreeBlockLooksValid (M x) x N" and "NextPageOff (M x) = x" and "x \<noteq> kFreeListEnd"
    and "SizeInPages (M x) < n"
  shows "best_fit M N n bo bp x = None"
proof -
  have never: "\<not> (n' = n \<and> M' = M \<and> N' = N \<and> c = x)" if "best_fit M' N' n' bo' bp' c = Some y" for M' N' n' bo' bp' c y
    using that
    by (rule best_fit.raw_induct [rotated, where P = "\<lambda>M' N' n' bo' bp' c y. \<not> (n' = n \<and> M' = M \<and> N' = N \<and> c = x)"])
      (use assms in \<open>auto split: if_splits\<close>)
  show ?thesis using never [of M N n bo bp x] by (cases "best_fit M N n bo bp x") auto
qed

lemma store_self:
  assumes "Initialized A" "Lock (Hdr A) = 0" "csz \<noteq> 0" "store_range_ok env A base csz" "\<not> FreelistDisabled env"
    "AllowNoKernel env" "Arenas P own = A"
    "insert_free (addrToPageOff env A base) (u32_of (unat (csz div PageSize env))) ((Hdr A)\<lparr>Lock := 1\<rparr>, Blocks A) = Some (H, M)"
  shows "store env own base csz None P = Some (True,
    set_arena own (A\<lparr>Hdr := (donate_stats csz H)\<lparr>Lock := 0\<rparr>, Blocks := M\<rparr>) P, [Acquire own, Release own])"
  using assms by (simp add: store_def store_locks_def lock_at_def lock_def unlock_at_def unlock_def Let_def
      appendLogPagesLocked_def, cases A, simp)

text \<open>C15: store does not notice that a block is already free. Storing the same two pages twice succeeds
  both times and makes the block its own successor; the next request of three pages then never
  returns, and holds the arena's lock while it loops.\<close>

theorem double_store_hangs:
  "\<exists>P1 t1 P2 t2. store env4k 0 0x200000002000 8192 None (pool4k 4) = Some (True, P1, t1) \<and>
    store env4k 0 0x200000002000 8192 None P1 = Some (True, P2, t2) \<and>
    retrieve env4k 12000 16 80 (Arenas P2 0) = None"
proof -
  have fp: "x \<noteq> 4294967295 \<Longrightarrow> find_position M N x p 4294967295 = Some (p, 4294967295, False)" for M N p x
    by (subst find_position.simps) (simp add: kFreeListEnd_def)
  define M1 where "M1 = (Blocks (arena4k 4))(1 := \<lparr> PrevPageOff = kFreeListEnd, NextPageOff = kFreeListEnd,
    SizeInPages = 2, Magic = kFreeBlockMagic \<rparr>)"
  define M2 where "M2 = M1(1 := \<lparr> PrevPageOff = 1, NextPageOff = 1, SizeInPages = 2, Magic = kFreeBlockMagic \<rparr>)"
  have i1: "insert_free 1 2 (H, Blocks (arena4k 4)) = Some (H\<lparr>FreeListHeadPageOff := 1, FreeCount := 1\<rparr>, M1)"
    if "FreeListHeadPageOff H = kFreeListEnd" "FreeCount H = 0" for H
    using that fp [of 1] by (simp add: insert_free_def kFreeListEnd_def M1_def merge_next_def merge_prev_def)
  have v1: "FreeBlockLooksValid (M1 1) 1 131071" "FreeBlockLooksValid (M2 1) 1 131071"
    by (simp_all add: M1_def M2_def FreeBlockLooksValid_def kFreeListEnd_def kFreeBlockMagic_def)
  have f1: "find_position M1 131071 1 p 1 = Some (1, kFreeListEnd, False)" for p
    using v1(1) fp [of 1 M1 131071 1]
    by (subst find_position.simps) (simp add: kFreeListEnd_def M1_def)
  have i2: "insert_free 1 2 (H, M1) = Some (H\<lparr>FreeCount := 2\<rparr>, M2)"
    if "FreeListHeadPageOff H = 1" "FreeCount H = 1" "TotalDataPages H = 131071" for H
    using that f1 by (simp add: insert_free_def kFreeListEnd_def M1_def M2_def merge_next_def merge_prev_def upd_def)
  have lp: "best_fit M2 131071 3 bo bp 1 = None" for bo bp
    using v1(2) by (intro best_fit_cycle) (simp_all add: M2_def kFreeListEnd_def)
  let ?A0 = "Arenas (pool4k 4) 0"
  have off: "addrToPageOff env4k A 0x200000002000 = 1" "store_range_ok env4k A 0x200000002000 8192"
    if "DataBase A = 0x200000001000" "TotalDataPages (Hdr A) = 131071" for A
    using that by (simp_all add: store_range_ok_def addrToPageOff_def isAligned_def env4k_def)
  have A0: "Initialized ?A0" "Lock (Hdr ?A0) = 0" "DataBase ?A0 = 0x200000001000" "TotalDataPages (Hdr ?A0) = 131071"
    "FreeListHeadPageOff (Hdr ?A0) = kFreeListEnd" "FreeCount (Hdr ?A0) = 0" "Blocks ?A0 = Blocks (arena4k 4)"
    by (simp_all add: pool4k_def arena4k_def)
  have e: "\<not> FreelistDisabled env4k" "AllowNoKernel env4k" "u32_of (unat (8192 div PageSize env4k)) = 2"
    by (simp_all add: env4k_def)
  let ?H1 = "(Hdr ?A0)\<lparr>Lock := 1, FreeListHeadPageOff := 1, FreeCount := 1\<rparr>"
  let ?A1 = "?A0\<lparr>Hdr := (donate_stats 8192 ?H1)\<lparr>Lock := 0\<rparr>, Blocks := M1\<rparr>"
  let ?P1 = "set_arena 0 ?A1 (pool4k 4)"
  have s1: "store env4k 0 0x200000002000 8192 None (pool4k 4) = Some (True, ?P1, [Acquire 0, Release 0])"
    using A0 off e i1 [of "(Hdr ?A0)\<lparr>Lock := 1\<rparr>"] by (intro store_self) simp_all
  let ?H2 = "(Hdr ?A1)\<lparr>Lock := 1, FreeCount := 2\<rparr>"
  let ?A2 = "?A1\<lparr>Hdr := (donate_stats 8192 ?H2)\<lparr>Lock := 0\<rparr>, Blocks := M2\<rparr>"
  have "store env4k 0 0x200000002000 8192 None ?P1 = Some (True, set_arena 0 ?A2 ?P1, [Acquire 0, Release 0])"
    using A0 off e i2 [of "(Hdr ?A1)\<lparr>Lock := 1\<rparr>"]
    by (intro store_self [where A = ?A1]) (simp_all add: donate_stats_def)
  moreover have "retrieve env4k 12000 16 80 ?A2 = None"
  proof -
    have "NeededPages env4k 12000 80 = 3"
      by (simp add: NeededPages_def NeededSize_def env4k_def roundUp_def)
    then show ?thesis
      using A0 e lp by (simp add: retrieve_def lock_def alloc_pages_def find_best_def donate_stats_def Let_def)
  qed
  ultimately show ?thesis
    using s1 by (intro exI [of _ ?P1] exI [of _ "[Acquire 0, Release 0]"] exI [of _ "set_arena 0 ?A2 ?P1"]) simp
qed

lemma alloc_pages_addr:
  assumes "alloc_pages env n A = Some (bo, Some base, A')"
  shows "\<exists>x. base = pageOffToAddr env A x" "CoreId A' = CoreId A \<and> DataBase A' = DataBase A"
  using assms by (auto simp: alloc_pages_def Let_def pageOffToAddr_def split: option.splits prod.splits if_splits)

lemma locked_DataBase: "DataBase (locked A) = DataBase A"
  by (simp add: locked_def)

lemma appendLogLocked_aligned: "appendLogLocked env op b csz fl A = (True, A') \<Longrightarrow> isAligned b (PageSize env)"
  by (simp add: appendLogLocked_def split: if_splits)

lemma retrieve_logs:
  assumes "retrieve env sz al hs A = Some (Some t, A')"
  shows "\<exists>bo base A1. alloc_pages env (NeededPages env sz hs) (locked A) = Some (bo, Some base, A1) \<and>
    isAligned base (PageSize env)"
proof -
  have "lock A = Some (locked A)"
    using assms by (auto simp: retrieve_def lock_def locked_def split: if_splits)
  moreover obtain bo ob A1 where al1: "alloc_pages env (NeededPages env sz hs) (locked A) = Some (bo, ob, A1)"
    using assms calculation by (auto simp: retrieve_def Let_def split: if_splits option.splits)
  moreover obtain base where "ob = Some base"
    using assms calculation by (cases ob) (auto simp: retrieve_def Let_def split: if_splits)
  ultimately show ?thesis
    using assms appendLogLocked_aligned
    by (auto simp: retrieve_def Let_def split: if_splits prod.splits)
qed

lemma take_bit_mult_exp: "k \<le> m \<Longrightarrow> take_bit k (w * 2 ^ m :: uptr) = 0"
proof -
  assume k: "k \<le> m"
  have "w * 2 ^ m = push_bit m w" by (simp add: push_bit_eq_mult)
  then show ?thesis using k by (simp only:) (rule bit_word_eqI, auto simp: bit_simps)
qed

lemma take_bit_add_0:
  assumes "take_bit k a = 0" "k \<le> 64"
  shows "take_bit k (a + b) = take_bit k (b :: uptr)"
proof -
  have u: "unat (take_bit k w) = unat w mod 2 ^ k" for w :: uptr
    by (simp only: unsigned_take_bit_eq) (simp add: take_bit_eq_mod)
  have "(2::nat) ^ k dvd 2 ^ 64" using assms(2) by (rule le_imp_power_dvd)
  then have "unat (a + b) mod 2 ^ k = (unat a + unat b) mod 2 ^ k"
    by (simp add: unat_word_ariths mod_mod_cancel)
  also have "\<dots> = (unat a mod 2 ^ k + unat b) mod 2 ^ k"
    by (simp only: mod_add_left_eq)
  also have "unat a mod 2 ^ k = 0" using assms(1) u [of a] by simp
  finally show ?thesis by (simp add: word_unat_eq_iff u)
qed

lemma isAligned_take_bit: "isAligned y (2 ^ k) \<longleftrightarrow> take_bit k y = 0"
  by (simp add: isAligned_def word_exp_minus_1 take_bit_eq_mask)

text \<open>C16: With a page size above 4 KB the data area, which starts 4096 bytes into the arena, is never
  page aligned, and appendLogLocked refuses every allocation: retrieve returns no block, for any
  request on any arena of any pool, the kernel-less mode included.\<close>

theorem no_block_on_large_pages:
  assumes "PageSize env = 2 ^ k" and "13 \<le> k" and "k \<le> 29"
    and "DataBase A = kSharedArenaBaseAddr + of_nat cid * kArenaCapacityPerCore + kArenaHeaderSize"
    and "retrieve env sz al hs A = Some (r, A')"
  shows "r = None"
proof -
  have k64: "k \<le> 64" using assms(3) by simp
  have "take_bit k (DataBase A + of_nat x * 2 ^ k) = take_bit k 4096" for x
  proof -
    have a: "kSharedArenaBaseAddr = 1 * 2 ^ 45" "kArenaCapacityPerCore = 1 * 2 ^ 29"
      by (simp_all add: kSharedArenaBaseAddr_def kArenaCapacityPerCore_def)
    have "take_bit k (kSharedArenaBaseAddr + of_nat cid * kArenaCapacityPerCore + of_nat x * 2 ^ k) = 0"
    proof -
      have "of_nat cid * kArenaCapacityPerCore = of_nat cid * 2 ^ 29" by (simp add: a)
      then have "take_bit k (of_nat cid * kArenaCapacityPerCore) = 0"
        using assms(3) by (simp only: take_bit_mult_exp)
      moreover have "take_bit k kSharedArenaBaseAddr = 0"
        unfolding a using assms(3) by (intro take_bit_mult_exp) simp
      moreover have "take_bit k (of_nat x * 2 ^ k :: uptr) = 0"
        by (simp add: take_bit_mult_exp)
      ultimately show ?thesis using k64 by (simp only: take_bit_add_0)
    qed
    moreover have "DataBase A + of_nat x * 2 ^ k =
        (kSharedArenaBaseAddr + of_nat cid * kArenaCapacityPerCore + of_nat x * 2 ^ k) + 4096"
      by (simp add: assms(4) kArenaHeaderSize_def)
    ultimately show ?thesis using k64 by (simp only: take_bit_add_0)
  qed
  moreover have "take_bit k (4096 :: uptr) \<noteq> 0"
  proof -
    have "bit (2 ^ 12 :: uptr) 12" by (simp add: bit_simps)
    then have "bit (take_bit k (4096 :: uptr)) 12" using assms(2) by (simp add: bit_take_bit_iff)
    then show ?thesis by auto
  qed
  ultimately have un: "\<not> isAligned (pageOffToAddr env B x) (PageSize env)" if "DataBase B = DataBase A" for B x
    using that by (simp add: pageOffToAddr_def assms(1) isAligned_take_bit)
  show ?thesis
  proof (cases r)
    case (Some t)
    then show ?thesis
      using retrieve_logs [of env sz al hs A t A'] assms(5) un
      by (metis alloc_pages_addr(1) locked_DataBase)
  qed simp
qed

theorem no_block_on_large_pages_witness:
  "\<exists>A'. retrieve (env4k\<lparr>PageSize := 2 ^ 14\<rparr>) 1000 16 80 (arena4k 4) = Some (None, A')"
proof -
  obtain r A' where r: "retrieve (env4k\<lparr>PageSize := 2 ^ 14\<rparr>) 1000 16 80 (arena4k 4) = Some (r, A')"
    by (simp add: retrieve_def lock_def alloc_pages_def find_best_def NeededPages_def NeededSize_def
      roundUp_def roundDown_def eval4k Let_def pageOffToAddr_def appendLogLocked_def isAligned_def undo_take_def)
  have "r = None"
    by (rule no_block_on_large_pages [OF _ _ _ _ r, of 14 0])
      (simp_all add: env4k_def arena4k_def kSharedArenaBaseAddr_def kArenaHeaderSize_def)
  then show ?thesis using r by blast
qed

end
