(* ===== verification/Secondary.thy ===== *)
theory Secondary
  imports Secondary_Cache_Props Arena_System
begin

text \<open>secondary.h: the allocator of large blocks on the build without memory tagging (x86-64 Linux,
  where useMemoryTagging is the constant false). A block comes from the shared arena of the current
  core, from the cache, or from a new mapping; it starts with a LargeBlock header and is on the list
  of blocks in use. The cache is a template parameter of the code and a record of operations
  here.\<close>

section \<open>Headers and state\<close>

record LargeHeader =
  hCommitBase :: uptr
  hCommitSize :: uptr
  ArenaOwnerPid :: u32
  Reserved :: u32
  hMemMap :: mem_map

text \<open>On a 64-bit build the header is two links, two words, two u32 and a mapping of two words, that
  is 56 bytes, aligned up to 64; the chunk header takes 16.\<close>

definition LargeBlock_getHeaderSize :: uptr where "LargeBlock_getHeaderSize = 64"
definition getHeadersSize :: uptr where "getHeadersSize = 16 + LargeBlock_getHeaderSize"
definition LargeBlock_getHeader :: "uptr \<Rightarrow> uptr" where "LargeBlock_getHeader Ptr = Ptr - LargeBlock_getHeaderSize"
definition PatternFillByte :: u8 where "PatternFillByte = 0xAB"

record 'c cache_ops =
  co_retrieve :: "os_env \<Rightarrow> uptr \<Rightarrow> uptr \<Rightarrow> uptr \<Rightarrow> uptr \<Rightarrow> 'c \<Rightarrow> (CachedBlock \<times> uptr \<times> 'c \<times> os_event list) result"
  co_store :: "os_env \<Rightarrow> bool \<Rightarrow> uptr \<Rightarrow> uptr \<Rightarrow> uptr \<Rightarrow> mem_map \<Rightarrow> 'c \<Rightarrow> ('c \<times> os_event list) result"
  co_canCache :: "uptr \<Rightarrow> 'c \<Rightarrow> bool"

definition map_cache_ops :: "cache_config \<Rightarrow> cache cache_ops" where
  "map_cache_ops cfg = \<lparr> co_retrieve = cache_retrieve, co_store = (\<lambda>env. cache_store env cfg), co_canCache = canCache \<rparr>"

definition no_cache_ops :: "unit cache_ops" where
  "no_cache_ops = \<lparr> co_retrieve = (\<lambda>env MP Sz Al Hs c. Inr (nocache_retrieve, 0, c, [])),
     co_store = (\<lambda>env tag B S BB M c. nocache_store), co_canCache = (\<lambda>Sz c. nocache_canCache Sz) \<rparr>"

record 'c map_alloc =
  maCache :: 'c
  maHeaders :: "uptr \<Rightarrow> LargeHeader"
  maLinks :: ptr_links
  InUseBlocks :: "uptr ilist"
  AllocatedBytes :: uptr
  FreedBytes :: uptr
  FragmentedBytes :: uptr
  LargestSize :: uptr
  NumberOfAllocs :: u32
  NumberOfFrees :: u32
  maStats :: counters
  maPool :: SharedArenaPool

text \<open>The surroundings of one call: the platform, the arena's environment, what decides about memory
  pressure, what init of the pool does in a forked process, the answers of rseq and sched_getcpu,
  the cached flag that bypasses the arena for filled blocks, the pid, and the reservation of a
  mapping of a size at an address that the platform chooses.\<close>

record sec_env =
  sOs :: os_env
  sArena :: arena_env
  sPressure :: pressure_env
  sReinit :: "SharedArenaPool \<Rightarrow> SharedArenaPool"
  rseqCpu :: int
  schedCpu :: int
  FillAllocDisabled :: bool
  sPid :: u32
  reserve :: "uptr \<Rightarrow> uptr option"

section \<open>Allocation\<close>

text \<open>The header is written and the block appended to the list in use; the counters that all three
  ways of allocating update.\<close>

definition push_block :: "uptr \<Rightarrow> LargeHeader \<Rightarrow> 'c map_alloc \<Rightarrow> 'c map_alloc" where
  "push_block H hdr S = (case dl_push_back ptr_link_op H (maLinks S, InUseBlocks S) of
     (s, l) \<Rightarrow> S\<lparr>maHeaders := (maHeaders S)(H := hdr), maLinks := s, InUseBlocks := l\<rparr>)"

definition count_alloc :: "uptr \<Rightarrow> uptr \<Rightarrow> 'c map_alloc \<Rightarrow> 'c map_alloc" where
  "count_alloc CommitSize Capacity S = S\<lparr>AllocatedBytes := AllocatedBytes S + CommitSize,
     NumberOfAllocs := NumberOfAllocs S + 1,
     maStats := stat_add StatMapped Capacity (stat_add StatAllocated CommitSize (maStats S))\<rparr>"

definition fill_byte :: "u32 \<Rightarrow> u8" where
  "fill_byte FillContents = (if FillContents = ZeroFill then 0 else PatternFillByte)"

definition tryAllocateFromCache :: "'c cache_ops \<Rightarrow> sec_env \<Rightarrow> uptr \<Rightarrow> uptr \<Rightarrow> u32 \<Rightarrow> 'c map_alloc \<Rightarrow>
    ((uptr \<times> uptr) option \<times> 'c map_alloc \<times> os_event list) result" where
  "tryAllocateFromCache ops env Sz Alignment FillContents S =
    bindR (co_retrieve ops (sOs env) (MaxUnreleasedCachePages + MaxReleasedCachePages) Sz Alignment
        getHeadersSize (maCache S)) (\<lambda>(Entry, EntryHeaderPos, c, ev).
      let S = S\<lparr>maCache := c\<rparr> in
      if \<not> isValidBlock Entry then Inr (None, S, ev)
      else let H = EntryHeaderPos;
               Zeroed = (cTime Entry = 0);
               hdr = \<lparr> hCommitBase = cCommitBase Entry, hCommitSize = cCommitSize Entry, ArenaOwnerPid = 0,
                       Reserved = 0, hMemMap = cMemMap Entry \<rparr>;
               BlockEnd = cCommitBase Entry + cCommitSize Entry;
               Ptr = H + LargeBlock_getHeaderSize;
               ev = ev @ (if FillContents \<noteq> NoFill \<and> \<not> Zeroed
                          then [MemSet Ptr (fill_byte FillContents) (BlockEnd - Ptr)] else []);
               S = count_alloc (hCommitSize hdr) (mCapacity (hMemMap hdr)) (push_block H hdr S);
               S = S\<lparr>FragmentedBytes := FragmentedBytes S + (mCapacity (hMemMap hdr) - hCommitSize hdr)\<rparr>
           in Inr (Some (Ptr, BlockEnd), S, ev))"

definition raise_LargestSize :: "uptr \<Rightarrow> 'c map_alloc \<Rightarrow> 'c map_alloc" where
  "raise_LargestSize CommitSize S = (if LargestSize S < CommitSize then S\<lparr>LargestSize := CommitSize\<rparr> else S)"

text \<open>None: the arena's retrieve does not return.\<close>

definition tryAllocateFromArena :: "sec_env \<Rightarrow> uptr \<Rightarrow> uptr \<Rightarrow> u32 \<Rightarrow> 'c map_alloc \<Rightarrow>
    ((uptr \<times> uptr) option \<times> 'c map_alloc \<times> os_event list) option" where
  "tryAllocateFromArena env Sz Alignment FillContents S =
    (let P = maPool S in
     if \<not> pInitialized P then Some (None, S, [])
     else if FillContents \<noteq> NoFill \<and> FillAllocDisabled env then Some (None, S, [])
     else case getCurrentArena P (rseqCpu env) (schedCpu env) of None \<Rightarrow> Some (None, S, [])
     | Some i \<Rightarrow>
       (case retrieve (sArena env) Sz Alignment getHeadersSize (Arenas P i) of
          None \<Rightarrow> None
        | Some (None, A) \<Rightarrow> Some (None, S\<lparr>maPool := set_arena i A P\<rparr>, [])
        | Some (Some (OutCommitBase, OutCommitSize, OutEntryHeaderPos), A) \<Rightarrow>
          let S = S\<lparr>maPool := set_arena i A P\<rparr>;
              H = OutEntryHeaderPos;
              hdr = \<lparr> hCommitBase = OutCommitBase, hCommitSize = OutCommitSize, ArenaOwnerPid = sPid env,
                      Reserved = 0, hMemMap = \<lparr> mBase = OutCommitBase, mCapacity = OutCommitSize \<rparr> \<rparr>;
              BlockEnd = OutCommitBase + OutCommitSize;
              Ptr = H + LargeBlock_getHeaderSize;
              ev = (if FillContents \<noteq> NoFill then [MemSet Ptr (fill_byte FillContents) Sz] else []);
              S = raise_LargestSize OutCommitSize (count_alloc OutCommitSize OutCommitSize (push_block H hdr S))
          in Some (Some (Ptr, BlockEnd), S, ev)))"

text \<open>The placement of a block in a new mapping of RoundedSize and two guard pages.\<close>

definition mapping_size :: "uptr \<Rightarrow> uptr \<Rightarrow> uptr \<Rightarrow> uptr" where
  "mapping_size PgSize Sz Alignment =
    (let RoundedSize = roundUp (roundUp Sz Alignment + getHeadersSize) PgSize;
         RoundedSize = (if PgSize < Alignment then RoundedSize + (Alignment - PgSize) else RoundedSize)
     in RoundedSize + 2 * PgSize)"

definition place_block :: "uptr \<Rightarrow> uptr \<Rightarrow> uptr \<Rightarrow> uptr \<Rightarrow> uptr \<times> uptr \<times> uptr" where
  "place_block PgSize Sz Alignment MapBase =
    (let MapEnd = MapBase + mapping_size PgSize Sz Alignment;
         CommitBase = (if PgSize \<le> Alignment then roundUp (MapBase + PgSize + 1) Alignment - PgSize
                       else MapBase + PgSize);
         CommitSize = MapEnd - PgSize - CommitBase;
         AllocPos = roundDown (CommitBase + CommitSize - Sz) Alignment
     in (CommitBase, CommitSize, AllocPos))"

definition allocate_new :: "sec_env \<Rightarrow> uptr \<Rightarrow> uptr \<Rightarrow> 'c map_alloc \<Rightarrow> (uptr \<times> uptr) option \<times> 'c map_alloc \<times> os_event list" where
  "allocate_new env Sz Alignment S =
    (let PgSize = osPageSize (sOs env); MapSize = mapping_size PgSize Sz Alignment in
     case reserve env MapSize of None \<Rightarrow> (None, S, [])
     | Some MapBase \<Rightarrow>
       let M = \<lparr> mBase = MapBase, mCapacity = MapSize \<rparr>;
           (CommitBase, CommitSize, AllocPos) = place_block PgSize Sz Alignment MapBase;
           (ok, ev) = mapSecondary (sOs env) False CommitBase CommitSize AllocPos 0 M
       in if \<not> ok then (None, S, Map M # ev @ [Unmap M])
          else let HeaderPos = AllocPos - getHeadersSize;
                   hdr = \<lparr> hCommitBase = CommitBase, hCommitSize = CommitSize, ArenaOwnerPid = 0,
                           Reserved = 0, hMemMap = M \<rparr>;
                   S = raise_LargestSize CommitSize (count_alloc CommitSize MapSize (push_block HeaderPos hdr S));
                   S = S\<lparr>FragmentedBytes := FragmentedBytes S + (MapSize - CommitSize)\<rparr>
               in (Some (HeaderPos + LargeBlock_getHeaderSize, CommitBase + CommitSize), S, Map M # ev))"

definition sec_allocate :: "'c cache_ops \<Rightarrow> sec_env \<Rightarrow> u32 \<Rightarrow> uptr \<Rightarrow> uptr \<Rightarrow> u32 \<Rightarrow> 'c map_alloc \<Rightarrow>
    ((uptr \<times> uptr) option \<times> 'c map_alloc \<times> os_event list) result option" where
  "sec_allocate ops env Options Sz Alignment FillContents S =
    (let Sz = (if opt_get Options AddLargeAllocationSlack then Sz + 16 else Sz);
         Alignment = max Alignment 16;
         PgSize = osPageSize (sOs env);
         MinNeededSizeForCache = roundUp (Sz + getHeadersSize) PgSize;
         (useArena, P) = shouldUseArena (sPressure env) (sReinit env) (maPool S);
         S = S\<lparr>maPool := P\<rparr>
     in case (if useArena \<and> Alignment < PgSize then tryAllocateFromArena env Sz Alignment FillContents S
              else Some (None, S, [])) of
          None \<Rightarrow> None
        | Some (Some r, S, ev) \<Rightarrow> Some (Inr (Some r, S, ev))
        | Some (None, S, ev) \<Rightarrow>
          Some (bindR (if Alignment < PgSize \<and> co_canCache ops MinNeededSizeForCache (maCache S)
                       then tryAllocateFromCache ops env Sz Alignment FillContents S
                       else Inr (None, S, [])) (\<lambda>(r, S, ev').
            case r of Some r \<Rightarrow> Inr (Some r, S, ev @ ev')
            | None \<Rightarrow> (case allocate_new env Sz Alignment S of (r, S, ev'') \<Rightarrow> Inr (r, S, ev @ ev' @ ev'')))))"

section \<open>Deallocation\<close>

definition count_free :: "uptr \<Rightarrow> uptr \<Rightarrow> 'c map_alloc \<Rightarrow> 'c map_alloc" where
  "count_free CommitSize Capacity S = S\<lparr>FreedBytes := FreedBytes S + CommitSize,
     FragmentedBytes := FragmentedBytes S - (Capacity - CommitSize), NumberOfFrees := NumberOfFrees S + 1,
     maStats := stat_sub StatMapped Capacity (stat_sub StatAllocated CommitSize (maStats S))\<rparr>"

text \<open>Giving a block of the pool back: a block that was inherited through a fork is left alone, and
  the outcome of store does not matter.\<close>

definition return_to_arena :: "sec_env \<Rightarrow> LargeHeader \<Rightarrow> SharedArenaPool \<Rightarrow> SharedArenaPool option" where
  "return_to_arena env hdr P =
    (let FullBase = mBase (hMemMap hdr); FullSize = mCapacity (hMemMap hdr) in
     case getOwningArena P FullBase of None \<Rightarrow> Some P
     | Some own \<Rightarrow>
       let lg = (case getCurrentArena P (rseqCpu env) (schedCpu env) of None \<Rightarrow> own | Some l \<Rightarrow> l) in
       if ArenaOwnerPid hdr \<noteq> sPid env then Some P
       else map_option (\<lambda>(ok, P, tr). P) (store (sArena env) own FullBase FullSize (Some lg) P))"

definition sec_deallocate :: "'c cache_ops \<Rightarrow> sec_env \<Rightarrow> uptr \<Rightarrow> 'c map_alloc \<Rightarrow>
    ('c map_alloc \<times> os_event list) result option" where
  "sec_deallocate ops env Ptr S =
    (let H = LargeBlock_getHeader Ptr; hdr = maHeaders S H; CommitSize = hCommitSize hdr; M = hMemMap hdr in
     case dl_remove ptr_link_op H (maLinks S, InUseBlocks S) of
       Inl e \<Rightarrow> Some (Inl e)
     | Inr (s, l) \<Rightarrow>
       let S = count_free CommitSize (mCapacity M) (S\<lparr>maLinks := s, InUseBlocks := l\<rparr>); P = maPool S in
       if pInitialized P \<and> isArenaAddr P (mBase M) then
         map_option (\<lambda>P. Inr (S\<lparr>maPool := P\<rparr>, [])) (return_to_arena env hdr P)
       else if co_canCache ops CommitSize (maCache S) then
         Some (bindR (co_store ops (sOs env) False (hCommitBase hdr) CommitSize (H + LargeBlock_getHeaderSize) M (maCache S))
           (\<lambda>(c, ev). Inr (S\<lparr>maCache := c\<rparr>, ev)))
       else Some (Inr (S, [Unmap M])))"

section \<open>The rest\<close>

definition sec_getBlockEnd :: "'c map_alloc \<Rightarrow> uptr \<Rightarrow> uptr" where
  "sec_getBlockEnd S Ptr = (let B = maHeaders S (LargeBlock_getHeader Ptr) in hCommitBase B + hCommitSize B)"

definition sec_getBlockSize :: "'c map_alloc \<Rightarrow> uptr \<Rightarrow> uptr" where
  "sec_getBlockSize S Ptr = sec_getBlockEnd S Ptr - Ptr"

definition sec_iterateOverBlocks :: "'c map_alloc \<Rightarrow> uptr list" where
  "sec_iterateOverBlocks S = map (\<lambda>H. H + LargeBlock_getHeaderSize) (il_iter ptr_link_op (maLinks S) (InUseBlocks S))"

text \<open>init links the statistics at the address self into the global ones, if there are any, and
  initialises the pool, ignoring whether that succeeds.\<close>

definition sec_init :: "cache_config \<Rightarrow> arena_env \<Rightarrow> pool_env \<Rightarrow> uptr \<Rightarrow> int \<Rightarrow>
    global_stats option \<times> cache map_alloc \<Rightarrow> (global_stats option \<times> cache map_alloc) option" where
  "sec_init cfg aenv penv self ReleaseToOsInterval = (\<lambda>(G, S).
    case pool_init aenv penv (maPool S) of None \<Rightarrow> None
    | Some P \<Rightarrow> Some (map_option (gs_link self) G,
        S\<lparr>maCache := cache_init cfg ReleaseToOsInterval (maCache S), maPool := P\<rparr>))"

definition sec_enable :: "arena_env \<Rightarrow> pool_env \<Rightarrow> 'c map_alloc \<Rightarrow> 'c map_alloc option" where
  "sec_enable aenv penv S = map_option (\<lambda>P. S\<lparr>maPool := P\<rparr>) (pool_init aenv penv (maPool S))"

end
