(* ===== verification/Chunk.thy ===== *)
theory Chunk
  imports Common
begin

text \<open>chunk.h and checksum.h: the packed 64-bit chunk header, its checksum, and the operations
  that store, load and validate it. The heap of packed headers is a function from header
  addresses to 64-bit values. The hardware CRC32 instruction is a parameter.\<close>

section \<open>Checksums\<close>

datatype Checksum = BSD | HardwareCRC32

text \<open>One iteration of the loop of computeBSDChecksum: rotate the sum right, add the low byte.\<close>

definition bsd_step :: "u16 \<Rightarrow> uptr \<Rightarrow> u16" where
  "bsd_step Acc Data =
    ((drop_bit 1 Acc) OR (push_bit 15 (Acc AND 1))) + ucast (Data AND 0xff)"

fun bsd_loop :: "nat \<Rightarrow> u16 \<Rightarrow> uptr \<Rightarrow> u16" where
  "bsd_loop 0 Acc Data = Acc"
| "bsd_loop (Suc i) Acc Data = bsd_loop i (bsd_step Acc Data) (drop_bit 8 Data)"

definition computeBSDChecksum :: "u16 \<Rightarrow> uptr \<Rightarrow> u16" where
  "computeBSDChecksum Acc Data = bsd_loop 8 Acc Data"

definition computeChecksum ::
  "Checksum \<Rightarrow> (u32 \<Rightarrow> uptr \<Rightarrow> u32) \<Rightarrow> u32 \<Rightarrow> uptr \<Rightarrow> uptr list \<Rightarrow> u16" where
  "computeChecksum HashAlgorithm computeHardwareCRC32 Seed Value Array =
    (if HashAlgorithm = HardwareCRC32 then
       (let Crc = fold (\<lambda>A Crc. computeHardwareCRC32 Crc A) Array (computeHardwareCRC32 Seed Value)
        in ucast (Crc XOR drop_bit 16 Crc))
     else fold (\<lambda>A Acc. computeBSDChecksum Acc A) Array (computeBSDChecksum (ucast Seed) Value))"

section \<open>The header\<close>

definition Available :: "2 word" where "Available = 0"
definition Allocated :: "2 word" where "Allocated = 1"
definition Quarantined :: "2 word" where "Quarantined = 2"

datatype Origin = Malloc | New | NewArray | Memalign

fun origin_val :: "Origin \<Rightarrow> u8" where
  "origin_val Malloc = 0"
| "origin_val New = 1"
| "origin_val NewArray = 2"
| "origin_val Memalign = 3"

record UnpackedHeader =
  ClassId :: "8 word"
  State :: "2 word"
  OriginOrWasZeroed :: "2 word"
  SizeOrUnusedBytes :: "20 word"
  Offset :: "16 word"
  hChecksum :: "16 word"

definition SizeOrUnusedBytesMask :: uptr where "SizeOrUnusedBytesMask = 2 ^ 20 - 1"
definition OffsetMask :: uptr where "OffsetMask = 2 ^ 16 - 1"

definition getHeaderSize :: uptr where
  "getHeaderSize = roundUp 8 (push_bit 4 1)"

text \<open>bit_cast between the structure and a 64-bit integer, with the layout of the bit fields in
  declaration order from the least significant bit.\<close>

definition packHeader :: "UnpackedHeader \<Rightarrow> u64" where
  "packHeader h = ucast (ClassId h) OR push_bit 8 (ucast (State h))
    OR push_bit 10 (ucast (OriginOrWasZeroed h)) OR push_bit 12 (ucast (SizeOrUnusedBytes h))
    OR push_bit 32 (ucast (Offset h)) OR push_bit 48 (ucast (hChecksum h))"

definition unpackHeader :: "u64 \<Rightarrow> UnpackedHeader" where
  "unpackHeader w = \<lparr> ClassId = ucast w, State = ucast (drop_bit 8 w),
    OriginOrWasZeroed = ucast (drop_bit 10 w), SizeOrUnusedBytes = ucast (drop_bit 12 w),
    Offset = ucast (drop_bit 32 w), hChecksum = ucast (drop_bit 48 w) \<rparr>"

lemma unpack_pack_ClassId: "ClassId (unpackHeader (packHeader h)) = ClassId h"
  by (simp only: unpackHeader_def UnpackedHeader.select_convs, rule bit_word_eqI,
      simp add: packHeader_def bit_simps, (auto dest: bit_imp_le_length)?)

lemma unpack_pack_State: "State (unpackHeader (packHeader h)) = State h"
  by (simp only: unpackHeader_def UnpackedHeader.select_convs, rule bit_word_eqI,
      simp add: packHeader_def bit_simps, (auto dest: bit_imp_le_length)?)

lemma unpack_pack_OriginOrWasZeroed: "OriginOrWasZeroed (unpackHeader (packHeader h)) = OriginOrWasZeroed h"
  by (simp only: unpackHeader_def UnpackedHeader.select_convs, rule bit_word_eqI,
      simp add: packHeader_def bit_simps, (auto dest: bit_imp_le_length)?)

lemma unpack_pack_SizeOrUnusedBytes: "SizeOrUnusedBytes (unpackHeader (packHeader h)) = SizeOrUnusedBytes h"
  by (simp only: unpackHeader_def UnpackedHeader.select_convs, rule bit_word_eqI,
      simp add: packHeader_def bit_simps, (auto dest: bit_imp_le_length)?)

lemma unpack_pack_Offset: "Offset (unpackHeader (packHeader h)) = Offset h"
  by (simp only: unpackHeader_def UnpackedHeader.select_convs, rule bit_word_eqI,
      simp add: packHeader_def bit_simps, (auto dest: bit_imp_le_length)?)

lemma unpack_pack_hChecksum: "hChecksum (unpackHeader (packHeader h)) = hChecksum h"
  by (simp only: unpackHeader_def UnpackedHeader.select_convs, rule bit_word_eqI,
      simp add: packHeader_def bit_simps, (auto dest: bit_imp_le_length)?)

lemmas unpack_pack_fields = unpack_pack_ClassId unpack_pack_State unpack_pack_OriginOrWasZeroed unpack_pack_SizeOrUnusedBytes unpack_pack_Offset unpack_pack_hChecksum

lemma unpack_pack [simp]: "unpackHeader (packHeader h) = h"
  by (rule UnpackedHeader.equality) (simp_all add: unpack_pack_fields)

lemma pack_unpack [simp]: "packHeader (unpackHeader w) = w"
proof (rule bit_word_eqI)
  fix n assume n: "n < LENGTH(64)"
  consider "n < 8" | "8 \<le> n" "n < 10" | "10 \<le> n" "n < 12" | "12 \<le> n" "n < 32"
    | "32 \<le> n" "n < 48" | "48 \<le> n"
    by linarith
  then show "bit (packHeader (unpackHeader w)) n = bit w n"
    using n by cases (simp_all add: unpackHeader_def packHeader_def bit_simps less_diff_conv2)
qed

section \<open>Storing and loading\<close>

type_synonym header_heap = "uptr \<Rightarrow> u64"

text \<open>The build-wide choices the checksum depends on: the algorithm and the CRC instruction.\<close>

record hash_env =
  HashAlgorithm :: Checksum
  hwCRC32 :: "u32 \<Rightarrow> uptr \<Rightarrow> u32"

definition getAtomicHeader :: "uptr \<Rightarrow> uptr" where
  "getAtomicHeader Ptr = Ptr - getHeaderSize"

definition computeHeaderChecksum :: "hash_env \<Rightarrow> u32 \<Rightarrow> uptr \<Rightarrow> UnpackedHeader \<Rightarrow> u16" where
  "computeHeaderChecksum env Cookie Ptr Header =
    computeChecksum (HashAlgorithm env) (hwCRC32 env) Cookie Ptr [packHeader (Header\<lparr>hChecksum := 0\<rparr>)]"

definition storeHeader ::
  "hash_env \<Rightarrow> u32 \<Rightarrow> uptr \<Rightarrow> UnpackedHeader \<Rightarrow> header_heap \<Rightarrow> header_heap" where
  "storeHeader env Cookie Ptr NewUnpackedHeader H =
    (let h = NewUnpackedHeader\<lparr>hChecksum := computeHeaderChecksum env Cookie Ptr NewUnpackedHeader\<rparr>
     in H(getAtomicHeader Ptr := packHeader h))"

definition loadHeader ::
  "hash_env \<Rightarrow> u32 \<Rightarrow> uptr \<Rightarrow> header_heap \<Rightarrow> UnpackedHeader result" where
  "loadHeader env Cookie Ptr H =
    (let h = unpackHeader (H (getAtomicHeader Ptr))
     in if hChecksum h \<noteq> computeHeaderChecksum env Cookie Ptr h then Inl (HeaderCorruption Ptr)
        else Inr h)"

definition isValid :: "hash_env \<Rightarrow> u32 \<Rightarrow> uptr \<Rightarrow> header_heap \<Rightarrow> bool \<times> UnpackedHeader" where
  "isValid env Cookie Ptr H =
    (let h = unpackHeader (H (getAtomicHeader Ptr))
     in (hChecksum h = computeHeaderChecksum env Cookie Ptr h, h))"

lemma computeHeaderChecksum_cong [simp]:
  "computeHeaderChecksum env Cookie Ptr (h\<lparr>hChecksum := c\<rparr>) = computeHeaderChecksum env Cookie Ptr h"
  by (simp add: computeHeaderChecksum_def)

section \<open>Detection of corruption by the BSD checksum\<close>

lemma bsd_step_rot: "bsd_step s d = word_rotr 1 s + ucast (d AND 0xff)"
proof -
  have "(drop_bit 1 s) OR (push_bit 15 (s AND 1)) = word_rotr 1 s"
  proof (rule bit_word_eqI)
    fix n assume n: "n < LENGTH(16)"
    have "bit (word_rotr 1 s) n = bit s ((n + 1) mod 16)"
      using n by (simp add: bit_word_rotr_iff)
    moreover have "(n + 1) mod 16 = (if n = 15 then 0 else n + 1)"
      using n by auto
    ultimately show "bit (drop_bit 1 s OR push_bit 15 (s AND 1)) n = bit (word_rotr 1 s) n"
      using n by (auto simp: bit_simps not_le dest: bit_imp_le_length)
  qed
  then show ?thesis by (simp add: bsd_step_def)
qed

lemma bsd_step_inj: "bsd_step s d = bsd_step t d \<longleftrightarrow> s = t"
  by (metis bsd_step_rot add_right_cancel word_rot_rl)

lemma bsd_loop_inj: "bsd_loop n s d = bsd_loop n t d \<longleftrightarrow> s = t"
  by (induction n arbitrary: s t d) (auto simp: bsd_step_inj)

text \<open>A single corrupted byte: byte k of a word is changed by the non-zero difference b.\<close>

definition flip_byte :: "uptr \<Rightarrow> nat \<Rightarrow> u8 \<Rightarrow> uptr" where
  "flip_byte d k b = d XOR push_bit (8 * k) (ucast b)"

lemma ff_mask: "(0xff :: uptr) = mask 8"
  by (simp add: mask_eq_exp_minus_1)

lemma flip_byte_0:
  assumes "b \<noteq> 0"
  shows "bsd_step s (flip_byte d 0 b) \<noteq> bsd_step s d"
proof -
  obtain i where i: "bit b i"
    using assms by (metis bit_eqI bit_0_eq bot_apply bot_bool_def)
  then have i8: "i < 8"
    using bit_imp_le_length [of b i] by simp
  have "bit (ucast (flip_byte d 0 b AND 0xff) :: u16) i \<noteq> bit (ucast (d AND 0xff) :: u16) i"
    unfolding ff_mask using i i8 by (auto simp: flip_byte_def bit_simps)
  then show ?thesis
    by (metis bsd_step_rot add_left_cancel)
qed

lemma flip_byte_drop_0: "drop_bit 8 (flip_byte d 0 b) = drop_bit 8 d"
  by (rule bit_word_eqI) (auto simp: flip_byte_def bit_simps dest: bit_imp_le_length)

lemma flip_byte_Suc_step: "Suc k < 8 \<Longrightarrow> bsd_step s (flip_byte d (Suc k) b) = bsd_step s d"
proof -
  have "flip_byte d (Suc k) b AND 0xff = d AND 0xff"
    unfolding ff_mask by (rule bit_word_eqI) (auto simp: flip_byte_def bit_simps)
  then show ?thesis by (simp add: bsd_step_def)
qed

lemma flip_byte_Suc_drop: "Suc k < 8 \<Longrightarrow> drop_bit 8 (flip_byte d (Suc k) b) = flip_byte (drop_bit 8 d) k b"
proof (rule bit_word_eqI)
  fix n assume "Suc k < 8" "n < LENGTH(64)"
  moreover have "bit b (8 + n - 8 * Suc k) \<longleftrightarrow> bit b (n - 8 * k)" by simp
  ultimately show "bit (drop_bit 8 (flip_byte d (Suc k) b)) n = bit (flip_byte (drop_bit 8 d) k b) n"
    using bit_imp_le_length [of b "n - 8 * k"]
    by (auto simp: flip_byte_def bit_simps)
qed

lemma bsd_loop_flip_byte:
  "b \<noteq> 0 \<Longrightarrow> k < n \<Longrightarrow> n \<le> 8 \<Longrightarrow> bsd_loop n s (flip_byte d k b) \<noteq> bsd_loop n s d"
proof (induction n arbitrary: k s d)
  case (Suc n)
  then show ?case
    by (cases k) (auto simp: flip_byte_drop_0 bsd_loop_inj flip_byte_0 flip_byte_Suc_step flip_byte_Suc_drop)
qed simp

lemma computeBSDChecksum_flip_byte:
  "b \<noteq> 0 \<Longrightarrow> k < 8 \<Longrightarrow> computeBSDChecksum s (flip_byte d k b) \<noteq> computeBSDChecksum s d"
  unfolding computeBSDChecksum_def by (rule bsd_loop_flip_byte) auto

lemma computeBSDChecksum_inj: "computeBSDChecksum s d = computeBSDChecksum t d \<longleftrightarrow> s = t"
  by (simp add: computeBSDChecksum_def bsd_loop_inj)

lemma computeHeaderChecksum_BSD:
  "HashAlgorithm env = BSD \<Longrightarrow> computeHeaderChecksum env c p h =
    computeBSDChecksum (computeBSDChecksum (ucast c) p) (packHeader (h\<lparr>hChecksum := 0\<rparr>))"
  by (simp add: computeHeaderChecksum_def computeChecksum_def)

lemma pack_no_checksum: "packHeader (h\<lparr>hChecksum := 0\<rparr>) = packHeader h AND mask 48"
proof (rule bit_word_eqI)
  fix n assume n: "n < LENGTH(64)"
  have len: "bit (Offset h) i \<Longrightarrow> i < 16" "bit (SizeOrUnusedBytes h) i \<Longrightarrow> i < 20" "bit (ClassId h) i \<Longrightarrow> i < 8"
    "bit (State h) i \<Longrightarrow> i < 2" "bit (OriginOrWasZeroed h) i \<Longrightarrow> i < 2" for i
    by (auto dest: bit_imp_le_length)
  show "bit (packHeader (h\<lparr>hChecksum := 0\<rparr>)) n = bit (packHeader h AND mask 48) n"
    using n by (cases "n < 48") (auto simp: packHeader_def bit_simps less_diff_conv2 dest!: len)
qed

lemma flip_byte_fields_low:
  assumes "k < 6"
  shows "hChecksum (unpackHeader (flip_byte w k b)) = hChecksum (unpackHeader w)"
    and "packHeader ((unpackHeader (flip_byte w k b))\<lparr>hChecksum := 0\<rparr>) =
      flip_byte (packHeader ((unpackHeader w)\<lparr>hChecksum := 0\<rparr>)) k b"
proof -
  have b: "\<not> bit b i" if "8 \<le> i" for i
    using that bit_imp_le_length [of b i] by auto
  show "hChecksum (unpackHeader (flip_byte w k b)) = hChecksum (unpackHeader w)"
    using assms b
    by (simp add: unpackHeader_def flip_byte_def) (rule bit_word_eqI, auto simp: bit_simps)
  show "packHeader ((unpackHeader (flip_byte w k b))\<lparr>hChecksum := 0\<rparr>) =
      flip_byte (packHeader ((unpackHeader w)\<lparr>hChecksum := 0\<rparr>)) k b"
    unfolding pack_no_checksum pack_unpack flip_byte_def using assms
    by (intro bit_word_eqI) (auto simp: bit_simps dest: bit_imp_le_length [of b])
qed

lemma flip_byte_fields_high:
  assumes "6 \<le> k" "k < 8" "b \<noteq> 0"
  shows "hChecksum (unpackHeader (flip_byte w k b)) \<noteq> hChecksum (unpackHeader w)"
    and "packHeader ((unpackHeader (flip_byte w k b))\<lparr>hChecksum := 0\<rparr>) =
      packHeader ((unpackHeader w)\<lparr>hChecksum := 0\<rparr>)"
proof -
  obtain i where i: "bit b i"
    using assms(3) by (metis bit_eqI bit_0_eq bot_apply bot_bool_def)
  then have i8: "i < 8"
    using bit_imp_le_length [of b i] by simp
  let ?m = "8 * (k - 6) + i"
  have m: "?m < 16" "48 + ?m = 8 * k + i" using assms i8 by auto
  have "8 * k + i < 64" using assms i8 by auto
  then have "bit (flip_byte w k b) (8 * k + i) \<noteq> bit w (8 * k + i)"
    using i i8 by (auto simp: flip_byte_def bit_simps)
  moreover have "bit (hChecksum (unpackHeader v)) ?m = bit v (8 * k + i)" for v
    unfolding m(2) [symmetric] using m(1) by (simp add: unpackHeader_def bit_simps)
  ultimately have "bit (hChecksum (unpackHeader (flip_byte w k b))) ?m \<noteq> bit (hChecksum (unpackHeader w)) ?m"
    by simp
  then show "hChecksum (unpackHeader (flip_byte w k b)) \<noteq> hChecksum (unpackHeader w)"
    by auto
  show "packHeader ((unpackHeader (flip_byte w k b))\<lparr>hChecksum := 0\<rparr>) =
      packHeader ((unpackHeader w)\<lparr>hChecksum := 0\<rparr>)"
    unfolding pack_no_checksum pack_unpack flip_byte_def using assms
    by (intro bit_word_eqI) (auto simp: bit_simps)
qed

lemma getHeaderSize_16: "getHeaderSize = 16"
  by (simp add: getHeaderSize_def roundUp_def)

section \<open>Properties\<close>

text \<open>C25: A header that storeHeader writes is read back by loadHeader without a report, with every
  field as it was stored and the checksum filled in; the 64-bit packing loses no field; and the
  headers at other addresses are untouched.\<close>

theorem storeHeader_loadHeader:
  "loadHeader env c p (storeHeader env c p h H) = Inr (h\<lparr>hChecksum := computeHeaderChecksum env c p h\<rparr>) \<and>
   fst (isValid env c p (storeHeader env c p h H)) \<and>
   unpackHeader (packHeader h) = h \<and> packHeader (unpackHeader w) = w \<and>
   (q \<noteq> p \<longrightarrow> loadHeader env c q (storeHeader env c p h H) = loadHeader env c q H)"
  by (auto simp: loadHeader_def storeHeader_def isValid_def Let_def getAtomicHeader_def)

theorem storeHeader_loadHeader_witness:
  "loadHeader \<lparr>HashAlgorithm = BSD, hwCRC32 = (\<lambda>c _. c)\<rparr> 77 4096
     (storeHeader \<lparr>HashAlgorithm = BSD, hwCRC32 = (\<lambda>c _. c)\<rparr> 77 8192 (unpackHeader 5) (\<lambda>_. 0)) =
   loadHeader \<lparr>HashAlgorithm = BSD, hwCRC32 = (\<lambda>c _. c)\<rparr> 77 4096 (\<lambda>_. 0)"
  using storeHeader_loadHeader [of "\<lparr>HashAlgorithm = BSD, hwCRC32 = (\<lambda>c _. c)\<rparr>" 77 8192 "unpackHeader 5" "\<lambda>_. 0" 0 4096]
  by simp

text \<open>C26: With the BSD algorithm, changing any single byte of a valid packed header (the checksum
  included) by any amount is detected: loadHeader reports a corruption instead of returning.\<close>

theorem header_corruption_detected:
  assumes "HashAlgorithm env = BSD" and "loadHeader env c p H = Inr h" and "k < 8" and "b \<noteq> 0"
  shows "loadHeader env c p (H(getAtomicHeader p := flip_byte (H (getAtomicHeader p)) k b)) = Inl (HeaderCorruption p)"
proof -
  let ?w = "H (getAtomicHeader p)"
  have valid: "hChecksum (unpackHeader ?w) = computeHeaderChecksum env c p (unpackHeader ?w)"
    using assms(2) by (auto simp: loadHeader_def Let_def split: if_splits)
  show ?thesis
  proof (cases "k < 6")
    case True
    then show ?thesis
      using valid computeBSDChecksum_flip_byte [OF assms(4,3), symmetric]
      by (simp add: loadHeader_def computeHeaderChecksum_BSD [OF assms(1)] flip_byte_fields_low)
  next
    case False
    then show ?thesis
      using valid flip_byte_fields_high [of k b ?w] assms(3,4)
      by (simp add: loadHeader_def computeHeaderChecksum_BSD [OF assms(1)])
  qed
qed

theorem header_corruption_detected_witness:
  "\<exists>H w. loadHeader \<lparr>HashAlgorithm = BSD, hwCRC32 = (\<lambda>c _. c)\<rparr> 77 4096
     (H(getAtomicHeader 4096 := w)) = Inl (HeaderCorruption 4096)"
  by (intro exI, rule header_corruption_detected [where k = 1 and b = 4 and H =
      "storeHeader \<lparr>HashAlgorithm = BSD, hwCRC32 = (\<lambda>c _. c)\<rparr> 77 4096 (unpackHeader 0x151) (\<lambda>_. 0)"])
    (auto simp: loadHeader_def storeHeader_def Let_def)

text \<open>With the BSD algorithm a header is bound to its chunk and to the process: the bytes of a
  header valid at one pointer are rejected at a pointer that differs in one byte, and under a
  cookie whose low 16 bits differ.\<close>

theorem header_bound_to_pointer_and_cookie:
  assumes "HashAlgorithm env = BSD" and "loadHeader env c p H = Inr h"
  shows "(\<forall>k b. k < 8 \<longrightarrow> b \<noteq> 0 \<longrightarrow>
      loadHeader env c (flip_byte p k b) (\<lambda>_. H (getAtomicHeader p)) = Inl (HeaderCorruption (flip_byte p k b))) \<and>
    (\<forall>c'. (ucast c' :: u16) \<noteq> ucast c \<longrightarrow> loadHeader env c' p H = Inl (HeaderCorruption p))"
  using assms(2) computeBSDChecksum_flip_byte [symmetric]
  by (auto simp: loadHeader_def Let_def computeHeaderChecksum_BSD [OF assms(1)] computeBSDChecksum_inj
      split: if_splits)

theorem header_bound_to_pointer_and_cookie_witness:
  "loadHeader \<lparr>HashAlgorithm = BSD, hwCRC32 = (\<lambda>c _. c)\<rparr> 78 4096
     (storeHeader \<lparr>HashAlgorithm = BSD, hwCRC32 = (\<lambda>c _. c)\<rparr> 77 4096 (unpackHeader 0x151) (\<lambda>_. 0))
   = Inl (HeaderCorruption 4096)"
  using header_bound_to_pointer_and_cookie [of "\<lparr>HashAlgorithm = BSD, hwCRC32 = (\<lambda>c _. c)\<rparr>" 77 4096
      "storeHeader \<lparr>HashAlgorithm = BSD, hwCRC32 = (\<lambda>c _. c)\<rparr> 77 4096 (unpackHeader 0x151) (\<lambda>_. 0)"]
  by (auto simp: loadHeader_def storeHeader_def Let_def)

end
