(* ===== verification/Memory.thy ===== *)
theory Memory
  imports Chunk Mem_Map
begin

text \<open>The memory of the process: a byte at each address, read and written as little-endian words, and the
  effect on it of what the allocators ask of the platform. The operations on chunk headers of Chunk work
  on its 64-bit words.\<close>

section \<open>Bytes and words\<close>

type_synonym memory = "uptr \<Rightarrow> u8"

definition bytes_at :: "uptr \<Rightarrow> nat \<Rightarrow> uptr set" where
  "bytes_at a n = {x. unat (x - a) < n}"

definition write_bytes :: "uptr \<Rightarrow> u8 list \<Rightarrow> memory \<Rightarrow> memory" where
  "write_bytes a bs m = (\<lambda>x. if unat (x - a) < List.length bs then bs ! unat (x - a) else m x)"

definition read_bytes :: "uptr \<Rightarrow> nat \<Rightarrow> memory \<Rightarrow> u8 list" where
  "read_bytes a n m = map (\<lambda>i. m (a + of_nat i)) [0..<n]"

definition to_bytes :: "nat \<Rightarrow> u64 \<Rightarrow> u8 list" where
  "to_bytes n w = map (\<lambda>i. ucast (drop_bit (8 * i) w)) [0..<n]"

fun of_bytes :: "u8 list \<Rightarrow> u64" where
  "of_bytes [] = 0"
| "of_bytes (b # bs) = ucast b OR push_bit 8 (of_bytes bs)"

definition read64 :: "memory \<Rightarrow> uptr \<Rightarrow> u64" where
  "read64 m a = of_bytes (read_bytes a 8 m)"

definition write64 :: "uptr \<Rightarrow> u64 \<Rightarrow> memory \<Rightarrow> memory" where
  "write64 a w = write_bytes a (to_bytes 8 w)"

definition read32 :: "memory \<Rightarrow> uptr \<Rightarrow> u32" where
  "read32 m a = ucast (of_bytes (read_bytes a 4 m))"

definition write32 :: "uptr \<Rightarrow> u32 \<Rightarrow> memory \<Rightarrow> memory" where
  "write32 a w = write_bytes a (to_bytes 4 (ucast w))"

definition memset :: "uptr \<Rightarrow> u8 \<Rightarrow> uptr \<Rightarrow> memory \<Rightarrow> memory" where
  "memset a b n m = (\<lambda>x. if unat (x - a) < unat n then b else m x)"

definition memcpy :: "uptr \<Rightarrow> uptr \<Rightarrow> uptr \<Rightarrow> memory \<Rightarrow> memory" where
  "memcpy dst src n m = (\<lambda>x. if unat (x - dst) < unat n then m (src + (x - dst)) else m x)"

text \<open>Fresh mappings and released pages read as zero.\<close>

fun event_memory :: "os_event \<Rightarrow> memory \<Rightarrow> memory" where
  "event_memory (Map M) = memset (mBase M) 0 (mCapacity M)"
| "event_memory (ReleaseAndZero M b n) = memset b 0 n"
| "event_memory (Remap M b n f) = memset b 0 n"
| "event_memory (MemSet b v n) = memset b v n"
| "event_memory _ = id"

definition events_memory :: "os_event list \<Rightarrow> memory \<Rightarrow> memory" where
  "events_memory ev = fold event_memory ev"

section \<open>Agreement on a set of addresses\<close>

definition same_on :: "uptr set \<Rightarrow> memory \<Rightarrow> memory \<Rightarrow> bool" where
  "same_on X m m' \<longleftrightarrow> (\<forall>x\<in>X. m' x = m x)"

lemma same_on_refl [simp]: "same_on X m m"
  by (simp add: same_on_def)

lemma same_on_trans: "same_on X m m' \<Longrightarrow> same_on X m' m'' \<Longrightarrow> same_on X m m''"
  by (simp add: same_on_def)

lemma same_on_mono: "same_on X m m' \<Longrightarrow> Y \<subseteq> X \<Longrightarrow> same_on Y m m'"
  by (auto simp: same_on_def)

lemma in_bytes_at:
  assumes "unat a + n \<le> 2 ^ 64"
  shows "x \<in> bytes_at a n \<longleftrightarrow> unat a \<le> unat x \<and> unat x < unat a + n"
proof -
  have "unat (x - a) = (if unat a \<le> unat x then unat x - unat a else unat x + 2 ^ 64 - unat a)"
    by (simp add: unat_sub_if_size word_size)
  then show ?thesis using assms unat_less_exp [of a] by (auto simp: bytes_at_def)
qed

lemma bytes_at_disjoint:
  "\<lbrakk> unat a + n \<le> unat b; unat b + k \<le> 2 ^ 64 \<rbrakk> \<Longrightarrow> bytes_at a n \<inter> bytes_at b k = {}"
  by (auto simp: in_bytes_at)

lemma bytes_at_subset:
  "\<lbrakk> unat b \<le> unat a; unat a + n \<le> unat b + k; unat b + k \<le> 2 ^ 64 \<rbrakk> \<Longrightarrow> bytes_at a n \<subseteq> bytes_at b k"
  by (auto simp: in_bytes_at)

lemma write_bytes_same_on: "X \<inter> bytes_at a (List.length bs) = {} \<Longrightarrow> same_on X m (write_bytes a bs m)"
  by (auto simp: same_on_def write_bytes_def bytes_at_def)

lemma memset_same_on: "X \<inter> bytes_at a (unat n) = {} \<Longrightarrow> same_on X m (memset a b n m)"
  by (auto simp: same_on_def memset_def bytes_at_def)

lemma memcpy_same_on: "X \<inter> bytes_at a (unat n) = {} \<Longrightarrow> same_on X m (memcpy a s n m)"
  by (auto simp: same_on_def memcpy_def bytes_at_def)

lemma write64_same_on: "X \<inter> bytes_at a 8 = {} \<Longrightarrow> same_on X m (write64 a w m)"
  unfolding write64_def by (rule write_bytes_same_on) (simp add: to_bytes_def)

lemma write32_same_on: "X \<inter> bytes_at a 4 = {} \<Longrightarrow> same_on X m (write32 a w m)"
  unfolding write32_def by (rule write_bytes_same_on) (simp add: to_bytes_def)

lemma read_bytes_same:
  assumes "same_on (bytes_at a n) m m'" and "n \<le> 2 ^ 64"
  shows "read_bytes a n m' = read_bytes a n m"
proof -
  have "a + of_nat i \<in> bytes_at a n" if "i < n" for i
    using that assms(2) by (simp add: bytes_at_def unat_of_nat)
  then show ?thesis using assms(1) by (auto simp: read_bytes_def same_on_def)
qed

lemma read64_same: "same_on (bytes_at a 8) m m' \<Longrightarrow> read64 m' a = read64 m a"
  by (simp add: read64_def read_bytes_same)

lemma read32_same: "same_on (bytes_at a 4) m m' \<Longrightarrow> read32 m' a = read32 m a"
  by (simp add: read32_def read_bytes_same)

section \<open>Reading what was written\<close>

lemma read_write_bytes: "List.length bs \<le> 2 ^ 64 \<Longrightarrow> read_bytes a (List.length bs) (write_bytes a bs m) = bs"
  by (intro nth_equalityI) (simp_all add: read_bytes_def write_bytes_def unat_of_nat)

lemma of_to_bytes: "of_bytes (map (\<lambda>i. ucast (drop_bit (8 * i) w)) [j..<j + n]) = take_bit (8 * n) (drop_bit (8 * j) w)"
proof (induction n arbitrary: j)
  case (Suc n)
  have "[j..<j + Suc n] = j # [Suc j..<Suc j + n]" by (simp add: upt_conv_Cons)
  then have "of_bytes (map (\<lambda>i. ucast (drop_bit (8 * i) w)) [j..<j + Suc n]) =
      ucast (ucast (drop_bit (8 * j) w) :: u8) OR push_bit 8 (take_bit (8 * n) (drop_bit (8 * Suc j) w))"
    using Suc [of "Suc j"] by simp
  also have "\<dots> = take_bit (8 * Suc n) (drop_bit (8 * j) w)"
    by (rule bit_word_eqI) (auto simp: bit_simps dest: bit_imp_le_length)
  finally show ?case .
qed simp

lemma of_to_bytes_0: "of_bytes (to_bytes n w) = take_bit (8 * n) w"
  using of_to_bytes [of w 0 n] by (simp add: to_bytes_def)

lemma read64_write64 [simp]: "read64 (write64 a w m) a = w"
proof -
  have "List.length (to_bytes 8 w) = 8" by (simp add: to_bytes_def)
  then have "read64 (write64 a w m) a = of_bytes (to_bytes 8 w)"
    using read_write_bytes [of "to_bytes 8 w" a m] by (simp add: read64_def write64_def)
  then show ?thesis by (simp add: of_to_bytes_0 take_bit_word_eq_self)
qed

lemma read32_write32 [simp]: "read32 (write32 a w m) a = w"
proof -
  have "List.length (to_bytes 4 (ucast w)) = 4" by (simp add: to_bytes_def)
  then have "read32 (write32 a w m) a = ucast (of_bytes (to_bytes 4 (ucast w)))"
    using read_write_bytes [of "to_bytes 4 (ucast w)" a m] by (simp add: read32_def write32_def)
  also have "\<dots> = w" unfolding of_to_bytes_0 by (rule bit_word_eqI) (auto simp: bit_simps dest: bit_imp_le_length)
  finally show ?thesis .
qed

section \<open>Chunk headers in memory\<close>

definition words :: "memory \<Rightarrow> header_heap" where
  "words m = (\<lambda>a. read64 m a)"

definition mem_storeHeader :: "hash_env \<Rightarrow> u32 \<Rightarrow> uptr \<Rightarrow> UnpackedHeader \<Rightarrow> memory \<Rightarrow> memory" where
  "mem_storeHeader env Cookie Ptr H m = write64 (getAtomicHeader Ptr) (storeHeader env Cookie Ptr H (words m) (getAtomicHeader Ptr)) m"

text \<open>The header that a chunk has: it is stored with its checksum.\<close>

definition has_header :: "hash_env \<Rightarrow> u32 \<Rightarrow> uptr \<Rightarrow> UnpackedHeader \<Rightarrow> memory \<Rightarrow> bool" where
  "has_header env Cookie Ptr H m \<longleftrightarrow> words m (getAtomicHeader Ptr) = packHeader (H\<lparr>hChecksum := computeHeaderChecksum env Cookie Ptr H\<rparr>)"

lemma has_header_stored: "has_header env Cookie Ptr H (mem_storeHeader env Cookie Ptr H m)"
  by (simp add: has_header_def mem_storeHeader_def words_def storeHeader_def Let_def)

lemma stored_same_on: "X \<inter> bytes_at (getAtomicHeader Ptr) 8 = {} \<Longrightarrow> same_on X m (mem_storeHeader env Cookie Ptr H m)"
  unfolding mem_storeHeader_def by (rule write64_same_on)

lemma has_header_same:
  "has_header env Cookie Ptr H m \<Longrightarrow> same_on (bytes_at (getAtomicHeader Ptr) 8) m m' \<Longrightarrow> has_header env Cookie Ptr H m'"
  by (simp add: has_header_def words_def read64_same)

lemma has_header_loads:
  assumes "has_header env Cookie Ptr H m"
  shows "loadHeader env Cookie Ptr (words m) = Inr (H\<lparr>hChecksum := computeHeaderChecksum env Cookie Ptr H\<rparr>)"
    and "isValid env Cookie Ptr (words m) = (True, H\<lparr>hChecksum := computeHeaderChecksum env Cookie Ptr H\<rparr>)"
  using assms by (simp_all add: has_header_def loadHeader_def isValid_def unpack_pack Let_def)

section \<open>Events\<close>

text \<open>The bytes that an event can change.\<close>

fun event_bytes :: "os_event \<Rightarrow> uptr set" where
  "event_bytes (Map M) = bytes_at (mBase M) (unat (mCapacity M))"
| "event_bytes (ReleaseAndZero M b n) = bytes_at b (unat n)"
| "event_bytes (Remap M b n f) = bytes_at b (unat n)"
| "event_bytes (MemSet b v n) = bytes_at b (unat n)"
| "event_bytes _ = {}"

definition events_bytes :: "os_event list \<Rightarrow> uptr set" where
  "events_bytes ev = (\<Union>e\<in>set ev. event_bytes e)"

lemma events_bytes_simps [simp]:
  "events_bytes [] = {}" "events_bytes (e # ev) = event_bytes e \<union> events_bytes ev" "events_bytes (ev @ ev') = events_bytes ev \<union> events_bytes ev'"
  by (simp_all add: events_bytes_def)

lemma event_same_on: "X \<inter> event_bytes e = {} \<Longrightarrow> same_on X m (event_memory e m)"
  by (cases e) (simp_all add: memset_same_on)

lemma events_same_on: "X \<inter> events_bytes ev = {} \<Longrightarrow> same_on X m (events_memory ev m)"
proof (induction ev arbitrary: m)
  case (Cons e ev)
  then have "same_on X m (event_memory e m)" "same_on X (event_memory e m) (events_memory ev (event_memory e m))"
    using event_same_on [of X e m] by auto
  then have "same_on X m (events_memory ev (event_memory e m))" by (rule same_on_trans)
  then show ?case by (simp add: events_memory_def)
qed (simp add: events_memory_def)

end
