(* ===== verification/Secondary_Events.thy ===== *)
theory Secondary_Events
  imports Secondary Memory
begin

text \<open>Which memory the secondary allocator and its cache change: what is mapped, zeroed and released
  lies in the mappings of the blocks concerned.\<close>

section \<open>Mappings as sets of addresses\<close>

definition map_bytes :: "mem_map \<Rightarrow> uptr set" where
  "map_bytes m = bytes_at (mBase m) (unat (mCapacity m))"

definition maps_bytes :: "mem_map multiset \<Rightarrow> uptr set" where
  "maps_bytes K = (\<Union>m\<in>set_mset K. map_bytes m)"

lemma maps_bytes_simps [simp]:
  "maps_bytes {#} = {}" "maps_bytes (add_mset m K) = map_bytes m \<union> maps_bytes K" "maps_bytes (K + L) = maps_bytes K \<union> maps_bytes L"
  by (auto simp: maps_bytes_def)

definition in_map :: "mem_map \<Rightarrow> uptr \<Rightarrow> uptr \<Rightarrow> bool" where
  "in_map m b s \<longleftrightarrow> unat (mBase m) \<le> unat b \<and> unat b + unat s \<le> unat (mBase m) + unat (mCapacity m) \<and>
    unat (mBase m) + unat (mCapacity m) < 2 ^ 48"

lemma in_map_bytes: "in_map m b s \<Longrightarrow> bytes_at b (unat s) \<subseteq> map_bytes m"
  unfolding map_bytes_def by (rule bytes_at_subset) (simp_all add: in_map_def)

lemma unat_in_map_bytes:
  "unat (mBase m) + unat (mCapacity m) \<le> 2 ^ 64 \<Longrightarrow> x \<in> map_bytes m \<longleftrightarrow> unat x \<in> {unat (mBase m)..<unat (mBase m) + unat (mCapacity m)}"
  by (simp add: map_bytes_def in_bytes_at)

section \<open>Mapping\<close>

lemma mapSecondary_bytes:
  "mapSecondary env False B Z A F M = (ok, ev) \<Longrightarrow> events_bytes ev = bytes_at B (unat Z)"
  by (auto simp: mapSecondary_def remap_def Let_def split: if_splits)

lemma unmap_bytes: "events_bytes (map Unmap ms) = {}"
  by (induction ms) simp_all

section \<open>Releasing old entries\<close>

text \<open>The committed bytes of a valid entry.\<close>

definition valid_bytes :: "CachedBlock \<Rightarrow> uptr set" where
  "valid_bytes E = (if isValidBlock E then bytes_at (cCommitBase E) (unat (cCommitSize E)) else {})"

lemma valid_bytes_timeless: "timeless E = timeless F \<Longrightarrow> valid_bytes E = valid_bytes F"
  by (cases E; cases F) (simp add: timeless_def valid_bytes_def isValidBlock_def)

lemma releaseIfOlderThan_bytes: "releaseIfOlderThan T E old = (E', old', ev) \<Longrightarrow> events_bytes ev \<subseteq> valid_bytes E"
  by (auto simp: releaseIfOlderThan_def valid_bytes_def split: if_splits)

lemma release_entry_bytes:
  assumes "release_entry T i (C, ev) = (C', ev')"
  shows "events_bytes ev' \<subseteq> events_bytes ev \<union> valid_bytes (cEntries C i)"
    and "valid_bytes (cEntries C' j) = valid_bytes (cEntries C j)"
proof -
  obtain E' old' e where r: "releaseIfOlderThan T (cEntries C i) (OldestTime C) = (E', old', e)" by (rule prod_cases3)
  show "events_bytes ev' \<subseteq> events_bytes ev \<union> valid_bytes (cEntries C i)"
    using assms releaseIfOlderThan_bytes [OF r] by (auto simp: release_entry_def r)
  have "time_rel (C, ev) (C', ev')" using release_step_rel(1) [of "(C, ev)" T i] by (simp add: assms)
  then show "valid_bytes (cEntries C' j) = valid_bytes (cEntries C j)"
    by (intro valid_bytes_timeless) (simp add: time_rel_def)
qed

lemma release_entries_bytes:
  "fold (release_entry T) is (C, ev) = (C', ev') \<Longrightarrow> events_bytes ev' \<subseteq> events_bytes ev \<union> (\<Union>i\<in>set is. valid_bytes (cEntries C i))"
proof (induction "is" arbitrary: C ev)
  case (Cons i "is")
  obtain C1 ev1 where r: "release_entry T i (C, ev) = (C1, ev1)" by fastforce
  have "events_bytes ev' \<subseteq> events_bytes ev1 \<union> (\<Union>j\<in>set is. valid_bytes (cEntries C1 j))"
    by (rule Cons.IH) (use Cons.prems r in simp)
  then show ?case using release_entry_bytes [OF r] by auto
qed simp

lemma release_quarantine_bytes:
  assumes "release_quarantine T i (C, ev) = (C', ev')"
  shows "events_bytes ev' \<subseteq> events_bytes ev \<union> valid_bytes (cQuarantine C i)"
    and "valid_bytes (cQuarantine C' j) = valid_bytes (cQuarantine C j)" and "cEntries C' = cEntries C"
proof -
  obtain E' old' e where r: "releaseIfOlderThan T (cQuarantine C i) (OldestTime C) = (E', old', e)" by (rule prod_cases3)
  show "events_bytes ev' \<subseteq> events_bytes ev \<union> valid_bytes (cQuarantine C i)" "cEntries C' = cEntries C"
    using assms releaseIfOlderThan_bytes [OF r] by (auto simp: release_quarantine_def r)
  have "time_rel (C, ev) (C', ev')" using release_step_rel(2) [of "(C, ev)" T i] by (simp add: assms)
  then show "valid_bytes (cQuarantine C' j) = valid_bytes (cQuarantine C j)"
    by (intro valid_bytes_timeless) (simp add: time_rel_def)
qed

lemma release_quarantines_bytes:
  "fold (release_quarantine T) is (C, ev) = (C', ev') \<Longrightarrow>
    events_bytes ev' \<subseteq> events_bytes ev \<union> (\<Union>i\<in>set is. valid_bytes (cQuarantine C i)) \<and> cEntries C' = cEntries C"
proof (induction "is" arbitrary: C ev)
  case (Cons i "is")
  obtain C1 ev1 where r: "release_quarantine T i (C, ev) = (C1, ev1)" by fastforce
  have "events_bytes ev' \<subseteq> events_bytes ev1 \<union> (\<Union>j\<in>set is. valid_bytes (cQuarantine C1 j)) \<and> cEntries C' = cEntries C1"
    by (rule Cons.IH) (use Cons.prems r in simp)
  then show ?case using release_quarantine_bytes [OF r] by auto
qed simp

lemma releaseOlderThan_bytes:
  assumes "releaseOlderThan cfg T C = (C', ev)"
  shows "events_bytes ev \<subseteq> (\<Union>i\<in>{..<EntriesArraySize cfg}. valid_bytes (cEntries C i)) \<union> (\<Union>i\<in>{..<QuarantineSize cfg}. valid_bytes (cQuarantine C i))"
proof (cases "Size (LRUEntries C) = 0 \<or> OldestTime C = 0 \<or> T < OldestTime C")
  case True
  then show ?thesis using assms by (simp add: releaseOlderThan_def)
next
  case False
  obtain C1 ev1 where q: "fold (release_quarantine T) [0..<QuarantineSize cfg] (C\<lparr>OldestTime := 0\<rparr>, []) = (C1, ev1)" by fastforce
  have "fold (release_entry T) [0..<EntriesArraySize cfg] (C1, ev1) = (C', ev)"
    using assms by (simp add: releaseOlderThan_def if_not_P [OF False] q)
  from release_entries_bytes [OF this] release_quarantines_bytes [OF q] show ?thesis by (auto simp: atLeast0LessThan)
qed

section \<open>retrieve and store of a cache without tagging\<close>

definition lru_of :: "cache \<Rightarrow> nat list" where
  "lru_of C = map the (il_iter cop (cLinks C) (LRUEntries C))"

lemma lru_of: "cache_inv cfg lru av C \<Longrightarrow> lru_of C = lru"
  using idx.iter_refines [of EndOfListVal "cLinks C" "LRUEntries C" "map Some lru"]
  by (simp add: lru_of_def cache_inv_def dl_abs_def comp_def)

lemma cache_remove_quarantine:
  assumes "cache_remove i C = Inr C'"
  shows "cQuarantine C' = cQuarantine C"
proof -
  obtain s l where d: "dl_remove cop (Some i) (cLinks C, LRUEntries C) = Inr (s, l)"
    using assms by (cases "dl_remove cop (Some i) (cLinks C, LRUEntries C)") (auto simp: cache_remove_def)
  obtain s' l' where p: "sl_push_front cop (Some i) (s, AvailEntries C) = (s', l')" by fastforce
  have "C' = C\<lparr>cEntries := (cEntries C)(i := invalidate (cEntries C i)), cLinks := s', LRUEntries := l, AvailEntries := l'\<rparr>"
    using assms by (simp add: cache_remove_def d p)
  then show ?thesis by simp
qed

lemma cache_retrieve_quarantine: "cache_retrieve env MP Sz Al Hs C = Inr (E, pos, C', ev) \<Longrightarrow> cQuarantine C' = cQuarantine C"
  by (auto simp: cache_retrieve_def Let_def dest!: cache_remove_quarantine split: if_splits option.splits prod.splits)

lemma cache_scan_among:
  "cache_scan env MP Sz Al Hs Es is (D, R, pos) = (D', R', pos') \<Longrightarrow> R' = R \<or> (\<exists>i\<in>set is. R' = Some i)"
  by (induction "is" arbitrary: D R pos) (auto simp: Let_def split: if_splits)

lemma cache_retrieve_kinds:
  assumes inv: "cache_inv cfg (lru_of C) av C" and r: "cache_retrieve env MP Sz Al Hs C = Inr (E, pos, C', ev)"
  shows "isValidBlock E \<and> ev = fragment_release env pos E \<or> \<not> isValidBlock E \<and> ev = []"
proof -
  have nb: "\<not> isValidBlock no_block" "fragment_release env pos no_block = []"
    by (simp_all add: no_block_def isValidBlock_def fragment_release_def)
  obtain D R p where sc: "cache_scan env MP Sz Al Hs (cEntries C) (lru_of C) (- 1, None, 0) = (D, R, p)" by (rule prod_cases3)
  consider "E = no_block" "ev = fragment_release env pos no_block \<or> ev = []"
    | i where "R = Some i" "E = cEntries C i" "ev = fragment_release env pos E"
    using r sc by (auto simp: cache_retrieve_def Let_def lru_of_def split: if_splits option.splits)
  then show ?thesis
  proof cases
    case 1
    then show ?thesis using nb by auto
  next
    case 2
    then have "i \<in> set (lru_of C)" using cache_scan_among [OF sc] by auto
    then show ?thesis using 2 inv by (simp add: cache_inv_def)
  qed
qed

lemma cache_store_plain:
  "cache_store env cfg False B S BB M C = bindR (insert_lru env \<lparr> cCommitBase = B, cCommitSize = S, cBlockBegin = BB, cMemMap = M, cTime = now env \<rparr> C)
     (\<lambda>(V, C1). Inr (store_finish cfg (ReleaseToOsIntervalMs C) (now env) [] (vec_list V) C1))"
  by (simp add: cache_store_def new_entry_def Let_def)

lemma cache_store_bytes:
  assumes inv: "cache_inv cfg lru av C" and m: "MaxEntriesCount C \<noteq> 0" and B: "B \<noteq> 0"
    and env: "page_ok env" "\<forall>n. growOk env n" and r: "cache_store env cfg False B S BB M C = Inr (C', ev)"
  shows "events_bytes ev \<subseteq> bytes_at B (unat S) \<union> (\<Union>E\<in>set (cached lru C). valid_bytes E) \<union> (\<Union>i\<in>{..<QuarantineSize cfg}. valid_bytes (cQuarantine C i))"
    and "isValidBlock (cQuarantine C' i) = isValidBlock (cQuarantine C i)"
proof -
  let ?E = "\<lparr> cCommitBase = B, cCommitSize = S, cBlockBegin = BB, cMemMap = M, cTime = now env \<rparr>" and ?I = "ReleaseToOsIntervalMs C"
  have v: "isValidBlock ?E" using B by (simp add: isValidBlock_def)
  obtain V C1 j av' where i: "insert_lru env ?E C = Inr (V, C1)" "cache_inv cfg (j # take (unat (MaxEntriesCount C) - 1) lru) av' C1"
    "cached (j # take (unat (MaxEntriesCount C) - 1) lru) C1 = ?E # cached (take (unat (MaxEntriesCount C) - 1) lru) C" "cQuarantine C1 = cQuarantine C"
    using insert_lru_inv [OF inv m v env] by blast
  have f: "store_finish cfg ?I (now env) [] (vec_list V) C1 = (C', ev)" using r by (simp add: cache_store_plain i(1))
  have fin: "events_bytes ev \<subseteq> (\<Union>i\<in>{..<EntriesArraySize cfg}. valid_bytes (cEntries C1 i)) \<union> (\<Union>i\<in>{..<QuarantineSize cfg}. valid_bytes (cQuarantine C i)) \<and>
    time_rel (C1, []) (C', [])"
  proof (cases "0 \<le> ?I")
    case False
    then show ?thesis using f by (auto simp: store_finish_def unmap_bytes time_rel_refl)
  next
    case True
    obtain C2 e where g: "releaseOlderThan cfg (now env - of_int ?I * 1000000) C1 = (C2, e)" by fastforce
    have t: "time_rel (C1, []) (C2, e)" using releaseOlderThan_rel [of C1 cfg "now env - of_int ?I * 1000000"] by (simp add: g)
    have c: "C' = C2" "ev = map Unmap (vec_list V) @ e" using f True by (auto simp: store_finish_def g)
    have "events_bytes ev = events_bytes e" by (simp add: c(2) unmap_bytes)
    moreover have "time_rel (C1, []) (C', [])" using t by (simp add: c(1) time_rel_def)
    ultimately show ?thesis using releaseOlderThan_bytes [OF g] by (simp add: i(4))
  qed
  have e: "valid_bytes (cEntries C1 k) \<subseteq> bytes_at B (unat S) \<union> (\<Union>E\<in>set (cached lru C). valid_bytes E)" if k: "k < EntriesArraySize cfg" for k
  proof (cases "k \<in> set (j # take (unat (MaxEntriesCount C) - 1) lru)")
    case True
    then have "cEntries C1 k \<in> set (cached (j # take (unat (MaxEntriesCount C) - 1) lru) C1)" unfolding cached_def set_map by (rule imageI)
    then have "cEntries C1 k = ?E \<or> cEntries C1 k \<in> set (cached lru C)"
      unfolding i(3) by (auto simp: cached_def dest: in_set_takeD)
    moreover have "valid_bytes ?E = bytes_at B (unat S)" using v by (simp add: valid_bytes_def)
    ultimately show ?thesis by auto
  next
    case False
    then have "k \<in> set av'" using i(2) k unfolding cache_inv_def by auto
    then have "\<not> isValidBlock (cEntries C1 k)" using i(2) by (simp add: cache_inv_def)
    then show ?thesis by (simp add: valid_bytes_def)
  qed
  show "events_bytes ev \<subseteq> bytes_at B (unat S) \<union> (\<Union>E\<in>set (cached lru C). valid_bytes E) \<union> (\<Union>i\<in>{..<QuarantineSize cfg}. valid_bytes (cQuarantine C i))"
    using conjunct1 [OF fin] e by blast
  have "timeless (cQuarantine C' i) = timeless (cQuarantine C1 i)" using fin by (simp add: time_rel_def)
  then show "isValidBlock (cQuarantine C' i) = isValidBlock (cQuarantine C i)" using i(4) timeless_eqD by metis
qed

text \<open>The part of a block that retrieve releases lies in its mapping.\<close>

lemma fragment_release_bytes:
  assumes geo: "entry_geo env p E" and Sz: "unat Sz < 2 ^ 48" and Hs: "unat Hs \<le> 2 ^ p" and a: "a \<le> p"
    and suit: "\<not> entry_unsuitable env MP Sz (2 ^ a) Hs E" and pos: "pos = entry_AllocPos Sz (2 ^ a) E - Hs"
    and m: "in_map (cMemMap E) (cCommitBase E) (cCommitSize E)"
  shows "events_bytes (fragment_release env pos E) \<subseteq> map_bytes (cMemMap E)"
proof -
  note f = entry_fits [OF geo Sz Hs a suit, folded pos]
  have "event_bytes e \<subseteq> map_bytes (cMemMap E)" if e: "e \<in> set (fragment_release env pos E)" for e
  proof -
    obtain k b n where k: "e = ReleaseAndZero k b n"
      using e by (auto simp: fragment_release_def Let_def split: if_splits)
    note r = fragment_release_below [OF geo Sz Hs a suit e [unfolded k] pos]
    have "bytes_at b (unat n) \<subseteq> map_bytes (cMemMap E)"
      unfolding map_bytes_def using r f(2) m by (intro bytes_at_subset) (auto simp: in_map_def)
    then show ?thesis by (simp add: k)
  qed
  then show ?thesis by (auto simp: events_bytes_def)
qed

end
