(* ===== verification/Secondary_Blocks.thy ===== *)
theory Secondary_Blocks
  imports Secondary_Events
begin

text \<open>Where the blocks of the secondary allocator lie: the placement in a new mapping, and the contract
  of a cache of blocks (block_cache), which MapAllocatorCache and MapAllocatorNoCache interpret.\<close>

section \<open>Placement in a new mapping\<close>

lemma nat_round_up:
  assumes "0 < (k :: nat)"
  shows "x \<le> (x + k - 1) div k * k" "(x + k - 1) div k * k < x + k" "k dvd (x + k - 1) div k * k"
proof -
  have "(x + k - 1) div k * k + (x + k - 1) mod k = x + k - 1" "(x + k - 1) mod k < k"
    using assms by simp_all
  then show "x \<le> (x + k - 1) div k * k" "(x + k - 1) div k * k < x + k" using assms by linarith+
qed simp

lemma nat_round_down:
  assumes "(k :: nat) dvd c" "c \<le> x" "0 < k"
  shows "c \<le> x div k * k" "x div k * k \<le> x"
  using assms div_le_mono [of c x k] by (auto simp: dvd_div_mult_self dest: mult_le_mono1)

definition mapping_nat :: "nat \<Rightarrow> nat \<Rightarrow> nat \<Rightarrow> nat" where
  "mapping_nat P s al = (((s + al - 1) div al * al + 80) + P - 1) div P * P + (if P < al then al - P else 0) + 2 * P"

lemma unat_mapping_size:
  assumes p: "p \<le> 32" and a: "a \<le> 40" and s: "unat Sz < 2 ^ 46"
  shows "unat (mapping_size (2 ^ p) Sz (2 ^ a)) = mapping_nat (2 ^ p) (unat Sz) (2 ^ a)"
    and "mapping_nat (2 ^ p) (unat Sz) (2 ^ a) < 2 ^ 47"
proof -
  have P: "(2::nat) ^ p \<le> 2 ^ 32" and A: "(2::nat) ^ a \<le> 2 ^ 40"
    using p a power_increasing [of p 32 "2::nat"] power_increasing [of a 40 "2::nat"] by simp_all
  have up: "unat (2 ^ p :: uptr) = 2 ^ p" "unat (2 ^ a :: uptr) = 2 ^ a" using p a by (simp_all add: unat_exp)
  note r = nat_round_up [of "2 ^ a" "unat Sz"]
  have r1: "unat (roundUp Sz (2 ^ a)) = (unat Sz + 2 ^ a - 1) div 2 ^ a * 2 ^ a"
    using a s A by (intro unat_roundUp) auto
  define x where "x = (unat Sz + 2 ^ a - 1) div 2 ^ a * 2 ^ a"
  have x: "x < 2 ^ 46 + 2 ^ 40" using r(2) A s by (simp add: x_def)
  note r1 = r1 [folded x_def]
  have r2: "unat (roundUp Sz (2 ^ a) + getHeadersSize) = x + 80"
    using x by (subst unat_add_lem [THEN iffD1]) (simp_all add: r1 getHeadersSize_def LargeBlock_getHeaderSize_def)
  have r3: "unat (roundUp (roundUp Sz (2 ^ a) + getHeadersSize) (2 ^ p)) = (x + 80 + 2 ^ p - 1) div 2 ^ p * 2 ^ p"
  proof -
    have "p < 64" "x + 80 + 2 ^ p \<le> 2 ^ 64" using p P x by simp_all
    then show ?thesis using unat_roundUp [of p "roundUp Sz (2 ^ a) + getHeadersSize"] by (simp only: r2)
  qed
  define y where "y = (x + 80 + 2 ^ p - 1) div 2 ^ p * 2 ^ p"
  note r3 = r3 [folded y_def]
  have y: "y < 2 ^ 46 + 2 ^ 40 + 80 + 2 ^ 32"
    using nat_round_up(2) [of "2 ^ p" "x + 80"] x P by (simp add: y_def)
  have lt: "(2 ^ p :: uptr) < 2 ^ a \<longleftrightarrow> (2 :: nat) ^ p < 2 ^ a" by (simp only: word_less_nat_alt up)
  define g where "g = (if (2::uptr) ^ p < 2 ^ a then 2 ^ a - 2 ^ p else (0 :: uptr))"
  have g: "unat g = (if (2 :: nat) ^ p < 2 ^ a then 2 ^ a - 2 ^ p else 0)"
    using lt up by (simp add: g_def unat_sub_if_size)
  have g40: "unat g \<le> 2 ^ 40" using g A by (auto split: if_splits)
  have e: "mapping_size (2 ^ p) Sz (2 ^ a) = roundUp (roundUp Sz (2 ^ a) + getHeadersSize) (2 ^ p) + g + 2 * 2 ^ p"
    by (simp add: mapping_size_def Let_def g_def)
  have u1: "unat (roundUp (roundUp Sz (2 ^ a) + getHeadersSize) (2 ^ p) + g) = y + unat g"
    using y g40 by (subst unat_add_lem [THEN iffD1]) (simp_all add: r3)
  have u2: "unat (2 * 2 ^ p :: uptr) = 2 * 2 ^ p"
    using up P unat_mult_lt [of "2 :: uptr" "2 ^ p"] by simp
  have m: "mapping_nat (2 ^ p) (unat Sz) (2 ^ a) = y + unat g + 2 * 2 ^ p"
    by (simp only: mapping_nat_def g x_def [symmetric] y_def [symmetric])
  show "mapping_nat (2 ^ p) (unat Sz) (2 ^ a) < 2 ^ 47" unfolding m using y g40 P by simp
  show "unat (mapping_size (2 ^ p) Sz (2 ^ a)) = mapping_nat (2 ^ p) (unat Sz) (2 ^ a)"
    unfolding m e using y g40 P u1 u2 by (subst unat_add_lem [THEN iffD1]) simp_all
qed

text \<open>The block in a new mapping: a guard page at either end, the headers and the block between them,
  the block at its alignment.\<close>

lemma place_block_fits:
  assumes p: "p \<le> 32" "7 \<le> p" and a: "a \<le> 40" and s: "unat Sz < 2 ^ 46"
    and al: "isAligned MapBase (2 ^ p)" and top: "unat MapBase + unat (mapping_size (2 ^ p) Sz (2 ^ a)) < 2 ^ 48"
    and pl: "place_block (2 ^ p) Sz (2 ^ a) MapBase = (B, S, A)"
  shows "unat MapBase + 2 ^ p \<le> unat B" and "isAligned B (2 ^ p)"
    and "unat B + unat S + 2 ^ p = unat MapBase + unat (mapping_size (2 ^ p) Sz (2 ^ a))"
    and "unat B + 80 \<le> unat A" and "unat A + unat Sz \<le> unat B + unat S" and "isAligned A (2 ^ a)"
    and "unat B + unat S < unat A + unat Sz + 2 ^ a"
proof -
  let ?P = "2 ^ p :: nat" and ?A = "2 ^ a :: nat" and ?m = "unat MapBase" and ?s = "unat Sz"
  let ?M = "mapping_nat ?P ?s ?A"
  have P: "?P \<le> 2 ^ 32" "128 \<le> ?P" and A: "?A \<le> 2 ^ 40"
    using p a power_increasing [of p 32 "2::nat"] power_increasing [of 7 p "2::nat"] power_increasing [of a 40 "2::nat"] by simp_all
  have up: "unat (2 ^ p :: uptr) = ?P" "unat (2 ^ a :: uptr) = ?A" using p a by (simp_all add: unat_exp)
  note M = unat_mapping_size [OF p(1) a s]
  have top: "?m + ?M < 2 ^ 48" using top M(1) by simp
  have mP: "?P dvd ?m" using al by (simp add: isAligned_exp dvd_eq_mod_eq_0)
  define x where "x = (?s + ?A - 1) div ?A * ?A"
  define y where "y = (x + 80 + ?P - 1) div ?P * ?P"
  have x: "?s \<le> x" "?A dvd x" and y: "x + 80 \<le> y" "?P dvd y"
    using nat_round_up [of ?A ?s] nat_round_up [of ?P "x + 80"] by (simp_all add: x_def y_def)
  have Meq: "?M = y + (if ?P < ?A then ?A - ?P else 0) + 2 * ?P"
    by (simp only: mapping_nat_def x_def [symmetric] y_def [symmetric])
  have me: "unat (MapBase + mapping_size (2 ^ p) Sz (2 ^ a)) = ?m + ?M"
    using top M(1) by (subst unat_add_lem [THEN iffD1]) simp_all
  have m1: "unat (MapBase + 2 ^ p) = ?m + ?P" using top Meq up
    by (subst unat_add_lem [THEN iffD1]) simp_all
  have m2: "unat (MapBase + 2 ^ p + 1) = ?m + ?P + 1" using top Meq m1
    by (subst unat_add_lem [THEN iffD1]) simp_all
  have B: "B = (if (2 :: uptr) ^ p \<le> 2 ^ a then roundUp (MapBase + 2 ^ p + 1) (2 ^ a) - 2 ^ p else MapBase + 2 ^ p)"
    and S: "S = MapBase + mapping_size (2 ^ p) Sz (2 ^ a) - 2 ^ p - B"
    and Aeq: "A = roundDown (B + S - Sz) (2 ^ a)"
  proof -
    note e = pl [unfolded place_block_def Let_def prod.inject]
    show B: "B = (if (2 :: uptr) ^ p \<le> 2 ^ a then roundUp (MapBase + 2 ^ p + 1) (2 ^ a) - 2 ^ p else MapBase + 2 ^ p)"
      using e by (rule conjunct1 [THEN sym])
    note e2 = e [THEN conjunct2, unfolded B [symmetric]]
    show S: "S = MapBase + mapping_size (2 ^ p) Sz (2 ^ a) - 2 ^ p - B" using e2 by (rule conjunct1 [THEN sym])
    show "A = roundDown (B + S - Sz) (2 ^ a)" using e2 [THEN conjunct2, unfolded S [symmetric]] by (rule sym)
  qed
  have le: "(2 :: uptr) ^ p \<le> 2 ^ a \<longleftrightarrow> ?P \<le> ?A" by (simp only: word_le_nat_alt up)
  have bd: "?m + ?P \<le> unat B \<and> ?P dvd unat B \<and> unat B + 80 + ?s \<le> ?m + y + (if ?P < ?A then ?A - ?P else 0) + ?P \<and>
    unat B + 80 \<le> (?m + y + (if ?P < ?A then ?A - ?P else 0) + ?P - ?s) div ?A * ?A"
  proof (cases "?P \<le> ?A")
    case True
    then have ap: "?P dvd ?A" "p \<le> a" by (simp_all add: le_imp_power_dvd)
    define z where "z = (?m + ?P + 1 + ?A - 1) div ?A * ?A"
    have z: "?m + ?P + 1 \<le> z" "z < ?m + ?P + 1 + ?A" "?A dvd z"
      using nat_round_up [of ?A "?m + ?P + 1"] by (simp_all add: z_def)
    have "unat (roundUp (MapBase + 2 ^ p + 1) (2 ^ a)) = z"
    proof -
      have "a < 64" "?m + ?P + 1 + ?A \<le> 2 ^ 64" using a A top P by simp_all
      then show ?thesis using unat_roundUp [of a "MapBase + 2 ^ p + 1"] by (simp only: m2 z_def)
    qed
    then have uB: "unat B = z - ?P"
      using True le z(1) up by (simp add: B unat_sub_if_size)
    have zP: "?P dvd z" "?P dvd x" using z(3) x(2) ap dvd_trans by blast+
    obtain zk mk where k: "z = ?P * zk" "?m = ?P * mk" using zP(1) mP by (auto elim!: dvdE)
    obtain ak where ak: "?A = ?P * ak" using ap(1) by (auto elim!: dvdE)
    have zle: "z \<le> ?m + ?P + ?A"
      using z(2) by simp
    obtain xk yk where xy: "x = ?P * xk" "y = ?P * yk" using zP(2) y(2) by (auto elim!: dvdE)
    have xy2: "x + ?P \<le> y"
    proof -
      have "?P * xk < ?P * yk" using y(1) unfolding xy by linarith
      then have "Suc xk \<le> yk" by (simp only: mult_less_cancel1 Suc_le_eq)
      then have "?P * Suc xk \<le> ?P * yk" by (rule mult_le_mono2)
      then show ?thesis unfolding xy by simp
    qed
    have g: "(if ?P < ?A then ?A - ?P else 0) = ?A - ?P" by simp
    have zs: "z \<le> ?m + y + (?A - ?P) + ?P - ?s" "z + ?s \<le> ?m + y + (?A - ?P) + ?P"
      using zle xy2 x(1) True by linarith+
    have "z \<le> (?m + y + (?A - ?P) + ?P - ?s) div ?A * ?A"
      using nat_round_down(1) [OF z(3) zs(1)] by simp
    moreover have "?P dvd z - ?P" using zP(1) by simp
    moreover have "?m + 2 * ?P \<le> z"
    proof -
      have "?P * (mk + 1) < ?P * zk" using z(1) unfolding k by simp
      then have "mk + 2 \<le> zk" by (simp only: mult_less_cancel1) simp
      then have "?P * (mk + 2) \<le> ?P * zk" by (rule mult_le_mono2)
      then show ?thesis unfolding k by simp
    qed
    ultimately show ?thesis using zs P unfolding uB g by (intro conjI) linarith+
  next
    case False
    then have ap: "?A dvd ?P" by (simp add: le_imp_power_dvd)
    have uB: "unat B = ?m + ?P" using False le m1 by (simp add: B)
    have e: "?A dvd ?m + y + ?P - x" and xe: "x \<le> ?m + y + ?P"
      using mP y x(2) ap by (meson dvd_add dvd_diff_nat dvd_trans dvd_refl) (use y(1) in simp)
    have "?m + y + ?P - x \<le> (?m + y + ?P - ?s) div ?A * ?A"
      using e x(1) by (intro nat_round_down(1)) simp_all
    then show ?thesis using uB y(1) x(1) mP False by simp
  qed
  have e: "?m + ?M - ?P = ?m + y + (if ?P < ?A then ?A - ?P else 0) + ?P" by (simp add: Meq)
  have t1: "unat (MapBase + mapping_size (2 ^ p) Sz (2 ^ a) - 2 ^ p) = ?m + ?M - ?P"
    using me up Meq by (simp add: unat_sub_if_size)
  have uS: "unat S = ?m + ?M - ?P - unat B"
    using t1 bd by (simp add: S unat_sub_if_size e)
  have BS: "unat B + unat S = ?m + ?M - ?P" using uS bd e by linarith
  have "unat (B + S) = ?m + ?M - ?P"
    using BS top by (subst unat_add_lem [THEN iffD1]) simp_all
  then have us: "unat (B + S - Sz) = ?m + ?M - ?P - ?s"
    using bd e by (simp add: unat_sub_if_size)
  have uA: "unat A = (?m + ?M - ?P - ?s) div ?A * ?A"
    by (simp add: Aeq unat_roundDown us)
  show "?m + ?P \<le> unat B" "isAligned B (2 ^ p)" using bd by (simp_all add: isAligned_exp dvd_eq_mod_eq_0)
  show "unat B + unat S + ?P = ?m + unat (mapping_size (2 ^ p) Sz (2 ^ a))"
    using BS M(1) Meq by simp
  show "unat B + 80 \<le> unat A" using bd uA e by simp
  have "unat A \<le> ?m + ?M - ?P - ?s" using nat_round_down(2) [of ?A 0] uA by simp
  then show "unat A + ?s \<le> unat B + unat S" using BS bd e by linarith
  show "isAligned A (2 ^ a)" by (simp add: isAligned_exp uA)
  have "(?m + ?M - ?P - ?s) div ?A * ?A + (?m + ?M - ?P - ?s) mod ?A = ?m + ?M - ?P - ?s" by (rule div_mult_mod_eq)
  moreover have "(?m + ?M - ?P - ?s) mod ?A < ?A" by simp
  ultimately show "unat B + unat S < unat A + ?s + ?A" using uA BS by linarith
qed

section \<open>The contract of a block cache\<close>

definition geo_ok :: "nat \<Rightarrow> CachedBlock \<Rightarrow> bool" where
  "geo_ok p E \<longleftrightarrow> cCommitBase E \<noteq> 0 \<and> isAligned (cCommitBase E) (2 ^ p) \<and> in_map (cMemMap E) (cCommitBase E) (cCommitSize E)"

text \<open>owned: the mappings a cache holds; blocks: what it can hand out, up to the time. Each operation changes
  memory of these mappings only.\<close>

definition block_of :: "uptr \<Rightarrow> uptr \<Rightarrow> uptr \<Rightarrow> mem_map \<Rightarrow> CachedBlock" where
  "block_of b s bb m = \<lparr> cCommitBase = b, cCommitSize = s, cBlockBegin = bb, cMemMap = m, cTime = 0 \<rparr>"

definition handed_out :: "uptr \<Rightarrow> nat \<Rightarrow> CachedBlock \<Rightarrow> uptr \<Rightarrow> bool" where
  "handed_out Sz a E pos \<longleftrightarrow> unat (cCommitBase E) \<le> unat pos \<and>
    unat pos + 80 + unat Sz \<le> unat (cCommitBase E) + unat (cCommitSize E) \<and> isAligned (pos + 80) (2 ^ a) \<and>
    unat (cCommitBase E) + unat (cCommitSize E) < unat pos + 80 + unat Sz + 2 ^ a"

locale block_cache =
  fixes ops :: "'c cache_ops" and cinv :: "'c \<Rightarrow> bool" and blocks :: "'c \<Rightarrow> CachedBlock set"
    and owned :: "'c \<Rightarrow> mem_map multiset"
  assumes retrieve_law: "\<lbrakk> cinv c; \<forall>E\<in>blocks c. geo_ok p E; osPageSize env = 2 ^ p; 7 \<le> p; p \<le> 32; a \<le> p;
      unat Sz < 2 ^ 48 \<rbrakk> \<Longrightarrow>
      \<exists>E pos c' ev. co_retrieve ops env MP Sz (2 ^ a) getHeadersSize c = Inr (E, pos, c', ev) \<and> cinv c' \<and>
        blocks c' \<subseteq> blocks c \<and> unmapped ev = {#} \<and> mapped ev = {#} \<and>
        (if isValidBlock E then timeless E \<in> blocks c \<and> owned c = add_mset (cMemMap E) (owned c') \<and> handed_out Sz a E pos \<and>
           events_bytes ev \<subseteq> map_bytes (cMemMap E)
         else owned c' = owned c \<and> events_bytes ev = {})"
    and store_law: "\<lbrakk> cinv c; \<forall>E\<in>blocks c. geo_ok p E; geo_ok p (block_of b S bb m); co_canCache ops S c; page_ok env;
      \<forall>n. growOk env n \<rbrakk> \<Longrightarrow>
      \<exists>c' ev. co_store ops env False b S bb m c = Inr (c', ev) \<and> cinv c' \<and>
        blocks c' \<subseteq> insert (block_of b S bb m) (blocks c) \<and>
        owned c' + unmapped ev = add_mset m (owned c) \<and> mapped ev = {#} \<and>
        events_bytes ev \<subseteq> maps_bytes (add_mset m (owned c))"

section \<open>The caches\<close>

text \<open>Without tagging nothing is ever quarantined.\<close>

definition map_cache_inv :: "cache_config \<Rightarrow> cache \<Rightarrow> bool" where
  "map_cache_inv cfg C \<longleftrightarrow> QuarantineSize cfg < 2 ^ 32 \<and> (\<exists>av. cache_inv cfg (lru_of C) av C) \<and> (\<forall>i. \<not> isValidBlock (cQuarantine C i))"

definition map_cache_blocks :: "cache \<Rightarrow> CachedBlock set" where
  "map_cache_blocks C = timeless ` set (cached (lru_of C) C)"

definition map_cache_owned :: "cache_config \<Rightarrow> cache \<Rightarrow> mem_map multiset" where
  "map_cache_owned cfg C = owned_maps cfg (lru_of C) C"

lemma geo_entry:
  assumes "geo_ok p (timeless E)" and "osPageSize (env :: os_env) = 2 ^ p" and "p \<le> 32"
  shows "entry_geo env p E"
  using assms by (auto simp: geo_ok_def timeless_def entry_geo_def in_map_def)

interpretation map_cache: block_cache "map_cache_ops cfg" "map_cache_inv cfg" map_cache_blocks "map_cache_owned cfg" for cfg
proof unfold_locales
  fix c p a and Sz MP :: uptr and env :: os_env
  assume inv: "map_cache_inv cfg c" and geo: "\<forall>E\<in>map_cache_blocks c. geo_ok p E"
    and env: "osPageSize env = 2 ^ p" "7 \<le> p" "p \<le> 32" "a \<le> p" and Sz: "unat Sz < 2 ^ 48"
  obtain av where i: "cache_inv cfg (lru_of c) av c" and q: "QuarantineSize cfg < 2 ^ 32" "\<forall>i. \<not> isValidBlock (cQuarantine c i)"
    using inv by (auto simp: map_cache_inv_def)
  have g: "entry_geo env p B" if "B \<in> set (cached (lru_of c) c)" for B
    using geo geo_entry [OF _ env(1,3), of B] that by (simp add: map_cache_blocks_def)
  have hs: "unat getHeadersSize = 80" by (simp add: getHeadersSize_def LargeBlock_getHeaderSize_def)
  have Hs: "unat getHeadersSize \<le> 2 ^ p"
    using hs power_increasing [OF env(2), of "2 :: nat"] by simp
  have D: "\<forall>B\<in>set (cached (lru_of c) c). entry_unsuitable env MP Sz (2 ^ a) getHeadersSize B \<or>
      entry_Diff env Sz (2 ^ a) getHeadersSize B \<noteq> - 1"
    using entry_Diff_not_max(3) [OF g Sz Hs env(4)] by blast
  obtain E pos C' lru' av' where r: "cache_retrieve env MP Sz (2 ^ a) getHeadersSize c = Inr (E, pos, C', fragment_release env pos E)"
    "cache_inv cfg lru' av' C'" "retrieved_block env MP Sz (2 ^ a) getHeadersSize (lru_of c) c E pos lru' C'"
    "owned_maps cfg lru' C' + (if isValidBlock E then {#cMemMap E#} else {#}) = owned_maps cfg (lru_of c) c"
    using cache_retrieve_spec [OF i D] by blast
  note l = lru_of [OF r(2)]
  have sub: "set (cached lru' C') \<subseteq> set (cached (lru_of c) c)"
    using r(3) by (auto simp: retrieved_block_def cached_def split: if_splits)
  have val: "timeless E \<in> map_cache_blocks c \<and> handed_out Sz a E pos \<and> events_bytes (fragment_release env pos E) \<subseteq> map_bytes (cMemMap E)" if v: "isValidBlock E"
  proof -
    have gc: "good_choice env MP Sz (2 ^ a) getHeadersSize (set (cached (lru_of c) c)) E"
      and pos: "pos = entry_AllocPos Sz (2 ^ a) E - getHeadersSize"
      using r(3) v by (simp_all add: retrieved_block_def)
    then have E: "E \<in> set (cached (lru_of c) c)" and ns: "\<not> entry_unsuitable env MP Sz (2 ^ a) getHeadersSize E"
      by (auto simp: good_choice_def)
    have h80: "getHeadersSize = 80" by (simp add: getHeadersSize_def LargeBlock_getHeaderSize_def)
    note f = entry_fits [OF g [OF E] Sz Hs env(4) ns, folded pos, unfolded hs]
    have tE: "timeless E \<in> map_cache_blocks c" using E by (simp add: map_cache_blocks_def)
    then have "in_map (cMemMap E) (cCommitBase E) (cCommitSize E)" using geo by (auto simp: geo_ok_def timeless_def)
    note b = fragment_release_bytes [OF g [OF E] Sz Hs env(4) ns pos this]
    show ?thesis using f(1-3,5) tE b by (simp add: handed_out_def h80)
  qed
  have nev: "events_bytes (fragment_release env pos E) = {}" if "\<not> isValidBlock E"
    using cache_retrieve_kinds [OF i r(1)] that by auto
  have qu: "\<forall>i. \<not> isValidBlock (cQuarantine C' i)" using cache_retrieve_quarantine [OF r(1)] q(2) by simp
  show "\<exists>E pos c' ev. co_retrieve (map_cache_ops cfg) env MP Sz (2 ^ a) getHeadersSize c = Inr (E, pos, c', ev) \<and>
      map_cache_inv cfg c' \<and> map_cache_blocks c' \<subseteq> map_cache_blocks c \<and> unmapped ev = {#} \<and> mapped ev = {#} \<and>
      (if isValidBlock E then timeless E \<in> map_cache_blocks c \<and>
         map_cache_owned cfg c = add_mset (cMemMap E) (map_cache_owned cfg c') \<and> handed_out Sz a E pos \<and>
         events_bytes ev \<subseteq> map_bytes (cMemMap E)
       else map_cache_owned cfg c' = map_cache_owned cfg c \<and> events_bytes ev = {})"
  proof (intro exI conjI)
    show "co_retrieve (map_cache_ops cfg) env MP Sz (2 ^ a) getHeadersSize c = Inr (E, pos, C', fragment_release env pos E)"
      by (simp add: map_cache_ops_def r(1))
    show "map_cache_inv cfg C'" using r(2) l q qu by (auto simp: map_cache_inv_def)
    show "map_cache_blocks C' \<subseteq> map_cache_blocks c" using sub l by (auto simp: map_cache_blocks_def)
    show "if isValidBlock E then timeless E \<in> map_cache_blocks c \<and>
         map_cache_owned cfg c = add_mset (cMemMap E) (map_cache_owned cfg C') \<and> handed_out Sz a E pos \<and>
         events_bytes (fragment_release env pos E) \<subseteq> map_bytes (cMemMap E)
       else map_cache_owned cfg C' = map_cache_owned cfg c \<and> events_bytes (fragment_release env pos E) = {}"
      using val nev r(4) l by (auto simp: map_cache_owned_def split: if_splits)
  qed simp_all
next
  fix c m p and S b bb :: uptr and env :: os_env
  assume inv: "map_cache_inv cfg c" and geo: "\<forall>E\<in>map_cache_blocks c. geo_ok p E" "geo_ok p (block_of b S bb m)"
    and can: "co_canCache (map_cache_ops cfg) S c" and env: "page_ok env" "\<forall>n. growOk env n"
  obtain av where i: "cache_inv cfg (lru_of c) av c" and q: "QuarantineSize cfg < 2 ^ 32" "\<forall>i. \<not> isValidBlock (cQuarantine c i)"
    using inv by (auto simp: map_cache_inv_def)
  have b: "b \<noteq> 0" using geo(2) by (simp add: geo_ok_def block_of_def)
  have m0: "MaxEntriesCount c \<noteq> 0" using can by (simp add: map_cache_ops_def canCache_def)
  obtain C' ev lru' av' where r: "cache_store env cfg False b S bb m c = Inr (C', ev)" "cache_inv cfg lru' av' C'"
    "stored_block cfg False (block_of b S bb m) (lru_of c) c lru' C' ev"
    using cache_store_spec [OF i m0 b env q(1), of False S bb m] unfolding block_of_def by blast
  note l = lru_of [OF r(2)]
  have t: "map timeless (cached lru' C') =
      timeless (block_of b S bb m) # map timeless (take (unat (MaxEntriesCount c) - 1) (cached (lru_of c) c))"
    using r(3) by (simp add: stored_block_def)
  have tb: "timeless (block_of b S bb m) = block_of b S bb m" by (simp add: timeless_def block_of_def)
  have "map_cache_blocks C' = set (map timeless (cached lru' C'))" by (simp add: map_cache_blocks_def l)
  also have "\<dots> \<subseteq> insert (block_of b S bb m) (map_cache_blocks c)"
    unfolding t tb by (auto simp: map_cache_blocks_def dest: in_set_takeD)
  finally have sub: "map_cache_blocks C' \<subseteq> insert (block_of b S bb m) (map_cache_blocks c)" .
  note sb = cache_store_bytes [OF i m0 b env r(1)]
  have qu: "\<forall>i. \<not> isValidBlock (cQuarantine C' i)" using sb(2) q(2) by simp
  have ow: "map_cache_owned cfg c = mset (map cMemMap (cached (lru_of c) c))"
    using q(2) by (simp add: map_cache_owned_def owned_maps_def quarantined_def)
  have "bytes_at b (unat S) \<subseteq> map_bytes m"
    using geo(2) by (intro in_map_bytes) (simp add: geo_ok_def block_of_def)
  moreover have "valid_bytes E \<subseteq> map_bytes (cMemMap E)" if "E \<in> set (cached (lru_of c) c)" for E
  proof -
    have "geo_ok p (timeless E)" using geo(1) that by (simp add: map_cache_blocks_def)
    then have "in_map (cMemMap E) (cCommitBase E) (cCommitSize E)" by (simp add: geo_ok_def timeless_def)
    from in_map_bytes [OF this] show ?thesis by (simp add: valid_bytes_def)
  qed
  moreover have "valid_bytes (cQuarantine c i) = {}" for i using q(2) by (simp add: valid_bytes_def)
  ultimately have evb: "events_bytes ev \<subseteq> maps_bytes (add_mset m (map_cache_owned cfg c))"
    using sb(1) by (auto simp: ow maps_bytes_def) blast
  show "\<exists>c' ev. co_store (map_cache_ops cfg) env False b S bb m c = Inr (c', ev) \<and> map_cache_inv cfg c' \<and>
      map_cache_blocks c' \<subseteq> insert (block_of b S bb m) (map_cache_blocks c) \<and>
      map_cache_owned cfg c' + unmapped ev = add_mset m (map_cache_owned cfg c) \<and> mapped ev = {#} \<and>
      events_bytes ev \<subseteq> maps_bytes (add_mset m (map_cache_owned cfg c))"
  proof (intro exI conjI)
    show "co_store (map_cache_ops cfg) env False b S bb m c = Inr (C', ev)" by (simp add: map_cache_ops_def r(1))
    show "map_cache_inv cfg C'" using r(2) l q qu by (auto simp: map_cache_inv_def)
    show "map_cache_owned cfg C' + unmapped ev = add_mset m (map_cache_owned cfg c)" "mapped ev = {#}"
      using r(3) by (simp_all add: stored_block_def map_cache_owned_def l block_of_def)
  qed (rule sub evb)+
qed

interpretation no_cache: block_cache no_cache_ops "\<lambda>_. True" "\<lambda>_. {}" "\<lambda>_. {#}"
  by unfold_locales (auto simp: no_cache_ops_def nocache_retrieve_def nocache_canCache_def no_block_def isValidBlock_def)

end
