(* ===== verification/Secondary_System.thy ===== *)
theory Secondary_System
  imports Secondary_Blocks
begin

text \<open>The secondary allocator as a whole, with the arenas off: the mappings it holds are exactly the
  ones the platform has given it, they are disjoint, and each block in use lies in its own.\<close>

section \<open>Invariant\<close>

definition map_range :: "mem_map \<Rightarrow> nat set" where
  "map_range m = {unat (mBase m)..<unat (mBase m) + unat (mCapacity m)}"

definition disjoint_maps :: "mem_map multiset \<Rightarrow> bool" where
  "disjoint_maps K \<longleftrightarrow> (\<forall>m n. {#m, n#} \<subseteq># K \<longrightarrow> map_range m \<inter> map_range n = {})"

definition live_hdr_ok :: "nat \<Rightarrow> LargeHeader \<Rightarrow> uptr \<Rightarrow> bool" where
  "live_hdr_ok p hdr H \<longleftrightarrow> geo_ok p (block_of (hCommitBase hdr) (hCommitSize hdr) 0 (hMemMap hdr)) \<and>
    unat (hCommitBase hdr) \<le> unat H \<and> unat H + 80 \<le> unat (hCommitBase hdr) + unat (hCommitSize hdr)"

text \<open>The state, the headers of the blocks in use in the order of their list, and the mappings that
  the platform has given and not been given back.\<close>

definition sec_inv :: "('c \<Rightarrow> bool) \<Rightarrow> ('c \<Rightarrow> CachedBlock set) \<Rightarrow> ('c \<Rightarrow> mem_map multiset) \<Rightarrow> nat \<Rightarrow>
    'c map_alloc \<Rightarrow> uptr list \<Rightarrow> mem_map multiset \<Rightarrow> bool" where
  "sec_inv cinv blocks owned p S Hs K \<longleftrightarrow> \<not> pInitialized (maPool S) \<and> cinv (maCache S) \<and>
    (\<forall>E\<in>blocks (maCache S). geo_ok p E) \<and> dl_abs ptr_link_op ptr_node (maLinks S) (InUseBlocks S) Hs \<and>
    (\<forall>H\<in>set Hs. live_hdr_ok p (maHeaders S H) H) \<and>
    owned (maCache S) + mset (map (hMemMap \<circ> maHeaders S) Hs) = K \<and> disjoint_maps K"

text \<open>The platform: the page size is a power of two and the vectors of the cache can grow; a range that
  is reserved is page aligned, below 2^48, and apart from the mappings that exist.\<close>

definition sec_env_ok :: "sec_env \<Rightarrow> nat \<Rightarrow> mem_map multiset \<Rightarrow> bool" where
  "sec_env_ok env p K \<longleftrightarrow> osPageSize (sOs env) = 2 ^ p \<and> 7 \<le> p \<and> p \<le> 32 \<and> (\<forall>n. growOk (sOs env) n) \<and>
    (\<forall>n b. reserve env n = Some b \<longrightarrow> isAligned b (2 ^ p) \<and> unat b + unat n < 2 ^ 48 \<and>
      (\<forall>m\<in>#K. map_range \<lparr> mBase = b, mCapacity = n \<rparr> \<inter> map_range m = {}))"

lemma disjoint_maps_mono: "disjoint_maps K \<Longrightarrow> L \<subseteq># K \<Longrightarrow> disjoint_maps L"
  unfolding disjoint_maps_def by (meson subset_mset.order_trans)

lemma disjoint_maps_add:
  assumes "disjoint_maps K" and "\<forall>n\<in>#K. map_range m \<inter> map_range n = {}"
  shows "disjoint_maps (add_mset m K)"
  unfolding disjoint_maps_def
proof (intro allI impI)
  fix x y assume s: "{#x, y#} \<subseteq># add_mset m K"
  show "map_range x \<inter> map_range y = {}"
  proof (cases "x = m \<or> y = m")
    case True
    then obtain z where z: "{#x, y#} = {#m, z#}" "map_range x \<inter> map_range y = map_range m \<inter> map_range z"
    proof (cases "x = m")
      case False
      then have "{#x, y#} = {#m, x#}" "map_range x \<inter> map_range y = map_range m \<inter> map_range x"
        using True by auto
      then show thesis by (rule that)
    qed simp
    then have "z \<in># K" using s by simp
    then show ?thesis using z(2) assms(2) by simp
  next
    case False
    have "{#x, y#} \<subseteq># K"
      unfolding subseteq_mset_def
    proof
      fix k show "count {#x, y#} k \<le> count K k"
        using mset_subset_eq_count [OF s, of k] False by (cases "k = m") auto
    qed
    then show ?thesis using assms(1) by (simp add: disjoint_maps_def)
  qed
qed

lemma live_in_range: "live_hdr_ok p hdr H \<Longrightarrow> unat H \<in> map_range (hMemMap hdr) \<and> unat H < 2 ^ 48 \<and> ptr_node H"
  by (auto simp: live_hdr_ok_def geo_ok_def block_of_def in_map_def map_range_def ptr_node_def word_unat_eq_iff)

lemma in_use_length: "\<forall>H\<in>set Hs. unat (H :: uptr) < 2 ^ 48 \<Longrightarrow> distinct Hs \<Longrightarrow> List.length Hs \<le> 2 ^ 48"
proof -
  assume a: "\<forall>H\<in>set Hs. unat H < 2 ^ 48" "distinct Hs"
  have "List.length Hs = card (unat ` set Hs)"
    using distinct_card [OF a(2)] card_image [of unat "set Hs"] by (simp add: inj_on_def word_unat_eq_iff)
  also have "\<dots> \<le> card {..<2 ^ 48 :: nat}" using a(1) by (intro card_mono) auto
  finally show ?thesis by simp
qed

lemma max_exp_word: "a < 64 \<Longrightarrow> b < 64 \<Longrightarrow> max (2 ^ a) (2 ^ b :: uptr) = 2 ^ max a b"
proof (cases "a \<le> b")
  case True
  assume "a < 64" "b < 64"
  then have "(2 :: uptr) ^ a \<le> 2 ^ b"
    using power_increasing [OF True, of "2 :: nat"] by (simp add: word_le_nat_alt unat_exp)
  then show ?thesis using True by (simp add: max_absorb2)
next
  case False
  assume "a < 64" "b < 64"
  then have "(2 :: uptr) ^ b \<le> 2 ^ a"
    using power_increasing [of b a "2 :: nat"] False by (simp add: word_le_nat_alt unat_exp)
  then show ?thesis using False by (simp add: max_absorb1)
qed

text \<open>The outcome of an allocation: no block, or one with its header in front, not in use before, at the
  requested alignment and with room for the requested size, and at most s bytes and the alignment
  more.\<close>

definition new_block :: "uptr \<Rightarrow> nat \<Rightarrow> nat \<Rightarrow> 'c map_alloc \<Rightarrow> uptr list \<Rightarrow> uptr list \<Rightarrow> (uptr \<times> uptr) option \<Rightarrow> bool" where
  "new_block Sz s a S Hs Hs' r \<longleftrightarrow> (case r of None \<Rightarrow> Hs' = Hs
     | Some (Ptr, E) \<Rightarrow> Ptr - 64 \<notin> set Hs \<and> Hs' = Hs @ [Ptr - 64] \<and> E = sec_getBlockEnd S Ptr \<and>
         unat Ptr + 16 + unat Sz \<le> unat E \<and> isAligned (Ptr + 16) (2 ^ a) \<and>
         unat E < unat Ptr + 16 + unat Sz + s + 2 ^ a)"

text \<open>What an operation leaves alone: the headers Hs of the blocks that stay in use, and all memory but that
  of the mappings X and of the new ones, which the platform has reserved.\<close>

definition sec_effect :: "sec_env \<Rightarrow> uptr list \<Rightarrow> 'c map_alloc \<Rightarrow> 'c map_alloc \<Rightarrow> mem_map multiset \<Rightarrow> os_event list \<Rightarrow> bool" where
  "sec_effect env Hs S S' X ev \<longleftrightarrow> (\<forall>H\<in>set Hs. maHeaders S' H = maHeaders S H) \<and>
    events_bytes ev \<subseteq> maps_bytes (X + mapped ev) \<and> (\<forall>m\<in>#mapped ev. reserve env (mCapacity m) = Some (mBase m))"

lemma sec_effect_trans:
  "sec_effect env Hs S S1 X ev1 \<Longrightarrow> sec_effect env Hs S1 S2 {#} ev2 \<Longrightarrow> sec_effect env Hs S S2 X (ev1 @ ev2)"
  by (auto simp: sec_effect_def)

text \<open>A new block in a mapping that no block in use has.\<close>

lemma push_block_inv:
  assumes d: "dl_abs ptr_link_op ptr_node (maLinks S) (InUseBlocks S) Hs"
    and live: "\<forall>H\<in>set Hs. live_hdr_ok p (maHeaders S H) H" and new: "live_hdr_ok p hdr H"
    and K: "add_mset (hMemMap hdr) (mset (map (hMemMap \<circ> maHeaders S) Hs)) \<subseteq># K" "disjoint_maps K"
    and S': "push_block H hdr S = S'"
  shows "H \<notin> set Hs" and "dl_abs ptr_link_op ptr_node (maLinks S') (InUseBlocks S') (Hs @ [H])"
    and "maHeaders S' = (maHeaders S)(H := hdr)" and "maCache S' = maCache S" and "maPool S' = maPool S"
proof -
  show n: "H \<notin> set Hs"
  proof
    assume H: "H \<in> set Hs"
    then have "{#hMemMap (maHeaders S H)#} \<subseteq># mset (map (hMemMap \<circ> maHeaders S) Hs)" by simp
    then have "{#hMemMap hdr, hMemMap (maHeaders S H)#} \<subseteq># K" using K(1) by (meson mset_subset_eq_add_mset_cancel subset_mset.order_trans)
    then have "map_range (hMemMap hdr) \<inter> map_range (hMemMap (maHeaders S H)) = {}"
      using K(2) by (simp add: disjoint_maps_def)
    then show False using live_in_range [OF new] live_in_range [of p "maHeaders S H" H] live H by auto
  qed
  have "distinct Hs" using d by (simp add: dl_abs_def sl_abs_def)
  then have len: "Suc (List.length Hs) < 2 ^ 64"
    using in_use_length [of Hs] live live_in_range by fastforce
  obtain s l where p: "dl_push_back ptr_link_op H (maLinks S, InUseBlocks S) = (s, l)" by fastforce
  have "dl_abs ptr_link_op ptr_node s l (Hs @ [H])"
    using ptr.dl_push_back_refines [OF d _ n len] live_in_range [OF new] p by simp
  then show "dl_abs ptr_link_op ptr_node (maLinks S') (InUseBlocks S') (Hs @ [H])"
    "maHeaders S' = (maHeaders S)(H := hdr)" "maCache S' = maCache S" "maPool S' = maPool S"
    using p unfolding S' [symmetric] by (simp_all add: push_block_def)
qed

lemma counters_frame [simp]:
  "maHeaders (count_alloc c d S) = maHeaders S" "maLinks (count_alloc c d S) = maLinks S"
  "InUseBlocks (count_alloc c d S) = InUseBlocks S" "maCache (count_alloc c d S) = maCache S" "maPool (count_alloc c d S) = maPool S"
  "maHeaders (count_free c d S) = maHeaders S" "maLinks (count_free c d S) = maLinks S"
  "InUseBlocks (count_free c d S) = InUseBlocks S" "maCache (count_free c d S) = maCache S" "maPool (count_free c d S) = maPool S"
  "maHeaders (raise_LargestSize c S) = maHeaders S" "maLinks (raise_LargestSize c S) = maLinks S"
  "InUseBlocks (raise_LargestSize c S) = InUseBlocks S" "maCache (raise_LargestSize c S) = maCache S" "maPool (raise_LargestSize c S) = maPool S"
  by (simp_all add: count_alloc_def count_free_def raise_LargestSize_def)

lemma sec_inv_cong:
  assumes "maHeaders S' = maHeaders S" "maLinks S' = maLinks S" "InUseBlocks S' = InUseBlocks S" "maCache S' = maCache S" "maPool S' = maPool S"
  shows "sec_inv cinv blocks owned p S' Hs K = sec_inv cinv blocks owned p S Hs K"
  using assms by (simp add: sec_inv_def)

lemma sec_inv_push:
  assumes inv: "sec_inv cinv blocks owned p S Hs K" and cinv: "cinv c" and bl: "\<forall>E\<in>blocks c. geo_ok p E"
    and new: "live_hdr_ok p hdr H" and K: "add_mset (hMemMap hdr) (owned c) + mset (map (hMemMap \<circ> maHeaders S) Hs) = K'"
    and dj: "disjoint_maps K'"
  shows "H \<notin> set Hs \<and> sec_inv cinv blocks owned p (push_block H hdr (S\<lparr>maCache := c\<rparr>)) (Hs @ [H]) K'"
proof -
  let ?S = "S\<lparr>maCache := c\<rparr>" and ?S' = "push_block H hdr (S\<lparr>maCache := c\<rparr>)"
  have sub: "add_mset (hMemMap hdr) (mset (map (hMemMap \<circ> maHeaders ?S) Hs)) \<subseteq># K'"
    unfolding K [symmetric] by simp
  have d: "dl_abs ptr_link_op ptr_node (maLinks ?S) (InUseBlocks ?S) Hs" "\<forall>H\<in>set Hs. live_hdr_ok p (maHeaders ?S H) H"
    using inv by (simp_all add: sec_inv_def)
  note b = push_block_inv [OF d new sub dj refl]
  have me: "map (hMemMap \<circ> ((maHeaders ?S)(H := hdr))) Hs = map (hMemMap \<circ> maHeaders S) Hs"
    using b(1) by (intro map_cong) auto
  have "mset (map (hMemMap \<circ> maHeaders ?S') (Hs @ [H])) = add_mset (hMemMap hdr) (mset (map (hMemMap \<circ> maHeaders S) Hs))"
    unfolding b(3) map_append mset_append me by simp
  then have "owned (maCache ?S') + mset (map (hMemMap \<circ> maHeaders ?S') (Hs @ [H])) = K'"
    using K by (simp add: b(4))
  then show ?thesis
    using inv b cinv bl new dj by (simp add: sec_inv_def)
qed

section \<open>Allocation and deallocation over any cache\<close>

context block_cache
begin

lemma try_cache:
  assumes inv: "sec_inv cinv blocks owned p S Hs K" and env: "sec_env_ok env p K" and a: "a \<le> p" and Sz: "unat Sz < 2 ^ 46"
  shows "\<exists>r S' ev Hs'. tryAllocateFromCache ops env Sz (2 ^ a) Fill S = Inr (r, S', ev) \<and>
    sec_inv cinv blocks owned p S' Hs' K \<and> unmapped ev = {#} \<and> mapped ev = {#} \<and>
    new_block Sz 0 a S' Hs Hs' r \<and> sec_effect env Hs S S' (owned (maCache S)) ev"
proof -
  have g: "cinv (maCache S)" "\<forall>E\<in>blocks (maCache S). geo_ok p E" using inv by (simp_all add: sec_inv_def)
  have e: "osPageSize (sOs env) = 2 ^ p" "7 \<le> p" "p \<le> 32" using env by (simp_all add: sec_env_ok_def)
  obtain E pos c ev where r: "co_retrieve ops (sOs env) (MaxUnreleasedCachePages + MaxReleasedCachePages) Sz (2 ^ a) getHeadersSize (maCache S) =
      Inr (E, pos, c, ev)" "cinv c" "blocks c \<subseteq> blocks (maCache S)" "unmapped ev = {#}" "mapped ev = {#}"
    "if isValidBlock E then timeless E \<in> blocks (maCache S) \<and> owned (maCache S) = add_mset (cMemMap E) (owned c) \<and> handed_out Sz a E pos \<and>
       events_bytes ev \<subseteq> map_bytes (cMemMap E)
     else owned c = owned (maCache S) \<and> events_bytes ev = {}"
  proof -
    have "unat Sz < 2 ^ 48" using Sz by simp
    from retrieve_law [OF g e a this, of "MaxUnreleasedCachePages + MaxReleasedCachePages"] show thesis
      by (elim exE conjE) (rule that; assumption)
  qed
  have bl: "\<forall>E\<in>blocks c. geo_ok p E" using g(2) r(3) by blast
  show ?thesis
  proof (cases "isValidBlock E")
    case False
    have "sec_inv cinv blocks owned p (S\<lparr>maCache := c\<rparr>) Hs K"
      using inv r(2,6) bl False by (simp add: sec_inv_def)
    then show ?thesis using r(4-6) False by (simp add: tryAllocateFromCache_def r(1) new_block_def sec_effect_def)
  next
    case True
    let ?hdr = "\<lparr> hCommitBase = cCommitBase E, hCommitSize = cCommitSize E, ArenaOwnerPid = 0, Reserved = 0, hMemMap = cMemMap E \<rparr>"
    let ?S = "S\<lparr>maCache := c\<rparr>"
    have v: "geo_ok p (timeless E)" "owned (maCache S) = add_mset (cMemMap E) (owned c)" "handed_out Sz a E pos"
      "events_bytes ev \<subseteq> map_bytes (cMemMap E)"
      using r(6) True g(2) by auto
    have hd: "live_hdr_ok p ?hdr pos"
      using v(1,3) by (auto simp: live_hdr_ok_def geo_ok_def block_of_def timeless_def handed_out_def)
    have "add_mset (hMemMap ?hdr) (owned c) + mset (map (hMemMap \<circ> maHeaders S) Hs) = K" "disjoint_maps K"
      using inv v(2) by (simp_all add: sec_inv_def)
    note n = sec_inv_push [OF inv r(2) bl hd this]
    obtain S' ev' where t: "tryAllocateFromCache ops env Sz (2 ^ a) Fill S = Inr (Some (pos + 64, cCommitBase E + cCommitSize E), S', ev')"
      "maHeaders S' = maHeaders (push_block pos ?hdr ?S)" "maLinks S' = maLinks (push_block pos ?hdr ?S)"
      "InUseBlocks S' = InUseBlocks (push_block pos ?hdr ?S)" "maCache S' = maCache (push_block pos ?hdr ?S)"
      "maPool S' = maPool (push_block pos ?hdr ?S)" "unmapped ev' = {#}" "mapped ev' = {#}"
      "events_bytes ev' \<subseteq> events_bytes ev \<union> bytes_at (pos + 64) (unat (cCommitBase E + cCommitSize E - (pos + 64)))"
      using True r(4,5) by (auto simp: tryAllocateFromCache_def r(1) Let_def LargeBlock_getHeaderSize_def)
    have i: "sec_inv cinv blocks owned p S' (Hs @ [pos]) K"
      using n sec_inv_cong [OF t(2-6)] by simp
    have h: "maHeaders S' pos = ?hdr" by (simp add: t(2) push_block_def split: prod.split)
    have "unat (cCommitBase E) + unat (cCommitSize E) < 2 ^ 48"
      using v(1) by (auto simp: geo_ok_def timeless_def in_map_def)
    then have ue: "unat (cCommitBase E + cCommitSize E) = unat (cCommitBase E) + unat (cCommitSize E)"
      "unat (pos + 64) = unat pos + 64"
      using v(3) by (subst unat_add_lem [THEN iffD1]; simp add: handed_out_def)+
    have kept: "maHeaders S' G = maHeaders S G" if "G \<in> set Hs" for G
      using that n by (auto simp: t(2) push_block_def split: prod.split)
    have "bytes_at (pos + 64) (unat (cCommitBase E + cCommitSize E - (pos + 64))) \<subseteq> map_bytes (cMemMap E)"
    proof -
      have le: "unat (pos + 64) \<le> unat (cCommitBase E + cCommitSize E)" using v(3) ue by (simp add: handed_out_def)
      then have "unat (cCommitBase E + cCommitSize E - (pos + 64)) = unat (cCommitBase E) + unat (cCommitSize E) - (unat pos + 64)"
        using ue by (subst unat_sub) (simp_all add: word_le_nat_alt)
      moreover have "unat (mBase (cMemMap E)) \<le> unat (pos + 64)" "unat (cCommitBase E) + unat (cCommitSize E) \<le> unat (mBase (cMemMap E)) + unat (mCapacity (cMemMap E))"
        "unat (mBase (cMemMap E)) + unat (mCapacity (cMemMap E)) \<le> 2 ^ 64"
        using v(1,3) ue by (auto simp: geo_ok_def timeless_def in_map_def handed_out_def)
      ultimately show ?thesis using le ue unfolding map_bytes_def by (intro bytes_at_subset) simp_all
    qed
    then have "events_bytes ev' \<subseteq> maps_bytes (owned (maCache S))" using t(9) v(2,4) by auto
    then have eff: "sec_effect env Hs S S' (owned (maCache S)) ev'" using kept t(8) by (simp add: sec_effect_def)
    have "E' = sec_getBlockEnd S' P \<and> unat P + 16 + unat Sz \<le> unat E' \<and> isAligned (P + 16) (2 ^ a) \<and>
        unat E' < unat P + 16 + unat Sz + 0 + 2 ^ a"
      if "P = pos + 64" "E' = cCommitBase E + cCommitSize E" for P E'
      using v(3) unfolding that by (simp add: sec_getBlockEnd_def LargeBlock_getHeader_def LargeBlock_getHeaderSize_def h ue handed_out_def add.commute)
    then show ?thesis using t(1,7,8) i n eff
      by (intro exI [of _ "Some (pos + 64, cCommitBase E + cCommitSize E)"]) (auto simp: new_block_def)
  qed
qed

lemma new_mapping:
  assumes inv: "sec_inv cinv blocks owned p S Hs K" and env: "sec_env_ok env p K" and a: "a \<le> 40" and Sz: "unat Sz < 2 ^ 46"
    and r: "allocate_new env Sz (2 ^ a) S = (r, S', ev)"
  shows "\<exists>Hs'. sec_inv cinv blocks owned p S' Hs' (K + mapped ev - unmapped ev) \<and> unmapped ev \<subseteq># K + mapped ev \<and>
    new_block Sz 0 a S' Hs Hs' r \<and> sec_effect env Hs S S' {#} ev"
proof (cases "reserve env (mapping_size (2 ^ p) Sz (2 ^ a))")
  case None
  then show ?thesis using r inv env by (auto simp: allocate_new_def sec_env_ok_def new_block_def sec_effect_def)
next
  case (Some b)
  let ?n = "mapping_size (2 ^ p) Sz (2 ^ a)" and ?M = "\<lparr> mBase = b, mCapacity = mapping_size (2 ^ p) Sz (2 ^ a) \<rparr>"
  have e: "osPageSize (sOs env) = 2 ^ p" "7 \<le> p" "p \<le> 32" "isAligned b (2 ^ p)" "unat b + unat ?n < 2 ^ 48"
    "\<forall>m\<in>#K. map_range ?M \<inter> map_range m = {}"
    using env Some by (simp_all add: sec_env_ok_def)
  obtain B Z A where pl: "place_block (2 ^ p) Sz (2 ^ a) b = (B, Z, A)" using prod_cases3 by blast
  note f = place_block_fits [OF e(3,2) a Sz e(4,5) pl]
  obtain ok ms where ms: "mapSecondary (sOs env) False B Z A 0 ?M = (ok, ms)" by fastforce
  have mm: "unmapped ms = {#}" "mapped ms = {#}"
    using ms by (auto simp: mapSecondary_def remap_def remap2_def Let_def split: if_splits)
  have msb: "events_bytes ms \<subseteq> map_bytes ?M"
    unfolding mapSecondary_bytes [OF ms] map_bytes_def using f(1,3) e(5) by (intro bytes_at_subset) simp_all
  have res: "reserve env (mCapacity ?M) = Some (mBase ?M)" using Some by simp
  have c: "cinv (maCache S)" "\<forall>E\<in>blocks (maCache S). geo_ok p E" using inv by (simp_all add: sec_inv_def)
  show ?thesis
  proof (cases ok)
    case False
    then have "r = None" "S' = S" "ev = Map ?M # ms @ [Unmap ?M]"
      using r by (simp_all add: allocate_new_def e(1) Some pl ms Let_def)
    moreover from this have "sec_effect env Hs S S' {#} ev" using mm msb res by (simp add: sec_effect_def map_bytes_def)
    ultimately show ?thesis using inv mm by (simp add: new_block_def)
  next
    case True
    let ?hdr = "\<lparr> hCommitBase = B, hCommitSize = Z, ArenaOwnerPid = 0, Reserved = 0, hMemMap = ?M \<rparr>"
    have hs: "unat (A - 80) = unat A - 80" "A - 80 + 64 + 16 = A"
      using f(4) by (simp_all add: unat_sub_if_size)
    have "0 < (2 :: nat) ^ p" by simp
    then have "0 < unat B" using f(1) by linarith
    then have B0: "B \<noteq> 0" by auto
    have hd: "live_hdr_ok p ?hdr (A - 80)"
      using f(1-5) B0 e(5) by (auto simp: live_hdr_ok_def geo_ok_def block_of_def in_map_def hs(1))
    have K: "add_mset (hMemMap ?hdr) (owned (maCache S)) + mset (map (hMemMap \<circ> maHeaders S) Hs) = add_mset ?M K"
      using inv by (simp add: sec_inv_def)
    have dj: "disjoint_maps (add_mset ?M K)"
      using inv e(6) by (intro disjoint_maps_add) (simp_all add: sec_inv_def)
    note n = sec_inv_push [OF inv c hd K dj]
    have r': "r = Some (A - 80 + 64, B + Z)" "ev = Map ?M # ms"
      "maHeaders S' = maHeaders (push_block (A - 80) ?hdr (S\<lparr>maCache := maCache S\<rparr>))"
      "maLinks S' = maLinks (push_block (A - 80) ?hdr (S\<lparr>maCache := maCache S\<rparr>))"
      "InUseBlocks S' = InUseBlocks (push_block (A - 80) ?hdr (S\<lparr>maCache := maCache S\<rparr>))"
      "maCache S' = maCache (push_block (A - 80) ?hdr (S\<lparr>maCache := maCache S\<rparr>))"
      "maPool S' = maPool (push_block (A - 80) ?hdr (S\<lparr>maCache := maCache S\<rparr>))"
      using r True by (auto simp: allocate_new_def e(1) Some pl ms Let_def getHeadersSize_def LargeBlock_getHeaderSize_def)
    have i: "sec_inv cinv blocks owned p S' (Hs @ [A - 80]) (add_mset ?M K)"
      using n sec_inv_cong [OF r'(3-7)] by simp
    have h: "maHeaders S' (A - 80) = ?hdr" by (simp add: r'(3) push_block_def split: prod.split)
    have u: "unat (B + Z) = unat B + unat Z" "unat (A - 80 + 64) = unat A - 16"
      using f e(5) hs(1) by (subst unat_add_lem [THEN iffD1]; simp)+
    have kept: "maHeaders S' G = maHeaders S G" if "G \<in> set Hs" for G
      using that n by (auto simp: r'(3) push_block_def split: prod.split)
    have eff: "sec_effect env Hs S S' {#} ev" using kept r'(2) mm msb res by (simp add: sec_effect_def map_bytes_def)
    have "E' = sec_getBlockEnd S' P \<and> unat P + 16 + unat Sz \<le> unat E' \<and> isAligned (P + 16) (2 ^ a) \<and>
        unat E' < unat P + 16 + unat Sz + 0 + 2 ^ a"
      if "P = A - 80 + 64" "E' = B + Z" for P E'
      using f(4-7) unfolding that hs(2)
      by (simp add: sec_getBlockEnd_def LargeBlock_getHeader_def LargeBlock_getHeaderSize_def h u [simplified])
    then show ?thesis using i n mm r'(1,2) eff by (intro exI [of _ "Hs @ [A - 80]"]) (simp add: new_block_def)
  qed
qed

lemma allocate_spec:
  assumes inv: "sec_inv cinv blocks owned p S Hs K" and env: "sec_env_ok env p K" and a: "a \<le> 40" and Sz: "unat Sz < 2 ^ 45"
  shows "\<exists>r S' ev Hs'. sec_allocate ops env Opt Sz (2 ^ a) Fill S = Some (Inr (r, S', ev)) \<and>
    sec_inv cinv blocks owned p S' Hs' (K + mapped ev - unmapped ev) \<and> unmapped ev \<subseteq># K + mapped ev \<and>
    new_block Sz 16 (max a 4) S' Hs Hs' r \<and> sec_effect env Hs S S' (owned (maCache S)) ev"
proof -
  let ?Z = "if opt_get Opt AddLargeAllocationSlack then Sz + 16 else Sz" and ?a = "max a 4"
  let ?c = "(2 :: uptr) ^ ?a < 2 ^ p \<and> co_canCache ops (roundUp (?Z + getHeadersSize) (2 ^ p)) (maCache S)"
  have e: "osPageSize (sOs env) = 2 ^ p" "p \<le> 32" using env by (simp_all add: sec_env_ok_def)
  have Z: "unat ?Z < 2 ^ 46" "unat Sz \<le> unat ?Z" "unat ?Z \<le> unat Sz + 16"
  proof -
    have "unat (Sz + 16) = unat Sz + 16" using Sz by (subst unat_add_lem [THEN iffD1]) simp_all
    then show "unat ?Z < 2 ^ 46" "unat Sz \<le> unat ?Z" "unat ?Z \<le> unat Sz + 16" using Sz by auto
  qed
  have al: "max (2 ^ a) (16 :: uptr) = 2 ^ ?a"
    using max_exp_word [of a 4] a by simp
  have P: "\<not> pInitialized (maPool S)" using inv by (simp add: sec_inv_def)
  have eq: "sec_allocate ops env Opt Sz (2 ^ a) Fill S =
      Some (bindR (if ?c then tryAllocateFromCache ops env ?Z (2 ^ ?a) Fill S else Inr (None, S, [])) (\<lambda>(r, S, ev').
        case r of Some r \<Rightarrow> Inr (Some r, S, [] @ ev')
        | None \<Rightarrow> (case allocate_new env ?Z (2 ^ ?a) S of (r, S, ev'') \<Rightarrow> Inr (r, S, [] @ ev' @ ev''))))"
    using P by (simp add: sec_allocate_def shouldUseArena_def Let_def e(1) al)
  have mono: "new_block ?Z 0 ?a S' Hs Hs' r \<Longrightarrow> new_block Sz 16 ?a S' Hs Hs' r" for S' :: "'c map_alloc" and Hs' r
    using Z(2,3) by (auto simp: new_block_def split: option.splits)
  obtain r S1 ev1 Hs1 where t: "(if ?c then tryAllocateFromCache ops env ?Z (2 ^ ?a) Fill S else Inr (None, S, [])) = Inr (r, S1, ev1)"
    "sec_inv cinv blocks owned p S1 Hs1 K" "unmapped ev1 = {#}" "mapped ev1 = {#}" "new_block ?Z 0 ?a S1 Hs Hs1 r"
    "sec_effect env Hs S S1 (owned (maCache S)) ev1"
  proof (cases ?c)
    case True
    then have "(2 :: nat) ^ ?a < 2 ^ p" using a e(2) by (simp add: word_less_nat_alt unat_exp)
    then have "?a \<le> p" by (meson less_imp_le power_less_imp_less_exp one_less_numeral_iff semiring_norm(76))
    from try_cache [OF inv env this Z(1), of Fill] True show thesis
      by (elim exE conjE) (rule that; simp)
  next
    case False
    then show thesis using inv by (intro that [of None S "[]" Hs, OF if_not_P]) (simp_all add: new_block_def sec_effect_def)
  qed
  show ?thesis
  proof (cases r)
    case (Some x)
    then have "sec_allocate ops env Opt Sz (2 ^ a) Fill S = Some (Inr (r, S1, ev1))"
      by (cases x) (simp add: eq t(1) del: if_split_asm)
    then show ?thesis using t(2-6) mono by (intro exI conjI) (assumption | simp)+
  next
    case None
    obtain r2 S2 ev2 where n: "allocate_new env ?Z (2 ^ ?a) S1 = (r2, S2, ev2)" using prod_cases3 by blast
    have a40: "?a \<le> 40" using a by simp
    obtain Hs2 where h: "sec_inv cinv blocks owned p S2 Hs2 (K + mapped ev2 - unmapped ev2)" "unmapped ev2 \<subseteq># K + mapped ev2"
      "new_block ?Z 0 ?a S2 Hs1 Hs2 r2" "sec_effect env Hs1 S1 S2 {#} ev2"
      using new_mapping [OF t(2) env a40 Z(1) n] by blast
    have Hs1: "Hs1 = Hs" using t(5) None by (simp add: new_block_def)
    moreover have "sec_effect env Hs S S2 (owned (maCache S)) (ev1 @ ev2)"
      using sec_effect_trans [OF t(6)] h(4) Hs1 by simp
    moreover have "sec_allocate ops env Opt Sz (2 ^ a) Fill S = Some (Inr (r2, S2, ev1 @ ev2))"
      by (simp only: eq t(1) bindR.simps prod.case None option.case n append_Nil)
    ultimately show ?thesis using t(3,4) h mono by (intro exI [of _ r2] exI [of _ S2] exI [of _ "ev1 @ ev2"] exI [of _ Hs2]) simp
  qed
qed

lemma deallocate_spec:
  assumes inv: "sec_inv cinv blocks owned p S (xs @ H # ys) K" and env: "sec_env_ok env p K"
  shows "\<exists>S' ev. sec_deallocate ops env (H + 64) S = Some (Inr (S', ev)) \<and>
    sec_inv cinv blocks owned p S' (xs @ ys) (K - unmapped ev) \<and> unmapped ev \<subseteq># K \<and> mapped ev = {#} \<and>
    sec_effect env (xs @ ys) S S' (add_mset (hMemMap (maHeaders S H)) (owned (maCache S))) ev"
proof -
  let ?hdr = "maHeaders S H" and ?rest = "mset (map (hMemMap \<circ> maHeaders S) (xs @ ys))"
  have d: "dl_abs ptr_link_op ptr_node (maLinks S) (InUseBlocks S) (xs @ H # ys)" and P: "\<not> pInitialized (maPool S)"
    and c: "cinv (maCache S)" "\<forall>E\<in>blocks (maCache S). geo_ok p E" and H: "live_hdr_ok p ?hdr H"
    and K: "K = add_mset (hMemMap ?hdr) (owned (maCache S) + ?rest)" and dj: "disjoint_maps K"
    using inv by (auto simp: sec_inv_def)
  have e: "page_ok (sOs env)" "\<forall>n. growOk (sOs env) n"
  proof -
    have "osPageSize (sOs env) = 2 ^ p" "p \<le> 32" using env by (simp_all add: sec_env_ok_def)
    then show "page_ok (sOs env)"
      using power_increasing [of p 32 "2 :: nat"] by (auto simp: page_ok_def isPowerOfTwo_iff unat_exp intro!: exI [of _ p])
    show "\<forall>n. growOk (sOs env) n" using env by (simp add: sec_env_ok_def)
  qed
  obtain s l where r: "dl_remove ptr_link_op H (maLinks S, InUseBlocks S) = Inr (s, l)" "dl_abs ptr_link_op ptr_node s l (xs @ ys)"
    using ptr.dl_remove_refines [OF d] by blast
  let ?S = "count_free (hCommitSize ?hdr) (mCapacity (hMemMap ?hdr)) (S\<lparr>maLinks := s, InUseBlocks := l\<rparr>)"
  have f: "LargeBlock_getHeader (H + 64) = H" by (simp add: LargeBlock_getHeader_def LargeBlock_getHeaderSize_def)
  have inv': "sec_inv cinv blocks owned p (?S\<lparr>maCache := c'\<rparr>) (xs @ ys) (owned c' + ?rest)"
    if "cinv c'" "\<forall>E\<in>blocks c'. geo_ok p E" "owned c' + ?rest \<subseteq># K" for c'
    using that disjoint_maps_mono [OF dj that(3)] inv P r(2) by (auto simp: sec_inv_def)
  show ?thesis
  proof (cases "co_canCache ops (hCommitSize ?hdr) (maCache S)")
    case True
    have gb: "geo_ok p (block_of (hCommitBase ?hdr) (hCommitSize ?hdr) (H + 64) (hMemMap ?hdr))"
      using H by (simp add: live_hdr_ok_def geo_ok_def block_of_def)
    obtain c' ev where st: "co_store ops (sOs env) False (hCommitBase ?hdr) (hCommitSize ?hdr) (H + 64) (hMemMap ?hdr) (maCache S) = Inr (c', ev)"
      "cinv c'" "blocks c' \<subseteq> insert (block_of (hCommitBase ?hdr) (hCommitSize ?hdr) (H + 64) (hMemMap ?hdr)) (blocks (maCache S))"
      "owned c' + unmapped ev = add_mset (hMemMap ?hdr) (owned (maCache S))" "mapped ev = {#}"
      "events_bytes ev \<subseteq> maps_bytes (add_mset (hMemMap ?hdr) (owned (maCache S)))"
      using store_law [OF c gb True e] by (elim exE conjE) (rule that; assumption)
    have K': "K = owned c' + ?rest + unmapped ev" using st(4) by (simp add: K)
    from gb have g: "\<forall>E\<in>blocks c'. geo_ok p E" using st(3) c(2) by blast
    have "sec_deallocate ops env (H + 64) S = Some (Inr (?S\<lparr>maCache := c'\<rparr>, ev))"
      using True P by (simp add: sec_deallocate_def Let_def f r(1) st(1) LargeBlock_getHeaderSize_def)
    moreover have "owned c' + ?rest \<subseteq># K" "K - unmapped ev = owned c' + ?rest" "unmapped ev \<subseteq># K" unfolding K' by simp_all
    moreover have "sec_effect env (xs @ ys) S (?S\<lparr>maCache := c'\<rparr>) (add_mset (hMemMap ?hdr) (owned (maCache S))) ev"
      using st(5,6) by (simp add: sec_effect_def)
    ultimately show ?thesis using inv' [OF st(2) g] st(5)
      by (intro exI [of _ "?S\<lparr>maCache := c'\<rparr>"] exI [of _ ev]) simp
  next
    case False
    have "sec_deallocate ops env (H + 64) S = Some (Inr (?S, [Unmap (hMemMap ?hdr)]))"
      using False P by (simp add: sec_deallocate_def Let_def f r(1))
    moreover have "owned (maCache S) + ?rest \<subseteq># K" "K - unmapped [Unmap (hMemMap ?hdr)] = owned (maCache S) + ?rest"
      by (simp_all add: K)
    moreover have same: "?S\<lparr>maCache := maCache S\<rparr> = ?S" by (simp add: count_free_def)
    moreover have "sec_effect env (xs @ ys) S ?S (add_mset (hMemMap ?hdr) (owned (maCache S))) [Unmap (hMemMap ?hdr)]"
      by (simp add: sec_effect_def)
    ultimately show ?thesis using inv' [OF c, unfolded same]
      by (intro exI [of _ ?S] exI [of _ "[Unmap (hMemMap ?hdr)]"]) (simp add: K)
  qed
qed

end

end
