(* ===== verification/Secondary_Properties.thy ===== *)
theory Secondary_Properties
  imports Secondary_System
begin

text \<open>The correctness of the secondary allocator and its cache: initialisation, the order of the cache,
  the choice of a block, what is released of it, and the system of allocations and deallocations over
  MapAllocatorCache.\<close>

section \<open>Initialisation\<close>

lemma il_clear_abs: "dl_abs op node s (il_clear op l) []"
  by (simp add: dl_abs_def sl_abs_def il_clear_def)

lemma cache_init_links:
  assumes "n \<le> 65535"
  shows "\<exists>s' l'. fold (\<lambda>I. sl_push_back cop (Some I)) [0..<n] (s, il_clear cop l) = (s', l') \<and>
    sl_abs cop cnode s' l' (map Some [0..<n])"
  using assms
proof (induction n)
  case 0
  then show ?case using il_clear_abs [of cop cnode s l] by (simp add: dl_abs_def)
next
  case (Suc n)
  then obtain s1 l1 where f: "fold (\<lambda>I. sl_push_back cop (Some I)) [0..<n] (s, il_clear cop l) = (s1, l1)"
    "sl_abs cop cnode s1 l1 (map Some [0..<n])" by auto
  have "cnode (Some n)" "Some n \<notin> set (map Some [0..<n])" "Suc (List.length (map Some [0..<n])) < 2 ^ 64"
    using Suc.prems cnode_Some [of n] by auto
  from idx.push_back_refines [OF f(2) this] show ?case
    using f(1) by (auto split: prod.splits)
qed

lemma cache_setOption_frame:
  "cEntries (snd (cache_setOption cfg op v C)) = cEntries C" "cQuarantine (snd (cache_setOption cfg op v C)) = cQuarantine C"
  "cLinks (snd (cache_setOption cfg op v C)) = cLinks C" "AvailEntries (snd (cache_setOption cfg op v C)) = AvailEntries C"
  "LRUEntries (snd (cache_setOption cfg op v C)) = LRUEntries C" 
  "op \<noteq> MaxCacheEntriesCount \<Longrightarrow> MaxEntriesCount (snd (cache_setOption cfg op v C)) = MaxEntriesCount C"
  by (cases op; simp)+

lemma cache_init_inv:
  assumes N: "EntriesArraySize cfg < 65535" and i: "\<forall>i<EntriesArraySize cfg. \<not> isValidBlock (cEntries C i)"
  shows "cache_inv cfg [] [0..<EntriesArraySize cfg] (cache_init cfg ms C) \<and>
    cQuarantine (cache_init cfg ms C) = cQuarantine C"
proof -
  let ?N = "EntriesArraySize cfg"
  define C1 where "C1 = snd (cache_setOption cfg MaxCacheEntriesCount (int (DefaultMaxEntriesCount cfg)) C)"
  define C2 where "C2 = snd (cache_setOption cfg MaxCacheEntrySize (sint (DefaultMaxEntrySize cfg)) C1)"
  define C3 where "C3 = snd (cache_setOption cfg ReleaseInterval (if DefaultReleaseToOsIntervalMs cfg \<noteq> INT32_MIN
           then DefaultReleaseToOsIntervalMs cfg else ms) C2)"
  have f: "cEntries C3 = cEntries C" "cQuarantine C3 = cQuarantine C"
    by (simp_all add: C1_def C2_def C3_def cache_setOption_frame del: cache_setOption.simps)
  have m: "MaxEntriesCount C3 = MaxEntriesCount C1"
    by (simp add: C2_def C3_def cache_setOption_frame del: cache_setOption.simps)
  have "MaxEntriesCount C1 \<le> of_nat ?N" by (simp add: C1_def)
  moreover have "unat (of_nat ?N :: u32) = ?N" using N by (simp add: unat_of_nat take_bit_eq_mod)
  ultimately have m: "unat (MaxEntriesCount C3) \<le> ?N" unfolding m by (simp add: word_le_nat_alt)
  obtain s l where l: "fold (\<lambda>I. sl_push_back cop (Some I)) [0..<?N] (cLinks C3, il_clear cop (AvailEntries C3)) = (s, l)"
    "sl_abs cop cnode s l (map Some [0..<?N])"
    using cache_init_links [of ?N "cLinks C3" "AvailEntries C3"] N by auto
  have c: "cache_init cfg ms C = C3\<lparr>LRUEntries := il_clear cop (LRUEntries C3), cLinks := s, AvailEntries := l\<rparr>"
    unfolding cache_init_def Let_def C1_def [symmetric] C2_def [symmetric] C3_def [symmetric] l(1) by simp
  show ?thesis
    using l(2) m i N by (auto simp: c cache_inv_def il_clear_abs f)
qed

section \<open>Runs\<close>

text \<open>What a program does with the allocator: it asks for blocks of any size and alignment within the
  bounds of the platform and gives back blocks that it holds. The state is the allocator, the blocks
  in use, and the mappings that the platform has given and not got back.\<close>

inductive sec_step :: "'c cache_ops \<Rightarrow> nat \<Rightarrow> 'c map_alloc \<times> uptr set \<times> mem_map multiset \<Rightarrow>
    'c map_alloc \<times> uptr set \<times> mem_map multiset \<Rightarrow> bool" for ops p where
  alloc: "\<lbrakk> sec_env_ok env p K; unat Sz < 2 ^ 45; a \<le> 40;
      sec_allocate ops env Opt Sz (2 ^ a) Fill S = Some (Inr (r, S', ev)) \<rbrakk> \<Longrightarrow>
    sec_step ops p (S, L, K) (S', case r of None \<Rightarrow> L | Some (Ptr, E) \<Rightarrow> insert Ptr L, K + mapped ev - unmapped ev)"
| dealloc: "\<lbrakk> sec_env_ok env p K; Ptr \<in> L; sec_deallocate ops env Ptr S = Some (Inr (S', ev)) \<rbrakk> \<Longrightarrow>
    sec_step ops p (S, L, K) (S', L - {Ptr}, K + mapped ev - unmapped ev)"

definition sec_run_inv :: "('c \<Rightarrow> bool) \<Rightarrow> ('c \<Rightarrow> CachedBlock set) \<Rightarrow> ('c \<Rightarrow> mem_map multiset) \<Rightarrow> nat \<Rightarrow>
    'c map_alloc \<times> uptr set \<times> mem_map multiset \<Rightarrow> bool" where
  "sec_run_inv cinv blocks owned p = (\<lambda>(S, L, K). \<exists>Hs. sec_inv cinv blocks owned p S Hs K \<and> L = (\<lambda>H. H + 64) ` set Hs)"

text \<open>A block and its header.\<close>

definition block_range :: "'c map_alloc \<Rightarrow> uptr \<Rightarrow> nat set" where
  "block_range S Ptr = {unat (LargeBlock_getHeader Ptr)..<unat (sec_getBlockEnd S Ptr)}"

definition live_maps :: "'c map_alloc \<Rightarrow> uptr set \<Rightarrow> mem_map multiset" where
  "live_maps S L = image_mset (\<lambda>P. hMemMap (maHeaders S (LargeBlock_getHeader P))) (mset_set L)"

lemma getHeader_plus [simp]: "LargeBlock_getHeader (H + 64) = H"
  by (simp add: LargeBlock_getHeader_def LargeBlock_getHeaderSize_def)

context block_cache
begin

lemma step_inv: "sec_step ops p X Y \<Longrightarrow> sec_run_inv cinv blocks owned p X \<Longrightarrow> sec_run_inv cinv blocks owned p Y"
proof (induction rule: sec_step.induct)
  case (alloc env K Sz a Opt Fill S r S' ev L)
  then obtain Hs where inv: "sec_inv cinv blocks owned p S Hs K" "L = (\<lambda>H. H + 64) ` set Hs"
    by (auto simp: sec_run_inv_def)
  from allocate_spec [OF inv(1) alloc(1,3,2), of Opt Fill] alloc(4)
  obtain Hs' where n: "sec_inv cinv blocks owned p S' Hs' (K + mapped ev - unmapped ev)" "new_block Sz 16 (max a 4) S' Hs Hs' r"
    by auto
  have "(case r of None \<Rightarrow> L | Some (Ptr, E) \<Rightarrow> insert Ptr L) = (\<lambda>H. H + 64) ` set Hs'"
    using n(2) inv(2) by (auto simp: new_block_def split: option.splits)
  then show ?case using n(1) by (auto simp: sec_run_inv_def)
next
  case (dealloc env K Ptr L S S' ev)
  then obtain Hs where inv: "sec_inv cinv blocks owned p S Hs K" "L = (\<lambda>H. H + 64) ` set Hs"
    by (auto simp: sec_run_inv_def)
  then obtain xs H ys where H: "Ptr = H + 64" "Hs = xs @ H # ys" using dealloc(2) by (auto dest: split_list)
  have "distinct Hs" using inv(1) by (simp add: sec_inv_def dl_abs_def sl_abs_def)
  then have "L - {Ptr} = (\<lambda>H. H + 64) ` set (xs @ ys)" using H inv(2) by auto
  moreover have "sec_inv cinv blocks owned p S' (xs @ ys) (K + mapped ev - unmapped ev)"
    using deallocate_spec [OF inv(1) [unfolded H(2)] dealloc(1)] dealloc(3) H(1) by auto
  ultimately show ?case unfolding sec_run_inv_def by blast
qed

lemma run_inv: "(sec_step ops p)\<^sup>*\<^sup>* X Y \<Longrightarrow> sec_run_inv cinv blocks owned p X \<Longrightarrow> sec_run_inv cinv blocks owned p Y"
  by (induction rule: rtranclp_induct) (auto intro: step_inv)

end

lemma live_range:
  assumes "live_hdr_ok p (maHeaders S H) H"
  shows "block_range S (H + 64) \<subseteq> map_range (hMemMap (maHeaders S H))" and "unat (H + 64) + 16 \<le> unat (sec_getBlockEnd S (H + 64))"
proof -
  let ?h = "maHeaders S H"
  have g: "unat (mBase (hMemMap ?h)) \<le> unat (hCommitBase ?h)" "unat (hCommitBase ?h) + unat (hCommitSize ?h) < 2 ^ 48"
    "unat (hCommitBase ?h) + unat (hCommitSize ?h) \<le> unat (mBase (hMemMap ?h)) + unat (mCapacity (hMemMap ?h))"
    "unat (hCommitBase ?h) \<le> unat H" "unat H + 80 \<le> unat (hCommitBase ?h) + unat (hCommitSize ?h)"
    using assms by (auto simp: live_hdr_ok_def geo_ok_def block_of_def in_map_def)
  have u: "unat (hCommitBase ?h + hCommitSize ?h) = unat (hCommitBase ?h) + unat (hCommitSize ?h)" "unat (H + 64) = unat H + 64"
    using g by (subst unat_add_lem [THEN iffD1]; simp)+
  show "block_range S (H + 64) \<subseteq> map_range (hMemMap ?h)" "unat (H + 64) + 16 \<le> unat (sec_getBlockEnd S (H + 64))"
    using g by (auto simp: block_range_def map_range_def sec_getBlockEnd_def Let_def u)
qed

lemma run_inv_facts:
  assumes "sec_run_inv cinv blocks owned p (S, L, K)"
  shows "\<lbrakk> P \<in> L; Q \<in> L; P \<noteq> Q \<rbrakk> \<Longrightarrow> block_range S P \<inter> block_range S Q = {}"
    and "K = owned (maCache S) + live_maps S L"
proof -
  obtain Hs where inv: "sec_inv cinv blocks owned p S Hs K" and L: "L = (\<lambda>H. H + 64) ` set Hs"
    using assms by (auto simp: sec_run_inv_def)
  have d: "distinct Hs" using inv by (simp add: sec_inv_def dl_abs_def sl_abs_def)
  have K: "K = owned (maCache S) + mset (map (hMemMap \<circ> maHeaders S) Hs)" "disjoint_maps K"
    and live: "\<forall>H\<in>set Hs. live_hdr_ok p (maHeaders S H) H"
    using inv by (auto simp: sec_inv_def)
  show "block_range S P \<inter> block_range S Q = {}" if PQ: "P \<in> L" "Q \<in> L" "P \<noteq> Q"
  proof -
    obtain G H where GH: "P = G + 64" "Q = H + 64" "G \<in> set Hs" "H \<in> set Hs" "G \<noteq> H" using PQ L by auto
    have "mset_set {G, H} \<subseteq># mset_set (set Hs)" using GH by (intro subset_imp_msubset_mset_set) auto
    then have "{#G, H#} \<subseteq># mset Hs" using GH(5) d by (simp add: mset_set_set)
    then have "{#hMemMap (maHeaders S G), hMemMap (maHeaders S H)#} \<subseteq># mset (map (hMemMap \<circ> maHeaders S) Hs)"
      using image_mset_subseteq_mono [of "{#G, H#}" "mset Hs" "hMemMap \<circ> maHeaders S"] by simp
    then have "{#hMemMap (maHeaders S G), hMemMap (maHeaders S H)#} \<subseteq># K"
      unfolding K(1) by (simp add: subset_mset.add_increasing)
    then have "map_range (hMemMap (maHeaders S G)) \<inter> map_range (hMemMap (maHeaders S H)) = {}"
      using K(2) by (simp add: disjoint_maps_def)
    then show ?thesis using live_range(1) [of p S G] live_range(1) [of p S H] live GH by auto
  qed
  have inj: "inj_on (\<lambda>H. H + 64) (set Hs)" by (simp add: inj_on_def)
  have "mset_set L = image_mset (\<lambda>H. H + 64) (mset Hs)"
    using image_mset_mset_set [OF inj] d by (simp add: L mset_set_set)
  then have "live_maps S L = image_mset (hMemMap \<circ> maHeaders S) (mset Hs)"
    by (simp add: live_maps_def image_mset.compositionality comp_def)
  then show "K = owned (maCache S) + live_maps S L" using K(1) by simp
qed

lemma init_run_inv:
  assumes "EntriesArraySize cfg < 65535" and "QuarantineSize cfg < 2 ^ 32" and "maCache S = cache_init cfg ms C"
    and "\<forall>i. \<not> isValidBlock (cEntries C i) \<and> \<not> isValidBlock (cQuarantine C i)"
    and "InUseBlocks S = il_clear ptr_link_op l" and "\<not> pInitialized (maPool S)"
  shows "sec_run_inv (map_cache_inv cfg) map_cache_blocks (map_cache_owned cfg) p (S, {}, {#})"
proof -
  have i: "cache_inv cfg [] [0..<EntriesArraySize cfg] (maCache S)" "cQuarantine (maCache S) = cQuarantine C"
    using cache_init_inv [OF assms(1), of C ms] assms(3,4) by simp_all
  note l = lru_of [OF i(1)]
  have "map_cache_inv cfg (maCache S)" using assms(2,4) i l by (auto simp: map_cache_inv_def)
  moreover have "map_cache_blocks (maCache S) = {}" by (simp add: map_cache_blocks_def l cached_def)
  moreover have "map_cache_owned cfg (maCache S) = {#}"
    using assms(4) by (simp add: map_cache_owned_def l owned_maps_def cached_def quarantined_def i(2))
  ultimately have "sec_inv (map_cache_inv cfg) map_cache_blocks (map_cache_owned cfg) p S [] {#}"
    using assms(5,6) by (simp add: sec_inv_def il_clear_abs disjoint_maps_def)
  then show ?thesis unfolding sec_run_inv_def by auto
qed

section \<open>Properties\<close>

text \<open>A platform with pages of 4 KB that gives every mapping at 1 GB, the default configuration, and
  its initial state.\<close>

definition os4k :: os_env where
  "os4k = \<lparr> osPageSize = 4096, osTrusty = False, osFuchsia = False, remapOk = (\<lambda>_ _ _. True), growOk = (\<lambda>_. True), now = 5 \<rparr>"

definition sec4k :: sec_env where
  "sec4k = \<lparr> sOs = os4k, sArena = env4k, sPressure = \<lparr> meminfo = None, envThreshold = None, envCheckInterval = None,
     envForce = False, forceForTesting = 0, currentPid = 1 \<rparr>, sReinit = id, rseqCpu = -1, schedCpu = -1,
     FillAllocDisabled = False, sPid = 1,
     reserve = (\<lambda>n. if n < 0x10000000 then Some 0x40000000 else None) \<rparr>"

definition cache0 :: cache where
  "cache0 = \<lparr> QuarantinePos = 0, MaxEntriesCount = 0, MaxEntrySize = 0, OldestTime = 0, ReleaseToOsIntervalMs = 0,
     CallsToRetrieve = 0, SuccessfulRetrieves = 0, cEntries = (\<lambda>_. no_block), cQuarantine = (\<lambda>_. no_block),
     cLinks = \<lparr>iNext = (\<lambda>_. 0), iPrev = (\<lambda>_. 0)\<rparr>, LRUEntries = \<lparr>First = None, Last = None, Size = 0\<rparr>,
     AvailEntries = \<lparr>First = None, Last = None, Size = 0\<rparr> \<rparr>"

definition sec0 :: "cache map_alloc" where
  "sec0 = \<lparr> maCache = cache_init DefaultCacheConfig 0 cache0,
     maHeaders = (\<lambda>_. \<lparr>hCommitBase = 0, hCommitSize = 0, ArenaOwnerPid = 0, Reserved = 0, hMemMap = no_map\<rparr>),
     maLinks = \<lparr>pNext = (\<lambda>_. 0), pPrev = (\<lambda>_. 0)\<rparr>, InUseBlocks = il_clear ptr_link_op \<lparr>First = 0, Last = 0, Size = 0\<rparr>,
     AllocatedBytes = 0, FreedBytes = 0, FragmentedBytes = 0, LargestSize = 0, NumberOfAllocs = 0, NumberOfFrees = 0,
     maStats = (\<lambda>_. 0), maPool = (pool4k 0)\<lparr>pInitialized := False\<rparr> \<rparr>"

lemma sec0_init:
  "EntriesArraySize DefaultCacheConfig < 65535" "QuarantineSize DefaultCacheConfig < 2 ^ 32"
  "maCache sec0 = cache_init DefaultCacheConfig 0 cache0" "\<forall>i. \<not> isValidBlock (cEntries cache0 i) \<and> \<not> isValidBlock (cQuarantine cache0 i)"
  "InUseBlocks sec0 = il_clear ptr_link_op \<lparr>First = 0, Last = 0, Size = 0\<rparr>" "\<not> pInitialized (maPool sec0)"
  by (simp_all add: DefaultCacheConfig_def sec0_def cache0_def no_block_def isValidBlock_def)

lemma sec4k_ok: "sec_env_ok sec4k 12 {#}"
proof -
  have "isAligned 0x40000000 (2 ^ 12 :: uptr)" by (simp add: isAligned_def)
  then show ?thesis by (auto simp: sec_env_ok_def sec4k_def os4k_def word_less_nat_alt split: if_splits)
qed

lemma sec0_allocate:
  "\<exists>Ptr E S' ev. sec_allocate (map_cache_ops DefaultCacheConfig) sec4k 0 10000 (2 ^ 12) 0 sec0 = Some (Inr (Some (Ptr, E), S', ev))"
proof -
  have "\<exists>r S' ev. allocate_new sec4k 10000 4096 sec0 = (Some r, S', ev)"
    by (simp add: allocate_new_def sec4k_def os4k_def mapping_size_def getHeadersSize_def LargeBlock_getHeaderSize_def
        roundUp_def place_block_def mapSecondary_def remap_def Let_def MAP_RESIZABLE_def MAP_ALLOWNOMEM_def MaxUnreleasedCachePages_def)
  then show ?thesis
    by (auto simp: sec_allocate_def shouldUseArena_def sec0_init Let_def sec4k_def os4k_def opt_get_def max_def)
qed

text \<open>C19: After any sequence of allocations and deallocations from the initial state, with the cache
  reusing blocks and evicting them: the blocks in use and their headers do not overlap, and the
  mappings the platform has given and not got back are those of the blocks in use and of the cache,
  each once. No mapping leaks and none is unmapped while it is in use.\<close>

theorem sec_blocks_disjoint:
  assumes "EntriesArraySize cfg < 65535" and "QuarantineSize cfg < 2 ^ 32" and "maCache S\<^sub>0 = cache_init cfg ms C"
    and "\<forall>i. \<not> isValidBlock (cEntries C i) \<and> \<not> isValidBlock (cQuarantine C i)"
    and "InUseBlocks S\<^sub>0 = il_clear ptr_link_op l" and "\<not> pInitialized (maPool S\<^sub>0)"
    and run: "(sec_step (map_cache_ops cfg) p)\<^sup>*\<^sup>* (S\<^sub>0, {}, {#}) (S, L, K)"
  shows "(\<forall>P\<in>L. \<forall>Q\<in>L. P \<noteq> Q \<longrightarrow> block_range S P \<inter> block_range S Q = {}) \<and>
    K = map_cache_owned cfg (maCache S) + live_maps S L"
  using run_inv_facts [OF map_cache.run_inv [OF run init_run_inv [OF assms(1-6)]]] by simp

text \<open>C20: In every state so reached, an allocation returns, without an error, and a block that it gives
  is not one in use, has room for the headers and the size up to its end, and is aligned; and every
  block in use can be given back without an error.\<close>

theorem sec_operations_total:
  assumes "EntriesArraySize cfg < 65535" and "QuarantineSize cfg < 2 ^ 32" and "maCache S\<^sub>0 = cache_init cfg ms C"
    and "\<forall>i. \<not> isValidBlock (cEntries C i) \<and> \<not> isValidBlock (cQuarantine C i)"
    and "InUseBlocks S\<^sub>0 = il_clear ptr_link_op l" and "\<not> pInitialized (maPool S\<^sub>0)"
    and run: "(sec_step (map_cache_ops cfg) p)\<^sup>*\<^sup>* (S\<^sub>0, {}, {#}) (S, L, K)"
    and env: "sec_env_ok env p K" and req: "unat Sz < 2 ^ 45" "a \<le> 40"
  shows "(\<exists>r S' ev. sec_allocate (map_cache_ops cfg) env Opt Sz (2 ^ a) Fill S = Some (Inr (r, S', ev)) \<and>
      (\<forall>Ptr E. r = Some (Ptr, E) \<longrightarrow> Ptr \<notin> L \<and> E = sec_getBlockEnd S' Ptr \<and> unat Ptr + 16 + unat Sz \<le> unat E \<and>
        isAligned (Ptr + 16) (2 ^ max a 4))) \<and>
    (\<forall>Ptr\<in>L. \<exists>S' ev. sec_deallocate (map_cache_ops cfg) env Ptr S = Some (Inr (S', ev)))"
proof -
  obtain Hs where inv: "sec_inv (map_cache_inv cfg) map_cache_blocks (map_cache_owned cfg) p S Hs K"
    and L: "L = (\<lambda>H. H + 64) ` set Hs"
    using map_cache.run_inv [OF run init_run_inv [OF assms(1-6)]] by (auto simp: sec_run_inv_def)
  obtain r S' ev Hs' where r: "sec_allocate (map_cache_ops cfg) env Opt Sz (2 ^ a) Fill S = Some (Inr (r, S', ev))"
    "new_block Sz 16 (max a 4) S' Hs Hs' r"
    using map_cache.allocate_spec [OF inv env req(2,1), of Opt Fill] by blast
  have "Ptr \<notin> L" if "Ptr - 64 \<notin> set Hs" for Ptr using that L by auto
  then have "\<forall>Ptr E. r = Some (Ptr, E) \<longrightarrow> Ptr \<notin> L \<and> E = sec_getBlockEnd S' Ptr \<and> unat Ptr + 16 + unat Sz \<le> unat E \<and>
        isAligned (Ptr + 16) (2 ^ max a 4)"
    using r(2) by (auto simp: new_block_def)
  moreover have "\<exists>S' ev. sec_deallocate (map_cache_ops cfg) env Ptr S = Some (Inr (S', ev))" if P: "Ptr \<in> L" for Ptr
  proof -
    obtain xs H ys where H: "Ptr = H + 64" "Hs = xs @ H # ys" using P L by (auto dest: split_list)
    show ?thesis using map_cache.deallocate_spec [OF inv [unfolded H(2)] env] H(1) by blast
  qed
  ultimately show ?thesis using r(1) by blast
qed

theorem sec_blocks_disjoint_witness:
  "\<exists>S L K. (sec_step (map_cache_ops DefaultCacheConfig) 12)\<^sup>*\<^sup>* (sec0, {}, {#}) (S, L, K) \<and> L \<noteq> {} \<and>
     K = map_cache_owned DefaultCacheConfig (maCache S) + live_maps S L"
proof -
  obtain Ptr E S ev where a: "sec_allocate (map_cache_ops DefaultCacheConfig) sec4k 0 10000 (2 ^ 12) 0 sec0 = Some (Inr (Some (Ptr, E), S, ev))"
    using sec0_allocate by blast
  have "sec_step (map_cache_ops DefaultCacheConfig) 12 (sec0, {}, {#})
      (S, case Some (Ptr, E) of None \<Rightarrow> {} | Some (Ptr, E) \<Rightarrow> insert Ptr {}, {#} + mapped ev - unmapped ev)"
    by (rule sec_step.alloc [OF sec4k_ok _ _ a]) simp_all
  then have r: "(sec_step (map_cache_ops DefaultCacheConfig) 12)\<^sup>*\<^sup>* (sec0, {}, {#}) (S, {Ptr}, mapped ev - unmapped ev)"
    by (intro r_into_rtranclp) simp
  show ?thesis using sec_blocks_disjoint [OF sec0_init r] r by blast
qed

theorem sec_operations_total_witness:
  "\<exists>r S' ev. sec_allocate (map_cache_ops DefaultCacheConfig) sec4k 0 100000 (2 ^ 5) 1 sec0 = Some (Inr (r, S', ev))"
  using sec_operations_total [OF sec0_init rtranclp.rtrancl_refl sec4k_ok, of 100000 5 0 1] by auto

text \<open>C21: store makes the given block the most recently used of the cache and keeps as many of the
  others as fit, in their order; the invariant of the cache holds afterwards, and every mapping is
  either still owned by the cache or unmapped, with the quarantine of tagging or without.\<close>

theorem cache_store_keeps_order:
  assumes "cache_inv cfg lru av C" and "MaxEntriesCount C \<noteq> 0" and "CommitBase \<noteq> 0"
    and "page_ok env" and "\<forall>n. growOk env n" and "QuarantineSize cfg < 2 ^ 32"
  shows "\<exists>C' ev lru' av'. cache_store env cfg tag CommitBase CommitSize BlockBegin M C = Inr (C', ev) \<and>
    cache_inv cfg lru' av' C' \<and>
    owned_maps cfg lru' C' + unmapped ev = owned_maps cfg lru C + {#M#} \<and>
    (\<not> tag \<longrightarrow> map timeless (cached lru' C') = block_of CommitBase CommitSize BlockBegin M #
      map timeless (take (unat (MaxEntriesCount C) - 1) (cached lru C)))"
proof -
  let ?E = "block_of CommitBase CommitSize BlockBegin M"
  have E: "timeless ?E = ?E" "cMemMap ?E = M" by (simp_all add: timeless_def block_of_def)
  obtain C' ev lru' av' where r: "cache_store env cfg tag CommitBase CommitSize BlockBegin M C = Inr (C', ev)"
    "cache_inv cfg lru' av' C'" "stored_block cfg tag ?E lru C lru' C' ev"
    using cache_store_spec [OF assms, of tag CommitSize BlockBegin M] unfolding block_of_def by blast
  then show ?thesis
    by (intro exI [of _ C'] exI [of _ ev] exI [of _ lru'] exI [of _ av']) (simp add: stored_block_def E)
qed

theorem cache_store_keeps_order_witness:
  "\<exists>C' ev lru' av'. cache_store os4k DefaultCacheConfig False 0x10000 0x8000 0x10040 \<lparr>mBase = 0xf000, mCapacity = 0xa000\<rparr>
     (cache_init DefaultCacheConfig 0 cache0) = Inr (C', ev) \<and> cache_inv DefaultCacheConfig lru' av' C' \<and>
     map timeless (cached lru' C') = [block_of 0x10000 0x8000 0x10040 \<lparr>mBase = 0xf000, mCapacity = 0xa000\<rparr>]"
proof -
  let ?C = "cache_init DefaultCacheConfig 0 cache0"
  have i: "cache_inv DefaultCacheConfig [] [0..<EntriesArraySize DefaultCacheConfig] ?C"
    using cache_init_inv [of DefaultCacheConfig cache0 0] sec0_init(1,4) by simp
  have m: "MaxEntriesCount ?C \<noteq> 0"
    by (simp add: cache_init_def DefaultCacheConfig_def split: prod.split)
  have e: "page_ok os4k" "\<forall>n. growOk os4k n" by (simp_all add: page_ok_def os4k_def isPowerOfTwo_def)
  obtain C' ev lru' av' where r: "cache_store os4k DefaultCacheConfig False 0x10000 0x8000 0x10040 \<lparr>mBase = 0xf000, mCapacity = 0xa000\<rparr> ?C = Inr (C', ev)"
    "cache_inv DefaultCacheConfig lru' av' C'"
    "map timeless (cached lru' C') = block_of 0x10000 0x8000 0x10040 \<lparr>mBase = 0xf000, mCapacity = 0xa000\<rparr> #
       map timeless (take (unat (MaxEntriesCount ?C) - 1) (cached [] ?C))"
    using cache_store_keeps_order [OF i m _ e sec0_init(2), of "0x10000" False "0x8000" "0x10040" "\<lparr>mBase = 0xf000, mCapacity = 0xa000\<rparr>"]
    by auto
  have "cached [] ?C = []" by (simp add: cached_def)
  then show ?thesis using r by (intro exI [of _ C'] exI [of _ ev] exI [of _ lru'] exI [of _ av']) simp
qed



text \<open>C23: The memory that retrieve releases to the platform is a part of the chosen block that lies
  before the place of the headers, starts at the block's base and has at most four pages: no byte of
  the headers or of the memory handed out is lost.\<close>

theorem released_before_block:
  assumes "entry_geo env p E" and "unat Sz < 2 ^ 48" and "unat Hs \<le> 2 ^ p" and "a \<le> p"
    and "\<not> entry_unsuitable env MP Sz (2 ^ a) Hs E"
    and "ReleaseAndZero m b n \<in> set (fragment_release env (entry_AllocPos Sz (2 ^ a) E - Hs) E)"
  shows "m = cMemMap E \<and> b = cCommitBase E \<and> unat b + unat n \<le> unat (entry_AllocPos Sz (2 ^ a) E - Hs) \<and> unat n \<le> 4 * 2 ^ p"
  by (rule fragment_release_below [OF assms refl])

theorem released_before_block_witness:
  "unat (0x100000 :: uptr) + unat (0x2000 :: uptr) \<le>
   unat (entry_AllocPos 0x9000 16 (block_of 0x100000 0x10000 0x100040 no_map\<lparr>cTime := 7\<rparr>) - 80)"
proof -
  let ?E = "block_of 0x100000 0x10000 0x100040 no_map\<lparr>cTime := 7\<rparr>"
  have g: "entry_geo os4k 12 ?E" by (simp add: entry_geo_def os4k_def block_of_def isAligned_def)
  have u: "\<not> entry_unsuitable os4k 8 0x9000 (2 ^ 4) 80 ?E"
    by (simp add: entry_unsuitable_def entry_AllocPos_def os4k_def block_of_def roundDown_def Let_def)
  have "ReleaseAndZero no_map 0x100000 0x2000 \<in> set (fragment_release os4k (entry_AllocPos 0x9000 (2 ^ 4) ?E - 80) ?E)"
    by (simp add: fragment_release_def entry_AllocPos_def os4k_def block_of_def roundDown_def roundUp_def Let_def
        MaxUnreleasedCachePages_def MaxReleasedCachePages_def)
  from released_before_block [OF g _ _ _ u this] show ?thesis by simp
qed

end
