(* ===== verification/Arena_Lock.thy ===== *)
theory Arena_Lock
  imports Prelude
begin

text \<open>The cross-process spinlock of shared_arena_linux.cpp (lock at line 518, unlock at line 530) as
  the interleaving of its atomic accesses by any number of threads. A thread that stores a block
  needs one or two locks and asks for them in ascending core order, as store_lock_order proves
  of store. The lock words exclude each other and no state is a deadlock.\<close>

section \<open>Threads and steps\<close>

text \<open>A thread between two atomic accesses: the locks it holds, the locks it still needs in the order
  it asks for them, and whether it is in the inner loop that only reads the lock word.\<close>

record thread =
  held :: "nat list"
  todo :: "nat list"
  spinning :: bool

text \<open>The state: the lock words in shared memory and the threads.\<close>

record lock_state =
  word :: "nat \<Rightarrow> nat"
  thread_at :: "nat \<Rightarrow> thread"

definition put :: "nat \<Rightarrow> thread \<Rightarrow> lock_state \<Rightarrow> lock_state" where
  "put t h s = s\<lparr>thread_at := (thread_at s)(t := h)\<rparr>"

inductive lock_step :: "lock_state \<Rightarrow> lock_state \<Rightarrow> bool" where
  request: "\<lbrakk> held (thread_at s t) = []; todo (thread_at s t) = []; sorted_wrt (<) ls \<rbrakk> \<Longrightarrow>
    lock_step s (put t \<lparr> held = [], todo = ls, spinning = False \<rparr> s)"
| cas_success: "\<lbrakk> todo (thread_at s t) = i # r; \<not> spinning (thread_at s t); word s i = 0 \<rbrakk> \<Longrightarrow>
    lock_step s (put t \<lparr> held = i # held (thread_at s t), todo = r, spinning = False \<rparr> (s\<lparr>word := (word s)(i := 1)\<rparr>))"
| cas_failure: "\<lbrakk> todo (thread_at s t) = i # r; \<not> spinning (thread_at s t); word s i \<noteq> 0 \<rbrakk> \<Longrightarrow>
    lock_step s (put t ((thread_at s t)\<lparr>spinning := True\<rparr>) s)"
| load_zero: "\<lbrakk> todo (thread_at s t) = i # r; spinning (thread_at s t); word s i = 0 \<rbrakk> \<Longrightarrow>
    lock_step s (put t ((thread_at s t)\<lparr>spinning := False\<rparr>) s)"
| load_nonzero: "\<lbrakk> todo (thread_at s t) = i # r; spinning (thread_at s t); word s i \<noteq> 0 \<rbrakk> \<Longrightarrow>
    lock_step s s"
| unlock: "\<lbrakk> todo (thread_at s t) = []; i \<in> set (held (thread_at s t)) \<rbrakk> \<Longrightarrow>
    lock_step s (put t ((thread_at s t)\<lparr>held := remove1 i (held (thread_at s t))\<rparr>) (s\<lparr>word := (word s)(i := 0)\<rparr>))"

definition lock_init :: "lock_state \<Rightarrow> bool" where
  "lock_init s \<longleftrightarrow> (\<forall>i. word s i = 0) \<and> (\<forall>t. held (thread_at s t) = [] \<and> todo (thread_at s t) = [])"

section \<open>The invariant\<close>

definition thread_ok :: "thread \<Rightarrow> bool" where
  "thread_ok h \<longleftrightarrow> distinct (held h) \<and> sorted_wrt (<) (todo h) \<and> (\<forall>i\<in>set (held h). \<forall>j\<in>set (todo h). i < j)"

definition lock_inv :: "lock_state \<Rightarrow> bool" where
  "lock_inv s \<longleftrightarrow> (\<forall>i. word s i \<le> 1) \<and>
    (\<forall>i. word s i \<noteq> 0 \<longleftrightarrow> (\<exists>t. i \<in> set (held (thread_at s t)))) \<and>
    (\<forall>t u i. i \<in> set (held (thread_at s t)) \<longrightarrow> i \<in> set (held (thread_at s u)) \<longrightarrow> t = u) \<and>
    (\<forall>t. thread_ok (thread_at s t))"

lemma lock_invD:
  assumes "lock_inv s"
  shows "word s i \<le> 1" "word s i \<noteq> 0 \<longleftrightarrow> (\<exists>t. i \<in> set (held (thread_at s t)))"
    "i \<in> set (held (thread_at s t)) \<Longrightarrow> i \<in> set (held (thread_at s u)) \<Longrightarrow> t = u" "thread_ok (thread_at s t)"
  using assms by (auto simp: lock_inv_def)

lemma put_simps [simp]: "thread_at (put t h s) = (thread_at s)(t := h)" "word (put t h s) = word s"
  by (simp_all add: put_def)

lemma lock_inv_init: "lock_init s \<Longrightarrow> lock_inv s"
  by (simp add: lock_init_def lock_inv_def thread_ok_def)

lemma lock_inv_quiet:
  assumes "lock_inv s" "held h = held (thread_at s t)" "thread_ok h"
  shows "lock_inv (put t h s)"
proof -
  have h: "held (((thread_at s)(t := h)) u) = held (thread_at s u)" for u
    using assms(2) by simp
  have "thread_ok (((thread_at s)(t := h)) u)" for u
    using assms(3) lock_invD(4) [OF assms(1)] by simp
  then show ?thesis
    using lock_invD(1,2,3) [OF assms(1)] unfolding lock_inv_def put_simps h by blast
qed

lemma lock_inv_acquire:
  assumes inv: "lock_inv s" and td: "todo (thread_at s t) = i # r" and free: "word s i = 0"
  shows "lock_inv (put t \<lparr> held = i # held (thread_at s t), todo = r, spinning = False \<rparr> (s\<lparr>word := (word s)(i := 1)\<rparr>))"
proof -
  let ?h = "\<lparr> held = i # held (thread_at s t), todo = r, spinning = False \<rparr>"
  let ?th = "(thread_at s)(t := ?h)"
  have nh: "i \<notin> set (held (thread_at s u))" for u
    using lock_invD(2) [OF inv, of i] free by auto
  have mem: "j \<in> set (held (?th u)) \<longleftrightarrow> j \<in> set (held (thread_at s u)) \<or> (j = i \<and> u = t)" for j u
    by auto
  have "thread_ok ?h"
    using lock_invD(4) [OF inv, of t] nh td by (auto simp: thread_ok_def)
  then have ok: "thread_ok (?th u)" for u
    using lock_invD(4) [OF inv] by simp
  show ?thesis
    unfolding lock_inv_def
  proof (intro conjI allI impI)
    fix j show "word (put t ?h (s\<lparr>word := (word s)(i := 1)\<rparr>)) j \<le> 1"
      using lock_invD(1) [OF inv] by simp
    show "word (put t ?h (s\<lparr>word := (word s)(i := 1)\<rparr>)) j \<noteq> 0 \<longleftrightarrow>
        (\<exists>u. j \<in> set (held (thread_at (put t ?h (s\<lparr>word := (word s)(i := 1)\<rparr>)) u)))"
      using lock_invD(2) [OF inv, of j] mem [of j] by auto
  next
    fix u v j
    assume "j \<in> set (held (thread_at (put t ?h (s\<lparr>word := (word s)(i := 1)\<rparr>)) u))"
      "j \<in> set (held (thread_at (put t ?h (s\<lparr>word := (word s)(i := 1)\<rparr>)) v))"
    then show "u = v"
      using lock_invD(3) [OF inv] nh mem by (cases "j = i") auto
  next
    fix u show "thread_ok (thread_at (put t ?h (s\<lparr>word := (word s)(i := 1)\<rparr>)) u)"
      using ok by simp
  qed
qed

lemma lock_inv_release:
  assumes inv: "lock_inv s" and td: "todo (thread_at s t) = []" and i: "i \<in> set (held (thread_at s t))"
  shows "lock_inv (put t ((thread_at s t)\<lparr>held := remove1 i (held (thread_at s t))\<rparr>) (s\<lparr>word := (word s)(i := 0)\<rparr>))"
proof -
  let ?h = "(thread_at s t)\<lparr>held := remove1 i (held (thread_at s t))\<rparr>"
  let ?th = "(thread_at s)(t := ?h)"
  have t: "thread_ok (thread_at s t)" by (rule lock_invD(4) [OF inv])
  have mem: "j \<in> set (held (?th u)) \<longleftrightarrow> j \<in> set (held (thread_at s u)) \<and> j \<noteq> i" for j u
    using t lock_invD(3) [OF inv i, of u] by (auto simp: thread_ok_def)
  have "thread_ok ?h" using t td by (simp add: thread_ok_def)
  then have ok: "thread_ok (?th u)" for u
    using lock_invD(4) [OF inv] by simp
  show ?thesis
    unfolding lock_inv_def
  proof (intro conjI allI impI)
    fix j show "word (put t ?h (s\<lparr>word := (word s)(i := 0)\<rparr>)) j \<le> 1"
      using lock_invD(1) [OF inv] by simp
    show "word (put t ?h (s\<lparr>word := (word s)(i := 0)\<rparr>)) j \<noteq> 0 \<longleftrightarrow>
        (\<exists>u. j \<in> set (held (thread_at (put t ?h (s\<lparr>word := (word s)(i := 0)\<rparr>)) u)))"
      using lock_invD(2) [OF inv, of j] mem [of j] by auto
  next
    fix u v j
    assume "j \<in> set (held (thread_at (put t ?h (s\<lparr>word := (word s)(i := 0)\<rparr>)) u))"
      "j \<in> set (held (thread_at (put t ?h (s\<lparr>word := (word s)(i := 0)\<rparr>)) v))"
    then show "u = v"
      using lock_invD(3) [OF inv] mem by auto
  next
    fix u show "thread_ok (thread_at (put t ?h (s\<lparr>word := (word s)(i := 0)\<rparr>)) u)"
      using ok by simp
  qed
qed

lemma lock_step_inv: "lock_step s s' \<Longrightarrow> lock_inv s \<Longrightarrow> lock_inv s'"
proof (induction rule: lock_step.induct)
  case (request s t ls) then show ?case by (intro lock_inv_quiet) (auto simp: thread_ok_def)
next
  case (cas_success s t i r) then show ?case by (intro lock_inv_acquire)
next
  case (cas_failure s t i r)
  then show ?case using lock_invD(4) [OF cas_failure(4), of t] by (intro lock_inv_quiet) (auto simp: thread_ok_def)
next
  case (load_zero s t i r)
  then show ?case using lock_invD(4) [OF load_zero(4), of t] by (intro lock_inv_quiet) (auto simp: thread_ok_def)
next
  case (unlock s t i) then show ?case by (intro lock_inv_release)
qed

lemma lock_reach_inv: "lock_step\<^sup>*\<^sup>* s0 s \<Longrightarrow> lock_init s0 \<Longrightarrow> lock_inv s"
  by (induction rule: rtranclp_induct) (auto simp: lock_inv_init intro: lock_step_inv)

text \<open>A step by which a thread gets further: it takes a lock, leaves the spin loop or releases a lock.\<close>

definition progress :: "lock_state \<Rightarrow> nat \<Rightarrow> bool" where
  "progress s t \<longleftrightarrow> (case todo (thread_at s t) of [] \<Rightarrow> held (thread_at s t) \<noteq> [] | i # r \<Rightarrow> word s i = 0)"

lemma progress_step:
  assumes "progress s t"
  shows "\<exists>s'. lock_step s s' \<and> thread_at s' t \<noteq> thread_at s t"
proof (cases "todo (thread_at s t)")
  case Nil
  then obtain i where i: "i \<in> set (held (thread_at s t))"
    using assms by (cases "held (thread_at s t)") (auto simp: progress_def)
  then have "List.length (remove1 i (held (thread_at s t))) \<noteq> List.length (held (thread_at s t))"
    by (simp add: length_remove1) (metis Suc_pred length_pos_if_in_set n_not_Suc_n)
  then have "(thread_at s t)\<lparr>held := remove1 i (held (thread_at s t))\<rparr> \<noteq> thread_at s t"
    by (cases "thread_at s t") auto
  then show ?thesis
    using lock_step.unlock [OF Nil i] by (intro exI conjI) auto
next
  case (Cons i r)
  then have w: "word s i = 0" using assms by (simp add: progress_def)
  show ?thesis
  proof (cases "spinning (thread_at s t)")
    case True
    then have "(thread_at s t)\<lparr>spinning := False\<rparr> \<noteq> thread_at s t"
      by (cases "thread_at s t") simp
    then show ?thesis
      using lock_step.load_zero [OF Cons True w] by (intro exI conjI) auto
  next
    case False
    have "\<lparr> held = i # held (thread_at s t), todo = r, spinning = False \<rparr> \<noteq> thread_at s t"
      using Cons by (cases "thread_at s t") simp
    then show ?thesis
      using lock_step.cas_success [OF Cons False w] by (intro exI conjI) auto
  qed
qed

section \<open>Properties\<close>



text \<open>C18: Threads that take their locks in ascending order never deadlock: in every reachable state
  with finitely many active threads, one of which holds or wants a lock, some thread can take a
  lock, leave its spin loop or release a lock.\<close>

theorem spinlock_no_deadlock:
  assumes "lock_step\<^sup>*\<^sup>* s0 s" and "lock_init s0"
    and "finite {t. held (thread_at s t) \<noteq> []}" and "held (thread_at s t) \<noteq> [] \<or> todo (thread_at s t) \<noteq> []"
  shows "\<exists>u s'. lock_step s s' \<and> thread_at s' u \<noteq> thread_at s u \<and> progress s u"
proof -
  have inv: "lock_inv s" by (rule lock_reach_inv) (fact assms)+
  have "\<exists>u. progress s u"
  proof (cases "\<exists>u. held (thread_at s u) \<noteq> []")
    case False
    then have "word s i = 0" for i using lock_invD(2) [OF inv, of i] by auto
    then show ?thesis using False assms(4) by (auto simp: progress_def split: list.splits)
  next
    case True
    let ?U = "\<Union>u\<in>{t. held (thread_at s t) \<noteq> []}. set (held (thread_at s u))"
    have fin: "finite ?U" "?U \<noteq> {}" using assms(3) True by auto
    define m where "m = Max ?U"
    have "m \<in> ?U" using Max_in [OF fin] by (simp add: m_def)
    then obtain u where u: "m \<in> set (held (thread_at s u))" by blast
    have above: "word s j = 0" if "m < j" for j
    proof -
      have "j \<notin> set (held (thread_at s v))" for v
        using that Max_ge [OF fin(1), of j] by (force simp: m_def)
      then show ?thesis using lock_invD(2) [OF inv, of j] by auto
    qed
    have "progress s u"
    proof (cases "todo (thread_at s u)")
      case Nil then show ?thesis using u by (auto simp: progress_def)
    next
      case (Cons i r)
      then have "m < i" using lock_invD(4) [OF inv, of u] u by (auto simp: thread_ok_def)
      then show ?thesis using above Cons by (simp add: progress_def)
    qed
    then show ?thesis ..
  qed
  then show ?thesis using progress_step by blast
qed

theorem spinlock_no_deadlock_witness:
  "\<exists>u s'. lock_step \<lparr> word = (\<lambda>_. 0), thread_at = (\<lambda>_. \<lparr> held = [], todo = [], spinning = False \<rparr>)(1 :=
      \<lparr> held = [], todo = [2, 5], spinning = False \<rparr>) \<rparr> s' \<and>
    progress \<lparr> word = (\<lambda>_. 0), thread_at = (\<lambda>_. \<lparr> held = [], todo = [], spinning = False \<rparr>)(1 :=
      \<lparr> held = [], todo = [2, 5], spinning = False \<rparr>) \<rparr> u"
proof -
  let ?init = "\<lparr> word = (\<lambda>_. 0), thread_at = (\<lambda>_. \<lparr> held = [], todo = [], spinning = False \<rparr>) \<rparr> :: lock_state"
  let ?req = "\<lparr> word = (\<lambda>_. 0), thread_at = (\<lambda>_. \<lparr> held = [], todo = [], spinning = False \<rparr>)(1 :=
      \<lparr> held = [], todo = [2, 5], spinning = False \<rparr>) \<rparr> :: lock_state"
  have "lock_step ?init (put 1 \<lparr> held = [], todo = [2, 5], spinning = False \<rparr> ?init)"
    by (rule lock_step.request) auto
  moreover have "put 1 \<lparr> held = [], todo = [2, 5], spinning = False \<rparr> ?init = ?req"
    by (simp add: put_def)
  ultimately have "lock_step ?init ?req" by (simp only:)
  then have "lock_step\<^sup>*\<^sup>* ?init ?req" by blast
  then have "\<exists>u s'. lock_step ?req s' \<and> thread_at s' u \<noteq> thread_at ?req u \<and> progress ?req u"
    by (rule spinlock_no_deadlock [where t = 1]) (simp_all add: lock_init_def)
  then show ?thesis by blast
qed

end
