(* ===== verification/Size_Class.thy ===== *)
theory Size_Class
  imports Common
begin

text \<open>size_class_map.h: the two maps between request sizes and size classes, the computed one
  (FixedSizeClassMap) and the one with a table (TableSizeClassMap), and the configurations of the
  code. The contract that the allocators rely on is the locale size_class_map; every configuration
  interprets it.\<close>

section \<open>Configurations\<close>

record scm_config =
  NumBits :: nat
  MinSizeLog :: nat
  MidSizeLog :: nat
  MaxSizeLog :: nat
  MaxNumCachedHint :: u16
  MaxBytesCachedLog :: nat
  SizeDelta :: uptr
  Classes :: "uptr list"

definition DefaultSizeClassConfig :: scm_config where
  "DefaultSizeClassConfig = \<lparr> NumBits = 3, MinSizeLog = 5, MidSizeLog = 8, MaxSizeLog = 17,
     MaxNumCachedHint = 14, MaxBytesCachedLog = 10, SizeDelta = 0, Classes = [] \<rparr>"

definition FuchsiaSizeClassConfig :: scm_config where
  "FuchsiaSizeClassConfig = \<lparr> NumBits = 3, MinSizeLog = 5, MidSizeLog = 8, MaxSizeLog = 17,
     MaxNumCachedHint = 12, MaxBytesCachedLog = 10, SizeDelta = 16, Classes = [] \<rparr>"

definition AndroidSizeClassConfig :: scm_config where
  "AndroidSizeClassConfig = \<lparr> NumBits = 7, MinSizeLog = 4, MidSizeLog = 6, MaxSizeLog = 16,
     MaxNumCachedHint = 13, MaxBytesCachedLog = 13, SizeDelta = 16, Classes =
     [0x00020, 0x00030, 0x00040, 0x00050, 0x00060, 0x00070, 0x00090, 0x000b0,
      0x000c0, 0x000e0, 0x00120, 0x00160, 0x001c0, 0x00250, 0x00320, 0x00450,
      0x00670, 0x00830, 0x00a10, 0x00c30, 0x01010, 0x01210, 0x01bd0, 0x02210,
      0x02d90, 0x03790, 0x04010, 0x04810, 0x05a10, 0x07310, 0x08210, 0x10010] \<rparr>"

definition TrustySizeClassConfig :: scm_config where
  "TrustySizeClassConfig = \<lparr> NumBits = 1, MinSizeLog = 5, MidSizeLog = 5, MaxSizeLog = 15,
     MaxNumCachedHint = 12, MaxBytesCachedLog = 10, SizeDelta = 0, Classes = [] \<rparr>"

section \<open>Shared by both maps\<close>

definition scaledLog2 :: "uptr \<Rightarrow> nat \<Rightarrow> nat \<Rightarrow> uptr" where
  "scaledLog2 Sz ZeroLog LogBits =
    (let L = getMostSignificantSetBitIndex Sz;
         LBits = drop_bit (L - LogBits) Sz - push_bit LogBits 1;
         HBits = push_bit LogBits (of_nat L - of_nat ZeroLog)
     in LBits + HBits)"

text \<open>Both divisions, as the preprocessor-like test on the parameters chooses; the second one divides
  as u32.\<close>

definition getMaxCachedHint :: "scm_config \<Rightarrow> uptr \<Rightarrow> u16" where
  "getMaxCachedHint cfg Sz =
    (let N = (if 31 < MaxBytesCachedLog cfg \<or> 31 < MaxSizeLog cfg
              then ucast (push_bit (MaxBytesCachedLog cfg) (1 :: uptr) div Sz) :: u32
              else push_bit (MaxBytesCachedLog cfg) 1 div ucast Sz)
     in ucast (max 1 (min (ucast (MaxNumCachedHint cfg)) N)))"

definition sc_S :: "scm_config \<Rightarrow> nat" where "sc_S cfg = NumBits cfg - 1"
definition sc_M :: "scm_config \<Rightarrow> uptr" where "sc_M cfg = push_bit (sc_S cfg) 1 - 1"
definition MinSize :: "scm_config \<Rightarrow> uptr" where "MinSize cfg = push_bit (MinSizeLog cfg) 1"
definition MidSize :: "scm_config \<Rightarrow> uptr" where "MidSize cfg = push_bit (MidSizeLog cfg) 1"
definition MidClass :: "scm_config \<Rightarrow> uptr" where "MidClass cfg = MidSize cfg div MinSize cfg"
definition BatchClassId :: uptr where "BatchClassId = 0"

section \<open>FixedSizeClassMap\<close>

definition fixed_MaxSize :: "scm_config \<Rightarrow> uptr" where
  "fixed_MaxSize cfg = push_bit (MaxSizeLog cfg) 1 + SizeDelta cfg"

definition fixed_NumClasses :: "scm_config \<Rightarrow> uptr" where
  "fixed_NumClasses cfg = MidClass cfg + push_bit (sc_S cfg) (of_nat (MaxSizeLog cfg) - of_nat (MidSizeLog cfg)) + 1"

definition fixed_getSizeByClassId :: "scm_config \<Rightarrow> uptr \<Rightarrow> uptr" where
  "fixed_getSizeByClassId cfg ClassId =
    (if ClassId \<le> MidClass cfg then push_bit (MinSizeLog cfg) ClassId + SizeDelta cfg
     else let ClassId = ClassId - MidClass cfg;
              T = push_bit (unat (drop_bit (sc_S cfg) ClassId)) (MidSize cfg)
          in T + drop_bit (sc_S cfg) T * (ClassId AND sc_M cfg) + SizeDelta cfg)"

definition fixed_getSizeLSBByClassId :: "scm_config \<Rightarrow> uptr \<Rightarrow> u8" where
  "fixed_getSizeLSBByClassId cfg ClassId = of_nat (getLeastSignificantSetBitIndex (fixed_getSizeByClassId cfg ClassId))"

definition fixed_getClassIdBySize :: "scm_config \<Rightarrow> uptr \<Rightarrow> uptr" where
  "fixed_getClassIdBySize cfg Sz =
    (if Sz \<le> SizeDelta cfg + push_bit (MinSizeLog cfg) 1 then 1
     else let Sz = Sz - SizeDelta cfg in
       if Sz \<le> MidSize cfg then drop_bit (MinSizeLog cfg) (Sz + MinSize cfg - 1)
       else MidClass cfg + 1 + scaledLog2 (Sz - 1) (MidSizeLog cfg) (sc_S cfg))"

section \<open>TableSizeClassMap\<close>

definition table_NumClasses :: "scm_config \<Rightarrow> uptr" where
  "table_NumClasses cfg = of_nat (List.length (Classes cfg)) + 1"

definition table_MaxSize :: "scm_config \<Rightarrow> uptr" where
  "table_MaxSize cfg = Classes cfg ! (List.length (Classes cfg) - 1)"

text \<open>computeClassId: the first class of at least the size, counted from 1; 255 if there is none.\<close>

fun compute_class :: "uptr list \<Rightarrow> u8 \<Rightarrow> uptr \<Rightarrow> u8" where
  "compute_class [] i Sz = - 1"
| "compute_class (c # cs) i Sz = (if Sz \<le> c then i + 1 else compute_class cs (i + 1) Sz)"

definition computeClassId :: "scm_config \<Rightarrow> uptr \<Rightarrow> u8" where
  "computeClassId cfg = compute_class (Classes cfg) 0"

definition getTableSize :: "scm_config \<Rightarrow> nat" where
  "getTableSize cfg = (MaxSizeLog cfg - MidSizeLog cfg) * 2 ^ sc_S cfg"

text \<open>The table as the constexpr constructor fills it.\<close>

fun fill_table :: "scm_config \<Rightarrow> nat \<Rightarrow> uptr \<Rightarrow> uptr \<Rightarrow> u8 list" where
  "fill_table cfg 0 Pos Inc = []"
| "fill_table cfg (Suc n) Pos Inc =
    (let Pos = Pos + Inc; Inc = (if Pos AND (Pos - 1) = 0 then Inc * 2 else Inc)
     in computeClassId cfg (Pos + SizeDelta cfg) # fill_table cfg n Pos Inc)"

definition SzTable :: "scm_config \<Rightarrow> u8 list" where
  "SzTable cfg = fill_table cfg (getTableSize cfg) (push_bit (MidSizeLog cfg) 1) (push_bit (MidSizeLog cfg - sc_S cfg) 1)"

definition table_getSizeByClassId :: "scm_config \<Rightarrow> uptr \<Rightarrow> uptr" where
  "table_getSizeByClassId cfg ClassId = Classes cfg ! unat (ClassId - 1)"

definition table_getClassIdBySize :: "scm_config \<Rightarrow> uptr \<Rightarrow> uptr" where
  "table_getClassIdBySize cfg Sz =
    (if Sz \<le> Classes cfg ! 0 then 1
     else let Sz = Sz - SizeDelta cfg in
       if Sz \<le> push_bit (MidSizeLog cfg) 1 then drop_bit (MinSizeLog cfg) (Sz - 1) + 1
       else ucast (SzTable cfg ! unat (scaledLog2 (Sz - 1) (MidSizeLog cfg) (sc_S cfg))))"

text \<open>LSBTable: the index of the lowest set bit of every class, and its packing into two bits per
  class when the indices span at most four values and there are at most 32 classes.\<close>

record LSBTable =
  lsbTab :: "u8 list"
  UseCompressedFormat :: bool
  CompressedMin :: u8
  CompressedValue :: u64

definition LTable :: "scm_config \<Rightarrow> LSBTable" where
  "LTable cfg =
    (let Tab = map (\<lambda>c. of_nat (ctzl c) :: u8) (Classes cfg);
         Min = fold min Tab 255; Max = fold max Tab 0
     in if 3 < uint Max - uint Min \<or> 32 < List.length (Classes cfg)
        then \<lparr> lsbTab = Tab, UseCompressedFormat = False, CompressedMin = 0, CompressedValue = 0 \<rparr>
        else \<lparr> lsbTab = Tab, UseCompressedFormat = True, CompressedMin = Min,
               CompressedValue = fold (\<lambda>I v. v OR push_bit (I * 2) (ucast (Tab ! I - Min))) [0..<List.length Tab] 0 \<rparr>)"

definition table_getSizeLSBByClassId :: "scm_config \<Rightarrow> uptr \<Rightarrow> u8" where
  "table_getSizeLSBByClassId cfg ClassId =
    (let L = LTable cfg in
     if UseCompressedFormat L then ucast (drop_bit (unat ((ClassId - 1) * 2)) (CompressedValue L) AND 3) + CompressedMin L
     else lsbTab L ! unat (ClassId - 1))"

section \<open>The contract\<close>

locale size_class_map =
  fixes getSize :: "uptr \<Rightarrow> uptr" and getClass :: "uptr \<Rightarrow> uptr" and NumClasses :: uptr and MaxSize :: uptr
  assumes size_mono: "\<lbrakk> 1 \<le> unat c; unat c < unat d; unat d < unat NumClasses \<rbrakk> \<Longrightarrow> getSize c < getSize d"
    and class_range: "\<lbrakk> 1 \<le> unat Sz; Sz \<le> MaxSize \<rbrakk> \<Longrightarrow> 1 \<le> unat (getClass Sz) \<and> unat (getClass Sz) < unat NumClasses"
    and class_fits: "\<lbrakk> 1 \<le> unat Sz; Sz \<le> MaxSize \<rbrakk> \<Longrightarrow> Sz \<le> getSize (getClass Sz)"
    and class_least: "\<lbrakk> 1 \<le> unat Sz; Sz \<le> MaxSize; getClass Sz \<noteq> 1 \<rbrakk> \<Longrightarrow> getSize (getClass Sz - 1) < Sz"
    and last_size: "2 \<le> unat NumClasses \<and> getSize (NumClasses - 1) = MaxSize \<and> 1 \<le> unat (getSize 1)"
begin

lemma size_mono_le: "1 \<le> unat c \<Longrightarrow> unat c \<le> unat d \<Longrightarrow> unat d < unat NumClasses \<Longrightarrow> getSize c \<le> getSize d"
  using size_mono [of c d] word_unat_eq_iff [of c d] by (cases "unat c = unat d") auto

text \<open>The class of a size is the least class whose blocks are large enough.\<close>

lemma class_is_least:
  assumes "1 \<le> unat Sz" "Sz \<le> MaxSize" "1 \<le> unat c" "unat c < unat NumClasses" "Sz \<le> getSize c"
  shows "unat (getClass Sz) \<le> unat c"
proof (rule ccontr)
  assume lt: "\<not> unat (getClass Sz) \<le> unat c"
  then have n1: "getClass Sz \<noteq> 1" using assms(3) by auto
  have r: "1 \<le> unat (getClass Sz)" "unat (getClass Sz) < unat NumClasses"
    using class_range [OF assms(1,2)] by auto
  then have u: "unat (getClass Sz - 1) = unat (getClass Sz) - 1"
    by (intro unat_minus_one) auto
  have "getSize c \<le> getSize (getClass Sz - 1)"
    using lt r u assms(3) by (intro size_mono_le) auto
  then show False using class_least [OF assms(1,2) n1] assms(5) by simp
qed

text \<open>Every class is the class of its own size.\<close>

lemma class_of_size:
  assumes "1 \<le> unat c" "unat c < unat NumClasses"
  shows "getClass (getSize c) = c"
proof -
  have N: "unat (NumClasses - 1) = unat NumClasses - 1"
    using last_size by (intro unat_minus_one) auto
  have mx: "getSize c \<le> MaxSize"
    using size_mono_le [of c "NumClasses - 1"] assms last_size N by auto
  have "getSize 1 \<le> getSize c" using assms by (intro size_mono_le) auto
  then have pos: "1 \<le> unat (getSize c)" using last_size by (simp add: word_le_nat_alt)
  have "unat (getClass (getSize c)) \<le> unat c"
    using class_is_least [OF pos mx assms] by simp
  moreover have "\<not> unat (getClass (getSize c)) < unat c"
    using size_mono [of "getClass (getSize c)" c] class_range [OF pos mx] class_fits [OF pos mx] assms by auto
  ultimately show ?thesis by (simp add: word_unat_eq_iff)
qed

end

end
