(* ===== verification/Size_Class_Fixed.thy ===== *)
theory Size_Class_Fixed
  imports Size_Class
begin

text \<open>The computed size class map obeys the contract for every configuration whose parameters are in
  order: the sizes above MidSize are the numbers with NumBits significant bits, counted in order.\<close>

section \<open>The size sequence on naturals\<close>

definition gsize :: "nat \<Rightarrow> nat \<Rightarrow> nat \<Rightarrow> nat" where
  "gsize m s k = 2 ^ (m + k div 2 ^ s) + 2 ^ (m + k div 2 ^ s) div 2 ^ s * (k mod 2 ^ s)"

lemma gsize_split:
  assumes "s \<le> m" "l \<le> 2 ^ s"
  shows "gsize m s (j * 2 ^ s + l) = 2 ^ (m - s + j) * (2 ^ s + l)"
proof (cases "l = 2 ^ s")
  case True
  have e: "m + (j + 1) = (m - s + j) + s + 1" using assms by simp
  have "(2::nat) ^ (m + (j + 1)) = 2 ^ (m - s + j) * (2 ^ s + 2 ^ s)"
    unfolding e power_add by simp
  moreover have "(j * 2 ^ s + l) div 2 ^ s = j + 1" "(j * 2 ^ s + l) mod 2 ^ s = 0"
    using True by simp_all
  ultimately show ?thesis
    unfolding gsize_def True by simp
next
  case False
  then have l: "l < 2 ^ s" using assms by simp
  have "(2::nat) ^ (m + j) div 2 ^ s = 2 ^ (m - s + j)"
    using assms by (simp add: power_diff flip: power_diff)
  moreover have "(2::nat) ^ (m + j) = 2 ^ (m - s + j) * 2 ^ s"
    using assms by (simp flip: power_add)
  ultimately show ?thesis
    using l by (simp add: gsize_def algebra_simps)
qed

lemma gsize_Suc_less:
  assumes "s \<le> m"
  shows "gsize m s k < gsize m s (Suc k)"
proof -
  define j l where "j = k div 2 ^ s" and "l = k mod 2 ^ s"
  have k: "k = j * 2 ^ s + l" unfolding j_def l_def by (rule div_mult_mod_eq [symmetric])
  have l: "l < 2 ^ s" by (simp add: l_def)
  show ?thesis
    using gsize_split [OF assms, of l j] gsize_split [OF assms, of "Suc l" j] l by (simp add: k)
qed

lemma gsize_mono: "s \<le> m \<Longrightarrow> i < j \<Longrightarrow> gsize m s i < gsize m s j"
  by (rule lift_Suc_mono_less [of "gsize m s", OF gsize_Suc_less])

lemma gsize_class:
  assumes s: "s \<le> m" and x: "2 ^ m \<le> x" and L: "2 ^ L \<le> x" "x < 2 ^ (L + 1)"
  defines "k \<equiv> (L - m) * 2 ^ s + (x div 2 ^ (L - s) - 2 ^ s)"
  shows "m \<le> L" and "2 ^ s \<le> x div 2 ^ (L - s)" and "x div 2 ^ (L - s) < 2 * 2 ^ s"
    and "gsize m s k \<le> x" and "x < gsize m s (k + 1)"
proof -
  have "(2::nat) ^ m < 2 ^ (L + 1)" using x L(2) by (rule le_less_trans)
  then have "m < L + 1" by (rule power_less_imp_less_exp [rotated]) simp
  then show mL: "m \<le> L" by simp
  then have pL: "(2::nat) ^ L = 2 ^ (L - s) * 2 ^ s" using s by (simp flip: power_add)
  define q where "q = x div 2 ^ (L - s)"
  show q1: "2 ^ s \<le> x div 2 ^ (L - s)"
    using L(1) pL by (simp add: less_eq_div_iff_mult_less_eq mult.commute)
  have "x < 2 ^ (L - s) * (2 * 2 ^ s)" using L(2) pL by (simp add: algebra_simps)
  then show q2: "x div 2 ^ (L - s) < 2 * 2 ^ s"
    by (simp add: div_less_iff_less_mult mult.commute)
  have k: "k = (L - m) * 2 ^ s + (q - 2 ^ s)" "q - 2 ^ s < 2 ^ s" "2 ^ s \<le> q"
    using q1 q2 by (auto simp: k_def q_def)
  have e: "m - s + (L - m) = L - s" using mL s by simp
  have "gsize m s k = 2 ^ (L - s) * q"
    using gsize_split [OF s, of "q - 2 ^ s" "L - m"] k e by simp
  then show "gsize m s k \<le> x" by (simp add: q_def times_div_less_eq_dividend)
  have "k + 1 = (L - m) * 2 ^ s + (q - 2 ^ s + 1)" using k by simp
  then have "gsize m s (k + 1) = 2 ^ (L - s) * (q + 1)"
    using gsize_split [OF s, of "q - 2 ^ s + 1" "L - m"] k e by simp
  moreover have "x < 2 ^ (L - s) * (q + 1)"
    using dividend_less_times_div [of "2 ^ (L - s)" x] by (simp add: q_def algebra_simps)
  ultimately show "x < gsize m s (k + 1)" by simp
qed

section \<open>The code computes it\<close>

lemma unat_push1: "n < 64 \<Longrightarrow> unat (push_bit n 1 :: uptr) = 2 ^ n"
  using unat_exp [of n, where 'a = 64] by (simp add: push_bit_eq_mult)

lemma unat_push: "unat x * 2 ^ n < 2 ^ 64 \<Longrightarrow> n < 64 \<Longrightarrow> unat (push_bit n x :: uptr) = unat x * 2 ^ n"
  using unat_mult_lt [of x "2 ^ n"] unat_exp [of n, where 'a = 64] by (simp add: push_bit_eq_mult mult.commute)

lemma unat_scaledLog2:
  assumes sm: "s \<le> m" "m \<le> 31" and x: "2 ^ m \<le> unat x" "unat x < 2 ^ 32"
  defines "L \<equiv> getMostSignificantSetBitIndex x"
  shows "unat (scaledLog2 x m s) =
    (L - m) * 2 ^ s + (unat x div 2 ^ (L - s) - 2 ^ s)"
proof -
  have "x \<noteq> 0" using x(1) by auto
  from msb_spec [OF this] have L: "2 ^ L \<le> unat x" "unat x < 2 ^ (L + 1)" "L < 64" by (simp_all add: L_def)
  note g = gsize_class [OF sm(1) x(1) L(1,2)]
  have s31: "s \<le> 31" using sm by simp
  have "(2::nat) ^ L < 2 ^ 32" using L(1) x(2) by (rule le_less_trans)
  then have L32: "L < 32" by (rule power_less_imp_less_exp [rotated]) simp
  have p: "unat (push_bit s 1 :: uptr) = 2 ^ s" using s31 by (intro unat_push1) simp
  have d: "unat (drop_bit (L - s) x) = unat x div 2 ^ (L - s)"
    unfolding unat_drop_bit_eq by (rule drop_bit_eq_div)
  have lb: "unat (drop_bit (L - s) x - push_bit s 1) = unat x div 2 ^ (L - s) - 2 ^ s"
    using g(2) p d by (subst unat_sub) (simp_all add: word_le_nat_alt)
  have df: "of_nat L - of_nat m = (of_nat (L - m) :: uptr)" using g(1) by simp
  have ud: "unat (of_nat (L - m) :: uptr) = L - m" using L32 by (simp add: unat_of_nat take_bit_eq_mod)
  have ps: "(2::nat) ^ s \<le> 2 ^ 31" using s31 by (intro power_increasing) auto
  have "(L - m) * 2 ^ s \<le> 32 * 2 ^ 31" using L32 ps by (intro mult_le_mono) auto
  then have hb: "unat (push_bit s (of_nat L - of_nat m) :: uptr) = (L - m) * 2 ^ s"
    unfolding df using ud s31 by (subst unat_push) simp_all
  have "unat x div 2 ^ (L - s) - 2 ^ s < 2 ^ s" using g(2,3) by simp
  then have lt: "unat x div 2 ^ (L - s) - 2 ^ s < 2 ^ 31" using ps by (rule less_le_trans)
  have "unat (scaledLog2 x m s) = (unat x div 2 ^ (L - s) - 2 ^ s) + (L - m) * 2 ^ s"
    unfolding scaledLog2_def Let_def L_def [symmetric]
    using lt \<open>(L - m) * 2 ^ s \<le> 32 * 2 ^ 31\<close> lb hb by (subst unat_add_lem [THEN iffD1]) simp_all
  then show ?thesis by simp
qed

definition fixed_ok :: "scm_config \<Rightarrow> bool" where
  "fixed_ok cfg \<longleftrightarrow> MinSizeLog cfg \<le> MidSizeLog cfg \<and> sc_S cfg \<le> MidSizeLog cfg \<and> MidSizeLog cfg < MaxSizeLog cfg \<and>
    MaxSizeLog cfg \<le> 31 \<and> unat (SizeDelta cfg) < 2 ^ 32 \<and>
    2 ^ (MidSizeLog cfg - MinSizeLog cfg) + (MaxSizeLog cfg - MidSizeLog cfg) * 2 ^ sc_S cfg + 1 \<le> (256::nat)"

text \<open>The size of a class without the delta, and the number of classes.\<close>

definition fsize :: "scm_config \<Rightarrow> nat \<Rightarrow> nat" where
  "fsize cfg c = (let mc = 2 ^ (MidSizeLog cfg - MinSizeLog cfg) in
     if c \<le> mc then c * 2 ^ MinSizeLog cfg else gsize (MidSizeLog cfg) (sc_S cfg) (c - mc))"

definition nclasses :: "scm_config \<Rightarrow> nat" where
  "nclasses cfg = 2 ^ (MidSizeLog cfg - MinSizeLog cfg) + (MaxSizeLog cfg - MidSizeLog cfg) * 2 ^ sc_S cfg + 1"

locale fixed_map =
  fixes cfg :: scm_config
  assumes ok: "fixed_ok cfg"
begin

lemma oks: "MinSizeLog cfg \<le> MidSizeLog cfg" "sc_S cfg \<le> MidSizeLog cfg" "MidSizeLog cfg < MaxSizeLog cfg"
  "MaxSizeLog cfg \<le> 31" "unat (SizeDelta cfg) < 2 ^ 32" "nclasses cfg \<le> 256"
  using ok by (simp_all add: fixed_ok_def nclasses_def)

lemma unat_Mid: "unat (MidSize cfg) = 2 ^ MidSizeLog cfg" "unat (MinSize cfg) = 2 ^ MinSizeLog cfg"
  "unat (MidClass cfg) = 2 ^ (MidSizeLog cfg - MinSizeLog cfg)"
proof -
  show "unat (MidSize cfg) = 2 ^ MidSizeLog cfg" "unat (MinSize cfg) = 2 ^ MinSizeLog cfg"
    using oks unat_push1 by (simp_all add: MidSize_def MinSize_def)
  then show "unat (MidClass cfg) = 2 ^ (MidSizeLog cfg - MinSizeLog cfg)"
    using oks(1) by (simp add: MidClass_def unat_div power_diff)
qed

lemma unat_NumClasses: "unat (fixed_NumClasses cfg) = nclasses cfg"
proof -
  have d: "of_nat (MaxSizeLog cfg) - of_nat (MidSizeLog cfg) = (of_nat (MaxSizeLog cfg - MidSizeLog cfg) :: uptr)"
    using oks(3) by simp
  have u: "unat (of_nat (MaxSizeLog cfg - MidSizeLog cfg) :: uptr) = MaxSizeLog cfg - MidSizeLog cfg"
    using oks(4) by (simp add: unat_of_nat take_bit_eq_mod)
  have n: "(MaxSizeLog cfg - MidSizeLog cfg) * 2 ^ sc_S cfg < 256" "2 ^ (MidSizeLog cfg - MinSizeLog cfg) < (256::nat)"
    using oks(6) by (simp_all add: nclasses_def)
  have p: "unat (push_bit (sc_S cfg) (of_nat (MaxSizeLog cfg - MidSizeLog cfg)) :: uptr) =
      (MaxSizeLog cfg - MidSizeLog cfg) * 2 ^ sc_S cfg"
    using oks n u by (subst unat_push) simp_all
  have s: "unat (MidClass cfg + push_bit (sc_S cfg) (of_nat (MaxSizeLog cfg - MidSizeLog cfg))) = nclasses cfg - 1"
    using n p unat_Mid(3) oks(6) by (subst unat_add_lem [THEN iffD1]) (simp_all add: nclasses_def)
  have "unat (fixed_NumClasses cfg) = nclasses cfg - 1 + 1"
    unfolding fixed_NumClasses_def d using s oks(6) by (subst unat_add_lem [THEN iffD1]) simp_all
  then show ?thesis by (simp add: nclasses_def)
qed

lemma gsize_max: "k \<le> (MaxSizeLog cfg - MidSizeLog cfg) * 2 ^ sc_S cfg \<Longrightarrow> gsize (MidSizeLog cfg) (sc_S cfg) k \<le> 2 ^ MaxSizeLog cfg"
proof -
  assume k: "k \<le> (MaxSizeLog cfg - MidSizeLog cfg) * 2 ^ sc_S cfg"
  have "gsize (MidSizeLog cfg) (sc_S cfg) ((MaxSizeLog cfg - MidSizeLog cfg) * 2 ^ sc_S cfg) = 2 ^ MaxSizeLog cfg"
    using gsize_split [OF oks(2), of 0 "MaxSizeLog cfg - MidSizeLog cfg"] oks(2,3) by (simp flip: power_add)
  then show ?thesis
    using gsize_mono [OF oks(2), of k "(MaxSizeLog cfg - MidSizeLog cfg) * 2 ^ sc_S cfg"] k
    by (cases "k = (MaxSizeLog cfg - MidSizeLog cfg) * 2 ^ sc_S cfg") auto
qed

lemma fsize_max: "c < nclasses cfg \<Longrightarrow> fsize cfg c \<le> 2 ^ MaxSizeLog cfg"
proof -
  assume c: "c < nclasses cfg"
  have m: "2 ^ (MidSizeLog cfg - MinSizeLog cfg) * 2 ^ MinSizeLog cfg = (2::nat) ^ MidSizeLog cfg"
    using oks(1) by (simp flip: power_add)
  have "(2::nat) ^ MidSizeLog cfg \<le> 2 ^ MaxSizeLog cfg" using oks(3) by (intro power_increasing) auto
  moreover have "c * 2 ^ MinSizeLog cfg \<le> 2 ^ (MidSizeLog cfg - MinSizeLog cfg) * 2 ^ MinSizeLog cfg"
    if "c \<le> 2 ^ (MidSizeLog cfg - MinSizeLog cfg)" using that by (rule mult_le_mono1)
  ultimately have "c * 2 ^ MinSizeLog cfg \<le> 2 ^ MaxSizeLog cfg" if "c \<le> 2 ^ (MidSizeLog cfg - MinSizeLog cfg)"
    using that unfolding m by (meson le_trans)
  then show ?thesis
    using c gsize_max [of "c - 2 ^ (MidSizeLog cfg - MinSizeLog cfg)"] by (auto simp: fsize_def Let_def nclasses_def)
qed

lemma unat_getSize:
  assumes c: "unat c < nclasses cfg"
  shows "unat (fixed_getSizeByClassId cfg c) = fsize cfg (unat c) + unat (SizeDelta cfg)"
proof -
  let ?mc = "2 ^ (MidSizeLog cfg - MinSizeLog cfg) :: nat" and ?m = "MidSizeLog cfg" and ?s = "sc_S cfg"
  have p31: "(2::nat) ^ MaxSizeLog cfg \<le> 2 ^ 31" using oks(4) by (intro power_increasing) auto
  have fm: "fsize cfg (unat c) \<le> 2 ^ 31" using fsize_max [OF c] p31 by simp
  show ?thesis
  proof (cases "c \<le> MidClass cfg")
    case True
    then have t: "fsize cfg (unat c) = unat c * 2 ^ MinSizeLog cfg"
      using unat_Mid(3) by (simp add: fsize_def word_le_nat_alt)
    then have "unat (push_bit (MinSizeLog cfg) c) = fsize cfg (unat c)"
      using fm oks by (subst unat_push) simp_all
    then show ?thesis
      using True fm oks(5) by (simp add: fixed_getSizeByClassId_def, subst unat_add_lem [THEN iffD1]) simp_all
  next
    case False
    define k where "k = c - MidClass cfg"
    have lt: "?mc < unat c" using False unat_Mid(3) by (simp add: word_le_nat_alt)
    then have k: "unat k = unat c - ?mc" using unat_Mid(3) by (simp add: k_def unat_sub word_le_nat_alt)
    have t: "fsize cfg (unat c) = gsize ?m ?s (unat k)" using lt k by (simp add: fsize_def)
    define h where "h = unat (drop_bit ?s k)"
    have h: "h = unat k div 2 ^ ?s" unfolding h_def unat_drop_bit_eq by (rule drop_bit_eq_div)
    have g: "fsize cfg (unat c) = 2 ^ (?m + h) + 2 ^ (?m + h) div 2 ^ ?s * (unat k mod 2 ^ ?s)"
      by (simp add: t gsize_def h)
    then have b: "2 ^ (?m + h) \<le> (2::nat) ^ 31" using fm by linarith
    then have mh: "?m + h \<le> 31" by (rule power_le_imp_le_exp [rotated]) simp
    have T: "unat (push_bit h (MidSize cfg)) = 2 ^ (?m + h)"
      using b mh unat_Mid(1) by (subst unat_push) (simp_all add: power_add)
    have M: "unat (k AND sc_M cfg) = unat k mod 2 ^ ?s"
      using unat_and_mask [of k ?s] by (simp add: sc_M_def push_bit_eq_mult word_exp_minus_1)
    have d: "unat (drop_bit ?s (push_bit h (MidSize cfg))) = 2 ^ (?m + h) div 2 ^ ?s"
      unfolding unat_drop_bit_eq T by (rule drop_bit_eq_div)
    have le: "2 ^ (?m + h) div 2 ^ ?s * (unat k mod 2 ^ ?s) \<le> 2 ^ 31" using g fm by linarith
    have pr: "unat (drop_bit ?s (push_bit h (MidSize cfg)) * (k AND sc_M cfg)) = 2 ^ (?m + h) div 2 ^ ?s * (unat k mod 2 ^ ?s)"
      using le by (subst unat_mult_lt) (simp_all add: d M)
    have "unat (push_bit h (MidSize cfg) + drop_bit ?s (push_bit h (MidSize cfg)) * (k AND sc_M cfg)) = fsize cfg (unat c)"
      using g fm by (subst unat_add_lem [THEN iffD1]) (simp_all add: T pr)
    then show ?thesis
      using False fm oks(5)
      by (simp add: fixed_getSizeByClassId_def Let_def flip: k_def h_def, subst unat_add_lem [THEN iffD1]) simp_all
  qed
qed

lemma fsize_mono: "i < j \<Longrightarrow> fsize cfg i < fsize cfg j"
proof -
  assume ij: "i < j"
  let ?mc = "2 ^ (MidSizeLog cfg - MinSizeLog cfg) :: nat" and ?g = "gsize (MidSizeLog cfg) (sc_S cfg)"
  have m: "?mc * 2 ^ MinSizeLog cfg = 2 ^ MidSizeLog cfg" using oks(1) by (simp flip: power_add)
  have g0: "?g 0 = 2 ^ MidSizeLog cfg" by (simp add: gsize_def)
  have lo: "i * 2 ^ MinSizeLog cfg \<le> ?g 0" if "i \<le> ?mc"
    unfolding g0 m [symmetric] using that by (rule mult_le_mono1)
  show ?thesis
    using ij gsize_mono [OF oks(2), of "i - ?mc" "j - ?mc"] gsize_mono [OF oks(2), of 0 "j - ?mc"] lo
    by (auto simp: fsize_def Let_def)
qed

lemma fsize_above: "fsize cfg (2 ^ (MidSizeLog cfg - MinSizeLog cfg) + k) = gsize (MidSizeLog cfg) (sc_S cfg) k"
proof (cases k)
  case 0
  have "2 ^ (MidSizeLog cfg - MinSizeLog cfg) * 2 ^ MinSizeLog cfg = (2::nat) ^ MidSizeLog cfg"
    using oks(1) by (simp flip: power_add)
  then show ?thesis using 0 by (simp add: fsize_def gsize_def)
qed (simp add: fsize_def)

lemma getClass_spec:
  assumes S: "1 \<le> unat Sz" "Sz \<le> fixed_MaxSize cfg"
  shows "1 \<le> unat (fixed_getClassIdBySize cfg Sz) \<and> unat (fixed_getClassIdBySize cfg Sz) < nclasses cfg \<and>
    unat Sz \<le> fsize cfg (unat (fixed_getClassIdBySize cfg Sz)) + unat (SizeDelta cfg) \<and>
    (fixed_getClassIdBySize cfg Sz \<noteq> 1 \<longrightarrow>
      fsize cfg (unat (fixed_getClassIdBySize cfg Sz) - 1) + unat (SizeDelta cfg) < unat Sz)"
proof -
  let ?mc = "2 ^ (MidSizeLog cfg - MinSizeLog cfg) :: nat" and ?D = "unat (SizeDelta cfg)"
  let ?m = "MidSizeLog cfg" and ?s = "sc_S cfg" and ?n = "MinSizeLog cfg" and ?c = "fixed_getClassIdBySize cfg Sz"
  have mc: "1 \<le> ?mc" by simp
  have nc: "?mc < nclasses cfg" by (simp add: nclasses_def)
  have pw: "(2::nat) ^ MaxSizeLog cfg \<le> 2 ^ 31" "(2::nat) ^ ?n \<le> 2 ^ ?m" "(2::nat) ^ ?m \<le> 2 ^ MaxSizeLog cfg"
    using oks power_increasing [OF oks(4), of "2::nat"] by (simp_all add: power_increasing)
  have pw31: "(2::nat) ^ ?n \<le> 2 ^ 31" "(2::nat) ^ ?m \<le> 2 ^ 31"
    using oks power_increasing [of ?n 31 "2::nat"] power_increasing [of ?m 31 "2::nat"] by simp_all
  have m: "?mc * 2 ^ ?n = 2 ^ ?m" using oks(1) by (simp flip: power_add)
  have mx: "unat (fixed_MaxSize cfg) = 2 ^ MaxSizeLog cfg + ?D"
    unfolding fixed_MaxSize_def using unat_push1 [of "MaxSizeLog cfg"] pw oks(4,5)
    by (subst unat_add_lem [THEN iffD1]) simp_all
  have Smax: "unat Sz \<le> 2 ^ MaxSizeLog cfg + ?D" using S(2) mx by (simp add: word_le_nat_alt)
  have u1: "unat (SizeDelta cfg + push_bit ?n 1) = ?D + 2 ^ ?n"
    using unat_push1 [of ?n] oks pw31 by (subst unat_add_lem [THEN iffD1]) simp_all
  show ?thesis
  proof (cases "Sz \<le> SizeDelta cfg + push_bit ?n 1")
    case True
    then have "?c = 1" by (simp add: fixed_getClassIdBySize_def)
    moreover have "fsize cfg 1 = 2 ^ ?n" using mc by (simp add: fsize_def)
    moreover have "1 < nclasses cfg" using mc nc by linarith
    ultimately show ?thesis using True u1 by (simp add: word_le_nat_alt)
  next
    case False
    then have gt: "?D + 2 ^ ?n < unat Sz" using u1 by (simp add: word_le_nat_alt)
    define T where "T = Sz - SizeDelta cfg"
    have T: "unat T = unat Sz - ?D" unfolding T_def using gt by (subst unat_sub) (simp_all add: word_le_nat_alt)
    show ?thesis
    proof (cases "T \<le> MidSize cfg")
      case t: True
      have c: "?c = drop_bit ?n (T + MinSize cfg - 1)"
        using False t by (simp add: fixed_getClassIdBySize_def flip: T_def)
      have tm: "unat T \<le> 2 ^ ?m" using t unat_Mid(1) by (simp add: word_le_nat_alt)
      have a: "unat (T + MinSize cfg) = unat T + 2 ^ ?n"
        using tm pw31 unat_Mid(2) by (subst unat_add_lem [THEN iffD1]) simp_all
      have b: "unat (T + MinSize cfg - 1) = unat T + 2 ^ ?n - 1"
        using a by (subst unat_minus_one) auto
      have uc: "unat ?c = (unat T + 2 ^ ?n - 1) div 2 ^ ?n"
        unfolding c unat_drop_bit_eq b by (rule drop_bit_eq_div)
      note cb = ceil_mult_bounds [of "2 ^ ?n" "unat T"]
      have ge: "unat T \<le> unat ?c * 2 ^ ?n" and lt: "unat ?c * 2 ^ ?n < unat T + 2 ^ ?n" using cb uc by simp_all
      have "unat ?c * 2 ^ ?n < (?mc + 1) * 2 ^ ?n" using lt tm m by (simp add: algebra_simps)
      then have "unat ?c < ?mc + 1" by (rule mult_less_cancel2 [THEN iffD1, THEN conjunct2])
      then have cm: "unat ?c \<le> ?mc" by linarith
      have c1: "1 \<le> unat ?c"
        using ge T gt by (cases "unat ?c") auto
      have "(unat ?c - 1) * 2 ^ ?n < unat T" unfolding diff_mult_distrib using lt mult_le_mono1 [OF c1, of "2 ^ ?n"] unfolding mult_1 by linarith
      moreover have "fsize cfg (unat ?c) = unat ?c * 2 ^ ?n" "fsize cfg (unat ?c - 1) = (unat ?c - 1) * 2 ^ ?n"
      proof -
        have "fsize cfg i = i * 2 ^ ?n" if "i \<le> ?mc" for i using that by (simp add: fsize_def)
        from this [OF cm] this [OF le_trans [OF diff_le_self cm]]
        show "fsize cfg (unat ?c) = unat ?c * 2 ^ ?n" "fsize cfg (unat ?c - 1) = (unat ?c - 1) * 2 ^ ?n" .
      qed
      ultimately show ?thesis using c1 cm nc ge T gt by (intro conjI impI) linarith+
    next
      case f: False
      define x where "x = T - 1"
      have tm: "2 ^ ?m < unat T" using f unat_Mid(1) by (simp add: word_le_nat_alt)
      then have x: "unat x = unat T - 1" unfolding x_def by (intro unat_minus_one) auto
      have xm: "2 ^ ?m \<le> unat x" using x tm by simp
      have xM: "unat x < 2 ^ MaxSizeLog cfg" using x T Smax gt tm by simp
      then have x32: "unat x < 2 ^ 32" using pw(1) by simp
      define L where "L = getMostSignificantSetBitIndex x"
      have "x \<noteq> 0" using xm by auto
      from msb_spec [OF this] have L: "2 ^ L \<le> unat x" "unat x < 2 ^ (L + 1)" by (simp_all add: L_def)
      define k where "k = (L - ?m) * 2 ^ ?s + (unat x div 2 ^ (L - ?s) - 2 ^ ?s)"
      have sl: "unat (scaledLog2 x ?m ?s) = k"
        using unat_scaledLog2 [OF oks(2) _ xm x32] oks(3,4) by (simp only: k_def L_def)
      note g = gsize_class(4,5) [OF oks(2) xm L, folded k_def]
      have "k < (MaxSizeLog cfg - ?m) * 2 ^ ?s"
      proof (rule ccontr)
        assume "\<not> k < (MaxSizeLog cfg - ?m) * 2 ^ ?s"
        then have "gsize ?m ?s ((MaxSizeLog cfg - ?m) * 2 ^ ?s) \<le> gsize ?m ?s k"
          using gsize_mono [OF oks(2), of "(MaxSizeLog cfg - ?m) * 2 ^ ?s" k] by (cases "k = (MaxSizeLog cfg - ?m) * 2 ^ ?s") auto
        moreover have "gsize ?m ?s ((MaxSizeLog cfg - ?m) * 2 ^ ?s) = 2 ^ MaxSizeLog cfg"
          using gsize_split [OF oks(2), of 0 "MaxSizeLog cfg - ?m"] oks(2,3) by (simp flip: power_add)
        ultimately show False using g(1) xM by simp
      qed
      then have kn: "?mc + 1 + k < nclasses cfg" by (simp add: nclasses_def)
      have c: "?c = MidClass cfg + 1 + scaledLog2 x ?m ?s"
        using False f by (simp add: fixed_getClassIdBySize_def x_def flip: T_def)
      have "unat (MidClass cfg + 1) = ?mc + 1"
        using unat_Mid(3) kn oks(6) by (subst unat_add_lem [THEN iffD1]) simp_all
      then have uc: "unat ?c = ?mc + 1 + k"
        unfolding c using sl kn oks(6) by (subst unat_add_lem [THEN iffD1]) simp_all
      have e: "unat ?c = ?mc + (k + 1)" "unat ?c - 1 = ?mc + k" using uc by simp_all
      have "?D + 1 \<le> unat Sz" using gt by linarith
      then show ?thesis
        unfolding e(2) unfolding e(1) fsize_above
        using g kn x T by (intro conjI impI) linarith+
    qed
  qed
qed

lemma fixed_is_size_class_map:
  "size_class_map (fixed_getSizeByClassId cfg) (fixed_getClassIdBySize cfg) (fixed_NumClasses cfg) (fixed_MaxSize cfg)"
proof
  have fm: "fsize cfg c < 2 ^ 32" if "c < nclasses cfg" for c
  proof -
    have "(2::nat) ^ MaxSizeLog cfg \<le> 2 ^ 31" using oks(4) by (intro power_increasing) auto
    then show ?thesis using fsize_max [OF that] by simp
  qed
  show "fixed_getSizeByClassId cfg c < fixed_getSizeByClassId cfg d"
    if "1 \<le> unat c" "unat c < unat d" "unat d < unat (fixed_NumClasses cfg)" for c d
    using that fsize_mono [of "unat c" "unat d"] unat_getSize [of c] unat_getSize [of d]
    by (simp add: unat_NumClasses word_less_nat_alt)
  fix Sz assume S: "1 \<le> unat Sz" "Sz \<le> fixed_MaxSize cfg"
  note sp = getClass_spec [OF S]
  show "1 \<le> unat (fixed_getClassIdBySize cfg Sz) \<and> unat (fixed_getClassIdBySize cfg Sz) < unat (fixed_NumClasses cfg)"
    using sp by (simp add: unat_NumClasses)
  show "Sz \<le> fixed_getSizeByClassId cfg (fixed_getClassIdBySize cfg Sz)"
    using sp unat_getSize by (simp add: word_le_nat_alt)
  show "fixed_getSizeByClassId cfg (fixed_getClassIdBySize cfg Sz - 1) < Sz" if "fixed_getClassIdBySize cfg Sz \<noteq> 1"
  proof -
    have "unat (fixed_getClassIdBySize cfg Sz - 1) = unat (fixed_getClassIdBySize cfg Sz) - 1"
      using sp by (intro unat_minus_one) auto
    moreover have "unat (fixed_getClassIdBySize cfg Sz) - 1 < nclasses cfg" using sp by linarith
    ultimately show ?thesis using sp that unat_getSize [of "fixed_getClassIdBySize cfg Sz - 1"] by (simp add: word_less_nat_alt)
  qed
next
  have N: "unat (fixed_NumClasses cfg - 1) = nclasses cfg - 1"
    using unat_NumClasses by (subst unat_minus_one) (auto simp: nclasses_def)
  have "fsize cfg (nclasses cfg - 1) = 2 ^ MaxSizeLog cfg"
  proof -
    have "nclasses cfg - 1 = 2 ^ (MidSizeLog cfg - MinSizeLog cfg) + (MaxSizeLog cfg - MidSizeLog cfg) * 2 ^ sc_S cfg"
      by (simp add: nclasses_def)
    then show ?thesis
      using fsize_above gsize_split [OF oks(2), of 0 "MaxSizeLog cfg - MidSizeLog cfg"] oks(2,3) by (simp flip: power_add)
  qed
  moreover have "unat (fixed_MaxSize cfg) = 2 ^ MaxSizeLog cfg + unat (SizeDelta cfg)"
  proof -
    have "(2::nat) ^ MaxSizeLog cfg \<le> 2 ^ 31" using oks(4) by (intro power_increasing) auto
    then show ?thesis
      unfolding fixed_MaxSize_def using unat_push1 [of "MaxSizeLog cfg"] oks(4,5)
      by (subst unat_add_lem [THEN iffD1]) simp_all
  qed
  ultimately have "fixed_getSizeByClassId cfg (fixed_NumClasses cfg - 1) = fixed_MaxSize cfg"
    using unat_getSize [of "fixed_NumClasses cfg - 1"] N by (simp add: word_unat_eq_iff nclasses_def)
  moreover have "2 \<le> nclasses cfg" by (simp add: nclasses_def Suc_le_eq trans_less_add1)
  moreover have "1 \<le> unat (fixed_getSizeByClassId cfg 1)"
    using unat_getSize [of 1] fsize_mono [of 0 1] \<open>2 \<le> nclasses cfg\<close> by simp
  ultimately show "2 \<le> unat (fixed_NumClasses cfg) \<and> fixed_getSizeByClassId cfg (fixed_NumClasses cfg - 1) = fixed_MaxSize cfg \<and>
    1 \<le> unat (fixed_getSizeByClassId cfg 1)" by (simp add: unat_NumClasses)
qed

end

section \<open>The configurations of the code\<close>

interpretation default_map: fixed_map DefaultSizeClassConfig
  by unfold_locales (simp add: fixed_ok_def DefaultSizeClassConfig_def sc_S_def)

interpretation fuchsia_map: fixed_map FuchsiaSizeClassConfig
  by unfold_locales (simp add: fixed_ok_def FuchsiaSizeClassConfig_def sc_S_def)

interpretation trusty_map: fixed_map TrustySizeClassConfig
  by unfold_locales (simp add: fixed_ok_def TrustySizeClassConfig_def sc_S_def)

interpretation default_sc: size_class_map "fixed_getSizeByClassId DefaultSizeClassConfig"
  "fixed_getClassIdBySize DefaultSizeClassConfig" "fixed_NumClasses DefaultSizeClassConfig" "fixed_MaxSize DefaultSizeClassConfig"
  by (rule default_map.fixed_is_size_class_map)

interpretation fuchsia_sc: size_class_map "fixed_getSizeByClassId FuchsiaSizeClassConfig"
  "fixed_getClassIdBySize FuchsiaSizeClassConfig" "fixed_NumClasses FuchsiaSizeClassConfig" "fixed_MaxSize FuchsiaSizeClassConfig"
  by (rule fuchsia_map.fixed_is_size_class_map)

interpretation trusty_sc: size_class_map "fixed_getSizeByClassId TrustySizeClassConfig"
  "fixed_getClassIdBySize TrustySizeClassConfig" "fixed_NumClasses TrustySizeClassConfig" "fixed_MaxSize TrustySizeClassConfig"
  by (rule trusty_map.fixed_is_size_class_map)

end
