(* ===== verification/Size_Class_Table.thy ===== *)
theory Size_Class_Table
  imports Size_Class_Fixed
begin

text \<open>The size class map with a table obeys the contract on the Android configuration: the
  constructor's table entry k is the class of the k-th step of the same size sequence, and no class
  boundary lies inside a step.\<close>

section \<open>computeClassId\<close>

lemma compute_class_spec:
  assumes "\<exists>c\<in>set cs. Sz \<le> c"
  shows "\<exists>j<List.length cs. compute_class cs i Sz = i + of_nat (Suc j) \<and> Sz \<le> cs ! j \<and> (\<forall>j'<j. cs ! j' < Sz)"
  using assms
proof (induction cs arbitrary: i)
  case (Cons c cs)
  show ?case
  proof (cases "Sz \<le> c")
    case True
    then show ?thesis by (intro exI [of _ 0]) simp
  next
    case False
    then obtain j where j: "j < List.length cs" "compute_class cs (i + 1) Sz = i + 1 + of_nat (Suc j)" "Sz \<le> cs ! j"
      "\<forall>j'<j. cs ! j' < Sz"
      using Cons.IH [of "i + 1"] Cons.prems by auto
    then show ?thesis
      using False by (intro exI [of _ "Suc j"]) (auto simp: nth_Cons not_le split: nat.splits)
  qed
qed simp

section \<open>The table\<close>

lemma gsize_le_exp:
  assumes "s \<le> m" "k \<le> n * 2 ^ s"
  shows "gsize m s k \<le> 2 ^ (m + n)"
proof -
  have "gsize m s (n * 2 ^ s) = 2 ^ (m + n)"
    using gsize_split [OF assms(1), of 0 n] assms(1) by (simp flip: power_add)
  then show ?thesis
    using gsize_mono [OF assms(1), of k "n * 2 ^ s"] assms(2) by (cases "k = n * 2 ^ s") auto
qed

lemma gsize_power_of_two:
  assumes "s \<le> m" "gsize m s (Suc k) = 2 ^ n"
  shows "Suc k mod 2 ^ s = 0"
proof (rule ccontr)
  assume l: "Suc k mod 2 ^ s \<noteq> 0"
  let ?j = "Suc k div 2 ^ s" and ?l = "Suc k mod 2 ^ s"
  have g: "gsize m s (Suc k) = 2 ^ (m - s + ?j) * (2 ^ s + ?l)"
    using gsize_split [OF assms(1), of ?l ?j] unfolding div_mult_mod_eq by simp
  have "2 ^ (m - s + ?j) * 2 ^ s < gsize m s (Suc k)" "gsize m s (Suc k) < 2 ^ (m - s + ?j) * (2 * 2 ^ s)"
    unfolding g using l by simp_all
  then have "2 ^ (m - s + ?j + s) < (2::nat) ^ n" "(2::nat) ^ n < 2 ^ (m - s + ?j + s + 1)"
    by (simp_all add: assms(2) power_add)
  then have "m - s + ?j + s < n" "n < m - s + ?j + s + 1"
    by (simp_all only: power_strict_increasing_iff one_less_numeral_iff semiring_norm)
  then show False by simp
qed

lemma fill_table_spec:
  assumes "sc_S cfg \<le> m" and "m + N < 63" and "k + n \<le> N * 2 ^ sc_S cfg"
  shows "fill_table cfg n (of_nat (gsize m (sc_S cfg) k)) (of_nat (2 ^ (m - sc_S cfg + k div 2 ^ sc_S cfg))) =
    map (\<lambda>i. computeClassId cfg (of_nat (gsize m (sc_S cfg) (Suc i)) + SizeDelta cfg)) [k..<k + n]"
  using assms(3)
proof (induction n arbitrary: k)
  case (Suc n)
  let ?s = "sc_S cfg"
  let ?j = "k div 2 ^ ?s" and ?l = "k mod 2 ^ ?s"
  have l: "?l < 2 ^ ?s" by simp
  have k: "k = ?j * 2 ^ ?s + ?l" by (rule div_mult_mod_eq [symmetric])
  have step: "gsize m ?s k + 2 ^ (m - ?s + ?j) = gsize m ?s (Suc k)"
    using gsize_split [OF assms(1), of ?l ?j] gsize_split [OF assms(1), of "Suc ?l" ?j] l
    by (simp flip: k)
  have le: "gsize m ?s (Suc k) \<le> 2 ^ (m + N)"
    using Suc.prems by (intro gsize_le_exp assms(1)) simp
  have lt: "(2::nat) ^ (m + N) < 2 ^ 64"
    using assms(2) by (intro power_strict_increasing) auto
  define P where "P = (of_nat (gsize m ?s (Suc k)) :: uptr)"
  have P: "of_nat (gsize m ?s k) + of_nat (2 ^ (m - ?s + ?j)) = P"
    unfolding P_def step [symmetric] by simp
  have uP: "unat P = gsize m ?s (Suc k)"
    using le lt unfolding P_def by (simp only: unat_of_nat take_bit_eq_mod len_num1 mod_less) simp
  have P0: "P \<noteq> 0" using uP by (auto simp: gsize_def)
  have pow: "P AND (P - 1) = 0 \<longleftrightarrow> Suc k mod 2 ^ ?s = 0"
  proof
    assume "P AND (P - 1) = 0"
    then have "isPowerOfTwo P" using P0 by (simp add: isPowerOfTwo_def)
    then obtain n where "n < 64" "P = 2 ^ n" by (auto simp: isPowerOfTwo_iff)
    then have "gsize m ?s (Suc k) = 2 ^ n" using uP unat_exp [of n, where 'a = 64] by simp
    then show "Suc k mod 2 ^ ?s = 0" by (rule gsize_power_of_two [OF assms(1)])
  next
    assume z: "Suc k mod 2 ^ ?s = 0"
    then have "gsize m ?s (Suc k) = 2 ^ (m + Suc k div 2 ^ ?s)" by (simp add: gsize_def)
    moreover then have "m + Suc k div 2 ^ ?s < 64"
      using le lt by (metis le_less_trans power_less_imp_less_exp one_less_numeral_iff semiring_norm(76))
    ultimately have "P = 2 ^ (m + Suc k div 2 ^ ?s)" "m + Suc k div 2 ^ ?s < 64"
      using uP unat_exp [of "m + Suc k div 2 ^ ?s", where 'a = 64] by (simp_all add: word_unat_eq_iff)
    then have "isPowerOfTwo P" by (auto simp: isPowerOfTwo_iff)
    then show "P AND (P - 1) = 0" using P0 by (simp add: isPowerOfTwo_def)
  qed
  have inc: "(if P AND (P - 1) = 0 then of_nat (2 ^ (m - ?s + ?j)) * 2 else of_nat (2 ^ (m - ?s + ?j))) =
      (of_nat (2 ^ (m - ?s + Suc k div 2 ^ ?s)) :: uptr)"
  proof (cases "Suc k mod 2 ^ ?s = 0")
    case True
    then have "Suc k div 2 ^ ?s = Suc ?j" by (metis Suc_div_eq_add3_div div_Suc)
    then show ?thesis using pow True by simp
  next
    case False
    then have "Suc k div 2 ^ ?s = ?j" by (simp add: div_Suc)
    then show ?thesis using pow False by simp
  qed
  have "fill_table cfg (Suc n) (of_nat (gsize m ?s k)) (of_nat (2 ^ (m - ?s + ?j))) =
    computeClassId cfg (P + SizeDelta cfg) # fill_table cfg n P (of_nat (2 ^ (m - ?s + Suc k div 2 ^ ?s)))"
    unfolding fill_table.simps Let_def P inc ..
  also have "fill_table cfg n P (of_nat (2 ^ (m - ?s + Suc k div 2 ^ ?s))) =
    map (\<lambda>i. computeClassId cfg (of_nat (gsize m ?s (Suc i)) + SizeDelta cfg)) [Suc k..<Suc k + n]"
    using Suc.IH [of "Suc k"] Suc.prems by (simp only: P_def)
  also have "computeClassId cfg (P + SizeDelta cfg) # map (\<lambda>i. computeClassId cfg (of_nat (gsize m ?s (Suc i)) + SizeDelta cfg)) [Suc k..<Suc k + n] =
    map (\<lambda>i. computeClassId cfg (of_nat (gsize m ?s (Suc i)) + SizeDelta cfg)) [k..<k + Suc n]"
    by (subst upt_conv_Cons [of k "k + Suc n"]) (simp_all add: P_def)
  finally show ?case .
qed simp

section \<open>The Android configuration\<close>

abbreviation "Android \<equiv> AndroidSizeClassConfig"

lemma android_fields: "sc_S Android = 6" "MidSizeLog Android = 6" "MinSizeLog Android = 4" "SizeDelta Android = 16" "getTableSize Android = 640"
  "List.length (Classes Android) = 32" "table_NumClasses Android = 33" "table_MaxSize Android = 0x10010" "Classes Android ! 0 = 0x20"
  by (simp_all add: AndroidSizeClassConfig_def sc_S_def getTableSize_def table_NumClasses_def table_MaxSize_def)

lemma android_sorted: "sorted_wrt (<) (Classes Android)"
  by (simp add: AndroidSizeClassConfig_def)

lemma android_nth_less: "i < j \<Longrightarrow> j < 32 \<Longrightarrow> Classes Android ! i < Classes Android ! j"
  using sorted_wrt_nth_less [OF android_sorted, of i j] by (simp add: android_fields)

lemma android_low: "j < 4 \<Longrightarrow> unat (Classes Android ! j) = 16 * j + 32"
proof -
  assume "j < 4"
  then have "j = 0 \<or> j = 1 \<or> j = 2 \<or> j = 3" by auto
  then show ?thesis by (auto simp: AndroidSizeClassConfig_def)
qed

lemma android_boundaries:
  assumes "3 \<le> j" "j < 32"
  shows "\<exists>k. unat (Classes Android ! j) = gsize 6 6 k + 16"
proof -
  have "map unat (drop 3 (Classes Android)) = map (\<lambda>k. gsize 6 6 k + 16)
    [0, 16, 32, 64, 80, 88, 104, 132, 148, 172, 200, 226, 260, 294, 321, 336, 353, 384, 392, 431, 452, 475, 495, 512, 520, 538, 563, 577, 640]"
    by (simp add: AndroidSizeClassConfig_def gsize_def)
  moreover have "unat (Classes Android ! j) = map unat (drop 3 (Classes Android)) ! (j - 3)"
    using assms by (simp add: android_fields)
  ultimately have "unat (Classes Android ! j) = map (\<lambda>k. gsize 6 6 k + 16)
    [0, 16, 32, 64, 80, 88, 104, 132, 148, 172, 200, 226, 260, 294, 321, 336, 353, 384, 392, 431, 452, 475, 495, 512, 520, 538, 563, 577, 640] ! (j - 3)" by simp
  moreover have "j - 3 < 29" using assms by simp
  ultimately show ?thesis by (subst (asm) nth_map) (simp, blast)
qed

lemma android_table:
  assumes "k < 640"
  shows "SzTable Android ! k = computeClassId Android (of_nat (gsize 6 6 (Suc k)) + 16)"
proof -
  have g0: "of_nat (gsize 6 (sc_S Android) 0) = (push_bit 6 1 :: uptr)" "of_nat (2 ^ (6 - sc_S Android + 0 div 2 ^ sc_S Android)) = (push_bit 0 1 :: uptr)"
    by (simp_all add: gsize_def android_fields)
  have "SzTable Android = map (\<lambda>i. computeClassId Android (of_nat (gsize 6 6 (Suc i)) + 16)) [0..<640]"
    using fill_table_spec [of Android 6 10 0 640] unfolding g0 by (simp add: SzTable_def android_fields)
  then show ?thesis using assms by simp
qed

text \<open>The class of a size as an index into the list of classes.\<close>

lemma android_class:
  assumes S: "1 \<le> unat Sz" "unat Sz \<le> 0x10010"
  shows "\<exists>j<32. unat (table_getClassIdBySize Android Sz) = Suc j \<and> unat Sz \<le> unat (Classes Android ! j) \<and>
    (0 < j \<longrightarrow> unat (Classes Android ! (j - 1)) < unat Sz)"
proof (cases "unat Sz \<le> 0x20")
  case True
  then have "Sz \<le> 0x20" by (simp add: word_le_nat_alt)
  then have "table_getClassIdBySize Android Sz = 1" by (simp add: table_getClassIdBySize_def android_fields)
  then show ?thesis using True android_low [of 0] by (intro exI [of _ 0]) simp
next
  case False
  then have gt: "\<not> Sz \<le> 0x20" "32 < unat Sz" by (simp_all add: word_le_nat_alt)
  define T where "T = Sz - 16"
  have T: "unat T = unat Sz - 16" using gt unfolding T_def by (subst unat_sub) (simp_all add: word_le_nat_alt)
  define x where "x = T - 1"
  have x: "unat x = unat Sz - 17" using T gt unfolding x_def by (subst unat_minus_one) auto
  show ?thesis
  proof (cases "T \<le> push_bit 6 1")
    case True
    then have t64: "unat Sz \<le> 80" using T gt by (simp add: word_le_nat_alt)
    have "table_getClassIdBySize Android Sz = drop_bit 4 x + 1"
      using gt True by (simp add: table_getClassIdBySize_def android_fields x_def T_def)
    moreover have d: "unat (drop_bit 4 x) = (unat Sz - 17) div 16"
      unfolding unat_drop_bit_eq x by (simp add: drop_bit_eq_div)
    moreover have "(unat Sz - 17) div 16 < 4" using t64 by simp
    ultimately have "unat (table_getClassIdBySize Android Sz) = Suc ((unat Sz - 17) div 16)"
      by (subst \<open>table_getClassIdBySize Android Sz = _\<close>, subst unat_add_lem [THEN iffD1]) simp_all
    moreover define j where "j = (unat Sz - 17) div 16"
    have "j < 4" "16 * j \<le> unat Sz - 17" "unat Sz - 17 < 16 * j + 16" using t64 by (auto simp: j_def)
    ultimately show ?thesis
      using android_low [of j] android_low [of "j - 1"] gt by (intro exI [of _ j]) (auto simp flip: j_def)
  next
    case False
    then have t: "64 < unat T" by (simp add: word_le_nat_alt)
    have xm: "2 ^ 6 \<le> unat x" "unat x < 2 ^ 16" "unat x < 2 ^ 32" using t T x S by simp_all
    define L where "L = getMostSignificantSetBitIndex x"
    have "x \<noteq> 0" using xm by auto
    from msb_spec [OF this] have L: "2 ^ L \<le> unat x" "unat x < 2 ^ (L + 1)" by (simp_all add: L_def)
    define k where "k = (L - 6) * 2 ^ 6 + (unat x div 2 ^ (L - 6) - 2 ^ 6)"
    have sl: "unat (scaledLog2 x 6 6) = k"
      using unat_scaledLog2 [of 6 6 x] xm by (simp only: k_def L_def)
    have "6 \<le> (6::nat)" by simp
    note g = gsize_class(4,5) [OF this xm(1) L, folded k_def]
    have k640: "k < 640"
    proof (rule ccontr)
      assume "\<not> k < 640"
      then have "gsize 6 6 640 \<le> gsize 6 6 k"
        using gsize_mono [of 6 6 640 k] by (cases "k = 640") auto
      moreover have "gsize 6 6 640 = 2 ^ 16" by (simp add: gsize_def)
      ultimately show False using g(1) xm(2) by simp
    qed
    define P where "P = (of_nat (gsize 6 6 (Suc k)) + 16 :: uptr)"
    have gs: "gsize 6 6 (Suc k) \<le> 2 ^ 16" using gsize_le_exp [of 6 6 "Suc k" 10] k640 by simp
    have uP: "unat P = gsize 6 6 (Suc k) + 16"
    proof -
      have "P = of_nat (gsize 6 6 (Suc k) + 16)" by (simp add: P_def)
      then have "unat P = unat (of_nat (gsize 6 6 (Suc k) + 16) :: uptr)" by (rule arg_cong)
      also have "\<dots> = gsize 6 6 (Suc k) + 16"
        unfolding unat_of_nat using gs by (intro mod_less) simp
      finally show ?thesis .
    qed
    have "P \<le> Classes Android ! 31" using gs uP by (simp add: word_le_nat_alt AndroidSizeClassConfig_def)
    then have "\<exists>c\<in>set (Classes Android). P \<le> c" using nth_mem [of 31 "Classes Android"] by (auto simp: android_fields)
    from compute_class_spec [OF this, of 0] obtain j where j: "j < 32" "computeClassId Android P = of_nat (Suc j)"
      "P \<le> Classes Android ! j" "\<forall>j'<j. Classes Android ! j' < P" by (auto simp: computeClassId_def android_fields)
    have uj: "unat (of_nat (Suc j) :: u8) = Suc j"
      unfolding unat_of_nat using j(1) by (intro mod_less) simp
    have cl: "table_getClassIdBySize Android Sz = ucast (computeClassId Android P)"
      using gt False sl android_table [OF k640]
      by (simp add: table_getClassIdBySize_def android_fields x_def T_def P_def)
    have c: "unat (table_getClassIdBySize Android Sz) = Suc j"
      unfolding cl j(2) unsigned_ucast_eq uj using j(1) by (simp add: take_bit_eq_mod)
    have fit: "unat Sz \<le> unat (Classes Android ! j)"
      using j(3) uP g(2) x gt by (simp add: word_le_nat_alt)
    have least: "unat (Classes Android ! (j - 1)) < unat Sz" if "0 < j"
    proof (cases "j - 1 < 3")
      case True
      then show ?thesis using android_low [of "j - 1"] t T by simp
    next
      case False
      then obtain k0 where k0: "unat (Classes Android ! (j - 1)) = gsize 6 6 k0 + 16"
      proof -
        have "3 \<le> j - 1" "j - 1 < 32" using False j(1) by linarith+
        from android_boundaries [OF this] that show ?thesis by blast
      qed
      have "Classes Android ! (j - 1) < P" using j(4) that by simp
      then have "gsize 6 6 k0 < gsize 6 6 (Suc k)" using k0 uP by (simp add: word_less_nat_alt)
      then have "k0 \<le> k" using gsize_mono [of 6 6 "Suc k" k0] by (metis less_irrefl less_Suc_eq_le linorder_neqE_nat order_less_trans order_refl)
      then have "gsize 6 6 k0 \<le> gsize 6 6 k" using gsize_mono [of 6 6 k0 k] by (cases "k0 = k") auto
      then show ?thesis using k0 g(1) x gt t T by simp
    qed
    show ?thesis using c fit least j(1) by blast
  qed
qed

lemma android_getSize: "1 \<le> unat c \<Longrightarrow> table_getSizeByClassId Android c = Classes Android ! (unat c - 1)"
  by (simp add: table_getSizeByClassId_def, subst unat_minus_one) auto

interpretation android_sc: size_class_map "table_getSizeByClassId AndroidSizeClassConfig"
  "table_getClassIdBySize AndroidSizeClassConfig" "table_NumClasses AndroidSizeClassConfig" "table_MaxSize AndroidSizeClassConfig"
proof
  show "table_getSizeByClassId Android c < table_getSizeByClassId Android d"
    if "1 \<le> unat c" "unat c < unat d" "unat d < unat (table_NumClasses Android)" for c d
    using that android_nth_less [of "unat c - 1" "unat d - 1"] by (simp add: android_getSize android_fields)
  fix Sz assume S: "1 \<le> unat Sz" "Sz \<le> table_MaxSize Android"
  then have "unat Sz \<le> 0x10010" by (simp add: android_fields word_le_nat_alt)
  from android_class [OF S(1) this] obtain j where j: "j < 32" "unat (table_getClassIdBySize Android Sz) = Suc j"
    "unat Sz \<le> unat (Classes Android ! j)" "0 < j \<longrightarrow> unat (Classes Android ! (j - 1)) < unat Sz" by blast
  show "1 \<le> unat (table_getClassIdBySize Android Sz) \<and> unat (table_getClassIdBySize Android Sz) < unat (table_NumClasses Android)"
    using j by (simp add: android_fields)
  show "Sz \<le> table_getSizeByClassId Android (table_getClassIdBySize Android Sz)"
    using j by (simp add: android_getSize word_le_nat_alt)
  show "table_getSizeByClassId Android (table_getClassIdBySize Android Sz - 1) < Sz" if n1: "table_getClassIdBySize Android Sz \<noteq> 1"
  proof -
    have "0 < j" using n1 j(2) by (auto simp: word_unat_eq_iff)
    moreover have "unat (table_getClassIdBySize Android Sz - 1) = j" using j(2) by (subst unat_minus_one) auto
    ultimately show ?thesis using j(4) by (simp add: android_getSize word_less_nat_alt)
  qed
next
  show "2 \<le> unat (table_NumClasses Android) \<and> table_getSizeByClassId Android (table_NumClasses Android - 1) = table_MaxSize Android \<and>
    1 \<le> unat (table_getSizeByClassId Android 1)"
    by (simp add: android_fields android_getSize) (simp add: AndroidSizeClassConfig_def)
qed

section \<open>Properties\<close>

text \<open>C38: The computed map sends every request up to MaxSize to the smallest class that can hold it, for
  every configuration with parameters in order, so for the default, Fuchsia and Trusty ones.\<close>

theorem fixed_class_least:
  assumes "fixed_ok cfg" and "1 \<le> unat Sz" and "Sz \<le> fixed_MaxSize cfg"
  shows "1 \<le> unat (fixed_getClassIdBySize cfg Sz) \<and>
    unat (fixed_getClassIdBySize cfg Sz) < unat (fixed_NumClasses cfg) \<and>
    Sz \<le> fixed_getSizeByClassId cfg (fixed_getClassIdBySize cfg Sz) \<and>
    (\<forall>c. 1 \<le> unat c \<and> unat c < unat (fixed_NumClasses cfg) \<and> Sz \<le> fixed_getSizeByClassId cfg c \<longrightarrow>
      unat (fixed_getClassIdBySize cfg Sz) \<le> unat c)"
proof -
  note m = fixed_map.fixed_is_size_class_map [OF fixed_map.intro [OF assms(1)]]
  show ?thesis
    using size_class_map.class_range [OF m assms(2,3)] size_class_map.class_fits [OF m assms(2,3)]
      size_class_map.class_is_least [OF m assms(2,3)] by blast
qed

theorem fixed_class_least_witness:
  "1 \<le> unat (fixed_getClassIdBySize DefaultSizeClassConfig 1000) \<and>
   1000 \<le> fixed_getSizeByClassId DefaultSizeClassConfig (fixed_getClassIdBySize DefaultSizeClassConfig 1000)"
  using fixed_class_least [of DefaultSizeClassConfig 1000] default_map.ok
  by (simp add: fixed_MaxSize_def DefaultSizeClassConfig_def)

text \<open>C39: The table of the Android configuration does the same, although it looks the class up in
  steps of the size sequence: no class boundary is missed.\<close>

theorem android_class_least:
  assumes "1 \<le> unat Sz" and "Sz \<le> table_MaxSize AndroidSizeClassConfig"
  shows "1 \<le> unat (table_getClassIdBySize AndroidSizeClassConfig Sz) \<and>
    unat (table_getClassIdBySize AndroidSizeClassConfig Sz) < unat (table_NumClasses AndroidSizeClassConfig) \<and>
    Sz \<le> table_getSizeByClassId AndroidSizeClassConfig (table_getClassIdBySize AndroidSizeClassConfig Sz) \<and>
    (\<forall>c. 1 \<le> unat c \<and> unat c < unat (table_NumClasses AndroidSizeClassConfig) \<and>
        Sz \<le> table_getSizeByClassId AndroidSizeClassConfig c \<longrightarrow>
      unat (table_getClassIdBySize AndroidSizeClassConfig Sz) \<le> unat c)"
  using android_sc.class_range [OF assms] android_sc.class_fits [OF assms] android_sc.class_is_least [OF assms] by blast

theorem android_class_least_witness:
  "1000 \<le> table_getSizeByClassId AndroidSizeClassConfig (table_getClassIdBySize AndroidSizeClassConfig 1000)"
  using android_class_least [of 1000] by (simp add: android_fields)

text \<open>C40: Every class is the class of its own size, in all four maps: the two directions of a map are
  inverse to each other on the classes.\<close>

theorem class_size_roundtrip:
  assumes "1 \<le> unat c"
  shows "(fixed_ok cfg \<and> unat c < unat (fixed_NumClasses cfg) \<longrightarrow>
      fixed_getClassIdBySize cfg (fixed_getSizeByClassId cfg c) = c) \<and>
    (unat c < unat (table_NumClasses AndroidSizeClassConfig) \<longrightarrow>
      table_getClassIdBySize AndroidSizeClassConfig (table_getSizeByClassId AndroidSizeClassConfig c) = c)"
  using assms android_sc.class_of_size [of c]
    size_class_map.class_of_size [OF fixed_map.fixed_is_size_class_map [OF fixed_map.intro], of cfg c] by blast

theorem class_size_roundtrip_witness:
  "table_getClassIdBySize AndroidSizeClassConfig (table_getSizeByClassId AndroidSizeClassConfig 7) = 7"
  using class_size_roundtrip [of 7] by (simp add: android_fields)

lemma max_cached_hint:
  assumes "MaxNumCachedHint cfg \<noteq> 0"
  shows "1 \<le> unat (getMaxCachedHint cfg Sz) \<and> getMaxCachedHint cfg Sz \<le> MaxNumCachedHint cfg"
proof -
  define N where "N = (if 31 < MaxBytesCachedLog cfg \<or> 31 < MaxSizeLog cfg
    then ucast (push_bit (MaxBytesCachedLog cfg) (1 :: uptr) div Sz) :: u32
    else push_bit (MaxBytesCachedLog cfg) 1 div ucast Sz)"
  have h: "unat (ucast (MaxNumCachedHint cfg) :: u32) = unat (MaxNumCachedHint cfg)"
    using unat_less_exp [of "MaxNumCachedHint cfg"] by (simp add: unsigned_ucast_eq take_bit_eq_mod)
  have p: "1 \<le> unat (MaxNumCachedHint cfg)" using assms by (simp add: Suc_le_eq unat_gt_0)
  define r where "r = max 1 (min (ucast (MaxNumCachedHint cfg)) N)"
  have r: "1 \<le> unat r" "unat r \<le> unat (MaxNumCachedHint cfg)"
    using h p by (auto simp: r_def max_def min_def word_le_nat_alt split: if_splits)
  have "unat r < 2 ^ 16" using r(2) unat_less_exp [of "MaxNumCachedHint cfg"] by simp
  then have "unat (ucast r :: u16) = unat r" by (simp add: unsigned_ucast_eq take_bit_eq_mod)
  then show ?thesis
    using r by (simp add: getMaxCachedHint_def N_def [symmetric] r_def [symmetric] word_le_nat_alt)
qed

text \<open>The number of blocks a thread caches of a class is at least one and at most the configured
  hint.\<close>

theorem max_cached_bounds:
  assumes "MaxNumCachedHint cfg \<noteq> 0"
  shows "1 \<le> unat (getMaxCachedHint cfg Sz) \<and> getMaxCachedHint cfg Sz \<le> MaxNumCachedHint cfg"
  by (rule max_cached_hint [OF assms])

theorem max_cached_bounds_witness:
  "1 \<le> unat (getMaxCachedHint DefaultSizeClassConfig 96) \<and>
   getMaxCachedHint DefaultSizeClassConfig 96 \<le> MaxNumCachedHint DefaultSizeClassConfig"
  by (rule max_cached_bounds) (simp add: DefaultSizeClassConfig_def)

end

