(* ===== verification/Quarantine.thy ===== *)
theory Quarantine
  imports Common
begin

text \<open>quarantine.h: freed chunks wait in batches, in a cache per thread and then in a global cache, before
  they are recycled. The callback, a template parameter of the code, is a record of operations on the
  state 'a of its owner. A batch is the list of the used part of its array; its address is that of the
  block it was allocated in.\<close>

section \<open>Batches\<close>

record QuarantineBatch =
  qbAddr :: uptr
  qbSize :: uptr
  qbBatch :: "uptr list"

text \<open>A link, a word, a u32 and 1019 pointers.\<close>

definition qbMaxCount :: nat where "qbMaxCount = 1019"
definition sizeof_QuarantineBatch :: uptr where "sizeof_QuarantineBatch = 8176"

definition qb_Count :: "QuarantineBatch \<Rightarrow> nat" where
  "qb_Count B = List.length (qbBatch B)"

definition qb_init :: "uptr \<Rightarrow> uptr \<Rightarrow> uptr \<Rightarrow> QuarantineBatch" where
  "qb_init addr Ptr Sz = \<lparr> qbAddr = addr, qbSize = Sz + sizeof_QuarantineBatch, qbBatch = [Ptr] \<rparr>"

definition getQuarantinedSize :: "QuarantineBatch \<Rightarrow> uptr" where
  "getQuarantinedSize B = qbSize B - sizeof_QuarantineBatch"

definition qb_push_back :: "uptr \<Rightarrow> uptr \<Rightarrow> QuarantineBatch \<Rightarrow> QuarantineBatch" where
  "qb_push_back Ptr Sz B = B\<lparr>qbBatch := qbBatch B @ [Ptr], qbSize := qbSize B + Sz\<rparr>"

definition canMerge :: "QuarantineBatch \<Rightarrow> QuarantineBatch \<Rightarrow> bool" where
  "canMerge B From \<longleftrightarrow> qb_Count B + qb_Count From \<le> qbMaxCount"

text \<open>The merged batch and what remains of the other.\<close>

definition qb_merge :: "QuarantineBatch \<Rightarrow> QuarantineBatch \<Rightarrow> QuarantineBatch \<times> QuarantineBatch" where
  "qb_merge B From = (B\<lparr>qbBatch := qbBatch B @ qbBatch From, qbSize := qbSize B + getQuarantinedSize From\<rparr>,
     From\<lparr>qbBatch := [], qbSize := sizeof_QuarantineBatch\<rparr>)"

definition qb_shuffle :: "u32 \<Rightarrow> QuarantineBatch \<Rightarrow> QuarantineBatch" where
  "qb_shuffle St B = B\<lparr>qbBatch := fst (shuffle (qbBatch B) (of_nat (qb_Count B)) St)\<rparr>"

section \<open>The cache of a thread\<close>

record QuarantineCache =
  qcList :: "QuarantineBatch list"
  qcSize :: uptr

record 'a quarantine_cb =
  cbAllocate :: "uptr \<Rightarrow> 'a \<Rightarrow> (uptr \<times> 'a) result"
  cbDeallocate :: "uptr \<Rightarrow> 'a \<Rightarrow> 'a result"
  cbRecycle :: "uptr \<Rightarrow> 'a \<Rightarrow> 'a result"

definition empty_quarantine :: QuarantineCache where
  "empty_quarantine = \<lparr> qcList = [], qcSize = 0 \<rparr>"

definition getOverheadSize :: "QuarantineCache \<Rightarrow> uptr" where
  "getOverheadSize C = of_nat (List.length (qcList C)) * sizeof_QuarantineBatch"

definition addToSize :: "uptr \<Rightarrow> QuarantineCache \<Rightarrow> QuarantineCache" where
  "addToSize add C = C\<lparr>qcSize := qcSize C + add\<rparr>"

definition subFromSize :: "uptr \<Rightarrow> QuarantineCache \<Rightarrow> QuarantineCache" where
  "subFromSize sub C = C\<lparr>qcSize := qcSize C - sub\<rparr>"

definition enqueueBatch :: "QuarantineBatch \<Rightarrow> QuarantineCache \<Rightarrow> QuarantineCache" where
  "enqueueBatch B C = addToSize (qbSize B) (C\<lparr>qcList := qcList C @ [B]\<rparr>)"

definition enqueue :: "'a quarantine_cb \<Rightarrow> uptr \<Rightarrow> uptr \<Rightarrow> QuarantineCache \<times> 'a \<Rightarrow> (QuarantineCache \<times> 'a) result" where
  "enqueue cb Ptr Sz = (\<lambda>(C, S).
    if qcList C = [] \<or> qb_Count (last (qcList C)) = qbMaxCount then
      bindR (cbAllocate cb sizeof_QuarantineBatch S) (\<lambda>(B, S). Inr (enqueueBatch (qb_init B Ptr Sz) C, S))
    else Inr (addToSize Sz (C\<lparr>qcList := butlast (qcList C) @ [qb_push_back Ptr Sz (last (qcList C))]\<rparr>), S))"

text \<open>This cache and the other one after the transfer.\<close>

definition transfer :: "QuarantineCache \<Rightarrow> QuarantineCache \<Rightarrow> QuarantineCache \<times> QuarantineCache" where
  "transfer From C = (addToSize (qcSize From) (C\<lparr>qcList := qcList C @ qcList From\<rparr>), \<lparr> qcList = [], qcSize = 0 \<rparr>)"

definition dequeueBatch :: "QuarantineCache \<Rightarrow> QuarantineBatch option \<times> QuarantineCache" where
  "dequeueBatch C = (case qcList C of [] \<Rightarrow> (None, C)
    | B # L \<Rightarrow> (Some B, subFromSize (qbSize B) (C\<lparr>qcList := L\<rparr>)))"

text \<open>mergeBatches: the batches that stay, and the extracted ones in the order in which they are
  enqueued for deallocation.\<close>

fun merge_run :: "QuarantineBatch list \<Rightarrow> QuarantineBatch list \<times> QuarantineBatch list" where
  "merge_run [] = ([], [])"
| "merge_run [Current] = ([Current], [])"
| "merge_run (Current # Nxt # L) =
    (if canMerge Current Nxt then
       (case qb_merge Current Nxt of (Current, Extracted) \<Rightarrow>
          case merge_run (Current # L) of (K, X) \<Rightarrow> (K, Extracted # X))
     else (case merge_run (Nxt # L) of (K, X) \<Rightarrow> (Current # K, X)))"

definition mergeBatches :: "QuarantineCache \<Rightarrow> QuarantineCache \<Rightarrow> QuarantineCache \<times> QuarantineCache" where
  "mergeBatches ToDeallocate C = (case merge_run (qcList C) of (K, X) \<Rightarrow>
     (subFromSize (\<Sum>B\<leftarrow>X. qbSize B) (C\<lparr>qcList := K\<rparr>), fold enqueueBatch X ToDeallocate))"

section \<open>The global quarantine\<close>

record GlobalQuarantine =
  gqCache :: QuarantineCache
  gqMinSize :: uptr
  gqMaxSize :: uptr
  gqMaxCacheSize :: uptr

definition gq_init :: "uptr \<Rightarrow> uptr \<Rightarrow> GlobalQuarantine \<Rightarrow> GlobalQuarantine result" where
  "gq_init Sz CacheSize Q = bindR (CHECK (Sz = 0 \<and> CacheSize = 0 \<or> CacheSize \<noteq> 0) ''(Size == 0 && CacheSize == 0) || CacheSize != 0'')
    (\<lambda>_. Inr (Q\<lparr>gqMaxSize := Sz, gqMinSize := Sz div 10 * 9, gqMaxCacheSize := CacheSize\<rparr>))"

definition getCacheSize :: "GlobalQuarantine \<Rightarrow> uptr" where
  "getCacheSize Q = gqMaxCacheSize Q"

definition gq_isEmpty :: "GlobalQuarantine \<Rightarrow> bool" where
  "gq_isEmpty Q \<longleftrightarrow> qcSize (gqCache Q) = 0"

text \<open>The extraction of batches until at most MinSize bytes are left: the code dequeues from the list and
  enqueues what it gets without a test.\<close>

fun extract_run :: "uptr \<Rightarrow> QuarantineBatch list \<Rightarrow> uptr \<Rightarrow> QuarantineCache \<Rightarrow> (QuarantineCache \<times> QuarantineCache) result" where
  "extract_run MinSize L Sz Tmp =
    (if Sz \<le> MinSize then Inr (\<lparr> qcList = L, qcSize = Sz \<rparr>, Tmp)
     else (case L of [] \<Rightarrow> Inl (NullDereference ''enqueueBatch(nullptr)'')
       | B # L \<Rightarrow> extract_run MinSize L (Sz - qbSize B) (enqueueBatch B Tmp)))"

declare extract_run.simps [simp del]

text \<open>Recycling the chunks of a batch in shuffled order, then the batch; frame is the address of the
  temporary cache, which goes into the seed.\<close>

fun recycle_all :: "'a quarantine_cb \<Rightarrow> uptr list \<Rightarrow> 'a \<Rightarrow> 'a result" where
  "recycle_all cb [] S = Inr S"
| "recycle_all cb (p # ps) S = bindR (cbRecycle cb p S) (recycle_all cb ps)"

definition recycle_batch :: "'a quarantine_cb \<Rightarrow> uptr \<Rightarrow> QuarantineBatch \<Rightarrow> 'a \<Rightarrow> 'a result" where
  "recycle_batch cb frame B S =
    (let B = qb_shuffle (ucast (drop_bit 4 (qbAddr B XOR frame))) B
     in bindR (recycle_all cb (qbBatch B) S) (cbDeallocate cb (qbAddr B)))"

fun doRecycle :: "'a quarantine_cb \<Rightarrow> uptr \<Rightarrow> QuarantineBatch list \<Rightarrow> 'a \<Rightarrow> 'a result" where
  "doRecycle cb frame [] S = Inr S"
| "doRecycle cb frame (B # L) S = bindR (recycle_batch cb frame B S) (doRecycle cb frame L)"

definition quarantine_recycle :: "'a quarantine_cb \<Rightarrow> uptr \<Rightarrow> uptr \<Rightarrow> GlobalQuarantine \<times> 'a \<Rightarrow> (GlobalQuarantine \<times> 'a) result" where
  "quarantine_recycle cb frame MinSize = (\<lambda>(Q, S).
    let C = gqCache Q; CacheSize = qcSize C; OverheadSize = getOverheadSize C;
        (C, Tmp) = (if OverheadSize < CacheSize \<and> CacheSize * 100 < OverheadSize * (100 + 100)
                    then mergeBatches empty_quarantine C else (C, empty_quarantine))
    in bindR (extract_run MinSize (qcList C) (qcSize C) Tmp) (\<lambda>(C, Tmp).
       bindR (doRecycle cb frame (qcList Tmp) S) (\<lambda>S. Inr (Q\<lparr>gqCache := C\<rparr>, S))))"

text \<open>locked: whether tryLock of the recycle mutex succeeds.\<close>

definition quarantine_drain :: "'a quarantine_cb \<Rightarrow> uptr \<Rightarrow> bool \<Rightarrow> QuarantineCache \<times> GlobalQuarantine \<times> 'a \<Rightarrow>
    (QuarantineCache \<times> GlobalQuarantine \<times> 'a) result" where
  "quarantine_drain cb frame locked = (\<lambda>(C, Q, S).
    case transfer C (gqCache Q) of (G, C) \<Rightarrow>
      let Q = Q\<lparr>gqCache := G\<rparr> in
      if gqMaxSize Q < qcSize G \<and> locked
      then bindR (quarantine_recycle cb frame (gqMinSize Q) (Q, S)) (\<lambda>(Q, S). Inr (C, Q, S))
      else Inr (C, Q, S))"

definition quarantine_drainAndRecycle :: "'a quarantine_cb \<Rightarrow> uptr \<Rightarrow> QuarantineCache \<times> GlobalQuarantine \<times> 'a \<Rightarrow>
    (QuarantineCache \<times> GlobalQuarantine \<times> 'a) result" where
  "quarantine_drainAndRecycle cb frame = (\<lambda>(C, Q, S).
    case transfer C (gqCache Q) of (G, C) \<Rightarrow>
      bindR (quarantine_recycle cb frame 0 (Q\<lparr>gqCache := G\<rparr>, S)) (\<lambda>(Q, S). Inr (C, Q, S)))"

definition quarantine_put :: "'a quarantine_cb \<Rightarrow> uptr \<Rightarrow> bool \<Rightarrow> uptr \<Rightarrow> uptr \<Rightarrow> QuarantineCache \<times> GlobalQuarantine \<times> 'a \<Rightarrow>
    (QuarantineCache \<times> GlobalQuarantine \<times> 'a) result" where
  "quarantine_put cb frame locked Ptr Sz = (\<lambda>(C, Q, S).
    bindR (enqueue cb Ptr Sz (C, S)) (\<lambda>(C, S).
      if getCacheSize Q < qcSize C then quarantine_drain cb frame locked (C, Q, S) else Inr (C, Q, S)))"

section \<open>Pointers and sizes\<close>

definition ptrs_of :: "QuarantineBatch list \<Rightarrow> uptr multiset" where
  "ptrs_of L = mset (concat (map qbBatch L))"

definition addrs_of :: "QuarantineBatch list \<Rightarrow> uptr multiset" where
  "addrs_of L = mset (map qbAddr L)"

text \<open>The size of a cache is the sum of the sizes of its batches, each of which counts itself; no batch is
  over-full.\<close>

definition qcache_ok :: "QuarantineCache \<Rightarrow> bool" where
  "qcache_ok C \<longleftrightarrow> qcSize C = (\<Sum>B\<leftarrow>qcList C. qbSize B) \<and> (\<forall>B\<in>set (qcList C). qb_Count B \<le> qbMaxCount)"

lemma ptrs_of_simps [simp]:
  "ptrs_of [] = {#}" "ptrs_of (B # L) = mset (qbBatch B) + ptrs_of L" "ptrs_of (L @ L') = ptrs_of L + ptrs_of L'"
  "addrs_of [] = {#}" "addrs_of (B # L) = add_mset (qbAddr B) (addrs_of L)" "addrs_of (L @ L') = addrs_of L + addrs_of L'"
  by (simp_all add: ptrs_of_def addrs_of_def)

lemma qcache_ok_empty: "qcache_ok empty_quarantine" "qcList empty_quarantine = []"
  by (simp_all add: qcache_ok_def empty_quarantine_def)

lemma enqueueBatch_ok: "qcache_ok C \<Longrightarrow> qb_Count B \<le> qbMaxCount \<Longrightarrow> qcache_ok (enqueueBatch B C)"
  by (simp add: qcache_ok_def enqueueBatch_def addToSize_def)

lemma enqueueBatch_list [simp]: "qcList (enqueueBatch B C) = qcList C @ [B]"
  by (simp add: enqueueBatch_def addToSize_def)

lemma transfer_ok:
  assumes "transfer From C = (G, From')" and "qcache_ok From" "qcache_ok C"
  shows "qcache_ok G" "qcache_ok From'" "qcList G = qcList C @ qcList From" "qcList From' = []"
  using assms by (auto simp: transfer_def qcache_ok_def addToSize_def)

lemma qb_shuffle_keeps [simp]: "qbAddr (qb_shuffle s B) = qbAddr B" "mset (qbBatch (qb_shuffle s B)) = mset (qbBatch B)"
  if "qb_Count B \<le> qbMaxCount"
proof -
  have "unat (of_nat (qb_Count B) :: u32) \<le> List.length (qbBatch B)"
    using that by (simp add: unat_of_nat qb_Count_def)
  then show "mset (qbBatch (qb_shuffle s B)) = mset (qbBatch B)" by (simp add: qb_shuffle_def shuffle_mset)
qed (simp add: qb_shuffle_def)

lemma merge_run_ok:
  "merge_run L = (K, X) \<Longrightarrow> (\<forall>B\<in>set L. qb_Count B \<le> qbMaxCount) \<Longrightarrow>
    ptrs_of K = ptrs_of L \<and> (\<forall>B\<in>set X. qbBatch B = [] \<and> qbSize B = sizeof_QuarantineBatch) \<and> addrs_of K + addrs_of X = addrs_of L \<and>
    (\<Sum>B\<leftarrow>K. qbSize B) + (\<Sum>B\<leftarrow>X. qbSize B) = (\<Sum>B\<leftarrow>L. qbSize B) \<and> (\<forall>B\<in>set K. qb_Count B \<le> qbMaxCount)"
proof (induction L arbitrary: K X rule: merge_run.induct)
  case (3 Cur Nxt L)
  show ?case
  proof (cases "canMerge Cur Nxt")
    case True
    obtain M E where m: "qb_merge Cur Nxt = (M, E)" by (rule prod.exhaust)
    obtain K' X' where r: "merge_run (M # L) = (K', X')" by (rule prod.exhaust)
    have e: "K = K'" "X = E # X'" using 3(3) True m r by simp_all
    have M: "qb_Count M \<le> qbMaxCount" "qbBatch M = qbBatch Cur @ qbBatch Nxt" "qbAddr M = qbAddr Cur" "qbSize M = qbSize Cur + getQuarantinedSize Nxt"
      and E: "qbBatch E = []" "qbSize E = sizeof_QuarantineBatch" "qbAddr E = qbAddr Nxt"
      using m True by (auto simp: qb_merge_def canMerge_def qb_Count_def)
    note i = 3(1) [OF True m [symmetric] r]
    show ?thesis using i 3(4) M E e by (simp add: getQuarantinedSize_def ac_simps)
  next
    case False
    obtain K' X' where r: "merge_run (Nxt # L) = (K', X')" by (rule prod.exhaust)
    have e: "K = Cur # K'" "X = X'" using 3(3) False r by simp_all
    show ?thesis using 3(2) [OF False r] 3(4) e by (simp add: ac_simps)
  qed
qed auto

lemma fold_enqueueBatch: "qcache_ok C \<Longrightarrow> (\<forall>B\<in>set X. qb_Count B \<le> qbMaxCount) \<Longrightarrow>
    qcache_ok (fold enqueueBatch X C) \<and> qcList (fold enqueueBatch X C) = qcList C @ X"
  by (induction X arbitrary: C) (simp_all add: enqueueBatch_ok)

lemma extract_run_ok:
  "\<lbrakk> Sz = (\<Sum>B\<leftarrow>L. qbSize B); qcache_ok Tmp; \<forall>B\<in>set L. qb_Count B \<le> qbMaxCount \<rbrakk> \<Longrightarrow>
    \<exists>C' Tmp' D. extract_run MinSize L Sz Tmp = Inr (C', Tmp') \<and> qcache_ok C' \<and> qcache_ok Tmp' \<and> qcSize C' \<le> MinSize \<and>
      L = D @ qcList C' \<and> qcList Tmp' = qcList Tmp @ D"
proof (induction L arbitrary: Sz Tmp)
  case Nil
  then show ?case by (subst extract_run.simps) (simp add: qcache_ok_def)
next
  case (Cons B L)
  show ?case
  proof (cases "Sz \<le> MinSize")
    case True
    then show ?thesis using Cons(2-4) by (subst extract_run.simps) (auto simp: qcache_ok_def)
  next
    case False
    have "Sz - qbSize B = (\<Sum>B\<leftarrow>L. qbSize B)" using Cons(2) by simp
    moreover have "qcache_ok (enqueueBatch B Tmp)" using Cons(3,4) by (simp add: enqueueBatch_ok)
    ultimately obtain C' Tmp' D where r: "extract_run MinSize L (Sz - qbSize B) (enqueueBatch B Tmp) = Inr (C', Tmp')"
      "qcache_ok C'" "qcache_ok Tmp'" "qcSize C' \<le> MinSize" "L = D @ qcList C'" "qcList Tmp' = qcList (enqueueBatch B Tmp) @ D"
      using Cons(1) [of "Sz - qbSize B" "enqueueBatch B Tmp"] Cons(4) by auto
    then show ?thesis using False by (subst extract_run.simps) (auto intro: exI [of _ "B # D"])
  qed
qed

section \<open>The contract of the callback\<close>

text \<open>inv X A: the pointers X wait in the quarantine, in batches at the addresses A. A callback may fail
  with a report that err allows.\<close>

locale quarantine_callback =
  fixes cb :: "'a quarantine_cb" and inv :: "uptr multiset \<Rightarrow> uptr multiset \<Rightarrow> 'a \<Rightarrow> bool" and err :: "report \<Rightarrow> bool"
  assumes allocate_law: "inv X A S \<Longrightarrow>
      (case cbAllocate cb sizeof_QuarantineBatch S of Inl e \<Rightarrow> err e | Inr (B, S') \<Rightarrow> inv X (add_mset B A) S')"
    and deallocate_law: "inv X (add_mset B A) S \<Longrightarrow> (case cbDeallocate cb B S of Inl e \<Rightarrow> err e | Inr S' \<Rightarrow> inv X A S')"
    and recycle_law: "inv (add_mset p X) A S \<Longrightarrow> (case cbRecycle cb p S of Inl e \<Rightarrow> err e | Inr S' \<Rightarrow> inv X A S')"
begin

definition waits :: "uptr multiset \<Rightarrow> uptr multiset \<Rightarrow> QuarantineCache \<Rightarrow> GlobalQuarantine \<Rightarrow> 'a \<Rightarrow> bool" where
  "waits X A C Q S \<longleftrightarrow> qcache_ok C \<and> qcache_ok (gqCache Q) \<and>
    inv (X + ptrs_of (qcList C) + ptrs_of (qcList (gqCache Q))) (A + addrs_of (qcList C) + addrs_of (qcList (gqCache Q))) S"

lemma recycle_all_ok: "inv (mset ps + X) A S \<Longrightarrow> (case recycle_all cb ps S of Inl e \<Rightarrow> err e | Inr S' \<Rightarrow> inv X A S')"
proof (induction ps arbitrary: S)
  case (Cons p ps)
  then have "inv (add_mset p (mset ps + X)) A S" by simp
  from recycle_law [OF this] Cons(1) show ?case by (cases "cbRecycle cb p S") simp_all
qed simp

lemma recycle_batch_ok:
  assumes "qb_Count B \<le> qbMaxCount" and "inv (mset (qbBatch B) + X) (add_mset (qbAddr B) A) S"
  shows "case recycle_batch cb frame B S of Inl e \<Rightarrow> err e | Inr S' \<Rightarrow> inv X A S'"
proof -
  define B' where "B' = qb_shuffle (ucast (drop_bit 4 (qbAddr B XOR frame))) B"
  have B': "qbAddr B' = qbAddr B" "mset (qbBatch B') = mset (qbBatch B)" using qb_shuffle_keeps [OF assms(1)] by (simp_all add: B'_def)
  have "inv (mset (qbBatch B') + X) (add_mset (qbAddr B) A) S" using assms(2) B' by simp
  note r = recycle_all_ok [OF this]
  have e: "recycle_batch cb frame B S = bindR (recycle_all cb (qbBatch B') S) (cbDeallocate cb (qbAddr B))"
    unfolding recycle_batch_def Let_def B'_def [symmetric] B'(1) by simp
  show ?thesis unfolding e
    using r deallocate_law [of X "qbAddr B" A] by (cases "recycle_all cb (qbBatch B') S") simp_all
qed

lemma doRecycle_ok:
  "(\<forall>B\<in>set L. qb_Count B \<le> qbMaxCount) \<Longrightarrow> inv (ptrs_of L + X) (addrs_of L + A) S \<Longrightarrow>
    (case doRecycle cb frame L S of Inl e \<Rightarrow> err e | Inr S' \<Rightarrow> inv X A S')"
proof (induction L arbitrary: S)
  case (Cons B L)
  then have "inv (mset (qbBatch B) + (ptrs_of L + X)) (add_mset (qbAddr B) (addrs_of L + A)) S" by (simp add: ac_simps)
  from recycle_batch_ok [OF _ this, of frame] Cons(1,2) show ?case
    by (cases "recycle_batch cb frame B S") simp_all
qed simp

lemma recycle_ok:
  assumes "waits X A C Q S"
  shows "case quarantine_recycle cb frame MinSize (Q, S) of Inl e \<Rightarrow> err e
    | Inr (Q', S') \<Rightarrow> waits X A C Q' S' \<and> qcSize (gqCache Q') \<le> MinSize \<and> gqMaxCacheSize Q' = gqMaxCacheSize Q \<and> gqMaxSize Q' = gqMaxSize Q"
proof -
  let ?G = "gqCache Q"
  obtain G Tmp where t: "(if getOverheadSize ?G < qcSize ?G \<and> qcSize ?G * 100 < getOverheadSize ?G * (100 + 100)
      then mergeBatches empty_quarantine ?G else (?G, empty_quarantine)) = (G, Tmp)" by (rule prod.exhaust)
  have ok: "qcache_ok ?G" using assms by (simp add: waits_def)
  have m: "qcache_ok G \<and> qcache_ok Tmp \<and> ptrs_of (qcList G) + ptrs_of (qcList Tmp) = ptrs_of (qcList ?G) \<and>
      addrs_of (qcList G) + addrs_of (qcList Tmp) = addrs_of (qcList ?G)"
  proof (cases "getOverheadSize ?G < qcSize ?G \<and> qcSize ?G * 100 < getOverheadSize ?G * (100 + 100)")
    case False
    then have "G = ?G" "Tmp = empty_quarantine" using t by auto
    then show ?thesis using ok qcache_ok_empty by simp
  next
    case True
    obtain K X' where r: "merge_run (qcList ?G) = (K, X')" by (rule prod.exhaust)
    have r': "G = subFromSize (\<Sum>B\<leftarrow>X'. qbSize B) (?G\<lparr>qcList := K\<rparr>)" "Tmp = fold enqueueBatch X' empty_quarantine"
      using t True r by (simp_all add: mergeBatches_def)
    note i = merge_run_ok [OF r] and e = fold_enqueueBatch [OF qcache_ok_empty(1), of X']
    have c: "\<forall>B\<in>set (qcList ?G). qb_Count B \<le> qbMaxCount" "qcSize ?G = (\<Sum>B\<leftarrow>qcList ?G. qbSize B)" using ok by (simp_all add: qcache_ok_def)
    note i = i [OF c(1)]
    have X0: "\<forall>B\<in>set X'. qb_Count B \<le> qbMaxCount" "ptrs_of X' = {#}" using i by (auto simp: qb_Count_def ptrs_of_def)
    have "(\<Sum>B\<leftarrow>qcList ?G. qbSize B) - (\<Sum>B\<leftarrow>X'. qbSize B) = (\<Sum>B\<leftarrow>K. qbSize B)" using i by (metis add_diff_cancel_right')
    then have "qcache_ok G" using i c by (simp add: r'(1) qcache_ok_def subFromSize_def)
    moreover have "qcache_ok Tmp" "qcList Tmp = X'" using e X0 qcache_ok_empty by (simp_all add: r'(2))
    moreover have "qcList G = K" by (simp add: r'(1) subFromSize_def)
    ultimately show ?thesis using i X0(2) by simp
  qed
  have "qcSize G = (\<Sum>B\<leftarrow>qcList G. qbSize B)" "\<forall>B\<in>set (qcList G). qb_Count B \<le> qbMaxCount" using m by (simp_all add: qcache_ok_def)
  from extract_run_ok [OF this(1) conjunct1 [OF conjunct2 [OF m]] this(2), of MinSize] obtain C' Tmp' D where
    x: "extract_run MinSize (qcList G) (qcSize G) Tmp = Inr (C', Tmp')" "qcache_ok C'" "qcache_ok Tmp'" "qcSize C' \<le> MinSize"
      "qcList G = D @ qcList C'" "qcList Tmp' = qcList Tmp @ D" by blast
  have P: "ptrs_of (qcList ?G) = ptrs_of (qcList Tmp') + ptrs_of (qcList C')" "addrs_of (qcList ?G) = addrs_of (qcList Tmp') + addrs_of (qcList C')"
    using m by (simp_all add: x(5,6) ac_simps flip: conjunct1 [OF conjunct2 [OF conjunct2 [OF m]]] conjunct2 [OF conjunct2 [OF conjunct2 [OF m]]])
  have "inv (ptrs_of (qcList Tmp') + (X + ptrs_of (qcList C) + ptrs_of (qcList C'))) (addrs_of (qcList Tmp') + (A + addrs_of (qcList C) + addrs_of (qcList C'))) S"
    using assms by (simp add: waits_def P ac_simps)
  moreover have "\<forall>B\<in>set (qcList Tmp'). qb_Count B \<le> qbMaxCount" using x(3) by (simp add: qcache_ok_def)
  ultimately have r: "case doRecycle cb frame (qcList Tmp') S of Inl e \<Rightarrow> err e
      | Inr S' \<Rightarrow> inv (X + ptrs_of (qcList C) + ptrs_of (qcList C')) (A + addrs_of (qcList C) + addrs_of (qcList C')) S'"
    by (intro doRecycle_ok)
  have e: "quarantine_recycle cb frame MinSize (Q, S) = bindR (doRecycle cb frame (qcList Tmp') S) (\<lambda>S. Inr (Q\<lparr>gqCache := C'\<rparr>, S))"
    unfolding quarantine_recycle_def Let_def prod.case t x(1) bindR.simps ..
  show ?thesis unfolding e
    using r x(2,4) assms by (cases "doRecycle cb frame (qcList Tmp') S") (simp_all add: waits_def)
qed

lemma enqueue_ok:
  assumes C: "qcache_ok C" and i: "inv (add_mset Ptr (X + ptrs_of (qcList C))) (A + addrs_of (qcList C)) S"
  shows "case enqueue cb Ptr Sz (C, S) of Inl e \<Rightarrow> err e
    | Inr (C', S') \<Rightarrow> qcache_ok C' \<and> inv (X + ptrs_of (qcList C')) (A + addrs_of (qcList C')) S'"
proof (cases "qcList C = [] \<or> qb_Count (last (qcList C)) = qbMaxCount")
  case True
  have n: "qb_Count (qb_init B Ptr Sz) \<le> qbMaxCount" "qbBatch (qb_init B Ptr Sz) = [Ptr]" "qbAddr (qb_init B Ptr Sz) = B" for B
    by (simp_all add: qb_init_def qb_Count_def qbMaxCount_def)
  have e: "enqueue cb Ptr Sz (C, S) = bindR (cbAllocate cb sizeof_QuarantineBatch S) (\<lambda>(B, S). Inr (enqueueBatch (qb_init B Ptr Sz) C, S))"
    unfolding enqueue_def prod.case using True by (rule if_P)
  show ?thesis
  proof (cases "cbAllocate cb sizeof_QuarantineBatch S")
    case (Inl x)
    then show ?thesis using allocate_law [OF i] by (simp add: e)
  next
    case (Inr y)
    obtain B S' where y: "y = (B, S')" by (rule prod.exhaust)
    show ?thesis using allocate_law [OF i] Inr enqueueBatch_ok [OF C n(1) [of B]] by (simp add: e y n(2,3))
  qed
next
  case False
  let ?L = "butlast (qcList C)" and ?B = "last (qcList C)"
  have L: "qcList C = ?L @ [?B]" using False by simp
  have "?B \<in> set (qcList C)" using False by simp
  then have "qb_Count ?B \<le> qbMaxCount" using C by (simp add: qcache_ok_def)
  then have B: "qb_Count ?B < qbMaxCount" using False by simp
  have "\<forall>B\<in>set ?L. qb_Count B \<le> qbMaxCount" using C by (auto simp: qcache_ok_def dest: in_set_butlastD)
  moreover have "qcSize C = (\<Sum>B\<leftarrow>?L. qbSize B) + qbSize ?B"
  proof -
    have "qcSize C = (\<Sum>B\<leftarrow>qcList C. qbSize B)" using C by (simp add: qcache_ok_def)
    also have "\<dots> = (\<Sum>B\<leftarrow>?L @ [?B]. qbSize B)" using L by simp
    finally show ?thesis by simp
  qed
  ultimately have o: "qcache_ok (addToSize Sz (C\<lparr>qcList := ?L @ [qb_push_back Ptr Sz ?B]\<rparr>))"
    using B by (auto simp: qcache_ok_def addToSize_def qb_push_back_def qb_Count_def)
  have l: "qcList (addToSize Sz (C\<lparr>qcList := ?L @ [qb_push_back Ptr Sz ?B]\<rparr>)) = ?L @ [qb_push_back Ptr Sz ?B]" by (simp add: addToSize_def)
  have p: "ptrs_of (?L @ [qb_push_back Ptr Sz ?B]) = add_mset Ptr (ptrs_of (?L @ [?B]))" "addrs_of (?L @ [qb_push_back Ptr Sz ?B]) = addrs_of (?L @ [?B])"
    by (simp_all add: qb_push_back_def)
  have e: "enqueue cb Ptr Sz (C, S) = Inr (addToSize Sz (C\<lparr>qcList := ?L @ [qb_push_back Ptr Sz ?B]\<rparr>), S)"
    unfolding enqueue_def prod.case using False by (rule if_not_P)
  have "inv (add_mset Ptr (X + ptrs_of (?L @ [?B]))) (A + addrs_of (?L @ [?B])) S" using i unfolding L [symmetric] .
  then show ?thesis unfolding e using o by (simp only: sum.case prod.case l p union_mset_add_mset_right simp_thms)
qed

lemma drain_ok:
  assumes w: "waits X A C Q S"
  shows "case quarantine_drain cb frame locked (C, Q, S) of Inl e \<Rightarrow> err e
    | Inr (C', Q', S') \<Rightarrow> waits X A C' Q' S' \<and> qcList C' = [] \<and> gqMaxCacheSize Q' = gqMaxCacheSize Q \<and> gqMaxSize Q' = gqMaxSize Q"
proof -
  obtain G C1 where t: "transfer C (gqCache Q) = (G, C1)" by (rule prod.exhaust)
  note o = transfer_ok [OF t]
  have w1: "waits X A C1 (Q\<lparr>gqCache := G\<rparr>) S" using w o by (simp add: waits_def ac_simps)
  have C1: "qcList C1 = []" using o(4) w by (simp add: waits_def)
  show ?thesis
  proof (cases "gqMaxSize Q < qcSize G \<and> locked")
    case True
    then show ?thesis
      using recycle_ok [OF w1, where frame = frame and MinSize = "gqMinSize Q"] C1
      by (cases "quarantine_recycle cb frame (gqMinSize Q) (Q\<lparr>gqCache := G\<rparr>, S)") (auto simp: quarantine_drain_def t Let_def)
  next
    case False
    then show ?thesis using w1 C1 by (auto simp: quarantine_drain_def t Let_def)
  qed
qed

lemma drainAndRecycle_ok:
  assumes w: "waits X A C Q S"
  shows "case quarantine_drainAndRecycle cb frame (C, Q, S) of Inl e \<Rightarrow> err e
    | Inr (C', Q', S') \<Rightarrow> waits X A C' Q' S' \<and> qcList C' = [] \<and> qcSize (gqCache Q') = 0 \<and> gqMaxCacheSize Q' = gqMaxCacheSize Q"
proof -
  obtain G C1 where t: "transfer C (gqCache Q) = (G, C1)" by (rule prod.exhaust)
  note o = transfer_ok [OF t]
  have w1: "waits X A C1 (Q\<lparr>gqCache := G\<rparr>) S" using w o by (simp add: waits_def ac_simps)
  have C1: "qcList C1 = []" using o(4) w by (simp add: waits_def)
  show ?thesis
    using recycle_ok [OF w1, where frame = frame and MinSize = 0] C1
    by (cases "quarantine_recycle cb frame 0 (Q\<lparr>gqCache := G\<rparr>, S)") (auto simp: quarantine_drainAndRecycle_def t)
qed

lemma put_ok:
  assumes w: "qcache_ok C" "qcache_ok (gqCache Q)"
    and i: "inv (add_mset Ptr (X + ptrs_of (qcList C) + ptrs_of (qcList (gqCache Q)))) (A + addrs_of (qcList C) + addrs_of (qcList (gqCache Q))) S"
  shows "case quarantine_put cb frame locked Ptr Sz (C, Q, S) of Inl e \<Rightarrow> err e
    | Inr (C', Q', S') \<Rightarrow> waits X A C' Q' S' \<and> gqMaxCacheSize Q' = gqMaxCacheSize Q"
proof -
  have "inv (add_mset Ptr ((X + ptrs_of (qcList (gqCache Q))) + ptrs_of (qcList C))) ((A + addrs_of (qcList (gqCache Q))) + addrs_of (qcList C)) S"
    using i by (simp add: ac_simps)
  note e = enqueue_ok [OF w(1) this, of Sz]
  show ?thesis
  proof (cases "enqueue cb Ptr Sz (C, S)")
    case (Inl x)
    then show ?thesis using e by (simp add: quarantine_put_def)
  next
    case (Inr y)
    obtain C1 S1 where y: "y = (C1, S1)" by (rule prod.exhaust)
    have w1: "waits X A C1 Q S1" using e w(2) Inr by (simp add: y waits_def ac_simps)
    show ?thesis
    proof (cases "getCacheSize Q < qcSize C1")
      case True
      then show ?thesis using drain_ok [OF w1, of frame locked] Inr
        by (cases "quarantine_drain cb frame locked (C1, Q, S1)") (auto simp: quarantine_put_def y)
    next
      case False
      then show ?thesis using w1 Inr by (simp add: quarantine_put_def y)
    qed
  qed
qed

end

end
