(* ===== verification/Transfer_Batch.thy ===== *)
theory Transfer_Batch
  imports Options_Stats
begin

text \<open>allocator_common.h: the batches of free blocks and the groups of batches of the primary
  allocators. A batch is the list of the compact pointers in the used part of its array, so Count is
  its length; Next links belong to the lists of the batches, which are lists here (list.h is modelled
  and shown to be lists in Intrusive_List). Each batch and group has the address of the block that
  it was made in.\<close>

record TransferBatch =
  tbAddr :: uptr
  Batch :: "uptr list"

definition tb_Count :: "TransferBatch \<Rightarrow> nat" where
  "tb_Count B = List.length (Batch B)"

definition setFromArray :: "uptr list \<Rightarrow> nat \<Rightarrow> TransferBatch \<Rightarrow> TransferBatch" where
  "setFromArray Arr N B = B\<lparr>Batch := take N Arr\<rparr>"

definition appendFromArray :: "uptr list \<Rightarrow> nat \<Rightarrow> TransferBatch \<Rightarrow> TransferBatch" where
  "appendFromArray Arr N B = B\<lparr>Batch := Batch B @ take N Arr\<rparr>"

text \<open>The last N of the other batch move; the result is this batch and the other.\<close>

definition appendFromTransferBatch :: "TransferBatch \<Rightarrow> nat \<Rightarrow> TransferBatch \<Rightarrow> TransferBatch \<times> TransferBatch" where
  "appendFromTransferBatch B' N B =
    (B\<lparr>Batch := Batch B @ drop (List.length (Batch B') - N) (Batch B')\<rparr>,
     B'\<lparr>Batch := take (List.length (Batch B') - N) (Batch B')\<rparr>)"

definition tb_clear :: "TransferBatch \<Rightarrow> TransferBatch" where
  "tb_clear B = B\<lparr>Batch := []\<rparr>"

definition tb_empty :: "TransferBatch \<Rightarrow> bool" where
  "tb_empty B \<longleftrightarrow> tb_Count B = 0"

definition tb_add :: "uptr \<Rightarrow> TransferBatch \<Rightarrow> TransferBatch" where
  "tb_add P B = B\<lparr>Batch := Batch B @ [P]\<rparr>"

definition moveToArray :: "TransferBatch \<Rightarrow> uptr list \<times> TransferBatch" where
  "moveToArray B = (Batch B, tb_clear B)"

definition moveNToArray :: "nat \<Rightarrow> TransferBatch \<Rightarrow> uptr list \<times> TransferBatch" where
  "moveNToArray N B = (drop (List.length (Batch B) - N) (Batch B),
     B\<lparr>Batch := take (List.length (Batch B) - N) (Batch B)\<rparr>)"

definition tb_get :: "nat \<Rightarrow> TransferBatch \<Rightarrow> uptr" where
  "tb_get I B = Batch B ! I"

record BatchGroup =
  bgAddr :: uptr
  CompactPtrGroupBase :: uptr
  BytesInBGAtLastCheckpoint :: uptr
  Batches :: "TransferBatch list"
  MaxCachedPerBatch :: u16

text \<open>What moves is neither lost nor doubled.\<close>

lemma appendFromTransferBatch_mset:
  assumes "appendFromTransferBatch B' N B = (C, C')"
  shows "mset (Batch C) + mset (Batch C') = mset (Batch B) + mset (Batch B')"
proof -
  let ?k = "List.length (Batch B') - N"
  have "mset (take ?k (Batch B')) + mset (drop ?k (Batch B')) = mset (Batch B')"
    by (metis append_take_drop_id mset_append)
  then show ?thesis using assms by (auto simp: appendFromTransferBatch_def ac_simps)
qed

lemma moveNToArray_mset:
  assumes "moveNToArray N B = (A, B')"
  shows "mset A + mset (Batch B') = mset (Batch B)" and "tbAddr B' = tbAddr B"
proof -
  let ?k = "List.length (Batch B) - N"
  have "mset (take ?k (Batch B)) + mset (drop ?k (Batch B)) = mset (Batch B)"
    by (metis append_take_drop_id mset_append)
  then show "mset A + mset (Batch B') = mset (Batch B)" using assms by (auto simp: moveNToArray_def ac_simps)
  show "tbAddr B' = tbAddr B" using assms by (auto simp: moveNToArray_def)
qed

end
