(* ===== verification/Primary64.thy ===== *)
theory Primary64
  imports Transfer_Batch Size_Class Mem_Map
begin

text \<open>primary64.h and local_cache.h: the allocator of small blocks and the per-thread caches in front
  of it. A region per size class is carved into blocks that are recorded as compact pointers; free
  blocks are in the region's free list, in groups and batches that are themselves made in blocks of
  the batch class, and in the caches. An operation of a cache works on the allocator and that cache;
  the code takes the region's mutexes around each access, so an operation is one step here. The
  condition variable is not enabled by any configuration of the code and the build has no memory
  tagging. A fatal report is Inl.\<close>

section \<open>Configurations and state\<close>

record pri_config =
  pcSize :: "nat \<Rightarrow> uptr"
  pcNumClasses :: nat
  pcMaxNumCachedHint :: u16
  pcMaxCachedHint :: "uptr \<Rightarrow> u16"
  pcMaxSize :: uptr
  CompactPtrBits :: nat
  CompactPtrScale :: nat
  RegionSizeLog :: nat
  GroupSizeLog :: nat
  EnableRandomOffset :: bool
  EnableContiguousRegions :: bool
  MapSizeIncrement :: uptr
  MaxNumBatches :: u32
  pcDefaultReleaseMs :: int
  pcMinReleaseMs :: int
  pcMaxReleaseMs :: int

definition fixed_pri_config :: "scm_config \<Rightarrow> pri_config" where
  "fixed_pri_config sc = \<lparr> pcSize = (\<lambda>c. fixed_getSizeByClassId sc (of_nat c)),
     pcNumClasses = unat (fixed_NumClasses sc), pcMaxNumCachedHint = MaxNumCachedHint sc,
     pcMaxCachedHint = getMaxCachedHint sc, pcMaxSize = fixed_MaxSize sc,
     CompactPtrBits = 64, CompactPtrScale = 0, RegionSizeLog = 32, GroupSizeLog = 21,
     EnableRandomOffset = True, EnableContiguousRegions = True, MapSizeIncrement = push_bit 18 1, MaxNumBatches = 8,
     pcDefaultReleaseMs = - (2 ^ 31), pcMinReleaseMs = - (2 ^ 31), pcMaxReleaseMs = 2 ^ 31 - 1 \<rparr>"

definition DefaultPrimaryConfig :: pri_config where
  "DefaultPrimaryConfig = fixed_pri_config DefaultSizeClassConfig"

definition FuchsiaPrimaryConfig :: pri_config where
  "FuchsiaPrimaryConfig = (fixed_pri_config FuchsiaSizeClassConfig)\<lparr>CompactPtrBits := 32, CompactPtrScale := 4,
     RegionSizeLog := 30, GroupSizeLog := 21\<rparr>"

definition TrustyPrimaryConfig :: pri_config where
  "TrustyPrimaryConfig = (fixed_pri_config TrustySizeClassConfig)\<lparr>CompactPtrBits := 32, CompactPtrScale := 4,
     RegionSizeLog := 28, GroupSizeLog := 20, EnableRandomOffset := False, MapSizeIncrement := push_bit 12 1\<rparr>"

definition AndroidPrimaryConfig :: pri_config where
  "AndroidPrimaryConfig = \<lparr> pcSize = (\<lambda>c. table_getSizeByClassId AndroidSizeClassConfig (of_nat c)),
     pcNumClasses = unat (table_NumClasses AndroidSizeClassConfig), pcMaxNumCachedHint = MaxNumCachedHint AndroidSizeClassConfig,
     pcMaxCachedHint = getMaxCachedHint AndroidSizeClassConfig, pcMaxSize = table_MaxSize AndroidSizeClassConfig,
     CompactPtrBits = 32, CompactPtrScale = 4, RegionSizeLog = 28, GroupSizeLog = 20,
     EnableRandomOffset = True, EnableContiguousRegions = True, MapSizeIncrement = push_bit 18 1, MaxNumBatches = 4,
     pcDefaultReleaseMs = - (2 ^ 31), pcMinReleaseMs = 1000, pcMaxReleaseMs = 1000 \<rparr>"

record RegionInfo =
  RegionBeg :: uptr
  RandState :: u32
  BlockList :: "BatchGroup list"
  PoppedBlocks :: uptr
  PushedBlocks :: uptr
  rMemMap :: mem_map
  MappedUser :: uptr
  AllocatedUser :: uptr
  BytesInFreeListAtLastCheckpoint :: uptr
  NumReleasesAttempted :: uptr
  LastReleasedBytes :: uptr
  TryReleaseThreshold :: uptr
  PendingPushedBytesDelta :: uptr
  LastReleaseAtNs :: u64
  Exhausted :: bool

record primary =
  Regions :: "nat \<Rightarrow> RegionInfo"
  SmallerBlockReleasePageDelta :: uptr
  pReleaseToOsIntervalMs :: int

text \<open>The first Count entries of the array Chunks, and the other two fields.\<close>

record PerClass =
  Chunks :: "uptr list"
  MaxCount :: u16
  ClassSize :: uptr

record local_cache =
  PerClassArray :: "nat \<Rightarrow> PerClass"
  cStats :: counters

type_synonym pstate = "primary \<times> local_cache"

definition upd_region :: "nat \<Rightarrow> (RegionInfo \<Rightarrow> RegionInfo) \<Rightarrow> primary \<Rightarrow> primary" where
  "upd_region c f P = P\<lparr>Regions := (Regions P)(c := f (Regions P c))\<rparr>"

definition upd_class :: "nat \<Rightarrow> (PerClass \<Rightarrow> PerClass) \<Rightarrow> local_cache \<Rightarrow> local_cache" where
  "upd_class c f C = C\<lparr>PerClassArray := (PerClassArray C)(c := f (PerClassArray C c))\<rparr>"

text \<open>The platform: the mapping reserved for a region on its own, and whether memory in it can be
  mapped.\<close>

record pri_env =
  pOs :: os_env
  reserveRegion :: "uptr \<Rightarrow> mem_map option"

section \<open>Sizes and compact pointers\<close>

text \<open>The class of the batches, BatchClassId, is 0. A TransferBatch has a link, the array and a u16, a
  BatchGroup a link, two words, a list of three words and a u16.\<close>

definition sizeof_TransferBatch :: "pri_config \<Rightarrow> uptr" where
  "sizeof_TransferBatch cfg = roundUp (8 + ucast (pcMaxNumCachedHint cfg) * of_nat (CompactPtrBits cfg div 8) + 2) 8"

definition sizeof_BatchGroup :: uptr where "sizeof_BatchGroup = 56"

definition pri_getSizeByClassId :: "pri_config \<Rightarrow> nat \<Rightarrow> uptr" where
  "pri_getSizeByClassId cfg c = (if c = 0
     then roundUp (max (sizeof_TransferBatch cfg) sizeof_BatchGroup) (push_bit (CompactPtrScale cfg) 1)
     else pcSize cfg c)"

definition pri_canAllocate :: "pri_config \<Rightarrow> uptr \<Rightarrow> bool" where
  "pri_canAllocate cfg Sz \<longleftrightarrow> Sz \<le> pcMaxSize cfg"

definition lc_getMaxCached :: "pri_config \<Rightarrow> uptr \<Rightarrow> u16" where
  "lc_getMaxCached cfg Sz = min (pcMaxNumCachedHint cfg) (pcMaxCachedHint cfg Sz)"

definition compactPtrInternal :: "pri_config \<Rightarrow> uptr \<Rightarrow> uptr \<Rightarrow> uptr" where
  "compactPtrInternal cfg Base Ptr = take_bit (CompactPtrBits cfg) (drop_bit (CompactPtrScale cfg) (Ptr - Base))"

definition decompactPtrInternal :: "pri_config \<Rightarrow> uptr \<Rightarrow> uptr \<Rightarrow> uptr" where
  "decompactPtrInternal cfg Base CompactPtr = Base + push_bit (CompactPtrScale cfg) CompactPtr"

definition compactPtrGroup :: "pri_config \<Rightarrow> uptr \<Rightarrow> uptr" where
  "compactPtrGroup cfg CompactPtr = CompactPtr AND NOT (push_bit (GroupSizeLog cfg - CompactPtrScale cfg) 1 - 1)"

definition decompactGroupBase :: "pri_config \<Rightarrow> uptr \<Rightarrow> uptr \<Rightarrow> uptr" where
  "decompactGroupBase cfg Base GroupBase = Base + push_bit (CompactPtrScale cfg) GroupBase"

definition getCompactPtrBaseByClassId :: "nat \<Rightarrow> primary \<Rightarrow> uptr" where
  "getCompactPtrBaseByClassId c P = RegionBeg (Regions P c)"

definition compactPtr :: "pri_config \<Rightarrow> nat \<Rightarrow> primary \<Rightarrow> uptr \<Rightarrow> uptr" where
  "compactPtr cfg c P Ptr = compactPtrInternal cfg (getCompactPtrBaseByClassId c P) Ptr"

definition decompactPtr :: "pri_config \<Rightarrow> nat \<Rightarrow> primary \<Rightarrow> uptr \<Rightarrow> uptr" where
  "decompactPtr cfg c P p = decompactPtrInternal cfg (getCompactPtrBaseByClassId c P) p"

definition isSmallBlock :: "uptr \<Rightarrow> uptr \<Rightarrow> bool" where
  "isSmallBlock PgSize BlockSize \<longleftrightarrow> BlockSize < PgSize div 16"

definition getMinReleaseAttemptSize :: "uptr \<Rightarrow> uptr \<Rightarrow> uptr" where
  "getMinReleaseAttemptSize PgSize BlockSize = roundUp BlockSize PgSize"

section \<open>Initialisation\<close>

definition initRegion :: "pri_config \<Rightarrow> uptr \<Rightarrow> uptr \<Rightarrow> nat \<Rightarrow> mem_map \<Rightarrow> bool \<Rightarrow> RegionInfo \<Rightarrow> RegionInfo" where
  "initRegion cfg PgSize PageDelta c M RandomOffset R =
    (let R = R\<lparr>rMemMap := M, RegionBeg := mBase M\<rparr>;
         R = (if RandomOffset then
                let (r, s) = getRandomModN (RandState R) 16
                in R\<lparr>RegionBeg := RegionBeg R + (ucast r + 1) * PgSize, RandState := s\<rparr> else R);
         BlockSize = pri_getSizeByClassId cfg c
     in R\<lparr>TryReleaseThreshold := (if isSmallBlock PgSize BlockSize then PgSize * PageDelta
            else getMinReleaseAttemptSize PgSize BlockSize)\<rparr>)"

definition lc_initCache :: "pri_config \<Rightarrow> local_cache \<Rightarrow> local_cache" where
  "lc_initCache cfg C = C\<lparr>PerClassArray := (\<lambda>I. if I < pcNumClasses cfg then
     (PerClassArray C I)\<lparr>MaxCount := 2 * lc_getMaxCached cfg (pri_getSizeByClassId cfg I),
        ClassSize := (if I \<noteq> 0 then pri_getSizeByClassId cfg I else 0)\<rparr> else PerClassArray C I)\<rparr>"

definition lc_isEmpty :: "pri_config \<Rightarrow> local_cache \<Rightarrow> bool" where
  "lc_isEmpty cfg C \<longleftrightarrow> (\<forall>I\<in>set [0..<pcNumClasses cfg]. Chunks (PerClassArray C I) = [])"

section \<open>The free list of the batch class\<close>

text \<open>The blocks of this class hold their own records: a batch contains the block that it is made in,
  and the block of the group is in the last batch. The loop puts each block in the current batch or,
  when that has no unused slot, makes the block the next batch.\<close>

definition unused_slots :: "u16 \<Rightarrow> TransferBatch \<Rightarrow> u16" where
  "unused_slots Mx B = Mx - of_nat (tb_Count B)"

fun push_self_contained :: "pri_config \<Rightarrow> uptr \<Rightarrow> u16 \<Rightarrow> TransferBatch list \<Rightarrow> uptr list \<Rightarrow> TransferBatch list" where
  "push_self_contained cfg Base Mx Bs [] = Bs"
| "push_self_contained cfg Base Mx [] (a # as) =
    push_self_contained cfg Base Mx [\<lparr> tbAddr = decompactPtrInternal cfg Base a, Batch = [a] \<rparr>] as"
| "push_self_contained cfg Base Mx (B # Bs) (a # as) =
    (if unused_slots Mx B = 0
     then push_self_contained cfg Base Mx (\<lparr> tbAddr = decompactPtrInternal cfg Base a, Batch = [a] \<rparr> # B # Bs) as
     else push_self_contained cfg Base Mx (tb_add a B # Bs) as)"

definition new_batch_group :: "pri_config \<Rightarrow> uptr \<Rightarrow> uptr \<Rightarrow> BatchGroup" where
  "new_batch_group cfg Base a = \<lparr> bgAddr = decompactPtrInternal cfg Base a, CompactPtrGroupBase = 0,
     BytesInBGAtLastCheckpoint = 0, Batches = [], MaxCachedPerBatch = lc_getMaxCached cfg (pri_getSizeByClassId cfg 0) \<rparr>"

definition push_into_batch_group :: "pri_config \<Rightarrow> uptr \<Rightarrow> uptr list \<Rightarrow> BatchGroup \<Rightarrow> BatchGroup" where
  "push_into_batch_group cfg Base Arr BG =
    (if Arr = [] then BG
     else let (Bs, Arr) = (if Batches BG = []
            then ([\<lparr> tbAddr = decompactPtrInternal cfg Base (last Arr),
                     Batch = [last Arr, compactPtrInternal cfg Base (bgAddr BG)] \<rparr>], butlast Arr)
            else (Batches BG, Arr))
          in BG\<lparr>Batches := push_self_contained cfg Base (MaxCachedPerBatch BG) Bs Arr\<rparr>)"

definition pushBatchClassBlocks :: "pri_config \<Rightarrow> uptr list \<Rightarrow> RegionInfo \<Rightarrow> RegionInfo" where
  "pushBatchClassBlocks cfg Arr R =
    (let Base = RegionBeg R;
         (BG, rest, Arr') = (case BlockList R of
            [] \<Rightarrow> (new_batch_group cfg Base (last Arr), [], butlast Arr)
          | BG # rest \<Rightarrow> (BG, rest, Arr))
     in R\<lparr>PushedBlocks := PushedBlocks R + of_nat (List.length Arr),
          BlockList := push_into_batch_group cfg Base Arr' BG # rest\<rparr>)"

text \<open>drain and deallocate of the local cache, for the batch class.\<close>

definition lc_drain_count :: "PerClass \<Rightarrow> nat" where
  "lc_drain_count C = unat (min (MaxCount C div 2) (of_nat (List.length (Chunks C))))"

definition drain_batch_class :: "pri_config \<Rightarrow> pstate \<Rightarrow> pstate" where
  "drain_batch_class cfg = (\<lambda>(P, C).
    let n = lc_drain_count (PerClassArray C 0); Arr = take n (Chunks (PerClassArray C 0))
    in (upd_region 0 (pushBatchClassBlocks cfg Arr) P, upd_class 0 (\<lambda>pc. pc\<lparr>Chunks := drop n (Chunks pc)\<rparr>) C))"

text \<open>Storing a freed block in the cache, and the statistics of the two directions.\<close>

definition lc_full :: "PerClass \<Rightarrow> bool" where
  "lc_full C \<longleftrightarrow> of_nat (List.length (Chunks C)) = MaxCount C"

definition lc_put :: "pri_config \<Rightarrow> nat \<Rightarrow> uptr \<Rightarrow> pstate \<Rightarrow> pstate" where
  "lc_put cfg c Ptr = (\<lambda>(P, C). (P, (upd_class c (\<lambda>pc. pc\<lparr>Chunks := Chunks pc @ [compactPtr cfg c P Ptr]\<rparr>) C)
     \<lparr>cStats := stat_add StatFree (ClassSize (PerClassArray C c)) (stat_sub StatAllocated (ClassSize (PerClassArray C c)) (cStats C))\<rparr>))"

definition deallocate_batch_class :: "pri_config \<Rightarrow> uptr \<Rightarrow> pstate \<Rightarrow> pstate" where
  "deallocate_batch_class cfg Ptr = (\<lambda>(P, C).
    lc_put cfg 0 Ptr (if lc_full (PerClassArray C 0) then drain_batch_class cfg (P, C) else (P, C)))"

section \<open>Popping blocks\<close>

text \<open>Only the first batch is looked at. A batch that becomes empty goes back to the batch class
  through the cache, and so does its group when that was the last batch; batches of the batch class
  are taken whole.\<close>

definition set_blocks :: "nat \<Rightarrow> BatchGroup list \<Rightarrow> primary \<Rightarrow> primary" where
  "set_blocks c L = upd_region c (\<lambda>R. R\<lparr>BlockList := L\<rparr>)"

definition count_popped :: "nat \<Rightarrow> nat \<Rightarrow> primary \<Rightarrow> primary" where
  "count_popped c n = upd_region c (\<lambda>R. R\<lparr>PoppedBlocks := PoppedBlocks R + of_nat n\<rparr>)"

definition recycle :: "pri_config \<Rightarrow> nat \<Rightarrow> uptr \<Rightarrow> pstate \<Rightarrow> pstate" where
  "recycle cfg c Ptr S = (if c \<noteq> 0 then deallocate_batch_class cfg Ptr S else S)"

definition popBlocksImpl :: "pri_config \<Rightarrow> nat \<Rightarrow> u16 \<Rightarrow> pstate \<Rightarrow> uptr list \<times> pstate" where
  "popBlocksImpl cfg c MaxBlockCount = (\<lambda>(P, C).
    case BlockList (Regions P c) of [] \<Rightarrow> ([], (P, C))
    | BG # rest \<Rightarrow>
      (case Batches BG of
         [] \<Rightarrow> ([compactPtr cfg 0 P (bgAddr BG)], (count_popped c 1 (set_blocks c rest P), C))
       | B # Bs \<Rightarrow>
         let PopCount = (if c = 0 then tb_Count B else min (unat MaxBlockCount) (tb_Count B));
             (ToArray, B') = moveNToArray PopCount B;
             S = (if tb_empty B' then
                    (if Bs = [] then recycle cfg c (bgAddr BG) (recycle cfg c (tbAddr B) (set_blocks c rest P, C))
                     else recycle cfg c (tbAddr B) (set_blocks c (BG\<lparr>Batches := Bs\<rparr> # rest) P, C))
                  else (set_blocks c (BG\<lparr>Batches := B' # Bs\<rparr> # rest) P, C))
         in (ToArray, (count_popped c PopCount (fst S), snd S))))"

section \<open>Populating the free list\<close>

text \<open>The region of a class gets its mapping, when the regions are not contiguous; then more memory is
  mapped, if the next blocks do not fit in what is mapped.\<close>

definition populate_reserve :: "pri_config \<Rightarrow> pri_env \<Rightarrow> nat \<Rightarrow> primary \<Rightarrow> primary option" where
  "populate_reserve cfg env c P =
    (if \<not> EnableContiguousRegions cfg \<and> mBase (rMemMap (Regions P c)) = 0 then
       (case reserveRegion env (push_bit (RegionSizeLog cfg) 1) of None \<Rightarrow> None
        | Some M \<Rightarrow> Some (upd_region c (initRegion cfg (osPageSize (pOs env)) (SmallerBlockReleasePageDelta P) c M False) P))
     else Some P)"

definition populate_map :: "pri_config \<Rightarrow> pri_env \<Rightarrow> nat \<Rightarrow> pstate \<Rightarrow> bool \<times> pstate" where
  "populate_map cfg env c = (\<lambda>(P, C).
    let R = Regions P c; Sz = pri_getSizeByClassId cfg c;
        TotalUserBytes = AllocatedUser R + ucast (lc_getMaxCached cfg Sz) * Sz
    in if TotalUserBytes \<le> MappedUser R then (True, (P, C))
       else let MapSize = roundUp (TotalUserBytes - MappedUser R) (MapSizeIncrement cfg);
                RegionBase = RegionBeg R - mBase (rMemMap R)
            in if push_bit (RegionSizeLog cfg) 1 < RegionBase + MappedUser R + MapSize then
                 (False, (upd_region c (\<lambda>R. R\<lparr>Exhausted := True\<rparr>) P, C))
               else if \<not> remapOk (pOs env) (RegionBeg R + MappedUser R) MapSize (MAP_ALLOWNOMEM OR MAP_RESIZABLE) then (False, (P, C))
               else (True, (upd_region c (\<lambda>R. R\<lparr>MappedUser := MappedUser R + MapSize\<rparr>) P,
                       C\<lparr>cStats := stat_add StatMapped MapSize (cStats C)\<rparr>)))"

definition populate_count :: "pri_config \<Rightarrow> nat \<Rightarrow> RegionInfo \<Rightarrow> u32" where
  "populate_count cfg c R = (let Sz = pri_getSizeByClassId cfg c in
     min (MaxNumBatches cfg * ucast (lc_getMaxCached cfg Sz)) (ucast ((MappedUser R - AllocatedUser R) div Sz)))"

definition new_blocks :: "pri_config \<Rightarrow> nat \<Rightarrow> RegionInfo \<Rightarrow> nat \<Rightarrow> uptr list" where
  "new_blocks cfg c R N = map (\<lambda>I. compactPtrInternal cfg (RegionBeg R)
     (RegionBeg R + AllocatedUser R + of_nat I * pri_getSizeByClassId cfg c)) [0..<N]"

text \<open>push is how the new blocks get into the free list: for the batch class at once, for the others
  group by group, shuffled. The blocks that are counted as pushed on the way are taken off again.\<close>

definition populateFreeListAndPopBlocks :: "pri_config \<Rightarrow> pri_env \<Rightarrow> (uptr list \<Rightarrow> pstate \<Rightarrow> pstate result) \<Rightarrow> nat \<Rightarrow> u16 \<Rightarrow>
    pstate \<Rightarrow> (uptr list \<times> pstate) result" where
  "populateFreeListAndPopBlocks cfg env push c MaxBlockCount = (\<lambda>(P, C).
    case populate_reserve cfg env c P of None \<Rightarrow> Inr ([], (P, C))
    | Some P \<Rightarrow>
      (case populate_map cfg env c (P, C) of (ok, S) \<Rightarrow>
         if \<not> ok then Inr ([], S)
         else let N = populate_count cfg c (Regions (fst S) c); Sz = pri_getSizeByClassId cfg c in
           bindR (push (new_blocks cfg c (Regions (fst S) c) (unat N)) S) (\<lambda>S.
             case popBlocksImpl cfg c MaxBlockCount S of (A, (P, C)) \<Rightarrow>
               Inr (A, (upd_region c (\<lambda>R. R\<lparr>PushedBlocks := PushedBlocks R - ucast N,
                                          AllocatedUser := AllocatedUser R + Sz * ucast N\<rparr>) P,
                        C\<lparr>cStats := stat_add StatFree (Sz * ucast N) (cStats C)\<rparr>)))))"

definition popBlocks_with :: "pri_config \<Rightarrow> pri_env \<Rightarrow> (uptr list \<Rightarrow> pstate \<Rightarrow> pstate result) \<Rightarrow> nat \<Rightarrow> u16 \<Rightarrow>
    pstate \<Rightarrow> (uptr list \<times> pstate) result" where
  "popBlocks_with cfg env push c MaxBlockCount S =
    (case popBlocksImpl cfg c MaxBlockCount S of (A, S) \<Rightarrow>
       if A \<noteq> [] then Inr (A, S)
       else case popBlocksImpl cfg c MaxBlockCount S of (A, S) \<Rightarrow>
         if A \<noteq> [] then Inr (A, S)
         else let Ex = Exhausted (Regions (fst S) c) in
           bindR (if \<not> Ex then populateFreeListAndPopBlocks cfg env push c MaxBlockCount S else Inr ([], S)) (\<lambda>(A, S).
             if \<not> Ex \<and> Exhausted (Regions (fst S) c) \<and> c = 0 then Inl OutOfBatchClass else Inr (A, S)))"

text \<open>refill and allocate of the local cache. refill is only called when the cache has no block of the
  class; None: no block.\<close>

definition lc_allocate_with :: "pri_config \<Rightarrow> (u16 \<Rightarrow> pstate \<Rightarrow> (uptr list \<times> pstate) result) \<Rightarrow> nat \<Rightarrow> pstate \<Rightarrow>
    (uptr option \<times> pstate) result" where
  "lc_allocate_with cfg pop c S =
    bindR (if Chunks (PerClassArray (snd S) c) = [] then
             bindR (pop (MaxCount (PerClassArray (snd S) c) div 2) S) (\<lambda>(A, (P, C)).
               Inr (A \<noteq> [], (P, upd_class c (\<lambda>pc. pc\<lparr>Chunks := A\<rparr>) C)))
           else Inr (True, S)) (\<lambda>(ok, (P, C)).
      if \<not> ok then Inr (None, (P, C))
      else let pc = PerClassArray C c; p = last (Chunks pc) in
        Inr (Some (decompactPtr cfg c P p),
          (P, (upd_class c (\<lambda>pc. pc\<lparr>Chunks := butlast (Chunks pc)\<rparr>) C)
             \<lparr>cStats := stat_sub StatFree (ClassSize pc) (stat_add StatAllocated (ClassSize pc) (cStats C))\<rparr>)))"

text \<open>The batch class.\<close>

definition push_batch_class :: "pri_config \<Rightarrow> uptr list \<Rightarrow> pstate \<Rightarrow> pstate result" where
  "push_batch_class cfg Arr = (\<lambda>(P, C). Inr (upd_region 0 (pushBatchClassBlocks cfg Arr) P, C))"

definition getBatchClassBlock :: "pri_config \<Rightarrow> pri_env \<Rightarrow> pstate \<Rightarrow> (uptr \<times> pstate) result" where
  "getBatchClassBlock cfg env S =
    bindR (lc_allocate_with cfg (popBlocks_with cfg env (push_batch_class cfg) 0) 0 S) (\<lambda>(r, S).
      case r of None \<Rightarrow> Inl (OutOfMemory (pri_getSizeByClassId cfg 0)) | Some B \<Rightarrow> Inr (B, S))"

section \<open>Pushing blocks\<close>

definition CreateGroup :: "pri_config \<Rightarrow> pri_env \<Rightarrow> uptr \<Rightarrow> pstate \<Rightarrow> (BatchGroup \<times> pstate) result" where
  "CreateGroup cfg env GroupBase S =
    bindR (getBatchClassBlock cfg env S) (\<lambda>(bg, S).
    bindR (getBatchClassBlock cfg env S) (\<lambda>(tb, S).
      Inr (\<lparr> bgAddr = bg, CompactPtrGroupBase = GroupBase, BytesInBGAtLastCheckpoint = 0,
             Batches = [\<lparr> tbAddr = tb, Batch = [] \<rparr>], MaxCachedPerBatch = pcMaxNumCachedHint cfg \<rparr>, S)))"

text \<open>InsertBlocks: into the current batch, a new batch whenever that has no unused slot.\<close>

fun InsertBlocks :: "pri_config \<Rightarrow> pri_env \<Rightarrow> u16 \<Rightarrow> TransferBatch list \<Rightarrow> uptr list \<Rightarrow> pstate \<Rightarrow>
    (TransferBatch list \<times> pstate) result" where
  "InsertBlocks cfg env Mx Bs [] S = Inr (Bs, S)"
| "InsertBlocks cfg env Mx [] (a # as) S = Inl (NullDereference ''Batches.front()'')"
| "InsertBlocks cfg env Mx (B # Bs) (a # as) S =
    (if unused_slots Mx B = 0
     then bindR (getBatchClassBlock cfg env S) (\<lambda>(tb, S).
            InsertBlocks cfg env Mx (\<lparr> tbAddr = tb, Batch = [a] \<rparr> # B # Bs) as S)
     else InsertBlocks cfg env Mx (tb_add a B # Bs) as S)"

definition insert_in_group :: "pri_config \<Rightarrow> pri_env \<Rightarrow> BatchGroup \<Rightarrow> uptr list \<Rightarrow> pstate \<Rightarrow> (BatchGroup \<times> pstate) result" where
  "insert_in_group cfg env BG Arr S =
    bindR (InsertBlocks cfg env (MaxCachedPerBatch BG) (Batches BG) Arr S) (\<lambda>(Bs, S). Inr (BG\<lparr>Batches := Bs\<rparr>, S))"

text \<open>The walk along the sorted groups: the ones passed, the last of which is Prev, and the ones from
  Cur on.\<close>

fun seek_group :: "uptr \<Rightarrow> BatchGroup list \<Rightarrow> BatchGroup list \<Rightarrow> BatchGroup list \<times> BatchGroup list" where
  "seek_group g pre [] = (pre, [])"
| "seek_group g pre (BG # post) =
    (if CompactPtrGroupBase BG < g then seek_group g (pre @ [BG]) post else (pre, BG # post))"

definition ensure_group :: "pri_config \<Rightarrow> pri_env \<Rightarrow> uptr \<Rightarrow> BatchGroup list \<Rightarrow> pstate \<Rightarrow> (BatchGroup list \<times> pstate) result" where
  "ensure_group cfg env g post S =
    (case post of BG # _ \<Rightarrow> if CompactPtrGroupBase BG = g then Inr (post, S)
        else bindR (CreateGroup cfg env g S) (\<lambda>(BG, S). Inr (BG # post, S))
     | [] \<Rightarrow> bindR (CreateGroup cfg env g S) (\<lambda>(BG, S). Inr ([BG], S)))"

text \<open>The blocks of a call, group after group: seg is the segment of blocks of the current group that
  has been read so far.\<close>

fun push_segments :: "pri_config \<Rightarrow> pri_env \<Rightarrow> BatchGroup list \<Rightarrow> BatchGroup list \<Rightarrow> uptr list \<Rightarrow> uptr list \<Rightarrow> pstate \<Rightarrow>
    (BatchGroup list \<times> pstate) result" where
  "push_segments cfg env pre [] seg as S = Inl (NullDereference ''Cur'')"
| "push_segments cfg env pre (BG # post) seg [] S =
    bindR (insert_in_group cfg env BG seg S) (\<lambda>(BG, S). Inr (pre @ BG # post, S))"
| "push_segments cfg env pre (BG # post) seg (a # as) S =
    (if compactPtrGroup cfg (last seg) \<noteq> compactPtrGroup cfg a then
       bindR (insert_in_group cfg env BG seg S) (\<lambda>(BG, S).
         case seek_group (compactPtrGroup cfg a) pre (BG # post) of (pre, post) \<Rightarrow>
           if pre = [] then Inl (NullDereference ''Prev'')
           else bindR (ensure_group cfg env (compactPtrGroup cfg a) post S) (\<lambda>(post, S).
             push_segments cfg env pre post [a] as S))
     else push_segments cfg env pre (BG # post) (seg @ [a]) as S)"

definition pushBlocksImpl :: "pri_config \<Rightarrow> pri_env \<Rightarrow> nat \<Rightarrow> uptr list \<Rightarrow> bool \<Rightarrow> pstate \<Rightarrow> pstate result" where
  "pushBlocksImpl cfg env c Arr SameGroup = (\<lambda>(P, C).
    let P = upd_region c (\<lambda>R. R\<lparr>PushedBlocks := PushedBlocks R + of_nat (List.length Arr)\<rparr>) P;
        g = compactPtrGroup cfg (hd Arr);
        (pre, post) = seek_group g [] (BlockList (Regions P c))
    in bindR (ensure_group cfg env g post (P, C)) (\<lambda>(post, S).
       bindR (if SameGroup then bindR (insert_in_group cfg env (hd post) Arr S) (\<lambda>(BG, S). Inr (pre @ BG # tl post, S))
              else push_segments cfg env pre post [hd Arr] (tl Arr) S) (\<lambda>(L, (P, C)).
         Inr (set_blocks c L P, C))))"

text \<open>The insertion sort by group of pushBlocks, on the sorted part in reverse, and whether all blocks
  are of one group.\<close>

fun sort_step :: "pri_config \<Rightarrow> uptr \<Rightarrow> uptr list \<Rightarrow> uptr list" where
  "sort_step cfg Cur [] = [Cur]"
| "sort_step cfg Cur (x # xs) = (if compactPtrGroup cfg Cur < compactPtrGroup cfg x then x # sort_step cfg Cur xs else Cur # x # xs)"

fun sort_loop :: "pri_config \<Rightarrow> uptr list \<Rightarrow> bool \<Rightarrow> uptr list \<Rightarrow> uptr list \<times> bool" where
  "sort_loop cfg done_rev same [] = (rev done_rev, same)"
| "sort_loop cfg done_rev same (a # as) =
    sort_loop cfg (sort_step cfg a done_rev)
      (same \<and> (case done_rev of [] \<Rightarrow> True | x # _ \<Rightarrow> compactPtrGroup cfg x = compactPtrGroup cfg a)) as"

definition pushBlocks :: "pri_config \<Rightarrow> pri_env \<Rightarrow> nat \<Rightarrow> uptr list \<Rightarrow> pstate \<Rightarrow> pstate result" where
  "pushBlocks cfg env c Arr S =
    (if c = 0 then push_batch_class cfg Arr S
     else let (Arr, SameGroup) = (if GroupSizeLog cfg < RegionSizeLog cfg then sort_loop cfg [] True Arr else (Arr, True))
          in pushBlocksImpl cfg env c Arr SameGroup S)"

text \<open>How populating a class other than the batch class pushes the new blocks.\<close>

fun push_new_segments :: "pri_config \<Rightarrow> pri_env \<Rightarrow> nat \<Rightarrow> uptr list \<Rightarrow> uptr list \<Rightarrow> pstate \<Rightarrow> pstate result" where
  "push_new_segments cfg env c seg as (P, C) =
    (let push = (\<lambda>_::unit. case shuffle seg (of_nat (List.length seg)) (RandState (Regions P c)) of (seg, r) \<Rightarrow>
           pushBlocksImpl cfg env c seg True (upd_region c (\<lambda>R. R\<lparr>RandState := r\<rparr>) P, C))
     in case as of [] \<Rightarrow> push ()
        | a # as' \<Rightarrow> if compactPtrGroup cfg a \<noteq> compactPtrGroup cfg (last seg)
            then bindR (push ()) (push_new_segments cfg env c [a] as')
            else push_new_segments cfg env c (seg @ [a]) as' (P, C))"

definition push_new_blocks :: "pri_config \<Rightarrow> pri_env \<Rightarrow> nat \<Rightarrow> uptr list \<Rightarrow> pstate \<Rightarrow> pstate result" where
  "push_new_blocks cfg env c Arr S =
    (if c = 0 then push_batch_class cfg Arr S else push_new_segments cfg env c [hd Arr] (tl Arr) S)"

definition popBlocks :: "pri_config \<Rightarrow> pri_env \<Rightarrow> nat \<Rightarrow> u16 \<Rightarrow> pstate \<Rightarrow> (uptr list \<times> pstate) result" where
  "popBlocks cfg env c = popBlocks_with cfg env (push_new_blocks cfg env c) c"

section \<open>The local cache\<close>

definition lc_allocate :: "pri_config \<Rightarrow> pri_env \<Rightarrow> nat \<Rightarrow> pstate \<Rightarrow> (uptr option \<times> pstate) result" where
  "lc_allocate cfg env c = lc_allocate_with cfg (popBlocks cfg env c) c"

definition lc_drain_class :: "pri_config \<Rightarrow> pri_env \<Rightarrow> nat \<Rightarrow> pstate \<Rightarrow> pstate result" where
  "lc_drain_class cfg env c S =
    (let n = lc_drain_count (PerClassArray (snd S) c)
     in bindR (pushBlocks cfg env c (take n (Chunks (PerClassArray (snd S) c))) S) (\<lambda>(P, C).
       Inr (P, upd_class c (\<lambda>pc. pc\<lparr>Chunks := drop n (Chunks pc)\<rparr>) C)))"

definition lc_deallocate :: "pri_config \<Rightarrow> pri_env \<Rightarrow> nat \<Rightarrow> uptr \<Rightarrow> pstate \<Rightarrow> (bool \<times> pstate) result" where
  "lc_deallocate cfg env c Ptr S =
    bindR (CHECK (c < pcNumClasses cfg) ''ClassId < NumClasses'') (\<lambda>_.
    let Full = lc_full (PerClassArray (snd S) c) in
    bindR (if Full then lc_drain_class cfg env c S else Inr S) (\<lambda>S. Inr (Full, lc_put cfg c Ptr S)))"

end
