(* ===== verification/Primary64_Inv.thy ===== *)
theory Primary64_Inv
  imports Primary64
begin

text \<open>The primary allocator neither loses nor doubles a block: the blocks carved from a region are, at any
  time and each once, in its free list, in a cache, in use by the program, or (blocks of the batch
  class) the records of the free lists of the other classes. Every operation keeps this.\<close>

section \<open>Where the blocks are\<close>

definition batches_free :: "TransferBatch list \<Rightarrow> uptr multiset" where
  "batches_free Bs = mset (concat (map Batch Bs))"

definition list_free :: "BatchGroup list \<Rightarrow> uptr multiset" where
  "list_free L = (\<Sum>BG\<leftarrow>L. batches_free (Batches BG))"

text \<open>In the batch class, a group without a batch stands for its own block.\<close>

definition self_free :: "pri_config \<Rightarrow> uptr \<Rightarrow> BatchGroup list \<Rightarrow> uptr multiset" where
  "self_free cfg Base L = (\<Sum>BG\<leftarrow>L. if Batches BG = [] then {#compactPtrInternal cfg Base (bgAddr BG)#} else {#})"

definition batches_meta :: "pri_config \<Rightarrow> uptr \<Rightarrow> TransferBatch list \<Rightarrow> uptr multiset" where
  "batches_meta cfg Base Bs = mset (map (compactPtrInternal cfg Base \<circ> tbAddr) Bs)"

definition list_meta :: "pri_config \<Rightarrow> uptr \<Rightarrow> BatchGroup list \<Rightarrow> uptr multiset" where
  "list_meta cfg Base L = (\<Sum>BG\<leftarrow>L. add_mset (compactPtrInternal cfg Base (bgAddr BG)) (batches_meta cfg Base (Batches BG)))"

definition metas :: "pri_config \<Rightarrow> primary \<Rightarrow> uptr multiset" where
  "metas cfg P = (\<Sum>d\<in>{1..<pcNumClasses cfg}. list_meta cfg (RegionBeg (Regions P 0)) (BlockList (Regions P d)))"

definition free_of :: "pri_config \<Rightarrow> nat \<Rightarrow> primary \<Rightarrow> uptr multiset" where
  "free_of cfg c P = list_free (BlockList (Regions P c)) +
    (if c = 0 then self_free cfg (RegionBeg (Regions P 0)) (BlockList (Regions P 0)) + metas cfg P else {#})"

definition blocks_of :: "pri_config \<Rightarrow> nat \<Rightarrow> pstate \<Rightarrow> uptr multiset" where
  "blocks_of cfg c S = free_of cfg c (fst S) + mset (Chunks (PerClassArray (snd S) c))"

definition carved :: "pri_config \<Rightarrow> nat \<Rightarrow> RegionInfo \<Rightarrow> uptr list" where
  "carved cfg c R = map (\<lambda>i. compactPtrInternal cfg (RegionBeg R) (RegionBeg R + of_nat i * pri_getSizeByClassId cfg c))
     [0..<unat (AllocatedUser R) div unat (pri_getSizeByClassId cfg c)]"

definition cfg_ok :: "pri_config \<Rightarrow> bool" where
  "cfg_ok cfg \<longleftrightarrow> EnableContiguousRegions cfg \<and> 0 < pcNumClasses cfg \<and>
    RegionSizeLog cfg \<le> CompactPtrBits cfg + CompactPtrScale cfg \<and> RegionSizeLog cfg \<le> 32 \<and> CompactPtrScale cfg \<le> RegionSizeLog cfg \<and>
    (\<exists>k\<le>40. MapSizeIncrement cfg = 2 ^ k) \<and> 1 \<le> unat (MaxNumBatches cfg) \<and> unat (MaxNumBatches cfg) \<le> 2 ^ 15 \<and>
    (\<forall>c<pcNumClasses cfg. 16 \<le> unat (pri_getSizeByClassId cfg c) \<and> unat (pri_getSizeByClassId cfg c) \<le> 2 ^ 32 \<and>
      2 ^ CompactPtrScale cfg dvd unat (pri_getSizeByClassId cfg c) \<and> lc_getMaxCached cfg (pri_getSizeByClassId cfg c) \<noteq> 0)"

definition region_ok :: "pri_config \<Rightarrow> nat \<Rightarrow> RegionInfo \<Rightarrow> bool" where
  "region_ok cfg c R \<longleftrightarrow> (\<exists>n. unat (AllocatedUser R) = n * unat (pri_getSizeByClassId cfg c)) \<and>
    AllocatedUser R \<le> MappedUser R \<and> unat (RegionBeg R - mBase (rMemMap R)) + unat (MappedUser R) \<le> 2 ^ RegionSizeLog cfg"

text \<open>A block of a region can be recovered from its compact pointer.\<close>

definition valid_ptr :: "pri_config \<Rightarrow> uptr \<Rightarrow> bool" where
  "valid_ptr cfg a \<longleftrightarrow> unat a < 2 ^ CompactPtrBits cfg \<and> unat a * 2 ^ CompactPtrScale cfg < 2 ^ 48"

text \<open>X: the blocks that are elsewhere, in use or in other caches; Y: blocks that are recorded but whose
  carving is not counted yet.\<close>

definition pinv :: "pri_config \<Rightarrow> pstate \<Rightarrow> (nat \<Rightarrow> uptr multiset) \<Rightarrow> (nat \<Rightarrow> uptr multiset) \<Rightarrow> bool" where
  "pinv cfg S X Y \<longleftrightarrow> cfg_ok cfg \<and> (\<forall>c<pcNumClasses cfg. region_ok cfg c (Regions (fst S) c) \<and>
    2 \<le> unat (MaxCount (PerClassArray (snd S) c)) \<and> (\<forall>a\<in>#Y c. valid_ptr cfg a) \<and>
    (c \<noteq> 0 \<longrightarrow> (\<forall>BG\<in>set (BlockList (Regions (fst S) c)). Batches BG \<noteq> [])) \<and>
    blocks_of cfg c S + X c = mset (carved cfg c (Regions (fst S) c)) + Y c)"

lemma free_simps [simp]:
  "batches_free [] = {#}" "batches_free (B # Bs) = mset (Batch B) + batches_free Bs"
  "list_free [] = {#}" "list_free (BG # L) = batches_free (Batches BG) + list_free L"
  "list_free (L @ L') = list_free L + list_free L'"
  "self_free cfg b [] = {#}"
  "self_free cfg b (BG # L) = (if Batches BG = [] then {#compactPtrInternal cfg b (bgAddr BG)#} else {#}) + self_free cfg b L"
  "batches_meta cfg b [] = {#}" "batches_meta cfg b (B # Bs) = add_mset (compactPtrInternal cfg b (tbAddr B)) (batches_meta cfg b Bs)"
  "list_meta cfg b [] = {#}"
  "list_meta cfg b (BG # L) = add_mset (compactPtrInternal cfg b (bgAddr BG)) (batches_meta cfg b (Batches BG)) + list_meta cfg b L"
  "list_meta cfg b (L @ L') = list_meta cfg b L + list_meta cfg b L'"
  by (simp_all add: batches_free_def list_free_def self_free_def batches_meta_def list_meta_def)

section \<open>Compact pointers\<close>

lemma unat_push_bit: "unat a * 2 ^ s < 2 ^ 64 \<Longrightarrow> unat (push_bit s (a :: uptr)) = unat a * 2 ^ s"
proof -
  assume "unat a * 2 ^ s < 2 ^ 64"
  moreover have "unat (push_bit s a) = take_bit 64 (push_bit s (unat a))"
    by (simp add: unsigned_push_bit_eq)
  ultimately show ?thesis by (simp add: push_bit_eq_mult take_bit_eq_mod)
qed

lemma take_bit_id: "unat (a :: uptr) < 2 ^ w \<Longrightarrow> take_bit w a = a"
  unfolding word_unat_eq_iff unsigned_take_bit_eq by (simp add: take_bit_nat_eq_self_iff)

lemma compact_decompact:
  assumes "valid_ptr cfg a"
  shows "compactPtrInternal cfg b (decompactPtrInternal cfg b a) = a"
proof -
  let ?s = "CompactPtrScale cfg"
  have u: "unat (push_bit ?s a) = unat a * 2 ^ ?s"
    using assms by (intro unat_push_bit) (auto simp: valid_ptr_def)
  have "unat (drop_bit ?s (push_bit ?s a)) = unat a"
    unfolding unat_drop_bit_eq u by (simp add: drop_bit_eq_div)
  then have "drop_bit ?s (push_bit ?s a) = a" by (simp add: word_unat_eq_iff)
  moreover have "take_bit (CompactPtrBits cfg) a = a"
    using assms by (intro take_bit_id) (simp add: valid_ptr_def)
  ultimately show ?thesis by (simp add: compactPtrInternal_def decompactPtrInternal_def)
qed

lemma decompact_compact:
  assumes z: "unat z < 2 ^ RegionSizeLog cfg" "2 ^ CompactPtrScale cfg dvd unat z" and ok: "cfg_ok cfg"
  shows "decompactPtrInternal cfg b (compactPtrInternal cfg b (b + z)) = b + z"
    and "valid_ptr cfg (compactPtrInternal cfg b (b + z))"
proof -
  let ?s = "CompactPtrScale cfg" and ?W = "CompactPtrBits cfg"
  have d: "unat (drop_bit ?s z) = unat z div 2 ^ ?s"
    unfolding unat_drop_bit_eq by (rule drop_bit_eq_div)
  have "unat z < 2 ^ (?W + ?s)"
  proof -
    have "(2 :: nat) ^ RegionSizeLog cfg \<le> 2 ^ (?W + ?s)" using ok by (intro power_increasing) (auto simp: cfg_ok_def)
    with z(1) show ?thesis by (rule less_le_trans)
  qed
  then have lt: "unat z div 2 ^ ?s < 2 ^ ?W"
    by (simp add: less_mult_imp_div_less power_add mult.commute)
  have c: "compactPtrInternal cfg b (b + z) = drop_bit ?s z"
    using lt by (simp add: compactPtrInternal_def d take_bit_id)
  have m: "unat (drop_bit ?s z) * 2 ^ ?s = unat z" using z(2) d by simp
  have z48: "unat z < 2 ^ 48"
  proof -
    have "(2 :: nat) ^ RegionSizeLog cfg \<le> 2 ^ 48" using ok by (intro power_increasing) (auto simp: cfg_ok_def)
    with z(1) show ?thesis by (rule less_le_trans)
  qed
  then have "unat (push_bit ?s (drop_bit ?s z)) = unat z"
    using m by (subst unat_push_bit) simp_all
  then show "decompactPtrInternal cfg b (compactPtrInternal cfg b (b + z)) = b + z"
    by (simp add: decompactPtrInternal_def c word_unat_eq_iff [of "push_bit ?s (drop_bit ?s z)"])
  show "valid_ptr cfg (compactPtrInternal cfg b (b + z))"
    using lt z48 m by (simp add: valid_ptr_def c d)
qed

lemma carved_block:
  assumes ok: "cfg_ok cfg" "c < pcNumClasses cfg" and R: "region_ok cfg c R"
    and i: "i < unat (AllocatedUser R) div unat (pri_getSizeByClassId cfg c)"
  shows "unat (of_nat i * pri_getSizeByClassId cfg c) = i * unat (pri_getSizeByClassId cfg c)"
    and "i * unat (pri_getSizeByClassId cfg c) + unat (pri_getSizeByClassId cfg c) \<le> unat (AllocatedUser R)"
    and "unat (of_nat i * pri_getSizeByClassId cfg c) < 2 ^ RegionSizeLog cfg"
    and "2 ^ CompactPtrScale cfg dvd unat (of_nat i * pri_getSizeByClassId cfg c)"
proof -
  let ?z = "pri_getSizeByClassId cfg c"
  have z: "0 < unat ?z" "2 ^ CompactPtrScale cfg dvd unat ?z" using ok by (force simp: cfg_ok_def)+
  obtain n where n: "unat (AllocatedUser R) = n * unat ?z" using R by (auto simp: region_ok_def)
  then have "Suc i \<le> n" using i z by simp
  then have "Suc i * unat ?z \<le> n * unat ?z" by (rule mult_le_mono1)
  then show le: "i * unat ?z + unat ?z \<le> unat (AllocatedUser R)" using n by simp
  have A: "unat (AllocatedUser R) \<le> 2 ^ RegionSizeLog cfg" using R by (auto simp: region_ok_def word_le_nat_alt)
  then have lt: "i * unat ?z < 2 ^ RegionSizeLog cfg" using le z(1) by linarith
  have "(2 :: nat) ^ RegionSizeLog cfg \<le> 2 ^ 48" using ok by (intro power_increasing) (auto simp: cfg_ok_def)
  with lt have "i * unat ?z < 2 ^ 48" by (rule less_le_trans)
  then have l64: "i * unat ?z < 2 ^ 64" by simp
  have "i * 1 \<le> i * unat ?z" using z(1) by (intro mult_le_mono2) simp
  then have "i < 2 ^ 64" using l64 by linarith
  then have ui: "unat (of_nat i :: uptr) = i" by (simp add: unat_of_nat take_bit_eq_mod)
  show u: "unat (of_nat i * ?z) = i * unat ?z"
    using unat_mult_lt [of "of_nat i :: uptr" ?z] l64 ui by simp
  show "unat (of_nat i * ?z) < 2 ^ RegionSizeLog cfg" "2 ^ CompactPtrScale cfg dvd unat (of_nat i * ?z)"
    using lt z(2) by (simp_all add: u)
qed

lemma carved_valid:
  assumes "cfg_ok cfg" "c < pcNumClasses cfg" "region_ok cfg c R" and a: "a \<in> set (carved cfg c R)"
  shows "valid_ptr cfg a"
proof -
  obtain i where i: "i < unat (AllocatedUser R) div unat (pri_getSizeByClassId cfg c)"
    "a = compactPtrInternal cfg (RegionBeg R) (RegionBeg R + of_nat i * pri_getSizeByClassId cfg c)"
    using a by (auto simp: carved_def)
  show ?thesis unfolding i(2)
    by (rule decompact_compact(2) [OF carved_block(3,4) [OF assms(1-3) i(1)] assms(1)])
qed

lemma carved_distinct:
  assumes "cfg_ok cfg" "c < pcNumClasses cfg" "region_ok cfg c R"
  shows "distinct (carved cfg c R)"
proof -
  let ?z = "pri_getSizeByClassId cfg c" and ?n = "unat (AllocatedUser R) div unat (pri_getSizeByClassId cfg c)"
  have "i = j" if "i < ?n" "j < ?n" and e: "compactPtrInternal cfg (RegionBeg R) (RegionBeg R + of_nat i * ?z) =
      compactPtrInternal cfg (RegionBeg R) (RegionBeg R + of_nat j * ?z)" for i j
  proof -
    note I = carved_block [OF assms that(1)] and J = carved_block [OF assms that(2)]
    have "RegionBeg R + of_nat i * ?z = RegionBeg R + of_nat j * ?z"
      by (rule trans [OF decompact_compact(1) [OF I(3,4) assms(1), symmetric]
          decompact_compact(1) [OF J(3,4) assms(1), of "RegionBeg R", folded e]])
    then have "of_nat i * ?z = of_nat j * ?z" by (rule add_left_imp_eq)
    then have "i * unat ?z = j * unat ?z" unfolding I(1) [symmetric] J(1) [symmetric] by (rule arg_cong)
    moreover have "0 < unat ?z" using assms(1,2) by (force simp: cfg_ok_def)
    ultimately show "i = j" by simp
  qed
  then show ?thesis by (simp add: carved_def distinct_map inj_on_def)
qed

section \<open>Frames\<close>

text \<open>What an operation on the class c leaves alone.\<close>

definition keeps :: "nat \<Rightarrow> pstate \<Rightarrow> pstate \<Rightarrow> bool" where
  "keeps c S S' \<longleftrightarrow> (\<forall>d. d \<noteq> 0 \<longrightarrow> d \<noteq> c \<longrightarrow> Regions (fst S') d = Regions (fst S) d) \<and>
    (\<forall>d. d \<noteq> 0 \<longrightarrow> PerClassArray (snd S') d = PerClassArray (snd S) d) \<and>
    (\<forall>d. RegionBeg (Regions (fst S') d) = RegionBeg (Regions (fst S) d) \<and> rMemMap (Regions (fst S') d) = rMemMap (Regions (fst S) d)) \<and>
    (\<forall>d. MaxCount (PerClassArray (snd S') d) = MaxCount (PerClassArray (snd S) d))"

lemma keeps_refl [simp]: "keeps c S S"
  by (simp add: keeps_def)

lemma keeps_trans: "keeps c S T \<Longrightarrow> keeps c T U \<Longrightarrow> keeps c S U"
  by (simp add: keeps_def)

lemma keeps_0: "keeps 0 S S' \<Longrightarrow> keeps c S S'"
  by (simp add: keeps_def)

definition same_geo :: "RegionInfo \<Rightarrow> RegionInfo \<Rightarrow> bool" where
  "same_geo R R' \<longleftrightarrow> RegionBeg R' = RegionBeg R \<and> rMemMap R' = rMemMap R \<and> MappedUser R' = MappedUser R \<and>
    AllocatedUser R' = AllocatedUser R"

lemma same_geo_refl [simp]: "same_geo R R"
  by (simp add: same_geo_def)

lemma same_geo_trans: "same_geo R S \<Longrightarrow> same_geo S T \<Longrightarrow> same_geo R T"
  by (simp add: same_geo_def)

lemma same_geo_carved: "same_geo R R' \<Longrightarrow> carved cfg c R' = carved cfg c R \<and> region_ok cfg c R' = region_ok cfg c R"
  by (simp add: same_geo_def carved_def region_ok_def)

text \<open>The part of blocks_of that is of the class's own region and cache.\<close>

definition own_free :: "pri_config \<Rightarrow> nat \<Rightarrow> pstate \<Rightarrow> uptr multiset" where
  "own_free cfg c S = list_free (BlockList (Regions (fst S) c)) +
    (if c = 0 then self_free cfg (RegionBeg (Regions (fst S) 0)) (BlockList (Regions (fst S) 0)) else {#}) +
    mset (Chunks (PerClassArray (snd S) c))"

lemma blocks_of_own: "blocks_of cfg c S = own_free cfg c S + (if c = 0 then metas cfg (fst S) else {#})"
  by (simp add: blocks_of_def free_of_def own_free_def ac_simps)

lemma keeps_metas: "keeps 0 S S' \<Longrightarrow> metas cfg (fst S') = metas cfg (fst S)"
  unfolding metas_def keeps_def by (intro sum.cong) auto

lemma keeps_own: "keeps 0 S S' \<Longrightarrow> d \<noteq> 0 \<Longrightarrow> own_free cfg d S' = own_free cfg d S"
  by (simp add: keeps_def own_free_def)

lemma pinv_step:
  assumes inv: "pinv cfg S X Y" and geo: "\<And>c. c < pcNumClasses cfg \<Longrightarrow> same_geo (Regions (fst S) c) (Regions (fst S') c)"
    and mx: "\<And>c. c < pcNumClasses cfg \<Longrightarrow> MaxCount (PerClassArray (snd S') c) = MaxCount (PerClassArray (snd S) c)"
    and ne: "\<And>c. c < pcNumClasses cfg \<Longrightarrow> c \<noteq> 0 \<Longrightarrow> (\<forall>BG\<in>set (BlockList (Regions (fst S) c)). Batches BG \<noteq> []) \<Longrightarrow>
      (\<forall>BG\<in>set (BlockList (Regions (fst S') c)). Batches BG \<noteq> [])"
    and eq: "\<And>c. c < pcNumClasses cfg \<Longrightarrow> blocks_of cfg c S' + X' c = blocks_of cfg c S + X c"
  shows "pinv cfg S' X' Y"
  unfolding pinv_def
proof (intro conjI allI impI)
  show "cfg_ok cfg" using inv by (simp add: pinv_def)
  fix c assume c: "c < pcNumClasses cfg"
  note o = inv [unfolded pinv_def, THEN conjunct2, rule_format, OF c] and g = same_geo_carved [OF geo [OF c]]
  show "region_ok cfg c (Regions (fst S') c)" "2 \<le> unat (MaxCount (PerClassArray (snd S') c))"
    "\<forall>a\<in>#Y c. valid_ptr cfg a" "blocks_of cfg c S' + X' c = mset (carved cfg c (Regions (fst S') c)) + Y c"
    using o g mx [OF c] eq [OF c] by simp_all
  assume "c \<noteq> 0"
  then show "\<forall>BG\<in>set (BlockList (Regions (fst S') c)). Batches BG \<noteq> []" using o ne [OF c] by simp
qed

lemma pinv_class0:
  assumes "pinv cfg S X Y" and "keeps 0 S S'" and "same_geo (Regions (fst S) 0) (Regions (fst S') 0)"
    and "own_free cfg 0 S' + X' 0 = own_free cfg 0 S + X 0" and "\<And>d. d \<noteq> 0 \<Longrightarrow> X' d = X d"
  shows "pinv cfg S' X' Y"
proof (rule pinv_step [OF assms(1)])
  fix c
  show "same_geo (Regions (fst S) c) (Regions (fst S') c)"
    using assms(2,3) by (cases "c = 0") (simp_all add: keeps_def)
  show "MaxCount (PerClassArray (snd S') c) = MaxCount (PerClassArray (snd S) c)" using assms(2) by (simp add: keeps_def)
  show "\<forall>BG\<in>set (BlockList (Regions (fst S') c)). Batches BG \<noteq> []"
    if "c \<noteq> 0" "\<forall>BG\<in>set (BlockList (Regions (fst S) c)). Batches BG \<noteq> []"
    using that assms(2) by (simp add: keeps_def)
  show "blocks_of cfg c S' + X' c = blocks_of cfg c S + X c"
    using assms(4,5) keeps_metas [OF assms(2)] keeps_own [OF assms(2), of c cfg]
    by (cases "c = 0") (simp_all add: blocks_of_own ac_simps)
qed

lemma pinv_valid:
  assumes "pinv cfg S X Y" "c < pcNumClasses cfg" "a \<in># blocks_of cfg c S + X c"
  shows "valid_ptr cfg a"
proof -
  have "a \<in># mset (carved cfg c (Regions (fst S) c)) + Y c" using assms by (simp add: pinv_def)
  then show ?thesis using carved_valid assms(1,2) by (auto simp: pinv_def)
qed

lemma pinv_classes: "pinv cfg S X Y \<Longrightarrow> 0 < pcNumClasses cfg \<and> cfg_ok cfg"
  by (simp add: pinv_def cfg_ok_def)

section \<open>The batch class\<close>

lemma push_self_contained_free:
  "batches_free (push_self_contained cfg b Mx Bs as) = batches_free Bs + mset as"
  by (induction cfg b Mx Bs as rule: push_self_contained.induct) (simp_all add: tb_add_def)

lemma push_self_contained_ne: "Bs \<noteq> [] \<Longrightarrow> push_self_contained cfg b Mx Bs as \<noteq> []"
  by (induction cfg b Mx Bs as rule: push_self_contained.induct) simp_all

lemma push_into_batch_group_free:
  fixes BG :: BatchGroup
  assumes "push_into_batch_group cfg b Arr BG = BG'"
  shows "list_free [BG'] + self_free cfg b [BG'] = list_free [BG] + self_free cfg b [BG] + mset Arr"
proof (cases "Arr = []")
  case True
  then show ?thesis using assms by (simp add: push_into_batch_group_def)
next
  case False
  then have s: "mset Arr = add_mset (last Arr) (mset (butlast Arr))"
    by (metis append_butlast_last_id mset_append mset.simps union_mset_add_mset_right add.right_neutral)
  show ?thesis
    using assms False push_self_contained_ne [of "Batches BG" cfg b "MaxCachedPerBatch BG" Arr]
      push_self_contained_ne [of "[\<lparr>tbAddr = decompactPtrInternal cfg b (last Arr), Batch = [last Arr, compactPtrInternal cfg b (bgAddr BG)]\<rparr>]"
        cfg b "MaxCachedPerBatch BG" "butlast Arr"]
    by (auto simp: push_into_batch_group_def push_self_contained_free s split: if_splits)
qed

lemma pushBatchClassBlocks_free:
  assumes v: "Arr \<noteq> []" "\<forall>a\<in>set Arr. valid_ptr cfg a"
  shows "list_free (BlockList (pushBatchClassBlocks cfg Arr R)) + self_free cfg (RegionBeg R) (BlockList (pushBatchClassBlocks cfg Arr R)) =
    list_free (BlockList R) + self_free cfg (RegionBeg R) (BlockList R) + mset Arr"
    and "same_geo R (pushBatchClassBlocks cfg Arr R)"
proof -
  have s: "mset Arr = add_mset (last Arr) (mset (butlast Arr))"
    using v(1) by (metis append_butlast_last_id mset_append mset.simps union_mset_add_mset_right add.right_neutral)
  show "list_free (BlockList (pushBatchClassBlocks cfg Arr R)) + self_free cfg (RegionBeg R) (BlockList (pushBatchClassBlocks cfg Arr R)) =
    list_free (BlockList R) + self_free cfg (RegionBeg R) (BlockList R) + mset Arr"
  proof (cases "BlockList R")
    case Nil
    have "valid_ptr cfg (last Arr)" using v by simp
    then show ?thesis
      using push_into_batch_group_free [OF refl, of cfg "RegionBeg R" "butlast Arr" "new_batch_group cfg (RegionBeg R) (last Arr)"]
      by (simp add: pushBatchClassBlocks_def Nil new_batch_group_def compact_decompact s Let_def)
  next
    case (Cons BG rest)
    then show ?thesis
      using push_into_batch_group_free [OF refl, of cfg "RegionBeg R" Arr BG]
      by (simp add: pushBatchClassBlocks_def Let_def ac_simps)
  qed
  show "same_geo R (pushBatchClassBlocks cfg Arr R)"
    by (simp add: pushBatchClassBlocks_def same_geo_def Let_def split: list.split)
qed

lemma upd_simps [simp]:
  "Regions (upd_region c f P) d = (if d = c then f (Regions P c) else Regions P d)"
  "PerClassArray (upd_class c g C) d = (if d = c then g (PerClassArray C c) else PerClassArray C d)"
  by (simp_all add: upd_region_def upd_class_def)

lemma push_batch_class_inv:
  assumes inv: "pinv cfg (P, C) X Y" and v: "Arr \<noteq> []" "\<forall>a\<in>set Arr. valid_ptr cfg a"
    and X': "X 0 = X' 0 + mset Arr" "\<And>d. d \<noteq> 0 \<Longrightarrow> X' d = X d"
  shows "pinv cfg (upd_region 0 (pushBatchClassBlocks cfg Arr) P, C) X' Y"
    and "keeps 0 (P, C) (upd_region 0 (pushBatchClassBlocks cfg Arr) P, C)"
proof -
  note f = pushBatchClassBlocks_free [OF v, of "Regions P 0"]
  show k: "keeps 0 (P, C) (upd_region 0 (pushBatchClassBlocks cfg Arr) P, C)"
    using f(2) by (simp add: keeps_def same_geo_def)
  show "pinv cfg (upd_region 0 (pushBatchClassBlocks cfg Arr) P, C) X' Y"
    using f X' by (intro pinv_class0 [OF inv k]) (simp_all add: own_free_def same_geo_def ac_simps)
qed

lemma drain_count:
  assumes "2 \<le> unat (MaxCount pc)" and "lc_full pc"
  shows "0 < lc_drain_count pc" and "lc_drain_count pc \<le> List.length (Chunks pc)"
proof -
  have "unat (of_nat (List.length (Chunks pc)) :: u16) = unat (MaxCount pc)" using assms(2) by (simp add: lc_full_def)
  then have l: "List.length (Chunks pc) mod 2 ^ 16 = unat (MaxCount pc)" by (simp add: unat_of_nat)
  have d: "unat (MaxCount pc div 2) = unat (MaxCount pc) div 2" by (simp add: unat_div)
  have "MaxCount pc div 2 \<le> MaxCount pc" unfolding word_le_nat_alt d by simp
  then have n: "lc_drain_count pc = unat (MaxCount pc) div 2"
    using assms(2) d by (simp add: lc_drain_count_def lc_full_def min_absorb1)
  then show "0 < lc_drain_count pc" using assms(1) by simp
  have "List.length (Chunks pc) mod 2 ^ 16 \<le> List.length (Chunks pc)" by simp
  then show "lc_drain_count pc \<le> List.length (Chunks pc)" unfolding n using l by linarith
qed

lemma drain_batch_class_inv:
  assumes inv: "pinv cfg (P, C) X Y" and full: "lc_full (PerClassArray C 0)"
  shows "pinv cfg (drain_batch_class cfg (P, C)) X Y" and "keeps 0 (P, C) (drain_batch_class cfg (P, C))"
proof -
  let ?pc = "PerClassArray C 0"
  define n where "n = lc_drain_count ?pc"
  let ?Arr = "take n (Chunks ?pc)"
  have m: "2 \<le> unat (MaxCount ?pc)" using inv pinv_classes [OF inv] by (simp add: pinv_def)
  note dc = drain_count [OF m full, folded n_def]
  have ne: "?Arr \<noteq> []" using dc by auto
  have v: "\<forall>a\<in>set ?Arr. valid_ptr cfg a"
  proof
    fix a assume "a \<in> set ?Arr"
    then have "a \<in># blocks_of cfg 0 (P, C) + X 0" by (auto simp: blocks_of_def dest: in_set_takeD)
    then show "valid_ptr cfg a" using pinv_valid [OF inv] pinv_classes [OF inv] by blast
  qed
  have e: "drain_batch_class cfg (P, C) = (upd_region 0 (pushBatchClassBlocks cfg ?Arr) P, upd_class 0 (\<lambda>pc. pc\<lparr>Chunks := drop n (Chunks pc)\<rparr>) C)"
    by (simp add: drain_batch_class_def n_def Let_def)
  note f = pushBatchClassBlocks_free [OF ne v, of "Regions P 0"]
  show k: "keeps 0 (P, C) (drain_batch_class cfg (P, C))"
    using f(2) by (auto simp: e keeps_def same_geo_def)
  have "mset ?Arr + mset (drop n (Chunks ?pc)) = mset (Chunks ?pc)"
    by (metis append_take_drop_id mset_append)
  then show "pinv cfg (drain_batch_class cfg (P, C)) X Y"
    using f by (intro pinv_class0 [OF inv k]) (simp_all add: e own_free_def same_geo_def ac_simps)
qed

lemma lc_put_inv:
  assumes inv: "pinv cfg (P, C) X Y" and X: "X c = add_mset (compactPtr cfg c P Ptr) (X' c)" "\<And>d. d \<noteq> c \<Longrightarrow> X' d = X d"
  shows "pinv cfg (lc_put cfg c Ptr (P, C)) X' Y" and "c = 0 \<Longrightarrow> keeps 0 (P, C) (lc_put cfg c Ptr (P, C))"
    and "fst (lc_put cfg c Ptr (P, C)) = P"
proof -
  show f: "fst (lc_put cfg c Ptr (P, C)) = P" by (simp add: lc_put_def)
  show "keeps 0 (P, C) (lc_put cfg c Ptr (P, C))" if "c = 0"
    using that by (simp add: keeps_def lc_put_def)
  show "pinv cfg (lc_put cfg c Ptr (P, C)) X' Y"
  proof (rule pinv_step [OF inv])
    fix d
    show "blocks_of cfg d (lc_put cfg c Ptr (P, C)) + X' d = blocks_of cfg d (P, C) + X d"
      using X by (cases "d = c") (simp_all add: blocks_of_def free_of_def f lc_put_def)
  qed (simp_all add: lc_put_def)
qed

lemma deallocate_batch_class_inv:
  assumes inv: "pinv cfg (P, C) X Y" and X: "X 0 = add_mset (compactPtr cfg 0 P Ptr) (X' 0)" "\<And>d. d \<noteq> 0 \<Longrightarrow> X' d = X d"
  shows "pinv cfg (deallocate_batch_class cfg Ptr (P, C)) X' Y" and "keeps 0 (P, C) (deallocate_batch_class cfg Ptr (P, C))"
proof -
  obtain P1 C1 where s: "(if lc_full (PerClassArray C 0) then drain_batch_class cfg (P, C) else (P, C)) = (P1, C1)" by fastforce
  have i: "pinv cfg (P1, C1) X Y" and k: "keeps 0 (P, C) (P1, C1)"
    using drain_batch_class_inv [OF inv] inv s by (auto split: if_splits)
  have "compactPtr cfg 0 P1 Ptr = compactPtr cfg 0 P Ptr"
    using k by (simp add: keeps_def compactPtr_def getCompactPtrBaseByClassId_def)
  then have X1: "X 0 = add_mset (compactPtr cfg 0 P1 Ptr) (X' 0)" using X(1) by simp
  have e: "deallocate_batch_class cfg Ptr (P, C) = lc_put cfg 0 Ptr (P1, C1)"
    by (simp add: deallocate_batch_class_def s)
  show "pinv cfg (deallocate_batch_class cfg Ptr (P, C)) X' Y"
    unfolding e by (rule lc_put_inv(1) [of cfg P1 C1 X Y 0 Ptr X', OF i X1 X(2)])
  show "keeps 0 (P, C) (deallocate_batch_class cfg Ptr (P, C))"
    unfolding e using keeps_trans [OF k lc_put_inv(2) [of cfg P1 C1 X Y 0 Ptr X', OF i X1 X(2)]] by simp
qed

section \<open>Replacing a free list\<close>

lemma set_blocks_geo: "same_geo (Regions P d) (Regions (set_blocks c L P) d)"
  by (simp add: set_blocks_def same_geo_def)

lemma set_blocks_simps [simp]:
  "BlockList (Regions (set_blocks c L P) d) = (if d = c then L else BlockList (Regions P d))"
  "RegionBeg (Regions (set_blocks c L P) d) = RegionBeg (Regions P d)"
  by (simp_all add: set_blocks_def)

lemma set_blocks_keeps: "keeps c (P, C) (set_blocks c L P, C)"
  by (simp add: keeps_def set_blocks_def)

lemma metas_set_blocks:
  assumes "c \<noteq> 0" and "c < pcNumClasses cfg"
  shows "metas cfg (set_blocks c L P) + list_meta cfg (RegionBeg (Regions P 0)) (BlockList (Regions P c)) =
    metas cfg P + list_meta cfg (RegionBeg (Regions P 0)) L"
proof -
  have c: "c \<in> {1..<pcNumClasses cfg}" "finite {1..<pcNumClasses cfg}" using assms by auto
  let ?f = "\<lambda>P d. list_meta cfg (RegionBeg (Regions P 0)) (BlockList (Regions P d))"
  have r: "sum (?f (set_blocks c L P)) ({1..<pcNumClasses cfg} - {c}) = sum (?f P) ({1..<pcNumClasses cfg} - {c})"
    by (intro sum.cong) auto
  show ?thesis
    unfolding metas_def sum.remove [OF c(2,1)] r by (simp add: ac_simps)
qed

lemma metas_set_blocks_0 [simp]: "metas cfg (set_blocks 0 L P) = metas cfg P"
  unfolding metas_def by (intro sum.cong) auto

lemma set_blocks_inv:
  assumes inv: "pinv cfg (P, C) X Y" and c: "c \<noteq> 0" "c < pcNumClasses cfg"
    and F: "list_free L + X' c = list_free (BlockList (Regions P c)) + X c"
    and M: "list_meta cfg (RegionBeg (Regions P 0)) L + X' 0 = list_meta cfg (RegionBeg (Regions P 0)) (BlockList (Regions P c)) + X 0"
    and O: "\<And>d. d \<noteq> 0 \<Longrightarrow> d \<noteq> c \<Longrightarrow> X' d = X d" and L: "\<forall>BG\<in>set L. Batches BG \<noteq> []"
  shows "pinv cfg (set_blocks c L P, C) X' Y"
proof (rule pinv_step [OF inv])
  fix d assume "d < pcNumClasses cfg"
  have m: "metas cfg (set_blocks c L P) + X' 0 = metas cfg P + X 0"
  proof -
    let ?m = "list_meta cfg (RegionBeg (Regions P 0))"
    have "metas cfg (set_blocks c L P) + X' 0 + ?m (BlockList (Regions P c)) = metas cfg P + (?m L + X' 0)"
      using metas_set_blocks [OF c, of L P] by (simp add: ac_simps)
    also have "\<dots> = metas cfg P + X 0 + ?m (BlockList (Regions P c))" unfolding M by (simp add: ac_simps)
    finally show ?thesis by simp
  qed
  show "blocks_of cfg d (set_blocks c L P, C) + X' d = blocks_of cfg d (P, C) + X d"
  proof (cases "d = 0")
    case True
    then show ?thesis using m c by (simp add: blocks_of_def free_of_def ac_simps)
  next
    case False
    then show ?thesis using F O by (cases "d = c") (simp_all add: blocks_of_def free_of_def ac_simps)
  qed
qed (use L in \<open>simp_all add: set_blocks_geo\<close>)

lemma set_blocks_0_inv:
  assumes inv: "pinv cfg (P, C) X Y"
    and F: "list_free L + self_free cfg (RegionBeg (Regions P 0)) L + X' 0 =
      list_free (BlockList (Regions P 0)) + self_free cfg (RegionBeg (Regions P 0)) (BlockList (Regions P 0)) + X 0"
    and O: "\<And>d. d \<noteq> 0 \<Longrightarrow> X' d = X d"
  shows "pinv cfg (set_blocks 0 L P, C) X' Y"
proof (rule pinv_step [OF inv])
  fix d assume "d < pcNumClasses cfg"
  show "blocks_of cfg d (set_blocks 0 L P, C) + X' d = blocks_of cfg d (P, C) + X d"
    using F O by (cases "d = 0") (simp_all add: blocks_of_def free_of_def ac_simps)
qed (simp_all add: set_blocks_geo)

text \<open>The counters and the state of the random generator do not matter.\<close>

definition same_blocks :: "pstate \<Rightarrow> pstate \<Rightarrow> bool" where
  "same_blocks S S' \<longleftrightarrow> (\<forall>d. same_geo (Regions (fst S) d) (Regions (fst S') d) \<and>
    BlockList (Regions (fst S') d) = BlockList (Regions (fst S) d)) \<and> PerClassArray (snd S') = PerClassArray (snd S)"

lemma same_blocks_inv:
  assumes s: "same_blocks S S'" and inv: "pinv cfg S X Y"
  shows "pinv cfg S' X Y"
proof (rule pinv_step [OF inv])
  fix c
  have "metas cfg (fst S') = metas cfg (fst S)"
    using s unfolding metas_def by (intro sum.cong) (simp_all add: same_blocks_def same_geo_def)
  then show "blocks_of cfg c S' + X c = blocks_of cfg c S + X c"
    using s by (simp add: same_blocks_def same_geo_def blocks_of_def free_of_def)
qed (use s in \<open>simp_all add: same_blocks_def\<close>)

section \<open>Popping\<close>

lemma pinv_groups:
  "pinv cfg (P, C) X Y \<Longrightarrow> c \<noteq> 0 \<Longrightarrow> c < pcNumClasses cfg \<Longrightarrow> BlockList (Regions P c) = BG # rest \<Longrightarrow>
    Batches BG \<noteq> [] \<and> (\<forall>BG\<in>set rest. Batches BG \<noteq> [])"
  by (auto simp: pinv_def)

lemma count_popped_same: "same_blocks (P, C) (count_popped c n P, C)"
  by (simp add: same_blocks_def count_popped_def same_geo_def)

text \<open>The result of popBlocksImpl, and its frame.\<close>

definition popped_ok :: "pri_config \<Rightarrow> nat \<Rightarrow> pstate \<Rightarrow> (nat \<Rightarrow> uptr multiset) \<Rightarrow> (nat \<Rightarrow> uptr multiset) \<Rightarrow> pstate \<Rightarrow> bool" where
  "popped_ok cfg c S X Y S' \<longleftrightarrow> pinv cfg S' X Y \<and> keeps c S S' \<and> same_geo (Regions (fst S) c) (Regions (fst S') c) \<and>
    Exhausted (Regions (fst S') c) = Exhausted (Regions (fst S) c) \<and> (c = 0 \<longrightarrow> snd S' = snd S)"

lemma popped_ok_count: "popped_ok cfg c S X Y (P, C) \<Longrightarrow> popped_ok cfg c S X Y (count_popped c n P, C)"
  using same_blocks_inv [OF count_popped_same]
  by (auto simp: popped_ok_def keeps_def count_popped_def same_geo_def)

lemma recycle_inv:
  assumes ok: "popped_ok cfg c S X Y T" and c: "c \<noteq> 0"
    and X: "X 0 = add_mset (compactPtrInternal cfg (RegionBeg (Regions (fst S) 0)) Ptr) (X' 0)" "\<And>d. d \<noteq> 0 \<Longrightarrow> X' d = X d"
  shows "popped_ok cfg c S X' Y (recycle cfg c Ptr T)"
proof -
  obtain P C where T: "T = (P, C)" by fastforce
  have k: "keeps c S (P, C)" and inv: "pinv cfg (P, C) X Y" using ok by (simp_all add: popped_ok_def T)
  have "X 0 = add_mset (compactPtr cfg 0 P Ptr) (X' 0)"
    using X(1) k by (simp add: keeps_def compactPtr_def getCompactPtrBaseByClassId_def)
  note d = deallocate_batch_class_inv [of cfg P C X Y Ptr X', OF inv this X(2)]
  have "Regions (fst (deallocate_batch_class cfg Ptr (P, C))) c = Regions P c"
    using d(2) c by (simp add: keeps_def)
  then show ?thesis
    using ok c d(1) keeps_trans [OF k keeps_0 [OF d(2)]] by (simp add: popped_ok_def T recycle_def)
qed

lemma popBlocksImpl_batch_class:
  assumes inv: "pinv cfg (P, C) X Y" and pop: "popBlocksImpl cfg 0 m (P, C) = (A, S')"
  shows "popped_ok cfg 0 (P, C) (X(0 := X 0 + mset A)) Y S'"
proof (cases "BlockList (Regions P 0)")
  case Nil
  then have "A = []" "S' = (P, C)" using pop by (simp_all add: popBlocksImpl_def)
  then show ?thesis using inv by (simp add: popped_ok_def)
next
  case (Cons BG rest)
  let ?X = "X(0 := X 0 + mset A)"
  have sb: "popped_ok cfg 0 (P, C) ?X Y (set_blocks 0 L P, C)"
    if "list_free L + self_free cfg (RegionBeg (Regions P 0)) L + mset A =
      list_free (BlockList (Regions P 0)) + self_free cfg (RegionBeg (Regions P 0)) (BlockList (Regions P 0))" for L
    using set_blocks_0_inv [OF inv, of L ?X] that set_blocks_keeps [of 0 P C L]
    by (simp add: popped_ok_def set_blocks_geo ac_simps) (simp add: set_blocks_def)
  show ?thesis
  proof (cases "Batches BG")
    case Nil
    then have e: "A = [compactPtr cfg 0 P (bgAddr BG)]" "S' = (count_popped 0 1 (set_blocks 0 rest P), C)"
      using pop Cons by (simp_all add: popBlocksImpl_def)
    show ?thesis
      unfolding e(2) by (rule popped_ok_count, rule sb)
        (simp add: Cons Nil e(1) compactPtr_def getCompactPtrBaseByClassId_def ac_simps)
  next
    case (Cons B Bs)
    let ?L = "if Bs = [] then rest else BG\<lparr>Batches := Bs\<rparr> # rest"
    have e: "A = Batch B" "S' = (count_popped 0 (tb_Count B) (set_blocks 0 ?L P), C)"
      using pop \<open>BlockList (Regions P 0) = BG # rest\<close> Cons
      by (auto simp: popBlocksImpl_def moveNToArray_def tb_Count_def tb_empty_def recycle_def Let_def split: if_splits)
    show ?thesis
      unfolding e(2) by (rule popped_ok_count, rule sb)
        (simp add: \<open>BlockList (Regions P 0) = BG # rest\<close> Cons e(1) ac_simps)
  qed
qed

lemma popBlocksImpl_class:
  assumes inv: "pinv cfg (P, C) X Y" and c: "c \<noteq> 0" "c < pcNumClasses cfg" and pop: "popBlocksImpl cfg c m (P, C) = (A, S')"
  shows "popped_ok cfg c (P, C) (X(c := X c + mset A)) Y S'"
proof (cases "BlockList (Regions P c)")
  case Nil
  then have "A = []" "S' = (P, C)" using pop by (simp_all add: popBlocksImpl_def)
  then show ?thesis using inv by (simp add: popped_ok_def)
next
  case BL: (Cons BG rest)
  let ?X = "X(c := X c + mset A)" and ?b = "RegionBeg (Regions P 0)"
  note ne = pinv_groups [OF inv c BL]
  obtain B Bs where Bs: "Batches BG = B # Bs" using ne by (cases "Batches BG") auto
  define n where "n = min (unat m) (tb_Count B)"
  obtain B' where mv: "moveNToArray n B = (A, B')"
    using pop BL Bs c by (auto simp: popBlocksImpl_def n_def Let_def split: prod.splits)
  note mm = moveNToArray_mset [OF mv]
  have sb: "popped_ok cfg c (P, C) (?X(0 := X 0 + M)) Y (set_blocks c L P, C)"
    if "list_free L + mset A = list_free (BlockList (Regions P c))"
      "list_meta cfg ?b L + M = list_meta cfg ?b (BlockList (Regions P c))" "\<forall>BG\<in>set L. Batches BG \<noteq> []" for L M
  proof -
    have "pinv cfg (set_blocks c L P, C) (?X(0 := X 0 + M)) Y"
      using that c by (intro set_blocks_inv [OF inv c]) (simp_all add: ac_simps)
    then show ?thesis using set_blocks_keeps [of c P C L] c(1)
      by (simp add: popped_ok_def set_blocks_geo) (simp add: set_blocks_def)
  qed
  have X0: "?X 0 = X 0" using c by simp
  define S where "S = (if tb_empty B' then
        (if Bs = [] then recycle cfg c (bgAddr BG) (recycle cfg c (tbAddr B) (set_blocks c rest P, C))
         else recycle cfg c (tbAddr B) (set_blocks c (BG\<lparr>Batches := Bs\<rparr> # rest) P, C))
      else (set_blocks c (BG\<lparr>Batches := B' # Bs\<rparr> # rest) P, C))"
  have "popped_ok cfg c (P, C) ?X Y S"
  proof (cases "tb_empty B'")
    case False
    have "popped_ok cfg c (P, C) (?X(0 := X 0 + {#})) Y (set_blocks c (BG\<lparr>Batches := B' # Bs\<rparr> # rest) P, C)"
      using mm ne by (intro sb) (simp_all add: BL Bs ac_simps flip: mm(1))
    then show ?thesis using False X0 by (simp add: S_def fun_upd_idem)
  next
    case True
    then have E: "mset A = mset (Batch B)" using mm by (simp add: tb_empty_def tb_Count_def)
    show ?thesis
    proof (cases "Bs = []")
      case True
      let ?M = "{#compactPtrInternal cfg ?b (tbAddr B), compactPtrInternal cfg ?b (bgAddr BG)#}"
      have "popped_ok cfg c (P, C) (?X(0 := X 0 + ?M)) Y (set_blocks c rest P, C)"
        using True E ne by (intro sb) (simp_all add: BL Bs ac_simps)
      from recycle_inv [OF this c(1), of "tbAddr B" "?X(0 := add_mset (compactPtrInternal cfg ?b (bgAddr BG)) (X 0))"]
      have "popped_ok cfg c (P, C) (?X(0 := add_mset (compactPtrInternal cfg ?b (bgAddr BG)) (X 0))) Y (recycle cfg c (tbAddr B) (set_blocks c rest P, C))"
        by simp
      from recycle_inv [OF this c(1), of "bgAddr BG" ?X] show ?thesis
        using \<open>tb_empty B'\<close> True c by (simp add: S_def)
    next
      case False
      have "popped_ok cfg c (P, C) (?X(0 := X 0 + {#compactPtrInternal cfg ?b (tbAddr B)#})) Y (set_blocks c (BG\<lparr>Batches := Bs\<rparr> # rest) P, C)"
        using False E ne by (intro sb) (simp_all add: BL Bs ac_simps)
      from recycle_inv [OF this c(1), of "tbAddr B" ?X] show ?thesis
        using \<open>tb_empty B'\<close> False c by (simp add: S_def)
    qed
  qed
  moreover have "S' = (count_popped c n (fst S), snd S)"
    using pop BL Bs c mv by (simp add: popBlocksImpl_def S_def n_def Let_def)
  ultimately show ?thesis using popped_ok_count [of cfg c "(P, C)" ?X Y "fst S" "snd S" n] by simp
qed

lemma popBlocksImpl_inv:
  assumes "pinv cfg S X Y" and "c < pcNumClasses cfg" and "popBlocksImpl cfg c m S = (A, S')"
  shows "popped_ok cfg c S (X(c := X c + mset A)) Y S'"
  using assms popBlocksImpl_batch_class popBlocksImpl_class by (cases S; cases "c = 0") auto

end
