(* ===== verification/Primary64_Populate.thy ===== *)
theory Primary64_Populate
  imports Primary64_Inv
begin

text \<open>Populating a free list with newly carved blocks, and popping from it: proved for any way of pushing
  the blocks that satisfies the contract block_pusher, which the batch class and, in Primary64_Ops,
  the other classes provide.\<close>

section \<open>Carving\<close>

lemma unat_add_lt: "unat x + unat y < 2 ^ 64 \<Longrightarrow> unat (x + y :: uptr) = unat x + unat y"
  by (subst unat_add_lem [THEN iffD1]) simp_all

lemma cfg_class:
  assumes "cfg_ok cfg" and "c < pcNumClasses cfg"
  shows "16 \<le> unat (pri_getSizeByClassId cfg c)" "unat (pri_getSizeByClassId cfg c) \<le> 2 ^ 32"
    "2 ^ CompactPtrScale cfg dvd unat (pri_getSizeByClassId cfg c)" "lc_getMaxCached cfg (pri_getSizeByClassId cfg c) \<noteq> 0"
    "(2 :: nat) ^ RegionSizeLog cfg \<le> 2 ^ 32"
proof -
  show "16 \<le> unat (pri_getSizeByClassId cfg c)" "unat (pri_getSizeByClassId cfg c) \<le> 2 ^ 32"
    "2 ^ CompactPtrScale cfg dvd unat (pri_getSizeByClassId cfg c)" "lc_getMaxCached cfg (pri_getSizeByClassId cfg c) \<noteq> 0"
    using assms by (simp_all add: cfg_ok_def)
  show "(2 :: nat) ^ RegionSizeLog cfg \<le> 2 ^ 32"
    using assms by (intro power_increasing) (auto simp: cfg_ok_def)
qed

lemma user_bytes:
  assumes "cfg_ok cfg" "c < pcNumClasses cfg" "region_ok cfg c R"
  shows "unat (AllocatedUser R + ucast (lc_getMaxCached cfg (pri_getSizeByClassId cfg c)) * pri_getSizeByClassId cfg c) =
      unat (AllocatedUser R) + unat (lc_getMaxCached cfg (pri_getSizeByClassId cfg c)) * unat (pri_getSizeByClassId cfg c)"
    and "unat (lc_getMaxCached cfg (pri_getSizeByClassId cfg c)) * unat (pri_getSizeByClassId cfg c) < 2 ^ 48"
    and "unat (MappedUser R) \<le> 2 ^ 32" and "unat (AllocatedUser R) \<le> unat (MappedUser R)"
proof -
  let ?z = "pri_getSizeByClassId cfg c" and ?m = "lc_getMaxCached cfg (pri_getSizeByClassId cfg c)"
  note k = cfg_class [OF assms(1,2)]
  have um: "unat (ucast ?m :: uptr) = unat ?m"
    using unat_less_exp [of ?m] by (simp add: unsigned_ucast_eq take_bit_eq_mod)
  have "unat ?m * unat ?z \<le> (2 ^ 16 - 1) * 2 ^ 32"
    using unat_less_exp [of ?m] k(2) by (intro mult_le_mono) simp_all
  then show l: "unat ?m * unat ?z < 2 ^ 48" by simp
  then have u: "unat (ucast ?m * ?z) = unat ?m * unat ?z"
    using unat_mult_lt [of "ucast ?m :: uptr" ?z] um by simp
  show M: "unat (MappedUser R) \<le> 2 ^ 32" "unat (AllocatedUser R) \<le> unat (MappedUser R)"
    using assms(3) k(5) by (auto simp: region_ok_def word_le_nat_alt)
  show "unat (AllocatedUser R + ucast ?m * ?z) = unat (AllocatedUser R) + unat ?m * unat ?z"
    using M l by (subst unat_add_lt) (simp_all add: u)
qed

lemma map_size:
  assumes ok: "cfg_ok cfg" and d: "unat d < 2 ^ 50"
  shows "unat d \<le> unat (roundUp d (MapSizeIncrement cfg))" "unat (roundUp d (MapSizeIncrement cfg)) < 2 ^ 51"
proof -
  obtain k where k: "k \<le> 40" "MapSizeIncrement cfg = 2 ^ k" using ok by (auto simp: cfg_ok_def)
  have p: "(2 :: nat) ^ k \<le> 2 ^ 40" using k(1) by (intro power_increasing) simp_all
  have u: "unat (2 ^ k :: uptr) = 2 ^ k" using k(1) by (simp add: unat_exp)
  have P: "isPowerOfTwo (MapSizeIncrement cfg)" using k by (auto simp: isPowerOfTwo_iff intro!: exI [of _ k])
  have "unat d + unat (MapSizeIncrement cfg) \<le> 2 ^ 64" using d p by (simp add: k(2) u)
  note r = roundUp_ge [OF P this]
  show "unat d \<le> unat (roundUp d (MapSizeIncrement cfg))" using r(1) by (simp add: word_le_nat_alt)
  show "unat (roundUp d (MapSizeIncrement cfg)) < 2 ^ 51" using r(3) d p by (simp add: k(2) u)
qed

lemma region_ok_map:
  assumes ok: "cfg_ok cfg" "c < pcNumClasses cfg" and R: "region_ok cfg c R"
    and T: "T = AllocatedUser R + ucast (lc_getMaxCached cfg (pri_getSizeByClassId cfg c)) * pri_getSizeByClassId cfg c"
    and more: "MappedUser R < T"
    and fit: "\<not> push_bit (RegionSizeLog cfg) 1 < RegionBeg R - mBase (rMemMap R) + MappedUser R + roundUp (T - MappedUser R) (MapSizeIncrement cfg)"
  shows "region_ok cfg c (R\<lparr>MappedUser := MappedUser R + roundUp (T - MappedUser R) (MapSizeIncrement cfg)\<rparr>)"
    and "T \<le> MappedUser R + roundUp (T - MappedUser R) (MapSizeIncrement cfg)"
proof -
  let ?s = "roundUp (T - MappedUser R) (MapSizeIncrement cfg)" and ?o = "RegionBeg R - mBase (rMemMap R)"
  note b = user_bytes [OF ok R] and p = cfg_class(5) [OF ok]
  have uT: "unat T < 2 ^ 49" "unat (MappedUser R) < unat T"
    using b more T by (simp_all add: word_less_nat_alt)
  have uD: "unat (T - MappedUser R) = unat T - unat (MappedUser R)" using uT by (simp add: unat_sub_if_size)
  have "unat (T - MappedUser R) < 2 ^ 50" using uT uD by simp
  note s = map_size [OF ok(1) this]
  have o: "unat ?o + unat (MappedUser R) \<le> 2 ^ RegionSizeLog cfg" using R by (simp add: region_ok_def)
  have uM: "unat (MappedUser R + ?s) = unat (MappedUser R) + unat ?s"
    using b(3) s(2) by (intro unat_add_lt) simp
  have uO: "unat (?o + MappedUser R) = unat ?o + unat (MappedUser R)"
    using o p by (intro unat_add_lt) simp
  have uS: "unat (?o + MappedUser R + ?s) = unat ?o + unat (MappedUser R) + unat ?s"
    using o p s(2) by (subst unat_add_lt) (simp_all add: uO)
  have "unat (push_bit (RegionSizeLog cfg) (1 :: uptr)) = 2 ^ RegionSizeLog cfg"
    using ok(1) by (simp add: push_bit_eq_mult unat_exp cfg_ok_def)
  then have "unat ?o + unat (MappedUser R) + unat ?s \<le> 2 ^ RegionSizeLog cfg"
    using fit uS by (simp add: word_less_nat_alt)
  then show "region_ok cfg c (R\<lparr>MappedUser := MappedUser R + ?s\<rparr>)"
    using R b(4) uM by (simp add: region_ok_def word_le_nat_alt)
  show "T \<le> MappedUser R + ?s" using s(1) uT(2) uD uM by (simp add: word_le_nat_alt)
qed

lemma populate_map_inv:
  assumes inv: "pinv cfg (P, C) X Y" and c: "c < pcNumClasses cfg" and r: "populate_map cfg env c (P, C) = (ok, (P', C'))"
  shows "pinv cfg (P', C') X Y \<and> keeps c (P, C) (P', C') \<and> PerClassArray C' = PerClassArray C \<and>
    (ok \<longrightarrow> Exhausted (Regions P' c) = Exhausted (Regions P c) \<and>
       AllocatedUser (Regions P' c) + ucast (lc_getMaxCached cfg (pri_getSizeByClassId cfg c)) * pri_getSizeByClassId cfg c \<le> MappedUser (Regions P' c))"
proof -
  let ?R = "Regions P c" and ?z = "pri_getSizeByClassId cfg c"
  define T where "T = AllocatedUser ?R + ucast (lc_getMaxCached cfg ?z) * ?z"
  let ?s = "roundUp (T - MappedUser ?R) (MapSizeIncrement cfg)"
  have ok1: "cfg_ok cfg" "region_ok cfg c ?R" using inv c by (simp_all add: pinv_def)
  consider (fits) "T \<le> MappedUser ?R" "ok" "P' = P" "C' = C"
    | (full) "\<not> ok" "P' = upd_region c (\<lambda>R. R\<lparr>Exhausted := True\<rparr>) P" "C' = C"
    | (fail) "\<not> ok" "P' = P" "C' = C"
    | (grow) "MappedUser ?R < T" "ok" "\<not> push_bit (RegionSizeLog cfg) 1 < RegionBeg ?R - mBase (rMemMap ?R) + MappedUser ?R + ?s"
        "P' = upd_region c (\<lambda>R. R\<lparr>MappedUser := MappedUser R + ?s\<rparr>) P" "PerClassArray C' = PerClassArray C"
    using r by (auto simp: populate_map_def Let_def not_le simp flip: T_def split: if_splits)
  then show ?thesis
  proof cases
    case fits
    then show ?thesis using inv by (simp flip: T_def)
  next
    case full
    have "pinv cfg (P', C') X Y"
      by (rule same_blocks_inv [OF _ inv]) (simp add: full same_blocks_def same_geo_def)
    then show ?thesis using full by (simp add: keeps_def)
  next
    case fail
    then show ?thesis using inv by simp
  next
    case grow
    note g = region_ok_map [OF ok1(1) c ok1(2) T_def grow(1,3)]
    have m: "metas cfg P' = metas cfg P"
      unfolding metas_def grow(4) by (intro sum.cong) auto
    have b: "blocks_of cfg d (P', C') = blocks_of cfg d (P, C)" for d
      using m by (simp add: blocks_of_def free_of_def grow(4,5))
    have "pinv cfg (P', C') X Y"
      unfolding pinv_def
    proof (intro conjI allI impI)
      show "cfg_ok cfg" by (rule ok1(1))
      fix d assume d: "d < pcNumClasses cfg"
      note i = inv [unfolded pinv_def, THEN conjunct2, rule_format, OF d]
      have "carved cfg d (Regions P' d) = carved cfg d (Regions P d)" by (simp add: grow(4) carved_def)
      then show "2 \<le> unat (MaxCount (PerClassArray (snd (P', C')) d))"
        "\<forall>a\<in>#Y d. valid_ptr cfg a" "blocks_of cfg d (P', C') + X d = mset (carved cfg d (Regions (fst (P', C')) d)) + Y d"
        using i by (simp_all add: b grow(5))
      show "region_ok cfg d (Regions (fst (P', C')) d)" using i g(1) by (cases "d = c") (simp_all add: grow(4))
      assume "d \<noteq> 0"
      then show "\<forall>BG\<in>set (BlockList (Regions (fst (P', C')) d)). Batches BG \<noteq> []" using i by (simp add: grow(4))
    qed
    then show ?thesis using g(2) grow by (simp add: keeps_def T_def)
  qed
qed

text \<open>How many blocks are carved, and that the carved blocks grow by exactly the new ones.\<close>

lemma populate_count_bounds:
  assumes ok: "cfg_ok cfg" "c < pcNumClasses cfg" and R: "region_ok cfg c R"
    and fit: "AllocatedUser R + ucast (lc_getMaxCached cfg (pri_getSizeByClassId cfg c)) * pri_getSizeByClassId cfg c \<le> MappedUser R"
  shows "1 \<le> unat (populate_count cfg c R)"
    and "unat (AllocatedUser R) + unat (populate_count cfg c R) * unat (pri_getSizeByClassId cfg c) \<le> unat (MappedUser R)"
proof -
  let ?z = "pri_getSizeByClassId cfg c" and ?m = "lc_getMaxCached cfg (pri_getSizeByClassId cfg c)"
  let ?q = "(MappedUser R - AllocatedUser R) div ?z"
  note b = user_bytes [OF ok R] and k = cfg_class [OF ok]
  have uD: "unat (MappedUser R - AllocatedUser R) = unat (MappedUser R) - unat (AllocatedUser R)"
    using b(4) by (simp add: unat_sub_if_size)
  have q: "unat ?q = (unat (MappedUser R) - unat (AllocatedUser R)) div unat ?z" by (simp add: unat_div uD)
  have "unat ?q \<le> (unat (MappedUser R) - unat (AllocatedUser R)) div 16"
    unfolding q using k(1) by (intro div_le_mono2) simp_all
  also have "\<dots> \<le> 2 ^ 32 div 16" using b(3) by (intro div_le_mono) simp
  finally have "unat ?q \<le> 2 ^ 32 div 16" .
  then have qu: "unat (ucast ?q :: u32) = unat ?q" by (simp add: unsigned_ucast_eq take_bit_eq_mod)
  have m1: "1 \<le> unat ?m" using k(4) by (simp add: Suc_le_eq unat_gt_0)
  have "unat ?m * unat ?z \<le> unat (MappedUser R) - unat (AllocatedUser R)"
    using fit b(1) by (simp add: word_le_nat_alt)
  then have "1 * unat ?z \<le> unat (MappedUser R) - unat (AllocatedUser R)"
    using m1 by (meson le_trans mult_le_mono1)
  then have q1: "1 \<le> unat ?q" using k(1) by (simp add: q Suc_le_eq div_greater_zero_iff)
  have um: "unat (ucast ?m :: u32) = unat ?m"
    using unat_less_exp [of ?m] by (simp add: unsigned_ucast_eq take_bit_eq_mod)
  have nb: "1 \<le> unat (MaxNumBatches cfg)" "unat (MaxNumBatches cfg) \<le> 2 ^ 15" using ok by (auto simp: cfg_ok_def)
  have "unat (MaxNumBatches cfg) * unat ?m \<le> 2 ^ 15 * (2 ^ 16 - 1)"
    using unat_less_exp [of ?m] nb(2) by (intro mult_le_mono) simp_all
  then have p: "unat (MaxNumBatches cfg * ucast ?m) = unat (MaxNumBatches cfg) * unat ?m"
    using unat_mult_lt [of "MaxNumBatches cfg" "ucast ?m"] um by simp
  have "1 * 1 \<le> unat (MaxNumBatches cfg) * unat ?m" using nb(1) m1 by (rule mult_le_mono)
  then have p1: "1 \<le> unat (MaxNumBatches cfg * ucast ?m)" using p by simp
  have N: "unat (populate_count cfg c R) = min (unat (MaxNumBatches cfg * ucast ?m)) (unat ?q)"
    by (simp add: populate_count_def Let_def min_def word_le_nat_alt qu)
  then show "1 \<le> unat (populate_count cfg c R)" using p1 q1 by simp
  have "unat (populate_count cfg c R) * unat ?z \<le> unat ?q * unat ?z" using N by (intro mult_le_mono1) simp
  also have "\<dots> \<le> unat (MappedUser R) - unat (AllocatedUser R)" unfolding q by (rule div_times_less_eq_dividend)
  finally show "unat (AllocatedUser R) + unat (populate_count cfg c R) * unat ?z \<le> unat (MappedUser R)" using b(4) by simp
qed

lemma carved_grow:
  assumes ok: "cfg_ok cfg" "c < pcNumClasses cfg" and R: "region_ok cfg c R"
    and N: "unat (AllocatedUser R) + unat N * unat (pri_getSizeByClassId cfg c) \<le> unat (MappedUser R)"
    and R': "R' = R\<lparr>PushedBlocks := q, AllocatedUser := AllocatedUser R + pri_getSizeByClassId cfg c * ucast (N :: u32)\<rparr>"
  shows "carved cfg c R' = carved cfg c R @ new_blocks cfg c R (unat N)" and "region_ok cfg c R'"
proof -
  let ?z = "pri_getSizeByClassId cfg c"
  note k = cfg_class [OF ok] and b = user_bytes(3,4) [OF ok R]
  obtain n where n: "unat (AllocatedUser R) = n * unat ?z" using R by (auto simp: region_ok_def)
  have uN: "unat (ucast N :: uptr) = unat N"
    using unat_less_exp [of N] by (simp add: unsigned_ucast_eq take_bit_eq_mod)
  have lt: "unat N * unat ?z \<le> 2 ^ 32" using N b by linarith
  have u: "unat (?z * ucast N) = unat N * unat ?z"
    using unat_mult_lt [of ?z "ucast N :: uptr"] lt uN by (simp add: mult.commute)
  have A': "unat (AllocatedUser R') = (n + unat N) * unat ?z"
    unfolding R' using N b(1) u n by (simp add: unat_add_lt add_mult_distrib)
  have d: "unat (AllocatedUser R') div unat ?z = n + unat N" "unat (AllocatedUser R) div unat ?z = n"
    using k(1) by (simp_all add: A' n)
  have "AllocatedUser R = of_nat n * ?z"
    using arg_cong [OF n, of "of_nat :: nat \<Rightarrow> uptr"] by simp
  then have nb: "new_blocks cfg c R (unat N) =
      map (\<lambda>i. compactPtrInternal cfg (RegionBeg R) (RegionBeg R + of_nat i * ?z)) [n..<n + unat N]"
    by (intro nth_equalityI) (simp_all add: new_blocks_def algebra_simps)
  have "[0..<n + unat N] = [0..<n] @ [n..<n + unat N]" using upt_add_eq_append [of 0 n "unat N"] by simp
  then show "carved cfg c R' = carved cfg c R @ new_blocks cfg c R (unat N)"
    unfolding nb carved_def d by (simp add: R')
  have "unat (AllocatedUser R') \<le> unat (MappedUser R)" using N n by (simp add: A' add_mult_distrib)
  then show "region_ok cfg c R'"
    using R A' by (auto simp: region_ok_def R' word_le_nat_alt)
qed

end
