(* ===== verification/Primary64_Ops.thy ===== *)
theory Primary64_Ops
  imports Primary64_Populate
begin

text \<open>The operations of the primary allocator and its caches keep the conservation invariant: first over
  any pusher of newly carved blocks, then for the batch class and, with it, for the other classes.\<close>

section \<open>Popping with a pusher\<close>

text \<open>What putting blocks into the free list of a class promises: they move from elsewhere to the free
  list, and nothing but the batch class and the class itself changes.\<close>

definition pushed_ok :: "pri_config \<Rightarrow> nat \<Rightarrow> pstate \<Rightarrow> (nat \<Rightarrow> uptr multiset) \<Rightarrow> (nat \<Rightarrow> uptr multiset) \<Rightarrow> pstate \<Rightarrow> bool" where
  "pushed_ok cfg c S X Y S' \<longleftrightarrow> pinv cfg S' X Y \<and> keeps c S S' \<and> same_geo (Regions (fst S) c) (Regions (fst S') c) \<and>
    Exhausted (Regions (fst S') c) = Exhausted (Regions (fst S) c) \<and> (c = 0 \<longrightarrow> PerClassArray (snd S') = PerClassArray (snd S))"

text \<open>What a pop promises: the blocks of the result leave the allocator.\<close>

definition pop_result :: "pri_config \<Rightarrow> nat \<Rightarrow> pstate \<Rightarrow> (nat \<Rightarrow> uptr multiset) \<Rightarrow> (nat \<Rightarrow> uptr multiset) \<Rightarrow> uptr list \<Rightarrow> pstate \<Rightarrow> bool" where
  "pop_result cfg c S X Y A S' \<longleftrightarrow> pinv cfg S' (X(c := X c + mset A)) Y \<and> keeps c S S' \<and>
    (c = 0 \<longrightarrow> PerClassArray (snd S') = PerClassArray (snd S))"

locale block_pusher =
  fixes cfg :: pri_config and c :: nat and push :: "uptr list \<Rightarrow> pstate \<Rightarrow> pstate result"
  assumes push_law: "\<lbrakk> c < pcNumClasses cfg; pinv cfg S X Y; A \<noteq> []; \<forall>a\<in>set A. valid_ptr cfg a; X c = X' c + mset A; \<And>d. d \<noteq> c \<Longrightarrow> X' d = X d;
      push A S = Inr S' \<rbrakk> \<Longrightarrow> pushed_ok cfg c S X' Y S'"
begin

lemma populate_pushes:
  assumes r: "populateFreeListAndPopBlocks cfg env push c m (P, C) = Inr (A, S')" and res: "populate_reserve cfg env c P = Some P"
    and m: "populate_map cfg env c (P, C) = (b, (P1, C1))" and b and N: "N = populate_count cfg c (Regions P1 c)"
  shows "\<exists>P2 C2. push (new_blocks cfg c (Regions P1 c) (unat N)) (P1, C1) = Inr (P2, C2) \<and>
    (case popBlocksImpl cfg c m (P2, C2) of (A, (P, C)) \<Rightarrow>
        (A, (upd_region c (\<lambda>R. R\<lparr>PushedBlocks := PushedBlocks R - ucast N,
          AllocatedUser := AllocatedUser R + pri_getSizeByClassId cfg c * ucast N\<rparr>) P,
             C\<lparr>cStats := stat_add StatFree (pri_getSizeByClassId cfg c * ucast N) (cStats C)\<rparr>))) = (A, S')"
proof -
  obtain S2 where p: "push (new_blocks cfg c (Regions P1 c) (unat N)) (P1, C1) = Inr S2"
    using r \<open>b\<close> by (cases "push (new_blocks cfg c (Regions P1 c) (unat N)) (P1, C1)")
      (simp_all add: populateFreeListAndPopBlocks_def res m Let_def N)
  obtain P2 C2 where S2: "S2 = (P2, C2)" by (rule prod.exhaust)
  show ?thesis
    using r \<open>b\<close> p by (intro exI [of _ P2] exI [of _ C2])
      (simp add: populateFreeListAndPopBlocks_def res m Let_def S2 flip: N split: prod.splits)
qed

lemma populate_inv:
  assumes c: "c < pcNumClasses cfg" and inv: "pinv cfg S X Y" and r: "populateFreeListAndPopBlocks cfg env push c m S = Inr (A, S')"
  shows "pop_result cfg c S X Y A S'"
proof -
  obtain P C where S: "S = (P, C)" by fastforce
  let ?z = "pri_getSizeByClassId cfg c"
  have ok: "cfg_ok cfg" using inv by (simp add: pinv_def)
  have res: "populate_reserve cfg env c P = Some P" using ok by (simp add: populate_reserve_def cfg_ok_def)
  obtain b P1 C1 where m: "populate_map cfg env c (P, C) = (b, (P1, C1))" by (metis prod.exhaust)
  note i1 = populate_map_inv [OF inv [unfolded S] c m]
  show ?thesis
  proof (cases b)
    case False
    then have "A = []" "S' = (P1, C1)" using r by (simp_all add: S populateFreeListAndPopBlocks_def res m)
    then show ?thesis using i1 by (simp add: pop_result_def S)
  next
    case True
    let ?R = "Regions P1 c"
    define N where "N = populate_count cfg c ?R"
    let ?new = "new_blocks cfg c ?R (unat N)"
    obtain P2 C2 where p: "push ?new (P1, C1) = Inr (P2, C2)"
      and r2: "(case popBlocksImpl cfg c m (P2, C2) of (A, (P, C)) \<Rightarrow>
        (A, (upd_region c (\<lambda>R. R\<lparr>PushedBlocks := PushedBlocks R - ucast N, AllocatedUser := AllocatedUser R + ?z * ucast N\<rparr>) P,
             C\<lparr>cStats := stat_add StatFree (?z * ucast N) (cStats C)\<rparr>))) = (A, S')"
      using populate_pushes [OF r [unfolded S] res m True N_def] by blast
    have i: "pinv cfg (P1, C1) X Y" "keeps c (P, C) (P1, C1)" "PerClassArray C1 = PerClassArray C" using i1 by simp_all
    have R: "region_ok cfg c ?R" using i(1) c by (simp add: pinv_def)
    have fit: "AllocatedUser ?R + ucast (lc_getMaxCached cfg ?z) * ?z \<le> MappedUser ?R" using i1 True by simp
    note n = populate_count_bounds [OF ok c R fit, folded N_def]
    let ?grown = "\<lambda>q. ?R\<lparr>PushedBlocks := q, AllocatedUser := AllocatedUser ?R + ?z * ucast N\<rparr>"
    note g = carved_grow [OF ok c R n(2) refl]
    have v: "\<forall>a\<in>set ?new. valid_ptr cfg a"
      using carved_valid [OF ok c g(2)] by (simp add: g(1))
    have ne: "?new \<noteq> []" using n(1) by (simp add: new_blocks_def)
    let ?X = "X(c := X c + mset ?new)" and ?Y = "Y(c := Y c + mset ?new)"
    have "pinv cfg (P1, C1) ?X ?Y" using i(1) v by (auto simp: pinv_def ac_simps)
    from push_law [OF c this ne v _ _ p, of X] have p2: "pushed_ok cfg c (P1, C1) X ?Y (P2, C2)" by simp
    obtain A' P3 C3 where pop: "popBlocksImpl cfg c m (P2, C2) = (A', (P3, C3))" by (metis prod.exhaust)
    have "pinv cfg (P2, C2) X ?Y" using p2 by (simp add: pushed_ok_def)
    note p3 = popBlocksImpl_inv [OF this c pop]
    let ?up = "\<lambda>R. R\<lparr>PushedBlocks := PushedBlocks R - ucast N, AllocatedUser := AllocatedUser R + ?z * ucast N\<rparr>"
    have e: "A = A'" "S' = (upd_region c ?up P3, C3\<lparr>cStats := stat_add StatFree (?z * ucast N) (cStats C3)\<rparr>)"
      using r2 pop by simp_all
    have "same_geo ?R (Regions P2 c)" "same_geo (Regions P2 c) (Regions P3 c)"
      using p2 p3 by (simp_all add: pushed_ok_def popped_ok_def)
    then have geo: "same_geo ?R (Regions P3 c)" by (rule same_geo_trans)
    have ca: "carved cfg c (?up (Regions P3 c)) = carved cfg c (Regions P3 c) @ ?new" "region_ok cfg c (?up (Regions P3 c))"
    proof -
      have R3: "region_ok cfg c (Regions P3 c)" using same_geo_carved [OF geo] R by simp
      have nb: "new_blocks cfg c (Regions P3 c) = new_blocks cfg c ?R" using geo by (intro ext) (simp add: same_geo_def new_blocks_def)
      have "unat (AllocatedUser (Regions P3 c)) + unat N * unat ?z \<le> unat (MappedUser (Regions P3 c))"
        using n(2) geo by (simp add: same_geo_def)
      from carved_grow [OF ok c R3 this refl] show "carved cfg c (?up (Regions P3 c)) = carved cfg c (Regions P3 c) @ ?new"
        "region_ok cfg c (?up (Regions P3 c))" by (simp_all add: nb)
    qed
    have "pinv cfg S' (X(c := X c + mset A)) Y"
      unfolding pinv_def
    proof (intro conjI allI impI)
      show "cfg_ok cfg" by (rule ok)
      fix d assume d: "d < pcNumClasses cfg"
      have p3i: "pinv cfg (P3, C3) (X(c := X c + mset A)) ?Y" using p3 by (simp add: popped_ok_def e(1))
      note j = p3i [unfolded pinv_def, THEN conjunct2, rule_format, OF d]
      have me: "metas cfg (upd_region c ?up P3) = metas cfg P3"
        unfolding metas_def by (intro sum.cong) auto
      have bl: "blocks_of cfg d S' = blocks_of cfg d (P3, C3)" using me by (simp add: blocks_of_def free_of_def e(2))
      show "region_ok cfg d (Regions (fst S') d)" using j ca(2) by (cases "d = c") (simp_all add: e(2))
      show "2 \<le> unat (MaxCount (PerClassArray (snd S') d))" using j by (simp add: e(2))
      show "\<forall>a\<in>#Y d. valid_ptr cfg a" using j by (cases "d = c") simp_all
      show "blocks_of cfg d S' + (X(c := X c + mset A)) d = mset (carved cfg d (Regions (fst S') d)) + Y d"
        unfolding bl using j ca(1) by (cases "d = c") (simp_all add: e(2) ac_simps)
      assume "d \<noteq> 0"
      then show "\<forall>BG\<in>set (BlockList (Regions (fst S') d)). Batches BG \<noteq> []" using j by (simp add: e(2))
    qed
    moreover have "keeps c (P, C) S'"
    proof -
      have "keeps c (P1, C1) (P2, C2)" "keeps c (P2, C2) (P3, C3)" using p2 p3 by (simp_all add: pushed_ok_def popped_ok_def)
      then have "keeps c (P, C) (P3, C3)" using i(2) keeps_trans by blast
      then show ?thesis by (simp add: e(2) keeps_def)
    qed
    moreover have "c = 0 \<longrightarrow> PerClassArray (snd S') = PerClassArray C"
      using i(3) p2 p3 by (simp add: pushed_ok_def popped_ok_def e(2))
    ultimately show ?thesis by (simp add: pop_result_def S)
  qed
qed

lemma popBlocks_with_inv:
  assumes c: "c < pcNumClasses cfg" and inv: "pinv cfg S X Y" and r: "popBlocks_with cfg env push c m S = Inr (A, S')"
  shows "pop_result cfg c S X Y A S'"
proof -
  obtain A1 S1 where p1: "popBlocksImpl cfg c m S = (A1, S1)" by (rule prod.exhaust)
  note o1 = popBlocksImpl_inv [OF inv c p1]
  have r1: "pop_result cfg c S X Y A1 S1" using o1 by (simp add: popped_ok_def pop_result_def)
  show ?thesis
  proof (cases "A1 = []")
    case False
    then show ?thesis using r r1 p1 by (simp add: popBlocks_with_def)
  next
    case A1: True
    then have i1: "pinv cfg S1 X Y" "keeps c S S1" "c = 0 \<longrightarrow> PerClassArray (snd S1) = PerClassArray (snd S)"
      using r1 by (simp_all add: pop_result_def fun_upd_idem)
    have chain: "pop_result cfg c S X Y A T" if "pop_result cfg c S1 X Y A T" for A T
      using that i1 keeps_trans [OF i1(2)] by (auto simp: pop_result_def)
    obtain A2 S2 where p2: "popBlocksImpl cfg c m S1 = (A2, S2)" by (rule prod.exhaust)
    have r2: "pop_result cfg c S X Y A2 S2" using popBlocksImpl_inv [OF i1(1) c p2] by (intro chain) (simp add: popped_ok_def pop_result_def)
    show ?thesis
    proof (cases "A2 = []")
      case False
      then show ?thesis using r r2 p1 p2 A1 by (simp add: popBlocks_with_def)
    next
      case A2: True
      then have i2: "pinv cfg S2 X Y" "keeps c S S2" "c = 0 \<longrightarrow> PerClassArray (snd S2) = PerClassArray (snd S)"
        using r2 by (simp_all add: pop_result_def fun_upd_idem)
      consider "A = []" "S' = S2" | "populateFreeListAndPopBlocks cfg env push c m S2 = Inr (A, S')"
        using r p1 p2 A1 A2 by (auto simp: popBlocks_with_def Let_def split: if_splits prod.splits)
      then show ?thesis
      proof cases
        case 1
        then show ?thesis using r2 A2 by simp
      next
        case 2
        from populate_inv [OF c i2(1) 2] show ?thesis
          using i2 keeps_trans [OF i2(2)] by (auto simp: pop_result_def)
      qed
    qed
  qed
qed

text \<open>allocate of the local cache over such a pop.\<close>

lemma lc_allocate_with_inv:
  assumes c: "c < pcNumClasses cfg" and inv: "pinv cfg S X Y"
    and r: "lc_allocate_with cfg (popBlocks_with cfg env push c) c S = Inr (q, S')"
  shows "(case q of None \<Rightarrow> pinv cfg S' X Y
      | Some Ptr \<Rightarrow> \<exists>p. valid_ptr cfg p \<and> Ptr = decompactPtr cfg c (fst S') p \<and> pinv cfg S' (X(c := add_mset p (X c))) Y)"
    and "c = 0 \<Longrightarrow> keeps 0 S S'" and "keeps c S S' \<or> c \<noteq> 0"
    and "\<forall>d. RegionBeg (Regions (fst S') d) = RegionBeg (Regions (fst S) d) \<and> rMemMap (Regions (fst S') d) = rMemMap (Regions (fst S) d)"
proof -
  obtain ok P1 C1 where t: "(if Chunks (PerClassArray (snd S) c) = [] then
             bindR (popBlocks_with cfg env push c (MaxCount (PerClassArray (snd S) c) div 2) S) (\<lambda>(A, (P, C)).
               Inr (A \<noteq> [], (P, upd_class c (\<lambda>pc. pc\<lparr>Chunks := A\<rparr>) C)))
           else Inr (True, S)) = Inr (ok, (P1, C1))"
    and q: "(if \<not> ok then (None, (P1, C1))
      else (Some (decompactPtr cfg c P1 (last (Chunks (PerClassArray C1 c)))),
          (P1, (upd_class c (\<lambda>pc. pc\<lparr>Chunks := butlast (Chunks pc)\<rparr>) C1)
             \<lparr>cStats := stat_sub StatFree (ClassSize (PerClassArray C1 c)) (stat_add StatAllocated (ClassSize (PerClassArray C1 c)) (cStats C1))\<rparr>))) = (q, S')"
    using r by (auto simp: lc_allocate_with_def Let_def split: if_splits prod.splits)
  have s: "pinv cfg (P1, C1) X Y \<and> (c = 0 \<longrightarrow> keeps 0 S (P1, C1)) \<and> (ok \<longrightarrow> Chunks (PerClassArray C1 c) \<noteq> []) \<and>
    (\<forall>d. RegionBeg (Regions P1 d) = RegionBeg (Regions (fst S) d) \<and> rMemMap (Regions P1 d) = rMemMap (Regions (fst S) d))"
  proof (cases "Chunks (PerClassArray (snd S) c) = []")
    case False
    then show ?thesis using t inv by auto
  next
    case True
    then obtain A P2 C2 where p: "popBlocks_with cfg env push c (MaxCount (PerClassArray (snd S) c) div 2) S = Inr (A, (P2, C2))"
      "ok = (A \<noteq> [])" "P1 = P2" "C1 = upd_class c (\<lambda>pc. pc\<lparr>Chunks := A\<rparr>) C2"
      using t by (auto split: prod.splits)
    note o = popBlocks_with_inv [OF c inv p(1)]
    have "PerClassArray C2 c = PerClassArray (snd S) c"
      using o by (cases "c = 0") (simp_all add: pop_result_def keeps_def)
    then have e: "Chunks (PerClassArray C2 c) = []" using True by simp
    have i: "pinv cfg (P2, C2) (X(c := X c + mset A)) Y" using o by (simp add: pop_result_def)
    have "pinv cfg (P1, C1) X Y"
    proof (rule pinv_step [OF i])
      fix d
      show "blocks_of cfg d (P1, C1) + X d = blocks_of cfg d (P2, C2) + (X(c := X c + mset A)) d"
        using e by (cases "d = c") (simp_all add: blocks_of_def p(3,4) ac_simps)
    qed (simp_all add: p(3,4))
    then show ?thesis using o p(2-4) by (auto simp: pop_result_def keeps_def)
  qed
  show "(case q of None \<Rightarrow> pinv cfg S' X Y
      | Some Ptr \<Rightarrow> \<exists>p. valid_ptr cfg p \<and> Ptr = decompactPtr cfg c (fst S') p \<and> pinv cfg S' (X(c := add_mset p (X c))) Y)"
  proof (cases ok)
    case False
    then show ?thesis using q s by auto
  next
    case True
    let ?p = "last (Chunks (PerClassArray C1 c))"
    have ne: "Chunks (PerClassArray C1 c) \<noteq> []" using s True by simp
    then have sp: "mset (Chunks (PerClassArray C1 c)) = add_mset ?p (mset (butlast (Chunks (PerClassArray C1 c))))"
      by (metis append_butlast_last_id mset_append mset.simps union_mset_add_mset_right add.right_neutral)
    have i: "pinv cfg (P1, C1) X Y" using s by simp
    have "?p \<in># blocks_of cfg c (P1, C1) + X c" using ne by (simp add: blocks_of_def)
    then have v: "valid_ptr cfg ?p" by (rule pinv_valid [OF i c])
    have e: "q = Some (decompactPtr cfg c P1 ?p)" "fst S' = P1"
      "snd S' = (upd_class c (\<lambda>pc. pc\<lparr>Chunks := butlast (Chunks pc)\<rparr>) C1)
             \<lparr>cStats := stat_sub StatFree (ClassSize (PerClassArray C1 c)) (stat_add StatAllocated (ClassSize (PerClassArray C1 c)) (cStats C1))\<rparr>"
      using q True by auto
    have "pinv cfg S' (X(c := add_mset ?p (X c))) Y"
    proof (rule pinv_step [OF i])
      fix d
      show "blocks_of cfg d S' + (X(c := add_mset ?p (X c))) d = blocks_of cfg d (P1, C1) + X d"
        using sp by (cases "d = c") (simp_all add: blocks_of_def e ac_simps)
    qed (simp_all add: e)
    then show ?thesis using v e by auto
  qed
  have k: "Regions (fst S') = Regions P1" "\<forall>d. d \<noteq> c \<longrightarrow> PerClassArray (snd S') d = PerClassArray C1 d"
    "\<forall>d. MaxCount (PerClassArray (snd S') d) = MaxCount (PerClassArray C1 d)"
    using q by (auto split: if_splits)
  show k0: "keeps 0 S S'" if "c = 0"
    using s k that by (simp add: keeps_def)
  then show "keeps c S S' \<or> c \<noteq> 0" by auto
  show "\<forall>d. RegionBeg (Regions (fst S') d) = RegionBeg (Regions (fst S) d) \<and> rMemMap (Regions (fst S') d) = rMemMap (Regions (fst S) d)"
    using s k(1) by simp
qed

end

end
