(* ===== verification/Primary64_Push.thy ===== *)
theory Primary64_Push
  imports Primary64_Ops
begin

text \<open>Pushing blocks keeps the conservation invariant. The batch class is a block_pusher, which gives the
  blocks that hold new groups and batches; with them the other classes are block_pushers as well, and
  the operations of the cache follow.\<close>

section \<open>Blocks of the batch class\<close>

interpretation batch_pusher: block_pusher cfg 0 "push_batch_class cfg" for cfg
proof (unfold_locales, goal_cases)
  case (1 S X Y A X' S')
  obtain P C where S: "S = (P, C)" by (rule prod.exhaust)
  have e: "S' = (upd_region 0 (pushBatchClassBlocks cfg A) P, C)" using 1(7) by (simp add: S push_batch_class_def)
  note i = push_batch_class_inv [OF 1(2) [unfolded S] 1(3-6)]
  have "Exhausted (pushBatchClassBlocks cfg A (Regions P 0)) = Exhausted (Regions P 0)"
    by (simp add: pushBatchClassBlocks_def Let_def split: list.split)
  then show ?case
    using i pushBatchClassBlocks_free(2) [OF 1(3,4)] by (simp add: pushed_ok_def e S)
qed

text \<open>M: the blocks of the batch class that an operation has taken so far, and that are not in the free
  list of its class yet.\<close>

definition held :: "pri_config \<Rightarrow> pstate \<Rightarrow> (nat \<Rightarrow> uptr multiset) \<Rightarrow> (nat \<Rightarrow> uptr multiset) \<Rightarrow> uptr multiset \<Rightarrow> pstate \<Rightarrow> bool" where
  "held cfg S0 X Y M S \<longleftrightarrow> pinv cfg S (X(0 := X 0 + M)) Y \<and> keeps 0 S0 S"

abbreviation batch_base :: "pstate \<Rightarrow> uptr" where
  "batch_base S \<equiv> RegionBeg (Regions (fst S) 0)"

lemma getBatchClassBlock_held:
  assumes h: "held cfg S0 X Y M S" and r: "getBatchClassBlock cfg env S = Inr (B, S')"
  shows "held cfg S0 X Y (add_mset (compactPtrInternal cfg (batch_base S0) B) M) S'"
proof -
  have inv: "pinv cfg S (X(0 := X 0 + M)) Y" and k: "keeps 0 S0 S" using h by (simp_all add: held_def)
  have c: "0 < pcNumClasses cfg" using pinv_classes [OF inv] by simp
  have a: "lc_allocate_with cfg (popBlocks_with cfg env (push_batch_class cfg) 0) 0 S = Inr (Some B, S')"
    using r by (auto simp: getBatchClassBlock_def split: option.splits)
  note l = batch_pusher.lc_allocate_with_inv [OF c inv a]
  obtain p where p: "valid_ptr cfg p" "B = decompactPtr cfg 0 (fst S') p" "pinv cfg S' ((X(0 := X 0 + M))(0 := add_mset p (X 0 + M))) Y"
    using l(1) by auto
  have k': "keeps 0 S0 S'" using keeps_trans [OF k] l(2) by simp
  then have "compactPtrInternal cfg (batch_base S0) B = p"
    using compact_decompact [OF p(1)] p(2) by (simp add: keeps_def decompactPtr_def getCompactPtrBaseByClassId_def)
  then show ?thesis using p(3) k' by (simp add: held_def)
qed

lemma CreateGroup_held:
  assumes h: "held cfg S0 X Y M S" and r: "CreateGroup cfg env g S = Inr (BG, S')"
  shows "held cfg S0 X Y (M + list_meta cfg (batch_base S0) [BG]) S'" and "list_free [BG] = {#}" and "Batches BG \<noteq> []"
proof -
  obtain bg tb S1 where g: "getBatchClassBlock cfg env S = Inr (bg, S1)" "getBatchClassBlock cfg env S1 = Inr (tb, S')"
    and BG: "BG = \<lparr> bgAddr = bg, CompactPtrGroupBase = g, BytesInBGAtLastCheckpoint = 0,
             Batches = [\<lparr> tbAddr = tb, Batch = [] \<rparr>], MaxCachedPerBatch = pcMaxNumCachedHint cfg \<rparr>"
    using r by (auto simp: CreateGroup_def)
  show "held cfg S0 X Y (M + list_meta cfg (batch_base S0) [BG]) S'"
    using getBatchClassBlock_held [OF getBatchClassBlock_held [OF h g(1)] g(2)] by (simp add: BG add_mset_commute)
  show "list_free [BG] = {#}" "Batches BG \<noteq> []" by (simp_all add: BG)
qed

lemma InsertBlocks_held:
  assumes "held cfg S0 X Y M S" and "InsertBlocks cfg env Mx Bs as S = Inr (Bs', S')" and "Bs \<noteq> []"
  shows "\<exists>D. held cfg S0 X Y (M + D) S' \<and> batches_meta cfg (batch_base S0) Bs' = batches_meta cfg (batch_base S0) Bs + D \<and>
    batches_free Bs' = batches_free Bs + mset as \<and> Bs' \<noteq> []"
  using assms
proof (induction cfg env Mx Bs as S arbitrary: M rule: InsertBlocks.induct)
  case (1 cfg env Mx Bs S)
  then show ?case by (intro exI [of _ "{#}"]) simp
next
  case (2 cfg env Mx a as S)
  then show ?case by simp
next
  case (3 cfg env Mx B Bs a as S)
  show ?case
  proof (cases "unused_slots Mx B = 0")
    case True
    then obtain tb S1 where g: "getBatchClassBlock cfg env S = Inr (tb, S1)"
      and r: "InsertBlocks cfg env Mx (\<lparr> tbAddr = tb, Batch = [a] \<rparr> # B # Bs) as S1 = Inr (Bs', S')"
      using 3(4) by auto
    from 3(1) [OF True getBatchClassBlock_held [OF 3(3) g] r]
    obtain D where D: "held cfg S0 X Y (add_mset (compactPtrInternal cfg (batch_base S0) tb) M + D) S'"
      "batches_meta cfg (batch_base S0) Bs' = batches_meta cfg (batch_base S0) (\<lparr> tbAddr = tb, Batch = [a] \<rparr> # B # Bs) + D"
      "batches_free Bs' = batches_free (\<lparr> tbAddr = tb, Batch = [a] \<rparr> # B # Bs) + mset as" "Bs' \<noteq> []" by auto
    then show ?thesis
      by (intro exI [of _ "add_mset (compactPtrInternal cfg (batch_base S0) tb) D"]) simp
  next
    case False
    then have r: "InsertBlocks cfg env Mx (tb_add a B # Bs) as S = Inr (Bs', S')" using 3(4) by simp
    from 3(2) [OF False 3(3) r] show ?thesis by (simp add: tb_add_def)
  qed
qed

lemma insert_in_group_held:
  assumes "held cfg S0 X Y M S" and r: "insert_in_group cfg env BG as S = Inr (BG', S')" and "Batches BG \<noteq> []"
  shows "\<exists>D. held cfg S0 X Y (M + D) S' \<and> list_meta cfg (batch_base S0) [BG'] = list_meta cfg (batch_base S0) [BG] + D \<and>
    list_free [BG'] = list_free [BG] + mset as \<and> Batches BG' \<noteq> []"
proof -
  obtain Bs' where i: "InsertBlocks cfg env (MaxCachedPerBatch BG) (Batches BG) as S = Inr (Bs', S')" "BG' = BG\<lparr>Batches := Bs'\<rparr>"
    using r by (auto simp: insert_in_group_def)
  from InsertBlocks_held [OF assms(1) i(1) assms(3)] show ?thesis by (auto simp: i(2))
qed

section \<open>The free list in hand\<close>

text \<open>L, that started as L0, has taken the blocks A in, and the records of its new groups and batches
  come from the batch class.\<close>

definition in_hand :: "pri_config \<Rightarrow> pstate \<Rightarrow> (nat \<Rightarrow> uptr multiset) \<Rightarrow> (nat \<Rightarrow> uptr multiset) \<Rightarrow> BatchGroup list \<Rightarrow>
    uptr multiset \<Rightarrow> BatchGroup list \<Rightarrow> pstate \<Rightarrow> bool" where
  "in_hand cfg S0 X Y L0 A L S \<longleftrightarrow> (\<exists>M. held cfg S0 X Y M S \<and> list_meta cfg (batch_base S0) L = list_meta cfg (batch_base S0) L0 + M) \<and>
    list_free L = list_free L0 + A \<and> (\<forall>BG\<in>set L. Batches BG \<noteq> [])"

lemma in_hand_insert:
  assumes h: "in_hand cfg S0 X Y L0 A (pre @ BG # post) S" and r: "insert_in_group cfg env BG as S = Inr (BG', S')"
  shows "in_hand cfg S0 X Y L0 (A + mset as) (pre @ BG' # post) S'"
proof -
  let ?m = "list_meta cfg (batch_base S0)"
  obtain M where M: "held cfg S0 X Y M S" "?m (pre @ BG # post) = ?m L0 + M" using h by (auto simp: in_hand_def)
  have ne: "Batches BG \<noteq> []" using h by (simp add: in_hand_def)
  from insert_in_group_held [OF M(1) r ne] obtain D where D: "held cfg S0 X Y (M + D) S'" "?m [BG'] = ?m [BG] + D"
    "list_free [BG'] = list_free [BG] + mset as" "Batches BG' \<noteq> []" by auto
  have "?m (pre @ BG' # post) = ?m pre + ?m [BG'] + ?m post" by simp
  also have "\<dots> = ?m (pre @ BG # post) + D" unfolding D(2) by simp
  finally have "?m (pre @ BG' # post) = ?m L0 + (M + D)" using M(2) by simp
  moreover have "list_free (pre @ BG' # post) = list_free L0 + (A + mset as)"
  proof -
    have "list_free (pre @ BG' # post) = list_free pre + list_free [BG'] + list_free post" by simp
    also have "\<dots> = list_free (pre @ BG # post) + mset as" unfolding D(3) by simp
    finally show ?thesis using h by (simp add: in_hand_def)
  qed
  moreover have "\<forall>BG\<in>set (pre @ BG' # post). Batches BG \<noteq> []" using h D(4) by (auto simp: in_hand_def)
  ultimately show ?thesis using D(1) unfolding in_hand_def by blast
qed

lemma in_hand_group:
  assumes h: "in_hand cfg S0 X Y L0 A (pre @ post) S" and r: "ensure_group cfg env g post S = Inr (post', S')"
  shows "in_hand cfg S0 X Y L0 A (pre @ post') S'" and "post' \<noteq> []"
proof -
  let ?m = "list_meta cfg (batch_base S0)"
  consider (keep) "post' = post" "S' = S" "post \<noteq> []"
    | (create) BG where "CreateGroup cfg env g S = Inr (BG, S')" "post' = BG # post"
    using r by (auto simp: ensure_group_def split: list.splits if_splits)
  then have "in_hand cfg S0 X Y L0 A (pre @ post') S' \<and> post' \<noteq> []"
  proof cases
    case keep
    then show ?thesis using h by simp
  next
    case create
    obtain M where M: "held cfg S0 X Y M S" "?m (pre @ post) = ?m L0 + M" using h by (auto simp: in_hand_def)
    note c = CreateGroup_held [OF M(1) create(1)]
    have "?m (pre @ post') = ?m L0 + (M + ?m [BG])" using M(2) by (simp add: create(2))
    then have "\<exists>M. held cfg S0 X Y M S' \<and> ?m (pre @ post') = ?m L0 + M" using c(1) by blast
    moreover have "list_free (pre @ post') = list_free (pre @ post)" using c(2) by (simp add: create(2))
    ultimately show ?thesis using h c(3) by (auto simp: in_hand_def create(2))
  qed
  then show "in_hand cfg S0 X Y L0 A (pre @ post') S'" "post' \<noteq> []" by simp_all
qed

lemma seek_group_append: "seek_group g pre post = (pre', post') \<Longrightarrow> pre' @ post' = pre @ post"
  by (induction g pre post rule: seek_group.induct) (auto split: if_splits)

lemma push_segments_in_hand:
  "\<lbrakk> push_segments cfg env pre post seg as S = Inr (L, S'); in_hand cfg S0 X Y L0 A (pre @ post) S \<rbrakk> \<Longrightarrow>
    in_hand cfg S0 X Y L0 (A + mset seg + mset as) L S'"
proof (induction cfg env pre post seg as S arbitrary: A rule: push_segments.induct)
  case (1 cfg env pre seg as S)
  then show ?case by simp
next
  case (2 cfg env pre BG post seg S)
  then obtain BG' where "insert_in_group cfg env BG seg S = Inr (BG', S')" "L = pre @ BG' # post" by auto
  then show ?case using in_hand_insert [OF 2(2)] by simp
next
  case (3 cfg env pre BG post seg a as S)
  show ?case
  proof (cases "compactPtrGroup cfg (last seg) \<noteq> compactPtrGroup cfg a")
    case True
    then obtain BG' S1 where i: "insert_in_group cfg env BG seg S = Inr (BG', S1)"
      and r: "(case seek_group (compactPtrGroup cfg a) pre (BG' # post) of (pre, post) \<Rightarrow>
           if pre = [] then Inl (NullDereference ''Prev'')
           else bindR (ensure_group cfg env (compactPtrGroup cfg a) post S1) (\<lambda>(post, S).
             push_segments cfg env pre post [a] as S)) = Inr (L, S')"
      using 3(3) by auto
    obtain pre' post' where s: "seek_group (compactPtrGroup cfg a) pre (BG' # post) = (pre', post')" by (rule prod.exhaust)
    have pre': "pre' \<noteq> []" using r s by (auto split: if_splits)
    obtain post2 S2 where e: "ensure_group cfg env (compactPtrGroup cfg a) post' S1 = Inr (post2, S2)"
      and p: "push_segments cfg env pre' post2 [a] as S2 = Inr (L, S')"
      using r s pre' by auto
    have "in_hand cfg S0 X Y L0 (A + mset seg) (pre' @ post') S1"
      using in_hand_insert [OF 3(4) i] seek_group_append [OF s] by simp
    from in_hand_group(1) [OF this e] have h: "in_hand cfg S0 X Y L0 (A + mset seg) (pre' @ post2) S2" .
    from 3(1) [OF True s [symmetric] pre' p h] show ?thesis by simp
  next
    case False
    then have "push_segments cfg env pre (BG # post) (seg @ [a]) as S = Inr (L, S')" using 3(3) by simp
    from 3(2) [OF False this 3(4)] show ?thesis by simp
  qed
qed

lemma pushed_ok_same:
  assumes "held cfg S X Y M (P, C)" and "same_blocks T S" and "keeps 0 T S" and "\<And>d. Exhausted (Regions (fst S) d) = Exhausted (Regions (fst T) d)" and c: "c \<noteq> 0"
    and inv: "pinv cfg (set_blocks c L P, C) X' Y"
  shows "pushed_ok cfg c T X' Y (set_blocks c L P, C)"
proof -
  have k: "keeps 0 T (P, C)" using assms(1,3) keeps_trans by (auto simp: held_def)
  have R: "Regions P c = Regions (fst S) c" using assms(1) c by (simp add: held_def keeps_def)
  have "keeps c T (set_blocks c L P, C)" using keeps_trans [OF keeps_0 [OF k] set_blocks_keeps] .
  moreover have "same_geo (Regions (fst T) c) (Regions (set_blocks c L P) c)"
    using assms(2) R by (simp add: same_blocks_def same_geo_def set_blocks_def)
  ultimately show ?thesis using inv c R assms(4) by (simp add: pushed_ok_def set_blocks_def)
qed

lemma in_hand_set_blocks:
  assumes h: "in_hand cfg (P, C) X Y (BlockList (Regions P c)) A L (P1, C1)" and c: "c \<noteq> 0" "c < pcNumClasses cfg"
    and X: "X c = X' c + A" "\<And>d. d \<noteq> c \<Longrightarrow> X' d = X d"
  shows "pinv cfg (set_blocks c L P1, C1) X' Y"
proof -
  let ?b = "RegionBeg (Regions P 0)"
  obtain M where M: "held cfg (P, C) X Y M (P1, C1)" "list_meta cfg ?b L = list_meta cfg ?b (BlockList (Regions P c)) + M"
    using h by (auto simp: in_hand_def)
  have k: "RegionBeg (Regions P1 0) = ?b" "Regions P1 c = Regions P c" using M(1) c by (simp_all add: held_def keeps_def)
  have i: "pinv cfg (P1, C1) (X(0 := X 0 + M)) Y" using M(1) by (simp add: held_def)
  show ?thesis
    using h X c M(2) by (intro set_blocks_inv [OF i c]) (simp_all add: k in_hand_def)
qed

section \<open>pushBlocksImpl\<close>

lemma pushBlocksImpl_inv:
  assumes inv: "pinv cfg S X Y" and c: "c \<noteq> 0" "c < pcNumClasses cfg" and A: "A \<noteq> []"
    and X: "X c = X' c + mset A" "\<And>d. d \<noteq> c \<Longrightarrow> X' d = X d"
    and r: "pushBlocksImpl cfg env c A same S = Inr S'"
  shows "pushed_ok cfg c S X' Y S'"
proof -
  obtain P0 C where S: "S = (P0, C)" by (rule prod.exhaust)
  define P where "P = upd_region c (\<lambda>R. R\<lparr>PushedBlocks := PushedBlocks R + of_nat (List.length A)\<rparr>) P0"
  let ?g = "compactPtrGroup cfg (hd A)" and ?L0 = "BlockList (Regions P c)"
  obtain pre post where sk: "seek_group ?g [] ?L0 = (pre, post)" by (rule prod.exhaust)
  note r = r [unfolded S pushBlocksImpl_def prod.case, folded P_def, unfolded Let_def, folded P_def, unfolded sk prod.case]
  obtain post1 S1 where e: "ensure_group cfg env ?g post (P, C) = Inr (post1, S1)"
    and r1: "bindR (if same then bindR (insert_in_group cfg env (hd post1) A S1) (\<lambda>(BG, S). Inr (pre @ BG # tl post1, S))
              else push_segments cfg env pre post1 [hd A] (tl A) S1) (\<lambda>(L, (P, C)). Inr (set_blocks c L P, C)) = Inr S'"
    using r by auto
  obtain L P2 C2 where r2: "(if same then bindR (insert_in_group cfg env (hd post1) A S1) (\<lambda>(BG, S). Inr (pre @ BG # tl post1, S))
              else push_segments cfg env pre post1 [hd A] (tl A) S1) = Inr (L, (P2, C2))"
    and S': "S' = (set_blocks c L P2, C2)"
    using r1 by (auto simp del: if_split)
  have sb: "same_blocks S (P, C)" by (simp add: S P_def same_blocks_def same_geo_def)
  have inv1: "pinv cfg (P, C) X Y" by (rule same_blocks_inv [OF sb inv])
  have "in_hand cfg (P, C) X Y ?L0 {#} (pre @ post) (P, C)"
    unfolding seek_group_append [OF sk] in_hand_def
    using inv1 c by (auto simp: held_def pinv_def intro!: exI [of _ "{#}"])
  note h = in_hand_group [OF this e]
  have h1: "in_hand cfg (P, C) X Y ?L0 (mset A) L (P2, C2)"
  proof (cases same)
    case True
    then obtain BG' where i: "insert_in_group cfg env (hd post1) A S1 = Inr (BG', (P2, C2))" "L = pre @ BG' # tl post1"
      using r2 by auto
    have "pre @ post1 = pre @ hd post1 # tl post1" using h(2) by simp
    from in_hand_insert [OF h(1) [unfolded this] i(1)] show ?thesis by (simp add: i(2))
  next
    case False
    then have "push_segments cfg env pre post1 [hd A] (tl A) S1 = Inr (L, (P2, C2))" using r2 by simp
    from push_segments_in_hand [OF this h(1)] show ?thesis
      using A by (cases A) simp_all
  qed
  note f = in_hand_set_blocks [OF h1 c X(1) X(2)]
  obtain M where M: "held cfg (P, C) X Y M (P2, C2)" using h1 by (auto simp: in_hand_def)
  have k: "keeps 0 (P, C) (P2, C2)" using M by (simp add: held_def)
  have R: "Regions P2 c = Regions P c" using k c by (simp add: keeps_def)
  have kS: "keeps c S (P2, C2)" using k by (auto simp: S P_def keeps_def)
  show ?thesis
    using f keeps_trans [OF kS set_blocks_keeps] c R
    by (simp add: pushed_ok_def S' set_blocks_def same_geo_def) (simp add: S P_def)
qed

lemma sort_step_mset: "mset (sort_step cfg a xs) = add_mset a (mset xs)"
  by (induction cfg a xs rule: sort_step.induct) simp_all

lemma sort_loop_mset: "sort_loop cfg rv same as = (A, same') \<Longrightarrow> mset A = mset rv + mset as"
proof (induction cfg rv same as rule: sort_loop.induct)
  case (2 cfg rv same a as)
  from 2(2) show ?case using 2(1) by (simp add: sort_step_mset)
qed auto

lemma pushBlocks_inv:
  assumes inv: "pinv cfg S X Y" and c: "c < pcNumClasses cfg" and A: "A \<noteq> []" "\<forall>a\<in>set A. valid_ptr cfg a"
    and X: "X c = X' c + mset A" "\<And>d. d \<noteq> c \<Longrightarrow> X' d = X d" and r: "pushBlocks cfg env c A S = Inr S'"
  shows "pushed_ok cfg c S X' Y S'"
proof (cases "c = 0")
  case True
  then show ?thesis using batch_pusher.push_law [of cfg S X Y A X' S'] assms by (simp add: pushBlocks_def)
next
  case False
  obtain A' same where s: "(if GroupSizeLog cfg < RegionSizeLog cfg then sort_loop cfg [] True A else (A, True)) = (A', same)" by (rule prod.exhaust)
  have m: "mset A' = mset A" using s sort_loop_mset [of cfg "[]" True A A' same] by (auto split: if_splits)
  then have "A' \<noteq> []" using A by auto
  moreover have "pushBlocksImpl cfg env c A' same S = Inr S'" using r False s by (simp add: pushBlocks_def)
  ultimately show ?thesis using X m by (intro pushBlocksImpl_inv [OF inv False c]) simp_all
qed

section \<open>New blocks of a class\<close>

lemma pushed_ok_trans:
  assumes "pushed_ok cfg c S X1 Y S1" and "pushed_ok cfg c S1 X2 Y S2"
  shows "pushed_ok cfg c S X2 Y S2"
  using assms keeps_trans [of c S S1 S2] same_geo_trans [of "Regions (fst S) c" "Regions (fst S1) c" "Regions (fst S2) c"]
  by (simp add: pushed_ok_def)

lemma push_shuffled_inv:
  assumes inv: "pinv cfg (P, C) X Y" and c: "c \<noteq> 0" "c < pcNumClasses cfg" and seg: "seg \<noteq> []"
    and X: "X c = X' c + mset seg" "\<And>d. d \<noteq> c \<Longrightarrow> X' d = X d"
    and r: "(case shuffle seg (of_nat (List.length seg)) (RandState (Regions P c)) of (seg, r) \<Rightarrow>
           pushBlocksImpl cfg env c seg True (upd_region c (\<lambda>R. R\<lparr>RandState := r\<rparr>) P, C)) = Inr S'"
  shows "pushed_ok cfg c (P, C) X' Y S'"
proof -
  obtain seg' r' where s: "shuffle seg (of_nat (List.length seg)) (RandState (Regions P c)) = (seg', r')" by (rule prod.exhaust)
  have "unat (of_nat (List.length seg) :: u32) \<le> List.length seg" by (simp add: unat_of_nat)
  from shuffle_mset [OF this, of "RandState (Regions P c)"] have m: "mset seg' = mset seg" using s by simp
  then have ne: "seg' \<noteq> []" using seg by auto
  let ?T = "(upd_region c (\<lambda>R. R\<lparr>RandState := r'\<rparr>) P, C)"
  have sb: "same_blocks (P, C) ?T" by (simp add: same_blocks_def same_geo_def)
  have p: "pushBlocksImpl cfg env c seg' True ?T = Inr S'" using r s by simp
  have X1: "X c = X' c + mset seg'" using X(1) m by simp
  have o: "pushed_ok cfg c ?T X' Y S'" by (rule pushBlocksImpl_inv [OF same_blocks_inv [OF sb inv] c ne X1 X(2) p])
  have "keeps c (P, C) ?T" by (simp add: keeps_def)
  with o show ?thesis using keeps_trans [of c "(P, C)" ?T S'] by (simp add: pushed_ok_def same_geo_def c)
qed

lemma push_new_segments_inv:
  "\<lbrakk> push_new_segments cfg env c seg as S = Inr S'; pinv cfg S X Y; c \<noteq> 0; c < pcNumClasses cfg; seg \<noteq> [];
     X c = X' c + mset seg + mset as; \<And>d. d \<noteq> c \<Longrightarrow> X' d = X d \<rbrakk> \<Longrightarrow> pushed_ok cfg c S X' Y S'"
proof (induction as arbitrary: seg S X)
  case Nil
  obtain P C where S: "S = (P, C)" by (rule prod.exhaust)
  show ?case
    unfolding S by (rule push_shuffled_inv [OF Nil(2) [unfolded S] Nil(3-5), of X' env]) (use Nil in \<open>simp_all add: S\<close>)
next
  case (Cons a as)
  obtain P C where S: "S = (P, C)" by (rule prod.exhaust)
  show ?case
  proof (cases "compactPtrGroup cfg a \<noteq> compactPtrGroup cfg (last seg)")
    case True
    let ?X = "X'(c := X' c + mset [a] + mset as)"
    obtain S1 where p: "(case shuffle seg (of_nat (List.length seg)) (RandState (Regions P c)) of (seg, r) \<Rightarrow>
           pushBlocksImpl cfg env c seg True (upd_region c (\<lambda>R. R\<lparr>RandState := r\<rparr>) P, C)) = Inr S1"
      and q: "push_new_segments cfg env c [a] as S1 = Inr S'"
      using Cons(2) True unfolding S by (auto simp: Let_def)
    have o: "pushed_ok cfg c (P, C) ?X Y S1"
      by (rule push_shuffled_inv [OF Cons(3) [unfolded S] Cons(4-6) _ _ p]) (use Cons(7,8) in simp_all)
    have i: "pinv cfg S1 ?X Y" using o by (simp add: pushed_ok_def)
    have "pushed_ok cfg c S1 X' Y S'" by (rule Cons(1) [OF q i Cons(4,5)]) simp_all
    from pushed_ok_trans [OF o this] show ?thesis by (simp add: S)
  next
    case False
    then have "push_new_segments cfg env c (seg @ [a]) as S = Inr S'" using Cons(2) unfolding S by (simp add: Let_def)
    from Cons(1) [OF this Cons(3-5)] show ?thesis using Cons(7,8) by simp
  qed
qed

interpretation class_pusher: block_pusher cfg c "push_new_blocks cfg env c" for cfg env c
proof (unfold_locales, goal_cases)
  case (1 S X Y A X' S')
  show ?case
  proof (cases "c = 0")
    case True
    then show ?thesis using batch_pusher.push_law [of cfg S X Y A X' S'] 1 by (simp add: push_new_blocks_def)
  next
    case False
    have m: "mset [hd A] + mset (tl A) = mset A" using 1(3) by (cases A) simp_all
    then have X: "X c = X' c + mset [hd A] + mset (tl A)" using 1(5) by (simp only: add.assoc)
    have p: "push_new_segments cfg env c [hd A] (tl A) S = Inr S'" using 1(7) False by (simp add: push_new_blocks_def)
    show ?thesis by (rule push_new_segments_inv [OF p 1(2) False 1(1) _ X 1(6)]) simp_all
  qed
qed

end
