(* ===== verification/Primary64_Cache.thy ===== *)
theory Primary64_Cache
  imports Primary64_Push
begin

text \<open>The operations of a local cache over the primary allocator keep the conservation invariant: allocate,
  drain and deallocate of one class; and the loops that drain a whole cache.\<close>

section \<open>Allocation\<close>

lemma lc_allocate_inv:
  assumes c: "c < pcNumClasses cfg" and inv: "pinv cfg S X Y" and r: "lc_allocate cfg env c S = Inr (q, S')"
  shows "(case q of None \<Rightarrow> pinv cfg S' X Y
      | Some Ptr \<Rightarrow> \<exists>p. valid_ptr cfg p \<and> Ptr = decompactPtr cfg c (fst S') p \<and> pinv cfg S' (X(c := add_mset p (X c))) Y)"
    and "RegionBeg (Regions (fst S') d) = RegionBeg (Regions (fst S) d)" "rMemMap (Regions (fst S') d) = rMemMap (Regions (fst S) d)"
  using class_pusher.lc_allocate_with_inv [OF c inv r [unfolded lc_allocate_def popBlocks_def]] by simp_all

section \<open>Draining and deallocation\<close>

lemma pinv_count_more:
  assumes inv: "pinv cfg S X Y" and v: "\<forall>a\<in>set A. valid_ptr cfg a"
  shows "pinv cfg S (X(c := X c + mset A)) (Y(c := Y c + mset A))"
  using assms by (auto simp: pinv_def ac_simps)

lemma pinv_count_less:
  assumes inv: "pinv cfg S X (Y(c := Y c + M))" and geo: "\<And>d. Regions (fst S') d = Regions (fst S) d"
    and mx: "\<And>d. MaxCount (PerClassArray (snd S') d) = MaxCount (PerClassArray (snd S) d)"
    and eq: "blocks_of cfg c S' + M = blocks_of cfg c S" "\<And>d. d \<noteq> c \<Longrightarrow> blocks_of cfg d S' = blocks_of cfg d S"
  shows "pinv cfg S' X Y"
  unfolding pinv_def
proof (intro conjI allI impI)
  show "cfg_ok cfg" using inv by (simp add: pinv_def)
  fix d assume d: "d < pcNumClasses cfg"
  note o = inv [unfolded pinv_def, THEN conjunct2, rule_format, OF d]
  show "region_ok cfg d (Regions (fst S') d)" "2 \<le> unat (MaxCount (PerClassArray (snd S') d))"
    using o geo mx by simp_all
  show "\<forall>a\<in>#Y d. valid_ptr cfg a" using o by (cases "d = c") auto
  show "\<forall>BG\<in>set (BlockList (Regions (fst S') d)). Batches BG \<noteq> []" if "d \<noteq> 0" using o geo that by simp
  show "blocks_of cfg d S' + X d = mset (carved cfg d (Regions (fst S') d)) + Y d"
  proof (cases "d = c")
    case True
    have "blocks_of cfg c S' + X c + M = mset (carved cfg c (Regions (fst S) c)) + Y c + M"
      using o eq(1) True by (simp add: ac_simps flip: eq(1))
    then show ?thesis using True geo by simp
  next
    case False
    then show ?thesis using o eq(2) geo by simp
  qed
qed

lemma blocks_of_chunks:
  "blocks_of cfg d (P, upd_class c (\<lambda>pc. pc\<lparr>Chunks := f (Chunks pc)\<rparr>) C) =
    (if d = c then free_of cfg c P + mset (f (Chunks (PerClassArray C c))) else blocks_of cfg d (P, C))"
  by (simp add: blocks_of_def)

lemma lc_drain_class_inv:
  assumes inv: "pinv cfg S X Y" and c: "c < pcNumClasses cfg" and ne: "0 < lc_drain_count (PerClassArray (snd S) c)"
    and le: "lc_drain_count (PerClassArray (snd S) c) \<le> List.length (Chunks (PerClassArray (snd S) c))"
    and r: "lc_drain_class cfg env c S = Inr S'"
  shows "pinv cfg S' X Y"
    and "Chunks (PerClassArray (snd S') c) = drop (lc_drain_count (PerClassArray (snd S) c)) (Chunks (PerClassArray (snd S) c))"
    and "\<forall>d. d \<noteq> 0 \<longrightarrow> d \<noteq> c \<longrightarrow> PerClassArray (snd S') d = PerClassArray (snd S) d"
    and "\<forall>d. MaxCount (PerClassArray (snd S') d) = MaxCount (PerClassArray (snd S) d)"
    and "\<forall>d. RegionBeg (Regions (fst S') d) = RegionBeg (Regions (fst S) d) \<and> rMemMap (Regions (fst S') d) = rMemMap (Regions (fst S) d)"
proof -
  let ?pc = "PerClassArray (snd S) c"
  define n where "n = lc_drain_count ?pc"
  let ?A = "take n (Chunks ?pc)"
  obtain P1 C1 where p: "pushBlocks cfg env c ?A S = Inr (P1, C1)"
    and S': "S' = (P1, upd_class c (\<lambda>pc. pc\<lparr>Chunks := drop n (Chunks pc)\<rparr>) C1)"
    using r by (auto simp: lc_drain_class_def n_def Let_def)
  have A: "?A \<noteq> []" using ne le by (auto simp: n_def)
  have v: "\<forall>a\<in>set ?A. valid_ptr cfg a"
  proof
    fix a assume "a \<in> set ?A"
    then have "a \<in># blocks_of cfg c S + X c" by (auto simp: blocks_of_def dest: in_set_takeD)
    then show "valid_ptr cfg a" by (rule pinv_valid [OF inv c])
  qed
  note m = pinv_count_more [OF inv v, of c]
  have o: "pushed_ok cfg c S X (Y(c := Y c + mset ?A)) (P1, C1)"
    by (rule pushBlocks_inv [OF m c A v _ _ p]) simp_all
  then have k: "keeps c S (P1, C1)" and i: "pinv cfg (P1, C1) X (Y(c := Y c + mset ?A))" by (simp_all add: pushed_ok_def)
  have pc: "PerClassArray C1 c = ?pc" using o by (cases "c = 0") (simp_all add: pushed_ok_def keeps_def)
  have s: "mset ?A + mset (drop n (Chunks ?pc)) = mset (Chunks ?pc)"
    by (metis append_take_drop_id mset_append)
  show "pinv cfg S' X Y"
    unfolding S'
  proof (rule pinv_count_less [OF i])
    show "blocks_of cfg c (P1, upd_class c (\<lambda>pc. pc\<lparr>Chunks := drop n (Chunks pc)\<rparr>) C1) + mset ?A = blocks_of cfg c (P1, C1)"
      using s by (simp add: blocks_of_chunks pc) (simp add: blocks_of_def pc ac_simps)
  qed (simp_all add: blocks_of_chunks)
  show "Chunks (PerClassArray (snd S') c) = drop n (Chunks ?pc)" by (simp add: S' pc)
  show "\<forall>d. d \<noteq> 0 \<longrightarrow> d \<noteq> c \<longrightarrow> PerClassArray (snd S') d = PerClassArray (snd S) d"
    "\<forall>d. MaxCount (PerClassArray (snd S') d) = MaxCount (PerClassArray (snd S) d)"
    "\<forall>d. RegionBeg (Regions (fst S') d) = RegionBeg (Regions (fst S) d) \<and> rMemMap (Regions (fst S') d) = rMemMap (Regions (fst S) d)"
    using k by (simp_all add: S' keeps_def)
qed

lemma lc_deallocate_inv:
  assumes inv: "pinv cfg S X Y" and r: "lc_deallocate cfg env c Ptr S = Inr (b, S')"
    and X: "X c = add_mset (compactPtr cfg c (fst S) Ptr) (X' c)" "\<And>d. d \<noteq> c \<Longrightarrow> X' d = X d"
  shows "pinv cfg S' X' Y"
    and "\<forall>d. RegionBeg (Regions (fst S') d) = RegionBeg (Regions (fst S) d) \<and> rMemMap (Regions (fst S') d) = rMemMap (Regions (fst S) d)"
proof -
  let ?pc = "PerClassArray (snd S) c"
  have c: "c < pcNumClasses cfg" using r by (auto simp: lc_deallocate_def)
  obtain P1 C1 where d: "(if lc_full ?pc then lc_drain_class cfg env c S else Inr S) = Inr (P1, C1)"
    and S': "S' = lc_put cfg c Ptr (P1, C1)"
    using r by (auto simp: lc_deallocate_def Let_def simp del: if_split)
  have k: "pinv cfg (P1, C1) X Y \<and>
    (\<forall>d. RegionBeg (Regions P1 d) = RegionBeg (Regions (fst S) d) \<and> rMemMap (Regions P1 d) = rMemMap (Regions (fst S) d))"
  proof (cases "lc_full ?pc")
    case True
    have "2 \<le> unat (MaxCount ?pc)" using inv c by (simp add: pinv_def)
    note n = drain_count [OF this True]
    have "lc_drain_class cfg env c S = Inr (P1, C1)" using d True by simp
    from lc_drain_class_inv(1,5) [OF inv c n this] show ?thesis by simp
  next
    case False
    then have "S = (P1, C1)" using d by simp
    then show ?thesis using inv by simp
  qed
  then have X1: "X c = add_mset (compactPtr cfg c P1 Ptr) (X' c)"
    using X(1) by (simp add: compactPtr_def getCompactPtrBaseByClassId_def)
  have i: "pinv cfg (P1, C1) X Y" using k by simp
  show "pinv cfg S' X' Y" unfolding S' by (rule lc_put_inv(1) [of cfg P1 C1 X Y c Ptr X', OF i X1 X(2)])
  show "\<forall>d. RegionBeg (Regions (fst S') d) = RegionBeg (Regions (fst S) d) \<and> rMemMap (Regions (fst S') d) = rMemMap (Regions (fst S) d)"
    using k by (simp add: S' lc_put_def)
qed

section \<open>Draining a whole cache\<close>

text \<open>The loop over one class; None when n rounds were not enough, which is never the case for n the number
  of cached blocks. The batch class comes last, as draining the others may need its blocks.\<close>

fun lc_drain_loop :: "pri_config \<Rightarrow> pri_env \<Rightarrow> nat \<Rightarrow> nat \<Rightarrow> pstate \<Rightarrow> pstate result option" where
  "lc_drain_loop cfg env c n S =
    (if Chunks (PerClassArray (snd S) c) = [] then Some (Inr S)
     else case n of 0 \<Rightarrow> None
       | Suc n \<Rightarrow> (case lc_drain_class cfg env c S of Inl e \<Rightarrow> Some (Inl e) | Inr S \<Rightarrow> lc_drain_loop cfg env c n S))"

declare lc_drain_loop.simps [simp del]

fun lc_drain_classes :: "pri_config \<Rightarrow> pri_env \<Rightarrow> nat list \<Rightarrow> pstate \<Rightarrow> pstate result option" where
  "lc_drain_classes cfg env [] S = Some (Inr S)"
| "lc_drain_classes cfg env (c # cs) S =
    (case lc_drain_loop cfg env c (List.length (Chunks (PerClassArray (snd S) c))) S of
       Some (Inr S) \<Rightarrow> lc_drain_classes cfg env cs S | r \<Rightarrow> r)"

definition lc_drain :: "pri_config \<Rightarrow> pri_env \<Rightarrow> pstate \<Rightarrow> pstate result option" where
  "lc_drain cfg env = lc_drain_classes cfg env ([1..<pcNumClasses cfg] @ [0])"

text \<open>What draining keeps, besides the conservation.\<close>

definition drained :: "pri_config \<Rightarrow> nat set \<Rightarrow> (nat \<Rightarrow> uptr multiset) \<Rightarrow> (nat \<Rightarrow> uptr multiset) \<Rightarrow> pstate \<Rightarrow> pstate \<Rightarrow> bool" where
  "drained cfg D X Y S S' \<longleftrightarrow> pinv cfg S' X Y \<and>
    (\<forall>d. d \<notin> D \<longrightarrow> d \<noteq> 0 \<longrightarrow> PerClassArray (snd S') d = PerClassArray (snd S) d) \<and>
    (\<forall>d\<in>D. Chunks (PerClassArray (snd S') d) = []) \<and>
    (\<forall>d. RegionBeg (Regions (fst S') d) = RegionBeg (Regions (fst S) d) \<and> rMemMap (Regions (fst S') d) = rMemMap (Regions (fst S) d))"

end
