(* ===== verification/Primary64_Wf.thy ===== *)
theory Primary64_Wf
  imports Primary64_Cache
begin

text \<open>The shape of the free lists and of the caches: the groups of a class are sorted by their base and
  hold blocks of that group only, every batch but the first of a group is full, no array overflows; and
  the only fatal report of an operation is that the batch class is exhausted.\<close>

section \<open>Well-formed states\<close>

definition batch_max :: "pri_config \<Rightarrow> nat \<Rightarrow> u16" where
  "batch_max cfg c = (if c = 0 then lc_getMaxCached cfg (pri_getSizeByClassId cfg 0) else pcMaxNumCachedHint cfg)"

text \<open>What the sizes of the arrays have to be for this: the constants of the configurations satisfy it.\<close>

definition cfg_wf :: "pri_config \<Rightarrow> bool" where
  "cfg_wf cfg \<longleftrightarrow> 2 \<le> unat (batch_max cfg 0) \<and> 1 \<le> unat (pcMaxNumCachedHint cfg) \<and> unat (pcMaxNumCachedHint cfg) < 2 ^ 15 \<and>
    GroupSizeLog cfg < RegionSizeLog cfg"

definition batches_wf :: "u16 \<Rightarrow> (uptr \<Rightarrow> bool) \<Rightarrow> TransferBatch list \<Rightarrow> bool" where
  "batches_wf Mx Q Bs \<longleftrightarrow> (\<forall>B\<in>set Bs. List.length (Batch B) \<le> unat Mx \<and> (\<forall>a\<in>set (Batch B). Q a)) \<and>
    (\<forall>B\<in>set (tl Bs). List.length (Batch B) = unat Mx)"

definition filled :: "BatchGroup \<Rightarrow> bool" where
  "filled BG \<longleftrightarrow> (Batches BG \<noteq> [] \<longrightarrow> Batch (hd (Batches BG)) \<noteq> [])"

definition group_wf :: "pri_config \<Rightarrow> nat \<Rightarrow> BatchGroup \<Rightarrow> bool" where
  "group_wf cfg c BG \<longleftrightarrow> MaxCachedPerBatch BG = batch_max cfg c \<and>
    batches_wf (batch_max cfg c) (\<lambda>a. c \<noteq> 0 \<longrightarrow> compactPtrGroup cfg a = CompactPtrGroupBase BG) (Batches BG) \<and> (c \<noteq> 0 \<longrightarrow> Batches BG \<noteq> [])"

definition groups_wf :: "pri_config \<Rightarrow> nat \<Rightarrow> BatchGroup list \<Rightarrow> bool" where
  "groups_wf cfg c L \<longleftrightarrow> (\<forall>BG\<in>set L. group_wf cfg c BG) \<and> (c \<noteq> 0 \<longrightarrow> sorted_wrt (<) (map CompactPtrGroupBase L))"

definition list_wf :: "pri_config \<Rightarrow> nat \<Rightarrow> BatchGroup list \<Rightarrow> bool" where
  "list_wf cfg c L \<longleftrightarrow> groups_wf cfg c L \<and> (\<forall>BG\<in>set L. filled BG)"

definition cache_wf :: "pri_config \<Rightarrow> nat \<Rightarrow> PerClass \<Rightarrow> bool" where
  "cache_wf cfg c pc \<longleftrightarrow> MaxCount pc = 2 * lc_getMaxCached cfg (pri_getSizeByClassId cfg c) \<and> List.length (Chunks pc) \<le> unat (MaxCount pc)"

definition pwf :: "pri_config \<Rightarrow> pstate \<Rightarrow> bool" where
  "pwf cfg S \<longleftrightarrow> cfg_wf cfg \<and> (\<forall>c<pcNumClasses cfg. list_wf cfg c (BlockList (Regions (fst S) c)) \<and> cache_wf cfg c (PerClassArray (snd S) c))"

section \<open>Results\<close>

text \<open>The only reports that may end an operation, and the rule for sequences.\<close>

definition ok_error :: "pri_config \<Rightarrow> report \<Rightarrow> bool" where
  "ok_error cfg e \<longleftrightarrow> e = OutOfBatchClass \<or> e = OutOfMemory (pri_getSizeByClassId cfg 0)"

definition res_ok :: "pri_config \<Rightarrow> ('a \<Rightarrow> bool) \<Rightarrow> 'a result \<Rightarrow> bool" where
  "res_ok cfg Q r \<longleftrightarrow> (case r of Inl e \<Rightarrow> ok_error cfg e | Inr x \<Rightarrow> Q x)"

lemma res_ok_simps [simp]: "res_ok cfg Q (Inr x) = Q x" "res_ok cfg Q (Inl e) = ok_error cfg e"
  by (simp_all add: res_ok_def)

lemma res_ok_bind:
  assumes "res_ok cfg Q r" and "\<And>x. r = Inr x \<Longrightarrow> Q x \<Longrightarrow> res_ok cfg Q' (f x)"
  shows "res_ok cfg Q' (bindR r f)"
  using assms by (cases r) simp_all

lemma res_ok_weaken: "res_ok cfg Q r \<Longrightarrow> (\<And>x. r = Inr x \<Longrightarrow> Q x \<Longrightarrow> Q' x) \<Longrightarrow> res_ok cfg Q' r"
  by (cases r) simp_all

lemma res_okD: "res_ok cfg Q r \<Longrightarrow> r = Inr x \<Longrightarrow> Q x"
  by simp

section \<open>Batches\<close>

lemma unused_slots_0:
  assumes "List.length (Batch B) \<le> unat Mx"
  shows "unused_slots Mx B = 0 \<longleftrightarrow> List.length (Batch B) = unat Mx"
proof -
  have l: "List.length (Batch B) < 2 ^ 16" using assms unat_less_exp [of Mx] by simp
  then have "unat (of_nat (List.length (Batch B)) :: u16) = List.length (Batch B)" by (simp add: unat_of_nat)
  moreover have "unused_slots Mx B = 0 \<longleftrightarrow> Mx = of_nat (List.length (Batch B))" by (simp add: unused_slots_def tb_Count_def)
  ultimately show ?thesis by (metis word_unat_eq_iff)
qed

lemma batches_wf_simps:
  "batches_wf Mx Q []"
  "batches_wf Mx Q (B # Bs) \<longleftrightarrow> List.length (Batch B) \<le> unat Mx \<and> (\<forall>a\<in>set (Batch B). Q a) \<and>
     (\<forall>B\<in>set Bs. List.length (Batch B) = unat Mx \<and> (\<forall>a\<in>set (Batch B). Q a))"
  by (auto simp: batches_wf_def)

lemma batches_wf_new:
  assumes "batches_wf Mx Q (B # Bs)" "unused_slots Mx B = 0" "1 \<le> unat Mx" "Q a"
  shows "batches_wf Mx Q (\<lparr> tbAddr = t, Batch = [a] \<rparr> # B # Bs)"
  using assms unused_slots_0 [of B Mx] by (auto simp: batches_wf_simps)

lemma batches_wf_add:
  assumes "batches_wf Mx Q (B # Bs)" "unused_slots Mx B \<noteq> 0" "Q a"
  shows "batches_wf Mx Q (tb_add a B # Bs)"
  using assms unused_slots_0 [of B Mx] by (auto simp: batches_wf_simps tb_add_def)

lemma push_self_contained_wf:
  "\<lbrakk> batches_wf Mx Q Bs; 1 \<le> unat Mx; \<forall>a\<in>set as. Q a; Bs = [] \<or> Batch (hd Bs) \<noteq> [] \<rbrakk> \<Longrightarrow>
    batches_wf Mx Q (push_self_contained cfg b Mx Bs as) \<and>
    (push_self_contained cfg b Mx Bs as = [] \<or> Batch (hd (push_self_contained cfg b Mx Bs as)) \<noteq> [])"
proof (induction cfg b Mx Bs as rule: push_self_contained.induct)
  case (2 cfg b Mx a as)
  have "batches_wf Mx Q [\<lparr>tbAddr = decompactPtrInternal cfg b a, Batch = [a]\<rparr>]" using 2 by (simp add: batches_wf_simps)
  with 2 show ?case by simp
next
  case (3 cfg b Mx B Bs a as)
  show ?case
  proof (cases "unused_slots Mx B = 0")
    case True
    then show ?thesis using 3(1) [OF True batches_wf_new [OF 3(3) True 3(4)]] 3(4,5) by simp
  next
    case False
    then show ?thesis using 3(2) [OF False batches_wf_add [OF 3(3) False]] 3(4,5) by (simp add: tb_add_def)
  qed
qed simp

section \<open>The batch class\<close>

lemma cfg_wf_max: "cfg_wf cfg \<Longrightarrow> 1 \<le> unat (batch_max cfg c)"
  by (auto simp: cfg_wf_def batch_max_def)

lemma push_into_batch_group_wf:
  assumes g: "group_wf cfg 0 BG" "filled BG" and w: "cfg_wf cfg" and r: "push_into_batch_group cfg b Arr BG = BG'"
  shows "group_wf cfg 0 BG' \<and> filled BG'"
proof (cases "Arr = []")
  case True
  then show ?thesis using g r by (simp add: push_into_batch_group_def)
next
  case False
  let ?B = "[\<lparr>tbAddr = decompactPtrInternal cfg b (last Arr), Batch = [last Arr, compactPtrInternal cfg b (bgAddr BG)]\<rparr>]"
  let ?Mx = "batch_max cfg 0" and ?Q = "\<lambda>a. True"
  have m: "MaxCachedPerBatch BG = ?Mx" using g by (simp add: group_wf_def)
  have "batches_wf ?Mx ?Q ?B" using w by (simp add: batches_wf_simps cfg_wf_def)
  note n = push_self_contained_wf [OF this cfg_wf_max [OF w], of "butlast Arr" cfg b]
  have "batches_wf ?Mx ?Q (Batches BG)" using g by (simp add: group_wf_def)
  note o = push_self_contained_wf [OF this cfg_wf_max [OF w], of Arr cfg b]
  show ?thesis
    using n o g m False by (auto simp: push_into_batch_group_def group_wf_def filled_def simp flip: r)
qed

lemma pushBatchClassBlocks_wf:
  assumes L: "list_wf cfg 0 (BlockList R)" and w: "cfg_wf cfg"
  shows "list_wf cfg 0 (BlockList (pushBatchClassBlocks cfg Arr R))"
proof -
  have n: "group_wf cfg 0 (new_batch_group cfg (RegionBeg R) a)" "filled (new_batch_group cfg (RegionBeg R) a)" for a
    by (simp_all add: group_wf_def new_batch_group_def batch_max_def batches_wf_simps filled_def)
  show ?thesis
  proof (cases "BlockList R")
    case Nil
    then show ?thesis using push_into_batch_group_wf [OF n w refl]
      by (simp add: pushBatchClassBlocks_def list_wf_def groups_wf_def Let_def)
  next
    case (Cons BG rest)
    then show ?thesis using push_into_batch_group_wf [OF _ _ w refl] L
      by (simp add: pushBatchClassBlocks_def list_wf_def groups_wf_def Let_def)
  qed
qed

lemma pwfD:
  assumes "pwf cfg S"
  shows "cfg_wf cfg" "c < pcNumClasses cfg \<Longrightarrow> list_wf cfg c (BlockList (Regions (fst S) c))"
    "c < pcNumClasses cfg \<Longrightarrow> cache_wf cfg c (PerClassArray (snd S) c)"
  using assms by (simp_all add: pwf_def)

lemma pwf_upd_region:
  assumes "pwf cfg (P, C)" and "list_wf cfg c (BlockList (Regions P c)) \<Longrightarrow> list_wf cfg c (BlockList (f (Regions P c)))"
  shows "pwf cfg (upd_region c f P, C)"
  using assms by (auto simp: pwf_def)

lemma pwf_upd_class:
  assumes "pwf cfg (P, C)" and "cache_wf cfg c (PerClassArray C c) \<Longrightarrow> cache_wf cfg c (f (PerClassArray C c))"
  shows "pwf cfg (P, upd_class c f C)"
  using assms by (auto simp: pwf_def)

lemma pwf_stats [simp]: "pwf cfg (P, C\<lparr>cStats := s\<rparr>) = pwf cfg (P, C)"
  by (simp add: pwf_def)

lemma cfg_wf_max_count:
  assumes "cfg_wf cfg"
  shows "unat (2 * lc_getMaxCached cfg z) = 2 * unat (lc_getMaxCached cfg z)"
proof -
  have "lc_getMaxCached cfg z \<le> pcMaxNumCachedHint cfg" by (simp add: lc_getMaxCached_def)
  then have "unat (lc_getMaxCached cfg z) < 2 ^ 15" using assms by (simp add: cfg_wf_def word_le_nat_alt)
  then show ?thesis using unat_mult_lt [of 2 "lc_getMaxCached cfg z"] by simp
qed

section \<open>The cache of the batch class\<close>

lemma cache_wf_full:
  assumes "cache_wf cfg c pc" and "cfg_wf cfg" and "lc_getMaxCached cfg (pri_getSizeByClassId cfg c) \<noteq> 0"
  shows "2 \<le> unat (MaxCount pc)" and "lc_full pc \<longleftrightarrow> List.length (Chunks pc) = unat (MaxCount pc)"
    and "lc_drain_count pc = min (unat (MaxCount pc) div 2) (List.length (Chunks pc))"
proof -
  have "0 < unat (lc_getMaxCached cfg (pri_getSizeByClassId cfg c))" using assms(3) by (simp add: unat_gt_0)
  then show "2 \<le> unat (MaxCount pc)"
    using assms(1,2) cfg_wf_max_count by (simp add: cache_wf_def)
  have "List.length (Chunks pc) \<le> unat (MaxCount pc)" using assms(1) unfolding cache_wf_def by (rule conjunct2)
  then have "List.length (Chunks pc) < 2 ^ 16" using unat_less_exp [of "MaxCount pc"] by simp
  then have l: "unat (of_nat (List.length (Chunks pc)) :: u16) = List.length (Chunks pc)" by (simp add: unat_of_nat)
  then show "lc_full pc \<longleftrightarrow> List.length (Chunks pc) = unat (MaxCount pc)"
    by (simp add: lc_full_def word_unat_eq_iff)
  show "lc_drain_count pc = min (unat (MaxCount pc) div 2) (List.length (Chunks pc))"
    by (simp add: lc_drain_count_def min_def word_le_nat_alt l unat_div)
qed

lemma drain_batch_class_wf:
  assumes "pwf cfg (P, C)"
  shows "pwf cfg (drain_batch_class cfg (P, C))"
proof -
  let ?n = "lc_drain_count (PerClassArray C 0)"
  have "pwf cfg (upd_region 0 (pushBatchClassBlocks cfg (take ?n (Chunks (PerClassArray C 0)))) P, C)"
    by (rule pwf_upd_region [OF assms pushBatchClassBlocks_wf]) (use pwfD(1) [OF assms] in simp_all)
  then show ?thesis
    unfolding drain_batch_class_def Let_def prod.case by (rule pwf_upd_class) (auto simp: cache_wf_def)
qed

lemma drain_batch_class_chunks:
  "Chunks (PerClassArray (snd (drain_batch_class cfg (P, C))) 0) = drop (lc_drain_count (PerClassArray C 0)) (Chunks (PerClassArray C 0))"
  "MaxCount (PerClassArray (snd (drain_batch_class cfg (P, C))) 0) = MaxCount (PerClassArray C 0)"
  by (simp_all add: drain_batch_class_def Let_def)

lemma lc_put_wf:
  assumes "pwf cfg (P, C)" and "c < pcNumClasses cfg \<Longrightarrow> List.length (Chunks (PerClassArray C c)) < unat (MaxCount (PerClassArray C c))"
  shows "pwf cfg (lc_put cfg c Ptr (P, C))"
  using assms by (auto simp: lc_put_def pwf_def cache_wf_def)

lemma deallocate_batch_class_wf:
  assumes w: "pwf cfg S" and ok: "cfg_ok cfg"
  shows "pwf cfg (deallocate_batch_class cfg Ptr S)"
proof -
  obtain P C where S: "S = (P, C)" by (rule prod.exhaust)
  let ?pc = "PerClassArray C 0"
  have N: "0 < pcNumClasses cfg" "lc_getMaxCached cfg (pri_getSizeByClassId cfg 0) \<noteq> 0" using ok by (auto simp: cfg_ok_def)
  have cw: "cache_wf cfg 0 ?pc" using pwfD(3) [OF w N(1)] by (simp add: S)
  note f = cache_wf_full [OF cw pwfD(1) [OF w] N(2)]
  show ?thesis
  proof (cases "lc_full ?pc")
    case True
    obtain P1 C1 where d: "drain_batch_class cfg (P, C) = (P1, C1)" by (rule prod.exhaust)
    have "pwf cfg (P1, C1)" using drain_batch_class_wf [OF w [unfolded S]] d by simp
    moreover have "List.length (Chunks (PerClassArray C1 0)) < unat (MaxCount (PerClassArray C1 0))"
      using drain_batch_class_chunks [of cfg P C] f True by (simp add: d)
    ultimately show ?thesis using True d by (simp add: S deallocate_batch_class_def lc_put_wf)
  next
    case False
    have "List.length (Chunks ?pc) \<le> unat (MaxCount ?pc)" using cw unfolding cache_wf_def by (rule conjunct2)
    then have "List.length (Chunks ?pc) < unat (MaxCount ?pc)" using False f(2) by linarith
    then show ?thesis using False w by (simp add: S deallocate_batch_class_def lc_put_wf)
  qed
qed

section \<open>Popping\<close>

lemma set_blocks_wf: "pwf cfg (P, C) \<Longrightarrow> (c < pcNumClasses cfg \<Longrightarrow> list_wf cfg c L) \<Longrightarrow> pwf cfg (set_blocks c L P, C)"
  by (auto simp: pwf_def set_blocks_def)

lemma count_popped_wf [simp]: "pwf cfg (count_popped c n P, C) = pwf cfg (P, C)"
proof -
  have "BlockList (Regions (count_popped c n P) d) = BlockList (Regions P d)" for d by (simp add: count_popped_def)
  then show ?thesis by (simp add: pwf_def)
qed

lemma recycle_wf: "pwf cfg S \<Longrightarrow> cfg_ok cfg \<Longrightarrow> pwf cfg (recycle cfg c Ptr S)"
  by (simp add: recycle_def deallocate_batch_class_wf)

lemma list_wf_Cons:
  "list_wf cfg c (BG # L) \<longleftrightarrow> group_wf cfg c BG \<and> filled BG \<and> list_wf cfg c L \<and>
    (c \<noteq> 0 \<longrightarrow> (\<forall>BG'\<in>set L. CompactPtrGroupBase BG < CompactPtrGroupBase BG'))"
  by (auto simp: list_wf_def groups_wf_def)

definition pop_limit :: "pri_config \<Rightarrow> nat \<Rightarrow> u16 \<Rightarrow> nat" where
  "pop_limit cfg c m = (if c = 0 then unat (batch_max cfg 0) else unat m)"

lemma popBlocksImpl_wf:
  assumes w: "pwf cfg S" and ok: "cfg_ok cfg" and c: "c < pcNumClasses cfg" and pop: "popBlocksImpl cfg c m S = (A, S')"
  shows "pwf cfg S'" and "List.length A \<le> pop_limit cfg c m"
proof -
  obtain P C where S: "S = (P, C)" by (rule prod.exhaust)
  have L: "list_wf cfg c (BlockList (Regions P c))" using pwfD(2) [OF w c] by (simp add: S)
  have b1: "1 \<le> unat (batch_max cfg 0)" by (rule cfg_wf_max [OF pwfD(1) [OF w]])
  have "pwf cfg S' \<and> List.length A \<le> pop_limit cfg c m"
  proof (cases "BlockList (Regions P c)")
    case Nil
    then have "A = []" "S' = S" using pop by (simp_all add: S popBlocksImpl_def)
    then show ?thesis using w by simp
  next
    case BL: (Cons BG rest)
    note g = L [unfolded BL list_wf_Cons]
    have sb: "pwf cfg (set_blocks c L P, C)" if "list_wf cfg c L" for L
      using w that unfolding S by (rule set_blocks_wf)
    show ?thesis
    proof (cases "Batches BG")
      case Nil
      then have "c = 0" using g by (auto simp: group_wf_def)
      then show ?thesis using pop Nil BL g b1 sb by (auto simp: S popBlocksImpl_def pop_limit_def)
    next
      case Bs: (Cons B Bs)
      define n where "n = (if c = 0 then tb_Count B else min (unat m) (tb_Count B))"
      obtain B' where mv: "moveNToArray n B = (A, B')"
        using pop by (auto simp: S popBlocksImpl_def BL Bs n_def [symmetric] Let_def split: prod.splits)
      have A: "List.length A = n" "Batch B' = take (List.length (Batch B) - n) (Batch B)"
        using mv by (auto simp: moveNToArray_def n_def tb_Count_def)
      have bw: "batches_wf (batch_max cfg c) (\<lambda>a. c \<noteq> 0 \<longrightarrow> compactPtrGroup cfg a = CompactPtrGroupBase BG) (B # Bs)"
        using g Bs by (simp add: group_wf_def)
      have "n \<le> pop_limit cfg c m" using bw by (auto simp: n_def pop_limit_def batches_wf_simps tb_Count_def)
      moreover
      have w1: "list_wf cfg c (BG\<lparr>Batches := Bs\<rparr> # rest)" if "Bs \<noteq> []"
      proof -
        have mx: "\<forall>B\<in>set Bs. List.length (Batch B) = unat (batch_max cfg c)" using bw by (simp add: batches_wf_simps)
        then have "Batch (hd Bs) \<noteq> []" using that cfg_wf_max [OF pwfD(1) [OF w], of c] by (cases Bs) auto
        moreover have "batches_wf (batch_max cfg c) (\<lambda>a. c \<noteq> 0 \<longrightarrow> compactPtrGroup cfg a = CompactPtrGroupBase BG) Bs"
          using bw by (cases Bs) (auto simp: batches_wf_simps)
        ultimately show ?thesis using g that by (simp add: list_wf_Cons group_wf_def filled_def)
      qed
      have w2: "list_wf cfg c (BG\<lparr>Batches := B' # Bs\<rparr> # rest)" if "\<not> tb_empty B'"
      proof -
        have "batches_wf (batch_max cfg c) (\<lambda>a. c \<noteq> 0 \<longrightarrow> compactPtrGroup cfg a = CompactPtrGroupBase BG) (B' # Bs)"
          using bw A(2) by (auto simp: batches_wf_simps dest: in_set_takeD)
        then show ?thesis using g that by (auto simp: list_wf_Cons group_wf_def filled_def tb_empty_def tb_Count_def)
      qed
      have w3: "list_wf cfg c rest" using g by simp
      define T where "T = (if tb_empty B' then
                    (if Bs = [] then recycle cfg c (bgAddr BG) (recycle cfg c (tbAddr B) (set_blocks c rest P, C))
                     else recycle cfg c (tbAddr B) (set_blocks c (BG\<lparr>Batches := Bs\<rparr> # rest) P, C))
                  else (set_blocks c (BG\<lparr>Batches := B' # Bs\<rparr> # rest) P, C))"
      have "pwf cfg T" unfolding T_def using w1 w2 w3 by (auto intro!: recycle_wf sb ok)
      moreover have "S' = (count_popped c n (fst T), snd T)"
        using pop mv by (simp add: S popBlocksImpl_def BL Bs n_def [symmetric] Let_def T_def [symmetric])
      ultimately show ?thesis using A(1) by simp
    qed
  qed
  then show "pwf cfg S'" "List.length A \<le> pop_limit cfg c m" by simp_all
qed

section \<open>Populating and allocating\<close>

lemma new_blocks_ok:
  assumes ok: "cfg_ok cfg" "c < pcNumClasses cfg" and R: "region_ok cfg c R"
    and fit: "AllocatedUser R + ucast (lc_getMaxCached cfg (pri_getSizeByClassId cfg c)) * pri_getSizeByClassId cfg c \<le> MappedUser R"
  shows "new_blocks cfg c R (unat (populate_count cfg c R)) \<noteq> []"
    and "\<forall>a\<in>set (new_blocks cfg c R (unat (populate_count cfg c R))). valid_ptr cfg a"
proof -
  note n = populate_count_bounds [OF ok R fit]
  show "new_blocks cfg c R (unat (populate_count cfg c R)) \<noteq> []" using n(1) by (simp add: new_blocks_def)
  note g = carved_grow [OF ok R n(2) refl]
  show "\<forall>a\<in>set (new_blocks cfg c R (unat (populate_count cfg c R))). valid_ptr cfg a"
    using carved_valid [OF ok g(2)] by (simp add: g(1))
qed

lemma populate_map_wf:
  assumes "pwf cfg (P, C)" and "populate_map cfg env c (P, C) = (b, S')"
  shows "pwf cfg S'"
proof -
  obtain P' C' where S': "S' = (P', C')" by (rule prod.exhaust)
  have "PerClassArray C' = PerClassArray C" "BlockList (Regions P' d) = BlockList (Regions P d)" for d
    using assms(2) by (auto simp: S' populate_map_def Let_def split: if_splits)
  then show ?thesis using assms(1) by (simp add: S' pwf_def)
qed

locale typed_pusher = block_pusher +
  assumes push_wf: "\<lbrakk> c < pcNumClasses cfg; pinv cfg S X Y; pwf cfg S; A \<noteq> []; \<forall>a\<in>set A. valid_ptr cfg a;
      X c = X' c + mset A; \<And>d. d \<noteq> c \<Longrightarrow> X' d = X d \<rbrakk> \<Longrightarrow> res_ok cfg (pwf cfg) (push A S)"
begin

lemma populate_wf:
  assumes c: "c < pcNumClasses cfg" and inv: "pinv cfg S X Y" and w: "pwf cfg S"
  shows "res_ok cfg (\<lambda>(A, S'). pwf cfg S' \<and> List.length A \<le> pop_limit cfg c m) (populateFreeListAndPopBlocks cfg env push c m S)"
proof -
  obtain P C where S: "S = (P, C)" by (rule prod.exhaust)
  have ok: "cfg_ok cfg" using inv by (simp add: pinv_def)
  have res: "populate_reserve cfg env c P = Some P" using ok by (simp add: populate_reserve_def cfg_ok_def)
  obtain b P1 C1 where m: "populate_map cfg env c (P, C) = (b, (P1, C1))" by (metis prod.exhaust)
  note i1 = populate_map_inv [OF inv [unfolded S] c m] and w1 = populate_map_wf [OF w [unfolded S] m]
  show ?thesis
  proof (cases b)
    case False
    then show ?thesis using w1 by (simp add: S populateFreeListAndPopBlocks_def res m)
  next
    case True
    let ?R = "Regions P1 c"
    define N where "N = populate_count cfg c ?R"
    let ?new = "new_blocks cfg c ?R (unat N)"
    have i: "pinv cfg (P1, C1) X Y" using i1 by simp
    have R: "region_ok cfg c ?R" using i c by (simp add: pinv_def)
    note n = new_blocks_ok [OF ok c R, folded N_def] 
    have n: "?new \<noteq> []" "\<forall>a\<in>set ?new. valid_ptr cfg a" using n i1 True by simp_all
    have p: "res_ok cfg (pwf cfg) (push ?new (P1, C1))"
      by (rule push_wf [OF c pinv_count_more [OF i n(2), of c] w1 n, of X]) simp_all
    let ?k = "\<lambda>S. case popBlocksImpl cfg c m S of (A, (P, C)) \<Rightarrow>
        Inr (A, (upd_region c (\<lambda>R. R\<lparr>PushedBlocks := PushedBlocks R - ucast N,
          AllocatedUser := AllocatedUser R + pri_getSizeByClassId cfg c * ucast N\<rparr>) P,
             C\<lparr>cStats := stat_add StatFree (pri_getSizeByClassId cfg c * ucast N) (cStats C)\<rparr>))"
    have "res_ok cfg (\<lambda>(A, S'). pwf cfg S' \<and> List.length A \<le> pop_limit cfg c m) (bindR (push ?new (P1, C1)) ?k)"
    proof (rule res_ok_bind [OF p])
      fix S2 assume w2: "pwf cfg S2"
      obtain A P3 C3 where pop: "popBlocksImpl cfg c m S2 = (A, (P3, C3))" by (metis prod.exhaust)
      note l = popBlocksImpl_wf [OF w2 ok c pop]
      have "pwf cfg (upd_region c (\<lambda>R. R\<lparr>PushedBlocks := PushedBlocks R - ucast N,
          AllocatedUser := AllocatedUser R + pri_getSizeByClassId cfg c * ucast N\<rparr>) P3, C3)"
        by (rule pwf_upd_region [OF l(1)]) simp
      then show "res_ok cfg (\<lambda>(A, S'). pwf cfg S' \<and> List.length A \<le> pop_limit cfg c m) (?k S2)"
        using l(2) by (simp add: pop)
    qed
    moreover have "populateFreeListAndPopBlocks cfg env push c m S = bindR (push ?new (P1, C1)) ?k"
      using True by (simp add: S populateFreeListAndPopBlocks_def res m N_def Let_def)
    ultimately show ?thesis by simp
  qed
qed

lemma popBlocks_with_wf:
  assumes c: "c < pcNumClasses cfg" and inv: "pinv cfg S X Y" and w: "pwf cfg S"
  shows "res_ok cfg (\<lambda>(A, S'). pwf cfg S' \<and> List.length A \<le> pop_limit cfg c m) (popBlocks_with cfg env push c m S)"
proof -
  have ok: "cfg_ok cfg" using inv by (simp add: pinv_def)
  let ?Q = "\<lambda>(A, S'). pwf cfg S' \<and> List.length A \<le> pop_limit cfg c m"
  obtain A1 S1 where p1: "popBlocksImpl cfg c m S = (A1, S1)" by (rule prod.exhaust)
  note l1 = popBlocksImpl_wf [OF w ok c p1]
  show ?thesis
  proof (cases "A1 = []")
    case False
    then show ?thesis using l1 by (simp add: popBlocks_with_def p1)
  next
    case A1: True
    have i1: "pinv cfg S1 X Y" using popBlocksImpl_inv [OF inv c p1] A1 by (simp add: popped_ok_def)
    obtain A2 S2 where p2: "popBlocksImpl cfg c m S1 = (A2, S2)" by (rule prod.exhaust)
    note l2 = popBlocksImpl_wf [OF l1(1) ok c p2]
    show ?thesis
    proof (cases "A2 = []")
      case False
      then show ?thesis using l2 A1 by (simp add: popBlocks_with_def p1 p2)
    next
      case A2: True
      have i2: "pinv cfg S2 X Y" using popBlocksImpl_inv [OF i1 c p2] A2 by (simp add: popped_ok_def)
      let ?Ex = "Exhausted (Regions (fst S2) c)"
      have e: "popBlocks_with cfg env push c m S =
          bindR (if \<not> ?Ex then populateFreeListAndPopBlocks cfg env push c m S2 else Inr ([], S2)) (\<lambda>(A, S).
             if \<not> ?Ex \<and> Exhausted (Regions (fst S) c) \<and> c = 0 then Inl OutOfBatchClass else Inr (A, S))"
        by (simp add: popBlocks_with_def p1 p2 A1 A2 Let_def)
      have "res_ok cfg ?Q (if \<not> ?Ex then populateFreeListAndPopBlocks cfg env push c m S2 else Inr ([], S2))"
        using populate_wf [OF c i2 l2(1)] l2(1) by simp
      then show ?thesis unfolding e by (rule res_ok_bind) (auto simp: ok_error_def split: prod.split)
    qed
  qed
qed

lemma lc_allocate_with_wf:
  assumes c: "c < pcNumClasses cfg" and inv: "pinv cfg S X Y" and w: "pwf cfg S"
  shows "res_ok cfg (\<lambda>(q, S'). pwf cfg S') (lc_allocate_with cfg (popBlocks_with cfg env push c) c S)"
proof -
  let ?m = "MaxCount (PerClassArray (snd S) c) div 2"
  have cw: "MaxCount (PerClassArray (snd S) c) = 2 * lc_getMaxCached cfg (pri_getSizeByClassId cfg c)"
    using pwfD(3) [OF w c] by (simp add: cache_wf_def)
  have lim: "pop_limit cfg c ?m \<le> unat (2 * lc_getMaxCached cfg (pri_getSizeByClassId cfg c))"
    using cfg_wf_max_count [OF pwfD(1) [OF w]] by (simp add: pop_limit_def cw unat_div batch_max_def)
  let ?r = "if Chunks (PerClassArray (snd S) c) = [] then
             bindR (popBlocks_with cfg env push c ?m S) (\<lambda>(A, (P, C)).
               Inr (A \<noteq> [], (P, upd_class c (\<lambda>pc. pc\<lparr>Chunks := A\<rparr>) C)))
           else Inr (True, S)"
  have "res_ok cfg (\<lambda>(b, S'). pwf cfg S') ?r"
  proof (cases "Chunks (PerClassArray (snd S) c) = []")
    case True
    have "res_ok cfg (\<lambda>(b, S'). pwf cfg S') (bindR (popBlocks_with cfg env push c ?m S) (\<lambda>(A, (P, C)).
               Inr (A \<noteq> [], (P, upd_class c (\<lambda>pc. pc\<lparr>Chunks := A\<rparr>) C))))"
    proof (rule res_ok_bind [OF popBlocks_with_wf [OF c inv w, of ?m env]], goal_cases)
      case (1 x)
      obtain A P1 C1 where x: "x = (A, (P1, C1))" by (metis prod.exhaust)
      have "pwf cfg (P1, upd_class c (\<lambda>pc. pc\<lparr>Chunks := A\<rparr>) C1)"
        by (rule pwf_upd_class) (use 1(2) x lim in \<open>auto simp: cache_wf_def\<close>)
      then show ?case by (simp add: x)
    qed
    then show ?thesis using True by simp
  next
    case False
    then show ?thesis using w by simp
  qed
  then show ?thesis
    unfolding lc_allocate_with_def
  proof (rule res_ok_bind, goal_cases)
    case (1 x)
    obtain b P1 C1 where x: "x = (b, (P1, C1))" by (metis prod.exhaust)
    have "pwf cfg (P1, upd_class c (\<lambda>pc. pc\<lparr>Chunks := butlast (Chunks pc)\<rparr>) C1)"
      by (rule pwf_upd_class) (use 1(2) x in \<open>auto simp: cache_wf_def\<close>)
    then show ?case using 1(2) by (simp add: x Let_def)
  qed
qed

end

interpretation batch_typed: typed_pusher cfg 0 "push_batch_class cfg" for cfg
proof (unfold_locales, goal_cases)
  case (1 S X Y A X')
  obtain P C where S: "S = (P, C)" by (rule prod.exhaust)
  have "pwf cfg (upd_region 0 (pushBatchClassBlocks cfg A) P, C)"
    by (rule pwf_upd_region [OF 1(3) [unfolded S] pushBatchClassBlocks_wf]) (use pwfD(1) [OF 1(3)] in simp_all)
  then show ?case by (simp add: S push_batch_class_def)
qed

lemma getBatchClassBlock_wf:
  assumes inv: "pinv cfg S X Y" and w: "pwf cfg S"
  shows "res_ok cfg (\<lambda>(B, S'). pwf cfg S') (getBatchClassBlock cfg env S)"
  unfolding getBatchClassBlock_def
  by (rule res_ok_bind [OF batch_typed.lc_allocate_with_wf [OF _ inv w]])
    (use pinv_classes [OF inv] in \<open>auto simp: ok_error_def split: option.split\<close>)

end
