(* ===== verification/Primary64_Push_Wf.thy ===== *)
theory Primary64_Push_Wf
  imports Primary64_Wf
begin

text \<open>Pushing blocks keeps the free lists well-formed, and never follows a null link: the walk along the
  groups always has a predecessor to insert after.\<close>

section \<open>New groups and batches\<close>

lemma CreateGroup_wf:
  assumes h: "held cfg S0 X Y M S" and w: "pwf cfg S" and c: "c \<noteq> 0"
  shows "res_ok cfg (\<lambda>(BG, S'). pwf cfg S' \<and> group_wf cfg c BG \<and> CompactPtrGroupBase BG = g) (CreateGroup cfg env g S)"
proof -
  have i: "pinv cfg S (X(0 := X 0 + M)) Y" using h by (simp add: held_def)
  show ?thesis
    unfolding CreateGroup_def
  proof (rule res_ok_bind [OF getBatchClassBlock_wf [OF i w]])
    fix x assume g: "getBatchClassBlock cfg env S = Inr x" "case x of (B, S') \<Rightarrow> pwf cfg S'"
    obtain bg S1 where x: "x = (bg, S1)" by (rule prod.exhaust)
    have w1: "pwf cfg S1" using g(2) by (simp add: x)
    have i1: "pinv cfg S1 (X(0 := X 0 + add_mset (compactPtrInternal cfg (batch_base S0) bg) M)) Y"
      using getBatchClassBlock_held [OF h g(1) [unfolded x]] by (simp add: held_def)
    show "res_ok cfg (\<lambda>(BG, S'). pwf cfg S' \<and> group_wf cfg c BG \<and> CompactPtrGroupBase BG = g)
      (case x of (bg, S) \<Rightarrow> bindR (getBatchClassBlock cfg env S) (\<lambda>(tb, S).
        Inr (\<lparr> bgAddr = bg, CompactPtrGroupBase = g, BytesInBGAtLastCheckpoint = 0,
             Batches = [\<lparr> tbAddr = tb, Batch = [] \<rparr>], MaxCachedPerBatch = pcMaxNumCachedHint cfg \<rparr>, S)))"
      unfolding x prod.case
      by (rule res_ok_bind [OF getBatchClassBlock_wf [OF i1 w1]])
        (use c in \<open>auto simp: group_wf_def batches_wf_simps batch_max_def split: prod.split\<close>)
  qed
qed

lemma InsertBlocks_wf:
  "\<lbrakk> held cfg S0 X Y M S; pwf cfg S; batches_wf Mx Q Bs; 1 \<le> unat Mx; \<forall>a\<in>set as. Q a; Bs \<noteq> [] \<rbrakk> \<Longrightarrow>
    res_ok cfg (\<lambda>(Bs', S'). pwf cfg S' \<and> batches_wf Mx Q Bs' \<and> Bs' \<noteq> [] \<and> (as \<noteq> [] \<or> Batch (hd Bs) \<noteq> [] \<longrightarrow> Batch (hd Bs') \<noteq> []))
      (InsertBlocks cfg env Mx Bs as S)"
proof (induction cfg env Mx Bs as S arbitrary: M rule: InsertBlocks.induct)
  case (1 cfg env Mx Bs S)
  then show ?case by simp
next
  case (2 cfg env Mx a as S)
  then show ?case by simp
next
  case (3 cfg env Mx B Bs a as S)
  show ?case
  proof (cases "unused_slots Mx B = 0")
    case True
    have e: "InsertBlocks cfg env Mx (B # Bs) (a # as) S = bindR (getBatchClassBlock cfg env S) (\<lambda>(tb, S).
            InsertBlocks cfg env Mx (\<lparr> tbAddr = tb, Batch = [a] \<rparr> # B # Bs) as S)" using True by simp
    have inv: "pinv cfg S (X(0 := X 0 + M)) Y" using 3(3) by (simp add: held_def)
    show ?thesis
      unfolding e
    proof (rule res_ok_bind [OF getBatchClassBlock_wf [OF inv 3(4)]], goal_cases)
      case (1 x)
      obtain tb S1 where x: "x = (tb, S1)" by (rule prod.exhaust)
      have g: "getBatchClassBlock cfg env S = Inr (tb, S1)" and w1: "pwf cfg S1" using 1 x by simp_all
      have "batches_wf Mx Q (\<lparr> tbAddr = tb, Batch = [a] \<rparr> # B # Bs)"
        by (rule batches_wf_new [OF 3(5) True 3(6)]) (use 3(7) in simp)
      from 3(1) [OF True getBatchClassBlock_held [OF 3(3) g] w1 this 3(6)] 3(7)
      show ?case unfolding x prod.case by (auto elim!: res_ok_weaken)
    qed
  next
    case False
    have "batches_wf Mx Q (tb_add a B # Bs)"
      by (rule batches_wf_add [OF 3(5) False]) (use 3(7) in simp)
    from 3(2) [OF False 3(3,4) this 3(6)] 3(7) show ?thesis using False by (auto simp: tb_add_def elim!: res_ok_weaken)
  qed
qed

lemma insert_in_group_wf:
  assumes h: "held cfg S0 X Y M S" and w: "pwf cfg S" and g: "group_wf cfg c BG" "c \<noteq> 0"
    and as: "as \<noteq> []" "\<forall>a\<in>set as. compactPtrGroup cfg a = CompactPtrGroupBase BG"
  shows "res_ok cfg (\<lambda>(BG', S'). pwf cfg S' \<and> group_wf cfg c BG' \<and> filled BG' \<and> CompactPtrGroupBase BG' = CompactPtrGroupBase BG)
    (insert_in_group cfg env BG as S)"
  unfolding insert_in_group_def
proof (rule res_ok_bind)
  have b: "batches_wf (MaxCachedPerBatch BG) (\<lambda>a. compactPtrGroup cfg a = CompactPtrGroupBase BG) (Batches BG)" "Batches BG \<noteq> []"
    "1 \<le> unat (MaxCachedPerBatch BG)"
    using g cfg_wf_max [OF pwfD(1) [OF w], of c] by (simp_all add: group_wf_def)
  show "res_ok cfg (\<lambda>(Bs', S'). pwf cfg S' \<and> batches_wf (MaxCachedPerBatch BG) (\<lambda>a. compactPtrGroup cfg a = CompactPtrGroupBase BG) Bs' \<and>
      Bs' \<noteq> [] \<and> (as \<noteq> [] \<or> Batch (hd (Batches BG)) \<noteq> [] \<longrightarrow> Batch (hd Bs') \<noteq> []))
      (InsertBlocks cfg env (MaxCachedPerBatch BG) (Batches BG) as S)"
    by (rule InsertBlocks_wf [OF h w b(1,3) as(2) b(2)])
qed (use g as(1) in \<open>auto simp: group_wf_def filled_def split: prod.splits\<close>)

section \<open>The walk along the groups\<close>

lemma seek_group_while:
  "seek_group g pre post = (pre @ takeWhile (\<lambda>BG. CompactPtrGroupBase BG < g) post, dropWhile (\<lambda>BG. CompactPtrGroupBase BG < g) post)"
  by (induction g pre post rule: seek_group.induct) simp_all

definition hand_wf :: "pri_config \<Rightarrow> nat \<Rightarrow> uptr \<Rightarrow> BatchGroup list \<Rightarrow> BatchGroup list \<Rightarrow> bool" where
  "hand_wf cfg c g pre post \<longleftrightarrow> groups_wf cfg c (pre @ post) \<and> (\<forall>BG\<in>set pre \<union> set (tl post). filled BG) \<and> post \<noteq> [] \<and>
    CompactPtrGroupBase (hd post) = g"

lemma list_wf_at:
  assumes "list_wf cfg c (pre @ post)" and "c \<noteq> 0"
  shows "\<forall>BG\<in>set pre. \<forall>BG'\<in>set post. CompactPtrGroupBase BG < CompactPtrGroupBase BG'"
  using assms by (auto simp: list_wf_def groups_wf_def sorted_wrt_append)

lemma seek_group_sorted:
  assumes w: "list_wf cfg c L" and c: "c \<noteq> 0" and s: "seek_group g [] L = (pre, post)"
  shows "pre @ post = L" "\<forall>BG\<in>set pre. CompactPtrGroupBase BG < g" "\<forall>BG\<in>set post. g \<le> CompactPtrGroupBase BG"
proof -
  let ?p = "\<lambda>BG. CompactPtrGroupBase BG < g"
  have e: "pre = takeWhile ?p L" "post = dropWhile ?p L" using s by (simp_all add: seek_group_while)
  show "pre @ post = L" "\<forall>BG\<in>set pre. ?p BG" by (auto simp: e dest: set_takeWhileD)
  have "list_wf cfg c post"
    using w e(2) by (auto simp: list_wf_def groups_wf_def dropWhile_eq_drop sorted_wrt_drop drop_map [symmetric] dest: in_set_dropD)
  then show "\<forall>BG\<in>set post. g \<le> CompactPtrGroupBase BG"
  proof (cases post)
    case (Cons BG rest)
    then have "dropWhile ?p L \<noteq> []" "hd (dropWhile ?p L) = BG" by (simp_all flip: e(2))
    from hd_dropWhile [OF this(1)] this(2) have "g \<le> CompactPtrGroupBase BG" by (simp add: not_less)
    then show ?thesis using \<open>list_wf cfg c post\<close> c by (auto simp: Cons list_wf_Cons)
  qed simp
qed

lemma ensure_group_wf:
  assumes h: "held cfg S0 X Y M S" and w: "pwf cfg S" and c: "c \<noteq> 0" and L: "list_wf cfg c (pre @ post)"
    and lo: "\<forall>BG\<in>set pre. CompactPtrGroupBase BG < g" and hi: "\<forall>BG\<in>set post. g \<le> CompactPtrGroupBase BG"
  shows "res_ok cfg (\<lambda>(post', S'). pwf cfg S' \<and> hand_wf cfg c g pre post') (ensure_group cfg env g post S)"
proof (cases "\<exists>BG rest. post = BG # rest \<and> CompactPtrGroupBase BG = g")
  case True
  then show ?thesis using w L by (auto simp: ensure_group_def hand_wf_def list_wf_def)
next
  case False
  have hi': "\<forall>BG\<in>set post. g < CompactPtrGroupBase BG"
  proof (cases post)
    case (Cons BG rest)
    then have "g < CompactPtrGroupBase BG" using False hi by (auto simp: order.strict_iff_order)
    then show ?thesis using L c by (auto simp: Cons list_wf_def groups_wf_def sorted_wrt_append)
  qed simp
  have e: "ensure_group cfg env g post S = bindR (CreateGroup cfg env g S) (\<lambda>(BG, S). Inr (BG # post, S))"
    using False by (auto simp: ensure_group_def split: list.split)
  show ?thesis
    unfolding e
    by (rule res_ok_bind [OF CreateGroup_wf [OF h w c]])
      (use L lo hi' in \<open>auto simp: hand_wf_def list_wf_def groups_wf_def sorted_wrt_append\<close>)
qed

lemma hand_insert_wf:
  assumes h: "in_hand cfg S0 X Y L0 A (pre @ BG # post) S" and w: "pwf cfg S" and c: "c \<noteq> 0" and H: "hand_wf cfg c g pre (BG # post)"
    and as: "as \<noteq> []" "\<forall>a\<in>set as. compactPtrGroup cfg a = g"
  shows "res_ok cfg (\<lambda>(BG', S'). pwf cfg S' \<and> list_wf cfg c (pre @ BG' # post) \<and> CompactPtrGroupBase BG' = g) (insert_in_group cfg env BG as S)"
proof -
  obtain M where M: "held cfg S0 X Y M S" using h by (auto simp: in_hand_def)
  have g: "group_wf cfg c BG" "CompactPtrGroupBase BG = g" using H by (simp_all add: hand_wf_def groups_wf_def)
  show ?thesis
    by (rule res_ok_weaken [OF insert_in_group_wf [OF M w g(1) c as(1) as(2) [folded g(2)]]])
      (use H g(2) in \<open>auto simp: hand_wf_def list_wf_def groups_wf_def sorted_wrt_append\<close>)
qed

section \<open>Segments\<close>

lemma list_wf_bounds:
  assumes "list_wf cfg c (pre @ BG # post)" and "c \<noteq> 0" and "CompactPtrGroupBase BG < g"
  shows "\<forall>B\<in>set (pre @ [BG]). CompactPtrGroupBase B < g"
  using assms by (auto simp: list_wf_def groups_wf_def sorted_wrt_append)

lemma seek_group_past:
  assumes L: "list_wf cfg c (pre @ BG # post)" and c: "c \<noteq> 0" and g: "CompactPtrGroupBase BG < g"
    and s: "seek_group g pre (BG # post) = (pre', post')"
  shows "pre' \<noteq> []" "pre' @ post' = pre @ BG # post" "\<forall>B\<in>set pre'. CompactPtrGroupBase B < g" "\<forall>B\<in>set post'. g \<le> CompactPtrGroupBase B"
proof -
  let ?p = "\<lambda>B. CompactPtrGroupBase B < g"
  have lo: "\<forall>B\<in>set (pre @ [BG]). ?p B" by (rule list_wf_bounds [OF L c g])
  have "takeWhile ?p (pre @ BG # post) = pre @ BG # takeWhile ?p post" "dropWhile ?p (pre @ BG # post) = dropWhile ?p post"
    using lo by (simp_all add: takeWhile_append2 dropWhile_append2)
  moreover have e: "pre' = pre @ BG # takeWhile ?p post" "post' = dropWhile ?p post"
    using s g by (simp_all add: seek_group_while)
  ultimately have s0: "seek_group g [] (pre @ BG # post) = (pre', post')" by (simp add: seek_group_while)
  show "pre' \<noteq> []" by (simp add: e)
  show "pre' @ post' = pre @ BG # post" "\<forall>B\<in>set pre'. CompactPtrGroupBase B < g" "\<forall>B\<in>set post'. g \<le> CompactPtrGroupBase B"
    using seek_group_sorted [OF L c s0] by simp_all
qed

lemma push_segments_wf:
  "\<lbrakk> in_hand cfg S0 X Y L0 A (pre @ post) S; pwf cfg S; c \<noteq> 0; hand_wf cfg c (compactPtrGroup cfg (last seg)) pre post; seg \<noteq> [];
     \<forall>a\<in>set seg. compactPtrGroup cfg a = compactPtrGroup cfg (last seg); sorted (map (compactPtrGroup cfg) (last seg # as)) \<rbrakk> \<Longrightarrow>
    res_ok cfg (\<lambda>(L, S'). pwf cfg S' \<and> list_wf cfg c L) (push_segments cfg env pre post seg as S)"
proof (induction cfg env pre post seg as S arbitrary: A rule: push_segments.induct)
  case (1 cfg env pre seg as S)
  show ?case using 1(4) by (simp add: hand_wf_def)
next
  case (2 cfg env pre BG post seg S)
  show ?case
    unfolding push_segments.simps
    by (rule res_ok_bind [OF hand_insert_wf [OF 2(1-4) 2(5,6)]]) (auto split: prod.split)
next
  case (3 cfg env pre BG post seg a as S)
  let ?g = "compactPtrGroup cfg"
  show ?case
  proof (cases "?g (last seg) \<noteq> ?g a")
    case True
    then have lt: "?g (last seg) < ?g a" using 3(9) by (simp add: order.strict_iff_order)
    have e: "push_segments cfg env pre (BG # post) seg (a # as) S =
        bindR (insert_in_group cfg env BG seg S) (\<lambda>(BG, S).
         case seek_group (?g a) pre (BG # post) of (pre, post) \<Rightarrow>
           if pre = [] then Inl (NullDereference ''Prev'')
           else bindR (ensure_group cfg env (?g a) post S) (\<lambda>(post, S). push_segments cfg env pre post [a] as S))"
      using True by simp
    show ?thesis
      unfolding e
    proof (rule res_ok_bind [OF hand_insert_wf [OF 3(3-8)]])
      fix x assume ins: "insert_in_group cfg env BG seg S = Inr x"
        and Q: "case x of (BG', S') \<Rightarrow> pwf cfg S' \<and> list_wf cfg c (pre @ BG' # post) \<and> CompactPtrGroupBase BG' = ?g (last seg)"
      obtain BG' S1 where x: "x = (BG', S1)" by (rule prod.exhaust)
      have w1: "pwf cfg S1" and L1: "list_wf cfg c (pre @ BG' # post)" and b1: "CompactPtrGroupBase BG' < ?g a"
        using Q lt by (simp_all add: x)
      obtain pre' post' where s: "seek_group (?g a) pre (BG' # post) = (pre', post')" by (rule prod.exhaust)
      note p = seek_group_past [OF L1 3(5) b1 s]
      have h1: "in_hand cfg S0 X Y L0 (A + mset seg) (pre' @ post') S1"
        unfolding p(2) by (rule in_hand_insert [OF 3(3) ins [unfolded x]])
      obtain M where M: "held cfg S0 X Y M S1" using h1 by (auto simp: in_hand_def)
      have r: "res_ok cfg (\<lambda>(L, S'). pwf cfg S' \<and> list_wf cfg c L)
          (bindR (ensure_group cfg env (?g a) post' S1) (\<lambda>(post, S). push_segments cfg env pre' post [a] as S))"
      proof (rule res_ok_bind [OF ensure_group_wf [OF M w1 3(5) L1 [folded p(2)] p(3,4)]])
        fix y assume en: "ensure_group cfg env (?g a) post' S1 = Inr y"
          and Q: "case y of (post', S') \<Rightarrow> pwf cfg S' \<and> hand_wf cfg c (?g a) pre' post'"
        obtain post2 S2 where y: "y = (post2, S2)" by (rule prod.exhaust)
        have w2: "pwf cfg S2" and H: "hand_wf cfg c (?g (last [a])) pre' post2" using Q by (simp_all add: y)
        have so: "sorted (map ?g (last [a] # as))" using 3(9) by simp
        show "res_ok cfg (\<lambda>(L, S'). pwf cfg S' \<and> list_wf cfg c L) (case y of (post, S) \<Rightarrow> push_segments cfg env pre' post [a] as S)"
          unfolding y prod.case
          by (rule 3(1) [OF True s [symmetric] p(1) in_hand_group(1) [OF h1 en [unfolded y]] w2 3(5) H _ _ so]) simp_all
      qed
      show "res_ok cfg (\<lambda>(L, S'). pwf cfg S' \<and> list_wf cfg c L)
         (case x of (BG, S) \<Rightarrow> case seek_group (?g a) pre (BG # post) of (pre, post) \<Rightarrow>
           if pre = [] then Inl (NullDereference ''Prev'')
           else bindR (ensure_group cfg env (?g a) post S) (\<lambda>(post, S). push_segments cfg env pre post [a] as S))"
        unfolding x prod.case s if_not_P [OF p(1)] by (rule r)
    qed
  next
    case False
    then have g: "?g (last (seg @ [a])) = ?g (last seg)" by simp
    have H: "hand_wf cfg c (?g (last (seg @ [a]))) pre (BG # post)" unfolding g by (rule 3(6))
    have sg: "\<forall>b\<in>set (seg @ [a]). ?g b = ?g (last (seg @ [a]))" using 3(8) g False by simp
    have so: "sorted (map ?g (last (seg @ [a]) # as))" using 3(9) by simp
    have "push_segments cfg env pre (BG # post) seg (a # as) S = push_segments cfg env pre (BG # post) (seg @ [a]) as S"
      using False by simp
    then show ?thesis using 3(2) [OF False 3(3-5) H _ sg so] by simp
  qed
qed

section \<open>pushBlocks\<close>

lemma pushBlocksImpl_wf:
  assumes inv: "pinv cfg S X Y" and w: "pwf cfg S" and c: "c \<noteq> 0" "c < pcNumClasses cfg" and A: "A \<noteq> []"
    and g: "same \<Longrightarrow> \<forall>a\<in>set A. compactPtrGroup cfg a = compactPtrGroup cfg (hd A)" "\<not> same \<Longrightarrow> sorted (map (compactPtrGroup cfg) A)"
  shows "res_ok cfg (pwf cfg) (pushBlocksImpl cfg env c A same S)"
proof -
  obtain P0 C where S: "S = (P0, C)" by (rule prod.exhaust)
  define P where "P = upd_region c (\<lambda>R. R\<lparr>PushedBlocks := PushedBlocks R + of_nat (List.length A)\<rparr>) P0"
  let ?g = "compactPtrGroup cfg (hd A)" and ?L0 = "BlockList (Regions P c)"
  obtain pre post where sk: "seek_group ?g [] ?L0 = (pre, post)" by (rule prod.exhaust)
  have sb: "same_blocks S (P, C)" by (simp add: S P_def same_blocks_def same_geo_def)
  have inv1: "pinv cfg (P, C) X Y" by (rule same_blocks_inv [OF sb inv])
  have w1: "pwf cfg (P, C)" unfolding P_def by (rule pwf_upd_region) (use w S in simp_all)
  have L0: "list_wf cfg c ?L0" using pwfD(2) [OF w1 c(2)] by simp
  note sg = seek_group_sorted [OF L0 c(1) sk]
  have L: "list_wf cfg c (pre @ post)" unfolding sg(1) by (rule L0)
  have h0: "held cfg (P, C) X Y {#} (P, C)" using inv1 by (simp add: held_def)
  have h: "in_hand cfg (P, C) X Y ?L0 {#} (pre @ post) (P, C)"
    unfolding sg(1) in_hand_def
    using inv1 c by (auto simp: held_def pinv_def intro!: exI [of _ "{#}"])
  let ?ins = "\<lambda>post S. if same then bindR (insert_in_group cfg env (hd post) A S) (\<lambda>(BG, S). Inr (pre @ BG # tl post, S))
              else push_segments cfg env pre post [hd A] (tl A) S"
  have e: "pushBlocksImpl cfg env c A same S =
      bindR (ensure_group cfg env ?g post (P, C)) (\<lambda>(post, S). bindR (?ins post S) (\<lambda>(L, (P, C)). Inr (set_blocks c L P, C)))"
    unfolding S pushBlocksImpl_def prod.case Let_def P_def [symmetric] sk ..
  show ?thesis
    unfolding e
  proof (rule res_ok_bind [OF ensure_group_wf [OF h0 w1 c(1) L sg(2,3)]])
    fix x assume en: "ensure_group cfg env ?g post (P, C) = Inr x"
      and Q: "case x of (post', S') \<Rightarrow> pwf cfg S' \<and> hand_wf cfg c ?g pre post'"
    obtain post1 S1 where x: "x = (post1, S1)" by (rule prod.exhaust)
    have w2: "pwf cfg S1" and H: "hand_wf cfg c ?g pre post1" using Q by (simp_all add: x)
    note h1 = in_hand_group [OF h en [unfolded x]]
    have p1: "post1 = hd post1 # tl post1" using h1(2) by simp
    have r: "res_ok cfg (\<lambda>(L, S'). pwf cfg S' \<and> list_wf cfg c L) (?ins post1 S1)"
    proof (cases same)
      case True
      have "res_ok cfg (\<lambda>(L, S'). pwf cfg S' \<and> list_wf cfg c L)
        (bindR (insert_in_group cfg env (hd post1) A S1) (\<lambda>(BG, S). Inr (pre @ BG # tl post1, S)))"
        by (rule res_ok_bind [OF hand_insert_wf [OF h1(1) [unfolded arg_cong [OF p1, of "\<lambda>l. pre @ l"]] w2 c(1) H [unfolded arg_cong [OF p1, of "hand_wf cfg c ?g pre"]] A g(1) [OF True]]])
          (auto split: prod.split)
      then show ?thesis using True by simp
    next
      case False
      have so: "sorted (map (compactPtrGroup cfg) (last [hd A] # tl A))" using g(2) [OF False] A by simp
      have "hand_wf cfg c (compactPtrGroup cfg (last [hd A])) pre post1" using H by simp
      from push_segments_wf [OF h1(1) w2 c(1) this _ _ so] show ?thesis using False by simp
    qed
    have "res_ok cfg (pwf cfg) (bindR (?ins post1 S1) (\<lambda>(L, (P, C)). Inr (set_blocks c L P, C)))"
      by (rule res_ok_bind [OF r]) (auto intro: set_blocks_wf split: prod.split)
    then show "res_ok cfg (pwf cfg) (case x of (post, S) \<Rightarrow> bindR (?ins post S) (\<lambda>(L, (P, C)). Inr (set_blocks c L P, C)))"
      by (simp only: x prod.case)
  qed
qed

text \<open>The insertion sort.\<close>

lemma sort_step_sorted:
  "sorted_wrt (\<lambda>x y. compactPtrGroup cfg y \<le> compactPtrGroup cfg x) xs \<Longrightarrow>
    sorted_wrt (\<lambda>x y. compactPtrGroup cfg y \<le> compactPtrGroup cfg x) (sort_step cfg a xs)"
proof (induction cfg a xs rule: sort_step.induct)
  case (2 cfg a x xs)
  have "set (sort_step cfg a xs) = insert a (set xs)" by (metis set_mset_mset sort_step_mset set_mset_add_mset_insert)
  then show ?case using 2 by force
qed simp

lemma sort_loop_ok:
  "\<lbrakk> sort_loop cfg rv same as = (A, same'); sorted_wrt (\<lambda>x y. compactPtrGroup cfg y \<le> compactPtrGroup cfg x) rv;
     same \<Longrightarrow> \<forall>x\<in>set rv. compactPtrGroup cfg x = compactPtrGroup cfg (hd rv) \<rbrakk> \<Longrightarrow>
    sorted (map (compactPtrGroup cfg) A) \<and> (same' \<longrightarrow> (\<forall>x\<in>set A. compactPtrGroup cfg x = compactPtrGroup cfg (hd A)))"
proof (induction cfg rv same as rule: sort_loop.induct)
  case (1 cfg rv same)
  have "sorted (map (compactPtrGroup cfg) (rev rv))"
    using 1(2) by (simp add: sorted_wrt_map sorted_wrt_rev)
  moreover have "\<forall>x\<in>set (rev rv). compactPtrGroup cfg x = compactPtrGroup cfg (hd (rev rv))" if same
    using 1(3) [OF that] by (cases "rev rv") auto
  ultimately show ?case using 1(1) by auto
next
  case (2 cfg rv same a as)
  let ?same = "same \<and> (case rv of [] \<Rightarrow> True | x # _ \<Rightarrow> compactPtrGroup cfg x = compactPtrGroup cfg a)"
  have s: "sort_loop cfg (sort_step cfg a rv) ?same as = (A, same')" using 2(2) by simp
  have "\<forall>x\<in>set (sort_step cfg a rv). compactPtrGroup cfg x = compactPtrGroup cfg (hd (sort_step cfg a rv))" if ?same
    using that 2(4) by (cases rv) auto
  from 2(1) [OF s sort_step_sorted [OF 2(3)] this] show ?case by simp
qed

lemma pushBlocks_wf:
  assumes inv: "pinv cfg S X Y" and w: "pwf cfg S" and c: "c < pcNumClasses cfg" and A: "A \<noteq> []" "\<forall>a\<in>set A. valid_ptr cfg a"
    and X: "X c = X' c + mset A" "\<And>d. d \<noteq> c \<Longrightarrow> X' d = X d"
  shows "res_ok cfg (pwf cfg) (pushBlocks cfg env c A S)"
proof (cases "c = 0")
  case True
  then show ?thesis using batch_typed.push_wf [of cfg S X Y A X'] assms by (simp add: pushBlocks_def)
next
  case False
  obtain A' same where s: "sort_loop cfg [] True A = (A', same)" by (rule prod.exhaust)
  have "mset A' = mset A" using sort_loop_mset [OF s] by simp
  then have "A' \<noteq> []" using A by auto
  have g: "same \<Longrightarrow> \<forall>a\<in>set A'. compactPtrGroup cfg a = compactPtrGroup cfg (hd A')" "sorted (map (compactPtrGroup cfg) A')"
    using sort_loop_ok [OF s] by simp_all
  have "res_ok cfg (pwf cfg) (pushBlocksImpl cfg env c A' same S)"
    by (rule pushBlocksImpl_wf [OF inv w False c \<open>A' \<noteq> []\<close> g])
  moreover have "GroupSizeLog cfg < RegionSizeLog cfg" using pwfD(1) [OF w] by (simp add: cfg_wf_def)
  then have "pushBlocks cfg env c A S = pushBlocksImpl cfg env c A' same S"
    using False s by (simp only: pushBlocks_def if_True if_False Let_def prod.case)
  ultimately show ?thesis by simp
qed

section \<open>New blocks of a class\<close>

lemma push_shuffled_wf:
  assumes inv: "pinv cfg (P, C) X Y" and w: "pwf cfg (P, C)" and c: "c \<noteq> 0" "c < pcNumClasses cfg" and seg: "seg \<noteq> []"
    and g: "\<forall>a\<in>set seg. compactPtrGroup cfg a = g"
  shows "res_ok cfg (pwf cfg) (case shuffle seg (of_nat (List.length seg)) (RandState (Regions P c)) of (seg, r) \<Rightarrow>
           pushBlocksImpl cfg env c seg True (upd_region c (\<lambda>R. R\<lparr>RandState := r\<rparr>) P, C))"
proof -
  obtain seg' r' where s: "shuffle seg (of_nat (List.length seg)) (RandState (Regions P c)) = (seg', r')" by (rule prod.exhaust)
  have "unat (of_nat (List.length seg) :: u32) \<le> List.length seg" by (simp add: unat_of_nat)
  from shuffle_mset [OF this, of "RandState (Regions P c)"] have m: "mset seg' = mset seg" using s by simp
  then have ne: "seg' \<noteq> []" "set seg' = set seg" using seg by (auto dest: mset_eq_setD)
  let ?T = "(upd_region c (\<lambda>R. R\<lparr>RandState := r'\<rparr>) P, C)"
  have sb: "same_blocks (P, C) ?T" by (simp add: same_blocks_def same_geo_def)
  have "pwf cfg ?T" by (rule pwf_upd_region [OF w]) simp
  moreover have "\<forall>a\<in>set seg'. compactPtrGroup cfg a = compactPtrGroup cfg (hd seg')" using g ne hd_in_set [OF ne(1)] by simp
  ultimately show ?thesis
    unfolding s prod.case by (intro pushBlocksImpl_wf [OF same_blocks_inv [OF sb inv] _ c ne(1)]) simp_all
qed

lemma push_new_segments_wf:
  "\<lbrakk> pinv cfg S X Y; pwf cfg S; c \<noteq> 0; c < pcNumClasses cfg; seg \<noteq> []; \<forall>a\<in>set seg. compactPtrGroup cfg a = compactPtrGroup cfg (last seg);
     X c = X' c + mset seg + mset as; \<And>d. d \<noteq> c \<Longrightarrow> X' d = X d \<rbrakk> \<Longrightarrow> res_ok cfg (pwf cfg) (push_new_segments cfg env c seg as S)"
proof (induction as arbitrary: seg S X)
  case Nil
  obtain P C where S: "S = (P, C)" by (rule prod.exhaust)
  show ?case
    using push_shuffled_wf [OF Nil(1,2) [unfolded S] Nil(3-6), of env] by (simp add: S)
next
  case (Cons a as)
  obtain P C where S: "S = (P, C)" by (rule prod.exhaust)
  let ?push = "case shuffle seg (of_nat (List.length seg)) (RandState (Regions P c)) of (seg, r) \<Rightarrow>
           pushBlocksImpl cfg env c seg True (upd_region c (\<lambda>R. R\<lparr>RandState := r\<rparr>) P, C)"
  note p = push_shuffled_wf [OF Cons(2,3) [unfolded S] Cons(4-7), of env]
  show ?case
  proof (cases "compactPtrGroup cfg a \<noteq> compactPtrGroup cfg (last seg)")
    case True
    let ?X = "X'(c := X' c + mset [a] + mset as)"
    have "res_ok cfg (pwf cfg) (bindR ?push (push_new_segments cfg env c [a] as))"
    proof (rule res_ok_bind [OF p])
      fix S1 assume r: "?push = Inr S1" and w1: "pwf cfg S1"
      have "pushed_ok cfg c (P, C) ?X Y S1"
        by (rule push_shuffled_inv [OF Cons(2) [unfolded S] Cons(4-6) _ _ r]) (use Cons(8,9) in simp_all)
      then have i: "pinv cfg S1 ?X Y" by (simp add: pushed_ok_def)
      show "res_ok cfg (pwf cfg) (push_new_segments cfg env c [a] as S1)"
        by (rule Cons(1) [OF i w1 Cons(4,5)]) simp_all
    qed
    then show ?thesis using True by (simp add: S)
  next
    case False
    have sg: "\<forall>b\<in>set (seg @ [a]). compactPtrGroup cfg b = compactPtrGroup cfg (last (seg @ [a]))" using Cons(7) False by simp
    have "X c = X' c + mset (seg @ [a]) + mset as" using Cons(8) by simp
    from Cons(1) [OF Cons(2-5) _ sg this Cons(9)] show ?thesis using False by (simp add: S)
  qed
qed

interpretation class_typed: typed_pusher cfg c "push_new_blocks cfg env c" for cfg env c
proof (unfold_locales, goal_cases)
  case (1 S X Y A X')
  show ?case
  proof (cases "c = 0")
    case True
    then show ?thesis using batch_typed.push_wf [of cfg S X Y A X'] 1 by (simp add: push_new_blocks_def)
  next
    case False
    have m: "mset [hd A] + mset (tl A) = mset A" using 1(4) by (cases A) simp_all
    then have X: "X c = X' c + mset [hd A] + mset (tl A)" using 1(6) by (simp only: add.assoc)
    have "res_ok cfg (pwf cfg) (push_new_segments cfg env c [hd A] (tl A) S)"
      by (rule push_new_segments_wf [OF 1(2,3) False 1(1) _ _ X 1(7)]) simp_all
    then show ?thesis using False by (simp add: push_new_blocks_def)
  qed
qed

end
