(* ===== verification/Primary64_Release.thy ===== *)
theory Primary64_Release
  imports Primary64_Push_Wf
begin

text \<open>Releasing pages, as far as the free lists go: which groups are taken out of the free list of a region,
  and how they are merged back into what the list has become meanwhile. No block gets lost, and the
  list stays well-formed. What happens to the pages of the groups in between is in Release.\<close>

section \<open>Whether to release\<close>

datatype ReleaseToOS = NormalRelease | ForceRelease | ForceAllRelease

definition updateCheckpoint :: "uptr \<Rightarrow> RegionInfo \<Rightarrow> RegionInfo" where
  "updateCheckpoint BytesInFreeList R = (if BytesInFreeList \<le> BytesInFreeListAtLastCheckpoint R
     then R\<lparr>BytesInFreeListAtLastCheckpoint := BytesInFreeList\<rparr> else R)"

definition hasChanceToReleasePages :: "uptr \<Rightarrow> u64 \<Rightarrow> int \<Rightarrow> uptr \<Rightarrow> uptr \<Rightarrow> ReleaseToOS \<Rightarrow> RegionInfo \<Rightarrow> bool \<times> RegionInfo" where
  "hasChanceToReleasePages PgSize Now IntervalMs BlockSize BytesInFreeList ReleaseType R =
    (let R = updateCheckpoint BytesInFreeList R;
         RegionPushedBytesDelta = BytesInFreeList - BytesInFreeListAtLastCheckpoint R
     in if ReleaseType = NormalRelease then
          (if RegionPushedBytesDelta < TryReleaseThreshold R div 2 then (False, R)
           else if IntervalMs < 0 then (False, R)
           else let IntervalNs = of_int IntervalMs * 1000000;
                    DiffSinceLastReleaseNs = Now - LastReleaseAtNs R
                in if RegionPushedBytesDelta < TryReleaseThreshold R then (\<not> DiffSinceLastReleaseNs < 2 * IntervalNs, R)
                   else if DiffSinceLastReleaseNs < IntervalNs
                   then (False, if isSmallBlock PgSize BlockSize then R else R\<lparr>PendingPushedBytesDelta := RegionPushedBytesDelta\<rparr>)
                   else (True, R))
        else (True, R))"

section \<open>Taking groups out\<close>

definition group_blocks :: "BatchGroup \<Rightarrow> uptr" where
  "group_blocks BG = (of_nat (List.length (Batches BG)) - 1) * ucast (MaxCachedPerBatch BG) + of_nat (tb_Count (hd (Batches BG)))"

text \<open>For a group of small blocks: whether it is released, and the distance to the threshold.\<close>

definition small_group :: "pri_config \<Rightarrow> uptr \<Rightarrow> uptr \<Rightarrow> uptr \<Rightarrow> uptr \<Rightarrow> uptr \<Rightarrow> uptr \<Rightarrow> uptr \<Rightarrow> uptr \<Rightarrow> bool \<times> uptr" where
  "small_group cfg PgSize PageDelta BlockSize AllocatedUserEnd BatchGroupBase NumBlocks PushedBytesDelta MinDist =
    (let GroupSize = push_bit (GroupSizeLog cfg) 1;
         BytesInBG = NumBlocks * BlockSize;
         BatchGroupEnd = BatchGroupBase + GroupSize;
         AllocatedGroupSize = (if BatchGroupEnd \<le> AllocatedUserEnd then GroupSize else AllocatedUserEnd - BatchGroupBase);
         ReleaseThreshold = AllocatedGroupSize * (100 - 1 - BlockSize div 16) div 100;
         HighDensity = (ReleaseThreshold \<le> BytesInBG);
         MayHaveReleasedAll = (GroupSize div BlockSize \<le> NumBlocks);
         ReachReleaseDelta = (if MayHaveReleasedAll then True else PgSize * PageDelta \<le> PushedBytesDelta)
     in (HighDensity \<and> ReachReleaseDelta,
         min MinDist (if \<not> HighDensity then ReleaseThreshold - BytesInBG + PushedBytesDelta else PgSize * PageDelta)))"

text \<open>The groups that stay, the groups taken out, and the distance.\<close>

fun collect_groups :: "pri_config \<Rightarrow> uptr \<Rightarrow> uptr \<Rightarrow> uptr \<Rightarrow> uptr \<Rightarrow> uptr \<Rightarrow> BatchGroup list \<Rightarrow> uptr \<Rightarrow>
    BatchGroup list \<times> BatchGroup list \<times> uptr" where
  "collect_groups cfg PgSize PageDelta BlockSize AllocatedUserEnd CompactPtrBase [] MinDist = ([], [], MinDist)"
| "collect_groups cfg PgSize PageDelta BlockSize AllocatedUserEnd CompactPtrBase (BG # L) MinDist =
    (let BatchGroupBase = decompactGroupBase cfg CompactPtrBase (CompactPtrGroupBase BG);
         NumBlocks = group_blocks BG;
         BytesInBG = NumBlocks * BlockSize;
         PushedBytesDelta = BytesInBG - BytesInBGAtLastCheckpoint BG;
         checked = BG\<lparr>BytesInBGAtLastCheckpoint := BytesInBG\<rparr>;
         (take, BG', MinDist) =
           (if BytesInBG \<le> BytesInBGAtLastCheckpoint BG then (False, checked, MinDist)
            else if PushedBytesDelta < getMinReleaseAttemptSize PgSize BlockSize then (False, BG, MinDist)
            else if isSmallBlock PgSize BlockSize then
              let (ok, MinDist) = small_group cfg PgSize PageDelta BlockSize AllocatedUserEnd BatchGroupBase NumBlocks PushedBytesDelta MinDist
              in (ok, if ok then checked else BG, MinDist)
            else (True, checked, MinDist));
         (kept, taken, MinDist) = collect_groups cfg PgSize PageDelta BlockSize AllocatedUserEnd CompactPtrBase L MinDist
     in if take then (kept, BG' # taken, MinDist) else (BG' # kept, taken, MinDist))"

definition collectGroupsToRelease :: "pri_config \<Rightarrow> uptr \<Rightarrow> uptr \<Rightarrow> uptr \<Rightarrow> RegionInfo \<Rightarrow> BatchGroup list \<times> RegionInfo" where
  "collectGroupsToRelease cfg PgSize PageDelta BlockSize R =
    (let GroupSize = push_bit (GroupSizeLog cfg) 1;
         (kept, taken, MinDist) = collect_groups cfg PgSize PageDelta BlockSize (AllocatedUser R + RegionBeg R) (RegionBeg R) (BlockList R) GroupSize;
         R = R\<lparr>BlockList := kept\<rparr>
     in (taken, if isSmallBlock PgSize BlockSize
                then R\<lparr>TryReleaseThreshold := (if MinDist = GroupSize then PgSize * PageDelta else MinDist)\<rparr> else R))"

section \<open>Merging groups back\<close>

text \<open>Two groups with the same base: the batches of the merged group, and the batch that is not needed any
  more.\<close>

definition merge_batches :: "u16 \<Rightarrow> TransferBatch list \<Rightarrow> TransferBatch list \<Rightarrow> TransferBatch list \<times> TransferBatch option" where
  "merge_batches Mx Bs Cs =
    (if tb_Count (hd Cs) = unat Mx then (Bs @ Cs, None)
     else let NonFull = hd Cs; Bs = Bs @ tl Cs in
       if tb_Count (hd Bs) = unat Mx then (NonFull # Bs, None)
       else let n = min (unat (Mx - of_nat (tb_Count (hd Bs)))) (tb_Count NonFull);
                (B, NonFull) = appendFromTransferBatch NonFull n (hd Bs);
                Bs = B # tl Bs
            in if tb_empty NonFull then (Bs, Some NonFull) else (NonFull # Bs, None))"

definition merge_group :: "BatchGroup \<Rightarrow> BatchGroup \<Rightarrow> BatchGroup \<times> TransferBatch option" where
  "merge_group BG Cur = (let (Bs, unused) = merge_batches (MaxCachedPerBatch BG) (Batches BG) (Batches Cur)
     in (BG\<lparr>BytesInBGAtLastCheckpoint := BytesInBGAtLastCheckpoint Cur, Batches := Bs\<rparr>, unused))"

text \<open>The blocks of groups and batches that are not needed any more go to the region of the batch class, at
  most 8 at a time; Blocks are the ones that wait.\<close>

definition MaxUnusedSize :: nat where "MaxUnusedSize = 8"

definition recycle_blocks :: "pri_config \<Rightarrow> BatchGroup \<Rightarrow> TransferBatch option \<Rightarrow> uptr list \<times> RegionInfo \<Rightarrow> uptr list \<times> RegionInfo" where
  "recycle_blocks cfg Cur unused = (\<lambda>(Blocks, R).
    let NeededSlots = (case unused of None \<Rightarrow> 1 | Some _ \<Rightarrow> 2);
        (Blocks, R) = (if MaxUnusedSize < List.length Blocks + NeededSlots then ([], pushBatchClassBlocks cfg Blocks R) else (Blocks, R));
        compact = compactPtrInternal cfg (RegionBeg R)
    in (Blocks @ [compact (bgAddr Cur)] @ (case unused of None \<Rightarrow> [] | Some B \<Rightarrow> [compact (tbAddr B)]), R))"

fun merge_groups :: "pri_config \<Rightarrow> BatchGroup list \<Rightarrow> BatchGroup list \<Rightarrow> uptr list \<times> RegionInfo \<Rightarrow> BatchGroup list \<times> uptr list \<times> RegionInfo" where
  "merge_groups cfg L [] W = (L, W)"
| "merge_groups cfg [] (Cur # G) W = (Cur # G, W)"
| "merge_groups cfg (BG # L) (Cur # G) W =
    (if CompactPtrGroupBase BG < CompactPtrGroupBase Cur then
       (case merge_groups cfg L (Cur # G) W of (L, W) \<Rightarrow> (BG # L, W))
     else if CompactPtrGroupBase BG = CompactPtrGroupBase Cur then
       (case merge_group BG Cur of (BG, unused) \<Rightarrow>
          case merge_groups cfg L G (recycle_blocks cfg Cur unused W) of (L, W) \<Rightarrow> (BG # L, W))
     else (case merge_groups cfg (BG # L) G W of (L, W) \<Rightarrow> (Cur # L, W)))"

definition mergeGroupsToReleaseBack :: "pri_config \<Rightarrow> nat \<Rightarrow> BatchGroup list \<Rightarrow> primary \<Rightarrow> primary" where
  "mergeGroupsToReleaseBack cfg c GroupsToRelease P =
    (case merge_groups cfg (BlockList (Regions P c)) GroupsToRelease ([], Regions P 0) of (L, Blocks, R0) \<Rightarrow>
       let P = upd_region 0 (\<lambda>_. if Blocks \<noteq> [] then pushBatchClassBlocks cfg Blocks R0 else R0) P
       in set_blocks c L P)"

text \<open>The first part of releaseToOSMaybe, under the lock of the free list: the groups taken out, if it is
  worth a release, with the free bytes and their growth. The checks are done for the type given.\<close>

definition release_begin :: "pri_config \<Rightarrow> uptr \<Rightarrow> u64 \<Rightarrow> int \<Rightarrow> nat \<Rightarrow> uptr \<Rightarrow> ReleaseToOS \<Rightarrow> RegionInfo \<Rightarrow>
    (BatchGroup list \<times> uptr \<times> uptr) option \<times> RegionInfo" where
  "release_begin cfg PgSize Now IntervalMs c PageDelta ReleaseType R =
    (let BlockSize = pri_getSizeByClassId cfg c;
         BytesInFreeList = AllocatedUser R - (PoppedBlocks R - PushedBlocks R) * BlockSize
     in if BytesInFreeList = 0 then (None, R)
        else let (ok, R) = (if ReleaseType \<noteq> ForceAllRelease
                            then hasChanceToReleasePages PgSize Now IntervalMs BlockSize BytesInFreeList ReleaseType R else (True, R))
             in if \<not> ok then (None, R)
                else let RegionPushedBytesDelta = BytesInFreeList - BytesInFreeListAtLastCheckpoint R;
                         (G, R) = (if ReleaseType = ForceAllRelease then (BlockList R, R\<lparr>BlockList := []\<rparr>)
                                   else collectGroupsToRelease cfg PgSize PageDelta BlockSize R)
                     in if G = [] then (None, R)
                        else (Some (G, BytesInFreeList, RegionPushedBytesDelta), R\<lparr>NumReleasesAttempted := NumReleasesAttempted R + 1\<rparr>))"

text \<open>The rest of releaseToOSMaybe: how the release information is adapted after ReleasedBytes have been
  released, and the merge. Without a page map (None) only the merge is done.\<close>

definition release_finish :: "pri_config \<Rightarrow> uptr \<Rightarrow> uptr \<Rightarrow> u64 \<Rightarrow> uptr \<Rightarrow> uptr \<Rightarrow> uptr \<Rightarrow> RegionInfo \<Rightarrow> RegionInfo" where
  "release_finish cfg PgSize BlockSize Now BytesInFreeList RegionPushedBytesDelta ReleasedBytes R =
    (let MinSize = getMinReleaseAttemptSize PgSize BlockSize;
         R = (if 0 < ReleasedBytes then
                (if \<not> isSmallBlock PgSize BlockSize \<and> RegionPushedBytesDelta < TryReleaseThreshold R \<and> LastReleasedBytes R + MinSize < ReleasedBytes
                 then R\<lparr>TryReleaseThreshold := max (TryReleaseThreshold R div 2) MinSize\<rparr> else R)
                \<lparr>BytesInFreeListAtLastCheckpoint := BytesInFreeList, LastReleasedBytes := ReleasedBytes\<rparr>
              else R);
         R = R\<lparr>LastReleaseAtNs := Now\<rparr>
     in if 0 < PendingPushedBytesDelta R
        then R\<lparr>TryReleaseThreshold := min (TryReleaseThreshold R + PendingPushedBytesDelta R div 2) (push_bit (GroupSizeLog cfg) 1 div 2),
               PendingPushedBytesDelta := 0\<rparr>
        else R)"

definition release_end :: "pri_config \<Rightarrow> uptr \<Rightarrow> u64 \<Rightarrow> nat \<Rightarrow> BatchGroup list \<times> uptr \<times> uptr \<Rightarrow> uptr option \<Rightarrow> primary \<Rightarrow> uptr \<times> primary" where
  "release_end cfg PgSize Now c = (\<lambda>(G, BytesInFreeList, RegionPushedBytesDelta) ReleasedBytes P.
    case ReleasedBytes of None \<Rightarrow> (0, mergeGroupsToReleaseBack cfg c G P)
    | Some Released \<Rightarrow> (Released, mergeGroupsToReleaseBack cfg c G
        (upd_region c (release_finish cfg PgSize (pri_getSizeByClassId cfg c) Now BytesInFreeList RegionPushedBytesDelta Released) P)))"

section \<open>The groups taken out\<close>

lemma collect_step:
  assumes "collect_groups cfg pg pd bs e b (BG # L) md = (kept, taken, md')"
  shows "\<exists>k t m0 v. collect_groups cfg pg pd bs e b L m0 = (k, t, md') \<and>
    (kept = BG\<lparr>BytesInBGAtLastCheckpoint := v\<rparr> # k \<and> taken = t \<or> kept = k \<and> taken = BG\<lparr>BytesInBGAtLastCheckpoint := v\<rparr> # t)"
proof -
  obtain take BG' m0 where x: "(\<exists>v. BG' = BG\<lparr>BytesInBGAtLastCheckpoint := v\<rparr>)"
    and y: "(case collect_groups cfg pg pd bs e b L m0 of (kept, taken, MinDist) \<Rightarrow>
      if take then (kept, BG' # taken, MinDist) else (BG' # kept, taken, MinDist)) = (kept, taken, md')"
  proof -
    let ?n = "group_blocks BG" and ?chk = "BG\<lparr>BytesInBGAtLastCheckpoint := group_blocks BG * bs\<rparr>"
    obtain ok m1 where sm: "small_group cfg pg pd bs e (decompactGroupBase cfg b (CompactPtrGroupBase BG)) ?n
      (?n * bs - BytesInBGAtLastCheckpoint BG) md = (ok, m1)" by (rule prod.exhaust)
    have same: "BG = BG\<lparr>BytesInBGAtLastCheckpoint := BytesInBGAtLastCheckpoint BG\<rparr>" by simp
    let ?A = "?n * bs \<le> BytesInBGAtLastCheckpoint BG" and ?B = "?n * bs - BytesInBGAtLastCheckpoint BG < getMinReleaseAttemptSize pg bs"
      and ?C = "isSmallBlock pg bs"
    consider "?A" | "\<not> ?A" "?B" | "\<not> ?A" "\<not> ?B" "?C" "ok" | "\<not> ?A" "\<not> ?B" "?C" "\<not> ok" | "\<not> ?A" "\<not> ?B" "\<not> ?C" by blast
    then show ?thesis
    proof cases
      case 1
      show ?thesis by (rule that [of ?chk False md]) (use assms 1 in \<open>auto simp: Let_def\<close>)
    next
      case 2
      show ?thesis by (rule that [of BG False md]) (use assms 2 same in \<open>simp_all add: Let_def, blast?\<close>)
    next
      case 3
      show ?thesis by (rule that [of ?chk True m1]) (use assms 3 sm in \<open>simp_all add: Let_def, blast?\<close>)
    next
      case 4
      show ?thesis by (rule that [of BG False m1]) (use assms 4 sm same in \<open>simp_all add: Let_def, blast?\<close>)
    next
      case 5
      show ?thesis by (rule that [of ?chk True md]) (use assms 5 in \<open>simp_all add: Let_def, blast?\<close>)
    qed
  qed
  obtain k t m2 where z: "collect_groups cfg pg pd bs e b L m0 = (k, t, m2)" by (metis prod.exhaust)
  show ?thesis using x y z by (auto split: if_splits)
qed

lemma collect_groups_ok:
  "collect_groups cfg pg pd bs e b L md = (kept, taken, md') \<Longrightarrow>
    list_free kept + list_free taken = list_free L \<and> list_meta cfg b' kept + list_meta cfg b' taken = list_meta cfg b' L \<and>
    CompactPtrGroupBase ` set kept \<subseteq> CompactPtrGroupBase ` set L \<and> CompactPtrGroupBase ` set taken \<subseteq> CompactPtrGroupBase ` set L \<and>
    (list_wf cfg c L \<longrightarrow> list_wf cfg c kept \<and> list_wf cfg c taken) \<and>
    ((\<forall>BG\<in>set L. Batches BG \<noteq> []) \<longrightarrow> (\<forall>BG\<in>set kept \<union> set taken. Batches BG \<noteq> []))"
proof (induction L arbitrary: md kept taken md')
  case Nil
  then show ?case by simp
next
  case (Cons BG L)
  obtain k t m0 v where r: "collect_groups cfg pg pd bs e b L m0 = (k, t, md')"
    and o: "kept = BG\<lparr>BytesInBGAtLastCheckpoint := v\<rparr> # k \<and> taken = t \<or> kept = k \<and> taken = BG\<lparr>BytesInBGAtLastCheckpoint := v\<rparr> # t"
    using collect_step [OF Cons(2)] by blast
  note ih = Cons(1) [OF r]
  have g: "group_wf cfg c (BG\<lparr>BytesInBGAtLastCheckpoint := v\<rparr>) = group_wf cfg c BG" "filled (BG\<lparr>BytesInBGAtLastCheckpoint := v\<rparr>) = filled BG" for v
    by (simp_all add: group_wf_def filled_def)
  have sub: "\<forall>B\<in>set k \<union> set t. \<exists>B'\<in>set L. CompactPtrGroupBase B = CompactPtrGroupBase B'" using ih by blast
  have w: "list_wf cfg c (BG\<lparr>BytesInBGAtLastCheckpoint := v\<rparr> # k)" "list_wf cfg c (BG\<lparr>BytesInBGAtLastCheckpoint := v\<rparr> # t)"
    "list_wf cfg c k" "list_wf cfg c t" if L: "list_wf cfg c (BG # L)" for v
  proof -
    have "list_wf cfg c k" "list_wf cfg c t" using ih L by (simp_all add: list_wf_Cons)
    moreover have "\<forall>B\<in>set k \<union> set t. c \<noteq> 0 \<longrightarrow> CompactPtrGroupBase BG < CompactPtrGroupBase B"
      using sub L by (force simp: list_wf_Cons)
    ultimately show "list_wf cfg c (BG\<lparr>BytesInBGAtLastCheckpoint := v\<rparr> # k)" "list_wf cfg c (BG\<lparr>BytesInBGAtLastCheckpoint := v\<rparr> # t)"
      "list_wf cfg c k" "list_wf cfg c t" using L by (simp_all add: list_wf_Cons g)
  qed
  have e: "list_free k + list_free t = list_free L" "list_meta cfg b' k + list_meta cfg b' t = list_meta cfg b' L" using ih by blast+
  have n: "(\<forall>BG\<in>set L. Batches BG \<noteq> []) \<longrightarrow> (\<forall>BG\<in>set k \<union> set t. Batches BG \<noteq> [])" using ih by blast
  have sb: "CompactPtrGroupBase ` set k \<subseteq> CompactPtrGroupBase ` set L" "CompactPtrGroupBase ` set t \<subseteq> CompactPtrGroupBase ` set L"
    using ih by blast+
  have sb': "CompactPtrGroupBase ` set k \<subseteq> insert x (CompactPtrGroupBase ` set L)" "CompactPtrGroupBase ` set t \<subseteq> insert x (CompactPtrGroupBase ` set L)" for x
    using sb by blast+
  from o show ?case
  proof (elim disjE conjE)
    assume k: "kept = BG\<lparr>BytesInBGAtLastCheckpoint := v\<rparr> # k" "taken = t"
    show ?thesis unfolding k using w sb' n by (simp add: ac_simps flip: e)
  next
    assume k: "kept = k" "taken = BG\<lparr>BytesInBGAtLastCheckpoint := v\<rparr> # t"
    show ?thesis unfolding k using w sb' n by (simp add: ac_simps flip: e)
  qed
qed

definition taken_groups :: "(BatchGroup list \<times> uptr \<times> uptr) option \<Rightarrow> BatchGroup list" where
  "taken_groups x = (case x of None \<Rightarrow> [] | Some (G, _) \<Rightarrow> G)"

definition split_list :: "pri_config \<Rightarrow> nat \<Rightarrow> uptr \<Rightarrow> RegionInfo \<Rightarrow> BatchGroup list \<Rightarrow> RegionInfo \<Rightarrow> bool" where
  "split_list cfg c b R G R' \<longleftrightarrow> list_free (BlockList R') + list_free G = list_free (BlockList R) \<and>
    list_meta cfg b (BlockList R') + list_meta cfg b G = list_meta cfg b (BlockList R) \<and>
    list_wf cfg c (BlockList R') \<and> list_wf cfg c G \<and> same_geo R R' \<and> (\<forall>BG\<in>set (BlockList R') \<union> set G. Batches BG \<noteq> [])"

lemma collectGroupsToRelease_ok:
  assumes "collectGroupsToRelease cfg pg pd z R = (G, R')" and "list_wf cfg c (BlockList R)" and "\<forall>BG\<in>set (BlockList R). Batches BG \<noteq> []"
  shows "split_list cfg c b R G R'"
proof -
  obtain kept taken md where r: "collect_groups cfg pg pd z (AllocatedUser R + RegionBeg R) (RegionBeg R) (BlockList R)
      (push_bit (GroupSizeLog cfg) 1) = (kept, taken, md)" by (metis prod.exhaust)
  have "G = taken" "BlockList R' = kept" "same_geo R R'"
    using assms(1) r by (auto simp: collectGroupsToRelease_def same_geo_def Let_def)
  then show ?thesis using collect_groups_ok [OF r, of b c] assms(2,3) by (simp add: split_list_def)
qed

lemma hasChance_frame:
  "BlockList (snd (hasChanceToReleasePages pg nw iv z free ty R)) = BlockList R"
  "same_geo R (snd (hasChanceToReleasePages pg nw iv z free ty R))"
  by (simp_all add: hasChanceToReleasePages_def updateCheckpoint_def Let_def same_geo_def)

lemma release_begin_ok:
  assumes r: "release_begin cfg pg nw iv c pd ty R = (x, R')" and w: "list_wf cfg c (BlockList R)" and ne: "\<forall>BG\<in>set (BlockList R). Batches BG \<noteq> []"
  shows "split_list cfg c b R (taken_groups x) R'"
proof -
  define z where "z = pri_getSizeByClassId cfg c"
  define free where "free = AllocatedUser R - (PoppedBlocks R - PushedBlocks R) * z"
  obtain ok T where T: "(if ty \<noteq> ForceAllRelease then hasChanceToReleasePages pg nw iv z free ty R else (True, R)) = (ok, T)"
    by (rule prod.exhaust)
  note r = r [unfolded release_begin_def Let_def, folded z_def, folded free_def, unfolded T prod.case]
  have fr: "BlockList T = BlockList R" "same_geo R T"
    using T hasChance_frame [where R = R and ty = ty] by (metis snd_conv same_geo_refl)+
  have id: "split_list cfg c b R [] S" if "BlockList S = BlockList R" "same_geo R S" for S
    using that w ne by (simp add: split_list_def list_wf_def groups_wf_def)
  have *: "split_list cfg c b R G S" if "split_list cfg c b T G S" for G S
    using that fr same_geo_trans [OF fr(2)] by (simp add: split_list_def)
  show ?thesis
  proof (cases "free = 0 \<or> \<not> ok")
    case True
    then have "x = None" "R' = R \<or> R' = T" using r by (auto split: if_splits)
    then show ?thesis using id [of R] id [OF fr] by (auto simp: taken_groups_def)
  next
    case False
    obtain G S where g: "(if ty = ForceAllRelease then (BlockList T, T\<lparr>BlockList := []\<rparr>)
        else collectGroupsToRelease cfg pg pd z T) = (G, S)" by (rule prod.exhaust)
    have x: "x = (if G = [] then None else Some (G, free, free - BytesInFreeListAtLastCheckpoint T))"
      "R' = (if G = [] then S else S\<lparr>NumReleasesAttempted := NumReleasesAttempted S + 1\<rparr>)"
      using r [unfolded g prod.case] False by (auto split: if_splits)
    have "split_list cfg c b T G S"
    proof (cases "ty = ForceAllRelease")
      case True
      then show ?thesis using g w ne fr by (auto simp: split_list_def list_wf_def groups_wf_def same_geo_def)
    next
      case False
      then have "collectGroupsToRelease cfg pg pd z T = (G, S)" using g by simp
      from collectGroupsToRelease_ok [OF this, of c b] w ne fr(1) show ?thesis by simp
    qed
    then have "split_list cfg c b R G S" by (rule *)
    then show ?thesis using x by (auto simp: taken_groups_def split_list_def same_geo_def)
  qed
qed

section \<open>Merging back\<close>

lemma merge_batches_ok:
  assumes ne: "Bs \<noteq> []" "Cs \<noteq> []" and w: "batches_wf Mx Q Bs" "batches_wf Mx Q Cs" and f: "Batch (hd Bs) \<noteq> []" "Batch (hd Cs) \<noteq> []"
    and r: "merge_batches Mx Bs Cs = (Ds, u)"
  shows "batches_free Ds = batches_free Bs + batches_free Cs"
    "batches_meta cfg b Ds + (case u of None \<Rightarrow> {#} | Some B \<Rightarrow> {#compactPtrInternal cfg b (tbAddr B)#}) = batches_meta cfg b Bs + batches_meta cfg b Cs"
    "batches_wf Mx Q Ds" "Ds \<noteq> []" "Batch (hd Ds) \<noteq> []"
proof -
  obtain B Bs' where Bs: "Bs = B # Bs'" using ne by (cases Bs) auto
  obtain C Cs' where Cs: "Cs = C # Cs'" using ne by (cases Cs) auto
  note W = w [unfolded Bs Cs batches_wf_simps]
  have fr: "batches_free (xs @ ys) = batches_free xs + batches_free ys" "batches_meta cfg b (xs @ ys) = batches_meta cfg b xs + batches_meta cfg b ys" for xs ys
    by (simp_all add: batches_free_def batches_meta_def)
  have "batches_free Ds = batches_free Bs + batches_free Cs \<and>
    batches_meta cfg b Ds + (case u of None \<Rightarrow> {#} | Some B \<Rightarrow> {#compactPtrInternal cfg b (tbAddr B)#}) = batches_meta cfg b Bs + batches_meta cfg b Cs \<and>
    batches_wf Mx Q Ds \<and> Ds \<noteq> [] \<and> Batch (hd Ds) \<noteq> []"
  proof (cases "tb_Count C = unat Mx")
    case True
    then have "Ds = Bs @ Cs" "u = None" using r by (simp_all add: merge_batches_def Cs)
    then show ?thesis using W True f by (auto simp: Bs Cs fr batches_wf_simps tb_Count_def)
  next
    case C: False
    show ?thesis
    proof (cases "tb_Count B = unat Mx")
      case True
      then have "Ds = C # B # Bs' @ Cs'" "u = None" using r C by (simp_all add: merge_batches_def Bs Cs Let_def)
      then show ?thesis using W True f by (auto simp: Bs Cs fr batches_wf_simps tb_Count_def)
    next
      case B: False
      let ?n = "min (unat (Mx - of_nat (tb_Count B))) (tb_Count C)"
      obtain B1 C1 where a: "appendFromTransferBatch C ?n B = (B1, C1)" by (rule prod.exhaust)
      have l: "List.length (Batch B) < unat Mx" "List.length (Batch C) < unat Mx"
        using W B C by (simp_all add: tb_Count_def)
      have n: "unat (Mx - of_nat (tb_Count B)) = unat Mx - List.length (Batch B)"
      proof -
        have "List.length (Batch B) < 2 ^ 16" using l unat_less_exp [of Mx] by simp
        then have u: "unat (of_nat (tb_Count B) :: u16) = List.length (Batch B)" by (simp add: unat_of_nat tb_Count_def)
        then have "(of_nat (tb_Count B) :: u16) \<le> Mx" using l by (simp add: word_le_nat_alt)
        then show ?thesis using u by (simp add: unat_sub)
      qed
      have B1: "Batch B1 = Batch B @ drop (List.length (Batch C) - ?n) (Batch C)" "Batch C1 = take (List.length (Batch C) - ?n) (Batch C)"
        "tbAddr B1 = tbAddr B" "tbAddr C1 = tbAddr C"
        using a by (auto simp: appendFromTransferBatch_def)
      note ms = appendFromTransferBatch_mset [OF a]
      have q: "\<forall>x\<in>set (Batch B1). Q x" "\<forall>x\<in>set (Batch C1). Q x" "List.length (Batch B1) \<le> unat Mx" "List.length (Batch C1) \<le> unat Mx"
        using W l n by (auto simp: B1 tb_Count_def dest: in_set_dropD in_set_takeD)
      have D: "(Ds, u) = (if tb_empty C1 then (B1 # Bs' @ Cs', Some C1) else (C1 # B1 # Bs' @ Cs', None))"
        using r B C a by (simp add: merge_batches_def Bs Cs Let_def)
      show ?thesis
      proof (cases "tb_empty C1")
        case True
        then have e: "Ds = B1 # Bs' @ Cs'" "u = Some C1" "Batch C1 = []" using D by (simp_all add: tb_empty_def tb_Count_def)
        then show ?thesis using W q f ms B1 by (auto simp: Bs Cs fr batches_wf_simps ac_simps)
      next
        case False
        then have e: "Ds = C1 # B1 # Bs' @ Cs'" "u = None" "Batch C1 \<noteq> []" using D by (simp_all add: tb_empty_def tb_Count_def)
        then have "List.length (Batch C) > ?n" using B1(2) by auto
        then have "List.length (Batch B1) = unat Mx" using l n by (simp add: B1(1) tb_Count_def)
        then show ?thesis using W q f ms B1 e by (auto simp: Bs Cs fr batches_wf_simps ac_simps)
      qed
    qed
  qed
  then show "batches_free Ds = batches_free Bs + batches_free Cs"
    "batches_meta cfg b Ds + (case u of None \<Rightarrow> {#} | Some B \<Rightarrow> {#compactPtrInternal cfg b (tbAddr B)#}) = batches_meta cfg b Bs + batches_meta cfg b Cs"
    "batches_wf Mx Q Ds" "Ds \<noteq> []" "Batch (hd Ds) \<noteq> []" by simp_all
qed

text \<open>The blocks of the batch class that a merge has at hand: the ones that wait, and the ones in the free
  list of the region.\<close>

definition waiting :: "pri_config \<Rightarrow> uptr list \<times> RegionInfo \<Rightarrow> uptr multiset" where
  "waiting cfg W = mset (fst W) + list_free (BlockList (snd W)) + self_free cfg (RegionBeg (snd W)) (BlockList (snd W))"

definition waiting_ok :: "pri_config \<Rightarrow> RegionInfo \<Rightarrow> uptr list \<times> RegionInfo \<Rightarrow> bool" where
  "waiting_ok cfg R0 W \<longleftrightarrow> (\<forall>a\<in>set (fst W). valid_ptr cfg a) \<and> List.length (fst W) \<le> MaxUnusedSize \<and> same_geo R0 (snd W) \<and>
    list_wf cfg 0 (BlockList (snd W)) \<and> Exhausted (snd W) = Exhausted R0"

lemma push_waiting:
  assumes "waiting_ok cfg R0 (Bl, R)" and "Bl \<noteq> []" and "cfg_wf cfg"
  shows "waiting_ok cfg R0 ([], pushBatchClassBlocks cfg Bl R)" "waiting cfg ([], pushBatchClassBlocks cfg Bl R) = waiting cfg (Bl, R)"
proof -
  have v: "\<forall>a\<in>set Bl. valid_ptr cfg a" using assms(1) by (simp add: waiting_ok_def)
  note f = pushBatchClassBlocks_free [OF assms(2) v, of R]
  have "Exhausted (pushBatchClassBlocks cfg Bl R) = Exhausted R"
    by (simp add: pushBatchClassBlocks_def Let_def split: list.split)
  then show "waiting_ok cfg R0 ([], pushBatchClassBlocks cfg Bl R)"
    using assms f(2) pushBatchClassBlocks_wf [OF _ assms(3)] same_geo_trans [of R0 R] by (simp add: waiting_ok_def)
  show "waiting cfg ([], pushBatchClassBlocks cfg Bl R) = waiting cfg (Bl, R)"
    using f by (simp add: waiting_def same_geo_def ac_simps)
qed

definition unused_meta :: "pri_config \<Rightarrow> uptr \<Rightarrow> TransferBatch option \<Rightarrow> uptr multiset" where
  "unused_meta cfg b u = (case u of None \<Rightarrow> {#} | Some B \<Rightarrow> {#compactPtrInternal cfg b (tbAddr B)#})"

lemma recycle_blocks_ok:
  assumes W: "waiting_ok cfg R0 W" and w: "cfg_wf cfg"
    and v: "\<forall>a\<in>#add_mset (compactPtrInternal cfg (RegionBeg R0) (bgAddr Cur)) (unused_meta cfg (RegionBeg R0) u). valid_ptr cfg a"
  shows "waiting_ok cfg R0 (recycle_blocks cfg Cur u W)"
    "waiting cfg (recycle_blocks cfg Cur u W) = waiting cfg W + add_mset (compactPtrInternal cfg (RegionBeg R0) (bgAddr Cur)) (unused_meta cfg (RegionBeg R0) u)"
proof -
  obtain Bl R where WR: "W = (Bl, R)" by (rule prod.exhaust)
  let ?n = "case u of None \<Rightarrow> 1 | Some _ \<Rightarrow> (2 :: nat)"
  obtain Bl1 R1 where p: "(if MaxUnusedSize < List.length Bl + ?n then ([], pushBatchClassBlocks cfg Bl R) else (Bl, R)) = (Bl1, R1)"
    by (rule prod.exhaust)
  have n: "?n \<le> 2" by (simp split: option.split)
  have ok1: "waiting_ok cfg R0 (Bl1, R1) \<and> waiting cfg (Bl1, R1) = waiting cfg W \<and> List.length Bl1 + ?n \<le> MaxUnusedSize"
  proof (cases "MaxUnusedSize < List.length Bl + ?n")
    case True
    then have "Bl \<noteq> []" using n by (auto simp: MaxUnusedSize_def)
    from push_waiting [OF W [unfolded WR] this w] p True n show ?thesis by (auto simp: WR MaxUnusedSize_def)
  next
    case False
    then show ?thesis using p W by (auto simp: WR)
  qed
  have b: "RegionBeg R1 = RegionBeg R0" using ok1 by (simp add: waiting_ok_def same_geo_def)
  have e: "recycle_blocks cfg Cur u W = (Bl1 @ [compactPtrInternal cfg (RegionBeg R0) (bgAddr Cur)] @
      (case u of None \<Rightarrow> [] | Some B \<Rightarrow> [compactPtrInternal cfg (RegionBeg R0) (tbAddr B)]), R1)"
    unfolding WR recycle_blocks_def prod.case Let_def p by (simp add: b split: option.split)
  show "waiting_ok cfg R0 (recycle_blocks cfg Cur u W)"
    using ok1 v unfolding e waiting_ok_def unused_meta_def by (cases u) simp_all
  show "waiting cfg (recycle_blocks cfg Cur u W) = waiting cfg W + add_mset (compactPtrInternal cfg (RegionBeg R0) (bgAddr Cur)) (unused_meta cfg (RegionBeg R0) u)"
    using ok1 unfolding e waiting_def unused_meta_def by (cases u) (auto simp: ac_simps)
qed

lemma merge_group_ok:
  assumes g: "group_wf cfg c BG" "group_wf cfg c Cur" "filled BG" "filled Cur" and c: "c \<noteq> 0"
    and b: "CompactPtrGroupBase BG = CompactPtrGroupBase Cur" and r: "merge_group BG Cur = (BG', u)"
  shows "group_wf cfg c BG'" "filled BG'" "CompactPtrGroupBase BG' = CompactPtrGroupBase BG" "list_free [BG'] = list_free [BG] + list_free [Cur]"
    "list_meta cfg b' [BG'] + add_mset (compactPtrInternal cfg b' (bgAddr Cur)) (unused_meta cfg b' u) = list_meta cfg b' [BG] + list_meta cfg b' [Cur]"
proof -
  obtain Ds where m: "merge_batches (MaxCachedPerBatch BG) (Batches BG) (Batches Cur) = (Ds, u)"
    and e: "BG' = BG\<lparr>BytesInBGAtLastCheckpoint := BytesInBGAtLastCheckpoint Cur, Batches := Ds\<rparr>"
    using r by (auto simp: merge_group_def split: prod.splits)
  let ?Q = "\<lambda>a. compactPtrGroup cfg a = CompactPtrGroupBase BG"
  have ne: "Batches BG \<noteq> []" "Batches Cur \<noteq> []" "batches_wf (MaxCachedPerBatch BG) ?Q (Batches BG)" "batches_wf (MaxCachedPerBatch BG) ?Q (Batches Cur)"
    "Batch (hd (Batches BG)) \<noteq> []" "Batch (hd (Batches Cur)) \<noteq> []" "MaxCachedPerBatch BG = batch_max cfg c"
    using g c b by (simp_all add: group_wf_def filled_def)
  note k = merge_batches_ok [OF ne(1-6) m]
  show "group_wf cfg c BG'" "filled BG'" "CompactPtrGroupBase BG' = CompactPtrGroupBase BG" "list_free [BG'] = list_free [BG] + list_free [Cur]"
    using k ne(7) c by (simp_all add: e group_wf_def filled_def)
  show "list_meta cfg b' [BG'] + add_mset (compactPtrInternal cfg b' (bgAddr Cur)) (unused_meta cfg b' u) = list_meta cfg b' [BG] + list_meta cfg b' [Cur]"
    using k(2) [of cfg b'] by (simp add: e unused_meta_def)
qed

lemma merge_groups_ok:
  "\<lbrakk> merge_groups cfg L G W = (L', W'); list_wf cfg c L; list_wf cfg c G; c \<noteq> 0; waiting_ok cfg R0 W; cfg_wf cfg;
     \<forall>a\<in>#list_meta cfg (RegionBeg R0) L + list_meta cfg (RegionBeg R0) G. valid_ptr cfg a \<rbrakk> \<Longrightarrow>
    list_free L' = list_free L + list_free G \<and> waiting_ok cfg R0 W' \<and> list_wf cfg c L' \<and>
    list_meta cfg (RegionBeg R0) L' + waiting cfg W' = list_meta cfg (RegionBeg R0) L + list_meta cfg (RegionBeg R0) G + waiting cfg W \<and>
    CompactPtrGroupBase ` set L' \<subseteq> CompactPtrGroupBase ` (set L \<union> set G)"
proof (induction cfg L G W arbitrary: L' W' rule: merge_groups.induct)
  case (1 cfg L W)
  then show ?case by auto
next
  case (2 cfg Cur G W)
  then show ?case by (auto simp: ac_simps)
next
  case (3 cfg BG L Cur G W)
  note prems = 3(4-10)
  let ?b = "CompactPtrGroupBase" and ?m = "list_meta cfg (RegionBeg R0)"
  have LG: "list_wf cfg c L" "list_wf cfg c G" "group_wf cfg c BG" "group_wf cfg c Cur" "filled BG" "filled Cur"
    "\<forall>B\<in>set L. ?b BG < ?b B" "\<forall>B\<in>set G. ?b Cur < ?b B"
    using prems by (simp_all add: list_wf_Cons)
  have v: "\<forall>a\<in>#?m L + ?m (Cur # G). valid_ptr cfg a" "\<forall>a\<in>#?m L + ?m G. valid_ptr cfg a" "\<forall>a\<in>#?m (BG # L) + ?m G. valid_ptr cfg a"
    "\<forall>a\<in>#?m [BG] + ?m [Cur]. valid_ptr cfg a"
    using prems(7) by auto
  have low: "\<forall>B\<in>set M. x < ?b B" if sub: "?b ` set M \<subseteq> ?b ` A" and lo: "\<forall>B\<in>A. x < ?b B" for M A x
  proof
    fix B assume "B \<in> set M"
    then have "?b B \<in> ?b ` A" using sub by blast
    then show "x < ?b B" using lo by auto
  qed
  consider (lt) "?b BG < ?b Cur" | (eq) "?b BG = ?b Cur" | (gt) "?b Cur < ?b BG" by (rule linorder_cases)
  then show ?case
  proof cases
    case lt
    obtain L1 where r: "merge_groups cfg L (Cur # G) W = (L1, W')" "L' = BG # L1" using prems(1) lt by (auto split: prod.splits)
    note ih = 3(1) [OF lt r(1) LG(1) prems(3-6) v(1)]
    have "\<forall>B\<in>set L1. ?b BG < ?b B"
      by (rule low [of _ "set L \<union> set (Cur # G)"]) (use ih LG(7,8) lt in \<open>auto intro: less_trans\<close>)
    then show ?thesis using ih LG(3,5) by (auto simp: r(2) list_wf_Cons ac_simps)
  next
    case eq
    obtain BG1 u where mg: "merge_group BG Cur = (BG1, u)" by (rule prod.exhaust)
    obtain L1 where r: "merge_groups cfg L G (recycle_blocks cfg Cur u W) = (L1, W')" "L' = BG1 # L1"
      using prems(1) eq mg by (auto split: prod.splits)
    note k = merge_group_ok [OF LG(3-6) prems(4) eq mg]
    note km = k(5) [where b' = "RegionBeg R0"]
    have vv: "\<forall>a\<in>#add_mset (compactPtrInternal cfg (RegionBeg R0) (bgAddr Cur)) (unused_meta cfg (RegionBeg R0) u). valid_ptr cfg a"
      using v(4) unfolding km [symmetric] by auto
    note rb = recycle_blocks_ok [OF prems(5,6) vv]
    have ne: "\<not> ?b BG < ?b Cur" using eq by simp
    note ih = 3(2) [OF ne eq mg [symmetric] r(1) LG(1,2) prems(4) rb(1) prems(6) v(2)]
    have "\<forall>B\<in>set L1. ?b BG1 < ?b B"
      by (rule low [of _ "set L \<union> set G"]) (use ih LG(7,8) eq k(3) in auto)
    moreover have "?m L' + waiting cfg W' = ?m (BG # L) + ?m (Cur # G) + waiting cfg W"
    proof -
      have "?m L' + waiting cfg W' = ?m [BG1] + (?m L1 + waiting cfg W')" by (simp add: r(2))
      also have "\<dots> = ?m [BG1] + add_mset (compactPtrInternal cfg (RegionBeg R0) (bgAddr Cur)) (unused_meta cfg (RegionBeg R0) u) +
          (?m L + ?m G + waiting cfg W)"
        using ih rb(2) by simp
      also have "\<dots> = ?m [BG] + ?m [Cur] + (?m L + ?m G + waiting cfg W)" unfolding km ..
      finally show ?thesis by simp
    qed
    moreover have "list_free L' = list_free [BG] + list_free [Cur] + list_free L + list_free G"
      using ih k(4) by (simp add: r(2))
    moreover have "?b ` set L' \<subseteq> ?b ` (set (BG # L) \<union> set (Cur # G))" using ih k(3) by (auto simp: r(2))
    ultimately show ?thesis using ih k(1,2) by (simp add: r(2) list_wf_Cons)
  next
    case gt
    have ne: "\<not> ?b BG < ?b Cur" "?b BG \<noteq> ?b Cur" using gt by auto
    obtain L1 where r: "merge_groups cfg (BG # L) G W = (L1, W')" "L' = Cur # L1"
      using prems(1) ne by (auto simp: if_not_P split: prod.splits)
    note ih = 3(3) [OF ne r(1) prems(2) LG(2) prems(4-6) v(3)]
    have "\<forall>B\<in>set L1. ?b Cur < ?b B"
      by (rule low [of _ "set (BG # L) \<union> set G"]) (use ih LG(7,8) gt in \<open>auto intro: less_trans\<close>)
    then show ?thesis using ih LG(4,6) by (auto simp: r(2) list_wf_Cons ac_simps)
  qed
qed

lemma mergeGroupsToReleaseBack_inv:
  assumes inv: "pinv cfg (P, C) X Y" and w: "pwf cfg (P, C)" and c: "c \<noteq> 0" "c < pcNumClasses cfg"
    and G: "list_wf cfg c G" "\<forall>BG\<in>set G. Batches BG \<noteq> []"
    and X: "X = (\<lambda>d. X' d + (if d = c then list_free G else {#}) + (if d = 0 then list_meta cfg (RegionBeg (Regions P 0)) G else {#}))"
  shows "pinv cfg (mergeGroupsToReleaseBack cfg c G P, C) X' Y" "pwf cfg (mergeGroupsToReleaseBack cfg c G P, C)"
    "RegionBeg (Regions (mergeGroupsToReleaseBack cfg c G P) d) = RegionBeg (Regions P d)"
    "rMemMap (Regions (mergeGroupsToReleaseBack cfg c G P) d) = rMemMap (Regions P d)"
    "\<forall>d. d \<noteq> 0 \<longrightarrow> d \<noteq> c \<longrightarrow> Regions (mergeGroupsToReleaseBack cfg c G P) d = Regions P d"
proof -
  let ?b = "RegionBeg (Regions P 0)" and ?L = "BlockList (Regions P c)"
  have N: "0 < pcNumClasses cfg" using c by simp
  have cw: "cfg_wf cfg" by (rule pwfD(1) [OF w])
  have L: "list_wf cfg c ?L" "list_wf cfg 0 (BlockList (Regions P 0))" using pwfD(2) [OF w] c N by simp_all
  obtain L' Bl R1 where m: "merge_groups cfg ?L G ([], Regions P 0) = (L', (Bl, R1))" by (metis prod.exhaust)
  have W0: "waiting_ok cfg (Regions P 0) ([], Regions P 0)" using L(2) by (simp add: waiting_ok_def)
  have v: "\<forall>a\<in>#list_meta cfg ?b ?L + list_meta cfg ?b G. valid_ptr cfg a"
  proof
    fix a assume "a \<in># list_meta cfg ?b ?L + list_meta cfg ?b G"
    moreover have "list_meta cfg ?b ?L \<subseteq># metas cfg P"
    proof -
      have "c \<in> {1..<pcNumClasses cfg}" using c by simp
      then show ?thesis unfolding metas_def by (subst sum.remove [of _ c]) simp_all
    qed
    ultimately have "a \<in># blocks_of cfg 0 (P, C) + X 0"
      by (auto simp: blocks_of_def free_of_def X dest: mset_subset_eqD)
    then show "valid_ptr cfg a" by (rule pinv_valid [OF inv N])
  qed
  note k = merge_groups_ok [OF m L(1) G(1) c(1) W0 cw v]
  define R0 where "R0 = (if Bl \<noteq> [] then pushBatchClassBlocks cfg Bl R1 else R1)"
  have W1: "waiting_ok cfg (Regions P 0) ([], R0)" "waiting cfg ([], R0) = waiting cfg (Bl, R1)"
    using k push_waiting [of cfg "Regions P 0" Bl R1] cw by (auto simp: R0_def)
  define P1 where "P1 = upd_region 0 (\<lambda>_. R0) P"
  have e: "mergeGroupsToReleaseBack cfg c G P = set_blocks c L' P1"
    by (simp add: mergeGroupsToReleaseBack_def m P1_def R0_def Let_def)
  have g0: "same_geo (Regions P 0) R0" using W1 by (simp add: waiting_ok_def)
  have b1: "RegionBeg (Regions P1 d) = RegionBeg (Regions P d)" "rMemMap (Regions P1 d) = rMemMap (Regions P d)" for d
    using g0 by (simp_all add: P1_def same_geo_def)
  show "RegionBeg (Regions (mergeGroupsToReleaseBack cfg c G P) d) = RegionBeg (Regions P d)"
    "rMemMap (Regions (mergeGroupsToReleaseBack cfg c G P) d) = rMemMap (Regions P d)"
    using b1 by (simp_all add: e set_blocks_def)
  show "\<forall>d. d \<noteq> 0 \<longrightarrow> d \<noteq> c \<longrightarrow> Regions (mergeGroupsToReleaseBack cfg c G P) d = Regions P d"
    by (simp add: e set_blocks_def P1_def)
  have w1: "pwf cfg (P1, C)"
    unfolding P1_def by (rule pwf_upd_region [OF w]) (use W1 in \<open>simp add: waiting_ok_def\<close>)
  then show "pwf cfg (mergeGroupsToReleaseBack cfg c G P, C)" unfolding e by (rule set_blocks_wf) (use k in simp)
  have m1: "metas cfg P1 = metas cfg P" unfolding metas_def 
  proof (intro sum.cong refl)
    fix d assume "d \<in> {1..<pcNumClasses cfg}"
    then show "list_meta cfg (RegionBeg (Regions P1 0)) (BlockList (Regions P1 d)) = list_meta cfg ?b (BlockList (Regions P d))"
      unfolding b1 by (simp add: P1_def)
  qed
  show "pinv cfg (mergeGroupsToReleaseBack cfg c G P, C) X' Y"
    unfolding e
  proof (rule pinv_step [OF inv])
    fix d
    show "same_geo (Regions (fst (P, C)) d) (Regions (fst (set_blocks c L' P1, C)) d)"
      using same_geo_trans [OF _ set_blocks_geo [of P1 d c L'], of "Regions P d"] g0 by (simp add: P1_def)
    show "\<forall>BG\<in>set (BlockList (Regions (fst (set_blocks c L' P1, C)) d)). Batches BG \<noteq> []"
      if "d \<noteq> 0" "\<forall>BG\<in>set (BlockList (Regions (fst (P, C)) d)). Batches BG \<noteq> []"
      using that k c by (auto simp: P1_def list_wf_def groups_wf_def group_wf_def)
    show "blocks_of cfg d (set_blocks c L' P1, C) + X' d = blocks_of cfg d (P, C) + X d"
    proof (cases "d = 0")
      case True
      have ms: "metas cfg (set_blocks c L' P1) + list_meta cfg ?b ?L = metas cfg P + list_meta cfg ?b L'"
        using metas_set_blocks [OF c, of L' P1] b1(1) [of 0] m1 c by (simp add: P1_def)
      have wt: "list_meta cfg ?b L' + (list_free (BlockList R0) + self_free cfg ?b (BlockList R0)) =
          list_meta cfg ?b ?L + list_meta cfg ?b G + (list_free (BlockList (Regions P 0)) + self_free cfg ?b (BlockList (Regions P 0)))"
        using k W1(2) g0 by (simp add: waiting_def same_geo_def)
      have "list_free (BlockList R0) + self_free cfg ?b (BlockList R0) + metas cfg (set_blocks c L' P1) + list_meta cfg ?b ?L =
          metas cfg P + (list_meta cfg ?b L' + (list_free (BlockList R0) + self_free cfg ?b (BlockList R0)))"
        using ms by (simp add: ac_simps)
      also have "\<dots> = metas cfg P + list_meta cfg ?b G + (list_free (BlockList (Regions P 0)) + self_free cfg ?b (BlockList (Regions P 0))) + list_meta cfg ?b ?L"
        unfolding wt by (simp add: ac_simps)
      finally have "list_free (BlockList R0) + self_free cfg ?b (BlockList R0) + metas cfg (set_blocks c L' P1) =
          metas cfg P + list_meta cfg ?b G + (list_free (BlockList (Regions P 0)) + self_free cfg ?b (BlockList (Regions P 0)))" by simp
      then show ?thesis
        using True c b1(1) [of 0] by (simp add: blocks_of_def free_of_def X P1_def ac_simps)
    next
      case False
      then show ?thesis using k c by (cases "d = c") (simp_all add: blocks_of_def free_of_def X P1_def ac_simps)
    qed
  qed simp
qed

end
