(* ===== verification/Primary64_Drain.thy ===== *)
theory Primary64_Drain
  imports Primary64_Release
begin

text \<open>The operations of a cache keep the state well-formed, so no array of a cache or of a batch overflows,
  and draining a whole cache returns and empties it.\<close>

section \<open>Operations of one class\<close>

lemma lc_allocate_wf:
  assumes "c < pcNumClasses cfg" and "pinv cfg S X Y" and "pwf cfg S"
  shows "res_ok cfg (\<lambda>(q, S'). pwf cfg S') (lc_allocate cfg env c S)"
  unfolding lc_allocate_def popBlocks_def by (rule class_typed.lc_allocate_with_wf [OF assms])

lemma chunk_valid:
  assumes "pinv cfg S X Y" and "c < pcNumClasses cfg" and "a \<in> set (Chunks (PerClassArray (snd S) c))"
  shows "valid_ptr cfg a"
  using assms by (intro pinv_valid [OF assms(1,2)]) (simp add: blocks_of_def)

lemma lc_drain_class_wf:
  assumes inv: "pinv cfg S X Y" and w: "pwf cfg S" and c: "c < pcNumClasses cfg" and ne: "Chunks (PerClassArray (snd S) c) \<noteq> []"
  shows "res_ok cfg (pwf cfg) (lc_drain_class cfg env c S)"
    and "0 < lc_drain_count (PerClassArray (snd S) c)"
    and "lc_drain_count (PerClassArray (snd S) c) \<le> List.length (Chunks (PerClassArray (snd S) c))"
proof -
  let ?pc = "PerClassArray (snd S) c"
  have "lc_getMaxCached cfg (pri_getSizeByClassId cfg c) \<noteq> 0" using inv c by (auto simp: pinv_def cfg_ok_def)
  note f = cache_wf_full [OF pwfD(3) [OF w c] pwfD(1) [OF w] this]
  show n: "0 < lc_drain_count ?pc" "lc_drain_count ?pc \<le> List.length (Chunks ?pc)" using f ne by simp_all
  let ?A = "take (lc_drain_count ?pc) (Chunks ?pc)"
  have A: "?A \<noteq> []" using n ne by simp
  have v: "\<forall>a\<in>set ?A. valid_ptr cfg a" using chunk_valid [OF inv c] by (auto dest: in_set_takeD)
  have "res_ok cfg (pwf cfg) (pushBlocks cfg env c ?A S)"
    by (rule pushBlocks_wf [OF pinv_count_more [OF inv v, of c] w c A v, of X]) simp_all
  then show "res_ok cfg (pwf cfg) (lc_drain_class cfg env c S)"
    unfolding lc_drain_class_def Let_def
  proof (rule res_ok_bind)
    fix x assume "pwf cfg x"
    moreover obtain P1 C1 where x: "x = (P1, C1)" by (rule prod.exhaust)
    ultimately have "pwf cfg (P1, upd_class c (\<lambda>pc. pc\<lparr>Chunks := drop (lc_drain_count ?pc) (Chunks pc)\<rparr>) C1)"
      by (intro pwf_upd_class) (auto simp: cache_wf_def)
    then show "res_ok cfg (pwf cfg) (case x of (P, C) \<Rightarrow> Inr (P, upd_class c (\<lambda>pc. pc\<lparr>Chunks := drop (lc_drain_count ?pc) (Chunks pc)\<rparr>) C))"
      by (simp add: x)
  qed
qed

lemma lc_deallocate_wf:
  assumes inv: "pinv cfg S X Y" and w: "pwf cfg S" and c: "c < pcNumClasses cfg"
  shows "res_ok cfg (\<lambda>(b, S'). pwf cfg S') (lc_deallocate cfg env c Ptr S)"
proof -
  let ?pc = "PerClassArray (snd S) c"
  have cw: "cache_wf cfg c ?pc" by (rule pwfD(3) [OF w c])
  have mc: "lc_getMaxCached cfg (pri_getSizeByClassId cfg c) \<noteq> 0" using inv c by (auto simp: pinv_def cfg_ok_def)
  note f = cache_wf_full [OF cw pwfD(1) [OF w] mc]
  have "res_ok cfg (\<lambda>S'. pwf cfg S' \<and> List.length (Chunks (PerClassArray (snd S') c)) < unat (MaxCount (PerClassArray (snd S') c)))
      (if lc_full ?pc then lc_drain_class cfg env c S else Inr S)"
  proof (cases "lc_full ?pc")
    case True
    have ne: "Chunks ?pc \<noteq> []" using f True by auto
    note d = lc_drain_class_wf [OF inv w c ne]
    have "res_ok cfg (\<lambda>S'. pwf cfg S' \<and> List.length (Chunks (PerClassArray (snd S') c)) < unat (MaxCount (PerClassArray (snd S') c)))
        (lc_drain_class cfg env c S)"
    proof (rule res_ok_weaken [OF d(1) [of env]])
      fix S1 assume r: "lc_drain_class cfg env c S = Inr S1" and "pwf cfg S1"
      then show "pwf cfg S1 \<and> List.length (Chunks (PerClassArray (snd S1) c)) < unat (MaxCount (PerClassArray (snd S1) c))"
        using lc_drain_class_inv(2,4) [OF inv c d(2,3) r] d(2) f True by simp
    qed
    then show ?thesis using True by simp
  next
    case False
    have "List.length (Chunks ?pc) \<le> unat (MaxCount ?pc)" using cw unfolding cache_wf_def by (rule conjunct2)
    then show ?thesis using False f(2) w by simp
  qed
  then have "res_ok cfg (\<lambda>(b, S'). pwf cfg S') (bindR (if lc_full ?pc then lc_drain_class cfg env c S else Inr S)
      (\<lambda>S. Inr (lc_full ?pc, lc_put cfg c Ptr S)))"
    by (rule res_ok_bind) (auto intro!: lc_put_wf split: prod.split)
  then show ?thesis using c by (simp add: lc_deallocate_def CHECK_def Let_def)
qed

section \<open>Draining\<close>

lemma chunks_less:
  assumes "pwf cfg S" and "c < pcNumClasses cfg"
  shows "List.length (Chunks (PerClassArray (snd S) c)) < 2 ^ 16"
proof -
  have "List.length (Chunks (PerClassArray (snd S) c)) \<le> unat (MaxCount (PerClassArray (snd S) c))"
    using pwfD(3) [OF assms] unfolding cache_wf_def by (rule conjunct2)
  then show ?thesis using unat_less_exp [of "MaxCount (PerClassArray (snd S) c)"] by simp
qed

text \<open>Draining a class ends in at most as many rounds as it has blocks.\<close>

lemma drain_loop_ok:
  "\<lbrakk> pinv cfg S X Y; pwf cfg S; c < pcNumClasses cfg; List.length (Chunks (PerClassArray (snd S) c)) \<le> n \<rbrakk> \<Longrightarrow>
    \<exists>r. lc_drain_loop cfg env c n S = Some r \<and> res_ok cfg (\<lambda>S'. drained cfg {c} X Y S S' \<and> pwf cfg S') r"
proof (induction n arbitrary: S)
  case 0
  then have "Chunks (PerClassArray (snd S) c) = []" by simp
  then show ?case using 0(1,2) by (subst lc_drain_loop.simps, cases S) (simp add: drained_def)
next
  case (Suc n)
  let ?pc = "PerClassArray (snd S) c"
  show ?case
  proof (cases "Chunks ?pc = []")
    case True
    then show ?thesis using Suc(2,3) by (subst lc_drain_loop.simps, cases S) (simp add: drained_def)
  next
    case False
    note k = lc_drain_class_wf [OF Suc(2,3,4) False]
    show ?thesis
    proof (cases "lc_drain_class cfg env c S")
      case (Inl e)
      then show ?thesis using False k(1) [of env] by (subst lc_drain_loop.simps) simp
    next
      case (Inr S1)
      note i = lc_drain_class_inv [OF Suc(2,4) k(2,3) Inr]
      have w1: "pwf cfg S1" using k(1) [of env] Inr by simp
      have "List.length (Chunks (PerClassArray (snd S1) c)) = List.length (Chunks ?pc) - lc_drain_count ?pc" by (simp add: i(2))
      then have "List.length (Chunks (PerClassArray (snd S1) c)) \<le> n" using k(2) Suc(5) by linarith
      from Suc(1) [OF i(1) w1 Suc(4) this] obtain r where
        r: "lc_drain_loop cfg env c n S1 = Some r" "res_ok cfg (\<lambda>S'. drained cfg {c} X Y S1 S' \<and> pwf cfg S') r" by blast
      have "lc_drain_loop cfg env c (Suc n) S = Some r"
        using False Inr r(1) by (subst lc_drain_loop.simps) simp
      moreover have "res_ok cfg (\<lambda>S'. drained cfg {c} X Y S S' \<and> pwf cfg S') r"
        by (rule res_ok_weaken [OF r(2)]) (use i(3,5) in \<open>simp add: drained_def\<close>)
      ultimately show ?thesis by blast
    qed
  qed
qed

lemma drained_trans:
  assumes "drained cfg D X Y S T" and "drained cfg E X Y T U" and "\<And>d. d \<in> D \<Longrightarrow> d \<notin> E \<Longrightarrow> d \<noteq> 0"
  shows "drained cfg (D \<union> E) X Y S U"
  using assms by (auto simp: drained_def)

lemma drain_classes_ok:
  "\<lbrakk> pinv cfg S X Y; pwf cfg S; \<forall>c\<in>set cs. c < pcNumClasses cfg; \<forall>c\<in>set (butlast cs). c \<noteq> 0 \<rbrakk> \<Longrightarrow>
    \<exists>r. lc_drain_classes cfg env cs S = Some r \<and> res_ok cfg (\<lambda>S'. drained cfg (set cs) X Y S S' \<and> pwf cfg S') r"
proof (induction cs arbitrary: S)
  case Nil
  then show ?case by (cases S) (simp add: drained_def)
next
  case (Cons c cs)
  have "c < pcNumClasses cfg" using Cons(4) by simp
  from drain_loop_ok [OF Cons(2,3) this order_refl, of env] obtain r where
    r: "lc_drain_loop cfg env c (List.length (Chunks (PerClassArray (snd S) c))) S = Some r"
      "res_ok cfg (\<lambda>S'. drained cfg {c} X Y S S' \<and> pwf cfg S') r" by blast
  show ?case
  proof (cases r)
    case (Inl e)
    then show ?thesis using r by simp
  next
    case (Inr S1)
    then have d: "drained cfg {c} X Y S S1" "pwf cfg S1" using r(2) by simp_all
    have "pinv cfg S1 X Y" using d(1) by (simp add: drained_def)
    from Cons(1) [OF this d(2)] Cons(4,5) obtain r' where
      r': "lc_drain_classes cfg env cs S1 = Some r'" "res_ok cfg (\<lambda>S'. drained cfg (set cs) X Y S1 S' \<and> pwf cfg S') r'"
      by (auto split: if_splits)
    have "res_ok cfg (\<lambda>S'. drained cfg (set (c # cs)) X Y S S' \<and> pwf cfg S') r'"
    proof (cases "cs = []")
      case True
      then show ?thesis using r'(1) d by auto
    next
      case False
      then have "c \<noteq> 0" using Cons(5) by simp
      then have "drained cfg ({c} \<union> set cs) X Y S S'" if "drained cfg (set cs) X Y S1 S'" for S'
        using drained_trans [OF d(1) that] by simp
      then show ?thesis by (intro res_ok_weaken [OF r'(2)]) simp
    qed
    then show ?thesis using r(1) r'(1) Inr by simp
  qed
qed

text \<open>The whole cache: it is empty afterwards, and no block is lost.\<close>

lemma lc_drain_ok:
  assumes inv: "pinv cfg S X Y" and w: "pwf cfg S"
  shows "\<exists>r. lc_drain cfg env S = Some r \<and>
    res_ok cfg (\<lambda>S'. drained cfg {..<pcNumClasses cfg} X Y S S' \<and> pwf cfg S' \<and> lc_isEmpty cfg (snd S')) r"
proof -
  have N: "0 < pcNumClasses cfg" using pinv_classes [OF inv] by simp
  let ?cs = "[1..<pcNumClasses cfg] @ [0]"
  have s: "set ?cs = {..<pcNumClasses cfg}" using N by auto
  have "\<forall>c\<in>set ?cs. c < pcNumClasses cfg" "\<forall>c\<in>set (butlast ?cs). c \<noteq> 0" using N by auto
  from drain_classes_ok [OF inv w this, of env] obtain r where
    r: "lc_drain cfg env S = Some r" "res_ok cfg (\<lambda>S'. drained cfg (set ?cs) X Y S S' \<and> pwf cfg S') r"
    unfolding lc_drain_def by blast
  have "res_ok cfg (\<lambda>S'. drained cfg {..<pcNumClasses cfg} X Y S S' \<and> pwf cfg S' \<and> lc_isEmpty cfg (snd S')) r"
    by (rule res_ok_weaken [OF r(2) [unfolded s]]) (auto simp: drained_def lc_isEmpty_def)
  then show ?thesis using r(1) by blast
qed

end
