(* ===== verification/Primary64_System.thy ===== *)
theory Primary64_System
  imports Primary64_Drain
begin

text \<open>The primary allocator as a whole: its initialisation, the visits of its blocks, and runs in which the
  caches of several threads work on it in turn.\<close>

section \<open>Initialisation\<close>

definition to_sint32 :: "int \<Rightarrow> int" where
  "to_sint32 v = sint (of_int v :: 32 word)"

definition pri_setOption :: "pri_config \<Rightarrow> bool \<Rightarrow> int \<Rightarrow> primary \<Rightarrow> bool \<times> primary" where
  "pri_setOption cfg isReleaseInterval Value P = (True, if isReleaseInterval
     then P\<lparr>pReleaseToOsIntervalMs := max (min (to_sint32 Value) (pcMaxReleaseMs cfg)) (pcMinReleaseMs cfg)\<rparr> else P)"

text \<open>The states of the random generators of the regions, and the seed that remains.\<close>

fun pri_seeds :: "nat \<Rightarrow> u32 \<Rightarrow> u32 list \<times> u32" where
  "pri_seeds 0 Seed = ([], Seed)"
| "pri_seeds (Suc n) Seed = (let (r, Seed) = getRandomU32 Seed; (rs, Seed) = pri_seeds n Seed in (r # rs, Seed))"

text \<open>reserve: the base of the memory reserved for all regions, or None; Seed: the random seed.\<close>

definition pri_regions :: "pri_config \<Rightarrow> uptr \<Rightarrow> uptr \<Rightarrow> uptr \<Rightarrow> u32 list \<Rightarrow> (nat \<Rightarrow> RegionInfo) \<Rightarrow> RegionInfo list" where
  "pri_regions cfg PgSize Delta PrimaryBase rs R = map (\<lambda>I. initRegion cfg PgSize Delta I
     \<lparr> mBase = PrimaryBase + push_bit (RegionSizeLog cfg) (of_nat I), mCapacity = push_bit (RegionSizeLog cfg) 1 \<rparr>
     (EnableRandomOffset cfg) ((R I)\<lparr>RandState := rs ! I\<rparr>)) [0..<pcNumClasses cfg]"

definition pri_init :: "pri_config \<Rightarrow> uptr \<Rightarrow> (uptr \<Rightarrow> uptr option) \<Rightarrow> u32 \<Rightarrow> int \<Rightarrow> primary \<Rightarrow> primary result" where
  "pri_init cfg PgSize reserve Seed ReleaseToOsInterval P =
    (let N = pcNumClasses cfg;
         PagesInGroup = push_bit (GroupSizeLog cfg) 1 div PgSize;
         Delta = PagesInGroup * (1 + pri_getSizeByClassId cfg 1 div 16) div 100;
         (rs, Seed) = pri_seeds N Seed
     in bindR (if EnableContiguousRegions cfg then
            (case reserve (push_bit (RegionSizeLog cfg) 1 * of_nat N) of
               None \<Rightarrow> Inl (CheckFailed ''ReservedMemory.create'')
             | Some PrimaryBase \<Rightarrow>
                 let L = fst (shuffle (pri_regions cfg PgSize Delta PrimaryBase rs (Regions P)) (of_nat N) Seed)
                 in Inr (\<lambda>I. if I < N then L ! I else Regions P I))
          else Inr (\<lambda>I. if I < N then (Regions P I)\<lparr>RandState := rs ! I\<rparr> else Regions P I)) (\<lambda>R.
       let P = P\<lparr>SmallerBlockReleasePageDelta := Delta, Regions := R\<rparr>;
           Interval = (if pcDefaultReleaseMs cfg \<noteq> - (2 ^ 31) then pcDefaultReleaseMs cfg else ReleaseToOsInterval)
       in Inr (snd (pri_setOption cfg True Interval P))))"

section \<open>Visiting blocks\<close>

text \<open>The loop over the blocks of one region, for at most n blocks; iterateOverBlocks in the order of the
  calls of the callback.\<close>

fun walk_blocks :: "nat \<Rightarrow> uptr \<Rightarrow> uptr \<Rightarrow> uptr \<Rightarrow> uptr list option" where
  "walk_blocks n Block To BlockSize =
    (if \<not> Block < To then Some []
     else case n of 0 \<Rightarrow> None | Suc n \<Rightarrow> map_option ((#) Block) (walk_blocks n (Block + BlockSize) To BlockSize))"

declare walk_blocks.simps [simp del]

definition region_walk :: "pri_config \<Rightarrow> primary \<Rightarrow> nat \<Rightarrow> uptr list option" where
  "region_walk cfg P c = (let From = RegionBeg (Regions P c); To = From + AllocatedUser (Regions P c)
     in walk_blocks (unat (AllocatedUser (Regions P c))) From To (pri_getSizeByClassId cfg c))"

definition pri_iterateOverBlocks :: "pri_config \<Rightarrow> primary \<Rightarrow> uptr list option" where
  "pri_iterateOverBlocks cfg P = map_option concat (those (map (region_walk cfg P) [1..<pcNumClasses cfg]))"

section \<open>Threads\<close>

text \<open>sUsed: the blocks that the program holds, each with its class; sOut: the groups that a release of pages
  has taken out of the free list of a class and not merged back yet. An operation of a thread works on
  the allocator and its own cache.\<close>

record pri_system =
  sPri :: primary
  sCaches :: "nat \<Rightarrow> local_cache"
  sUsed :: "(nat \<times> uptr) list"
  sOut :: "nat \<Rightarrow> (BatchGroup list \<times> uptr \<times> uptr) option"

inductive pri_step :: "pri_config \<Rightarrow> nat \<Rightarrow> pri_system \<Rightarrow> pri_system \<Rightarrow> bool" for cfg n where
  step_allocate: "\<lbrakk> t < n; 0 < c; c < pcNumClasses cfg; lc_allocate cfg env c (sPri \<sigma>, sCaches \<sigma> t) = Inr (q, (P', C')) \<rbrakk> \<Longrightarrow>
    pri_step cfg n \<sigma> (\<sigma>\<lparr>sPri := P', sCaches := (sCaches \<sigma>)(t := C'),
      sUsed := (case q of None \<Rightarrow> sUsed \<sigma> | Some p \<Rightarrow> (c, p) # sUsed \<sigma>)\<rparr>)"
| step_deallocate: "\<lbrakk> t < n; (c, p) \<in> set (sUsed \<sigma>); lc_deallocate cfg env c p (sPri \<sigma>, sCaches \<sigma> t) = Inr (b, (P', C')) \<rbrakk> \<Longrightarrow>
    pri_step cfg n \<sigma> (\<sigma>\<lparr>sPri := P', sCaches := (sCaches \<sigma>)(t := C'), sUsed := remove1 (c, p) (sUsed \<sigma>)\<rparr>)"
| step_drain: "\<lbrakk> t < n; lc_drain cfg env (sPri \<sigma>, sCaches \<sigma> t) = Some (Inr (P', C')) \<rbrakk> \<Longrightarrow>
    pri_step cfg n \<sigma> (\<sigma>\<lparr>sPri := P', sCaches := (sCaches \<sigma>)(t := C')\<rparr>)"
| step_release_begin: "\<lbrakk> 0 < c; c < pcNumClasses cfg; sOut \<sigma> c = None;
      release_begin cfg pg nw (pReleaseToOsIntervalMs (sPri \<sigma>)) c (SmallerBlockReleasePageDelta (sPri \<sigma>)) ty (Regions (sPri \<sigma>) c) = (x, R') \<rbrakk> \<Longrightarrow>
    pri_step cfg n \<sigma> (\<sigma>\<lparr>sPri := upd_region c (\<lambda>_. R') (sPri \<sigma>), sOut := (sOut \<sigma>)(c := x)\<rparr>)"
| step_release_end: "\<lbrakk> 0 < c; c < pcNumClasses cfg; sOut \<sigma> c = Some x; release_end cfg pg nw c x released (sPri \<sigma>) = (by, P') \<rbrakk> \<Longrightarrow>
    pri_step cfg n \<sigma> (\<sigma>\<lparr>sPri := P', sOut := (sOut \<sigma>)(c := None)\<rparr>)"

section \<open>The invariant of a run\<close>

text \<open>The blocks of class c that are neither in the free list nor in the cache of thread t.\<close>

definition used_blocks :: "pri_config \<Rightarrow> primary \<Rightarrow> (nat \<times> uptr) list \<Rightarrow> nat \<Rightarrow> uptr multiset" where
  "used_blocks cfg P U c = mset (map (compactPtr cfg c P \<circ> snd) (filter (\<lambda>x. fst x = c) U))"

definition out_blocks :: "pri_config \<Rightarrow> pri_system \<Rightarrow> nat \<Rightarrow> uptr multiset" where
  "out_blocks cfg \<sigma> c = list_free (taken_groups (sOut \<sigma> c)) + (if c = 0 then
     (\<Sum>d\<in>{1..<pcNumClasses cfg}. list_meta cfg (RegionBeg (Regions (sPri \<sigma>) 0)) (taken_groups (sOut \<sigma> d))) else {#})"

definition rest_blocks :: "pri_config \<Rightarrow> pri_system \<Rightarrow> nat \<Rightarrow> uptr multiset" where
  "rest_blocks cfg \<sigma> c = used_blocks cfg (sPri \<sigma>) (sUsed \<sigma>) c + out_blocks cfg \<sigma> c"

definition elsewhere :: "pri_config \<Rightarrow> nat \<Rightarrow> pri_system \<Rightarrow> nat \<Rightarrow> nat \<Rightarrow> uptr multiset" where
  "elsewhere cfg n \<sigma> t c = (\<Sum>u\<in>{..<n} - {t}. mset (Chunks (PerClassArray (sCaches \<sigma> u) c))) + rest_blocks cfg \<sigma> c"

abbreviation thread_state :: "pri_system \<Rightarrow> nat \<Rightarrow> pstate" where
  "thread_state \<sigma> t \<equiv> (sPri \<sigma>, sCaches \<sigma> t)"

definition used_ok :: "pri_config \<Rightarrow> primary \<Rightarrow> (nat \<times> uptr) list \<Rightarrow> bool" where
  "used_ok cfg P U \<longleftrightarrow> (\<forall>(c, p)\<in>set U. 0 < c \<and> c < pcNumClasses cfg \<and> (\<exists>a. valid_ptr cfg a \<and> p = decompactPtr cfg c P a))"

definition out_ok :: "pri_config \<Rightarrow> pri_system \<Rightarrow> bool" where
  "out_ok cfg \<sigma> \<longleftrightarrow> sOut \<sigma> 0 = None \<and> (\<forall>c. list_wf cfg c (taken_groups (sOut \<sigma> c)) \<and> (\<forall>BG\<in>set (taken_groups (sOut \<sigma> c)). Batches BG \<noteq> []))"

definition sys_inv :: "pri_config \<Rightarrow> nat \<Rightarrow> pri_system \<Rightarrow> bool" where
  "sys_inv cfg n \<sigma> \<longleftrightarrow> 0 < n \<and> (\<forall>t<n. pinv cfg (thread_state \<sigma> t) (elsewhere cfg n \<sigma> t) (\<lambda>_. {#}) \<and> pwf cfg (thread_state \<sigma> t)) \<and>
    used_ok cfg (sPri \<sigma>) (sUsed \<sigma>) \<and> out_ok cfg \<sigma>"

text \<open>What one thread sees decides for the others.\<close>

lemma elsewhere_split:
  assumes "t < n"
  shows "elsewhere cfg n \<sigma> t c + mset (Chunks (PerClassArray (sCaches \<sigma> t) c)) =
    (\<Sum>u<n. mset (Chunks (PerClassArray (sCaches \<sigma> u) c))) + rest_blocks cfg \<sigma> c"
proof -
  have "(\<Sum>u<n. mset (Chunks (PerClassArray (sCaches \<sigma> u) c))) =
      mset (Chunks (PerClassArray (sCaches \<sigma> t) c)) + (\<Sum>u\<in>{..<n} - {t}. mset (Chunks (PerClassArray (sCaches \<sigma> u) c)))"
    using assms by (subst sum.remove [of _ t]) simp_all
  then show ?thesis by (simp add: elsewhere_def ac_simps)
qed

lemma sys_inv_from:
  assumes t: "t < n" and inv: "pinv cfg (thread_state \<sigma> t) (elsewhere cfg n \<sigma> t) (\<lambda>_. {#})" and w: "pwf cfg (thread_state \<sigma> t)"
    and others: "\<And>u c. u < n \<Longrightarrow> u \<noteq> t \<Longrightarrow> c < pcNumClasses cfg \<Longrightarrow>
      cache_wf cfg c (PerClassArray (sCaches \<sigma> u) c) \<and> 2 \<le> unat (MaxCount (PerClassArray (sCaches \<sigma> u) c))"
    and used: "used_ok cfg (sPri \<sigma>) (sUsed \<sigma>)" and out: "out_ok cfg \<sigma>"
  shows "sys_inv cfg n \<sigma>"
  unfolding sys_inv_def
proof (intro conjI allI impI)
  show "0 < n" "used_ok cfg (sPri \<sigma>) (sUsed \<sigma>)" "out_ok cfg \<sigma>" using t used out by simp_all
  fix u assume u: "u < n"
  show "pwf cfg (thread_state \<sigma> u)"
    using w others [OF u] by (cases "u = t") (simp_all add: pwf_def)
  show "pinv cfg (thread_state \<sigma> u) (elsewhere cfg n \<sigma> u) (\<lambda>_. {#})"
  proof (cases "u = t")
    case True
    then show ?thesis using inv by simp
  next
    case False
    show ?thesis
      unfolding pinv_def
    proof (intro conjI allI impI)
      show "cfg_ok cfg" using inv by (simp add: pinv_def)
      fix c assume c: "c < pcNumClasses cfg"
      note i = inv [unfolded pinv_def, THEN conjunct2, rule_format, OF c]
      show "region_ok cfg c (Regions (fst (thread_state \<sigma> u)) c)" using i by simp
      show "2 \<le> unat (MaxCount (PerClassArray (snd (thread_state \<sigma> u)) c))" using others [OF u False c] by simp
      show "\<forall>a\<in>#{#}. valid_ptr cfg a" by simp
      show "\<forall>BG\<in>set (BlockList (Regions (fst (thread_state \<sigma> u)) c)). Batches BG \<noteq> []" if "c \<noteq> 0" using i that by simp
      have "blocks_of cfg c (thread_state \<sigma> u) + elsewhere cfg n \<sigma> u c =
          free_of cfg c (sPri \<sigma>) + (elsewhere cfg n \<sigma> u c + mset (Chunks (PerClassArray (sCaches \<sigma> u) c)))"
        by (simp add: blocks_of_def ac_simps)
      also have "\<dots> = free_of cfg c (sPri \<sigma>) + (elsewhere cfg n \<sigma> t c + mset (Chunks (PerClassArray (sCaches \<sigma> t) c)))"
        using elsewhere_split [OF u, of cfg \<sigma> c] elsewhere_split [OF t, of cfg \<sigma> c] by simp
      also have "\<dots> = blocks_of cfg c (thread_state \<sigma> t) + elsewhere cfg n \<sigma> t c" by (simp add: blocks_of_def ac_simps)
      finally show "blocks_of cfg c (thread_state \<sigma> u) + elsewhere cfg n \<sigma> u c =
          mset (carved cfg c (Regions (fst (thread_state \<sigma> u)) c)) + {#}" using i by simp
    qed
  qed
qed

lemma sys_invD:
  assumes "sys_inv cfg n \<sigma>" and "t < n"
  shows "pinv cfg (thread_state \<sigma> t) (elsewhere cfg n \<sigma> t) (\<lambda>_. {#})" "pwf cfg (thread_state \<sigma> t)"
    "c < pcNumClasses cfg \<Longrightarrow> cache_wf cfg c (PerClassArray (sCaches \<sigma> t) c)"
    "c < pcNumClasses cfg \<Longrightarrow> 2 \<le> unat (MaxCount (PerClassArray (sCaches \<sigma> t) c))"
proof -
  show p: "pinv cfg (thread_state \<sigma> t) (elsewhere cfg n \<sigma> t) (\<lambda>_. {#})" "pwf cfg (thread_state \<sigma> t)"
    using assms by (simp_all add: sys_inv_def)
  show "cache_wf cfg c (PerClassArray (sCaches \<sigma> t) c)" if "c < pcNumClasses cfg" using pwfD(3) [OF p(2) that] by simp
  show "2 \<le> unat (MaxCount (PerClassArray (sCaches \<sigma> t) c))" if "c < pcNumClasses cfg" using p(1) that by (simp add: pinv_def)
qed

text \<open>The base addresses of the regions do not change, so neither do pointers.\<close>

definition same_bases :: "primary \<Rightarrow> primary \<Rightarrow> bool" where
  "same_bases P P' \<longleftrightarrow> (\<forall>d. RegionBeg (Regions P' d) = RegionBeg (Regions P d) \<and> rMemMap (Regions P' d) = rMemMap (Regions P d))"

lemma same_bases_ptr:
  assumes "same_bases P P'"
  shows "compactPtr cfg c P' = compactPtr cfg c P" "decompactPtr cfg c P' = decompactPtr cfg c P"
    "used_blocks cfg P' U = used_blocks cfg P U" "used_ok cfg P' U = used_ok cfg P U"
proof -
  show e: "compactPtr cfg c P' = compactPtr cfg c P" "decompactPtr cfg c P' = decompactPtr cfg c P" for c
    using assms by (simp_all add: same_bases_def compactPtr_def decompactPtr_def getCompactPtrBaseByClassId_def fun_eq_iff)
  show "used_blocks cfg P' U = used_blocks cfg P U" "used_ok cfg P' U = used_ok cfg P U"
    by (simp_all add: used_blocks_def used_ok_def e fun_eq_iff)
qed

lemma used_blocks_simps [simp]:
  "used_blocks cfg P [] c = {#}"
  "used_blocks cfg P (x # U) c = (if fst x = c then {#compactPtr cfg c P (snd x)#} else {#}) + used_blocks cfg P U c"
  by (simp_all add: used_blocks_def)

lemma used_blocks_remove1:
  assumes "(c, p) \<in> set U"
  shows "used_blocks cfg P U d = used_blocks cfg P (remove1 (c, p) U) d + (if d = c then {#compactPtr cfg c P p#} else {#})"
  using assms by (induction U) auto

text \<open>An operation of thread t.\<close>

lemma thread_step:
  assumes s: "sys_inv cfg n \<sigma>" and t: "t < n" and b: "same_bases (sPri \<sigma>) P'"
    and U: "used_ok cfg P' U"
    and X: "\<And>c. used_blocks cfg P' U c + elsewhere cfg n \<sigma> t c = used_blocks cfg (sPri \<sigma>) (sUsed \<sigma>) c + X' c"
    and inv: "pinv cfg (P', C') X' (\<lambda>_. {#})" and w: "pwf cfg (P', C')"
  shows "sys_inv cfg n (\<sigma>\<lparr>sPri := P', sCaches := (sCaches \<sigma>)(t := C'), sUsed := U\<rparr>)"
proof -
  let ?\<sigma> = "\<sigma>\<lparr>sPri := P', sCaches := (sCaches \<sigma>)(t := C'), sUsed := U\<rparr>"
  have o: "out_blocks cfg ?\<sigma> c = out_blocks cfg \<sigma> c" for c
    using b by (simp add: out_blocks_def same_bases_def)
  have "elsewhere cfg n ?\<sigma> t c = X' c" for c
  proof -
    have "elsewhere cfg n ?\<sigma> t c + used_blocks cfg (sPri \<sigma>) (sUsed \<sigma>) c = used_blocks cfg P' U c + elsewhere cfg n \<sigma> t c"
      by (simp add: elsewhere_def rest_blocks_def o ac_simps)
    then show ?thesis using X [of c] by simp
  qed
  then have e: "elsewhere cfg n ?\<sigma> t = X'" by (rule ext)
  show ?thesis
  proof (rule sys_inv_from [OF t])
    show "pinv cfg (thread_state ?\<sigma> t) (elsewhere cfg n ?\<sigma> t) (\<lambda>_. {#})" unfolding e using inv by simp
    show "pwf cfg (thread_state ?\<sigma> t)" "used_ok cfg (sPri ?\<sigma>) (sUsed ?\<sigma>)" using w U by simp_all
    show "out_ok cfg ?\<sigma>" using s by (simp add: sys_inv_def out_ok_def)
    show "cache_wf cfg c (PerClassArray (sCaches ?\<sigma> u) c) \<and> 2 \<le> unat (MaxCount (PerClassArray (sCaches ?\<sigma> u) c))"
      if "u < n" "u \<noteq> t" "c < pcNumClasses cfg" for u c
      using sys_invD(3,4) [OF s that(1)] that by simp
  qed
qed

lemma step_allocate_inv:
  assumes s: "sys_inv cfg n \<sigma>" and t: "t < n" and c: "0 < c" "c < pcNumClasses cfg"
    and r: "lc_allocate cfg env c (thread_state \<sigma> t) = Inr (q, (P', C'))"
  shows "sys_inv cfg n (\<sigma>\<lparr>sPri := P', sCaches := (sCaches \<sigma>)(t := C'), sUsed := (case q of None \<Rightarrow> sUsed \<sigma> | Some p \<Rightarrow> (c, p) # sUsed \<sigma>)\<rparr>)"
    "same_bases (sPri \<sigma>) P'"
proof -
  let ?X = "elsewhere cfg n \<sigma> t"
  note i = lc_allocate_inv [OF c(2) sys_invD(1) [OF s t] r] and w = sys_invD(1,2) [OF s t]
  show b: "same_bases (sPri \<sigma>) P'" using i(2,3) by (simp add: same_bases_def)
  have wf: "pwf cfg (P', C')" using res_okD [OF lc_allocate_wf [OF c(2) w] r] by simp
  have U: "used_ok cfg P' (sUsed \<sigma>)" using s same_bases_ptr(4) [OF b] by (simp add: sys_inv_def)
  show "sys_inv cfg n (\<sigma>\<lparr>sPri := P', sCaches := (sCaches \<sigma>)(t := C'), sUsed := (case q of None \<Rightarrow> sUsed \<sigma> | Some p \<Rightarrow> (c, p) # sUsed \<sigma>)\<rparr>)"
  proof (cases q)
    case None
    then have "pinv cfg (P', C') ?X (\<lambda>_. {#})" using i(1) by simp
    from thread_step [OF s t b U _ this wf] show ?thesis by (simp add: None same_bases_ptr(3) [OF b])
  next
    case (Some Ptr)
    then obtain p where p: "valid_ptr cfg p" "Ptr = decompactPtr cfg c P' p" "pinv cfg (P', C') (?X(c := add_mset p (?X c))) (\<lambda>_. {#})"
      using i(1) by auto
    have cp: "compactPtr cfg c P' Ptr = p"
      using compact_decompact [OF p(1)] by (simp add: p(2) compactPtr_def decompactPtr_def)
    have U': "used_ok cfg P' ((c, Ptr) # sUsed \<sigma>)" using U p(1,2) c by (auto simp: used_ok_def)
    have "used_blocks cfg P' ((c, Ptr) # sUsed \<sigma>) d + ?X d = used_blocks cfg (sPri \<sigma>) (sUsed \<sigma>) d + (?X(c := add_mset p (?X c))) d" for d
      using cp by (simp add: same_bases_ptr(1,3) [OF b])
    from thread_step [OF s t b U' this p(3) wf] show ?thesis by (simp add: Some)
  qed
qed

lemma step_deallocate_inv:
  assumes s: "sys_inv cfg n \<sigma>" and t: "t < n" and u: "(c, p) \<in> set (sUsed \<sigma>)"
    and r: "lc_deallocate cfg env c p (thread_state \<sigma> t) = Inr (q, (P', C'))"
  shows "sys_inv cfg n (\<sigma>\<lparr>sPri := P', sCaches := (sCaches \<sigma>)(t := C'), sUsed := remove1 (c, p) (sUsed \<sigma>)\<rparr>)"
    "same_bases (sPri \<sigma>) P'"
proof -
  let ?X = "elsewhere cfg n \<sigma> t" and ?U = "sUsed \<sigma>"
  define X' where "X' d = used_blocks cfg (sPri \<sigma>) (remove1 (c, p) ?U) d + (\<Sum>u\<in>{..<n} - {t}. mset (Chunks (PerClassArray (sCaches \<sigma> u) d))) + out_blocks cfg \<sigma> d" for d
  have c: "c < pcNumClasses cfg" using s u by (auto simp: sys_inv_def used_ok_def)
  have X: "?X d = X' d + (if d = c then {#compactPtr cfg c (sPri \<sigma>) p#} else {#})" for d
    using used_blocks_remove1 [OF u, of cfg "sPri \<sigma>" d] by (simp add: X'_def elsewhere_def rest_blocks_def ac_simps)
  have X1: "?X c = add_mset (compactPtr cfg c (fst (thread_state \<sigma> t)) p) (X' c)" "\<And>d. d \<noteq> c \<Longrightarrow> X' d = ?X d" using X by simp_all
  note i = lc_deallocate_inv [OF sys_invD(1) [OF s t] r X1]
  show b: "same_bases (sPri \<sigma>) P'" using i(2) by (simp add: same_bases_def)
  have wf: "pwf cfg (P', C')" using res_okD [OF lc_deallocate_wf [OF sys_invD(1,2) [OF s t] c] r] by simp
  have U: "used_ok cfg P' (remove1 (c, p) ?U)"
  proof -
    have "used_ok cfg P' ?U" using s same_bases_ptr(4) [OF b] by (simp add: sys_inv_def)
    then show ?thesis unfolding used_ok_def using set_remove1_subset [of "(c, p)" ?U] by blast
  qed
  have e: "used_blocks cfg P' (remove1 (c, p) ?U) d + ?X d = used_blocks cfg (sPri \<sigma>) ?U d + X' d" for d
    using used_blocks_remove1 [OF u, of cfg "sPri \<sigma>" d] by (simp add: same_bases_ptr(3) [OF b] X ac_simps)
  show "sys_inv cfg n (\<sigma>\<lparr>sPri := P', sCaches := (sCaches \<sigma>)(t := C'), sUsed := remove1 (c, p) (sUsed \<sigma>)\<rparr>)"
    by (rule thread_step [OF s t b U e i(1) wf])
qed

lemma step_drain_inv:
  assumes s: "sys_inv cfg n \<sigma>" and t: "t < n" and r: "lc_drain cfg env (thread_state \<sigma> t) = Some (Inr (P', C'))"
  shows "sys_inv cfg n (\<sigma>\<lparr>sPri := P', sCaches := (sCaches \<sigma>)(t := C')\<rparr>)" "same_bases (sPri \<sigma>) P'"
proof -
  have d: "drained cfg {..<pcNumClasses cfg} (elsewhere cfg n \<sigma> t) (\<lambda>_. {#}) (thread_state \<sigma> t) (P', C')" "pwf cfg (P', C')"
    using lc_drain_ok [OF sys_invD(1,2) [OF s t], of env] r by auto
  show b: "same_bases (sPri \<sigma>) P'" using d(1) by (simp add: drained_def same_bases_def)
  have U: "used_ok cfg P' (sUsed \<sigma>)" using s same_bases_ptr(4) [OF b] by (simp add: sys_inv_def)
  have "pinv cfg (P', C') (elsewhere cfg n \<sigma> t) (\<lambda>_. {#})" using d(1) by (simp add: drained_def)
  from thread_step [OF s t b U _ this d(2)] show "sys_inv cfg n (\<sigma>\<lparr>sPri := P', sCaches := (sCaches \<sigma>)(t := C')\<rparr>)"
    by (simp add: same_bases_ptr(3) [OF b])
qed

text \<open>A release of pages works on the allocator alone.\<close>

lemma release_step:
  assumes s: "sys_inv cfg n \<sigma>" and b: "same_bases (sPri \<sigma>) P'" and o: "out_ok cfg (\<sigma>\<lparr>sPri := P', sOut := O'\<rparr>)"
    and inv: "\<And>C X. pinv cfg (sPri \<sigma>, C) (\<lambda>d. X d + out_blocks cfg \<sigma> d) (\<lambda>_. {#}) \<Longrightarrow> pwf cfg (sPri \<sigma>, C) \<Longrightarrow>
      pinv cfg (P', C) (\<lambda>d. X d + out_blocks cfg (\<sigma>\<lparr>sPri := P', sOut := O'\<rparr>) d) (\<lambda>_. {#}) \<and> pwf cfg (P', C)"
  shows "sys_inv cfg n (\<sigma>\<lparr>sPri := P', sOut := O'\<rparr>)"
  unfolding sys_inv_def
proof (intro conjI allI impI)
  let ?\<sigma> = "\<sigma>\<lparr>sPri := P', sOut := O'\<rparr>"
  show "0 < n" "out_ok cfg ?\<sigma>" using s o by (simp_all add: sys_inv_def)
  show "used_ok cfg (sPri ?\<sigma>) (sUsed ?\<sigma>)" using s same_bases_ptr(4) [OF b] by (simp add: sys_inv_def)
  fix t assume t: "t < n"
  define X where "X d = (\<Sum>u\<in>{..<n} - {t}. mset (Chunks (PerClassArray (sCaches \<sigma> u) d))) + used_blocks cfg (sPri \<sigma>) (sUsed \<sigma>) d" for d
  have e: "elsewhere cfg n \<sigma> t = (\<lambda>d. X d + out_blocks cfg \<sigma> d)" "elsewhere cfg n ?\<sigma> t = (\<lambda>d. X d + out_blocks cfg ?\<sigma> d)"
    by (simp_all add: elsewhere_def rest_blocks_def X_def fun_eq_iff same_bases_ptr(3) [OF b])
  show "pinv cfg (thread_state ?\<sigma> t) (elsewhere cfg n ?\<sigma> t) (\<lambda>_. {#})" "pwf cfg (thread_state ?\<sigma> t)"
    using inv [of "sCaches \<sigma> t" X] sys_invD(1,2) [OF s t] by (simp_all add: e)
qed

lemma out_blocks_upd:
  assumes c: "0 < c" "c < pcNumClasses cfg" and b: "RegionBeg (Regions P' 0) = RegionBeg (Regions (sPri \<sigma>) 0)" and o: "sOut \<sigma> c = None"
  shows "out_blocks cfg (\<sigma>\<lparr>sPri := P', sOut := (sOut \<sigma>)(c := x)\<rparr>) d = out_blocks cfg \<sigma> d +
    (if d = c then list_free (taken_groups x) else {#}) + (if d = 0 then list_meta cfg (RegionBeg (Regions (sPri \<sigma>) 0)) (taken_groups x) else {#})"
proof -
  let ?m = "\<lambda>d. list_meta cfg (RegionBeg (Regions (sPri \<sigma>) 0)) (taken_groups (sOut \<sigma> d))"
  let ?m' = "\<lambda>d. list_meta cfg (RegionBeg (Regions (sPri \<sigma>) 0)) (taken_groups (((sOut \<sigma>)(c := x)) d))"
  have C: "c \<in> {1..<pcNumClasses cfg}" using c by simp
  have n: "taken_groups None = []" by (simp add: taken_groups_def)
  have "sum ?m' ({1..<pcNumClasses cfg} - {c}) = sum ?m ({1..<pcNumClasses cfg} - {c})" by (intro sum.cong) auto
  then have "sum ?m' {1..<pcNumClasses cfg} = sum ?m {1..<pcNumClasses cfg} + list_meta cfg (RegionBeg (Regions (sPri \<sigma>) 0)) (taken_groups x)"
    using C by (simp add: sum.remove [of _ c] o n ac_simps)
  then show ?thesis using c b by (simp add: out_blocks_def o n)
qed

lemma out_okD: "out_ok cfg \<sigma> \<Longrightarrow> list_wf cfg c (taken_groups (sOut \<sigma> c))" "out_ok cfg \<sigma> \<Longrightarrow> \<forall>BG\<in>set (taken_groups (sOut \<sigma> c)). Batches BG \<noteq> []"
  by (simp_all add: out_ok_def)

lemma out_ok_upd:
  assumes "out_ok cfg \<sigma>" and "0 < c" and "list_wf cfg c (taken_groups x)" and "\<forall>BG\<in>set (taken_groups x). Batches BG \<noteq> []"
  shows "out_ok cfg (\<sigma>\<lparr>sPri := P', sOut := (sOut \<sigma>)(c := x)\<rparr>)"
  using assms by (simp add: out_ok_def)

lemma metas_upd_region:
  assumes "c \<noteq> 0"
  shows "metas cfg (upd_region c (\<lambda>_. R') P) = metas cfg (set_blocks c (BlockList R') P)"
  unfolding metas_def using assms by (intro sum.cong) (auto simp: set_blocks_def)

lemma take_out_inv:
  assumes inv: "pinv cfg (P, C) X Y" and w: "pwf cfg (P, C)" and c: "0 < c" "c < pcNumClasses cfg"
    and sp: "split_list cfg c (RegionBeg (Regions P 0)) (Regions P c) G R'"
  shows "pinv cfg (upd_region c (\<lambda>_. R') P, C)
      (\<lambda>d. X d + (if d = c then list_free G else {#}) + (if d = 0 then list_meta cfg (RegionBeg (Regions P 0)) G else {#})) Y"
    "pwf cfg (upd_region c (\<lambda>_. R') P, C)"
proof -
  let ?b = "RegionBeg (Regions P 0)"
  note sp = sp [unfolded split_list_def]
  show "pwf cfg (upd_region c (\<lambda>_. R') P, C)" by (rule pwf_upd_region [OF w]) (use sp in simp)
  have ms: "metas cfg (upd_region c (\<lambda>_. R') P) + list_meta cfg ?b G = metas cfg P"
  proof -
    have "metas cfg (upd_region c (\<lambda>_. R') P) + list_meta cfg ?b (BlockList (Regions P c)) = metas cfg P + list_meta cfg ?b (BlockList R')"
      using metas_upd_region [of c cfg R' P] metas_set_blocks [of c cfg "BlockList R'" P] c by simp
    moreover have "list_meta cfg ?b (BlockList (Regions P c)) = list_meta cfg ?b (BlockList R') + list_meta cfg ?b G" using sp by simp
    ultimately have "metas cfg (upd_region c (\<lambda>_. R') P) + (list_meta cfg ?b (BlockList R') + list_meta cfg ?b G) =
        metas cfg P + list_meta cfg ?b (BlockList R')" by (rule back_subst [of "\<lambda>v. _ + v = _"])
    then have "metas cfg (upd_region c (\<lambda>_. R') P) + list_meta cfg ?b G + list_meta cfg ?b (BlockList R') = metas cfg P + list_meta cfg ?b (BlockList R')"
      by (simp add: ac_simps)
    then show ?thesis by simp
  qed
  show "pinv cfg (upd_region c (\<lambda>_. R') P, C)
      (\<lambda>d. X d + (if d = c then list_free G else {#}) + (if d = 0 then list_meta cfg ?b G else {#})) Y"
  proof (rule pinv_step [OF inv])
    fix d
    show "same_geo (Regions (fst (P, C)) d) (Regions (fst (upd_region c (\<lambda>_. R') P, C)) d)" using sp by simp
    show "blocks_of cfg d (upd_region c (\<lambda>_. R') P, C) + (X d + (if d = c then list_free G else {#}) + (if d = 0 then list_meta cfg ?b G else {#})) =
        blocks_of cfg d (P, C) + X d"
    proof (cases "d = 0")
      case True
      then show ?thesis using c by (simp add: blocks_of_def free_of_def ac_simps flip: ms)
    next
      case False
      have "list_free (BlockList (Regions P c)) = list_free (BlockList R') + list_free G" using sp by simp
      then show ?thesis using False by (simp add: blocks_of_def free_of_def ac_simps)
    qed
    show "\<forall>BG\<in>set (BlockList (Regions (fst (upd_region c (\<lambda>_. R') P, C)) d)). Batches BG \<noteq> []"
      if "\<forall>BG\<in>set (BlockList (Regions (fst (P, C)) d)). Batches BG \<noteq> []"
      using that sp by simp
  qed simp
qed

lemma step_release_begin_inv:
  assumes s: "sys_inv cfg n \<sigma>" and c: "0 < c" "c < pcNumClasses cfg" and o: "sOut \<sigma> c = None"
    and r: "release_begin cfg pg nw iv c pd ty (Regions (sPri \<sigma>) c) = (x, R')"
  shows "sys_inv cfg n (\<sigma>\<lparr>sPri := upd_region c (\<lambda>_. R') (sPri \<sigma>), sOut := (sOut \<sigma>)(c := x)\<rparr>)"
    "same_bases (sPri \<sigma>) (upd_region c (\<lambda>_. R') (sPri \<sigma>))"
proof -
  let ?P = "sPri \<sigma>" and ?R = "Regions (sPri \<sigma>) c"
  have n: "0 < n" using s by (simp add: sys_inv_def)
  have "list_wf cfg c (BlockList ?R)" using pwfD(2) [OF sys_invD(2) [OF s n] c(2)] by simp
  moreover have "\<forall>BG\<in>set (BlockList ?R). Batches BG \<noteq> []" using sys_invD(1) [OF s n] c by (simp add: pinv_def)
  ultimately have sp: "split_list cfg c (RegionBeg (Regions ?P 0)) ?R (taken_groups x) R'" by (rule release_begin_ok [OF r])
  then have g: "same_geo ?R R'" by (simp add: split_list_def)
  show b: "same_bases ?P (upd_region c (\<lambda>_. R') ?P)" using g by (simp add: same_bases_def same_geo_def)
  show "sys_inv cfg n (\<sigma>\<lparr>sPri := upd_region c (\<lambda>_. R') ?P, sOut := (sOut \<sigma>)(c := x)\<rparr>)"
  proof (rule release_step [OF s b])
    show "out_ok cfg (\<sigma>\<lparr>sPri := upd_region c (\<lambda>_. R') ?P, sOut := (sOut \<sigma>)(c := x)\<rparr>)"
      using s sp c by (intro out_ok_upd) (simp_all add: sys_inv_def split_list_def)
    fix C X assume i: "pinv cfg (?P, C) (\<lambda>d. X d + out_blocks cfg \<sigma> d) (\<lambda>_. {#})" "pwf cfg (?P, C)"
    have bb: "RegionBeg (Regions (upd_region c (\<lambda>_. R') ?P) 0) = RegionBeg (Regions ?P 0)" using c by simp
    show "pinv cfg (upd_region c (\<lambda>_. R') ?P, C)
        (\<lambda>d. X d + out_blocks cfg (\<sigma>\<lparr>sPri := upd_region c (\<lambda>_. R') ?P, sOut := (sOut \<sigma>)(c := x)\<rparr>) d) (\<lambda>_. {#}) \<and>
      pwf cfg (upd_region c (\<lambda>_. R') ?P, C)"
      unfolding out_blocks_upd [OF c bb o] using take_out_inv [OF i c sp] by (simp add: ac_simps)
  qed
qed

lemma release_finish_frame:
  "same_geo R (release_finish cfg pg z nw fr dl rl R)" "BlockList (release_finish cfg pg z nw fr dl rl R) = BlockList R"
  by (simp_all add: release_finish_def Let_def same_geo_def)

lemma step_release_end_inv:
  assumes s: "sys_inv cfg n \<sigma>" and c: "0 < c" "c < pcNumClasses cfg" and o: "sOut \<sigma> c = Some x"
    and r: "release_end cfg pg nw c x released (sPri \<sigma>) = (rb, P')"
  shows "sys_inv cfg n (\<sigma>\<lparr>sPri := P', sOut := (sOut \<sigma>)(c := None)\<rparr>)" "same_bases (sPri \<sigma>) P'"
proof -
  let ?P = "sPri \<sigma>"
  obtain G fr dl where x: "x = (G, fr, dl)" by (metis prod.exhaust)
  have G: "taken_groups (Some x) = G" "taken_groups None = []" by (simp_all add: taken_groups_def x)
  define P1 where "P1 = (case released of None \<Rightarrow> ?P | Some rl \<Rightarrow> upd_region c (release_finish cfg pg (pri_getSizeByClassId cfg c) nw fr dl rl) ?P)"
  have P': "P' = mergeGroupsToReleaseBack cfg c G P1"
    using r by (auto simp: release_end_def x P1_def split: option.splits)
  have sb: "same_blocks (?P, C) (P1, C)" and w1: "pwf cfg (?P, C) \<Longrightarrow> pwf cfg (P1, C)" and b1: "same_bases ?P P1" for C
    using release_finish_frame
    by (auto simp: P1_def same_blocks_def same_bases_def same_geo_def pwf_def split: option.split)
  have n: "0 < n" using s by (simp add: sys_inv_def)
  have oG: "list_wf cfg c G" "\<forall>BG\<in>set G. Batches BG \<noteq> []" using s out_okD [of cfg \<sigma> c] o G by (simp_all add: sys_inv_def)
  have bb: "RegionBeg (Regions P1 0) = RegionBeg (Regions ?P 0)" using b1 by (simp add: same_bases_def)
  have merge: "pinv cfg (P', C) X (\<lambda>_. {#}) \<and> pwf cfg (P', C) \<and> same_bases P1 P'"
    if i: "pinv cfg (?P, C) (\<lambda>d. X d + (if d = c then list_free G else {#}) + (if d = 0 then list_meta cfg (RegionBeg (Regions ?P 0)) G else {#})) (\<lambda>_. {#})"
      and w: "pwf cfg (?P, C)" for C X
  proof -
    have c0: "c \<noteq> 0" using c by simp
    note m = mergeGroupsToReleaseBack_inv [OF same_blocks_inv [OF sb i] w1 [OF w] c0 c(2) oG, unfolded bb, OF refl, folded P']
    then show ?thesis by (simp add: same_bases_def)
  qed
  let ?\<sigma>1 = "\<sigma>\<lparr>sOut := (sOut \<sigma>)(c := None)\<rparr>"
  have out: "out_blocks cfg \<sigma> d = out_blocks cfg ?\<sigma>1 d + (if d = c then list_free G else {#}) +
      (if d = 0 then list_meta cfg (RegionBeg (Regions ?P 0)) G else {#})" for d
  proof -
    have "?\<sigma>1\<lparr>sPri := ?P, sOut := (sOut ?\<sigma>1)(c := Some x)\<rparr> = \<sigma>" using o by (simp add: fun_upd_idem)
    moreover note out_blocks_upd [OF c, of ?P ?\<sigma>1 "Some x" d]
    ultimately show ?thesis by (simp add: G)
  qed
  have m: "pinv cfg (P', C) (\<lambda>d. X d + out_blocks cfg ?\<sigma>1 d) (\<lambda>_. {#}) \<and> pwf cfg (P', C) \<and> same_bases P1 P'"
    if i: "pinv cfg (?P, C) (\<lambda>d. X d + out_blocks cfg \<sigma> d) (\<lambda>_. {#})" and w: "pwf cfg (?P, C)" for C X
    by (rule merge [OF _ w]) (use i [unfolded out] in \<open>simp only: add.assoc\<close>)
  have i0: "pinv cfg (?P, sCaches \<sigma> 0) (\<lambda>d. (\<Sum>u\<in>{..<n} - {0}. mset (Chunks (PerClassArray (sCaches \<sigma> u) d))) + used_blocks cfg ?P (sUsed \<sigma>) d +
      out_blocks cfg \<sigma> d) (\<lambda>_. {#})"
  proof -
    have "elsewhere cfg n \<sigma> 0 = (\<lambda>d. (\<Sum>u\<in>{..<n} - {0}. mset (Chunks (PerClassArray (sCaches \<sigma> u) d))) + used_blocks cfg ?P (sUsed \<sigma>) d +
      out_blocks cfg \<sigma> d)" by (simp add: elsewhere_def rest_blocks_def fun_eq_iff)
    with sys_invD(1) [OF s n] show ?thesis by simp
  qed
  show b: "same_bases ?P P'"
    using m [OF i0 sys_invD(2) [OF s n]] b1 by (simp add: same_bases_def)
  have e: "out_blocks cfg (\<sigma>\<lparr>sPri := P', sOut := (sOut \<sigma>)(c := None)\<rparr>) d = out_blocks cfg ?\<sigma>1 d" for d
    using b by (simp add: out_blocks_def same_bases_def)
  show "sys_inv cfg n (\<sigma>\<lparr>sPri := P', sOut := (sOut \<sigma>)(c := None)\<rparr>)"
  proof (rule release_step [OF s b])
    show "out_ok cfg (\<sigma>\<lparr>sPri := P', sOut := (sOut \<sigma>)(c := None)\<rparr>)"
      using s c G by (intro out_ok_upd) (simp_all add: sys_inv_def list_wf_def groups_wf_def)
    fix C X assume i: "pinv cfg (?P, C) (\<lambda>d. X d + out_blocks cfg \<sigma> d) (\<lambda>_. {#})" "pwf cfg (?P, C)"
    show "pinv cfg (P', C) (\<lambda>d. X d + out_blocks cfg (\<sigma>\<lparr>sPri := P', sOut := (sOut \<sigma>)(c := None)\<rparr>) d) (\<lambda>_. {#}) \<and> pwf cfg (P', C)"
      unfolding e using m [OF i] by simp
  qed
qed

text \<open>Every step keeps the invariant, and the regions stay where they are.\<close>

lemma pri_step_inv:
  assumes "pri_step cfg n \<sigma> \<sigma>'" and s: "sys_inv cfg n \<sigma>"
  shows "sys_inv cfg n \<sigma>' \<and> same_bases (sPri \<sigma>) (sPri \<sigma>')"
  using assms(1)
proof cases
  case step_allocate
  then show ?thesis using step_allocate_inv [OF s] by simp
next
  case step_deallocate
  then show ?thesis using step_deallocate_inv [OF s] by simp
next
  case step_drain
  then show ?thesis using step_drain_inv [OF s] by simp
next
  case step_release_begin
  then show ?thesis using step_release_begin_inv [OF s] by simp
next
  case step_release_end
  then show ?thesis using step_release_end_inv [OF s] by simp
qed

lemma same_bases_trans: "same_bases P Q \<Longrightarrow> same_bases Q R \<Longrightarrow> same_bases P R"
  by (simp add: same_bases_def)

lemma pri_run_inv:
  assumes "(pri_step cfg n)\<^sup>*\<^sup>* \<sigma> \<sigma>'" and "sys_inv cfg n \<sigma>"
  shows "sys_inv cfg n \<sigma>' \<and> same_bases (sPri \<sigma>) (sPri \<sigma>')"
  using assms
proof (induction rule: rtranclp_induct)
  case base
  then show ?case by (simp add: same_bases_def)
next
  case (step \<sigma>1 \<sigma>2)
  then show ?case using pri_step_inv [OF step(2)] same_bases_trans by blast
qed

end
