(* ===== verification/Primary64_Properties.thy ===== *)
theory Primary64_Properties
  imports Primary64_System Size_Class_Table
begin

text \<open>What the primary allocator promises, for every run from its initialisation: the blocks in use are
  disjoint and inside the mapped part of their region, the free lists and the caches stay well-formed,
  and no operation ends in a crash or a loop.\<close>

section \<open>The default configuration is in order\<close>

lemmas default_config = DefaultPrimaryConfig_def fixed_pri_config_def DefaultSizeClassConfig_def
lemmas size_class_defs = fixed_getSizeByClassId_def fixed_NumClasses_def MidClass_def MidSize_def MinSize_def sc_S_def sc_M_def

lemma upt_1_45: "[1..<45] = [1, 2, 3, 4, 5, 6, 7, 8, 9, 10, 11, 12, 13, 14, 15, 16, 17, 18, 19, 20, 21, 22, 23, 24, 25, 26, 27, 28, 29, 30, 31, 32, 33, 34, 35, 36, 37, 38, 39, 40, 41, 42, 43, 44 :: nat]"
  by (simp add: upt_rec)

lemma default_sizes: "list_all (\<lambda>c. 16 \<le> unat (fixed_getSizeByClassId DefaultSizeClassConfig (of_nat c)) \<and>
    unat (fixed_getSizeByClassId DefaultSizeClassConfig (of_nat c)) \<le> 2 ^ 32) [1..<45]"
  unfolding upt_1_45 by (simp add: DefaultSizeClassConfig_def size_class_defs)

lemma default_ok: "cfg_ok DefaultPrimaryConfig"
proof -
  let ?cfg = DefaultPrimaryConfig
  have n: "pcNumClasses ?cfg = 45" by (simp add: default_config size_class_defs)
  have z0: "pri_getSizeByClassId ?cfg 0 = 128"
    by (simp add: default_config pri_getSizeByClassId_def sizeof_TransferBatch_def sizeof_BatchGroup_def roundUp_def)
  have z: "16 \<le> unat (pri_getSizeByClassId ?cfg c) \<and> unat (pri_getSizeByClassId ?cfg c) \<le> 2 ^ 32" if "c < 45" for c
  proof (cases "c = 0")
    case False
    then have "c \<in> set [1..<45]" using that by simp
    moreover have "pri_getSizeByClassId ?cfg c = fixed_getSizeByClassId DefaultSizeClassConfig (of_nat c)"
      using False by (simp add: pri_getSizeByClassId_def DefaultPrimaryConfig_def fixed_pri_config_def)
    ultimately show ?thesis using default_sizes unfolding list_all_iff by metis
  qed (simp add: z0)
  have "lc_getMaxCached ?cfg s \<noteq> 0" for s
  proof -
    have "1 \<le> unat (getMaxCachedHint DefaultSizeClassConfig s)"
      using max_cached_hint [of DefaultSizeClassConfig s] by (simp add: DefaultSizeClassConfig_def)
    then have "getMaxCachedHint DefaultSizeClassConfig s \<noteq> 0" by auto
    then show ?thesis by (simp add: lc_getMaxCached_def DefaultPrimaryConfig_def fixed_pri_config_def min_def DefaultSizeClassConfig_def)
  qed
  moreover have "\<exists>k\<le>40. MapSizeIncrement ?cfg = 2 ^ k" by (intro exI [of _ 18]) (simp add: default_config)
  ultimately show ?thesis unfolding cfg_ok_def n using z by (simp add: default_config)
qed

lemma default_wf: "cfg_wf DefaultPrimaryConfig"
  by (simp add: cfg_wf_def batch_max_def default_config pri_getSizeByClassId_def sizeof_TransferBatch_def sizeof_BatchGroup_def roundUp_def
      lc_getMaxCached_def getMaxCachedHint_def)

section \<open>The initial state\<close>

definition fresh_primary :: "primary \<Rightarrow> bool" where
  "fresh_primary P \<longleftrightarrow> (\<forall>c. BlockList (Regions P c) = [] \<and> AllocatedUser (Regions P c) = 0 \<and> MappedUser (Regions P c) = 0)"

definition fresh_cache :: "local_cache \<Rightarrow> bool" where
  "fresh_cache C \<longleftrightarrow> (\<forall>c. Chunks (PerClassArray C c) = [])"

definition pri_start :: "pri_config \<Rightarrow> primary \<Rightarrow> local_cache \<Rightarrow> pri_system" where
  "pri_start cfg P C = \<lparr> sPri = P, sCaches = (\<lambda>_. lc_initCache cfg C), sUsed = [], sOut = (\<lambda>_. None) \<rparr>"

text \<open>The regions do not overlap, nor wrap around the address space.\<close>

definition regions_apart :: "pri_config \<Rightarrow> primary \<Rightarrow> bool" where
  "regions_apart cfg P \<longleftrightarrow> (\<forall>c<pcNumClasses cfg. unat (mBase (rMemMap (Regions P c))) + 2 ^ RegionSizeLog cfg < 2 ^ 64 \<and>
    (\<forall>d<pcNumClasses cfg. c \<noteq> d \<longrightarrow> unat (mBase (rMemMap (Regions P c))) + 2 ^ RegionSizeLog cfg \<le> unat (mBase (rMemMap (Regions P d))) \<or>
      unat (mBase (rMemMap (Regions P d))) + 2 ^ RegionSizeLog cfg \<le> unat (mBase (rMemMap (Regions P c)))))"

lemma initRegion_fields:
  assumes pg: "16 * unat PgSize \<le> 2 ^ RegionSizeLog cfg" and l: "RegionSizeLog cfg \<le> 32"
  shows "BlockList (initRegion cfg PgSize d c M ro R) = BlockList R" "AllocatedUser (initRegion cfg PgSize d c M ro R) = AllocatedUser R"
    "MappedUser (initRegion cfg PgSize d c M ro R) = MappedUser R" "rMemMap (initRegion cfg PgSize d c M ro R) = M"
    "unat (RegionBeg (initRegion cfg PgSize d c M ro R) - mBase M) \<le> 2 ^ RegionSizeLog cfg"
proof -
  obtain r s where rs: "getRandomModN (RandState R) 16 = (r, s)" by (rule prod.exhaust)
  show "BlockList (initRegion cfg PgSize d c M ro R) = BlockList R" "AllocatedUser (initRegion cfg PgSize d c M ro R) = AllocatedUser R"
    "MappedUser (initRegion cfg PgSize d c M ro R) = MappedUser R" "rMemMap (initRegion cfg PgSize d c M ro R) = M"
    by (simp_all add: initRegion_def rs Let_def)
  have "unat r < 16" using getRandomModN_less [of 16 "RandState R"] rs by simp
  then have u: "unat (ucast r + 1 :: uptr) = unat r + 1"
  proof -
    assume r: "unat r < 16"
    have "unat (ucast r :: uptr) = unat r" using r by (simp add: unsigned_ucast_eq take_bit_eq_mod)
    then show ?thesis using r by (subst unat_add_lt) simp_all
  qed
  have "(unat r + 1) * unat PgSize \<le> 16 * unat PgSize" using \<open>unat r < 16\<close> by (intro mult_le_mono1) simp
  moreover have "(2 :: nat) ^ RegionSizeLog cfg \<le> 2 ^ 32" using l by (intro power_increasing) simp_all
  moreover have "(2 :: nat) ^ 32 < 2 ^ 64" by simp
  ultimately have le: "(unat r + 1) * unat PgSize \<le> 2 ^ RegionSizeLog cfg" "(unat r + 1) * unat PgSize < 2 ^ 64" using pg by linarith+
  have "unat ((ucast r + 1) * PgSize) = (unat r + 1) * unat PgSize"
    using unat_mult_lt [of "ucast r + 1 :: uptr" PgSize, unfolded u] le(2) by simp
  then have "unat ((ucast r + 1) * PgSize) \<le> 2 ^ RegionSizeLog cfg" using le(1) by simp
  then show "unat (RegionBeg (initRegion cfg PgSize d c M ro R) - mBase M) \<le> 2 ^ RegionSizeLog cfg"
    by (simp add: initRegion_def rs Let_def)
qed

lemma pri_init_regions:
  assumes ok: "cfg_ok cfg" and init: "pri_init cfg PgSize reserve Seed iv P0 = Inr P"
  shows "\<exists>base d rs. reserve (push_bit (RegionSizeLog cfg) 1 * of_nat (pcNumClasses cfg)) = Some base \<and>
    mset (map (Regions P) [0..<pcNumClasses cfg]) = mset (pri_regions cfg PgSize d base rs (Regions P0)) \<and>
    (\<forall>c. pcNumClasses cfg \<le> c \<longrightarrow> Regions P c = Regions P0 c)"
proof -
  let ?N = "pcNumClasses cfg" and ?d = "push_bit (GroupSizeLog cfg) 1 div PgSize * (1 + pri_getSizeByClassId cfg 1 div 16) div 100"
  obtain rs Seed' where rs: "pri_seeds ?N Seed = (rs, Seed')" by (rule prod.exhaust)
  have co: "EnableContiguousRegions cfg" using ok by (simp add: cfg_ok_def)
  obtain base where b: "reserve (push_bit (RegionSizeLog cfg) 1 * of_nat ?N) = Some base"
    using init co rs by (auto simp: pri_init_def Let_def split: option.splits)
  let ?L = "pri_regions cfg PgSize ?d base rs (Regions P0)"
  let ?S = "fst (shuffle ?L (of_nat ?N) Seed')"
  have R: "Regions P = (\<lambda>I. if I < ?N then ?S ! I else Regions P0 I)"
    using init co rs b by (auto simp: pri_init_def pri_setOption_def Let_def)
  have l: "List.length ?L = ?N" by (simp add: pri_regions_def)
  have "unat (of_nat ?N :: u32) \<le> List.length ?L" unfolding l by (simp add: unat_of_nat)
  note m = shuffle_mset [OF this, of Seed']
  have "List.length ?S = ?N" using mset_eq_length [OF m] l by simp
  then have "map (Regions P) [0..<?N] = ?S" by (intro nth_equalityI) (simp_all add: R)
  then show ?thesis using b m R by auto
qed

lemma region_bases:
  fixes base :: uptr
  assumes "unat base + pcNumClasses cfg * 2 ^ RegionSizeLog cfg < 2 ^ 64" and "I < pcNumClasses cfg" and l: "RegionSizeLog cfg \<le> 32"
  shows "unat (base + push_bit (RegionSizeLog cfg) (of_nat I)) = unat base + I * 2 ^ RegionSizeLog cfg"
    "unat base + I * 2 ^ RegionSizeLog cfg + 2 ^ RegionSizeLog cfg < 2 ^ 64"
proof -
  have "Suc I * 2 ^ RegionSizeLog cfg \<le> pcNumClasses cfg * 2 ^ RegionSizeLog cfg" using assms(2) by (intro mult_le_mono1) simp
  then show le: "unat base + I * 2 ^ RegionSizeLog cfg + 2 ^ RegionSizeLog cfg < 2 ^ 64" using assms(1) by simp
  have p: "1 \<le> (2 :: nat) ^ RegionSizeLog cfg" by simp
  have "I * 1 \<le> I * 2 ^ RegionSizeLog cfg" using p by (rule mult_le_mono2)
  then have "I < 2 ^ 64" using le p by linarith
  then have i: "unat (of_nat I :: uptr) = I" by (simp add: unat_of_nat)
  have "I * 2 ^ RegionSizeLog cfg < 2 ^ 64" using le p by linarith
  then have "unat (push_bit (RegionSizeLog cfg) (of_nat I :: uptr)) = I * 2 ^ RegionSizeLog cfg"
    using unat_push_bit [of "of_nat I :: uptr" "RegionSizeLog cfg"] i by simp
  then show "unat (base + push_bit (RegionSizeLog cfg) (of_nat I)) = unat base + I * 2 ^ RegionSizeLog cfg"
    using unat_add_lt [of base "push_bit (RegionSizeLog cfg) (of_nat I)"] le p by linarith
qed

lemma mset_nth_inj:
  assumes m: "mset xs = mset (map f [0..<n])" and inj: "inj_on f {..<n}"
  shows "List.length xs = n" "i < n \<Longrightarrow> \<exists>j<n. xs ! i = f j" "i < n \<Longrightarrow> j < n \<Longrightarrow> xs ! i = xs ! j \<Longrightarrow> i = j"
proof -
  show l: "List.length xs = n" using mset_eq_length [OF m] by simp
  show "\<exists>j<n. xs ! i = f j" if "i < n"
  proof -
    have "xs ! i \<in> set (map f [0..<n])" using that l nth_mem [of i xs] mset_eq_setD [OF m] by simp
    then show ?thesis by auto
  qed
  have "distinct (map f [0..<n])" using inj by (simp add: distinct_map lessThan_atLeast0)
  then have "distinct xs" using mset_eq_imp_distinct_iff [OF m] by simp
  then show "i = j" if "i < n" "j < n" "xs ! i = xs ! j" using that l by (simp add: nth_eq_iff_index_eq)
qed

lemma pri_init_state:
  assumes ok: "cfg_ok cfg" and init: "pri_init cfg PgSize reserve Seed iv P0 = Inr P" and f: "fresh_primary P0"
    and pg: "16 * unat PgSize \<le> 2 ^ RegionSizeLog cfg"
    and res: "\<And>base. reserve (push_bit (RegionSizeLog cfg) 1 * of_nat (pcNumClasses cfg)) = Some base \<Longrightarrow>
      unat base + pcNumClasses cfg * 2 ^ RegionSizeLog cfg < 2 ^ 64"
  shows "fresh_primary P" "regions_apart cfg P" "c < pcNumClasses cfg \<Longrightarrow> region_ok cfg c (Regions P c)"
proof -
  let ?N = "pcNumClasses cfg" and ?l = "RegionSizeLog cfg"
  have l: "?l \<le> 32" using ok by (simp add: cfg_ok_def)
  obtain base d rs where b: "reserve (push_bit ?l 1 * of_nat ?N) = Some base"
    and m: "mset (map (Regions P) [0..<?N]) = mset (pri_regions cfg PgSize d base rs (Regions P0))"
    and o: "\<forall>c. ?N \<le> c \<longrightarrow> Regions P c = Regions P0 c"
    using pri_init_regions [OF ok init] by blast
  note rb = region_bases [OF res [OF b] _ l] and ir = initRegion_fields [OF pg l]
  let ?M = "\<lambda>I. \<lparr> mBase = base + push_bit ?l (of_nat I), mCapacity = push_bit ?l 1 \<rparr>"
  have R: "BlockList (Regions P c) = [] \<and> AllocatedUser (Regions P c) = 0 \<and> MappedUser (Regions P c) = 0 \<and>
      unat (RegionBeg (Regions P c) - mBase (rMemMap (Regions P c))) \<le> 2 ^ ?l" if "c < ?N" for c
  proof -
    have "Regions P c \<in> set (map (Regions P) [0..<?N])" using that by simp
    then obtain I where "Regions P c = initRegion cfg PgSize d I (?M I) (EnableRandomOffset cfg) ((Regions P0 I)\<lparr>RandState := rs ! I\<rparr>)"
      unfolding mset_eq_setD [OF m] by (auto simp: pri_regions_def)
    then show ?thesis using ir(1-4) ir(5) [where M = "?M I"] f by (simp add: fresh_primary_def)
  qed
  then show "region_ok cfg c (Regions P c)" if "c < ?N" using that by (auto simp: region_ok_def)
  show "fresh_primary P" unfolding fresh_primary_def
  proof
    fix c show "BlockList (Regions P c) = [] \<and> AllocatedUser (Regions P c) = 0 \<and> MappedUser (Regions P c) = 0"
      using R [of c] o f by (cases "c < ?N") (simp_all add: fresh_primary_def)
  qed
  let ?f = "\<lambda>I. unat base + I * 2 ^ ?l"
  have "mset (map (\<lambda>c. unat (mBase (rMemMap (Regions P c)))) [0..<?N]) = image_mset (\<lambda>R. unat (mBase (rMemMap R))) (mset (map (Regions P) [0..<?N]))"
    by (simp add: image_mset.compositionality comp_def)
  also have "\<dots> = mset (map (\<lambda>R. unat (mBase (rMemMap R))) (pri_regions cfg PgSize d base rs (Regions P0)))"
    unfolding m by simp
  also have "map (\<lambda>R. unat (mBase (rMemMap R))) (pri_regions cfg PgSize d base rs (Regions P0)) = map ?f [0..<?N]"
    unfolding pri_regions_def using rb(1) by (simp add: ir(4))
  finally have mm: "mset (map (\<lambda>c. unat (mBase (rMemMap (Regions P c)))) [0..<?N]) = mset (map ?f [0..<?N])" .
  have inj: "inj_on ?f {..<?N}" by (simp add: inj_on_def)
  note k = mset_nth_inj [OF mm inj]
  have base_at: "\<exists>j<?N. unat (mBase (rMemMap (Regions P c))) = ?f j" if "c < ?N" for c using k(2) [OF that] that by simp
  have dist: "unat (mBase (rMemMap (Regions P c))) \<noteq> unat (mBase (rMemMap (Regions P d)))" if "c < ?N" "d < ?N" "c \<noteq> d" for c d
    using k(3) [OF that(1,2)] that by auto
  show "regions_apart cfg P"
    unfolding regions_apart_def
  proof (intro allI impI conjI)
    fix c assume c: "c < ?N"
    obtain i where i: "i < ?N" "unat (mBase (rMemMap (Regions P c))) = ?f i" using base_at [OF c] by blast
    show "unat (mBase (rMemMap (Regions P c))) + 2 ^ ?l < 2 ^ 64" using rb(2) [OF i(1)] i(2) by simp
    fix d assume d: "d < ?N" "c \<noteq> d"
    obtain j where j: "j < ?N" "unat (mBase (rMemMap (Regions P d))) = ?f j" using base_at [OF d(1)] by blast
    have "i \<noteq> j" using dist [OF c d] i j by auto
    then consider "Suc i \<le> j" | "Suc j \<le> i" by linarith
    then show "unat (mBase (rMemMap (Regions P c))) + 2 ^ ?l \<le> unat (mBase (rMemMap (Regions P d))) \<or>
      unat (mBase (rMemMap (Regions P d))) + 2 ^ ?l \<le> unat (mBase (rMemMap (Regions P c)))"
    proof cases
      case 1
      then have "Suc i * 2 ^ ?l \<le> j * 2 ^ ?l" by (rule mult_le_mono1)
      then show ?thesis using i(2) j(2) by simp
    next
      case 2
      then have "Suc j * 2 ^ ?l \<le> i * 2 ^ ?l" by (rule mult_le_mono1)
      then show ?thesis using i(2) j(2) by simp
    qed
  qed
qed

text \<open>The states that a run of the caches of n threads starts in, and those it reaches.\<close>

definition pri_ready :: "pri_config \<Rightarrow> primary \<Rightarrow> bool" where
  "pri_ready cfg P \<longleftrightarrow> fresh_primary P \<and> regions_apart cfg P \<and> (\<forall>c<pcNumClasses cfg. region_ok cfg c (Regions P c))"

definition primary_reached :: "pri_config \<Rightarrow> nat \<Rightarrow> pri_system \<Rightarrow> bool" where
  "primary_reached cfg n \<sigma> \<longleftrightarrow> cfg_ok cfg \<and> cfg_wf cfg \<and> 0 < n \<and>
    (\<exists>P C. pri_ready cfg P \<and> fresh_cache C \<and> (pri_step cfg n)\<^sup>*\<^sup>* (pri_start cfg P C) \<sigma>)"

lemma start_inv:
  assumes ok: "cfg_ok cfg" "cfg_wf cfg" and f: "fresh_primary P" "fresh_cache C" and n: "0 < n"
    and R: "\<And>c. c < pcNumClasses cfg \<Longrightarrow> region_ok cfg c (Regions P c)"
  shows "sys_inv cfg n (pri_start cfg P C)"
proof -
  let ?\<sigma> = "pri_start cfg P C"
  have t: "taken_groups None = []" by (simp add: taken_groups_def)
  have e: "elsewhere cfg n ?\<sigma> t c = {#}" for t c
    using f(2) by (simp add: elsewhere_def rest_blocks_def out_blocks_def pri_start_def t fresh_cache_def lc_initCache_def)
  have B: "BlockList (Regions P c) = []" "AllocatedUser (Regions P c) = 0" for c using f(1) by (simp_all add: fresh_primary_def)
  have ch: "Chunks (PerClassArray (lc_initCache cfg C) c) = []" for c using f(2) by (simp add: lc_initCache_def fresh_cache_def)
  have mx: "MaxCount (PerClassArray (lc_initCache cfg C) c) = 2 * lc_getMaxCached cfg (pri_getSizeByClassId cfg c)" if "c < pcNumClasses cfg" for c
    using that by (simp add: lc_initCache_def)
  have cw: "cache_wf cfg c (PerClassArray (lc_initCache cfg C) c)" if "c < pcNumClasses cfg" for c
    using mx [OF that] ch by (simp add: cache_wf_def)
  have two: "2 \<le> unat (MaxCount (PerClassArray (lc_initCache cfg C) c))" if "c < pcNumClasses cfg" for c
    using cache_wf_full(1) [OF cw [OF that] ok(2)] ok(1) that by (simp add: cfg_ok_def)
  have w: "pwf cfg (thread_state ?\<sigma> t)" for t
    using ok(2) cw B by (simp add: pwf_def pri_start_def list_wf_def groups_wf_def)
  have m: "metas cfg P = {#}" by (simp add: metas_def B)
  have i: "pinv cfg (thread_state ?\<sigma> t) (elsewhere cfg n ?\<sigma> t) (\<lambda>_. {#})" for t
    unfolding pinv_def e using ok(1) R two by (auto simp: pri_start_def B m blocks_of_def free_of_def ch carved_def)
  show ?thesis
    unfolding sys_inv_def using n i w
    by (simp add: pri_start_def used_ok_def out_ok_def t list_wf_def groups_wf_def)
qed

section \<open>Blocks in use\<close>

definition block_bytes :: "pri_config \<Rightarrow> nat \<times> uptr \<Rightarrow> nat set" where
  "block_bytes cfg x = {unat (snd x) ..< unat (snd x) + unat (pri_getSizeByClassId cfg (fst x))}"

text \<open>The block is the i-th of its region.\<close>

definition block_index :: "pri_config \<Rightarrow> primary \<Rightarrow> nat \<times> uptr \<Rightarrow> nat \<Rightarrow> bool" where
  "block_index cfg P x i \<longleftrightarrow> i < unat (AllocatedUser (Regions P (fst x))) div unat (pri_getSizeByClassId cfg (fst x)) \<and>
    snd x = RegionBeg (Regions P (fst x)) + of_nat i * pri_getSizeByClassId cfg (fst x)"

lemma used_in_carved:
  assumes s: "sys_inv cfg n \<sigma>" and c: "c < pcNumClasses cfg"
  shows "used_blocks cfg (sPri \<sigma>) (sUsed \<sigma>) c \<subseteq># mset (carved cfg c (Regions (sPri \<sigma>) c))" "region_ok cfg c (Regions (sPri \<sigma>) c)" "cfg_ok cfg"
proof -
  have n: "0 < n" using s by (simp add: sys_inv_def)
  note i = sys_invD(1) [OF s n, unfolded pinv_def]
  then have "mset (carved cfg c (Regions (sPri \<sigma>) c)) = blocks_of cfg c (thread_state \<sigma> 0) + elsewhere cfg n \<sigma> 0 c"
    using c by simp
  also have "\<dots> = used_blocks cfg (sPri \<sigma>) (sUsed \<sigma>) c + (blocks_of cfg c (thread_state \<sigma> 0) +
      (\<Sum>u\<in>{..<n} - {0}. mset (Chunks (PerClassArray (sCaches \<sigma> u) c))) + out_blocks cfg \<sigma> c)"
    by (simp add: elsewhere_def rest_blocks_def ac_simps)
  finally show "used_blocks cfg (sPri \<sigma>) (sUsed \<sigma>) c \<subseteq># mset (carved cfg c (Regions (sPri \<sigma>) c))" by simp
  show "region_ok cfg c (Regions (sPri \<sigma>) c)" "cfg_ok cfg" using i c by simp_all
qed

lemma used_index:
  assumes s: "sys_inv cfg n \<sigma>" and x: "x \<in> set (sUsed \<sigma>)"
  shows "\<exists>i. block_index cfg (sPri \<sigma>) x i \<and> carved cfg (fst x) (Regions (sPri \<sigma>) (fst x)) ! i = compactPtr cfg (fst x) (sPri \<sigma>) (snd x)"
proof -
  obtain c p where cp: "x = (c, p)" by (rule prod.exhaust)
  let ?R = "Regions (sPri \<sigma>) c" and ?z = "pri_getSizeByClassId cfg c"
  obtain a where a: "c < pcNumClasses cfg" "valid_ptr cfg a" "p = decompactPtr cfg c (sPri \<sigma>) a"
    using s x by (auto simp: sys_inv_def used_ok_def cp)
  note u = used_in_carved [OF s a(1)]
  have ca: "compactPtr cfg c (sPri \<sigma>) p = a"
    using compact_decompact [OF a(2)] by (simp add: a(3) compactPtr_def decompactPtr_def)
  then have "a \<in># used_blocks cfg (sPri \<sigma>) (sUsed \<sigma>) c" using x cp by (force simp: used_blocks_def)
  then have "a \<in> set (carved cfg c ?R)" using mset_subset_eqD [OF u(1)] by simp
  then obtain i where i: "i < unat (AllocatedUser ?R) div unat ?z" "a = compactPtrInternal cfg (RegionBeg ?R) (RegionBeg ?R + of_nat i * ?z)"
    by (auto simp: carved_def)
  have "p = RegionBeg ?R + of_nat i * ?z"
    using decompact_compact(1) [OF carved_block(3,4) [OF u(3) a(1) u(2) i(1)] u(3), of "RegionBeg ?R"]
    by (simp add: a(3) i(2) decompactPtr_def getCompactPtrBaseByClassId_def)
  then have "block_index cfg (sPri \<sigma>) x i" using i(1) by (simp add: block_index_def cp)
  moreover have "carved cfg c ?R ! i = a" using i by (simp add: carved_def)
  ultimately show ?thesis using ca cp by auto
qed

lemma distinct_submset:
  assumes "mset xs \<subseteq># mset ys" and "distinct ys"
  shows "distinct xs"
proof -
  have "count (mset xs) a = (if a \<in> set xs then 1 else 0)" for a
  proof -
    have "count (mset xs) a \<le> count (mset ys) a" using assms(1) by (simp add: mset_subset_eq_count)
    also have "\<dots> \<le> 1" using assms(2) by (simp add: distinct_count_atmost_1)
    finally have "count (mset xs) a \<le> 1" .
    moreover have "count (mset xs) a = 0 \<longleftrightarrow> a \<notin> set xs" by simp
    ultimately show ?thesis by (cases "a \<in> set xs") (simp_all add: le_antisym Suc_le_eq)
  qed
  then show ?thesis by (simp add: distinct_count_atmost_1)
qed

lemma distinct_by_class: "(\<And>c. distinct (filter (\<lambda>x. fst x = c) xs)) \<Longrightarrow> distinct xs"
proof (induction xs)
  case (Cons x xs)
  have "x \<notin> set xs" using Cons(2) [of "fst x"] by simp
  moreover have "distinct (filter (\<lambda>x. fst x = c) xs)" for c using Cons(2) [of c] by (simp split: if_splits)
  ultimately show ?case using Cons(1) by simp
qed simp

lemma used_distinct:
  assumes s: "sys_inv cfg n \<sigma>"
  shows "distinct (sUsed \<sigma>)"
    and "x \<in> set (sUsed \<sigma>) \<Longrightarrow> y \<in> set (sUsed \<sigma>) \<Longrightarrow> fst x = fst y \<Longrightarrow>
      compactPtr cfg (fst x) (sPri \<sigma>) (snd x) = compactPtr cfg (fst x) (sPri \<sigma>) (snd y) \<Longrightarrow> x = y"
proof -
  have d: "distinct (map (compactPtr cfg c (sPri \<sigma>) \<circ> snd) (filter (\<lambda>x. fst x = c) (sUsed \<sigma>)))" for c
  proof (cases "c < pcNumClasses cfg")
    case True
    note u = used_in_carved [OF s True]
    show ?thesis by (rule distinct_submset [OF u(1) [unfolded used_blocks_def] carved_distinct [OF u(3) True u(2)]])
  next
    case False
    then have "filter (\<lambda>x. fst x = c) (sUsed \<sigma>) = []" using s by (fastforce simp: sys_inv_def used_ok_def filter_empty_conv)
    then show ?thesis by simp
  qed
  show "distinct (sUsed \<sigma>)" by (rule distinct_by_class) (use d in \<open>auto simp: distinct_map\<close>)
  show "x = y" if "x \<in> set (sUsed \<sigma>)" "y \<in> set (sUsed \<sigma>)" "fst x = fst y"
      "compactPtr cfg (fst x) (sPri \<sigma>) (snd x) = compactPtr cfg (fst x) (sPri \<sigma>) (snd y)"
  proof -
    have "inj_on (compactPtr cfg (fst x) (sPri \<sigma>) \<circ> snd) (set (filter (\<lambda>y. fst y = fst x) (sUsed \<sigma>)))"
      using d [of "fst x"] by (simp only: distinct_map)
    from inj_onD [OF this, of x y] show ?thesis using that by simp
  qed
qed

text \<open>The addresses of the i-th block.\<close>

lemma index_bytes:
  assumes ok: "cfg_ok cfg" and R: "region_ok cfg (fst x) (Regions P (fst x))" and ap: "regions_apart cfg P" and c: "fst x < pcNumClasses cfg"
    and i: "block_index cfg P x i"
  shows "unat (snd x) = unat (RegionBeg (Regions P (fst x))) + i * unat (pri_getSizeByClassId cfg (fst x))"
    "unat (snd x) + unat (pri_getSizeByClassId cfg (fst x)) \<le> unat (RegionBeg (Regions P (fst x))) + unat (MappedUser (Regions P (fst x)))"
    "unat (mBase (rMemMap (Regions P (fst x)))) \<le> unat (snd x)"
    "unat (snd x) + unat (pri_getSizeByClassId cfg (fst x)) \<le> unat (mBase (rMemMap (Regions P (fst x)))) + 2 ^ RegionSizeLog cfg"
proof -
  let ?c = "fst x" and ?R = "Regions P (fst x)"
  let ?z = "pri_getSizeByClassId cfg ?c" and ?M = "mBase (rMemMap ?R)"
  have i': "i < unat (AllocatedUser ?R) div unat ?z" "snd x = RegionBeg ?R + of_nat i * ?z" using i by (simp_all add: block_index_def)
  note b = carved_block(1,2) [OF ok c R i'(1)]
  have off: "unat (RegionBeg ?R - ?M) + unat (MappedUser ?R) \<le> 2 ^ RegionSizeLog cfg" "unat (AllocatedUser ?R) \<le> unat (MappedUser ?R)"
    using R by (simp_all add: region_ok_def word_le_nat_alt)
  have M: "unat ?M + 2 ^ RegionSizeLog cfg < 2 ^ 64" using ap c by (simp add: regions_apart_def)
  have z: "16 \<le> unat ?z" using cfg_class(1) [OF ok c] .
  have "unat ?M + unat (RegionBeg ?R - ?M) < 2 ^ 64" using off M b(2) z by linarith
  from unat_add_lt [OF this] have B: "unat (RegionBeg ?R) = unat ?M + unat (RegionBeg ?R - ?M)" by simp
  have "unat (RegionBeg ?R) + unat (of_nat i * ?z) < 2 ^ 64" unfolding b(1) B using off M b(2) z by linarith
  from unat_add_lt [OF this] show e: "unat (snd x) = unat (RegionBeg ?R) + i * unat ?z" by (simp add: i'(2) b(1))
  show "unat (snd x) + unat ?z \<le> unat (RegionBeg ?R) + unat (MappedUser ?R)" "unat ?M \<le> unat (snd x)"
    "unat (snd x) + unat ?z \<le> unat ?M + 2 ^ RegionSizeLog cfg"
    unfolding e B using off b(2) by linarith+
qed

lemma used_bytes_disjoint:
  assumes s: "sys_inv cfg n \<sigma>" and ap: "regions_apart cfg (sPri \<sigma>)" and x: "x \<in> set (sUsed \<sigma>)" "y \<in> set (sUsed \<sigma>)" "x \<noteq> y"
  shows "block_bytes cfg x \<inter> block_bytes cfg y = {}"
proof -
  let ?P = "sPri \<sigma>"
  have c: "fst x < pcNumClasses cfg" "fst y < pcNumClasses cfg" using s x by (auto simp: sys_inv_def used_ok_def)
  obtain i where i: "block_index cfg ?P x i" "carved cfg (fst x) (Regions ?P (fst x)) ! i = compactPtr cfg (fst x) ?P (snd x)"
    using used_index [OF s x(1)] by blast
  obtain j where j: "block_index cfg ?P y j" "carved cfg (fst y) (Regions ?P (fst y)) ! j = compactPtr cfg (fst y) ?P (snd y)"
    using used_index [OF s x(2)] by blast
  note bx = index_bytes [OF used_in_carved(3) [OF s c(1)] used_in_carved(2) [OF s c(1)] ap c(1) i(1)]
  note by' = index_bytes [OF used_in_carved(3) [OF s c(2)] used_in_carved(2) [OF s c(2)] ap c(2) j(1)]
  show ?thesis
  proof (cases "fst x = fst y")
    case True
    have "i \<noteq> j" using used_distinct(2) [OF s x(1,2) True] x(3) i(2) j(2) True by auto
    then consider "Suc i \<le> j" | "Suc j \<le> i" by linarith
    then show ?thesis
    proof cases
      case 1
      then have "Suc i * unat (pri_getSizeByClassId cfg (fst x)) \<le> j * unat (pri_getSizeByClassId cfg (fst x))" by (rule mult_le_mono1)
      then show ?thesis using bx(1) by'(1) True by (auto simp: block_bytes_def)
    next
      case 2
      then have "Suc j * unat (pri_getSizeByClassId cfg (fst x)) \<le> i * unat (pri_getSizeByClassId cfg (fst x))" by (rule mult_le_mono1)
      then show ?thesis using bx(1) by'(1) True by (auto simp: block_bytes_def)
    qed
  next
    case False
    then have "unat (mBase (rMemMap (Regions ?P (fst x)))) + 2 ^ RegionSizeLog cfg \<le> unat (mBase (rMemMap (Regions ?P (fst y)))) \<or>
      unat (mBase (rMemMap (Regions ?P (fst y)))) + 2 ^ RegionSizeLog cfg \<le> unat (mBase (rMemMap (Regions ?P (fst x))))"
      using ap c by (simp add: regions_apart_def)
    then show ?thesis using bx(3,4) by'(3,4) by (auto simp: block_bytes_def)
  qed
qed

section \<open>Reached states\<close>

lemma reached_inv:
  assumes "primary_reached cfg n \<sigma>"
  shows "sys_inv cfg n \<sigma>" "regions_apart cfg (sPri \<sigma>)"
proof -
  obtain P C where ok: "cfg_ok cfg" "cfg_wf cfg" "0 < n" and r: "pri_ready cfg P" "fresh_cache C"
    and run: "(pri_step cfg n)\<^sup>*\<^sup>* (pri_start cfg P C) \<sigma>"
    using assms by (auto simp: primary_reached_def)
  have "sys_inv cfg n (pri_start cfg P C)" using r ok by (intro start_inv) (simp_all add: pri_ready_def)
  from pri_run_inv [OF run this] have i: "sys_inv cfg n \<sigma>" "same_bases (sPri (pri_start cfg P C)) (sPri \<sigma>)" by simp_all
  show "sys_inv cfg n \<sigma>" by (rule i(1))
  show "regions_apart cfg (sPri \<sigma>)"
    using r(1) i(2) by (simp add: pri_ready_def regions_apart_def same_bases_def pri_start_def)
qed

section \<open>Visiting the blocks\<close>

definition region_blocks :: "pri_config \<Rightarrow> primary \<Rightarrow> nat \<Rightarrow> uptr list" where
  "region_blocks cfg P c = map (\<lambda>i. RegionBeg (Regions P c) + of_nat i * pri_getSizeByClassId cfg c)
     [0..<unat (AllocatedUser (Regions P c)) div unat (pri_getSizeByClassId cfg c)]"

lemma walk_blocks_all:
  "\<lbrakk> unat To = unat B + k * unat z; k \<le> fuel; 0 < unat z \<rbrakk> \<Longrightarrow> walk_blocks fuel B To z = Some (map (\<lambda>i. B + of_nat i * z) [0..<k])"
proof (induction k arbitrary: B fuel)
  case 0
  then show ?case by (subst walk_blocks.simps) (simp add: word_less_nat_alt)
next
  case (Suc k)
  obtain f where f: "fuel = Suc f" "k \<le> f" using Suc(3) by (cases fuel) simp_all
  have To: "unat To = unat B + unat z + k * unat z" using Suc(2) by simp
  have "unat B + unat z < 2 ^ 64" using To unat_less_exp [of To] by simp
  from unat_add_lt [OF this] have b: "unat (B + z) = unat B + unat z" .
  have "B < To" using To Suc(4) by (simp add: word_less_nat_alt)
  have "map (\<lambda>i. B + of_nat i * z) [0..<Suc k] = B # map (\<lambda>i. B + z + of_nat i * z) [0..<k]"
    by (simp add: upt_conv_Cons map_Suc_upt [symmetric] algebra_simps del: upt_Suc)
  then show ?case using Suc(1) [of "B + z" f] b To f Suc(4) \<open>B < To\<close> by (subst walk_blocks.simps) simp
qed

lemma region_walk_all:
  assumes ok: "cfg_ok cfg" and c: "c < pcNumClasses cfg" and R: "region_ok cfg c (Regions P c)" and ap: "regions_apart cfg P"
  shows "region_walk cfg P c = Some (region_blocks cfg P c)"
proof -
  let ?R = "Regions P c" and ?z = "pri_getSizeByClassId cfg c"
  have z: "0 < unat ?z" using cfg_class(1) [OF ok c] by simp
  obtain k where k: "unat (AllocatedUser ?R) = k * unat ?z" using R by (auto simp: region_ok_def)
  then have d: "unat (AllocatedUser ?R) div unat ?z = k" using z by simp
  have off: "unat (RegionBeg ?R - mBase (rMemMap ?R)) + unat (MappedUser ?R) \<le> 2 ^ RegionSizeLog cfg" "unat (AllocatedUser ?R) \<le> unat (MappedUser ?R)"
    using R by (simp_all add: region_ok_def word_le_nat_alt)
  have M: "unat (mBase (rMemMap ?R)) + 2 ^ RegionSizeLog cfg < 2 ^ 64" using ap c by (simp add: regions_apart_def)
  have "unat (mBase (rMemMap ?R)) + unat (RegionBeg ?R - mBase (rMemMap ?R)) < 2 ^ 64" using off M by linarith
  from unat_add_lt [OF this] have B: "unat (RegionBeg ?R) = unat (mBase (rMemMap ?R)) + unat (RegionBeg ?R - mBase (rMemMap ?R))" by simp
  have "unat (RegionBeg ?R) + unat (AllocatedUser ?R) < 2 ^ 64" using B off M by linarith
  from unat_add_lt [OF this] have To: "unat (RegionBeg ?R + AllocatedUser ?R) = unat (RegionBeg ?R) + k * unat ?z" by (simp add: k)
  have "k * 1 \<le> k * unat ?z" using z by (intro mult_le_mono2) simp
  then have "k \<le> unat (AllocatedUser ?R)" using k by simp
  from walk_blocks_all [OF To this z] show ?thesis by (simp add: region_walk_def region_blocks_def d Let_def)
qed

lemma those_Some: "those (map (\<lambda>c. Some (f c)) cs) = Some (map f cs)"
  by (induction cs) simp_all

lemma iterate_all:
  assumes s: "sys_inv cfg n \<sigma>" and ap: "regions_apart cfg (sPri \<sigma>)"
  shows "pri_iterateOverBlocks cfg (sPri \<sigma>) = Some (concat (map (region_blocks cfg (sPri \<sigma>)) [1..<pcNumClasses cfg]))"
proof -
  have "map (region_walk cfg (sPri \<sigma>)) [1..<pcNumClasses cfg] = map (\<lambda>c. Some (region_blocks cfg (sPri \<sigma>) c)) [1..<pcNumClasses cfg]"
    using used_in_carved(2,3) [OF s] ap by (intro map_cong refl region_walk_all) auto
  then show ?thesis unfolding pri_iterateOverBlocks_def by (simp only: those_Some option.map)
qed

lemma block_index_listed: "block_index cfg P x i \<Longrightarrow> snd x \<in> set (region_blocks cfg P (fst x))"
  by (auto simp: block_index_def region_blocks_def)

end
