(* ===== verification/Primary64_Live.thy ===== *)
theory Primary64_Live
  imports Primary64_System
begin

text \<open>Memory is only refused when the platform refuses it or the region is used up: a class with a free
  block gives one, and populating a class gives at least one.\<close>

section \<open>Pops from a list that is not empty\<close>

lemma popBlocksImpl_nonempty:
  assumes c: "c \<noteq> 0" and w: "list_wf cfg c (BlockList (Regions P c))" and ne: "BlockList (Regions P c) \<noteq> []" and m: "0 < unat m"
  shows "fst (popBlocksImpl cfg c m (P, C)) \<noteq> []"
proof -
  obtain BG rest where L: "BlockList (Regions P c) = BG # rest" using ne by (cases "BlockList (Regions P c)") auto
  then have g: "group_wf cfg c BG" "filled BG" using w by (simp_all add: list_wf_def groups_wf_def)
  then obtain B Bs where B: "Batches BG = B # Bs" using c by (cases "Batches BG") (simp_all add: group_wf_def)
  then have "Batch B \<noteq> []" using g(2) by (simp add: filled_def)
  then have "0 < min (unat m) (List.length (Batch B))" "min (unat m) (List.length (Batch B)) \<le> List.length (Batch B)" using m by simp_all
  then have "\<not> List.length (Batch B) \<le> List.length (Batch B) - min (unat m) (List.length (Batch B))" by linarith
  then show ?thesis using c by (simp add: popBlocksImpl_def L B Let_def moveNToArray_def tb_Count_def)
qed

lemma pop_again:
  assumes "fst (popBlocksImpl cfg c m (P, C)) = []" and c: "c \<noteq> 0" and w: "list_wf cfg c (BlockList (Regions P c))" and m: "0 < unat m"
  shows "BlockList (Regions P c) = []" "popBlocksImpl cfg c m (P, C) = ([], (P, C))"
proof -
  show "BlockList (Regions P c) = []" using popBlocksImpl_nonempty [OF c w _ m] assms(1) by blast
  then show "popBlocksImpl cfg c m (P, C) = ([], (P, C))" by (simp add: popBlocksImpl_def)
qed

text \<open>What it takes for a class to be left without memory.\<close>

definition refused :: "pri_env \<Rightarrow> RegionInfo \<Rightarrow> bool" where
  "refused env R \<longleftrightarrow> Exhausted R \<or> (\<exists>Addr Size Flags. \<not> remapOk (pOs env) Addr Size Flags)"

lemma populate_map_refused:
  assumes "populate_map cfg env c (P, C) = (False, (P', C'))"
  shows "refused env (Regions P' c)"
  using assms by (auto simp: populate_map_def Let_def refused_def split: if_splits)

section \<open>Populating\<close>

context typed_pusher
begin

lemma populate_gives:
  assumes c: "c \<noteq> 0" "c < pcNumClasses cfg" and inv: "pinv cfg S X Y" and w: "pwf cfg S" and m: "0 < unat m"
    and r: "populateFreeListAndPopBlocks cfg env push c m S = Inr (A, S')"
  shows "A \<noteq> [] \<or> refused env (Regions (fst S') c)"
proof -
  obtain P C where S: "S = (P, C)" by (rule prod.exhaust)
  have ok: "cfg_ok cfg" using inv by (simp add: pinv_def)
  have res: "populate_reserve cfg env c P = Some P" using ok by (simp add: populate_reserve_def cfg_ok_def)
  obtain b P1 C1 where pm: "populate_map cfg env c (P, C) = (b, (P1, C1))" by (metis prod.exhaust)
  note i1 = populate_map_inv [OF inv [unfolded S] c(2) pm] and w1 = populate_map_wf [OF w [unfolded S] pm]
  show ?thesis
  proof (cases b)
    case False
    then have "S' = (P1, C1)" using r by (simp add: S populateFreeListAndPopBlocks_def res pm)
    then show ?thesis using populate_map_refused pm False by simp
  next
    case True
    let ?R = "Regions P1 c"
    define N where "N = populate_count cfg c ?R"
    let ?new = "new_blocks cfg c ?R (unat N)"
    obtain P2 C2 where p: "push ?new (P1, C1) = Inr (P2, C2)"
      and r2: "(case popBlocksImpl cfg c m (P2, C2) of (A, (P, C)) \<Rightarrow>
        (A, (upd_region c (\<lambda>R. R\<lparr>PushedBlocks := PushedBlocks R - ucast N,
              AllocatedUser := AllocatedUser R + pri_getSizeByClassId cfg c * ucast N\<rparr>) P,
             C\<lparr>cStats := stat_add StatFree (pri_getSizeByClassId cfg c * ucast N) (cStats C)\<rparr>))) = (A, S')"
      using populate_pushes [OF r [unfolded S] res pm True N_def] by blast
    have i: "pinv cfg (P1, C1) X Y" using i1 by simp
    have R: "region_ok cfg c ?R" using i c by (simp add: pinv_def)
    have fit: "AllocatedUser ?R + ucast (lc_getMaxCached cfg (pri_getSizeByClassId cfg c)) * pri_getSizeByClassId cfg c \<le> MappedUser ?R"
      using i1 True by simp
    note n = populate_count_bounds [OF ok c(2) R fit, folded N_def]
    have v: "\<forall>a\<in>set ?new. valid_ptr cfg a"
      using carved_valid [OF ok c(2) carved_grow(2) [OF ok c(2) R n(2) refl]] by (simp add: carved_grow(1) [OF ok c(2) R n(2) refl])
    have ne: "?new \<noteq> []" using n(1) by (simp add: new_blocks_def)
    let ?X = "X(c := X c + mset ?new)" and ?Y = "Y(c := Y c + mset ?new)"
    have i': "pinv cfg (P1, C1) ?X ?Y" using i v by (auto simp: pinv_def ac_simps)
    have p2: "pushed_ok cfg c (P1, C1) X ?Y (P2, C2)" using push_law [OF c(2) i' ne v _ _ p, of X] by simp
    have w2: "pwf cfg (P2, C2)" using res_okD [OF push_wf [OF c(2) i' w1 ne v, of X] p] by simp
    have "blocks_of cfg c (P2, C2) + X c = mset (carved cfg c (Regions P2 c)) + (Y c + mset ?new)"
      using p2 c by (simp add: pushed_ok_def pinv_def)
    moreover have "carved cfg c (Regions P2 c) = carved cfg c ?R" using p2 same_geo_carved by (simp add: pushed_ok_def)
    moreover have "blocks_of cfg c (P1, C1) + X c = mset (carved cfg c ?R) + Y c" using i c by (simp add: pinv_def)
    ultimately have "blocks_of cfg c (P2, C2) + X c = blocks_of cfg c (P1, C1) + mset ?new + X c" by (simp add: ac_simps)
    then have "blocks_of cfg c (P2, C2) = blocks_of cfg c (P1, C1) + mset ?new" by simp
    moreover have "PerClassArray C2 c = PerClassArray C1 c" using p2 c by (simp add: pushed_ok_def keeps_def)
    ultimately have "list_free (BlockList (Regions P2 c)) = list_free (BlockList ?R) + mset ?new"
      using c by (simp add: blocks_of_def free_of_def)
    then have L: "BlockList (Regions P2 c) \<noteq> []" using ne by auto
    have "list_wf cfg c (BlockList (Regions P2 c))" using pwfD(2) [OF w2 c(2)] by simp
    from popBlocksImpl_nonempty [OF c(1) this L m, of C2] have "A \<noteq> []" using r2 by (auto split: prod.splits)
    then show ?thesis by simp
  qed
qed

lemma popBlocks_with_gives:
  assumes c: "c \<noteq> 0" "c < pcNumClasses cfg" and inv: "pinv cfg S X Y" and w: "pwf cfg S" and m: "0 < unat m"
    and r: "popBlocks_with cfg env push c m S = Inr ([], S')"
  shows "BlockList (Regions (fst S) c) = []" "refused env (Regions (fst S') c)"
proof -
  obtain P C where S: "S = (P, C)" by (rule prod.exhaust)
  have l: "list_wf cfg c (BlockList (Regions P c))" using pwfD(2) [OF w c(2)] S by simp
  have e: "fst (popBlocksImpl cfg c m (P, C)) = []"
    using r by (auto simp: popBlocks_with_def S split: prod.splits if_splits)
  note p = pop_again [OF e c(1) l m]
  show "BlockList (Regions (fst S) c) = []" using p(1) S by simp
  consider "Exhausted (Regions P c)" "S' = (P, C)" | "populateFreeListAndPopBlocks cfg env push c m (P, C) = Inr ([], S')"
    using r c(1) by (auto simp: popBlocks_with_def S p(2) Let_def split: if_splits)
  then show "refused env (Regions (fst S') c)"
  proof cases
    case 1
    then show ?thesis by (simp add: refused_def)
  next
    case 2
    then show ?thesis using populate_gives [OF c inv [unfolded S] w [unfolded S] m 2] by simp
  qed
qed

lemma allocate_with_gives:
  assumes c: "c \<noteq> 0" "c < pcNumClasses cfg" and inv: "pinv cfg S X Y" and w: "pwf cfg S"
    and r: "lc_allocate_with cfg (popBlocks_with cfg env push c) c S = Inr (None, S')"
  shows "Chunks (PerClassArray (snd S) c) = []" "BlockList (Regions (fst S) c) = []" "refused env (Regions (fst S') c)"
proof -
  let ?pc = "PerClassArray (snd S) c"
  show e: "Chunks ?pc = []" using r by (auto simp: lc_allocate_with_def Let_def split: if_splits prod.splits)
  then obtain P1 C1 where p: "popBlocks_with cfg env push c (MaxCount ?pc div 2) S = Inr ([], (P1, C1))"
    and S': "fst S' = P1"
    using r by (auto simp: lc_allocate_with_def Let_def split: if_splits prod.splits)
  have "2 \<le> unat (MaxCount ?pc)" using inv c by (simp add: pinv_def)
  then have m: "0 < unat (MaxCount ?pc div 2)" by (simp add: unat_div)
  show "BlockList (Regions (fst S) c) = []" "refused env (Regions (fst S') c)"
    using popBlocks_with_gives [OF c inv w m p] S' by simp_all
qed

end

end
