(* ===== verification/Primary64_Run.thy ===== *)
theory Primary64_Run
  imports Primary64_Properties Primary64_Live
begin

text \<open>A run evaluated step by step on a small configuration: two classes, batches and caches of two and four
  blocks. The first allocation of class 1 maps and populates the region, populates the batch class for
  the group and batch of the new blocks, takes the batch out again and hands out the first block.\<close>

section \<open>The configuration and the shape of the states\<close>

definition small_config :: pri_config where
  "small_config = DefaultPrimaryConfig\<lparr>pcNumClasses := 2, pcMaxNumCachedHint := 2, pcMaxCachedHint := (\<lambda>_. 2), MaxNumBatches := 1,
     pcSize := (\<lambda>_. 4096), EnableRandomOffset := False, MapSizeIncrement := 2 ^ 14\<rparr>"

definition env_with :: "bool \<Rightarrow> pri_env" where
  "env_with mem = \<lparr> pOs = \<lparr> osPageSize = 4096, osTrusty = False, osFuchsia = False, remapOk = (\<lambda>_ _ _. mem), growOk = (\<lambda>_. mem), now = 0 \<rparr>,
     reserveRegion = (\<lambda>_. None) \<rparr>"

abbreviation good_env :: pri_env where "good_env \<equiv> env_with True"

definition small_region :: "uptr \<Rightarrow> uptr \<Rightarrow> uptr \<Rightarrow> BatchGroup list \<Rightarrow> uptr \<Rightarrow> uptr \<Rightarrow> RegionInfo" where
  "small_region b mu au L pp ps = \<lparr> RegionBeg = b, RandState = 0, BlockList = L, PoppedBlocks = pp, PushedBlocks = ps,
     rMemMap = \<lparr> mBase = b, mCapacity = 2 ^ 32 \<rparr>, MappedUser = mu, AllocatedUser = au, BytesInFreeListAtLastCheckpoint = 0,
     NumReleasesAttempted = 0, LastReleasedBytes = 0, TryReleaseThreshold = 0, PendingPushedBytesDelta = 0, LastReleaseAtNs = 0, Exhausted = False \<rparr>"

definition small_primary :: "RegionInfo \<Rightarrow> RegionInfo \<Rightarrow> primary" where
  "small_primary r s = \<lparr> Regions = (\<lambda>_. small_region 0 0 0 [] 0 0)(0 := r, Suc 0 := s), SmallerBlockReleasePageDelta = 0, pReleaseToOsIntervalMs = 0 \<rparr>"

definition small_cache :: "uptr list \<Rightarrow> uptr list \<Rightarrow> counters \<Rightarrow> local_cache" where
  "small_cache x y t = \<lparr> PerClassArray = (\<lambda>_. \<lparr> Chunks = [], MaxCount = 4, ClassSize = 0 \<rparr>)(0 := \<lparr> Chunks = x, MaxCount = 4, ClassSize = 0 \<rparr>,
     Suc 0 := \<lparr> Chunks = y, MaxCount = 4, ClassSize = 4096 \<rparr>), cStats = t \<rparr>"

lemma small_fields:
  "pcNumClasses small_config = 2" "pri_getSizeByClassId small_config 0 = 56" "pri_getSizeByClassId small_config (Suc 0) = 4096"
  "lc_getMaxCached small_config s = 2" "EnableContiguousRegions small_config" "MapSizeIncrement small_config = 0x4000"
  "MaxNumBatches small_config = 1" "RegionSizeLog small_config = 32" "CompactPtrScale small_config = 0" "CompactPtrBits small_config = 64"
  "remapOk (pOs (env_with mem)) a b c = mem" "pcMaxNumCachedHint small_config = 2" "GroupSizeLog small_config = 21"
  by (simp_all add: small_config_def default_config pri_getSizeByClassId_def sizeof_TransferBatch_def sizeof_BatchGroup_def roundUp_def
      lc_getMaxCached_def env_with_def)

lemma small_ok: "cfg_ok small_config"
proof -
  have two: "(\<forall>c<2. Q c) \<longleftrightarrow> Q 0 \<and> Q (Suc 0)" for Q :: "nat \<Rightarrow> bool" by (auto simp: numeral_2_eq_2 less_Suc_eq)
  have "\<exists>k\<le>40. (0x4000 :: uptr) = 2 ^ k" by (intro exI [of _ 14]) simp
  then show ?thesis unfolding cfg_ok_def by (simp add: small_fields two)
qed

lemma small_wf: "cfg_wf small_config"
  by (simp add: cfg_wf_def batch_max_def small_fields)

lemma small_primary_simps:
  "upd_region 0 f (small_primary r s) = small_primary (f r) s" "upd_region (Suc 0) f (small_primary r s) = small_primary r (f s)"
  "Regions (small_primary r s) 0 = r" "Regions (small_primary r s) (Suc 0) = s"
  by (simp_all add: upd_region_def small_primary_def fun_upd_twist)

lemma small_cache_simps:
  "upd_class 0 (\<lambda>pc. pc\<lparr>Chunks := f pc\<rparr>) (small_cache x y t) = small_cache (f (PerClassArray (small_cache x y t) 0)) y t"
  "upd_class (Suc 0) (\<lambda>pc. pc\<lparr>Chunks := f pc\<rparr>) (small_cache x y t) = small_cache x (f (PerClassArray (small_cache x y t) (Suc 0))) t"
  "upd_class 0 (Chunks_update (\<lambda>_. z)) (small_cache x y t) = small_cache z y t"
  "upd_class (Suc 0) (Chunks_update (\<lambda>_. z)) (small_cache x y t) = small_cache x z t"
  "(small_cache x y t)\<lparr>cStats := u\<rparr> = small_cache x y u" "cStats (small_cache x y t) = t"
  "PerClassArray (small_cache x y t) 0 = \<lparr> Chunks = x, MaxCount = 4, ClassSize = 0 \<rparr>"
  "PerClassArray (small_cache x y t) (Suc 0) = \<lparr> Chunks = y, MaxCount = 4, ClassSize = 4096 \<rparr>"
  by (simp_all add: upd_class_def small_cache_def fun_upd_twist)

lemmas small_simps = small_fields small_primary_simps small_cache_simps set_blocks_def count_popped_def

lemmas alloc_defs = getBatchClassBlock_def lc_allocate_with_def popBlocks_with_def popBlocksImpl_def
lemmas populate_defs = populateFreeListAndPopBlocks_def populate_reserve_def populate_count_def new_blocks_def upt_rec push_batch_class_def
  pushBatchClassBlocks_def
lemmas pop_defs = new_batch_group_def push_into_batch_group_def compactPtrInternal_def decompactPtrInternal_def popBlocksImpl_def
  tb_Count_def moveNToArray_def unused_slots_def tb_empty_def tb_add_def decompactPtr_def getCompactPtrBaseByClassId_def Let_def recycle_def

section \<open>The steps of the allocation\<close>

abbreviation "batches_new \<equiv> small_region 0x100000000 0 0 [] 0 0"
abbreviation "batches_used \<equiv> small_region 0x100000000 0x4000 112 [] 2 0"
abbreviation "blocks_new \<equiv> small_region 0x200000000 0 0 [] 0 0"

abbreviation "batch_of_two L \<equiv> small_region 0x200000000 0x4000 0 [\<lparr> bgAddr = 0x100000038, CompactPtrGroupBase = 0, BytesInBGAtLastCheckpoint = 0,
  Batches = [\<lparr> tbAddr = 0x100000000, Batch = L \<rparr>], MaxCachedPerBatch = 2 \<rparr>] 0 2"

definition stats_two :: "counters \<Rightarrow> counters" where
  "stats_two t = stat_sub StatFree 0 (stat_add StatAllocated 0 (stat_sub StatFree 0 (stat_add StatAllocated 0
     (stat_add StatFree 112 (stat_add StatMapped 0x4000 t)))))"

lemma map_batches:
  "populate_map small_config good_env 0 (small_primary batches_new s, small_cache [] y t) =
    (True, (small_primary (small_region 0x100000000 0x4000 0 [] 0 0) s, small_cache [] y (stat_add StatMapped 0x4000 t)))"
  by (simp add: populate_map_def small_simps small_region_def roundUp_def Let_def)

lemma first_batch_block:
  "getBatchClassBlock small_config good_env (small_primary batches_new s, small_cache [] y t) =
    Inr (0x100000038, (small_primary batches_used s, small_cache [0] y (stat_sub StatFree 0 (stat_add StatAllocated 0
      (stat_add StatFree 112 (stat_add StatMapped 0x4000 t))))))"
  by (simp add: alloc_defs small_simps small_region_def populate_defs map_batches [unfolded small_region_def, simplified] pop_defs)

lemma second_batch_block:
  "getBatchClassBlock small_config env (small_primary r s, small_cache [0] y t) =
    Inr (RegionBeg r, (small_primary r s, small_cache [] y (stat_sub StatFree 0 (stat_add StatAllocated 0 t))))"
  by (simp add: alloc_defs small_simps pop_defs)

lemma map_blocks:
  "populate_map small_config good_env (Suc 0) (small_primary r blocks_new, small_cache [] [] t) =
    (True, (small_primary r (small_region 0x200000000 0x4000 0 [] 0 0), small_cache [] [] (stat_add StatMapped 0x4000 t)))"
  by (simp add: populate_map_def small_simps small_region_def roundUp_def Let_def)

lemma shuffle_two: "shuffle [0, 4096] 2 0 = ([4096, 0 :: uptr], 0)"
  by (simp add: shuffle_def word_le_nat_alt getRandomModN_def getRandomU32_def swap_list_def)

lemma create_first:
  "CreateGroup small_config good_env 0 (small_primary batches_new s, small_cache [] y t) =
    Inr (\<lparr> bgAddr = 0x100000038, CompactPtrGroupBase = 0, BytesInBGAtLastCheckpoint = 0, Batches = [\<lparr> tbAddr = 0x100000000, Batch = [] \<rparr>],
       MaxCachedPerBatch = 2 \<rparr>, (small_primary batches_used s, small_cache [] y (stats_two t)))"
  by (simp add: CreateGroup_def first_batch_block second_batch_block small_fields stats_two_def) (simp add: small_region_def)

lemma insert_two:
  "InsertBlocks small_config env 2 [\<lparr> tbAddr = b, Batch = [] \<rparr>] [4096, 0] S = Inr ([\<lparr> tbAddr = b, Batch = [4096, 0] \<rparr>], S)"
  by (simp add: unused_slots_def tb_Count_def tb_add_def)

lemma push_two:
  "pushBlocksImpl small_config good_env (Suc 0) [4096, 0] True
      (small_primary batches_new (small_region 0x200000000 0x4000 0 [] 0 0), small_cache [] [] t) =
    Inr (small_primary batches_used (batch_of_two [4096, 0]), small_cache [] [] (stats_two t))"
proof -
  let ?r = "small_region 0x200000000 0x4000 0 [] 0 0"
  have u: "?r\<lparr>PushedBlocks := PushedBlocks ?r + 2\<rparr> = small_region 0x200000000 0x4000 0 [] 0 2" "BlockList (small_region b mu au L pp q) = L"
    "(small_region b mu au L pp q)\<lparr>BlockList := L'\<rparr> = small_region b mu au L' pp q" for b mu au L L' pp q
    by (simp_all add: small_region_def)
  have g: "compactPtrGroup small_config 4096 = 0" by (simp add: compactPtrGroup_def small_fields)
  show ?thesis
    by (simp add: pushBlocksImpl_def small_primary_simps u g ensure_group_def create_first insert_in_group_def insert_two set_blocks_def del: InsertBlocks.simps)
qed

lemma push_new_two:
  "push_new_blocks small_config env (Suc 0) [0, 4096] (small_primary r (small_region 0x200000000 0x4000 0 [] 0 0), small_cache [] [] t) =
    pushBlocksImpl small_config env (Suc 0) [4096, 0] True (small_primary r (small_region 0x200000000 0x4000 0 [] 0 0), small_cache [] [] t)"
  by (simp add: push_new_blocks_def compactPtrGroup_def small_simps small_region_def shuffle_two)

lemma pop_two:
  "popBlocksImpl small_config (Suc 0) 2 (small_primary batches_used (batch_of_two [4096, 0]), small_cache [] [] t) =
    ([4096, 0], (small_primary batches_used (small_region 0x200000000 0x4000 0 [] 2 2),
       small_cache [0, 0x38] [] (stat_add StatFree 0 (stat_sub StatAllocated 0 (stat_add StatFree 0 (stat_sub StatAllocated 0 t))))))"
  by (simp add: pop_defs small_simps small_region_def deallocate_batch_class_def lc_put_def lc_full_def compactPtr_def)

definition after_primary :: primary where
  "after_primary = small_primary batches_used (small_region 0x200000000 0x4000 8192 [] 2 0)"

definition after_cache :: local_cache where
  "after_cache = small_cache [0, 0x38] [4096] (stat_sub StatFree 4096 (stat_add StatAllocated 4096 (stat_add StatFree 8192
     (stat_add StatFree 0 (stat_sub StatAllocated 0 (stat_add StatFree 0 (stat_sub StatAllocated 0 (stats_two (stat_add StatMapped 0x4000 (\<lambda>_. 0))))))))))"

abbreviation "start_primary \<equiv> small_primary batches_new blocks_new"
abbreviation "start_cache \<equiv> small_cache [] [] (\<lambda>_. 0)"

lemma populate_first:
  "populateFreeListAndPopBlocks small_config good_env (push_new_blocks small_config good_env (Suc 0)) (Suc 0) 2 (start_primary, start_cache) =
    Inr ([4096, 0], (after_primary, small_cache [0, 0x38] [] (stat_add StatFree 8192 (stat_add StatFree 0 (stat_sub StatAllocated 0
      (stat_add StatFree 0 (stat_sub StatAllocated 0 (stats_two (stat_add StatMapped 0x4000 (\<lambda>_. 0))))))))))"
proof -
  let ?r = "small_region 0x200000000 0x4000 0 [] 0 0"
  have n: "populate_count small_config (Suc 0) ?r = 2" by (simp add: populate_count_def small_fields small_region_def)
  have b: "new_blocks small_config (Suc 0) ?r 2 = [0, 4096]"
    by (simp add: new_blocks_def upt_rec small_fields small_region_def compactPtrInternal_def)
  have e: "EnableContiguousRegions small_config" by (simp add: small_fields)
  show ?thesis
    by (simp add: populateFreeListAndPopBlocks_def populate_reserve_def e map_blocks n b push_new_two push_two pop_two Let_def
        small_simps after_primary_def) (simp add: small_region_def)
qed

lemma allocate_first:
  "lc_allocate small_config good_env (Suc 0) (start_primary, start_cache) = Inr (Some 0x200000000, (after_primary, after_cache))"
proof -
  have p: "popBlocksImpl small_config (Suc 0) 2 (start_primary, start_cache) = ([], (start_primary, start_cache))"
    by (simp add: popBlocksImpl_def small_simps small_region_def)
  have x: "\<not> Exhausted (Regions start_primary (Suc 0))" by (simp add: small_simps small_region_def)
  have q: "popBlocks small_config good_env (Suc 0) 2 (start_primary, start_cache) = Inr ([4096, 0], (after_primary, small_cache [0, 0x38] []
      (stat_add StatFree 8192 (stat_add StatFree 0 (stat_sub StatAllocated 0
      (stat_add StatFree 0 (stat_sub StatAllocated 0 (stats_two (stat_add StatMapped 0x4000 (\<lambda>_. 0))))))))))"
    by (simp add: popBlocks_def popBlocks_with_def p x populate_first)
  have r: "decompactPtr small_config (Suc 0) after_primary 0 = 0x200000000"
    by (simp add: decompactPtr_def decompactPtrInternal_def getCompactPtrBaseByClassId_def after_primary_def small_simps small_region_def)
  show ?thesis
    by (simp add: lc_allocate_def lc_allocate_with_def small_cache_simps q r Let_def after_cache_def)
qed

end
