(* ===== verification/Primary64_Claims.thy ===== *)
theory Primary64_Claims
  imports Primary64_Run
begin

text \<open>The properties of the primary allocator, over all runs of the caches of n threads from a freshly
  initialised allocator, and their instances on the small run.\<close>

section \<open>The small run\<close>

abbreviation "small_start \<equiv> pri_start small_config start_primary start_cache"

lemma small_initCache: "lc_initCache small_config start_cache = start_cache"
proof -
  have "(if I < 2 then (PerClassArray start_cache I)\<lparr>MaxCount := 2 * 2, ClassSize := (if I \<noteq> 0 then pri_getSizeByClassId small_config I else 0)\<rparr>
      else PerClassArray start_cache I) = PerClassArray start_cache I" for I
  proof -
    consider "I = 0" | "I = Suc 0" | "2 \<le> I" by linarith
    then show ?thesis by cases (simp_all add: small_cache_simps small_fields)
  qed
  then have "(\<lambda>I. if I < 2 then (PerClassArray start_cache I)\<lparr>MaxCount := 2 * 2, ClassSize := (if I \<noteq> 0 then pri_getSizeByClassId small_config I else 0)\<rparr>
      else PerClassArray start_cache I) = PerClassArray start_cache" by (rule ext)
  then show ?thesis unfolding lc_initCache_def small_fields by simp
qed

lemma small_two: "(\<forall>c<2. Q c) \<longleftrightarrow> Q 0 \<and> Q (Suc 0)" for Q :: "nat \<Rightarrow> bool"
  by (auto simp: numeral_2_eq_2 less_Suc_eq)

lemma small_ready: "pri_ready small_config start_primary" "fresh_cache start_cache"
  by (simp_all add: pri_ready_def fresh_primary_def regions_apart_def region_ok_def small_fields small_two small_primary_simps fresh_cache_def
      small_cache_def) (simp_all add: small_primary_def small_region_def)

lemma small_reached: "(pri_step small_config n)\<^sup>*\<^sup>* small_start \<sigma> \<Longrightarrow> 0 < n \<Longrightarrow> primary_reached small_config n \<sigma>"
  using small_ok small_wf small_ready by (auto simp: primary_reached_def)

text \<open>Two allocations by the only thread: the second comes from the cache.\<close>

lemma allocate_second:
  "lc_allocate small_config good_env (Suc 0) (after_primary, after_cache) =
    Inr (Some 0x200001000, (after_primary, small_cache [0, 0x38] [] (stat_sub StatFree 4096 (stat_add StatAllocated 4096 (cStats after_cache)))))"
  by (simp add: lc_allocate_def lc_allocate_with_def after_cache_def small_cache_simps Let_def)
    (simp add: decompactPtr_def decompactPtrInternal_def getCompactPtrBaseByClassId_def after_primary_def small_simps small_region_def)

definition small_one :: pri_system where
  "small_one = small_start\<lparr>sPri := after_primary, sCaches := (sCaches small_start)(0 := after_cache), sUsed := [(1, 0x200000000)]\<rparr>"

definition small_two_used :: pri_system where
  "small_two_used = small_one\<lparr>sCaches := (sCaches small_one)(0 := small_cache [0, 0x38] [] (stat_sub StatFree 4096 (stat_add StatAllocated 4096
     (cStats after_cache)))), sUsed := [(1, 0x200001000), (1, 0x200000000)]\<rparr>"

lemma small_run: "(pri_step small_config 1)\<^sup>*\<^sup>* small_start small_one" "(pri_step small_config 1)\<^sup>*\<^sup>* small_start small_two_used"
proof -
  have a: "lc_allocate small_config good_env 1 (sPri small_start, sCaches small_start 0) = Inr (Some 0x200000000, (after_primary, after_cache))"
    using allocate_first by (simp add: pri_start_def small_initCache)
  have "pri_step small_config 1 small_start (small_start\<lparr>sPri := after_primary, sCaches := (sCaches small_start)(0 := after_cache),
      sUsed := (case Some 0x200000000 of None \<Rightarrow> sUsed small_start | Some p \<Rightarrow> (1, p) # sUsed small_start)\<rparr>)"
    by (rule step_allocate [OF _ _ _ a]) (simp_all add: small_fields)
  then have 1: "pri_step small_config 1 small_start small_one" by (simp add: small_one_def pri_start_def)
  then show r: "(pri_step small_config 1)\<^sup>*\<^sup>* small_start small_one" by (rule r_into_rtranclp)
  have b: "lc_allocate small_config good_env 1 (sPri small_one, sCaches small_one 0) =
      Inr (Some 0x200001000, (after_primary, sCaches small_two_used 0))"
    using allocate_second by (simp add: small_one_def small_two_used_def)
  have "pri_step small_config 1 small_one (small_one\<lparr>sPri := after_primary, sCaches := (sCaches small_one)(0 := sCaches small_two_used 0),
      sUsed := (case Some 0x200001000 of None \<Rightarrow> sUsed small_one | Some p \<Rightarrow> (1, p) # sUsed small_one)\<rparr>)"
    by (rule step_allocate [OF _ _ _ b]) (simp_all add: small_fields)
  then have "pri_step small_config 1 small_one small_two_used" by (simp add: small_one_def small_two_used_def)
  with r show "(pri_step small_config 1)\<^sup>*\<^sup>* small_start small_two_used" by (rule rtranclp.rtrancl_into_rtrancl)
qed

lemmas small_states = small_reached [OF small_run(1)] small_reached [OF small_run(2)]

section \<open>Disjoint blocks\<close>

definition mapped_bytes :: "primary \<Rightarrow> nat \<Rightarrow> nat set" where
  "mapped_bytes P c = {unat (RegionBeg (Regions P c)) ..< unat (RegionBeg (Regions P c)) + unat (MappedUser (Regions P c))}"

lemma primary_blocks_disjoint_parts:
  assumes "primary_reached cfg n \<sigma>"
  shows "distinct (sUsed \<sigma>)"
    and "x \<in> set (sUsed \<sigma>) \<Longrightarrow> y \<in> set (sUsed \<sigma>) \<Longrightarrow> x \<noteq> y \<Longrightarrow> block_bytes cfg x \<inter> block_bytes cfg y = {}"
    and "x \<in> set (sUsed \<sigma>) \<Longrightarrow> 0 < fst x \<and> fst x < pcNumClasses cfg \<and> snd x \<in> set (region_blocks cfg (sPri \<sigma>) (fst x)) \<and>
      block_bytes cfg x \<subseteq> mapped_bytes (sPri \<sigma>) (fst x)"
proof -
  note s = reached_inv(1) [OF assms] and ap = reached_inv(2) [OF assms]
  show "distinct (sUsed \<sigma>)" by (rule used_distinct(1) [OF s])
  show "block_bytes cfg x \<inter> block_bytes cfg y = {}" if "x \<in> set (sUsed \<sigma>)" "y \<in> set (sUsed \<sigma>)" "x \<noteq> y"
    by (rule used_bytes_disjoint [OF s ap that])
  show "0 < fst x \<and> fst x < pcNumClasses cfg \<and> snd x \<in> set (region_blocks cfg (sPri \<sigma>) (fst x)) \<and> block_bytes cfg x \<subseteq> mapped_bytes (sPri \<sigma>) (fst x)"
    if x: "x \<in> set (sUsed \<sigma>)"
  proof -
    have c: "0 < fst x" "fst x < pcNumClasses cfg" using s x by (auto simp: sys_inv_def used_ok_def)
    obtain i where i: "block_index cfg (sPri \<sigma>) x i" using used_index [OF s x] by blast
    note b = index_bytes [OF used_in_carved(3) [OF s c(2)] used_in_carved(2) [OF s c(2)] ap c(2) i]
    show ?thesis using c block_index_listed [OF i] b(1,2) by (auto simp: block_bytes_def mapped_bytes_def)
  qed
qed

text \<open>C30: In every state that the caches of n threads can bring the primary allocator to, by allocations,
  deallocations, drains and releases of pages in any order, the blocks in use are pairwise disjoint,
  and each is one of the blocks carved from the region of its size class, inside the mapped memory
  of that region.\<close>

theorem primary_blocks_disjoint:
  assumes "primary_reached cfg n \<sigma>"
  shows "distinct (sUsed \<sigma>) \<and> (\<forall>x\<in>set (sUsed \<sigma>). 0 < fst x \<and> fst x < pcNumClasses cfg \<and>
    snd x \<in> set (region_blocks cfg (sPri \<sigma>) (fst x)) \<and> block_bytes cfg x \<subseteq> mapped_bytes (sPri \<sigma>) (fst x) \<and>
    (\<forall>y\<in>set (sUsed \<sigma>). x \<noteq> y \<longrightarrow> block_bytes cfg x \<inter> block_bytes cfg y = {}))"
  using primary_blocks_disjoint_parts [OF assms] by blast

theorem primary_blocks_disjoint_witness:
  "block_bytes small_config (1, 0x200001000) \<inter> block_bytes small_config (1, 0x200000000) = {} \<and>
    block_bytes small_config (1, 0x200000000) \<subseteq> mapped_bytes after_primary 1"
proof
  show "block_bytes small_config (1, 0x200001000) \<inter> block_bytes small_config (1, 0x200000000) = {}"
    using primary_blocks_disjoint [OF small_states(2)] by (simp add: small_two_used_def)
  show "block_bytes small_config (1, 0x200000000) \<subseteq> mapped_bytes after_primary 1"
    using primary_blocks_disjoint [OF small_states(2)] by (simp add: small_two_used_def small_one_def)
qed

section \<open>Where the blocks are\<close>

lemma primary_conserves_blocks_parts:
  assumes "primary_reached cfg n \<sigma>" and "c < pcNumClasses cfg"
  shows "mset (carved cfg c (Regions (sPri \<sigma>) c)) = free_of cfg c (sPri \<sigma>) + (\<Sum>t<n. mset (Chunks (PerClassArray (sCaches \<sigma> t) c))) +
      used_blocks cfg (sPri \<sigma>) (sUsed \<sigma>) c + out_blocks cfg \<sigma> c"
    and "distinct (carved cfg c (Regions (sPri \<sigma>) c))"
proof -
  note s = reached_inv(1) [OF assms(1)]
  have n: "0 < n" using s by (simp add: sys_inv_def)
  have "mset (carved cfg c (Regions (sPri \<sigma>) c)) = blocks_of cfg c (thread_state \<sigma> 0) + elsewhere cfg n \<sigma> 0 c"
    using sys_invD(1) [OF s n] assms(2) by (simp add: pinv_def)
  also have "\<dots> = free_of cfg c (sPri \<sigma>) + (elsewhere cfg n \<sigma> 0 c + mset (Chunks (PerClassArray (sCaches \<sigma> 0) c)))"
    by (simp add: blocks_of_def ac_simps)
  finally show "mset (carved cfg c (Regions (sPri \<sigma>) c)) = free_of cfg c (sPri \<sigma>) + (\<Sum>t<n. mset (Chunks (PerClassArray (sCaches \<sigma> t) c))) +
      used_blocks cfg (sPri \<sigma>) (sUsed \<sigma>) c + out_blocks cfg \<sigma> c"
    unfolding elsewhere_split [OF n] by (simp add: rest_blocks_def ac_simps)
  show "distinct (carved cfg c (Regions (sPri \<sigma>) c))"
    by (rule carved_distinct [OF used_in_carved(3) [OF s assms(2)] assms(2) used_in_carved(2) [OF s assms(2)]])
qed

text \<open>C31: No block is lost and none is doubled: in every reached state and for every class, the blocks carved
  from its region are, each exactly once, in the free list (or, for the batch class, the records of
  the free lists), in the cache of one thread, in use by the program, or in the groups that a release
  of pages has taken out.\<close>

theorem primary_conserves_blocks:
  assumes "primary_reached cfg n \<sigma>" and "c < pcNumClasses cfg"
  shows "mset (carved cfg c (Regions (sPri \<sigma>) c)) = free_of cfg c (sPri \<sigma>) + (\<Sum>t<n. mset (Chunks (PerClassArray (sCaches \<sigma> t) c))) +
      used_blocks cfg (sPri \<sigma>) (sUsed \<sigma>) c + out_blocks cfg \<sigma> c \<and> distinct (carved cfg c (Regions (sPri \<sigma>) c))"
  using primary_conserves_blocks_parts [OF assms] by blast

theorem primary_conserves_blocks_witness:
  "mset (carved small_config 1 (Regions (sPri small_one) 1)) = {#0, 4096#} \<and> distinct (carved small_config 1 (Regions (sPri small_one) 1))"
proof
  have c: "1 < pcNumClasses small_config" by (simp add: small_fields)
  have P: "sPri small_one = after_primary" "sCaches small_one 0 = after_cache" "sUsed small_one = [(1, 0x200000000)]" "sOut small_one = (\<lambda>_. None)"
    by (simp_all add: small_one_def pri_start_def)
  have o: "out_blocks small_config small_one 1 = {#}" by (simp add: out_blocks_def P taken_groups_def)
  have u: "used_blocks small_config after_primary [(1, 0x200000000)] 1 = {#0#}"
    by (simp add: compactPtr_def compactPtrInternal_def getCompactPtrBaseByClassId_def after_primary_def small_simps small_region_def)
  have f: "free_of small_config 1 after_primary = {#}" "Chunks (PerClassArray after_cache 1) = [4096]"
    by (simp_all add: free_of_def after_primary_def after_cache_def small_simps small_region_def)
  show "mset (carved small_config 1 (Regions (sPri small_one) 1)) = {#0, 4096#}"
    using conjunct1 [OF primary_conserves_blocks [OF small_states(1) c]] by (simp add: P o [unfolded One_nat_def] u [unfolded One_nat_def] f [unfolded One_nat_def] del: used_blocks_simps)
  show "distinct (carved small_config 1 (Regions (sPri small_one) 1))"
    using primary_conserves_blocks [OF small_states(1) c] by simp
qed


section \<open>Well-formed states\<close>

lemma primary_lists_well_formed_parts:
  assumes "primary_reached cfg n \<sigma>" and "t < n" and "c < pcNumClasses cfg"
  shows "list_wf cfg c (BlockList (Regions (sPri \<sigma>) c))" and "cache_wf cfg c (PerClassArray (sCaches \<sigma> t) c)"
proof -
  note s = reached_inv(1) [OF assms(1)]
  show "list_wf cfg c (BlockList (Regions (sPri \<sigma>) c))" using pwfD(2) [OF sys_invD(2) [OF s assms(2)] assms(3)] by simp
  show "cache_wf cfg c (PerClassArray (sCaches \<sigma> t) c)" by (rule sys_invD(3) [OF s assms(2,3)])
qed

text \<open>C32: The data structures keep their shape in every reached state: the groups of a class are sorted by
  their base, strictly, each has at least one batch and holds only pointers of that group, every
  batch but the first of a group is full and the first is not empty, and no array of a batch or of a
  cache holds more than it has room for.\<close>

theorem primary_lists_well_formed:
  assumes "primary_reached cfg n \<sigma>" and "t < n" and "c < pcNumClasses cfg"
  shows "list_wf cfg c (BlockList (Regions (sPri \<sigma>) c)) \<and> cache_wf cfg c (PerClassArray (sCaches \<sigma> t) c)"
  using primary_lists_well_formed_parts [OF assms] by blast

theorem primary_lists_well_formed_witness:
  "list_wf small_config 1 (BlockList (Regions (sPri small_one) 1)) \<and> cache_wf small_config 1 (PerClassArray (sCaches small_one 0) 1)"
  by (rule primary_lists_well_formed [OF small_states(1)]) (simp_all add: small_fields)

section \<open>Errors and progress\<close>

lemma primary_reports_parts:
  assumes "primary_reached cfg n \<sigma>" and "t < n"
  shows "c < pcNumClasses cfg \<Longrightarrow> lc_allocate cfg env c (thread_state \<sigma> t) = Inl e \<Longrightarrow> e = OutOfBatchClass \<or> e = OutOfMemory (pri_getSizeByClassId cfg 0)"
    and "(c, p) \<in> set (sUsed \<sigma>) \<Longrightarrow> lc_deallocate cfg env c p (thread_state \<sigma> t) = Inl e \<Longrightarrow> e = OutOfBatchClass \<or> e = OutOfMemory (pri_getSizeByClassId cfg 0)"
    and "lc_drain cfg env (thread_state \<sigma> t) = Some (Inl e) \<Longrightarrow> e = OutOfBatchClass \<or> e = OutOfMemory (pri_getSizeByClassId cfg 0)"
proof -
  note s = reached_inv(1) [OF assms(1)] and i = sys_invD(1,2) [OF reached_inv(1) [OF assms(1)] assms(2)]
  show "e = OutOfBatchClass \<or> e = OutOfMemory (pri_getSizeByClassId cfg 0)"
    if "c < pcNumClasses cfg" "lc_allocate cfg env c (thread_state \<sigma> t) = Inl e"
    using lc_allocate_wf [OF that(1) i, of env] that(2) by (simp add: ok_error_def)
  show "e = OutOfBatchClass \<or> e = OutOfMemory (pri_getSizeByClassId cfg 0)"
    if u: "(c, p) \<in> set (sUsed \<sigma>)" and r: "lc_deallocate cfg env c p (thread_state \<sigma> t) = Inl e"
  proof -
    have "c < pcNumClasses cfg" using s u by (auto simp: sys_inv_def used_ok_def)
    from lc_deallocate_wf [OF i this, of env p] r show ?thesis by (simp add: ok_error_def)
  qed
  show "e = OutOfBatchClass \<or> e = OutOfMemory (pri_getSizeByClassId cfg 0)" if "lc_drain cfg env (thread_state \<sigma> t) = Some (Inl e)"
    using lc_drain_ok [OF i, of env] that by (auto simp: ok_error_def)
qed

text \<open>C33: In every reached state an allocation, the deallocation of a block in use and a drain end with a
  result or with one of the two reports that the batch class has no memory: none of them finds a
  broken list, an array without room, or a null pointer.\<close>

theorem primary_reports:
  assumes "primary_reached cfg n \<sigma>" and "t < n"
  shows "(\<forall>c<pcNumClasses cfg. lc_allocate cfg env c (thread_state \<sigma> t) = Inl e \<longrightarrow> e = OutOfBatchClass \<or> e = OutOfMemory (pri_getSizeByClassId cfg 0)) \<and>
    (\<forall>(c, p)\<in>set (sUsed \<sigma>). lc_deallocate cfg env c p (thread_state \<sigma> t) = Inl e \<longrightarrow> e = OutOfBatchClass \<or> e = OutOfMemory (pri_getSizeByClassId cfg 0)) \<and>
    (lc_drain cfg env (thread_state \<sigma> t) = Some (Inl e) \<longrightarrow> e = OutOfBatchClass \<or> e = OutOfMemory (pri_getSizeByClassId cfg 0))"
  using primary_reports_parts [OF assms] by blast

text \<open>The platform maps no memory at the base of the batch class.\<close>

definition no_batch_memory :: pri_env where
  "no_batch_memory = good_env\<lparr>pOs := (pOs good_env)\<lparr>remapOk := \<lambda>Addr _ _. Addr \<noteq> 0x100000000\<rparr>\<rparr>"

lemma no_batch_memory_maps:
  "populate_map small_config no_batch_memory 0 (small_primary batches_new s, small_cache [] y t) =
    (False, (small_primary batches_new s, small_cache [] y t))"
  "populate_map small_config no_batch_memory (Suc 0) (start_primary, start_cache) =
    (True, (small_primary batches_new (small_region 0x200000000 0x4000 0 [] 0 0), small_cache [] [] (stat_add StatMapped 0x4000 (\<lambda>_. 0))))"
  by (simp_all add: populate_map_def small_simps small_region_def roundUp_def Let_def no_batch_memory_def)

lemma no_batch_memory_block:
  "getBatchClassBlock small_config no_batch_memory (small_primary batches_new s, small_cache [] y t) = Inl (OutOfMemory 56)"
proof -
  have e: "EnableContiguousRegions small_config" by (simp add: small_fields)
  have p: "popBlocksImpl small_config 0 m (small_primary batches_new s, small_cache [] y t) = ([], (small_primary batches_new s, small_cache [] y t))" for m
    by (simp add: popBlocksImpl_def small_simps small_region_def)
  have x: "\<not> Exhausted (Regions (small_primary batches_new s) 0)" by (simp add: small_simps small_region_def)
  show ?thesis
    by (simp add: getBatchClassBlock_def lc_allocate_with_def popBlocks_with_def p x populateFreeListAndPopBlocks_def populate_reserve_def e
        no_batch_memory_maps small_cache_simps small_fields)
qed

lemma no_batch_memory_allocate:
  "lc_allocate small_config no_batch_memory (Suc 0) (start_primary, start_cache) = Inl (OutOfMemory 56)"
proof -
  let ?r = "small_region 0x200000000 0x4000 0 [] 0 0"
  have e: "EnableContiguousRegions small_config" by (simp add: small_fields)
  have n: "populate_count small_config (Suc 0) ?r = 2" by (simp add: populate_count_def small_fields small_region_def)
  have b: "new_blocks small_config (Suc 0) ?r 2 = [0, 4096]"
    by (simp add: new_blocks_def upt_rec small_fields small_region_def compactPtrInternal_def)
  have p: "popBlocksImpl small_config (Suc 0) m (start_primary, start_cache) = ([], (start_primary, start_cache))" for m
    by (simp add: popBlocksImpl_def small_simps small_region_def)
  have x: "\<not> Exhausted blocks_new" by (simp add: small_region_def)
  have u: "BlockList ?r = []" by (simp add: small_region_def)
  have q: "pushBlocksImpl small_config no_batch_memory (Suc 0) [4096, 0] True (small_primary batches_new ?r, small_cache [] [] t) = Inl (OutOfMemory 56)" for t
    by (simp add: pushBlocksImpl_def small_primary_simps u ensure_group_def CreateGroup_def no_batch_memory_block Let_def)
  show ?thesis
    by (simp add: lc_allocate_def lc_allocate_with_def popBlocks_def popBlocks_with_def p x populateFreeListAndPopBlocks_def populate_reserve_def e
        no_batch_memory_maps small_primary_simps small_cache_simps n b push_new_two q Let_def)
qed

theorem primary_reports_witness:
  "lc_allocate small_config no_batch_memory 1 (sPri small_start, sCaches small_start 0) = Inl (OutOfMemory 56) \<and>
    (OutOfMemory 56 = OutOfBatchClass \<or> OutOfMemory 56 = OutOfMemory (pri_getSizeByClassId small_config 0))"
proof -
  have a: "lc_allocate small_config no_batch_memory 1 (sPri small_start, sCaches small_start 0) = Inl (OutOfMemory 56)"
    using no_batch_memory_allocate by (simp add: pri_start_def small_initCache)
  have "1 < pcNumClasses small_config" by (simp add: small_fields)
  from conjunct1 [OF primary_reports [OF small_reached [OF rtranclp.rtrancl_refl, of 1]], rule_format, OF _ _ this a] a show ?thesis by simp
qed



lemma allocation_only_fails_without_memory_parts:
  assumes "primary_reached cfg n \<sigma>" and "t < n" and "0 < c" and "c < pcNumClasses cfg"
    and "lc_allocate cfg env c (thread_state \<sigma> t) = Inr (None, (P', C'))"
  shows "Chunks (PerClassArray (sCaches \<sigma> t) c) = []" and "free_of cfg c (sPri \<sigma>) = {#}"
    and "Exhausted (Regions P' c) \<or> (\<exists>Addr Size Flags. \<not> remapOk (pOs env) Addr Size Flags)"
proof -
  note i = sys_invD(1,2) [OF reached_inv(1) [OF assms(1)] assms(2)]
  have c: "c \<noteq> 0" using assms(3) by simp
  note g = class_typed.allocate_with_gives [OF c assms(4) i assms(5) [unfolded lc_allocate_def popBlocks_def]]
  show "Chunks (PerClassArray (sCaches \<sigma> t) c) = []" using g(1) by simp
  show "free_of cfg c (sPri \<sigma>) = {#}" using g(2) c by (simp add: free_of_def)
  show "Exhausted (Regions P' c) \<or> (\<exists>Addr Size Flags. \<not> remapOk (pOs env) Addr Size Flags)"
    using g(3) by (simp add: refused_def)
qed

text \<open>C34: An allocation comes back without a block only when the cache and the free list of the class are
  empty and, in addition, the region is exhausted or the platform refuses to map memory.\<close>

theorem allocation_only_fails_without_memory:
  assumes "primary_reached cfg n \<sigma>" and "t < n" and "0 < c" and "c < pcNumClasses cfg"
    and "lc_allocate cfg env c (thread_state \<sigma> t) = Inr (None, (P', C'))"
  shows "Chunks (PerClassArray (sCaches \<sigma> t) c) = [] \<and> free_of cfg c (sPri \<sigma>) = {#} \<and>
    (Exhausted (Regions P' c) \<or> (\<exists>Addr Size Flags. \<not> remapOk (pOs env) Addr Size Flags))"
  using allocation_only_fails_without_memory_parts [OF assms] by blast

theorem allocation_only_fails_without_memory_witness:
  "lc_allocate small_config (env_with False) 1 (sPri small_start, sCaches small_start 0) = Inr (None, (start_primary, start_cache)) \<and>
    (Exhausted (Regions start_primary 1) \<or> (\<exists>Addr Size Flags. \<not> remapOk (pOs (env_with False)) Addr Size Flags))"
proof -
  have e: "EnableContiguousRegions small_config" by (simp add: small_fields)
  have p: "popBlocksImpl small_config (Suc 0) m (start_primary, start_cache) = ([], (start_primary, start_cache))" for m
    by (simp add: popBlocksImpl_def small_simps small_region_def)
  have x: "\<not> Exhausted (Regions start_primary (Suc 0))" by (simp add: small_simps small_region_def)
  have m: "populate_map small_config (env_with False) (Suc 0) (start_primary, start_cache) = (False, (start_primary, start_cache))"
    by (simp add: populate_map_def small_simps small_region_def roundUp_def Let_def)
  have a: "lc_allocate small_config (env_with False) 1 (sPri small_start, sCaches small_start 0) = Inr (None, (start_primary, start_cache))"
    by (simp add: pri_start_def small_initCache lc_allocate_def lc_allocate_with_def popBlocks_def popBlocks_with_def p x
        populateFreeListAndPopBlocks_def populate_reserve_def e m small_cache_simps)
  have "1 < pcNumClasses small_config" by (simp add: small_fields)
  from allocation_only_fails_without_memory [OF small_reached [OF rtranclp.rtrancl_refl, of 1] _ _ this a] a show ?thesis by simp
qed

section \<open>Visiting the blocks\<close>

lemma iterate_visits_carved_blocks_parts:
  assumes "primary_reached cfg n \<sigma>"
  shows "pri_iterateOverBlocks cfg (sPri \<sigma>) = Some (concat (map (region_blocks cfg (sPri \<sigma>)) [1..<pcNumClasses cfg]))"
    and "snd ` set (sUsed \<sigma>) \<subseteq> set (concat (map (region_blocks cfg (sPri \<sigma>)) [1..<pcNumClasses cfg]))"
proof -
  note s = reached_inv [OF assms]
  show "pri_iterateOverBlocks cfg (sPri \<sigma>) = Some (concat (map (region_blocks cfg (sPri \<sigma>)) [1..<pcNumClasses cfg]))"
    by (rule iterate_all [OF s])
  show "snd ` set (sUsed \<sigma>) \<subseteq> set (concat (map (region_blocks cfg (sPri \<sigma>)) [1..<pcNumClasses cfg]))"
  proof
    fix p assume "p \<in> snd ` set (sUsed \<sigma>)"
    then obtain x where x: "x \<in> set (sUsed \<sigma>)" "p = snd x" by blast
    have "0 < fst x" "fst x < pcNumClasses cfg" using s(1) x by (auto simp: sys_inv_def used_ok_def)
    moreover obtain i where "block_index cfg (sPri \<sigma>) x i" using used_index [OF s(1) x(1)] by blast
    ultimately show "p \<in> set (concat (map (region_blocks cfg (sPri \<sigma>)) [1..<pcNumClasses cfg]))"
      using block_index_listed x(2) by fastforce
  qed
qed

text \<open>C36: iterateOverBlocks terminates in every reached state and calls back for exactly the carved blocks of
  the classes, region after region and in the order of their addresses; every block in use is among
  them.\<close>

theorem iterate_visits_carved_blocks:
  assumes "primary_reached cfg n \<sigma>"
  shows "pri_iterateOverBlocks cfg (sPri \<sigma>) = Some (concat (map (region_blocks cfg (sPri \<sigma>)) [1..<pcNumClasses cfg])) \<and>
    snd ` set (sUsed \<sigma>) \<subseteq> set (concat (map (region_blocks cfg (sPri \<sigma>)) [1..<pcNumClasses cfg]))"
  using iterate_visits_carved_blocks_parts [OF assms] by blast

theorem iterate_visits_carved_blocks_witness:
  "pri_iterateOverBlocks small_config after_primary = Some [0x200000000, 0x200001000]"
proof -
  have "region_blocks small_config after_primary (Suc 0) = [0x200000000, 0x200001000]"
    by (simp add: region_blocks_def after_primary_def small_simps upt_rec) (simp add: small_region_def)
  then show ?thesis
    using conjunct1 [OF iterate_visits_carved_blocks [OF small_states(2)]]
    by (simp add: small_two_used_def small_one_def small_fields upt_rec)
qed

section \<open>Initialisation\<close>

lemma pri_init_ready_parts:
  assumes "cfg_ok cfg" and "pri_init cfg PgSize reserve Seed Interval P0 = Inr P" and "fresh_primary P0"
    and "16 * unat PgSize \<le> 2 ^ RegionSizeLog cfg"
    and "reserve (push_bit (RegionSizeLog cfg) 1 * of_nat (pcNumClasses cfg)) = Some base"
    and "unat base + pcNumClasses cfg * 2 ^ RegionSizeLog cfg < 2 ^ 64"
  shows "pri_ready cfg P" and "mset (map (\<lambda>c. mBase (rMemMap (Regions P c))) [0..<pcNumClasses cfg]) =
      mset (map (\<lambda>I. base + push_bit (RegionSizeLog cfg) (of_nat I)) [0..<pcNumClasses cfg])"
proof -
  note st = pri_init_state [OF assms(1-4), unfolded assms(5) option.inject]
  show "pri_ready cfg P" unfolding pri_ready_def using st assms(6) by blast
  let ?N = "pcNumClasses cfg"
  have l: "RegionSizeLog cfg \<le> 32" using assms(1) by (simp add: cfg_ok_def)
  note ir = initRegion_fields(4) [OF assms(4) l]
  obtain d rs where m: "mset (map (Regions P) [0..<?N]) = mset (pri_regions cfg PgSize d base rs (Regions P0))"
    using pri_init_regions [OF assms(1,2)] assms(5) by auto
  have "mset (map (\<lambda>c. mBase (rMemMap (Regions P c))) [0..<?N]) = image_mset (\<lambda>R. mBase (rMemMap R)) (mset (map (Regions P) [0..<?N]))"
    by (simp add: image_mset.compositionality comp_def)
  also have "\<dots> = mset (map (\<lambda>R. mBase (rMemMap R)) (pri_regions cfg PgSize d base rs (Regions P0)))" unfolding m by simp
  also have "map (\<lambda>R. mBase (rMemMap R)) (pri_regions cfg PgSize d base rs (Regions P0)) =
      map (\<lambda>I. base + push_bit (RegionSizeLog cfg) (of_nat I)) [0..<?N]"
    by (simp add: pri_regions_def ir)
  finally show "mset (map (\<lambda>c. mBase (rMemMap (Regions P c))) [0..<?N]) = mset (map (\<lambda>I. base + push_bit (RegionSizeLog cfg) (of_nat I)) [0..<?N])" .
qed

text \<open>C37: Initialising the allocator over the memory that is reserved for all its regions gives every class a
  region of its own, at the start of one of the consecutive parts of that memory; the regions do not
  overlap, every one begins in its part, and there are no blocks yet: the state in which the runs
  start.\<close>

theorem pri_init_ready:
  assumes "cfg_ok cfg" and "pri_init cfg PgSize reserve Seed Interval P0 = Inr P" and "fresh_primary P0"
    and "16 * unat PgSize \<le> 2 ^ RegionSizeLog cfg"
    and "reserve (push_bit (RegionSizeLog cfg) 1 * of_nat (pcNumClasses cfg)) = Some base"
    and "unat base + pcNumClasses cfg * 2 ^ RegionSizeLog cfg < 2 ^ 64"
  shows "pri_ready cfg P \<and> mset (map (\<lambda>c. mBase (rMemMap (Regions P c))) [0..<pcNumClasses cfg]) =
      mset (map (\<lambda>I. base + push_bit (RegionSizeLog cfg) (of_nat I)) [0..<pcNumClasses cfg])"
  using pri_init_ready_parts [where reserve = reserve, OF assms] by blast

theorem pri_init_ready_witness:
  "\<exists>P. pri_init DefaultPrimaryConfig 4096 (\<lambda>_. Some 0x10000000000) 42 0 start_primary = Inr P \<and> pri_ready DefaultPrimaryConfig P"
proof -
  have n: "pcNumClasses DefaultPrimaryConfig = 45" "RegionSizeLog DefaultPrimaryConfig = 32" "EnableContiguousRegions DefaultPrimaryConfig"
    by (simp_all add: default_config size_class_defs)
  have "\<exists>P. pri_init DefaultPrimaryConfig 4096 (\<lambda>_. Some 0x10000000000) 42 0 start_primary = Inr P"
    by (auto simp: pri_init_def n Let_def split: prod.split)
  then obtain P where P: "pri_init DefaultPrimaryConfig 4096 (\<lambda>_. Some 0x10000000000) 42 0 start_primary = Inr P" by blast
  have f: "fresh_primary start_primary"
    by (simp add: fresh_primary_def small_primary_def small_region_def)
  from conjunct1 [OF pri_init_ready [OF default_ok P f _ refl]] P show ?thesis by (simp add: n)
qed

end
