(* ===== verification/Combined.thy ===== *)
theory Combined
  imports Memory Quarantine Secondary_Properties Primary64_Claims
begin

text \<open>combined.h: the allocator that the C functions call. It serves small requests from the caches in front
  of the primary, large ones from the secondary, puts a header in front of every chunk, and lets freed
  chunks wait in the quarantine. The two back ends are template parameters of the code and a record of
  operations here. The build has no memory tagging and no GWP-ASan. A fatal report is Inl; None says that
  an operation does not return, which only the secondary can do.\<close>

section \<open>Constants and state\<close>

definition MinAlignment :: uptr where "MinAlignment = 16"
definition MaxAlignment :: uptr where "MaxAlignment = push_bit 24 1"
definition MaxAllowedMallocSize :: uptr where "MaxAllowedMallocSize = push_bit 40 1"
definition BlockMarker :: u32 where "BlockMarker = 0x44554353"

record ('e, 'b) backend_ops =
  boAllocate :: "'e \<Rightarrow> nat \<Rightarrow> 'b \<Rightarrow> (uptr option \<times> 'b) result"
  boDeallocate :: "'e \<Rightarrow> nat \<Rightarrow> uptr \<Rightarrow> 'b \<Rightarrow> (bool \<times> 'b) result"
  boDrain :: "'e \<Rightarrow> 'b \<Rightarrow> 'b result option"
  boTryRelease :: "'e \<Rightarrow> nat \<Rightarrow> 'b \<Rightarrow> 'b \<times> os_event list"
  boSecAllocate :: "'e \<Rightarrow> u32 \<Rightarrow> uptr \<Rightarrow> uptr \<Rightarrow> u32 \<Rightarrow> 'b \<Rightarrow> ((uptr \<times> uptr) option \<times> 'b \<times> os_event list) result option"
  boSecDeallocate :: "'e \<Rightarrow> uptr \<Rightarrow> 'b \<Rightarrow> ('b \<times> os_event list) result option"
  boBlockEnd :: "'b \<Rightarrow> uptr \<Rightarrow> uptr"
  boBlocks :: "'b \<Rightarrow> uptr list option"
  boClassId :: "uptr \<Rightarrow> nat"
  boClassSize :: "nat \<Rightarrow> uptr"
  boCanAllocate :: "uptr \<Rightarrow> bool"
  boLargestClassId :: nat
  boMaxSize :: uptr

text \<open>What a build and a process fix, and the surroundings of one call: whether the thread has disabled the
  initialisation of memory, its TSD, the address of a stack frame, whether a tryLock succeeds, and what
  the back ends ask of the platform.\<close>

record build_env =
  bHash :: hash_env
  bPageSize :: uptr

record 'e call_env =
  ceDisableMemInit :: bool
  ceTSD :: nat
  ceFrame :: uptr
  ceTryLock :: bool
  ceBackend :: 'e

record 'b allocator =
  aCookie :: u32
  aQuarantineMaxChunkSize :: u32
  aOptions :: u32
  aQuarantine :: GlobalQuarantine
  aQuarantineCaches :: "nat \<Rightarrow> QuarantineCache"
  aMemory :: memory
  aBackend :: 'b

definition bindO :: "'a result option \<Rightarrow> ('a \<Rightarrow> 'c result option) \<Rightarrow> 'c result option" where
  "bindO r f = (case r of None \<Rightarrow> None | Some (Inl e) \<Rightarrow> Some (Inl e) | Some (Inr x) \<Rightarrow> f x)"

section \<open>Initialisation\<close>

record flags =
  quarantine_size_kb :: int
  thread_local_quarantine_size_kb :: int
  quarantine_max_chunk_size :: int
  dealloc_type_mismatch :: bool
  delete_size_mismatch :: bool
  zero_contents :: bool
  pattern_fill_contents :: bool
  may_return_null :: bool
  release_to_os_interval_ms :: int
  allocation_ring_buffer_size :: int

definition default_flags :: flags where
  "default_flags = \<lparr> quarantine_size_kb = 0, thread_local_quarantine_size_kb = 0, quarantine_max_chunk_size = 0,
     dealloc_type_mismatch = False, delete_size_mismatch = True, zero_contents = False, pattern_fill_contents = False,
     may_return_null = True, release_to_os_interval_ms = 5000, allocation_ring_buffer_size = 32768 \<rparr>"

text \<open>The fields of the header can hold the largest offset, size and class.\<close>

definition performSanityChecks :: "('e, 'b) backend_ops \<Rightarrow> unit result" where
  "performSanityChecks ops =
    (let MaxPrimaryAlignment = push_bit (getMostSignificantSetBitIndex (boMaxSize ops - MinAlignment)) 1;
         MaxOffset = drop_bit 4 (MaxPrimaryAlignment - getHeaderSize)
     in if (ucast (ucast (MaxOffset AND OffsetMask) :: 16 word) :: uptr) \<noteq> MaxOffset then Inl (SanityCheckError ''offset'')
        else let MaxSizeOrUnusedBytes = boMaxSize ops - 1 in
        if (ucast (ucast MaxSizeOrUnusedBytes :: 20 word) :: uptr) \<noteq> MaxSizeOrUnusedBytes then Inl (SanityCheckError ''size (or unused bytes)'')
        else if unat (of_nat (boLargestClassId ops) :: 8 word) \<noteq> boLargestClassId ops then Inl (SanityCheckError ''class ID'')
        else Inr ())"

definition flag_options :: "flags \<Rightarrow> u32 \<Rightarrow> u32" where
  "flag_options F O0 =
    (let O1 = (if may_return_null F then opt_set MayReturnNull O0 else O0);
         O2 = (if zero_contents F then setFillContentsMode ZeroFill O1
               else if pattern_fill_contents F then setFillContentsMode PatternOrZeroFill O1 else O1);
         O3 = (if dealloc_type_mismatch F then opt_set OptDeallocTypeMismatch O2 else O2)
     in if delete_size_mismatch F then opt_set OptDeleteSizeMismatch O3 else O3)"

text \<open>init, with the random cookie and the initialisation of the two back ends given.\<close>

definition comb_init :: "('e, 'b) backend_ops \<Rightarrow> flags \<Rightarrow> u32 \<Rightarrow> (int \<Rightarrow> 'b \<Rightarrow> 'b result) \<Rightarrow> 'b allocator \<Rightarrow> 'b allocator result" where
  "comb_init ops F Cookie backend_init A =
    bindR (performSanityChecks ops) (\<lambda>_.
    bindR (backend_init (release_to_os_interval_ms F) (aBackend A)) (\<lambda>b.
    bindR (gq_init (of_int (to_sint32 (quarantine_size_kb F * 1024))) (of_int (to_sint32 (thread_local_quarantine_size_kb F * 1024))) (aQuarantine A)) (\<lambda>Q.
      Inr (A\<lparr>aCookie := Cookie, aOptions := flag_options F (aOptions A), aQuarantineMaxChunkSize := of_int (quarantine_max_chunk_size F),
        aBackend := b, aQuarantine := Q\<rparr>))))"

section \<open>Chunks\<close>

definition getBlockBegin :: "uptr \<Rightarrow> UnpackedHeader \<Rightarrow> uptr" where
  "getBlockBegin Ptr Header = Ptr - getHeaderSize - push_bit 4 (ucast (Offset Header))"

definition getSize :: "('e, 'b) backend_ops \<Rightarrow> 'b \<Rightarrow> uptr \<Rightarrow> UnpackedHeader \<Rightarrow> uptr" where
  "getSize ops b Ptr Header = (if ClassId Header \<noteq> 0 then ucast (SizeOrUnusedBytes Header)
     else boBlockEnd ops b (getBlockBegin Ptr Header) - Ptr - ucast (SizeOrUnusedBytes Header))"

definition chunk_header :: "nat \<Rightarrow> Origin \<Rightarrow> uptr \<Rightarrow> uptr \<Rightarrow> UnpackedHeader" where
  "chunk_header c Org SzOrUnused Off = \<lparr> ClassId = of_nat c, State = Allocated, OriginOrWasZeroed = ucast (origin_val Org),
     SizeOrUnusedBytes = ucast (SzOrUnused AND SizeOrUnusedBytesMask), Offset = ucast (drop_bit 4 Off AND OffsetMask), hChecksum = 0 \<rparr>"

definition initChunk :: "('e, 'b) backend_ops \<Rightarrow> build_env \<Rightarrow> nat \<Rightarrow> Origin \<Rightarrow> uptr \<Rightarrow> uptr \<Rightarrow> uptr \<Rightarrow> u32 \<Rightarrow>
    'b allocator \<Rightarrow> uptr \<times> 'b allocator" where
  "initChunk ops bld c Org Block UserPtr SzOrUnused FillContents A =
    (let DefaultAlignedPtr = Block + getHeaderSize; m = aMemory A;
         m = (if c \<noteq> 0 \<and> FillContents \<noteq> NoFill then memset Block (fill_byte FillContents) (boClassSize ops c) m else m);
         Off = UserPtr - DefaultAlignedPtr;
         m = (if DefaultAlignedPtr \<noteq> UserPtr then write32 (Block + 4) (ucast Off) (write32 Block BlockMarker m) else m);
         m = mem_storeHeader (bHash bld) (aCookie A) UserPtr
               (chunk_header c Org SzOrUnused (if DefaultAlignedPtr \<noteq> UserPtr then Off else 0)) m
     in (UserPtr, A\<lparr>aMemory := m\<rparr>))"

section \<open>The callback of the quarantine\<close>

definition QuarantineClassId :: "('e, 'b) backend_ops \<Rightarrow> nat" where
  "QuarantineClassId ops = boClassId ops (sizeof_QuarantineBatch + getHeaderSize)"

definition batch_header :: "('e, 'b) backend_ops \<Rightarrow> UnpackedHeader" where
  "batch_header ops = \<lparr> ClassId = of_nat (QuarantineClassId ops), State = Allocated, OriginOrWasZeroed = 0,
     SizeOrUnusedBytes = ucast sizeof_QuarantineBatch, Offset = 0, hChecksum = 0 \<rparr>"

definition qc_recycle :: "('e, 'b) backend_ops \<Rightarrow> build_env \<Rightarrow> 'e \<Rightarrow> u32 \<Rightarrow> uptr \<Rightarrow> memory \<times> 'b \<Rightarrow> (memory \<times> 'b) result" where
  "qc_recycle ops bld e Cookie Ptr = (\<lambda>(m, b).
    bindR (loadHeader (bHash bld) Cookie Ptr (words m)) (\<lambda>Header.
      if State Header \<noteq> Quarantined then Inl (InvalidChunkState Recycling Ptr)
      else let Header = Header\<lparr>State := Available\<rparr>; m = mem_storeHeader (bHash bld) Cookie Ptr Header m
           in bindR (boDeallocate ops e (unat (ClassId Header)) (getBlockBegin Ptr Header) b) (\<lambda>(_, b). Inr (m, b))))"

definition qc_allocate :: "('e, 'b) backend_ops \<Rightarrow> build_env \<Rightarrow> 'e \<Rightarrow> u32 \<Rightarrow> uptr \<Rightarrow> memory \<times> 'b \<Rightarrow> (uptr \<times> memory \<times> 'b) result" where
  "qc_allocate ops bld e Cookie Sz = (\<lambda>(m, b).
    bindR (boAllocate ops e (QuarantineClassId ops) b) (\<lambda>(p, b).
      case p of None \<Rightarrow> Inl (OutOfMemory (boClassSize ops (QuarantineClassId ops)))
      | Some p \<Rightarrow> let Ptr = p + getHeaderSize in Inr (Ptr, mem_storeHeader (bHash bld) Cookie Ptr (batch_header ops) m, b)))"

definition qc_deallocate :: "('e, 'b) backend_ops \<Rightarrow> build_env \<Rightarrow> 'e \<Rightarrow> u32 \<Rightarrow> uptr \<Rightarrow> memory \<times> 'b \<Rightarrow> (memory \<times> 'b) result" where
  "qc_deallocate ops bld e Cookie Ptr = (\<lambda>(m, b).
    bindR (loadHeader (bHash bld) Cookie Ptr (words m)) (\<lambda>Header.
      if State Header \<noteq> Allocated then Inl (InvalidChunkState Deallocating Ptr)
      else bindR (boDeallocate ops e (QuarantineClassId ops) (Ptr - getHeaderSize) b) (\<lambda>(_, b).
             Inr (mem_storeHeader (bHash bld) Cookie Ptr (Header\<lparr>State := Available\<rparr>) m, b))))"

definition QuarantineCallback :: "('e, 'b) backend_ops \<Rightarrow> build_env \<Rightarrow> 'e \<Rightarrow> u32 \<Rightarrow> (memory \<times> 'b) quarantine_cb" where
  "QuarantineCallback ops bld e Cookie = \<lparr> cbAllocate = qc_allocate ops bld e Cookie, cbDeallocate = qc_deallocate ops bld e Cookie,
     cbRecycle = qc_recycle ops bld e Cookie \<rparr>"

section \<open>Allocation\<close>

text \<open>The class that a block comes from, each larger class being tried in turn; 0 when none has one.\<close>

function allocate_class :: "('e, 'b) backend_ops \<Rightarrow> 'e \<Rightarrow> nat \<Rightarrow> 'b \<Rightarrow> (nat \<times> uptr \<times> 'b) result" where
  "allocate_class ops e c b =
    bindR (boAllocate ops e c b) (\<lambda>(p, b). case p of Some p \<Rightarrow> Inr (c, p, b)
      | None \<Rightarrow> if c < boLargestClassId ops then allocate_class ops e (Suc c) b else Inr (0, 0, b))"
  by pat_completeness auto
termination by (relation "measure (\<lambda>(ops, e, c, b). boLargestClassId ops - c)") auto

declare allocate_class.simps [simp del]

definition fill_mode :: "'e call_env \<Rightarrow> bool \<Rightarrow> u32 \<Rightarrow> u32" where
  "fill_mode e ZeroContents Options = (if ZeroContents then ZeroFill else if ceDisableMemInit e then NoFill else getFillContentsMode Options)"

definition needed_size :: "uptr \<Rightarrow> uptr \<Rightarrow> uptr" where
  "needed_size Sz Alignment = roundUp Sz MinAlignment + (if MinAlignment < Alignment then Alignment else getHeaderSize)"

text \<open>The block for a request: its class, its address (0: none) and, for the secondary, its end.\<close>

definition allocate_block :: "('e, 'b) backend_ops \<Rightarrow> 'e call_env \<Rightarrow> uptr \<Rightarrow> uptr \<Rightarrow> u32 \<Rightarrow> 'b allocator \<Rightarrow>
    (nat \<times> uptr \<times> uptr \<times> 'b allocator) result option" where
  "allocate_block ops e Sz Alignment FillContents A =
    (let NeededSize = needed_size Sz Alignment in
     bindO (Some (if boCanAllocate ops NeededSize then allocate_class ops (ceBackend e) (boClassId ops NeededSize) (aBackend A)
                  else Inr (0, 0, aBackend A))) (\<lambda>(c, Block, b).
       if c \<noteq> 0 then Some (Inr (c, Block, 0, A\<lparr>aBackend := b\<rparr>))
       else bindO (boSecAllocate ops (ceBackend e) (aOptions A) Sz Alignment FillContents b) (\<lambda>(r, b, ev).
         let A = A\<lparr>aBackend := b, aMemory := events_memory ev (aMemory A)\<rparr> in
         case r of None \<Rightarrow> Some (Inr (0, 0, 0, A)) | Some (Block, BlockEnd) \<Rightarrow> Some (Inr (0, Block, BlockEnd, A)))))"

definition comb_allocate :: "('e, 'b) backend_ops \<Rightarrow> build_env \<Rightarrow> 'e call_env \<Rightarrow> uptr \<Rightarrow> Origin \<Rightarrow> uptr \<Rightarrow> bool \<Rightarrow> 'b allocator \<Rightarrow>
    (uptr \<times> 'b allocator) result option" where
  "comb_allocate ops bld e Sz Org Alignment ZeroContents A =
    (let Options = aOptions A; null = opt_get Options MayReturnNull in
     if MaxAlignment < Alignment then Some (if null then Inr (0, A) else Inl (AlignmentTooBig Alignment MaxAlignment))
     else let Alignment = (if Alignment < MinAlignment then MinAlignment else Alignment);
              FillContents = fill_mode e ZeroContents Options;
              NeededSize = needed_size Sz Alignment
     in if MaxAllowedMallocSize \<le> Sz then Some (if null then Inr (0, A) else Inl (AllocationSizeTooBig Sz NeededSize MaxAllowedMallocSize))
        else bindO (allocate_block ops e Sz Alignment FillContents A) (\<lambda>(c, Block, BlockEnd, A).
          if Block = 0 then Some (if null then Inr (0, A) else Inl (OutOfMemory NeededSize))
          else let UserPtr = roundUp (Block + getHeaderSize) Alignment;
                   SzOrUnused = (if c \<noteq> 0 then Sz else BlockEnd - (UserPtr + Sz))
               in Some (Inr (initChunk ops bld c Org Block UserPtr SzOrUnused FillContents A))))"

section \<open>Deallocation\<close>

text \<open>A chunk goes back to its back end at once, when the quarantine is off, or its size is 0 or too large,
  or it is of the secondary; else it goes to the quarantine.\<close>

definition bypass_quarantine :: "'b allocator \<Rightarrow> UnpackedHeader \<Rightarrow> uptr \<Rightarrow> bool" where
  "bypass_quarantine A Header Sz \<longleftrightarrow> getCacheSize (aQuarantine A) = 0 \<or> ucast (aQuarantineMaxChunkSize A) \<le> Sz - 1 \<or> ClassId Header = 0"

definition deallocate_block :: "('e, 'b) backend_ops \<Rightarrow> 'e call_env \<Rightarrow> nat \<Rightarrow> uptr \<Rightarrow> 'b allocator \<Rightarrow> 'b allocator result option" where
  "deallocate_block ops e c BlockBegin A =
    (if c \<noteq> 0 then
       Some (bindR (boDeallocate ops (ceBackend e) c BlockBegin (aBackend A)) (\<lambda>(CacheDrained, b).
         if CacheDrained then (case boTryRelease ops (ceBackend e) c b of (b, ev) \<Rightarrow>
           Inr (A\<lparr>aBackend := b, aMemory := events_memory ev (aMemory A)\<rparr>))
         else Inr (A\<lparr>aBackend := b\<rparr>)))
     else bindO (boSecDeallocate ops (ceBackend e) BlockBegin (aBackend A)) (\<lambda>(b, ev).
       Some (Inr (A\<lparr>aBackend := b, aMemory := events_memory ev (aMemory A)\<rparr>))))"

definition quarantine_chunk :: "('e, 'b) backend_ops \<Rightarrow> build_env \<Rightarrow> 'e call_env \<Rightarrow> uptr \<Rightarrow> uptr \<Rightarrow> 'b allocator \<Rightarrow> 'b allocator result" where
  "quarantine_chunk ops bld e Ptr Sz A =
    bindR (quarantine_put (QuarantineCallback ops bld (ceBackend e) (aCookie A)) (ceFrame e) (ceTryLock e) Ptr Sz
        (aQuarantineCaches A (ceTSD e), aQuarantine A, (aMemory A, aBackend A))) (\<lambda>(C, Q, (m, b)).
      Inr (A\<lparr>aQuarantineCaches := (aQuarantineCaches A)(ceTSD e := C), aQuarantine := Q, aMemory := m, aBackend := b\<rparr>))"

definition quarantineOrDeallocateChunk :: "('e, 'b) backend_ops \<Rightarrow> build_env \<Rightarrow> 'e call_env \<Rightarrow> uptr \<Rightarrow> UnpackedHeader \<Rightarrow> uptr \<Rightarrow>
    'b allocator \<Rightarrow> 'b allocator result option" where
  "quarantineOrDeallocateChunk ops bld e Ptr Header Sz A =
    (let Bypass = bypass_quarantine A Header Sz;
         Header = Header\<lparr>State := (if Bypass then Available else Quarantined), OriginOrWasZeroed := 0\<rparr>;
         A = A\<lparr>aMemory := mem_storeHeader (bHash bld) (aCookie A) Ptr Header (aMemory A)\<rparr>
     in if Bypass then deallocate_block ops e (unat (ClassId Header)) (getBlockBegin Ptr Header) A
        else Some (quarantine_chunk ops bld e Ptr Sz A))"

text \<open>The checks that a deallocation makes, and the size of the chunk.\<close>

definition check_deallocation :: "('e, 'b) backend_ops \<Rightarrow> build_env \<Rightarrow> uptr \<Rightarrow> Origin \<Rightarrow> uptr \<Rightarrow> 'b allocator \<Rightarrow>
    (UnpackedHeader \<times> uptr) result" where
  "check_deallocation ops bld Ptr Org DeleteSize A =
    (if \<not> isAligned Ptr MinAlignment then Inl (MisalignedPointer Deallocating Ptr)
     else bindR (loadHeader (bHash bld) (aCookie A) Ptr (words (aMemory A))) (\<lambda>Header.
       if State Header \<noteq> Allocated then Inl (InvalidChunkState Deallocating Ptr)
       else if opt_get (aOptions A) OptDeallocTypeMismatch \<and> OriginOrWasZeroed Header \<noteq> ucast (origin_val Org) \<and>
               (OriginOrWasZeroed Header \<noteq> ucast (origin_val Memalign) \<or> Org \<noteq> Malloc)
       then Inl (DeallocTypeMismatch Deallocating Ptr (ucast (OriginOrWasZeroed Header)) (origin_val Org))
       else let Sz = getSize ops (aBackend A) Ptr Header in
            if DeleteSize \<noteq> 0 \<and> opt_get (aOptions A) OptDeleteSizeMismatch \<and> DeleteSize \<noteq> Sz then Inl (DeleteSizeMismatch Ptr DeleteSize Sz)
            else Inr (Header, Sz)))"

definition comb_deallocate :: "('e, 'b) backend_ops \<Rightarrow> build_env \<Rightarrow> 'e call_env \<Rightarrow> uptr \<Rightarrow> Origin \<Rightarrow> uptr \<Rightarrow> 'b allocator \<Rightarrow>
    'b allocator result option" where
  "comb_deallocate ops bld e Ptr Org DeleteSize A =
    (if Ptr = 0 then Some (Inr A)
     else bindO (Some (check_deallocation ops bld Ptr Org DeleteSize A)) (\<lambda>(Header, Sz).
       quarantineOrDeallocateChunk ops bld e Ptr Header Sz A))"

section \<open>Reallocation\<close>

definition check_reallocation :: "build_env \<Rightarrow> uptr \<Rightarrow> 'b allocator \<Rightarrow> UnpackedHeader result" where
  "check_reallocation bld OldPtr A =
    (if \<not> isAligned OldPtr MinAlignment then Inl (MisalignedPointer Reallocating OldPtr)
     else bindR (loadHeader (bHash bld) (aCookie A) OldPtr (words (aMemory A))) (\<lambda>Header.
       if State Header \<noteq> Allocated then Inl (InvalidChunkState Reallocating OldPtr)
       else if opt_get (aOptions A) OptDeallocTypeMismatch \<and> OriginOrWasZeroed Header \<noteq> ucast (origin_val Malloc)
       then Inl (DeallocTypeMismatch Reallocating OldPtr (ucast (OriginOrWasZeroed Header)) (origin_val Malloc))
       else Inr Header))"

text \<open>The end of the block and the old size of a chunk.\<close>

definition block_extent :: "('e, 'b) backend_ops \<Rightarrow> 'b \<Rightarrow> uptr \<Rightarrow> UnpackedHeader \<Rightarrow> uptr \<times> uptr" where
  "block_extent ops b Ptr Header = (let BlockBegin = getBlockBegin Ptr Header in
    if ClassId Header \<noteq> 0 then (BlockBegin + boClassSize ops (unat (ClassId Header)), ucast (SizeOrUnusedBytes Header))
    else let BlockEnd = boBlockEnd ops b BlockBegin in (BlockEnd, BlockEnd - (Ptr + ucast (SizeOrUnusedBytes Header))))"

definition resize_in_place :: "build_env \<Rightarrow> 'e call_env \<Rightarrow> uptr \<Rightarrow> UnpackedHeader \<Rightarrow> uptr \<Rightarrow> uptr \<Rightarrow> uptr \<Rightarrow> 'b allocator \<Rightarrow> 'b allocator" where
  "resize_in_place bld e Ptr Header BlockEnd OldSize NewSize A =
    (let FillContents = fill_mode e False (aOptions A); m = aMemory A;
         m = (if NewSize < OldSize \<and> FillContents \<noteq> NoFill then memset (Ptr + NewSize) (fill_byte FillContents) (OldSize - NewSize) m else m);
         Header = Header\<lparr>SizeOrUnusedBytes := ucast ((if ClassId Header \<noteq> 0 then NewSize else BlockEnd - (Ptr + NewSize)) AND SizeOrUnusedBytesMask)\<rparr>
     in A\<lparr>aMemory := mem_storeHeader (bHash bld) (aCookie A) Ptr Header m\<rparr>)"

text \<open>The allocation of the new chunk and the deallocation of the old one are calls of their own.\<close>

definition comb_reallocate :: "('e, 'b) backend_ops \<Rightarrow> build_env \<Rightarrow> 'e call_env \<Rightarrow> 'e call_env \<Rightarrow> uptr \<Rightarrow> uptr \<Rightarrow> uptr \<Rightarrow> 'b allocator \<Rightarrow>
    (uptr \<times> 'b allocator) result option" where
  "comb_reallocate ops bld e e' OldPtr NewSize Alignment A =
    (if MaxAllowedMallocSize \<le> NewSize then
       Some (if opt_get (aOptions A) MayReturnNull then Inr (0, A) else Inl (AllocationSizeTooBig NewSize 0 MaxAllowedMallocSize))
     else bindO (Some (check_reallocation bld OldPtr A)) (\<lambda>Header.
       let (BlockEnd, OldSize) = block_extent ops (aBackend A) OldPtr Header in
       if OldPtr + NewSize \<le> BlockEnd \<and> (OldSize < NewSize \<or> OldSize - NewSize < bPageSize bld)
       then Some (Inr (OldPtr, resize_in_place bld e OldPtr Header BlockEnd OldSize NewSize A))
       else bindO (comb_allocate ops bld e NewSize Malloc Alignment False A) (\<lambda>(NewPtr, A).
         if NewPtr = 0 then Some (Inr (0, A))
         else let A = A\<lparr>aMemory := memcpy NewPtr OldPtr (min NewSize OldSize) (aMemory A)\<rparr>
              in bindO (quarantineOrDeallocateChunk ops bld e' OldPtr Header OldSize A) (\<lambda>A. Some (Inr (NewPtr, A))))))"

section \<open>Queries\<close>

definition getAllocSize :: "('e, 'b) backend_ops \<Rightarrow> build_env \<Rightarrow> uptr \<Rightarrow> 'b allocator \<Rightarrow> uptr result" where
  "getAllocSize ops bld Ptr A =
    bindR (loadHeader (bHash bld) (aCookie A) Ptr (words (aMemory A))) (\<lambda>Header.
      if State Header \<noteq> Allocated then Inl (InvalidChunkState Sizing Ptr) else Inr (getSize ops (aBackend A) Ptr Header))"

definition getUsableSize :: "('e, 'b) backend_ops \<Rightarrow> build_env \<Rightarrow> uptr \<Rightarrow> 'b allocator \<Rightarrow> uptr result" where
  "getUsableSize ops bld Ptr A = (if Ptr = 0 then Inr 0 else getAllocSize ops bld Ptr A)"

definition isOwned :: "build_env \<Rightarrow> uptr \<Rightarrow> 'b allocator \<Rightarrow> bool" where
  "isOwned bld Ptr A \<longleftrightarrow> Ptr \<noteq> 0 \<and> isAligned Ptr MinAlignment \<and>
    (case isValid (bHash bld) (aCookie A) Ptr (words (aMemory A)) of (ok, Header) \<Rightarrow> ok \<and> State Header = Allocated)"

definition isPrimaryAllocationPtr :: "build_env \<Rightarrow> uptr \<Rightarrow> 'b allocator \<Rightarrow> bool result" where
  "isPrimaryAllocationPtr bld Ptr A =
    (if Ptr = 0 \<or> \<not> isAligned Ptr MinAlignment then Inr False
     else bindR (loadHeader (bHash bld) (aCookie A) Ptr (words (aMemory A))) (\<lambda>Header.
       Inr (State Header = Allocated \<and> ClassId Header \<noteq> 0)))"

text \<open>Finding the chunk of a block, and the calls of the callback that an iteration makes.\<close>

definition getChunkOffsetFromBlock :: "uptr \<Rightarrow> memory \<Rightarrow> uptr" where
  "getChunkOffsetFromBlock Block m = ucast (if read32 m Block = BlockMarker then read32 m (Block + 4) else 0) + getHeaderSize"

definition getChunkFromBlock :: "build_env \<Rightarrow> uptr \<Rightarrow> 'b allocator \<Rightarrow> bool \<times> uptr \<times> UnpackedHeader" where
  "getChunkFromBlock bld Block A =
    (let Chunk = Block + getChunkOffsetFromBlock Block (aMemory A);
         (ok, Header) = isValid (bHash bld) (aCookie A) Chunk (words (aMemory A))
     in (ok, Chunk, Header))"

definition chunk_call :: "('e, 'b) backend_ops \<Rightarrow> build_env \<Rightarrow> uptr \<Rightarrow> uptr \<Rightarrow> 'b allocator \<Rightarrow> uptr \<Rightarrow> (uptr \<times> uptr) list" where
  "chunk_call ops bld From To A Block =
    (if Block < From \<or> To \<le> Block then []
     else case getChunkFromBlock bld Block A of (ok, Chunk, Header) \<Rightarrow>
       if ok \<and> State Header = Allocated then [(Chunk, getSize ops (aBackend A) Chunk Header)] else [])"

definition iterateOverChunks :: "('e, 'b) backend_ops \<Rightarrow> build_env \<Rightarrow> uptr \<Rightarrow> uptr \<Rightarrow> 'b allocator \<Rightarrow> (uptr \<times> uptr) list option" where
  "iterateOverChunks ops bld Base Sz A = map_option (\<lambda>L. concat (map (chunk_call ops bld Base (Base + Sz) A) L)) (boBlocks ops (aBackend A))"

section \<open>Draining\<close>

text \<open>drainCache of one TSD.\<close>

definition comb_drainCache :: "('e, 'b) backend_ops \<Rightarrow> build_env \<Rightarrow> 'e call_env \<Rightarrow> 'b allocator \<Rightarrow> 'b allocator result option" where
  "comb_drainCache ops bld e A =
    bindO (Some (quarantine_drainAndRecycle (QuarantineCallback ops bld (ceBackend e) (aCookie A)) (ceFrame e)
        (aQuarantineCaches A (ceTSD e), aQuarantine A, (aMemory A, aBackend A)))) (\<lambda>(C, Q, (m, b)).
    bindO (boDrain ops (ceBackend e) b) (\<lambda>b.
      Some (Inr (A\<lparr>aQuarantineCaches := (aQuarantineCaches A)(ceTSD e := C), aQuarantine := Q, aMemory := m, aBackend := b\<rparr>))))"

definition setFillContents :: "u32 \<Rightarrow> 'b allocator \<Rightarrow> 'b allocator" where
  "setFillContents FillContents A = A\<lparr>aOptions := setFillContentsMode FillContents (aOptions A)\<rparr>"

definition setAddLargeAllocationSlack :: "bool \<Rightarrow> 'b allocator \<Rightarrow> 'b allocator" where
  "setAddLargeAllocationSlack AddSlack A = A\<lparr>aOptions :=
     (if AddSlack then opt_set AddLargeAllocationSlack (aOptions A) else opt_clear AddLargeAllocationSlack (aOptions A))\<rparr>"

definition canReturnNull :: "'b allocator \<Rightarrow> bool" where
  "canReturnNull A \<longleftrightarrow> opt_get (aOptions A) MayReturnNull"

end
