(* ===== verification/Combined_Heap.thy ===== *)
theory Combined_Heap
  imports Combined
begin

text \<open>The chunks of the combined allocator: every block that the back ends have handed out holds exactly
  one chunk, whose header is in memory in front of it. The back ends enter by their contract.\<close>

section \<open>Blocks and chunks\<close>

type_synonym chunks = "uptr \<rightharpoonup> UnpackedHeader"

definition block_end :: "('e, 'b) backend_ops \<Rightarrow> 'b \<Rightarrow> nat \<times> uptr \<Rightarrow> uptr" where
  "block_end ops b x = (if fst x \<noteq> 0 then snd x + boClassSize ops (fst x) else boBlockEnd ops b (snd x))"

definition block_set :: "('e, 'b) backend_ops \<Rightarrow> 'b \<Rightarrow> nat \<times> uptr \<Rightarrow> uptr set" where
  "block_set ops b x = bytes_at (snd x) (unat (block_end ops b x - snd x))"

definition chunk_block :: "uptr \<Rightarrow> UnpackedHeader \<Rightarrow> nat \<times> uptr" where
  "chunk_block p h = (unat (ClassId h), getBlockBegin p h)"

text \<open>The bytes that belong to the user of a chunk.\<close>

definition user_bytes :: "('e, 'b) backend_ops \<Rightarrow> 'b \<Rightarrow> uptr \<Rightarrow> UnpackedHeader \<Rightarrow> uptr set" where
  "user_bytes ops b p h = bytes_at p (unat (getSize ops b p h))"

text \<open>The chunk lies in its block behind its header.\<close>

definition in_block :: "('e, 'b) backend_ops \<Rightarrow> 'b \<Rightarrow> uptr \<Rightarrow> UnpackedHeader \<Rightarrow> bool" where
  "in_block ops b p h \<longleftrightarrow> isAligned p 16 \<and> unat (getBlockBegin p h) + 16 \<le> unat p \<and>
     unat p + unat (getSize ops b p h) \<le> unat (block_end ops b (chunk_block p h))"

definition heap_ok :: "('e, 'b) backend_ops \<Rightarrow> hash_env \<Rightarrow> ('b \<Rightarrow> (nat \<times> uptr) set) \<Rightarrow> u32 \<Rightarrow> chunks \<Rightarrow> memory \<times> 'b \<Rightarrow> bool" where
  "heap_ok ops H used Cookie Hd = (\<lambda>(m, b).
     (\<forall>p h. Hd p = Some h \<longrightarrow> has_header H Cookie p h m \<and> in_block ops b p h) \<and>
     bij_betw (\<lambda>p. chunk_block p (the (Hd p))) (dom Hd) (used b))"

text \<open>The blocks X keep their ends.\<close>

definition ends_kept :: "('e, 'b) backend_ops \<Rightarrow> 'b \<Rightarrow> 'b \<Rightarrow> (nat \<times> uptr) set \<Rightarrow> bool" where
  "ends_kept ops b b' X \<longleftrightarrow> (\<forall>x\<in>X. block_end ops b' x = block_end ops b x)"

lemma ends_keptD: "ends_kept ops b b' X \<Longrightarrow> x \<in> X \<Longrightarrow> block_end ops b' x = block_end ops b x"
  by (simp add: ends_kept_def)

lemma ends_kept_set: "ends_kept ops b b' X \<Longrightarrow> x \<in> X \<Longrightarrow> block_set ops b' x = block_set ops b x"
  by (simp add: ends_kept_def block_set_def)

lemma ends_kept_size:
  assumes "block_end ops b' (chunk_block p h) = block_end ops b (chunk_block p h)"
  shows "getSize ops b' p h = getSize ops b p h" "in_block ops b' p h = in_block ops b p h" "user_bytes ops b' p h = user_bytes ops b p h"
proof -
  show g: "getSize ops b' p h = getSize ops b p h"
    using assms by (simp add: getSize_def block_end_def chunk_block_def unat_eq_zero split: if_splits)
  show "in_block ops b' p h = in_block ops b p h" "user_bytes ops b' p h = user_bytes ops b p h"
    unfolding in_block_def user_bytes_def g assms by simp_all
qed

text \<open>Where the parts of a chunk are.\<close>

lemma header_in_block:
  assumes "in_block ops b p h"
  shows "bytes_at (getAtomicHeader p) 8 \<subseteq> block_set ops b (chunk_block p h)"
    and "user_bytes ops b p h \<subseteq> block_set ops b (chunk_block p h)"
    and "bytes_at (getAtomicHeader p) 8 \<inter> user_bytes ops b p h = {}"
    and "getAtomicHeader p \<in> block_set ops b (chunk_block p h)"
proof -
  let ?B = "getBlockBegin p h" and ?E = "block_end ops b (chunk_block p h)"
  have i: "unat ?B + 16 \<le> unat p" "unat p + unat (getSize ops b p h) \<le> unat ?E" using assms by (simp_all add: in_block_def)
  have a: "unat (getAtomicHeader p) = unat p - 16"
  proof -
    have "unat (16 :: uptr) \<le> unat p" using i(1) by simp
    then show ?thesis unfolding getAtomicHeader_def getHeaderSize_16 by (subst unat_sub) (simp_all add: word_le_nat_alt)
  qed
  have s: "unat (?E - ?B) = unat ?E - unat ?B" using i by (subst unat_sub) (simp_all add: word_le_nat_alt)
  have E: "unat ?E < 2 ^ 64" using unat_less_exp [of ?E] by simp
  have bs: "block_set ops b (chunk_block p h) = bytes_at ?B (unat ?E - unat ?B)"
    by (simp add: block_set_def s [simplified] chunk_block_def [of p h])
      (use s in \<open>simp add: chunk_block_def\<close>)
  show 1: "bytes_at (getAtomicHeader p) 8 \<subseteq> block_set ops b (chunk_block p h)"
    unfolding bs using i a E by (intro bytes_at_subset) simp_all
  show "user_bytes ops b p h \<subseteq> block_set ops b (chunk_block p h)"
    unfolding bs user_bytes_def using i E by (intro bytes_at_subset) simp_all
  show "bytes_at (getAtomicHeader p) 8 \<inter> user_bytes ops b p h = {}"
    unfolding user_bytes_def using i a E by (intro bytes_at_disjoint) simp_all
  show "getAtomicHeader p \<in> block_set ops b (chunk_block p h)" using 1 by (rule subsetD) (simp add: bytes_at_def)
qed

section \<open>Maps that are bijections\<close>

lemma bij_map_cong: "(\<And>q. q \<in> A \<Longrightarrow> M q = N q) \<Longrightarrow> bij_betw (\<lambda>q. f q (the (M q))) A U = bij_betw (\<lambda>q. f q (the (N q))) A U"
  by (rule bij_betw_cong) simp

lemma bij_map_add:
  assumes "bij_betw (\<lambda>q. f q (the (M q))) (dom M) U" and "M p = None" and "f p h \<notin> U"
  shows "bij_betw (\<lambda>q. f q (the ((M(p \<mapsto> h)) q))) (dom (M(p \<mapsto> h))) (insert (f p h) U)"
proof -
  let ?g = "\<lambda>q. f q (the ((M(p \<mapsto> h)) q))"
  have p: "p \<notin> dom M" using assms(2) by auto
  have "(M(p \<mapsto> h)) q = M q" if "q \<in> dom M" for q using that p by auto
  from bij_map_cong [of "dom M" "M(p \<mapsto> h)" M f U, OF this] have "bij_betw ?g (dom M) U" using assms(1) by blast
  moreover have "?g p = f p h" by simp
  ultimately have "bij_betw ?g (insert p (dom M)) (insert (f p h) U)"
    using p assms(3) notIn_Un_bij_betw [of p "dom M" ?g U] by simp
  then show ?thesis by simp
qed

lemma bij_map_remove:
  assumes "bij_betw (\<lambda>q. f q (the (M q))) (dom M) U" and "M p = Some h"
  shows "bij_betw (\<lambda>q. f q (the ((M(p := None)) q))) (dom (M(p := None))) (U - {f p h})"
proof -
  have "p \<in> dom M" using assms(2) by auto
  then have "bij_betw (\<lambda>q. f q (the (M q))) (dom M - {p}) (U - {f p (the (M p))})"
    using bij_betw_subset [OF assms(1), of "dom M - {p}"] assms(1)
    by (simp add: bij_betw_def inj_on_image_set_diff [of "\<lambda>q. f q (the (M q))" "dom M"])
  then have "bij_betw (\<lambda>q. f q (the ((M(p := None)) q))) (dom M - {p}) (U - {f p h})"
    using bij_map_cong [of "dom M - {p}" "M(p := None)" M f "U - {f p h}"] assms(2) by simp
  then show ?thesis by simp
qed

lemma bij_map_change:
  assumes "bij_betw (\<lambda>q. f q (the (M q))) (dom M) U" and "M p = Some h" and "f p h' = f p h"
  shows "bij_betw (\<lambda>q. f q (the ((M(p \<mapsto> h')) q))) (dom (M(p \<mapsto> h'))) U"
proof -
  have "dom (M(p \<mapsto> h')) = dom M" using assms(2) by auto
  moreover have "f q (the ((M(p \<mapsto> h')) q)) = f q (the (M q))" for q using assms(2,3) by simp
  ultimately show ?thesis using assms(1) by simp
qed

section \<open>The contract of the back ends\<close>

text \<open>used: the blocks handed out, each with its class, 0 for the secondary; env_ok: what the operations ask
  of the platform; reserve_ok: what a new mapping may use; err: the reports that the back ends may end in.\<close>

locale combined_backend =
  fixes ops :: "('e, 'b) backend_ops" and binv :: "'b \<Rightarrow> bool" and used :: "'b \<Rightarrow> (nat \<times> uptr) set"
    and env_ok :: "'e \<Rightarrow> bool" and reserve_ok :: "'e \<Rightarrow> 'b \<Rightarrow> bool" and err :: "report \<Rightarrow> bool"
  assumes used_block: "binv b \<Longrightarrow> x \<in> used b \<Longrightarrow> fst x \<le> boLargestClassId ops \<and> snd x \<noteq> 0 \<and> isAligned (snd x) 16 \<and>
      unat (snd x) + 16 \<le> unat (block_end ops b x) \<and> unat (block_end ops b x) < 2 ^ 63"
    and used_disjoint: "binv b \<Longrightarrow> x \<in> used b \<Longrightarrow> y \<in> used b \<Longrightarrow> x \<noteq> y \<Longrightarrow> block_set ops b x \<inter> block_set ops b y = {}"
    and allocate_law: "\<lbrakk> binv b; env_ok e; 0 < c; c \<le> boLargestClassId ops \<rbrakk> \<Longrightarrow> (case boAllocate ops e c b of Inl r \<Rightarrow> err r
      | Inr (q, b') \<Rightarrow> binv b' \<and> ends_kept ops b b' (used b) \<and> (\<forall>e. reserve_ok e b \<longrightarrow> reserve_ok e b') \<and>
          (case q of None \<Rightarrow> used b' = used b | Some p \<Rightarrow> (c, p) \<notin> used b \<and> used b' = insert (c, p) (used b)))"
    and deallocate_law: "\<lbrakk> binv b; env_ok e; (c, p) \<in> used b; 0 < c \<rbrakk> \<Longrightarrow> (case boDeallocate ops e c p b of Inl r \<Rightarrow> err r
      | Inr (_, b') \<Rightarrow> binv b' \<and> ends_kept ops b b' (used b) \<and> used b' = used b - {(c, p)})"
    and release_law: "\<lbrakk> binv b; env_ok e; 0 < c; c \<le> boLargestClassId ops; boTryRelease ops e c b = (b', ev) \<rbrakk> \<Longrightarrow>
      binv b' \<and> ends_kept ops b b' (used b) \<and> used b' = used b \<and>
      (\<forall>x\<in>used b. block_set ops b x \<inter> events_bytes ev = {})"
    and drain_law: "\<lbrakk> binv b; env_ok e \<rbrakk> \<Longrightarrow> \<exists>r. boDrain ops e b = Some r \<and> (case r of Inl x \<Rightarrow> err x
      | Inr b' \<Rightarrow> binv b' \<and> ends_kept ops b b' (used b) \<and> used b' = used b)"
    and sec_allocate_law: "\<lbrakk> binv b; env_ok e; reserve_ok e b; unat Sz < 2 ^ 40; 4 \<le> a; a \<le> 24 \<rbrakk> \<Longrightarrow>
      \<exists>r b' ev. boSecAllocate ops e opt Sz (2 ^ a) Fill b = Some (Inr (r, b', ev)) \<and> binv b' \<and> ends_kept ops b b' (used b) \<and>
        (\<forall>x\<in>used b. block_set ops b x \<inter> events_bytes ev = {}) \<and>
        (case r of None \<Rightarrow> used b' = used b
         | Some (B, E) \<Rightarrow> (0, B) \<notin> used b \<and> used b' = insert (0, B) (used b) \<and> E = boBlockEnd ops b' B \<and>
             unat B + 16 + unat Sz \<le> unat E \<and> unat E < unat B + 16 + unat Sz + 2 ^ a + 16 \<and> isAligned (B + 16) (2 ^ a))"
    and sec_deallocate_law: "\<lbrakk> binv b; env_ok e; (0, p) \<in> used b \<rbrakk> \<Longrightarrow>
      \<exists>b' ev. boSecDeallocate ops e p b = Some (Inr (b', ev)) \<and> binv b' \<and> ends_kept ops b b' (used b) \<and>
        used b' = used b - {(0, p)} \<and>
        (\<forall>x\<in>used b'. block_set ops b x \<inter> events_bytes ev = {})"
    and class_fits: "boCanAllocate ops Sz \<Longrightarrow> 0 < boClassId ops Sz \<and> boClassId ops Sz \<le> boLargestClassId ops \<and>
      unat Sz \<le> unat (boClassSize ops (boClassId ops Sz))"
    and class_mono: "\<lbrakk> 0 < c; c \<le> d; d \<le> boLargestClassId ops \<rbrakk> \<Longrightarrow> unat (boClassSize ops c) \<le> unat (boClassSize ops d)"
    and class_bounds: "\<lbrakk> 0 < c; c \<le> boLargestClassId ops \<rbrakk> \<Longrightarrow> unat (boClassSize ops c) < 2 ^ 20"
    and largest_class: "boLargestClassId ops < 0x53"
    and out_of_memory: "err (OutOfMemory n)"
    and quarantine_class: "boCanAllocate ops (sizeof_QuarantineBatch + getHeaderSize)"
    and blocks_law: "binv b \<Longrightarrow> \<exists>L. boBlocks ops b = Some L \<and> snd ` used b \<subseteq> set L \<and> distinct L"
begin

abbreviation "ok H ck Hd \<equiv> heap_ok ops H used ck Hd"

text \<open>Different chunks have disjoint blocks, so disjoint headers and contents.\<close>

lemma chunk_facts:
  assumes "ok H ck Hd (m, b)" and "binv b" and "Hd p = Some h"
  shows "has_header H ck p h m" "in_block ops b p h" "chunk_block p h \<in> used b"
    and "Hd q = Some g \<Longrightarrow> p \<noteq> q \<Longrightarrow> chunk_block q g \<noteq> chunk_block p h \<and> block_set ops b (chunk_block p h) \<inter> block_set ops b (chunk_block q g) = {}"
proof -
  show p: "has_header H ck p h m" "in_block ops b p h" using assms by (simp_all add: heap_ok_def)
  have bij: "bij_betw (\<lambda>p. chunk_block p (the (Hd p))) (dom Hd) (used b)" using assms(1) by (simp add: heap_ok_def)
  have "p \<in> dom Hd" using assms(3) by auto
  then show u: "chunk_block p h \<in> used b" using bspec [OF bij_betwE [OF bij], of p] assms(3) by simp
  assume q: "Hd q = Some g" "p \<noteq> q"
  then have d: "q \<in> dom Hd" by auto
  have "chunk_block q g \<in> used b" using bspec [OF bij_betwE [OF bij] d] q(1) by simp
  moreover have n: "chunk_block q g \<noteq> chunk_block p h"
  proof
    assume "chunk_block q g = chunk_block p h"
    then have "chunk_block p (the (Hd p)) = chunk_block q (the (Hd q))" using q(1) assms(3) by simp
    from inj_onD [OF bij_betw_imp_inj_on [OF bij] this] d assms(3) q(2) show False by auto
  qed
  ultimately show "chunk_block q g \<noteq> chunk_block p h \<and> block_set ops b (chunk_block p h) \<inter> block_set ops b (chunk_block q g) = {}"
    using used_disjoint [OF assms(2) u] by auto
qed

lemma used_chunk:
  assumes "ok H ck Hd (m, b)" and "x \<in> used b"
  obtains p h where "Hd p = Some h" "x = chunk_block p h"
proof -
  have "x \<in> (\<lambda>p. chunk_block p (the (Hd p))) ` dom Hd" using assms by (auto simp: heap_ok_def bij_betw_def)
  then obtain p where "p \<in> dom Hd" "x = chunk_block p (the (Hd p))" by auto
  then show thesis using that by auto
qed

text \<open>A chunk whose block is not touched.\<close>

lemma chunk_kept:
  assumes ok: "ok H ck Hd (m, b)" and b: "binv b" and q: "Hd q = Some g"
    and e: "ends_kept ops b b' (used b)" and Y: "chunk_block q g \<in> Y" and same: "same_on (\<Union>x\<in>Y. block_set ops b x) m m'"
  shows "has_header H ck q g m'" "in_block ops b' q g"
proof -
  note f = chunk_facts [OF ok b q]
  have "bytes_at (getAtomicHeader q) 8 \<subseteq> (\<Union>x\<in>Y. block_set ops b x)" using header_in_block(1) [OF f(2)] Y by blast
  from has_header_same [OF f(1) same_on_mono [OF same this]] show "has_header H ck q g m'" .
  show "in_block ops b' q g" using f(2) ends_kept_size(2) [OF ends_keptD [OF e f(3)]] by simp
qed

text \<open>The ways in which the heap changes: a chunk in a new block, a chunk less, a chunk that changes in its
  block, and changes elsewhere.\<close>

lemma heap_add:
  assumes ok: "ok H ck Hd (m, b)" and b: "binv b" "binv b'" and e: "ends_kept ops b b' (used b)"
    and x: "chunk_block p h \<notin> used b" "used b' = insert (chunk_block p h) (used b)"
    and same: "same_on (\<Union>x\<in>used b. block_set ops b x) m m'" and new: "has_header H ck p h m'" "in_block ops b' p h"
  shows "Hd p = None" "ok H ck (Hd(p \<mapsto> h)) (m', b')"
proof -
  show np: "Hd p = None"
  proof (rule ccontr)
    assume "Hd p \<noteq> None"
    then obtain g where g: "Hd p = Some g" by auto
    note f = chunk_facts [OF ok b(1) g]
    have "getAtomicHeader p \<in> block_set ops b' (chunk_block p g)"
      using header_in_block(4) [OF f(2)] ends_kept_set [OF e f(3)] by simp
    moreover have "getAtomicHeader p \<in> block_set ops b' (chunk_block p h)" by (rule header_in_block(4) [OF new(2)])
    moreover have "chunk_block p g \<noteq> chunk_block p h" using f(3) x(1) by metis
    moreover have "chunk_block p g \<in> used b'" "chunk_block p h \<in> used b'" using f(3) x(2) by simp_all
    ultimately show False using used_disjoint [OF b(2), of "chunk_block p g" "chunk_block p h"] by blast
  qed
  have "has_header H ck q g m' \<and> in_block ops b' q g" if q: "Hd q = Some g" for q g
    using chunk_kept [OF ok b(1) q e chunk_facts(3) [OF ok b(1) q] same] by blast
  moreover have "bij_betw (\<lambda>q. chunk_block q (the ((Hd(p \<mapsto> h)) q))) (dom (Hd(p \<mapsto> h))) (used b')"
    unfolding x(2) by (rule bij_map_add [where f = chunk_block and M = Hd, OF _ np x(1)]) (use ok in \<open>simp add: heap_ok_def\<close>)
  ultimately show "ok H ck (Hd(p \<mapsto> h)) (m', b')" using new unfolding heap_ok_def by (simp del: dom_fun_upd)
qed

lemma heap_remove:
  assumes ok: "ok H ck Hd (m, b)" and b: "binv b" and e: "ends_kept ops b b' (used b)"
    and p: "Hd p = Some h" and x: "used b' = used b - {chunk_block p h}"
    and same: "same_on (\<Union>x\<in>used b'. block_set ops b x) m m'"
  shows "ok H ck (Hd(p := None)) (m', b')"
proof -
  have "has_header H ck q g m' \<and> in_block ops b' q g" if q: "Hd q = Some g" "q \<noteq> p" for q g
  proof -
    have "chunk_block q g \<in> used b'"
      using chunk_facts(3) [OF ok b q(1)] chunk_facts(4) [OF ok b p q(1)] q(2) by (simp add: x)
    from chunk_kept [OF ok b q(1) e this same] show ?thesis by blast
  qed
  moreover have "bij_betw (\<lambda>q. chunk_block q (the ((Hd(p := None)) q))) (dom (Hd(p := None))) (used b')"
    unfolding x by (rule bij_map_remove [where f = chunk_block and M = Hd, OF _ p]) (use ok in \<open>simp add: heap_ok_def\<close>)
  ultimately show ?thesis unfolding heap_ok_def by (simp del: dom_fun_upd)
qed

lemma ends_kept_refl: "ends_kept ops b b X"
  by (simp add: ends_kept_def)

lemma heap_change:
  assumes ok: "ok H ck Hd (m, b)" and b: "binv b" and p: "Hd p = Some h" and x: "chunk_block p h' = chunk_block p h"
    and same: "same_on (- block_set ops b (chunk_block p h)) m m'" and new: "has_header H ck p h' m'" "in_block ops b p h'"
  shows "ok H ck (Hd(p \<mapsto> h')) (m', b)"
proof -
  have "has_header H ck q g m' \<and> in_block ops b q g" if q: "Hd q = Some g" "q \<noteq> p" for q g
  proof -
    have "block_set ops b (chunk_block q g) \<subseteq> - block_set ops b (chunk_block p h)"
      using chunk_facts(4) [OF ok b p q(1)] q(2) by blast
    then have "same_on (\<Union>x\<in>{chunk_block q g}. block_set ops b x) m m'" using same_on_mono [OF same] by simp
    from chunk_kept [OF ok b q(1) ends_kept_refl _ this] show ?thesis by simp
  qed
  moreover have "bij_betw (\<lambda>q. chunk_block q (the ((Hd(p \<mapsto> h')) q))) (dom (Hd(p \<mapsto> h'))) (used b)"
    by (rule bij_map_change [where f = chunk_block and M = Hd, OF _ p x]) (use ok in \<open>simp add: heap_ok_def\<close>)
  ultimately show ?thesis using new unfolding heap_ok_def by (simp del: dom_fun_upd)
qed

lemma heap_frame:
  assumes ok: "ok H ck Hd (m, b)" and b: "binv b" and e: "ends_kept ops b b' (used b)" and u: "used b' = used b"
    and same: "same_on (\<Union>x\<in>used b. block_set ops b x) m m'"
  shows "ok H ck Hd (m', b')"
proof -
  have "has_header H ck q g m' \<and> in_block ops b' q g" if q: "Hd q = Some g" for q g
    using chunk_kept [OF ok b q e chunk_facts(3) [OF ok b q] same] by blast
  then show ?thesis using ok u unfolding heap_ok_def by simp
qed

end

end
