(* ===== verification/Combined_Quarantine.thy ===== *)
theory Combined_Quarantine
  imports Combined_Heap
begin

text \<open>The callback of the quarantine keeps the heap in order: recycling a chunk gives its block back, and the
  batches of the quarantine are chunks of their own.\<close>

lemma mset_set_take:
  fixes p :: "'a::finite"
  assumes "mset_set A = add_mset p M"
  shows "p \<in> A" "p \<notin># M" "mset_set (A - {p}) = M"
proof -
  have f: "finite A" by simp
  have "p \<in># mset_set A" using assms by simp
  then show p: "p \<in> A" using f by simp
  have m: "mset_set A = add_mset p (mset_set (A - {p}))" using mset_set.remove [OF f p] .
  then show e: "mset_set (A - {p}) = M" using assms by simp
  show "p \<notin># M" unfolding e [symmetric] by simp
qed

lemma getHeaderSize_word: "getHeaderSize = 16"
  by (rule getHeaderSize_16)

lemma aligned_add:
  assumes "isAligned x 16" and "unat x + 16 < 2 ^ 64"
  shows "isAligned (x + 16) 16" "unat (x + 16) = unat x + 16"
proof -
  show u: "unat (x + 16) = unat x + 16" using assms(2) by (subst unat_add_lem [THEN iffD1]) simp_all
  show "isAligned (x + 16) 16" using assms(1) isAligned_exp [of x 4] isAligned_exp [of "x + 16" 4] u by simp
qed

definition parts :: "('e, 'b) backend_ops \<Rightarrow> chunks \<Rightarrow> chunks \<Rightarrow> uptr multiset \<Rightarrow> uptr multiset \<Rightarrow> bool" where
  "parts ops Hd L X B \<longleftrightarrow> L \<subseteq>\<^sub>m Hd \<and> mset_set (dom Hd) = mset_set (dom L) + X + B \<and>
     (\<forall>p\<in>#X. \<exists>h. Hd p = Some h \<and> State h = Quarantined \<and> ClassId h \<noteq> 0) \<and>
     (\<forall>p\<in>#B. \<exists>h. Hd p = Some h \<and> State h = Allocated \<and> ClassId h = of_nat (QuarantineClassId ops) \<and> Offset h = 0)"

context combined_backend
begin

definition keeps :: "chunks \<Rightarrow> memory \<times> 'b \<Rightarrow> memory \<times> 'b \<Rightarrow> bool" where
  "keeps L S S' \<longleftrightarrow> (\<forall>p h. L p = Some h \<longrightarrow> block_end ops (snd S') (chunk_block p h) = block_end ops (snd S) (chunk_block p h) \<and>
     same_on (block_set ops (snd S) (chunk_block p h)) (fst S) (fst S'))"

lemma live_keeps_refl [simp]: "keeps L S S"
  by (simp add: keeps_def)

lemma live_keeps_trans: "keeps L S S' \<Longrightarrow> keeps L S' S'' \<Longrightarrow> keeps L S S''"
  unfolding keeps_def block_set_def same_on_def by metis

lemma keeps_mono: "keeps L S S' \<Longrightarrow> L' \<subseteq>\<^sub>m L \<Longrightarrow> keeps L' S S'"
  unfolding keeps_def map_le_def by (metis domI)

lemma keepsI:
  assumes "ok H ck Hd (m, b)" and "binv b" and "L \<subseteq>\<^sub>m Hd" and "ends_kept ops b b' (used b)"
    and "\<And>p h. L p = Some h \<Longrightarrow> chunk_block p h \<in> Y" and "same_on (\<Union>x\<in>Y. block_set ops b x) m m'"
  shows "keeps L (m, b) (m', b')"
  unfolding keeps_def
proof (intro allI impI conjI)
  fix p h assume p: "L p = Some h"
  then have "Hd p = Some h" using assms(3) by (metis domI map_le_def)
  from ends_keptD [OF assms(4) chunk_facts(3) [OF assms(1,2) this]]
  show "block_end ops (snd (m', b')) (chunk_block p h) = block_end ops (snd (m, b)) (chunk_block p h)" by simp
  show "same_on (block_set ops (snd (m, b)) (chunk_block p h)) (fst (m, b)) (fst (m', b'))"
    using same_on_mono [OF assms(6), of "block_set ops b (chunk_block p h)"] assms(5) [OF p] by auto
qed

text \<open>The state while the quarantine works: the live chunks L have stayed as they were in the state S0.\<close>

definition holds :: "hash_env \<Rightarrow> 'e \<Rightarrow> u32 \<Rightarrow> chunks \<Rightarrow> memory \<times> 'b \<Rightarrow> uptr multiset \<Rightarrow> uptr multiset \<Rightarrow> memory \<times> 'b \<Rightarrow> bool" where
  "holds H e ck L S0 X B S \<longleftrightarrow> env_ok e \<and> binv (snd S) \<and> keeps L S0 S \<and>
     (\<exists>Hd. ok H ck Hd S \<and> parts ops Hd L X B)"

text \<open>A chunk that is not live goes.\<close>

lemma parts_take:
  assumes "parts ops Hd L X B" and "mset_set (dom L) + X + B = add_mset p (mset_set (dom L) + X' + B')" and "X' \<subseteq># X" "B' \<subseteq># B"
  shows "p \<in> dom Hd" "p \<notin> dom L" "parts ops (Hd(p := None)) L X' B'"
proof -
  have d: "mset_set (dom Hd) = add_mset p (mset_set (dom L) + X' + B')" using assms(1,2) by (simp add: parts_def)
  note t = mset_set_take [OF d]
  show "p \<in> dom Hd" by (rule t(1))
  show np: "p \<notin> dom L" using t(2) by simp
  have "L \<subseteq>\<^sub>m Hd(p := None)" using assms(1) np by (auto simp: parts_def map_le_def)
  moreover have "p \<notin># X'" "p \<notin># B'" using t(2) by simp_all
  moreover have "q \<in># X" if "q \<in># X'" for q using mset_subset_eqD [OF assms(3) that] .
  moreover have "q \<in># B" if "q \<in># B'" for q using mset_subset_eqD [OF assms(4) that] .
  ultimately show "parts ops (Hd(p := None)) L X' B'"
    using assms(1) t(3) unfolding parts_def by (intro conjI) (simp, simp, (metis fun_upd_other)+)
qed

lemma live_block_stays:
  assumes "ok H ck Hd (m, b)" "binv b" "L \<subseteq>\<^sub>m Hd" "Hd p = Some h" "p \<notin> dom L" "L q = Some g"
  shows "chunk_block q g \<in> used b - {chunk_block p h}"
proof -
  have q: "Hd q = Some g" using assms(3,6) by (metis domI map_le_def)
  have "p \<noteq> q" using assms(5,6) by auto
  then show ?thesis using chunk_facts(3,4) [OF assms(1,2)] q assms(4) by blast
qed

text \<open>Writing the header of a chunk leaves the other blocks alone.\<close>

lemma store_elsewhere:
  assumes "ok H ck Hd (m, b)" "binv b" "Hd p = Some h"
  shows "same_on (- block_set ops b (chunk_block p h)) m (mem_storeHeader H ck p g m)"
    and "same_on (\<Union>x\<in>used b - {chunk_block p h}. block_set ops b x) m (mem_storeHeader H ck p g m)"
proof -
  note f = chunk_facts [OF assms]
  have a: "bytes_at (getAtomicHeader p) 8 \<subseteq> block_set ops b (chunk_block p h)" using header_in_block(1) [OF f(2)] .
  then show 1: "same_on (- block_set ops b (chunk_block p h)) m (mem_storeHeader H ck p g m)" by (intro stored_same_on) blast
  have "(\<Union>x\<in>used b - {chunk_block p h}. block_set ops b x) \<subseteq> - block_set ops b (chunk_block p h)"
    using used_disjoint [OF assms(2) f(3)] by blast
  from same_on_mono [OF 1 this] show "same_on (\<Union>x\<in>used b - {chunk_block p h}. block_set ops b x) m (mem_storeHeader H ck p g m)" .
qed

text \<open>A chunk that is not live is given back.\<close>

lemma give_back:
  assumes h: "holds H e ck L S0 X B (m, b)" and Hd: "ok H ck Hd (m, b)" "parts ops Hd L X B"
    and t: "mset_set (dom L) + X + B = add_mset p (mset_set (dom L) + X' + B')" "X' \<subseteq># X" "B' \<subseteq># B"
    and p: "Hd p = Some h" and c: "ClassId h \<noteq> 0"
  shows "case boDeallocate ops e (unat (ClassId h)) (getBlockBegin p h) b of Inl r \<Rightarrow> err r
    | Inr (_, b') \<Rightarrow> holds H e ck L S0 X' B' (mem_storeHeader H ck p g m, b')"
proof -
  have b: "binv b" "env_ok e" "keeps L S0 (m, b)" using h by (simp_all add: holds_def)
  note q = parts_take [OF Hd(2) t] and f = chunk_facts [OF Hd(1) b(1) p]
  have u: "(unat (ClassId h), getBlockBegin p h) \<in> used b" using f(3) by (simp add: chunk_block_def)
  have "0 < unat (ClassId h)" using c by (simp add: unat_gt_0)
  note d = deallocate_law [OF b(1,2) u this]
  have L: "L \<subseteq>\<^sub>m Hd" using Hd(2) by (simp add: parts_def)
  show ?thesis
  proof (cases "boDeallocate ops e (unat (ClassId h)) (getBlockBegin p h) b")
    case (Inl r)
    then show ?thesis using d by simp
  next
    case (Inr y)
    obtain x b' where y: "y = (x, b')" by (rule prod.exhaust)
    have d: "binv b'" "ends_kept ops b b' (used b)" "used b' = used b - {chunk_block p h}"
      using d Inr by (simp_all add: y chunk_block_def)
    note s = store_elsewhere [OF Hd(1) b(1) p, of g]
    have "ok H ck (Hd(p := None)) (mem_storeHeader H ck p g m, b')"
      using heap_remove [OF Hd(1) b(1) d(2) p d(3)] s(2) by (simp add: d(3))
    moreover have "keeps L (m, b) (mem_storeHeader H ck p g m, b')"
      by (rule keepsI [OF Hd(1) b(1) L d(2) live_block_stays [OF Hd(1) b(1) L p q(2)] s(2)])
    then have "keeps L S0 (mem_storeHeader H ck p g m, b')" by (rule live_keeps_trans [OF b(3)])
    ultimately show ?thesis using q(3) d(1) b(2) unfolding Inr y sum.case prod.case holds_def by auto
  qed
qed

text \<open>The three laws of the callback.\<close>

lemma loads:
  assumes "has_header H ck p h m"
  shows "loadHeader H ck p (words m) = Inr (h\<lparr>hChecksum := computeHeaderChecksum H ck p h\<rparr>)"
  by (rule has_header_loads(1) [OF assms])

lemma getBlockBegin_cong [simp]:
  "getBlockBegin p (h\<lparr>hChecksum := x\<rparr>) = getBlockBegin p h" "getBlockBegin p (h\<lparr>State := s\<rparr>) = getBlockBegin p h"
  "getBlockBegin p (h\<lparr>OriginOrWasZeroed := o'\<rparr>) = getBlockBegin p h" "getBlockBegin p (h\<lparr>SizeOrUnusedBytes := z\<rparr>) = getBlockBegin p h"
  by (simp_all add: getBlockBegin_def)

lemma quarantine_class_ok: "0 < QuarantineClassId ops" "QuarantineClassId ops \<le> boLargestClassId ops"
  "8192 \<le> unat (boClassSize ops (QuarantineClassId ops))"
  "unat (of_nat (QuarantineClassId ops) :: 8 word) = QuarantineClassId ops" "(of_nat (QuarantineClassId ops) :: 8 word) \<noteq> 0"
proof -
  have z: "unat (sizeof_QuarantineBatch + getHeaderSize) = 8192" by (simp add: sizeof_QuarantineBatch_def getHeaderSize_16)
  show 1: "0 < QuarantineClassId ops" "QuarantineClassId ops \<le> boLargestClassId ops" "8192 \<le> unat (boClassSize ops (QuarantineClassId ops))"
    using class_fits [OF quarantine_class] unfolding z QuarantineClassId_def by simp_all
  show "unat (of_nat (QuarantineClassId ops) :: 8 word) = QuarantineClassId ops"
    using 1(2) largest_class by (simp add: unat_of_nat)
  then show "(of_nat (QuarantineClassId ops) :: 8 word) \<noteq> 0" using 1(1) by auto
qed

lemma class_block_end:
  assumes "binv b" "(c, p) \<in> used b" "0 < c"
  shows "unat (block_end ops b (c, p)) = unat p + unat (boClassSize ops c)" "isAligned p 16" "unat p + unat (boClassSize ops c) < 2 ^ 64"
proof -
  have u: "unat p + 16 \<le> unat (block_end ops b (c, p))" "isAligned p 16" using used_block [OF assms(1,2)] by simp_all
  have e: "block_end ops b (c, p) = p + boClassSize ops c" using assms(3) by (simp add: block_end_def)
  have lt: "unat p + unat (boClassSize ops c) < 2 ^ 64"
  proof (rule ccontr)
    assume n: "\<not> unat p + unat (boClassSize ops c) < 2 ^ 64"
    have "unat (p + boClassSize ops c) = unat p + unat (boClassSize ops c) - 2 ^ 64"
      using n by (simp add: unat_plus_if_size word_size)
    then show False using u(1) e unat_less_exp [of "boClassSize ops c"] by simp
  qed
  then show "unat (block_end ops b (c, p)) = unat p + unat (boClassSize ops c)" unfolding e
    by (subst unat_add_lem [THEN iffD1]) simp_all
  show "isAligned p 16" "unat p + unat (boClassSize ops c) < 2 ^ 64" using u(2) lt by simp_all
qed

lemma recycle_holds:
  assumes "holds H e ck L S0 (add_mset p X) B S" and bld: "bHash bld = H"
  shows "case qc_recycle ops bld e ck p S of Inl r \<Rightarrow> err r | Inr S' \<Rightarrow> holds H e ck L S0 X B S'"
proof -
  obtain m b where S: "S = (m, b)" by (rule prod.exhaust)
  obtain Hd where Hd: "ok H ck Hd (m, b)" "parts ops Hd L (add_mset p X) B" using assms(1) by (auto simp: holds_def S)
  obtain h where h: "Hd p = Some h" "State h = Quarantined" "ClassId h \<noteq> 0" using Hd(2) by (auto simp: parts_def)
  have b: "binv b" using assms(1) by (simp add: holds_def S)
  let ?h = "h\<lparr>hChecksum := computeHeaderChecksum H ck p h, State := Available\<rparr>"
  note l = loads [OF chunk_facts(1) [OF Hd(1) b h(1)]]
  have e: "qc_recycle ops bld e ck p S = bindR (boDeallocate ops e (unat (ClassId h)) (getBlockBegin p h) b)
      (\<lambda>(_, b). Inr (mem_storeHeader H ck p ?h m, b))"
    unfolding qc_recycle_def S prod.case bld l bindR.simps by (simp add: h(2) Let_def)
  have "mset_set (dom L) + add_mset p X + B = add_mset p (mset_set (dom L) + X + B)" by simp
  note g = give_back [OF assms(1) [unfolded S] Hd this _ _ h(1,3), of ?h]
  show ?thesis using g unfolding e
    by (cases "boDeallocate ops e (unat (ClassId h)) (getBlockBegin p h) b") auto
qed

lemma deallocate_holds:
  assumes "holds H e ck L S0 X (add_mset p B) S" and bld: "bHash bld = H"
  shows "case qc_deallocate ops bld e ck p S of Inl r \<Rightarrow> err r | Inr S' \<Rightarrow> holds H e ck L S0 X B S'"
proof -
  obtain m b where S: "S = (m, b)" by (rule prod.exhaust)
  obtain Hd where Hd: "ok H ck Hd (m, b)" "parts ops Hd L X (add_mset p B)" using assms(1) by (auto simp: holds_def S)
  obtain h where h: "Hd p = Some h" "State h = Allocated" "ClassId h = of_nat (QuarantineClassId ops)" "Offset h = 0" using Hd(2) by (auto simp: parts_def)
  have b: "binv b" using assms(1) by (simp add: holds_def S)
  let ?h = "h\<lparr>hChecksum := computeHeaderChecksum H ck p h, State := Available\<rparr>"
  note l = loads [OF chunk_facts(1) [OF Hd(1) b h(1)]]
  have u: "unat (ClassId h) = QuarantineClassId ops" "getBlockBegin p h = p - getHeaderSize" "ClassId h \<noteq> 0"
    using h(3,4) quarantine_class_ok(4,5) by (simp_all add: getBlockBegin_def)
  have e: "qc_deallocate ops bld e ck p S = bindR (boDeallocate ops e (unat (ClassId h)) (getBlockBegin p h) b)
      (\<lambda>(_, b). Inr (mem_storeHeader H ck p ?h m, b))"
    unfolding qc_deallocate_def S prod.case bld l bindR.simps u(1,2) by (simp add: h(2))
  have "mset_set (dom L) + X + add_mset p B = add_mset p (mset_set (dom L) + X + B)" by simp
  note g = give_back [OF assms(1) [unfolded S] Hd this _ _ h(1) u(3), of ?h]
  show ?thesis using g unfolding e
    by (cases "boDeallocate ops e (unat (ClassId h)) (getBlockBegin p h) b") auto
qed

text \<open>A chunk in a new block of a class.\<close>

lemma new_chunk:
  assumes h: "holds H e ck L S0 X B (m, b)" and Hd: "ok H ck Hd (m, b)" "parts ops Hd L X B"
    and b': "binv b'" "ends_kept ops b b' (used b)" "used b' = insert (chunk_block p g) (used b)" "chunk_block p g \<notin> used b"
    and m: "same_on (\<Union>x\<in>used b. block_set ops b x) m m'" "has_header H ck p g m'" "in_block ops b' p g"
  shows "Hd p = None" "ok H ck (Hd(p \<mapsto> g)) (m', b')" "keeps L S0 (m', b')" "mset_set (dom (Hd(p \<mapsto> g))) = add_mset p (mset_set (dom Hd))"
proof -
  have b: "binv b" "keeps L S0 (m, b)" using h by (simp_all add: holds_def)
  note a = heap_add [OF Hd(1) b(1) b'(1,2,4,3) m]
  show "Hd p = None" "ok H ck (Hd(p \<mapsto> g)) (m', b')" by (rule a)+
  have L: "L \<subseteq>\<^sub>m Hd" using Hd(2) by (simp add: parts_def)
  have "chunk_block q k \<in> used b" if "L q = Some k" for q k
    using chunk_facts(3) [OF Hd(1) b(1), of q k] L that by (metis domI map_le_def)
  from keepsI [OF Hd(1) b(1) L b'(2) this m(1)] show "keeps L S0 (m', b')" by (rule live_keeps_trans [OF b(2)])
  have "p \<notin> dom Hd" using a(1) by auto
  then show "mset_set (dom (Hd(p \<mapsto> g))) = add_mset p (mset_set (dom Hd))" by (simp add: mset_set.insert)
qed

lemma allocate_holds:
  assumes "holds H e ck L S0 X B S" and bld: "bHash bld = H"
  shows "case qc_allocate ops bld e ck sizeof_QuarantineBatch S of Inl r \<Rightarrow> err r | Inr (p, S') \<Rightarrow> holds H e ck L S0 X (add_mset p B) S'"
proof -
  obtain m b where S: "S = (m, b)" by (rule prod.exhaust)
  let ?c = "QuarantineClassId ops"
  have h: "env_ok e" "binv b" "keeps L S0 (m, b)" using assms(1) by (simp_all add: holds_def S)
  obtain Hd where Hd: "ok H ck Hd (m, b)" "parts ops Hd L X B" using assms(1) by (auto simp: holds_def S)
  note q = quarantine_class_ok and law = allocate_law [OF h(2,1) quarantine_class_ok(1,2)]
  show ?thesis
  proof (cases "boAllocate ops e ?c b")
    case (Inl r)
    then show ?thesis using law by (simp add: qc_allocate_def S)
  next
    case (Inr y)
    obtain z b' where y: "y = (z, b')" by (rule prod.exhaust)
    show ?thesis
    proof (cases z)
      case None
      then show ?thesis using Inr out_of_memory by (simp add: qc_allocate_def S y)
    next
      case (Some p)
      have l: "binv b'" "ends_kept ops b b' (used b)" "(?c, p) \<notin> used b" "used b' = insert (?c, p) (used b)"
        using law Inr by (simp_all add: y Some)
      let ?h = "batch_header ops" and ?p = "p + getHeaderSize"
      have p: "unat (block_end ops b' (?c, p)) = unat p + unat (boClassSize ops ?c)" "isAligned p 16" "unat p + unat (boClassSize ops ?c) < 2 ^ 64"
        using class_block_end [OF l(1) _ q(1), of p] l(4) by simp_all
      have x: "chunk_block ?p ?h = (?c, p)" "getBlockBegin ?p ?h = p" using q(4) by (simp_all add: chunk_block_def batch_header_def getBlockBegin_def)
      have gs: "getSize ops b' ?p ?h = 8176" using q(5) by (simp add: getSize_def batch_header_def sizeof_QuarantineBatch_def)
      have "unat p + 16 < 2 ^ 64" using p(3) q(3) by simp
      note al = aligned_add [OF p(2) this]
      have ib: "in_block ops b' ?p ?h" unfolding in_block_def x gs p(1) unfolding getHeaderSize_16 al(2) using al(1) q(3) by simp
      let ?m = "mem_storeHeader H ck ?p ?h m"
      have "bytes_at (getAtomicHeader ?p) 8 \<subseteq> block_set ops b' (?c, p)" using header_in_block(1) [OF ib] by (simp add: x)
      moreover have "block_set ops b' (?c, p) \<inter> block_set ops b y = {}" if "y \<in> used b" for y
        using used_disjoint [OF l(1), of "(?c, p)" y] ends_kept_set [OF l(2) that] that l(3,4) by auto
      ultimately have s: "same_on (\<Union>x\<in>used b. block_set ops b x) m ?m" by (intro stored_same_on) blast
      note n = new_chunk [OF assms(1) [unfolded S] Hd l(1,2) _ _ s has_header_stored ib, unfolded x, OF l(4,3)]
      have e: "qc_allocate ops bld e ck sizeof_QuarantineBatch S = Inr (?p, ?m, b')"
        unfolding qc_allocate_def S prod.case Inr y bindR.simps Some bld by (simp add: Let_def)
      have "parts ops (Hd(?p \<mapsto> ?h)) L X (add_mset ?p B)"
        unfolding parts_def
      proof (intro conjI)
        show "L \<subseteq>\<^sub>m Hd(?p \<mapsto> ?h)" using Hd(2) n(1) unfolding parts_def map_le_def by (metis domIff fun_upd_other)
        show "mset_set (dom (Hd(?p \<mapsto> ?h))) = mset_set (dom L) + X + add_mset ?p B" using Hd(2) n(4) by (simp add: parts_def)
        show "\<forall>q\<in>#X. \<exists>g. (Hd(?p \<mapsto> ?h)) q = Some g \<and> State g = Quarantined \<and> ClassId g \<noteq> 0"
          using Hd(2) n(1) unfolding parts_def by (metis fun_upd_other option.distinct(1))
        show "\<forall>q\<in>#add_mset ?p B. \<exists>g. (Hd(?p \<mapsto> ?h)) q = Some g \<and> State g = Allocated \<and> ClassId g = of_nat ?c \<and> Offset g = 0"
          using Hd(2) n(1) unfolding parts_def by (auto simp: batch_header_def)
      qed
      then show ?thesis unfolding e sum.case prod.case holds_def using h(1) l(1) n(2,3) by auto
    qed
  qed
qed

sublocale qc: quarantine_callback "QuarantineCallback ops bld e ck" "holds (bHash bld) e ck L S0" err for bld e ck L S0
proof unfold_locales
  fix X A S
  assume "holds (bHash bld) e ck L S0 X A S"
  from allocate_holds [OF this refl]
  show "case cbAllocate (QuarantineCallback ops bld e ck) sizeof_QuarantineBatch S of Inl r \<Rightarrow> err r
      | Inr (B, S') \<Rightarrow> holds (bHash bld) e ck L S0 X (add_mset B A) S'"
    by (simp add: QuarantineCallback_def)
next
  fix X B A S
  assume "holds (bHash bld) e ck L S0 X (add_mset B A) S"
  from deallocate_holds [OF this refl]
  show "case cbDeallocate (QuarantineCallback ops bld e ck) B S of Inl r \<Rightarrow> err r | Inr S' \<Rightarrow> holds (bHash bld) e ck L S0 X A S'"
    by (simp add: QuarantineCallback_def)
next
  fix p X A S
  assume "holds (bHash bld) e ck L S0 (add_mset p X) A S"
  from recycle_holds [OF this refl]
  show "case cbRecycle (QuarantineCallback ops bld e ck) p S of Inl r \<Rightarrow> err r | Inr S' \<Rightarrow> holds (bHash bld) e ck L S0 X A S'"
    by (simp add: QuarantineCallback_def)
qed

end

end
