(* ===== verification/Combined_Free.thy ===== *)
theory Combined_Free
  imports Combined_Quarantine
begin

text \<open>The invariant of the combined allocator, and deallocation, which keeps it: of the live chunks only the
  one that is freed goes, and the blocks of the others are not touched.\<close>

section \<open>Live chunks, waiting chunks and batches\<close>

definition waiting_ptrs :: "nat \<Rightarrow> 'b allocator \<Rightarrow> uptr multiset" where
  "waiting_ptrs n A = (\<Sum>t<n. ptrs_of (qcList (aQuarantineCaches A t))) + ptrs_of (qcList (gqCache (aQuarantine A)))"

definition waiting_batches :: "nat \<Rightarrow> 'b allocator \<Rightarrow> uptr multiset" where
  "waiting_batches n A = (\<Sum>t<n. addrs_of (qcList (aQuarantineCaches A t))) + addrs_of (qcList (gqCache (aQuarantine A)))"

definition quarantines_ok :: "nat \<Rightarrow> 'b allocator \<Rightarrow> bool" where
  "quarantines_ok n A \<longleftrightarrow> (\<forall>t<n. qcache_ok (aQuarantineCaches A t)) \<and> qcache_ok (gqCache (aQuarantine A))"

abbreviation comb_state :: "'b allocator \<Rightarrow> memory \<times> 'b" where
  "comb_state A \<equiv> (aMemory A, aBackend A)"

lemma waiting_split:
  assumes "t < n"
  shows "waiting_ptrs n A = (\<Sum>u\<in>{..<n} - {t}. ptrs_of (qcList (aQuarantineCaches A u))) + ptrs_of (qcList (aQuarantineCaches A t)) + ptrs_of (qcList (gqCache (aQuarantine A)))"
    and "waiting_batches n A = (\<Sum>u\<in>{..<n} - {t}. addrs_of (qcList (aQuarantineCaches A u))) + addrs_of (qcList (aQuarantineCaches A t)) + addrs_of (qcList (gqCache (aQuarantine A)))"
proof -
  have "(\<Sum>u<n. f u) = (\<Sum>u\<in>{..<n} - {t}. f u) + f t" for f :: "nat \<Rightarrow> uptr multiset"
    using assms by (simp add: sum.remove [of "{..<n}" t] add.commute)
  then show "waiting_ptrs n A = (\<Sum>u\<in>{..<n} - {t}. ptrs_of (qcList (aQuarantineCaches A u))) + ptrs_of (qcList (aQuarantineCaches A t)) + ptrs_of (qcList (gqCache (aQuarantine A)))"
    "waiting_batches n A = (\<Sum>u\<in>{..<n} - {t}. addrs_of (qcList (aQuarantineCaches A u))) + addrs_of (qcList (aQuarantineCaches A t)) + addrs_of (qcList (gqCache (aQuarantine A)))"
    by (simp_all add: waiting_ptrs_def waiting_batches_def)
qed

lemma parts_live:
  assumes "parts ops Hd L X B" and "L p = Some h"
  shows "Hd p = Some h" "p \<notin># X" "p \<notin># B" "mset_set (dom Hd) = add_mset p (mset_set (dom L - {p}) + X + B)"
proof -
  show "Hd p = Some h" using assms unfolding parts_def map_le_def by (metis domI)
  have "p \<in> dom L" using assms(2) by auto
  then have "mset_set (dom L) = add_mset p (mset_set (dom L - {p}))" by (simp add: mset_set.remove)
  then show e: "mset_set (dom Hd) = add_mset p (mset_set (dom L - {p}) + X + B)" using assms(1) by (simp add: parts_def)
  show "p \<notin># X" "p \<notin># B" using mset_set_take(2) [OF e] by simp_all
qed

lemma parts_change:
  assumes pt: "parts ops Hd L X B" and p: "L p = Some h"
  shows "parts ops (Hd(p := None)) (L(p := None)) X B"
    and "State h' = Quarantined \<Longrightarrow> ClassId h' \<noteq> 0 \<Longrightarrow> parts ops (Hd(p \<mapsto> h')) (L(p := None)) (add_mset p X) B"
    and "parts ops (Hd(p \<mapsto> h')) (L(p \<mapsto> h')) X B"
proof -
  note l = parts_live [OF pt p]
  have d: "dom (L(p := None)) = dom L - {p}" "dom (Hd(p := None)) = dom Hd - {p}" by auto
  have d': "dom (Hd(p \<mapsto> h')) = dom Hd" "dom (L(p \<mapsto> h')) = dom L" using l(1) p by auto
  have X: "\<exists>h. (Hd(p := z)) q = Some h \<and> State h = Quarantined \<and> ClassId h \<noteq> 0" if "q \<in># X" for q z
    using pt l(2) that unfolding parts_def by (metis fun_upd_other)
  have B: "\<exists>h. (Hd(p := z)) q = Some h \<and> State h = Allocated \<and> ClassId h = of_nat (QuarantineClassId ops) \<and> Offset h = 0" if "q \<in># B" for q z
    using pt l(3) that unfolding parts_def by (metis fun_upd_other)
  have le: "L(p := None) \<subseteq>\<^sub>m Hd(p := z)" for z using pt unfolding parts_def map_le_def by auto
  have le': "L(p \<mapsto> h') \<subseteq>\<^sub>m Hd(p \<mapsto> h')" using pt unfolding parts_def map_le_def by auto
  show "parts ops (Hd(p := None)) (L(p := None)) X B"
    unfolding parts_def d using X B le mset_set_take(3) [OF l(4)] by auto
  show "parts ops (Hd(p \<mapsto> h')) (L(p \<mapsto> h')) X B"
    unfolding parts_def d' using X B le' pt by (auto simp: parts_def)
  show "parts ops (Hd(p \<mapsto> h')) (L(p := None)) (add_mset p X) B" if h': "State h' = Quarantined" "ClassId h' \<noteq> 0"
    unfolding parts_def d d'
  proof (intro conjI ballI)
    show "L(p := None) \<subseteq>\<^sub>m Hd(p \<mapsto> h')" by (rule le)
    show "mset_set (dom Hd) = mset_set (dom L - {p}) + add_mset p X + B" unfolding l(4) by simp
    show "\<exists>h. (Hd(p \<mapsto> h')) q = Some h \<and> State h = Quarantined \<and> ClassId h \<noteq> 0" if "q \<in># add_mset p X" for q
      using X [of q "Some h'"] h' that by (cases "q = p") auto
    show "\<exists>h. (Hd(p \<mapsto> h')) q = Some h \<and> State h = Allocated \<and> ClassId h = of_nat (QuarantineClassId ops) \<and> Offset h = 0" if "q \<in># B" for q
      by (rule B [OF that])
  qed
qed

lemma parts_add:
  assumes pt: "parts ops Hd L X B" and p: "Hd p = None"
  shows "parts ops (Hd(p \<mapsto> h)) (L(p \<mapsto> h)) X B" "L p = None"
proof -
  show l: "L p = None" using pt p unfolding parts_def map_le_def by (metis domIff)
  have d: "mset_set (dom (Hd(p \<mapsto> h))) = add_mset p (mset_set (dom Hd))" "mset_set (dom (L(p \<mapsto> h))) = add_mset p (mset_set (dom L))"
    using p l by (simp_all add: mset_set.insert domIff)
  have "L(p \<mapsto> h) \<subseteq>\<^sub>m Hd(p \<mapsto> h)" using pt unfolding parts_def map_le_def by auto
  moreover have "(Hd(p \<mapsto> h)) q = Hd q" if "Hd q \<noteq> None" for q using p that by auto
  ultimately show "parts ops (Hd(p \<mapsto> h)) (L(p \<mapsto> h)) X B"
    using pt unfolding parts_def d by (intro conjI) (simp, simp, (metis option.distinct(1))+)
qed

context combined_backend
begin

definition comb_inv :: "nat \<Rightarrow> build_env \<Rightarrow> 'b allocator \<Rightarrow> chunks \<Rightarrow> bool" where
  "comb_inv n bld A L \<longleftrightarrow> binv (aBackend A) \<and> quarantines_ok n A \<and> (\<forall>p h. L p = Some h \<longrightarrow> State h = Allocated) \<and>
     (\<exists>Hd. ok (bHash bld) (aCookie A) Hd (comb_state A) \<and> parts ops Hd L (waiting_ptrs n A) (waiting_batches n A))"

text \<open>From A to A' the live chunks L kept their blocks, and the settings are the same.\<close>

definition undisturbed :: "chunks \<Rightarrow> 'b allocator \<Rightarrow> 'b allocator \<Rightarrow> bool" where
  "undisturbed L A A' \<longleftrightarrow> keeps L (comb_state A) (comb_state A') \<and>
     aCookie A' = aCookie A \<and> aOptions A' = aOptions A \<and> aQuarantineMaxChunkSize A' = aQuarantineMaxChunkSize A"

lemma comb_invE:
  assumes "comb_inv n bld A L"
  obtains Hd where "ok (bHash bld) (aCookie A) Hd (comb_state A)" "parts ops Hd L (waiting_ptrs n A) (waiting_batches n A)"
    "binv (aBackend A)" "quarantines_ok n A"
  using assms by (auto simp: comb_inv_def)

lemma live_chunk:
  assumes "comb_inv n bld A L" and "L p = Some h"
  shows "has_header (bHash bld) (aCookie A) p h (aMemory A)" "in_block ops (aBackend A) p h" "chunk_block p h \<in> used (aBackend A)"
    "State h = Allocated"
    and "L q = Some g \<Longrightarrow> p \<noteq> q \<Longrightarrow> block_set ops (aBackend A) (chunk_block p h) \<inter> block_set ops (aBackend A) (chunk_block q g) = {}"
proof -
  obtain Hd where Hd: "ok (bHash bld) (aCookie A) Hd (comb_state A)" "parts ops Hd L (waiting_ptrs n A) (waiting_batches n A)"
    "binv (aBackend A)" using assms(1) by (rule comb_invE)
  note f = chunk_facts [OF Hd(1,3) parts_live(1) [OF Hd(2) assms(2)]]
  show "has_header (bHash bld) (aCookie A) p h (aMemory A)" "in_block ops (aBackend A) p h" "chunk_block p h \<in> used (aBackend A)"
    by (rule f)+
  show "State h = Allocated" using assms by (simp add: comb_inv_def)
  show "block_set ops (aBackend A) (chunk_block p h) \<inter> block_set ops (aBackend A) (chunk_block q g) = {}"
    if "L q = Some g" "p \<noteq> q"
    using f(4) [OF parts_live(1) [OF Hd(2) that(1)] that(2)] by blast
qed

text \<open>Only the memory and the back ends change.\<close>

definition same_settings :: "'b allocator \<Rightarrow> 'b allocator \<Rightarrow> bool" where
  "same_settings A A' \<longleftrightarrow> aCookie A' = aCookie A \<and> aOptions A' = aOptions A \<and> aQuarantineMaxChunkSize A' = aQuarantineMaxChunkSize A \<and>
     aQuarantine A' = aQuarantine A \<and> aQuarantineCaches A' = aQuarantineCaches A"

lemma comb_invI:
  assumes "comb_inv n bld A L0" and "same_settings A A'" and "\<And>p h. L p = Some h \<Longrightarrow> State h = Allocated"
    and "binv (aBackend A')" and "ok (bHash bld) (aCookie A) Hd (comb_state A')" and "parts ops Hd L (waiting_ptrs n A) (waiting_batches n A)"
  shows "comb_inv n bld A' L"
proof -
  have w: "waiting_ptrs n A' = waiting_ptrs n A" "waiting_batches n A' = waiting_batches n A" "quarantines_ok n A' = quarantines_ok n A" "aCookie A' = aCookie A"
    using assms(2) by (simp_all add: same_settings_def waiting_ptrs_def waiting_batches_def quarantines_ok_def)
  have "quarantines_ok n A" using assms(1) by (simp add: comb_inv_def)
  then show ?thesis unfolding comb_inv_def w using assms(3-6) by blast
qed

lemma live_allocated: "comb_inv n bld A L \<Longrightarrow> L p = Some h \<Longrightarrow> State h = Allocated"
  by (simp add: comb_inv_def)

lemma undisturbedI: "same_settings A A' \<Longrightarrow> keeps L (comb_state A) (comb_state A') \<Longrightarrow> undisturbed L A A'"
  by (simp add: undisturbed_def same_settings_def)

text \<open>A live chunk goes at once.\<close>

lemma remove_chunk:
  assumes inv: "comb_inv n bld A L" and p: "L p = Some h" and A': "same_settings A A'" "comb_state A' = (m', b')"
    and b': "binv b'" "ends_kept ops (aBackend A) b' (used (aBackend A))" "used b' = used (aBackend A) - {chunk_block p h}"
    and same: "same_on (\<Union>x\<in>used b'. block_set ops (aBackend A) x) (aMemory A) m'"
  shows "comb_inv n bld A' (L(p := None))" "undisturbed (L(p := None)) A A'"
proof -
  obtain Hd where Hd: "ok (bHash bld) (aCookie A) Hd (comb_state A)" "parts ops Hd L (waiting_ptrs n A) (waiting_batches n A)"
    "binv (aBackend A)" using inv by (rule comb_invE)
  note hp = parts_live(1) [OF Hd(2) p]
  have r: "ok (bHash bld) (aCookie A) (Hd(p := None)) (m', b')" by (rule heap_remove [OF Hd(1,3) b'(2) hp b'(3) same])
  have L: "L(p := None) \<subseteq>\<^sub>m Hd" using Hd(2) unfolding parts_def map_le_def by auto
  have "p \<notin> dom (L(p := None))" by simp
  from keepsI [OF Hd(1,3) L b'(2) live_block_stays [OF Hd(1,3) L hp this] same [unfolded b'(3)]]
  show "undisturbed (L(p := None)) A A'" using A' by (intro undisturbedI) simp_all
  show "comb_inv n bld A' (L(p := None))"
  proof (rule comb_invI [OF inv A'(1) _ _ _ parts_change(1) [OF Hd(2) p]])
    show "State g = Allocated" if "(L(p := None)) q = Some g" for q g
      using live_allocated [OF inv, of q g] that by (simp split: if_splits)
    show "binv (aBackend A')" "ok (bHash bld) (aCookie A) (Hd(p := None)) (comb_state A')" using A'(2) b'(1) r by simp_all
  qed
qed

lemma undisturbed_refl [simp]: "undisturbed L A A"
  by (simp add: undisturbed_def)

lemma undisturbed_trans: "undisturbed L A A' \<Longrightarrow> undisturbed L A' A'' \<Longrightarrow> undisturbed L A A''"
  unfolding undisturbed_def using live_keeps_trans by metis

lemma undisturbed_mono: "undisturbed L A A' \<Longrightarrow> L' \<subseteq>\<^sub>m L \<Longrightarrow> undisturbed L' A A'"
  unfolding undisturbed_def using keeps_mono by metis

text \<open>Changes that do not touch the blocks in use.\<close>

lemma frame_chunks:
  assumes inv: "comb_inv n bld A L" and A': "same_settings A A'" "comb_state A' = (m', b')"
    and b': "binv b'" "ends_kept ops (aBackend A) b' (used (aBackend A))" "used b' = used (aBackend A)"
    and same: "same_on (\<Union>x\<in>used (aBackend A). block_set ops (aBackend A) x) (aMemory A) m'"
  shows "comb_inv n bld A' L" "undisturbed L A A'"
proof -
  obtain Hd where Hd: "ok (bHash bld) (aCookie A) Hd (comb_state A)" "parts ops Hd L (waiting_ptrs n A) (waiting_batches n A)"
    "binv (aBackend A)" using inv by (rule comb_invE)
  have L: "L \<subseteq>\<^sub>m Hd" using Hd(2) by (simp add: parts_def)
  from keepsI [OF Hd(1,3) L b'(2) live_chunk(3) [OF inv] same]
  show "undisturbed L A A'" using A' by (intro undisturbedI) simp_all
  note r = heap_frame [OF Hd(1,3) b'(2,3) same]
  show "comb_inv n bld A' L"
    by (rule comb_invI [OF inv A'(1) live_allocated [OF inv] _ _ Hd(2)]) (use A'(2) b'(1) r in simp_all)
qed

text \<open>What the quarantine leaves behind.\<close>

lemma waits_comb_inv:
  assumes t: "t < n" and o: "quarantines_ok n A" and st: "\<forall>p h. L p = Some h \<longrightarrow> State h = Allocated"
    and w: "qc.waits bld e (aCookie A) L S X B C' Q' (m', b')"
    and X: "X = (\<Sum>u\<in>{..<n} - {t}. ptrs_of (qcList (aQuarantineCaches A u)))" "B = (\<Sum>u\<in>{..<n} - {t}. addrs_of (qcList (aQuarantineCaches A u)))"
    and A': "aQuarantineCaches A' = (aQuarantineCaches A)(t := C')" "aQuarantine A' = Q'" "aMemory A' = m'" "aBackend A' = b'" "aCookie A' = aCookie A"
  shows "comb_inv n bld A' L" "keeps L S (m', b')"
proof -
  have q: "qcache_ok C'" "qcache_ok (gqCache Q')"
    "holds (bHash bld) e (aCookie A) L S (X + ptrs_of (qcList C') + ptrs_of (qcList (gqCache Q'))) (B + addrs_of (qcList C') + addrs_of (qcList (gqCache Q'))) (m', b')"
    using w by (simp_all add: qc.waits_def)
  show "keeps L S (m', b')" using q(3) by (simp add: holds_def)
  have s: "waiting_ptrs n A' = X + ptrs_of (qcList C') + ptrs_of (qcList (gqCache Q'))"
    "waiting_batches n A' = B + addrs_of (qcList C') + addrs_of (qcList (gqCache Q'))"
    unfolding waiting_split [OF t] A' X by (simp_all cong: sum.cong_simp)
  have "quarantines_ok n A'" using o q(1,2) by (simp add: quarantines_ok_def A')
  then show "comb_inv n bld A' L" using q(3) st unfolding comb_inv_def s by (auto simp: holds_def A')
qed

section \<open>Deallocation\<close>

lemma same_place:
  assumes "ClassId h' = ClassId h" "Offset h' = Offset h"
  shows "getBlockBegin p h' = getBlockBegin p h" "chunk_block p h' = chunk_block p h"
    and "SizeOrUnusedBytes h' = SizeOrUnusedBytes h \<Longrightarrow> getSize ops b p h' = getSize ops b p h \<and> in_block ops b p h' = in_block ops b p h"
  using assms by (simp_all add: getBlockBegin_def chunk_block_def getSize_def in_block_def)

text \<open>The outcome of an operation that frees p.\<close>

definition freed :: "nat \<Rightarrow> build_env \<Rightarrow> chunks \<Rightarrow> uptr \<Rightarrow> 'b allocator \<Rightarrow> 'b allocator result option \<Rightarrow> bool" where
  "freed n bld L p A r \<longleftrightarrow> (case r of None \<Rightarrow> False | Some (Inl x) \<Rightarrow> err x
     | Some (Inr A') \<Rightarrow> comb_inv n bld A' (L(p := None)) \<and> undisturbed (L(p := None)) A A')"

lemma freed_simps [simp]:
  "freed n bld L p A (Some (Inl x)) = err x"
  "freed n bld L p A (Some (Inr A')) \<longleftrightarrow> comb_inv n bld A' (L(p := None)) \<and> undisturbed (L(p := None)) A A'"
  by (simp_all add: freed_def)

lemma store_other_blocks:
  assumes inv: "comb_inv n bld A L" and p: "L p = Some h"
  shows "same_on (\<Union>x\<in>used (aBackend A) - {chunk_block p h}. block_set ops (aBackend A) x) (aMemory A) (mem_storeHeader H ck p g (aMemory A))"
proof -
  note l = live_chunk [OF inv p]
  have b: "binv (aBackend A)" using inv by (simp add: comb_inv_def)
  have "bytes_at (getAtomicHeader p) 8 \<subseteq> block_set ops (aBackend A) (chunk_block p h)" using header_in_block(1) [OF l(2)] .
  then show ?thesis using used_disjoint [OF b l(3)] by (intro stored_same_on) blast
qed

lemma deallocate_block_spec:
  assumes inv: "comb_inv n bld A L" and p: "L p = Some h" and e: "env_ok (ceBackend e)"
  shows "freed n bld L p A (deallocate_block ops e (unat (ClassId h)) (getBlockBegin p h)
    (A\<lparr>aMemory := mem_storeHeader H ck p g (aMemory A)\<rparr>))"
proof -
  let ?b = "aBackend A" and ?m = "mem_storeHeader H ck p g (aMemory A)" and ?c = "unat (ClassId h)" and ?B = "getBlockBegin p h"
  have b: "binv ?b" using inv by (simp add: comb_inv_def)
  note l = live_chunk [OF inv p] and s = store_other_blocks [OF inv p, of H ck g]
  have x: "chunk_block p h = (?c, ?B)" by (simp add: chunk_block_def)
  have u: "(?c, ?B) \<in> used ?b" using l(3) by (simp add: x)
  show ?thesis
  proof (cases "?c = 0")
    case True
    have u0: "(0, ?B) \<in> used ?b" using u True by simp
    from sec_deallocate_law [OF b e u0] obtain b' ev where d: "boSecDeallocate ops (ceBackend e) ?B ?b = Some (Inr (b', ev))"
      "binv b'" "ends_kept ops ?b b' (used ?b)" "used b' = used ?b - {(0, ?B)}" "\<forall>x\<in>used b'. block_set ops ?b x \<inter> events_bytes ev = {}" by blast
    have "same_on (\<Union>x\<in>used b'. block_set ops ?b x) ?m (events_memory ev ?m)" using d(5) by (intro events_same_on) blast
    with s have "same_on (\<Union>x\<in>used b'. block_set ops ?b x) (aMemory A) (events_memory ev ?m)"
      unfolding d(4) x True by (rule same_on_trans)
    from remove_chunk [OF inv p _ _ d(2,3) _ this, of "A\<lparr>aBackend := b', aMemory := events_memory ev ?m\<rparr>"] show ?thesis
      using d(4) x True by (simp add: deallocate_block_def d(1) bindO_def same_settings_def)
  next
    case False
    then have "0 < ?c" by (rule neq0_conv [THEN iffD1])
    note law = deallocate_law [OF b e u this]
    show ?thesis
    proof (cases "boDeallocate ops (ceBackend e) ?c ?B ?b")
      case (Inl r)
      then show ?thesis using law False by (simp add: deallocate_block_def)
    next
      case (Inr y)
      obtain drained b' where y: "y = (drained, b')" by (rule prod.exhaust)
      have d: "binv b'" "ends_kept ops ?b b' (used ?b)" "used b' = used ?b - {chunk_block p h}" using law Inr by (simp_all add: y x)
      let ?A = "A\<lparr>aMemory := ?m, aBackend := b'\<rparr>"
      note r = remove_chunk [OF inv p _ _ d s [folded d(3)], of ?A]
      have r: "comb_inv n bld ?A (L(p := None))" "undisturbed (L(p := None)) A ?A" by (rule r; simp add: same_settings_def)+
      show ?thesis
      proof (cases drained)
        case False
        then show ?thesis using r Inr \<open>?c \<noteq> 0\<close> by (simp add: deallocate_block_def y)
      next
        case True
        obtain b2 ev where t: "boTryRelease ops (ceBackend e) ?c b' = (b2, ev)" by (rule prod.exhaust)
        have "?c \<le> boLargestClassId ops" using used_block [OF b u] by simp
        from release_law [OF d(1) e _ this t] \<open>?c \<noteq> 0\<close>
        have t2: "binv b2" "ends_kept ops b' b2 (used b')" "used b2 = used b'" "\<forall>x\<in>used b'. block_set ops b' x \<inter> events_bytes ev = {}" by simp_all
        have sm: "same_on (\<Union>x\<in>used (aBackend ?A). block_set ops (aBackend ?A) x) (aMemory ?A) (events_memory ev ?m)"
          using t2(4) by (simp del: UN_simps) (intro events_same_on, blast)
        let ?A2 = "A\<lparr>aBackend := b2, aMemory := events_memory ev ?m\<rparr>"
        have "comb_inv n bld ?A2 (L(p := None))" "undisturbed (L(p := None)) ?A ?A2"
          by (rule frame_chunks [OF r(1) _ _ t2(1) _ _ sm]; simp add: same_settings_def t2(2,3))+
        then have "comb_inv n bld ?A2 (L(p := None))" "undisturbed (L(p := None)) A ?A2" using undisturbed_trans [OF r(2)] by blast+
        then show ?thesis using Inr True \<open>?c \<noteq> 0\<close> by (simp add: deallocate_block_def y t)
      qed
    qed
  qed
qed

text \<open>Into the quarantine.\<close>

lemma quarantine_chunk_spec:
  assumes inv: "comb_inv n bld A L" and p: "L p = Some h" and e: "env_ok (ceBackend e)" "ceTSD e < n"
    and g: "State g = Quarantined" "ClassId g = ClassId h" "Offset g = Offset h" "SizeOrUnusedBytes g = SizeOrUnusedBytes h" and c: "ClassId h \<noteq> 0"
  shows "freed n bld L p A (Some (quarantine_chunk ops bld e p Sz (A\<lparr>aMemory := mem_storeHeader (bHash bld) (aCookie A) p g (aMemory A)\<rparr>)))"
proof -
  let ?t = "ceTSD e" and ?b = "aBackend A" and ?L = "L(p := None)" and ?H = "bHash bld" and ?ck = "aCookie A" and ?e = "ceBackend e"
  let ?C = "aQuarantineCaches A" and ?Q = "aQuarantine A"
  define m where "m = mem_storeHeader ?H ?ck p g (aMemory A)"
  obtain Hd where Hd: "ok ?H ?ck Hd (comb_state A)" "parts ops Hd L (waiting_ptrs n A) (waiting_batches n A)"
    "binv ?b" "quarantines_ok n A" using inv by (rule comb_invE)
  note hp = parts_live(1) [OF Hd(2) p] and s = store_elsewhere [OF Hd(1,3) parts_live(1) [OF Hd(2) p], of g, folded m_def]
  note sp = same_place(1,2) [OF g(2,3), where p = p] same_place(3) [OF g(2,3), OF g(4), of ?b p]
  have "has_header ?H ?ck p g m" unfolding m_def by (rule has_header_stored)
  from heap_change [OF Hd(1,3) hp sp(2) s(1) this] have k: "ok ?H ?ck (Hd(p \<mapsto> g)) (m, ?b)"
    using sp(3) live_chunk(2) [OF inv p] by simp
  have "ClassId g \<noteq> 0" using g(2) c by simp
  note pt = parts_change(2) [OF Hd(2) p g(1) this]
  have L: "?L \<subseteq>\<^sub>m Hd" using Hd(2) by (auto simp: parts_def map_le_def)
  have "p \<notin> dom ?L" by simp
  from keepsI [OF Hd(1,3) L ends_kept_refl live_block_stays [OF Hd(1,3) L hp this] s(2)]
  have u: "keeps ?L (comb_state A) (m, ?b)" .
  define X where "X = (\<Sum>u\<in>{..<n} - {?t}. ptrs_of (qcList (?C u)))"
  define B where "B = (\<Sum>u\<in>{..<n} - {?t}. addrs_of (qcList (?C u)))"
  have "holds ?H ?e ?ck ?L (m, ?b) (add_mset p (X + ptrs_of (qcList (?C ?t)) + ptrs_of (qcList (gqCache ?Q))))
      (B + addrs_of (qcList (?C ?t)) + addrs_of (qcList (gqCache ?Q))) (m, ?b)"
    unfolding holds_def using e(1) Hd(3) k pt by (auto simp: waiting_split [OF e(2)] X_def B_def)
  moreover have "qcache_ok (?C ?t)" "qcache_ok (gqCache ?Q)" using Hd(4) e(2) by (simp_all add: quarantines_ok_def)
  ultimately have r: "case quarantine_put (QuarantineCallback ops bld ?e ?ck) (ceFrame e) (ceTryLock e) p Sz (?C ?t, ?Q, (m, ?b)) of Inl x \<Rightarrow> err x
      | Inr (C', Q', S') \<Rightarrow> qc.waits bld ?e ?ck ?L (m, ?b) X B C' Q' S' \<and> gqMaxCacheSize Q' = gqMaxCacheSize ?Q"
    by (intro qc.put_ok)
  have E: "quarantine_chunk ops bld e p Sz (A\<lparr>aMemory := m\<rparr>) =
      bindR (quarantine_put (QuarantineCallback ops bld ?e ?ck) (ceFrame e) (ceTryLock e) p Sz (?C ?t, ?Q, (m, ?b))) (\<lambda>(C', Q', (m', b')).
        Inr (A\<lparr>aMemory := m, aQuarantineCaches := ?C(?t := C'), aQuarantine := Q', aMemory := m', aBackend := b'\<rparr>))"
    by (simp add: quarantine_chunk_def)
  show ?thesis
    unfolding m_def [symmetric] E
  proof (cases "quarantine_put (QuarantineCallback ops bld ?e ?ck) (ceFrame e) (ceTryLock e) p Sz (?C ?t, ?Q, (m, ?b))")
    case (Inl x)
    then show "freed n bld L p A (Some (bindR (quarantine_put (QuarantineCallback ops bld ?e ?ck) (ceFrame e) (ceTryLock e) p Sz (?C ?t, ?Q, (m, ?b)))
      (\<lambda>(C', Q', (m', b')). Inr (A\<lparr>aMemory := m, aQuarantineCaches := ?C(?t := C'), aQuarantine := Q', aMemory := m', aBackend := b'\<rparr>))))"
      using r by simp
  next
    case (Inr y)
    obtain C' Q' m' b' where y: "y = (C', Q', (m', b'))" by (metis prod.exhaust)
    have w: "qc.waits bld ?e ?ck ?L (m, ?b) X B C' Q' (m', b')" using r Inr by (simp add: y)
    let ?A = "A\<lparr>aMemory := m, aQuarantineCaches := ?C(?t := C'), aQuarantine := Q', aMemory := m', aBackend := b'\<rparr>"
    have o: "\<forall>q g. ?L q = Some g \<longrightarrow> State g = Allocated" using inv by (simp add: comb_inv_def)
    note i = waits_comb_inv [OF e(2) Hd(4) o w X_def B_def, where A' = ?A]
    have "comb_inv n bld ?A ?L \<and> keeps ?L (m, ?b) (m', b')" using i by simp
    then have "comb_inv n bld ?A ?L \<and> undisturbed ?L A ?A" using live_keeps_trans [OF u] by (simp add: undisturbed_def)
    then show "freed n bld L p A (Some (bindR (quarantine_put (QuarantineCallback ops bld ?e ?ck) (ceFrame e) (ceTryLock e) p Sz (?C ?t, ?Q, (m, ?b)))
      (\<lambda>(C', Q', (m', b')). Inr (A\<lparr>aMemory := m, aQuarantineCaches := ?C(?t := C'), aQuarantine := Q', aMemory := m', aBackend := b'\<rparr>))))"
      unfolding Inr y by simp
  qed
qed

lemma quarantineOrDeallocate_spec:
  assumes inv: "comb_inv n bld A L" and p: "L p = Some h" and e: "env_ok (ceBackend e)" "ceTSD e < n"
  shows "freed n bld L p A (quarantineOrDeallocateChunk ops bld e p (h\<lparr>hChecksum := x\<rparr>) Sz A)"
proof -
  let ?by = "bypass_quarantine A (h\<lparr>hChecksum := x\<rparr>) Sz"
  show ?thesis
  proof (cases ?by)
    case True
    let ?g = "h\<lparr>hChecksum := x, State := Available, OriginOrWasZeroed := 0\<rparr>"
    have "getBlockBegin p ?g = getBlockBegin p h" by (rule same_place) simp_all
    then show ?thesis
      using deallocate_block_spec [OF inv p e(1), of "bHash bld" "aCookie A" ?g] True
      by (simp add: quarantineOrDeallocateChunk_def Let_def)
  next
    case False
    let ?g = "h\<lparr>hChecksum := x, State := Quarantined, OriginOrWasZeroed := 0\<rparr>"
    have "ClassId h \<noteq> 0" using False by (simp add: bypass_quarantine_def)
    then show ?thesis
      using quarantine_chunk_spec [OF inv p e, of ?g Sz] False by (simp add: quarantineOrDeallocateChunk_def Let_def)
  qed
qed

end

end
