(* ===== verification/Combined_Alloc.thy ===== *)
theory Combined_Alloc
  imports Combined_Free
begin

text \<open>Allocation keeps the invariant: the new chunk lies in a block of its own, aligned as asked, with room for
  the size asked, and no live chunk is touched.\<close>

section \<open>Sizes and alignments\<close>

lemma unat_pow: "a < 64 \<Longrightarrow> unat (2 ^ a :: uptr) = 2 ^ a"
  using unat_exp [where 'a = 64] by simp

lemma needed_size_unat:
  assumes "unat Sz < 2 ^ 40" and "4 \<le> a" "a \<le> 24"
  shows "unat (needed_size Sz (2 ^ a)) = (unat Sz + 15) div 16 * 16 + (if a = 4 then 16 else 2 ^ a)"
proof -
  have r: "unat (roundUp Sz 16) = (unat Sz + 15) div 16 * 16" using unat_roundUp [of 4 Sz] assms(1) by simp
  have d: "(unat Sz + 15) div 16 * 16 \<le> unat Sz + 15" by simp
  have a: "(2 :: nat) ^ a \<le> 2 ^ 24" using assms(3) by (intro power_increasing) simp_all
  have "MinAlignment < 2 ^ a \<longleftrightarrow> a \<noteq> 4"
  proof -
    have "MinAlignment < 2 ^ a \<longleftrightarrow> (2 :: nat) ^ 4 < 2 ^ a" using assms unat_pow [of a] by (simp add: word_less_nat_alt MinAlignment_def)
    also have "\<dots> \<longleftrightarrow> 4 < a" by (rule power_strict_increasing_iff) simp
    finally show ?thesis using assms(2) by auto
  qed
  then have "needed_size Sz (2 ^ a) = roundUp Sz 16 + (if a = 4 then 16 else 2 ^ a)"
    by (simp add: needed_size_def MinAlignment_def getHeaderSize_16)
  moreover have "unat (if a = 4 then 16 else 2 ^ a :: uptr) = (if a = 4 then 16 else 2 ^ a)" using assms unat_pow [of a] by simp
  moreover have "unat (roundUp Sz 16) + (if a = 4 then 16 else 2 ^ a) < 2 ^ 64" using r d a assms(1) by auto
  ultimately show ?thesis using r unat_add_lem [of "roundUp Sz 16" "if a = 4 then 16 else 2 ^ a"] by simp
qed

lemma dvd_gap: "(m :: nat) dvd x \<Longrightarrow> m dvd y \<Longrightarrow> x < y \<Longrightarrow> x + m \<le> y"
proof (elim dvdE)
  fix k l assume x: "x < y" "x = m * k" "y = m * l"
  then have "Suc k \<le> l" by simp
  then have "m * Suc k \<le> m * l" by (rule mult_le_mono2)
  then show "x + m \<le> y" using x by simp
qed

lemma round_up_16:
  fixes x :: nat
  assumes "16 dvd x" and "4 \<le> a"
  shows "16 dvd (x + 2 ^ a - 1) div 2 ^ a * 2 ^ a" "(x + 2 ^ a - 1) div 2 ^ a * 2 ^ a + 16 \<le> x + 2 ^ a" "x \<le> (x + 2 ^ a - 1) div 2 ^ a * 2 ^ a"
proof -
  let ?r = "(x + 2 ^ a - 1) div 2 ^ a * 2 ^ a"
  have a: "16 dvd (2 :: nat) ^ a" using le_imp_power_dvd [OF assms(2), of "2 :: nat"] by simp
  then show d: "16 dvd ?r" by simp
  have lt: "?r < x + 2 ^ a" and ge: "x \<le> ?r" using ceil_mult_bounds [of "2 ^ a" x] by simp_all
  show "?r + 16 \<le> x + 2 ^ a" using d dvd_add [OF assms(1) a] lt by (rule dvd_gap)
  show "x \<le> ?r" by (rule ge)
qed

lemma aligned_dvd: "isAligned x 16 \<longleftrightarrow> 16 dvd unat x"
  using isAligned_exp [of x 4] by (simp add: dvd_eq_mod_eq_0)

lemma user_ptr:
  assumes B: "isAligned B 16" and a: "4 \<le> a" "a \<le> 24" and fit: "unat B + (if a = 4 then 16 else 2 ^ a) < 2 ^ 64"
  shows "unat B + 16 \<le> unat (roundUp (B + getHeaderSize) (2 ^ a))"
    and "unat (roundUp (B + getHeaderSize) (2 ^ a)) \<le> unat B + (if a = 4 then 16 else 2 ^ a)"
    and "isAligned (roundUp (B + getHeaderSize) (2 ^ a)) (2 ^ a)" "isAligned (roundUp (B + getHeaderSize) (2 ^ a)) 16"
proof -
  have a16: "(16 :: nat) \<le> 2 ^ a" using power_increasing [OF a(1), of "2 :: nat"] by simp
  have d: "16 dvd unat B" "16 dvd (2 :: nat) ^ a" using B le_imp_power_dvd [OF a(1), of "2 :: nat"] by (simp_all add: aligned_dvd)
  have "unat B + 2 ^ a < 2 ^ 64" using fit a16 by (cases "a = 4") simp_all
  moreover have "16 dvd unat B + 2 ^ a" using d by (rule dvd_add)
  ultimately have "unat B + 2 ^ a + 16 \<le> 2 ^ 64" by (intro dvd_gap) simp_all
  then have f: "unat B + 16 + 2 ^ a \<le> 2 ^ 64" by simp
  have u: "unat (B + getHeaderSize) = unat B + 16" unfolding getHeaderSize_16 using f a16 by (subst unat_add_lem [THEN iffD1]) simp_all
  have r: "unat (roundUp (B + getHeaderSize) (2 ^ a)) = (unat B + 16 + 2 ^ a - 1) div 2 ^ a * 2 ^ a"
    using unat_roundUp [of a "B + getHeaderSize"] f a(2) by (simp only: u)
  have "16 dvd unat B + 16" using d(1) by simp
  note q = round_up_16 [OF this a(1)]
  show "unat B + 16 \<le> unat (roundUp (B + getHeaderSize) (2 ^ a))" using q(3) by (simp only: r)
  have "unat (roundUp (B + getHeaderSize) (2 ^ a)) \<le> unat B + 2 ^ a" using q(2) r by linarith
  then show "unat (roundUp (B + getHeaderSize) (2 ^ a)) \<le> unat B + (if a = 4 then 16 else 2 ^ a)" by (cases "a = 4") simp_all
  show "isAligned (roundUp (B + getHeaderSize) (2 ^ a)) (2 ^ a)" by (simp add: isAligned_exp r)
  show "isAligned (roundUp (B + getHeaderSize) (2 ^ a)) 16" using q(1) by (simp only: aligned_dvd r)
qed

section \<open>The header of a new chunk\<close>

lemma mask_field:
  assumes "unat x < 2 ^ k"
  shows "x AND (2 ^ k - 1) = (x :: uptr)"
  unfolding word_unat_eq_iff word_exp_minus_1 unat_and_mask using assms(1) by simp

lemma offset_field:
  assumes "unat Off < 2 ^ 20" and "16 dvd unat (Off :: uptr)"
  shows "push_bit 4 (ucast (ucast (drop_bit 4 Off AND OffsetMask) :: 16 word)) = Off"
proof -
  have d: "unat (drop_bit 4 Off) = unat Off div 16" by (simp add: drop_bit_eq_div unat_div)
  have "drop_bit 4 Off AND OffsetMask = drop_bit 4 Off"
    unfolding OffsetMask_def using assms(1) by (intro mask_field) (simp_all add: d)
  moreover have "(ucast (ucast (drop_bit 4 Off) :: 16 word) :: uptr) = drop_bit 4 Off"
    using assms(1) by (simp add: word_unat_eq_iff d unsigned_ucast_eq take_bit_eq_mod unat_mod)
  moreover have "push_bit 4 (drop_bit 4 Off) = Off"
    using unat_mult_lt [of "drop_bit 4 Off" "2 ^ 4"] assms d by (simp add: word_unat_eq_iff push_bit_eq_mult)
  ultimately show ?thesis by simp
qed

lemma chunk_header_place:
  assumes "unat (P - (B + getHeaderSize)) < 2 ^ 20" and "16 dvd unat (P - (B + getHeaderSize))" and "c < 256"
  shows "getBlockBegin P (chunk_header c Org s (P - (B + getHeaderSize))) = B" "chunk_block P (chunk_header c Org s (P - (B + getHeaderSize))) = (c, B)"
proof -
  show g: "getBlockBegin P (chunk_header c Org s (P - (B + getHeaderSize))) = B"
    by (simp add: getBlockBegin_def chunk_header_def offset_field [OF assms(1,2)])
  show "chunk_block P (chunk_header c Org s (P - (B + getHeaderSize))) = (c, B)"
    unfolding chunk_block_def g using assms(3) by (simp add: chunk_header_def unat_of_nat)
qed

lemma chunk_header_size:
  shows "0 < c \<Longrightarrow> c < 256 \<Longrightarrow> unat s < 2 ^ 20 \<Longrightarrow> getSize ops b P (chunk_header c Org s off) = s"
    and "getSize ops b P (chunk_header 0 Org s off) = boBlockEnd ops b (getBlockBegin P (chunk_header 0 Org s off)) - P - (s AND (2 ^ 20 - 1))"
proof -
  have u: "(ucast (ucast (s AND (2 ^ 20 - 1)) :: 20 word) :: uptr) = s AND (2 ^ 20 - 1)"
    unfolding word_exp_minus_1 by (rule bit_word_eqI) (auto simp: bit_simps)
  show "getSize ops b P (chunk_header c Org s off) = s" if "0 < c" "c < 256" "unat s < 2 ^ 20"
  proof -
    have "(of_nat c :: 8 word) \<noteq> 0" using that(1,2) by (simp add: word_unat_eq_iff unat_of_nat)
    then show ?thesis using u mask_field [OF that(3)]
      by (simp add: getSize_def chunk_header_def SizeOrUnusedBytesMask_def)
  qed
  show "getSize ops b P (chunk_header 0 Org s off) = boBlockEnd ops b (getBlockBegin P (chunk_header 0 Org s off)) - P - (s AND (2 ^ 20 - 1))"
    using u by (simp add: getSize_def chunk_header_def SizeOrUnusedBytesMask_def)
qed

section \<open>The new chunk\<close>

lemma write32_elsewhere:
  assumes "bytes_at B 8 \<subseteq> Y" and "unat B + 8 \<le> 2 ^ 64"
  shows "same_on (- Y) m (write32 (B + 4) v (write32 B w m))" "same_on (- bytes_at B 8) m (write32 (B + 4) v (write32 B w m))"
proof -
  have u: "unat (B + 4) = unat B + 4" using assms(2) by (subst unat_add_lem [THEN iffD1]) simp_all
  have s: "bytes_at B 4 \<subseteq> bytes_at B 8" "bytes_at (B + 4) 4 \<subseteq> bytes_at B 8"
    using assms(2) by (rule_tac [!] bytes_at_subset) (simp_all add: u)
  show 1: "same_on (- bytes_at B 8) m (write32 (B + 4) v (write32 B w m))"
    by (rule same_on_trans [OF write32_same_on write32_same_on]) (use s in auto)
  show "same_on (- Y) m (write32 (B + 4) v (write32 B w m))" by (rule same_on_mono [OF 1]) (use assms(1) in auto)
qed

context combined_backend
begin

lemma used_bytes:
  assumes "binv b" and "(c, B) \<in> used b"
  shows "bytes_at B 8 \<subseteq> block_set ops b (c, B)" "unat B + 8 \<le> 2 ^ 64"
    and "0 < c \<Longrightarrow> block_set ops b (c, B) = bytes_at B (unat (boClassSize ops c))"
proof -
  let ?E = "block_end ops b (c, B)"
  have u: "unat B + 16 \<le> unat ?E" using used_block [OF assms] by simp
  have E: "unat ?E < 2 ^ 64" using unat_less_exp [of ?E] by simp
  have s: "unat (?E - B) = unat ?E - unat B" using u by (subst unat_sub) (simp_all add: word_le_nat_alt)
  show "bytes_at B 8 \<subseteq> block_set ops b (c, B)"
    unfolding block_set_def snd_conv s using u E by (intro bytes_at_subset) simp_all
  show "unat B + 8 \<le> 2 ^ 64" using u E by simp
  show "block_set ops b (c, B) = bytes_at B (unat (boClassSize ops c))" if "0 < c" using that by (simp add: block_set_def block_end_def)
qed

text \<open>What initChunk does to the memory of a new block.\<close>

lemma initChunk_memory:
  assumes b: "binv b" "(c, B) \<in> used b" and h: "h = chunk_header c Org s (P - (B + getHeaderSize))"
    and i: "in_block ops b P h" "chunk_block P h = (c, B)"
  obtains m' where "initChunk ops bld c Org B P s F A = (P, A\<lparr>aMemory := m'\<rparr>)"
    "same_on (- block_set ops b (c, B)) (aMemory A) m'" "has_header (bHash bld) (aCookie A) P h m'"
    "c \<noteq> 0 \<and> F = ZeroFill \<longrightarrow> (\<forall>x\<in>user_bytes ops b P h. m' x = 0)"
proof -
  note u = used_bytes [OF b] and hb = header_in_block [OF i(1), unfolded i(2)]
  let ?Y = "block_set ops b (c, B)"
  define m1 where "m1 = (if c \<noteq> 0 \<and> F \<noteq> NoFill then memset B (fill_byte F) (boClassSize ops c) (aMemory A) else aMemory A)"
  define m2 where "m2 = (if B + getHeaderSize \<noteq> P then write32 (B + 4) (ucast (P - (B + getHeaderSize))) (write32 B BlockMarker m1) else m1)"
  define m3 where "m3 = mem_storeHeader (bHash bld) (aCookie A) P h m2"
  have off: "(if B + getHeaderSize \<noteq> P then P - (B + getHeaderSize) else 0) = P - (B + getHeaderSize)" by auto
  have e: "initChunk ops bld c Org B P s F A = (P, A\<lparr>aMemory := m3\<rparr>)"
    unfolding initChunk_def Let_def m1_def [symmetric] m2_def [symmetric] off h [symmetric] m3_def [symmetric] ..
  have s1: "same_on (- ?Y) (aMemory A) m1"
    using memset_same_on [of "- ?Y" B "boClassSize ops c"] u(3) by (auto simp: m1_def)
  have s2: "same_on (- ?Y) m1 m2" "same_on (- bytes_at B 8) m1 m2" using write32_elsewhere [OF u(1,2)] by (simp_all add: m2_def)
  have s3: "same_on (- ?Y) m2 m3" "same_on (user_bytes ops b P h) m2 m3"
    unfolding m3_def by (rule stored_same_on, use hb in blast)+
  have z: "m3 x = 0" if c: "c \<noteq> 0" "F = ZeroFill" and x: "x \<in> user_bytes ops b P h" for x
  proof -
    have "unat B + 16 \<le> unat P" using i by (simp add: in_block_def chunk_block_def)
    moreover have "unat P + unat (getSize ops b P h) < 2 ^ 64"
      using i(1) unat_less_exp [of "block_end ops b (chunk_block P h)"] by (simp add: in_block_def)
    ultimately have "x \<notin> bytes_at B 8" using x in_bytes_at [OF u(2), of x] in_bytes_at [of P "unat (getSize ops b P h)" x]
      by (simp add: user_bytes_def)
    then have "m3 x = m1 x" using s2(2) s3(2) x by (simp add: same_on_def)
    moreover have "x \<in> bytes_at B (unat (boClassSize ops c))" using hb(2) x u(3) c(1) by auto
    then have "m1 x = 0" using c by (simp add: m1_def memset_def bytes_at_def fill_byte_def ZeroFill_def NoFill_def)
    ultimately show ?thesis by simp
  qed
  show thesis
    by (rule that [OF e same_on_trans [OF s1 same_on_trans [OF s2(1) s3(1)]]]) (use z in \<open>auto simp: m3_def has_header_stored\<close>)
qed

section \<open>Finding a block\<close>

text \<open>The outcome of asking for a block: none (0), or one of class c that was not in use.\<close>

definition found :: "'b \<Rightarrow> 'b \<Rightarrow> nat \<Rightarrow> uptr \<Rightarrow> bool" where
  "found b b' c B \<longleftrightarrow> binv b' \<and> ends_kept ops b b' (used b) \<and>
     (if B = 0 then used b' = used b else (c, B) \<notin> used b \<and> used b' = insert (c, B) (used b))"

lemma ends_kept_trans: "ends_kept ops b b' X \<Longrightarrow> ends_kept ops b' b'' X \<Longrightarrow> ends_kept ops b b'' X"
  by (simp add: ends_kept_def)

lemma found_trans: "found b b' c 0 \<Longrightarrow> found b' b'' d B \<Longrightarrow> found b b'' d B"
  unfolding found_def using ends_kept_trans by (auto split: if_splits)

lemma allocate_class_spec:
  "\<lbrakk> binv b; env_ok e; 0 < c; c \<le> boLargestClassId ops \<rbrakk> \<Longrightarrow> (case allocate_class ops e c b of Inl r \<Rightarrow> err r
    | Inr (d, B, b') \<Rightarrow> found b b' d B \<and> (\<forall>e. reserve_ok e b \<longrightarrow> reserve_ok e b') \<and>
        (if d = 0 then B = 0 else B \<noteq> 0 \<and> c \<le> d \<and> d \<le> boLargestClassId ops))"
proof (induction "boLargestClassId ops - c" arbitrary: b c rule: less_induct)
  case less
  note law = allocate_law [OF less(2-5)]
  show ?case
  proof (cases "boAllocate ops e c b")
    case (Inl r)
    then show ?thesis using law by (subst allocate_class.simps) simp
  next
    case (Inr y)
    obtain q b1 where y: "y = (q, b1)" by (rule prod.exhaust)
    have l: "binv b1" "ends_kept ops b b1 (used b)" "\<forall>e. reserve_ok e b \<longrightarrow> reserve_ok e b1"
      "case q of None \<Rightarrow> used b1 = used b | Some p \<Rightarrow> (c, p) \<notin> used b \<and> used b1 = insert (c, p) (used b)"
      using law Inr by (simp_all add: y)
    show ?thesis
    proof (cases q)
      case (Some p)
      have "p \<noteq> 0" using used_block [OF l(1), of "(c, p)"] l(4) by (simp add: Some)
      then show ?thesis using l Inr less(4,5) by (subst allocate_class.simps) (simp add: y Some found_def)
    next
      case None
      have f: "found b b1 0 0" using l by (simp add: None found_def)
      show ?thesis
      proof (cases "c < boLargestClassId ops")
        case False
        then show ?thesis using f l(3) Inr by (subst allocate_class.simps) (simp add: y None)
      next
        case True
        have "boLargestClassId ops - Suc c < boLargestClassId ops - c" using True by simp
        from less(1) [OF this l(1) less(3) zero_less_Suc] True
        have i: "case allocate_class ops e (Suc c) b1 of Inl r \<Rightarrow> err r
            | Inr (d, B, b') \<Rightarrow> found b1 b' d B \<and> (\<forall>e. reserve_ok e b1 \<longrightarrow> reserve_ok e b') \<and>
                (if d = 0 then B = 0 else B \<noteq> 0 \<and> Suc c \<le> d \<and> d \<le> boLargestClassId ops)" by simp
        have e: "allocate_class ops e c b = allocate_class ops e (Suc c) b1"
          using Inr True by (subst allocate_class.simps) (simp add: y None)
        show ?thesis
        proof (cases "allocate_class ops e (Suc c) b1")
          case (Inl x)
          then show ?thesis using i by (simp add: e)
        next
          case (Inr z)
          obtain d B b' where z: "z = (d, B, b')" by (rule prod_cases3)
          have i: "found b1 b' d B" "\<forall>e. reserve_ok e b1 \<longrightarrow> reserve_ok e b'" "if d = 0 then B = 0 else B \<noteq> 0 \<and> Suc c \<le> d \<and> d \<le> boLargestClassId ops"
            using i Inr by (simp_all add: z)
          have "found b b' d B" by (rule found_trans [OF f i(1)])
          then show ?thesis using i(2,3) l(3) Inr by (auto simp: e z split: if_splits)
        qed
      qed
    qed
  qed
qed

text \<open>The block has room for the chunk.\<close>

definition block_room :: "'b \<Rightarrow> uptr \<Rightarrow> nat \<Rightarrow> nat \<Rightarrow> uptr \<Rightarrow> uptr \<Rightarrow> bool" where
  "block_room b Sz a c B E \<longleftrightarrow> (if c \<noteq> 0 then c \<le> boLargestClassId ops \<and> unat (needed_size Sz (2 ^ a)) \<le> unat (boClassSize ops c)
     else E = boBlockEnd ops b B \<and> unat B + 16 + unat Sz \<le> unat E \<and> unat E < unat B + 16 + unat Sz + 2 ^ a + 16 \<and> isAligned (B + 16) (2 ^ a))"

definition block_outcome :: "uptr \<Rightarrow> nat \<Rightarrow> 'b allocator \<Rightarrow> (nat \<times> uptr \<times> uptr \<times> 'b allocator) result option \<Rightarrow> bool" where
  "block_outcome Sz a A r \<longleftrightarrow> (case r of None \<Rightarrow> False | Some (Inl x) \<Rightarrow> err x
     | Some (Inr (c, B, E, A')) \<Rightarrow> same_settings A A' \<and> found (aBackend A) (aBackend A') c B \<and>
         same_on (\<Union>x\<in>used (aBackend A). block_set ops (aBackend A) x) (aMemory A) (aMemory A') \<and>
         (B \<noteq> 0 \<longrightarrow> block_room (aBackend A') Sz a c B E))"

lemma sec_block_outcome:
  assumes b: "binv (aBackend A)" and e: "env_ok (ceBackend e)" and a: "unat Sz < 2 ^ 40" "4 \<le> a" "a \<le> 24"
    and f: "found (aBackend A) b1 0 0" and r: "reserve_ok (ceBackend e) b1"
  shows "block_outcome Sz a A (bindO (boSecAllocate ops (ceBackend e) (aOptions A) Sz (2 ^ a) Fill b1) (\<lambda>(r, b, ev).
         let A = A\<lparr>aBackend := b, aMemory := events_memory ev (aMemory A)\<rparr> in
         case r of None \<Rightarrow> Some (Inr (0, 0, 0, A)) | Some (Block, BlockEnd) \<Rightarrow> Some (Inr (0, Block, BlockEnd, A))))"
proof -
  have b1: "binv b1" "used b1 = used (aBackend A)" "ends_kept ops (aBackend A) b1 (used (aBackend A))" using f by (simp_all add: found_def)
  obtain q b2 ev where s: "boSecAllocate ops (ceBackend e) (aOptions A) Sz (2 ^ a) Fill b1 = Some (Inr (q, b2, ev))"
    "binv b2" "ends_kept ops b1 b2 (used b1)" "\<forall>x\<in>used b1. block_set ops b1 x \<inter> events_bytes ev = {}"
    "case q of None \<Rightarrow> used b2 = used b1
       | Some (B, E) \<Rightarrow> (0, B) \<notin> used b1 \<and> used b2 = insert (0, B) (used b1) \<and> E = boBlockEnd ops b2 B \<and>
           unat B + 16 + unat Sz \<le> unat E \<and> unat E < unat B + 16 + unat Sz + 2 ^ a + 16 \<and> isAligned (B + 16) (2 ^ a)"
    using sec_allocate_law [OF b1(1) e r a, of "aOptions A" Fill] by blast
  let ?A = "A\<lparr>aBackend := b2, aMemory := events_memory ev (aMemory A)\<rparr>"
  have k: "ends_kept ops (aBackend A) b2 (used (aBackend A))" using ends_kept_trans [OF b1(3)] s(3) by (simp add: b1(2))
  have m: "same_on (\<Union>x\<in>used (aBackend A). block_set ops (aBackend A) x) (aMemory A) (events_memory ev (aMemory A))"
    using s(4) ends_kept_set [OF b1(3)] by (intro events_same_on) (auto simp: b1(2))
  have st: "same_settings A ?A" by (simp add: same_settings_def)
  show ?thesis
  proof (cases q)
    case None
    then show ?thesis using s(1,2,5) k m st b1(2) by (simp add: bindO_def block_outcome_def found_def)
  next
    case (Some z)
    obtain B E where z: "z = (B, E)" by (rule prod.exhaust)
    have n: "(0, B) \<notin> used b1" "used b2 = insert (0, B) (used b1)" "block_room b2 Sz a 0 B E" using s(5) unfolding Some z option.case prod.case block_room_def by auto
    have "B \<noteq> 0" using used_block [OF s(2), of "(0, B)"] n(2) by simp
    then show ?thesis using s(1,2) n k m st b1(2) by (simp add: Some z bindO_def block_outcome_def found_def)
  qed
qed

lemma allocate_block_spec:
  assumes b: "binv (aBackend A)" and e: "env_ok (ceBackend e)" "reserve_ok (ceBackend e) (aBackend A)" and a: "unat Sz < 2 ^ 40" "4 \<le> a" "a \<le> 24"
  shows "block_outcome Sz a A (allocate_block ops e Sz (2 ^ a) Fill A)"
proof (cases "boCanAllocate ops (needed_size Sz (2 ^ a))")
  case False
  have "found (aBackend A) (aBackend A) 0 0" using b by (simp add: found_def ends_kept_def)
  from sec_block_outcome [OF b e(1) a this e(2), of Fill] show ?thesis
    using False by (simp add: allocate_block_def Let_def) (simp add: bindO_def Let_def)
next
  case True
  let ?c = "boClassId ops (needed_size Sz (2 ^ a))"
  note cf = class_fits [OF True]
  have s: "case allocate_class ops (ceBackend e) ?c (aBackend A) of Inl r \<Rightarrow> err r
    | Inr (d, B, b') \<Rightarrow> found (aBackend A) b' d B \<and> (\<forall>e. reserve_ok e (aBackend A) \<longrightarrow> reserve_ok e b') \<and>
        (if d = 0 then B = 0 else B \<noteq> 0 \<and> ?c \<le> d \<and> d \<le> boLargestClassId ops)"
    using allocate_class_spec [OF b e(1)] cf by simp
  show ?thesis
  proof (cases "allocate_class ops (ceBackend e) ?c (aBackend A)")
    case (Inl r)
    then show ?thesis using s True by (simp add: allocate_block_def bindO_def block_outcome_def)
  next
    case (Inr y)
    obtain d B b1 where y: "y = (d, B, b1)" by (rule prod_cases3)
    have s: "found (aBackend A) b1 d B" "reserve_ok (ceBackend e) b1" "if d = 0 then B = 0 else B \<noteq> 0 \<and> ?c \<le> d \<and> d \<le> boLargestClassId ops"
      using s Inr e(2) by (simp_all add: y)
    show ?thesis
    proof (cases "d = 0")
      case True
      have f: "found (aBackend A) b1 0 0" using s(1,3) True by simp
      have "allocate_block ops e Sz (2 ^ a) Fill A = bindO (boSecAllocate ops (ceBackend e) (aOptions A) Sz (2 ^ a) Fill b1) (\<lambda>(r, b, ev).
         let A = A\<lparr>aBackend := b, aMemory := events_memory ev (aMemory A)\<rparr> in
         case r of None \<Rightarrow> Some (Inr (0, 0, 0, A)) | Some (Block, BlockEnd) \<Rightarrow> Some (Inr (0, Block, BlockEnd, A)))"
        using Inr True \<open>boCanAllocate ops _\<close> by (simp add: allocate_block_def y) (simp add: bindO_def)
      then show ?thesis using sec_block_outcome [OF b e(1) a f s(2), of Fill] by simp
    next
      case False
      have "unat (boClassSize ops ?c) \<le> unat (boClassSize ops d)" using class_mono [of ?c d] cf s(3) False by simp
      then have "block_room b1 Sz a d B 0" using cf s(3) False by (simp add: block_room_def)
      then show ?thesis using s(1) Inr False \<open>boCanAllocate ops _\<close>
        by (simp add: allocate_block_def y bindO_def block_outcome_def same_settings_def)
    qed
  qed
qed

end

end
