(* ===== verification/Combined_Malloc.thy ===== *)
theory Combined_Malloc
  imports Combined_Alloc
begin

text \<open>The new chunk in its block, and the allocation as a whole.\<close>

text \<open>The reports on arguments of an allocation that are too big.\<close>

definition alloc_report :: "uptr \<Rightarrow> nat \<Rightarrow> report \<Rightarrow> bool" where
  "alloc_report Sz a x \<longleftrightarrow> (24 < a \<and> x = AlignmentTooBig (2 ^ a) MaxAlignment) \<or>
     (2 ^ 40 \<le> unat Sz \<and> x = AllocationSizeTooBig Sz (needed_size Sz (max (2 ^ a) MinAlignment)) MaxAllowedMallocSize)"

context combined_backend
begin

section \<open>The place of the chunk\<close>

definition placed :: "'b \<Rightarrow> uptr \<Rightarrow> nat \<Rightarrow> nat \<Rightarrow> uptr \<Rightarrow> uptr \<Rightarrow> UnpackedHeader \<Rightarrow> bool" where
  "placed b Sz a c B P h \<longleftrightarrow> in_block ops b P h \<and> chunk_block P h = (c, B) \<and> isAligned P (2 ^ a) \<and>
     unat Sz \<le> unat (getSize ops b P h) \<and> (c \<noteq> 0 \<or> a \<le> 19 \<longrightarrow> getSize ops b P h = Sz)"

lemma class_chunk:
  assumes b: "binv b" "(c, B) \<in> used b" and c: "0 < c" and r: "block_room b Sz a c B E"
    and a: "unat Sz < 2 ^ 40" "4 \<le> a" "a \<le> 24"
    and P: "P = roundUp (B + getHeaderSize) (2 ^ a)" and h: "h = chunk_header c Org Sz (P - (B + getHeaderSize))"
  shows "placed b Sz a c B P h"
proof -
  let ?cs = "unat (boClassSize ops c)" and ?x = "if a = 4 then 16 else 2 ^ a :: nat"
  have c': "c \<le> boLargestClassId ops" "unat (needed_size Sz (2 ^ a)) \<le> ?cs" using r c by (simp_all add: block_room_def)
  note cb = class_block_end [OF b c] and n = needed_size_unat [OF a]
  have cs: "?cs < 2 ^ 20" "c < 256" using class_bounds [OF c c'(1)] largest_class c'(1) by simp_all
  have r16: "unat Sz \<le> (unat Sz + 15) div 16 * 16" using ceil_mult_bounds(1) [of 16 "unat Sz"] by simp
  have nd: "unat Sz + ?x \<le> ?cs" using c'(2) n r16 by linarith
  have "unat B + ?x < 2 ^ 64" using nd cb(3) by linarith
  note u = user_ptr [OF cb(2) a(2,3) this, folded P]
  have bh: "unat (B + getHeaderSize) = unat B + 16"
    unfolding getHeaderSize_16 using u(1) unat_less_exp [of P] by (subst unat_add_lem [THEN iffD1]) simp_all
  have o: "unat (P - (B + getHeaderSize)) = unat P - (unat B + 16)"
    using u(1) bh by (subst unat_sub) (simp_all add: word_le_nat_alt)
  have lt: "unat (P - (B + getHeaderSize)) < 2 ^ 20" using o u(2) nd cs(1) by linarith
  have "16 dvd unat P" "16 dvd unat B + 16" using u(4) cb(2) by (simp_all add: aligned_dvd)
  then have d: "16 dvd unat (P - (B + getHeaderSize))" unfolding o by (rule dvd_diff_nat)
  note p = chunk_header_place [OF lt d cs(2), of Org Sz, folded h]
  have "unat Sz < 2 ^ 20" using nd cs(1) by linarith
  then have g: "getSize ops b P h = Sz" unfolding h by (rule chunk_header_size(1) [OF c cs(2)])
  have "unat P + unat Sz \<le> unat B + ?cs" using u(2) nd by linarith
  then have "in_block ops b P h" unfolding in_block_def p g cb(1) using u(1,4) by simp
  then show ?thesis using p(2) u(3) g by (simp add: placed_def)
qed

lemma sec_chunk:
  assumes b: "binv b" "(0, B) \<in> used b" and r: "block_room b Sz a 0 B E"
    and a: "unat Sz < 2 ^ 40" "4 \<le> a" "a \<le> 24"
    and P: "P = roundUp (B + getHeaderSize) (2 ^ a)" and h: "h = chunk_header 0 Org (E - (P + Sz)) (P - (B + getHeaderSize))"
  shows "placed b Sz a 0 B P h"
proof -
  have E: "E = boBlockEnd ops b B" "unat B + 16 + unat Sz \<le> unat E" "unat E < unat B + 16 + unat Sz + 2 ^ a + 16" "isAligned (B + 16) (2 ^ a)"
    using r unfolding block_room_def by auto
  have e: "unat E < 2 ^ 64" using unat_less_exp [of E] by simp
  have bh: "unat (B + 16) = unat B + 16" using E(2) e by (subst unat_add_lem [THEN iffD1]) simp_all
  have d: "2 ^ a dvd unat (B + 16)" using E(4) by (simp add: isAligned_exp dvd_eq_mod_eq_0)
  have "(2 :: nat) ^ a dvd 2 ^ 64" using a(3) by (intro le_imp_power_dvd) simp
  moreover have "unat (B + 16) < 2 ^ 64" using unat_less_exp [of "B + 16"] by simp
  ultimately have g: "unat (B + 16) + 2 ^ a \<le> 2 ^ 64" by (rule dvd_gap [OF d])
  obtain k where k: "unat (B + 16) = 2 ^ a * k" using d by (auto elim!: dvdE)
  have PB: "P = B + 16"
    unfolding P getHeaderSize_16 word_unat_eq_iff using unat_roundUp [OF _ g] a(3) ceil_div_exact [of "2 ^ a" k]
    by (simp add: k ac_simps)
  have z: "P - (B + getHeaderSize) = 0" by (simp add: PB getHeaderSize_16)
  have p: "getBlockBegin P h = B" "chunk_block P h = (0, B)"
    using chunk_header_place [of P B 0 Org "E - (P + Sz)"] by (simp_all add: h z)
  let ?u = "E - (P + Sz)"
  have uP: "unat P = unat B + 16" using bh by (simp add: PB)
  have "unat (P + Sz) = unat P + unat Sz" using E(2) e uP by (subst unat_add_lem [THEN iffD1]) simp_all
  then have u: "unat ?u = unat E - (unat P + unat Sz)" using E(2) uP by (subst unat_sub) (simp_all add: word_le_nat_alt)
  have m: "unat (?u AND (2 ^ 20 - 1)) = unat ?u mod 2 ^ 20" by (simp only: word_exp_minus_1 unat_and_mask)
  have gs: "getSize ops b P h = E - P - (?u AND (2 ^ 20 - 1))"
    using chunk_header_size(2) [of ops b P Org ?u "P - (B + getHeaderSize)", folded h] p(1) E(1) by simp
  have EP: "unat (E - P) = unat E - unat P" using E(2) uP by (subst unat_sub) (simp_all add: word_le_nat_alt)
  have le: "unat ?u mod 2 ^ 20 \<le> unat ?u" by simp
  have ug: "unat (getSize ops b P h) = unat E - unat P - unat ?u mod 2 ^ 20"
    unfolding gs using EP m u le E(2) uP by (subst unat_sub) (simp_all add: word_le_nat_alt)
  have "isAligned P 16"
  proof -
    have "16 dvd (2 :: nat) ^ a" using le_imp_power_dvd [OF a(2), of "2 :: nat"] by simp
    then show ?thesis using d dvd_trans unfolding aligned_dvd PB by blast
  qed
  moreover have "unat P + unat (getSize ops b P h) \<le> unat E" using ug E(2) uP by linarith
  ultimately have i: "in_block ops b P h" using uP E(1) by (simp add: in_block_def p block_end_def)
  have ge: "unat Sz \<le> unat (getSize ops b P h)" using ug u le E(2) uP by linarith
  have "getSize ops b P h = Sz" if "a \<le> 19"
  proof -
    have "(2 :: nat) ^ a \<le> 2 ^ 19" using that by (intro power_increasing) simp_all
    then have "unat ?u < 2 ^ 20" using u E(3) uP by simp
    then have "unat ?u mod 2 ^ 20 = unat ?u" by (rule mod_less)
    then show ?thesis using ug u E(2) uP by (simp add: word_unat_eq_iff)
  qed
  then show ?thesis using i p(2) E(4) ge by (simp add: placed_def PB)
qed

text \<open>A live chunk more.\<close>

lemma add_chunk:
  assumes inv: "comb_inv n bld A L" and A': "same_settings A A'" "comb_state A' = (m', b')"
    and f: "found (aBackend A) b' c B" "B \<noteq> 0" and h: "chunk_block P h = (c, B)" "State h = Allocated"
    and same: "same_on (\<Union>x\<in>used (aBackend A). block_set ops (aBackend A) x) (aMemory A) m'"
    and new: "has_header (bHash bld) (aCookie A) P h m'" "in_block ops b' P h"
  shows "L P = None" "comb_inv n bld A' (L(P \<mapsto> h))" "undisturbed L A A'"
proof -
  obtain Hd where Hd: "ok (bHash bld) (aCookie A) Hd (comb_state A)" "parts ops Hd L (waiting_ptrs n A) (waiting_batches n A)"
    "binv (aBackend A)" using inv by (rule comb_invE)
  have b': "binv b'" "ends_kept ops (aBackend A) b' (used (aBackend A))" "chunk_block P h \<notin> used (aBackend A)"
    "used b' = insert (chunk_block P h) (used (aBackend A))"
    using f h by (simp_all add: found_def)
  note r = heap_add [OF Hd(1,3) b' same new]
  note pt = parts_add [OF Hd(2) r(1)]
  show "L P = None" by (rule pt(2))
  have L: "L \<subseteq>\<^sub>m Hd" using Hd(2) by (simp add: parts_def)
  from keepsI [OF Hd(1,3) L b'(2) live_chunk(3) [OF inv] same]
  show "undisturbed L A A'" using A' by (intro undisturbedI) simp_all
  show "comb_inv n bld A' (L(P \<mapsto> h))"
  proof (rule comb_invI [OF inv A'(1) _ _ _ pt(1)])
    show "State g = Allocated" if "(L(P \<mapsto> h)) q = Some g" for q g
      using live_allocated [OF inv, of q g] h(2) that by (simp split: if_splits)
    show "binv (aBackend A')" "ok (bHash bld) (aCookie A) (Hd(P \<mapsto> h)) (comb_state A')" using A'(2) b'(1) r(2) by simp_all
  qed
qed

section \<open>Allocation\<close>

text \<open>What the caller gets: a live chunk that was none before, at the alignment, with the size and the origin
  asked, and zeroed when it is from the primary and zeroes were asked for.\<close>

definition new_chunk_ok :: "build_env \<Rightarrow> chunks \<Rightarrow> uptr \<Rightarrow> Origin \<Rightarrow> nat \<Rightarrow> bool \<Rightarrow> 'b allocator \<Rightarrow> uptr \<Rightarrow> UnpackedHeader \<Rightarrow> bool" where
  "new_chunk_ok bld L Sz Org a Z A' P h \<longleftrightarrow> L P = None \<and> P \<noteq> 0 \<and> isAligned P (2 ^ a) \<and> OriginOrWasZeroed h = ucast (origin_val Org) \<and>
     unat Sz \<le> unat (getSize ops (aBackend A') P h) \<and> (ClassId h \<noteq> 0 \<or> a \<le> 19 \<longrightarrow> getSize ops (aBackend A') P h = Sz) \<and>
     (Z \<and> ClassId h \<noteq> 0 \<longrightarrow> (\<forall>x\<in>user_bytes ops (aBackend A') P h. aMemory A' x = 0))"

definition allocated :: "nat \<Rightarrow> build_env \<Rightarrow> chunks \<Rightarrow> uptr \<Rightarrow> Origin \<Rightarrow> nat \<Rightarrow> bool \<Rightarrow> 'b allocator \<Rightarrow> (uptr \<times> 'b allocator) result option \<Rightarrow> bool" where
  "allocated n bld L Sz Org a Z A r \<longleftrightarrow> (case r of None \<Rightarrow> False | Some (Inl x) \<Rightarrow> err x \<or> \<not> opt_get (aOptions A) MayReturnNull \<and> alloc_report Sz a x
     | Some (Inr (P, A')) \<Rightarrow> undisturbed L A A' \<and> (if P = 0 then opt_get (aOptions A) MayReturnNull \<and> comb_inv n bld A' L
         else \<exists>h. comb_inv n bld A' (L(P \<mapsto> h)) \<and> new_chunk_ok bld L Sz Org a Z A' P h))"

lemma MaxAlignment_iff: "a < 64 \<Longrightarrow> MaxAlignment < 2 ^ a \<longleftrightarrow> 24 < a"
proof -
  assume a: "a < 64"
  have "MaxAlignment < 2 ^ a \<longleftrightarrow> (2 :: nat) ^ 24 < 2 ^ a" using unat_pow [OF a] by (simp add: MaxAlignment_def word_less_nat_alt)
  also have "\<dots> \<longleftrightarrow> 24 < a" by (rule power_strict_increasing_iff) simp
  finally show ?thesis .
qed

lemma effective_alignment:
  assumes "a \<le> 24"
  shows "(if 2 ^ a < MinAlignment then MinAlignment else 2 ^ a) = 2 ^ max a 4" "max (2 ^ a) MinAlignment = 2 ^ max a 4"
proof -
  have "2 ^ a < MinAlignment \<longleftrightarrow> (2 :: nat) ^ a < 2 ^ 4" using unat_pow [of a] assms by (simp add: MinAlignment_def word_less_nat_alt)
  also have "\<dots> \<longleftrightarrow> a < 4" by (rule power_strict_increasing_iff) simp
  finally have i: "2 ^ a < MinAlignment \<longleftrightarrow> a < 4" .
  show "(if 2 ^ a < MinAlignment then MinAlignment else 2 ^ a) = 2 ^ max a 4"
    using i by (cases "a < 4") (simp_all add: MinAlignment_def max_def)
  then show "max (2 ^ a) MinAlignment = 2 ^ max a 4" by (metis linorder_not_less max.absorb1 max.absorb2 order.strict_implies_order)
qed

lemma too_big_iff: "MaxAllowedMallocSize \<le> Sz \<longleftrightarrow> 2 ^ 40 \<le> unat Sz"
  by (simp add: MaxAllowedMallocSize_def word_le_nat_alt)

lemma aligned_weaken:
  assumes "isAligned P (2 ^ max a 4)"
  shows "isAligned P (2 ^ a)"
proof -
  have "(2 :: nat) ^ a dvd 2 ^ max a 4" by (intro le_imp_power_dvd) simp
  moreover have "(2 :: nat) ^ max a 4 dvd unat P" using assms unfolding isAligned_exp by (rule mod_0_imp_dvd)
  ultimately have "2 ^ a dvd unat P" by (rule dvd_trans)
  then show ?thesis by (simp add: isAligned_exp)
qed

lemma chunk_header_fields:
  "State (chunk_header c Org s off) = Allocated" "OriginOrWasZeroed (chunk_header c Org s off) = ucast (origin_val Org)"
  "c < 256 \<Longrightarrow> ClassId (chunk_header c Org s off) \<noteq> 0 \<longleftrightarrow> c \<noteq> 0"
  by (simp_all add: chunk_header_def word_unat_eq_iff unat_of_nat)

text \<open>The chunk is put into the block that was found.\<close>

lemma finish_allocation:
  assumes inv: "comb_inv n bld A L" and a: "unat Sz < 2 ^ 40" "4 \<le> a" "a \<le> 24"
    and st: "same_settings A A1" and f: "found (aBackend A) (aBackend A1) c B" "B \<noteq> 0"
    and same: "same_on (\<Union>x\<in>used (aBackend A). block_set ops (aBackend A) x) (aMemory A) (aMemory A1)"
    and room: "block_room (aBackend A1) Sz a c B E" and P: "P = roundUp (B + getHeaderSize) (2 ^ a)"
    and r: "initChunk ops bld c Org B P (if c \<noteq> 0 then Sz else E - (P + Sz)) F A1 = (P', A')" and Z: "Z \<longrightarrow> F = ZeroFill"
  shows "P' = P \<and> undisturbed L A A' \<and> (\<exists>h. comb_inv n bld A' (L(P \<mapsto> h)) \<and> new_chunk_ok bld L Sz Org a Z A' P h)"
proof -
  let ?b = "aBackend A1" and ?s = "if c \<noteq> 0 then Sz else E - (P + Sz)"
  define h where "h = chunk_header c Org ?s (P - (B + getHeaderSize))"
  have b: "binv ?b" "(c, B) \<in> used ?b" "(c, B) \<notin> used (aBackend A)" "ends_kept ops (aBackend A) ?b (used (aBackend A))"
    "used ?b = insert (c, B) (used (aBackend A))" using f by (simp_all add: found_def)
  have p: "placed ?b Sz a c B P h"
    using class_chunk [OF b(1,2) _ room a P] sec_chunk [OF b(1) _ _ a P] b(2) room by (cases "c = 0") (simp_all add: h_def)
  then have i: "in_block ops ?b P h" "chunk_block P h = (c, B)" by (simp_all add: placed_def)
  obtain m' where m: "initChunk ops bld c Org B P ?s F A1 = (P, A1\<lparr>aMemory := m'\<rparr>)"
    "same_on (- block_set ops ?b (c, B)) (aMemory A1) m'" "has_header (bHash bld) (aCookie A1) P h m'"
    "c \<noteq> 0 \<and> F = ZeroFill \<longrightarrow> (\<forall>x\<in>user_bytes ops ?b P h. m' x = 0)"
    by (rule initChunk_memory [OF b(1,2) h_def i])
  have e: "P' = P" "A' = A1\<lparr>aMemory := m'\<rparr>" using r m(1) by simp_all
  have disj: "(\<Union>x\<in>used (aBackend A). block_set ops (aBackend A) x) \<subseteq> - block_set ops ?b (c, B)"
  proof
    fix y assume "y \<in> (\<Union>x\<in>used (aBackend A). block_set ops (aBackend A) x)"
    then obtain x where x: "x \<in> used (aBackend A)" "y \<in> block_set ops ?b x" using ends_kept_set [OF b(4)] by auto
    have "x \<noteq> (c, B)" using x(1) b(3) by auto
    then show "y \<in> - block_set ops ?b (c, B)" using used_disjoint [OF b(1) _ b(2), of x] x b(5) by auto
  qed
  have s: "same_on (\<Union>x\<in>used (aBackend A). block_set ops (aBackend A) x) (aMemory A) m'"
    by (rule same_on_trans [OF same same_on_mono [OF m(2) disj]])
  have ck: "aCookie A1 = aCookie A" using st by (simp add: same_settings_def)
  have st': "same_settings A A'" "comb_state A' = (m', ?b)" using st by (simp_all add: e same_settings_def)
  have "State h = Allocated" by (simp add: h_def chunk_header_fields)
  note ac = add_chunk [OF inv st' f i(2) this s m(3) [unfolded ck] i(1)]
  have "c < 256" using used_block [OF b(1,2)] largest_class by simp
  note hf = chunk_header_fields(3) [OF this, of Org ?s "P - (B + getHeaderSize)", folded h_def]
  have "P \<noteq> 0" using i(1) by (auto simp: in_block_def)
  then have "new_chunk_ok bld L Sz Org a Z A' P h"
    using p ac(1) m(4) Z hf by (auto simp: new_chunk_ok_def placed_def e h_def chunk_header_fields(2))
  then show ?thesis using ac(2,3) e(1) by auto
qed

lemma comb_allocate_spec:
  assumes inv: "comb_inv n bld A L" and e: "env_ok (ceBackend e)" "reserve_ok (ceBackend e) (aBackend A)" and a: "a < 64"
  shows "allocated n bld L Sz Org a Z A (comb_allocate ops bld e Sz Org (2 ^ a) Z A)"
proof -
  let ?null = "opt_get (aOptions A) MayReturnNull"
  consider "24 < a" | "a \<le> 24" "2 ^ 40 \<le> unat Sz" | "a \<le> 24" "unat Sz < 2 ^ 40" by linarith
  then show ?thesis
  proof cases
    case 1
    then have "MaxAlignment < 2 ^ a" using MaxAlignment_iff [OF a] by simp
    then show ?thesis using inv 1 by (simp add: comb_allocate_def allocated_def alloc_report_def)
  next
    case 2
    then have "\<not> MaxAlignment < 2 ^ a" "MaxAllowedMallocSize \<le> Sz" using MaxAlignment_iff [OF a] by (simp_all add: too_big_iff)
    then show ?thesis using inv 2 effective_alignment [OF 2(1)]
      by (simp add: comb_allocate_def Let_def allocated_def alloc_report_def)
  next
    case 3
    let ?a = "max a 4" and ?F = "fill_mode e Z (aOptions A)"
    have a': "4 \<le> ?a" "?a \<le> 24" using 3(1) by simp_all
    have b: "binv (aBackend A)" using inv by (simp add: comb_inv_def)
    have n: "\<not> MaxAlignment < 2 ^ a" "\<not> MaxAllowedMallocSize \<le> Sz" using 3 MaxAlignment_iff [OF a] by (simp_all add: too_big_iff)
    have E: "comb_allocate ops bld e Sz Org (2 ^ a) Z A = bindO (allocate_block ops e Sz (2 ^ ?a) ?F A) (\<lambda>(c, Block, BlockEnd, A').
          if Block = 0 then Some (if ?null then Inr (0, A') else Inl (OutOfMemory (needed_size Sz (2 ^ ?a))))
          else let UserPtr = roundUp (Block + getHeaderSize) (2 ^ ?a); SzOrUnused = (if c \<noteq> 0 then Sz else BlockEnd - (UserPtr + Sz))
               in Some (Inr (initChunk ops bld c Org Block UserPtr SzOrUnused ?F A')))"
      unfolding comb_allocate_def Let_def effective_alignment(1) [OF 3(1)] using n by simp
    note ab = allocate_block_spec [OF b e 3(2) a', of ?F]
    show ?thesis
    proof (cases "allocate_block ops e Sz (2 ^ ?a) ?F A")
      case None
      then show ?thesis using ab by (simp add: block_outcome_def)
    next
      case (Some r)
      show ?thesis
      proof (cases r)
        case (Inl x)
        then show ?thesis using ab Some E by (simp add: block_outcome_def bindO_def allocated_def)
      next
        case (Inr y)
        obtain c B En A1 where y: "y = (c, B, En, A1)" by (metis prod.exhaust)
        have o: "same_settings A A1" "found (aBackend A) (aBackend A1) c B"
          "same_on (\<Union>x\<in>used (aBackend A). block_set ops (aBackend A) x) (aMemory A) (aMemory A1)"
          "B \<noteq> 0 \<longrightarrow> block_room (aBackend A1) Sz ?a c B En" using ab Some Inr by (simp_all add: block_outcome_def y)
        show ?thesis
        proof (cases "B = 0")
          case True
          have "binv (aBackend A1)" "ends_kept ops (aBackend A) (aBackend A1) (used (aBackend A))" "used (aBackend A1) = used (aBackend A)"
            using o(2) True by (simp_all add: found_def)
          from frame_chunks [OF inv o(1) refl this o(3)]
          show ?thesis using Some Inr True E out_of_memory by (simp add: bindO_def y allocated_def)
        next
          case False
          let ?P = "roundUp (B + getHeaderSize) (2 ^ ?a)"
          obtain P' A' where r: "initChunk ops bld c Org B ?P (if c \<noteq> 0 then Sz else En - (?P + Sz)) ?F A1 = (P', A')" by (rule prod.exhaust)
          have "Z \<longrightarrow> ?F = ZeroFill" by (simp add: fill_mode_def)
          from finish_allocation [OF inv 3(2) a' o(1,2) False o(3) o(4) [rule_format, OF False] refl r this]
          have fin: "P' = ?P" "undisturbed L A A'" "\<exists>h. comb_inv n bld A' (L(?P \<mapsto> h)) \<and> new_chunk_ok bld L Sz Org ?a Z A' ?P h" by blast+
          have w: "new_chunk_ok bld L Sz Org ?a Z A' ?P h \<Longrightarrow> new_chunk_ok bld L Sz Org a Z A' ?P h" for h
            using aligned_weaken [of ?P a] by (auto simp: new_chunk_ok_def)
          have "comb_allocate ops bld e Sz Org (2 ^ a) Z A = Some (Inr (P', A'))"
            unfolding E Some Inr y bindO_def using False r by (simp add: Let_def)
          moreover have "?P \<noteq> 0" using fin(3) by (auto simp: new_chunk_ok_def)
          ultimately show ?thesis using fin(1,2) fin(3) w by (auto simp: allocated_def)
        qed
      qed
    qed
  qed
qed

end

end
