(* ===== verification/Combined_Realloc.thy ===== *)
theory Combined_Realloc
  imports Combined_Malloc
begin

text \<open>Reallocation keeps the contents up to the smaller of the two sizes, in place or in a new chunk. The
  program may write to the chunks that it holds.\<close>

lemma in_bytes_of_nat: "i < n \<Longrightarrow> n \<le> 2 ^ 64 \<Longrightarrow> a + of_nat i \<in> bytes_at a n"
  by (simp add: bytes_at_def unat_of_nat)

lemma memcpy_byte:
  assumes "i < unat n"
  shows "memcpy dst src n m (dst + of_nat i) = m (src + of_nat i)"
proof -
  have "i < 2 ^ 64" using assms unat_less_exp [of n] by simp
  then show ?thesis using assms by (simp add: memcpy_def unat_of_nat)
qed

definition same_contents :: "memory \<Rightarrow> uptr \<Rightarrow> memory \<Rightarrow> uptr \<Rightarrow> nat \<Rightarrow> bool" where
  "same_contents m p m' q k \<longleftrightarrow> (\<forall>i<k. m' (q + of_nat i) = m (p + of_nat i))"

context combined_backend
begin

section \<open>A chunk that changes in its block\<close>

lemma change_chunk:
  assumes inv: "comb_inv n bld A L" and p: "L p = Some h" and A': "same_settings A A'" "comb_state A' = (m', aBackend A)"
    and x: "chunk_block p h' = chunk_block p h" "State h' = Allocated"
    and same: "same_on (- block_set ops (aBackend A) (chunk_block p h)) (aMemory A) m'"
    and new: "has_header (bHash bld) (aCookie A) p h' m'" "in_block ops (aBackend A) p h'"
  shows "comb_inv n bld A' (L(p \<mapsto> h'))" "undisturbed (L(p := None)) A A'"
proof -
  let ?b = "aBackend A"
  obtain Hd where Hd: "ok (bHash bld) (aCookie A) Hd (comb_state A)" "parts ops Hd L (waiting_ptrs n A) (waiting_batches n A)"
    "binv ?b" using inv by (rule comb_invE)
  note hp = parts_live(1) [OF Hd(2) p]
  note r = heap_change [OF Hd(1,3) hp x(1) same new]
  show "comb_inv n bld A' (L(p \<mapsto> h'))"
  proof (rule comb_invI [OF inv A'(1) _ _ _ parts_change(3) [OF Hd(2) p]])
    show "State g = Allocated" if "(L(p \<mapsto> h')) q = Some g" for q g
      using live_allocated [OF inv, of q g] x(2) that by (simp split: if_splits)
    show "binv (aBackend A')" "ok (bHash bld) (aCookie A) (Hd(p \<mapsto> h')) (comb_state A')" using A'(2) Hd(3) r by simp_all
  qed
  have L: "L(p := None) \<subseteq>\<^sub>m Hd" using Hd(2) unfolding parts_def map_le_def by auto
  have "p \<notin> dom (L(p := None))" by simp
  note st = live_block_stays [OF Hd(1,3) L hp this]
  have "(\<Union>y\<in>used ?b - {chunk_block p h}. block_set ops ?b y) \<subseteq> - block_set ops ?b (chunk_block p h)"
    using used_disjoint [OF Hd(3) live_chunk(3) [OF inv p]] by blast
  from keepsI [OF Hd(1,3) L ends_kept_refl st same_on_mono [OF same this]]
  show "undisturbed (L(p := None)) A A'" using A' by (intro undisturbedI) simp_all
qed

text \<open>Only the contents change.\<close>

lemma user_write:
  assumes inv: "comb_inv n bld A L" and p: "L p = Some h" and A': "same_settings A A'" "comb_state A' = (m', aBackend A)"
    and same: "same_on (- user_bytes ops (aBackend A) p h) (aMemory A) m'"
  shows "comb_inv n bld A' L" "undisturbed (L(p := None)) A A'"
proof -
  note l = live_chunk [OF inv p]
  note hb = header_in_block [OF l(2)]
  have 1: "same_on (- block_set ops (aBackend A) (chunk_block p h)) (aMemory A) m'" by (rule same_on_mono [OF same]) (use hb(2) in blast)
  have "same_on (bytes_at (getAtomicHeader p) 8) (aMemory A) m'" by (rule same_on_mono [OF same]) (use hb(3) in blast)
  from change_chunk [OF inv p A' refl l(4) 1 has_header_same [OF l(1) this] l(2)]
  show "comb_inv n bld A' L" "undisturbed (L(p := None)) A A'" using p by (simp_all add: map_upd_triv)
qed

text \<open>The contents of an undisturbed chunk.\<close>

lemma undisturbed_contents:
  assumes inv: "comb_inv n bld A L" and p: "L p = Some h" and u: "undisturbed L' A A'" "L' p = Some h"
  shows "same_on (user_bytes ops (aBackend A) p h) (aMemory A) (aMemory A')" "getSize ops (aBackend A') p h = getSize ops (aBackend A) p h"
    "in_block ops (aBackend A') p h" "user_bytes ops (aBackend A') p h = user_bytes ops (aBackend A) p h"
proof -
  note l = live_chunk [OF inv p]
  have k: "same_on (block_set ops (aBackend A) (chunk_block p h)) (aMemory A) (aMemory A')"
    "block_end ops (aBackend A') (chunk_block p h) = block_end ops (aBackend A) (chunk_block p h)"
    using u by (simp_all add: undisturbed_def keeps_def)
  show "same_on (user_bytes ops (aBackend A) p h) (aMemory A) (aMemory A')" by (rule same_on_mono [OF k(1) header_in_block(2) [OF l(2)]])
  show "getSize ops (aBackend A') p h = getSize ops (aBackend A) p h" "in_block ops (aBackend A') p h"
    "user_bytes ops (aBackend A') p h = user_bytes ops (aBackend A) p h"
    using ends_kept_size [OF k(2)] l(2) by simp_all
qed

section \<open>Sizes\<close>

lemma block_extent_live:
  assumes inv: "comb_inv n bld A L" and p: "L p = Some h"
  shows "block_extent ops (aBackend A) p (h\<lparr>hChecksum := x\<rparr>) = (block_end ops (aBackend A) (chunk_block p h), getSize ops (aBackend A) p h)"
  by (simp add: block_extent_def Let_def getSize_def block_end_def chunk_block_def unat_eq_zero algebra_simps)

lemma resized:
  assumes i: "in_block ops b p h" and b: "binv b" "chunk_block p h \<in> used b"
    and E: "E = block_end ops b (chunk_block p h)" and le: "unat p + unat NewSize \<le> unat E"
    and h': "h' = h\<lparr>SizeOrUnusedBytes := ucast ((if ClassId h \<noteq> 0 then NewSize else E - (p + NewSize)) AND SizeOrUnusedBytesMask)\<rparr>"
  shows "chunk_block p h' = chunk_block p h" "in_block ops b p h'" "unat NewSize \<le> unat (getSize ops b p h')"
    "ClassId h \<noteq> 0 \<or> unat E - (unat p + unat NewSize) < 2 ^ 20 \<Longrightarrow> getSize ops b p h' = NewSize"
proof -
  have f: "ClassId h' = ClassId h" "Offset h' = Offset h" by (simp_all add: h')
  note sp = same_place(1,2) [OF f, of p]
  show "chunk_block p h' = chunk_block p h" by (rule sp(2))
  have m: "(ucast (ucast (s AND SizeOrUnusedBytesMask) :: 20 word) :: uptr) = s AND (2 ^ 20 - 1)" for s :: uptr
    unfolding SizeOrUnusedBytesMask_def word_exp_minus_1 by (rule bit_word_eqI) (auto simp: bit_simps)
  have e: "unat E < 2 ^ 64" using unat_less_exp [of E] by simp
  have g: "unat NewSize \<le> unat (getSize ops b p h') \<and> unat p + unat (getSize ops b p h') \<le> unat E \<and>
      (ClassId h \<noteq> 0 \<or> unat E - (unat p + unat NewSize) < 2 ^ 20 \<longrightarrow> getSize ops b p h' = NewSize)"
  proof (cases "ClassId h = 0")
    case False
    let ?c = "unat (ClassId h)"
    have c: "0 < ?c" "?c \<le> boLargestClassId ops" using False used_block [OF b] by (simp_all add: chunk_block_def unat_gt_0)
    have "unat E = unat (getBlockBegin p h) + unat (boClassSize ops ?c)"
      using class_block_end(1) [OF b(1) _ c(1), of "getBlockBegin p h"] b(2) by (simp add: E chunk_block_def)
    then have "unat NewSize < 2 ^ 20" using le i class_bounds [OF c] by (simp add: in_block_def)
    then have "NewSize AND (2 ^ 20 - 1) = NewSize" by (rule mask_field)
    then have "getSize ops b p h' = NewSize" using False m [of NewSize] by (simp add: getSize_def h')
    then show ?thesis using le by simp
  next
    case True
    let ?u = "E - (p + NewSize)"
    have "unat (p + NewSize) = unat p + unat NewSize" using le e by (subst unat_add_lem [THEN iffD1]) simp_all
    then have u: "unat ?u = unat E - (unat p + unat NewSize)" using le by (subst unat_sub) (simp_all add: word_le_nat_alt)
    have mm: "unat (?u AND (2 ^ 20 - 1)) = unat ?u mod 2 ^ 20" by (simp only: word_exp_minus_1 unat_and_mask)
    have gs: "getSize ops b p h' = E - p - (?u AND (2 ^ 20 - 1))"
      using True m [of ?u] by (simp add: getSize_def h' E block_end_def chunk_block_def getBlockBegin_def)
    have EP: "unat (E - p) = unat E - unat p" using le by (subst unat_sub) (simp_all add: word_le_nat_alt)
    have l2: "unat ?u mod 2 ^ 20 \<le> unat ?u" by simp
    have ug: "unat (getSize ops b p h') = unat E - unat p - unat ?u mod 2 ^ 20"
      unfolding gs using EP mm u l2 le by (subst unat_sub) (simp_all add: word_le_nat_alt)
    have "getSize ops b p h' = NewSize" if "unat E - (unat p + unat NewSize) < 2 ^ 20"
    proof -
      have "unat ?u mod 2 ^ 20 = unat ?u" using that u by (intro mod_less) simp
      then show ?thesis using ug u le by (simp add: word_unat_eq_iff)
    qed
    then show ?thesis using ug u l2 le True by (intro conjI impI) (linarith, linarith, simp)
  qed
  then show "in_block ops b p h'" using i sp by (simp add: in_block_def E)
  show "unat NewSize \<le> unat (getSize ops b p h')" using g by simp
  show "ClassId h \<noteq> 0 \<or> unat E - (unat p + unat NewSize) < 2 ^ 20 \<Longrightarrow> getSize ops b p h' = NewSize" using g by simp
qed

section \<open>Reallocation\<close>

definition reallocated :: "nat \<Rightarrow> build_env \<Rightarrow> chunks \<Rightarrow> uptr \<Rightarrow> UnpackedHeader \<Rightarrow> uptr \<Rightarrow> nat \<Rightarrow> 'b allocator \<Rightarrow> (uptr \<times> 'b allocator) result option \<Rightarrow> bool" where
  "reallocated n bld L p h NewSize a A r \<longleftrightarrow> (case r of None \<Rightarrow> False
     | Some (Inl x) \<Rightarrow> err x \<or> \<not> opt_get (aOptions A) MayReturnNull \<and> (alloc_report NewSize a x \<or> x = AllocationSizeTooBig NewSize 0 MaxAllowedMallocSize) \<or>
         opt_get (aOptions A) OptDeallocTypeMismatch \<and> OriginOrWasZeroed h \<noteq> ucast (origin_val Malloc) \<and>
           x = DeallocTypeMismatch Reallocating p (ucast (OriginOrWasZeroed h)) (origin_val Malloc)
     | Some (Inr (q, A')) \<Rightarrow> if q = 0 then opt_get (aOptions A) MayReturnNull \<and> comb_inv n bld A' L \<and> undisturbed L A A'
         else \<exists>g. comb_inv n bld A' ((L(p := None))(q \<mapsto> g)) \<and> undisturbed (L(p := None)) A A' \<and> (q \<noteq> p \<longrightarrow> L q = None) \<and>
           unat NewSize \<le> unat (getSize ops (aBackend A') q g) \<and>
           same_contents (aMemory A) p (aMemory A') q (min (unat NewSize) (unat (getSize ops (aBackend A) p h))))"

lemma reallocated_simps:
  "reallocated n bld L p h NewSize a A (Some (Inr (q, A'))) \<longleftrightarrow> (if q = 0 then opt_get (aOptions A) MayReturnNull \<and> comb_inv n bld A' L \<and> undisturbed L A A'
         else \<exists>g. comb_inv n bld A' ((L(p := None))(q \<mapsto> g)) \<and> undisturbed (L(p := None)) A A' \<and> (q \<noteq> p \<longrightarrow> L q = None) \<and>
           unat NewSize \<le> unat (getSize ops (aBackend A') q g) \<and>
           same_contents (aMemory A) p (aMemory A') q (min (unat NewSize) (unat (getSize ops (aBackend A) p h))))"
  "err x \<Longrightarrow> reallocated n bld L p h NewSize a A (Some (Inl x))"
  by (simp_all add: reallocated_def)

lemma same_contents_on:
  assumes "same_on (bytes_at p k) m m'" and "k \<le> 2 ^ 64" and "j \<le> k"
  shows "same_contents m p m' p j"
  using assms in_bytes_of_nat [of _ k p] by (auto simp: same_contents_def same_on_def)

text \<open>In place.\<close>

lemma resize_spec:
  assumes inv: "comb_inv n bld A L" and p: "L p = Some h"
    and E: "E = block_end ops (aBackend A) (chunk_block p h)" and O: "OldSize = getSize ops (aBackend A) p h"
    and le: "unat p + unat NewSize \<le> unat E"
    and r: "A' = resize_in_place bld e p (h\<lparr>hChecksum := x\<rparr>) E OldSize NewSize A"
  shows "reallocated n bld L p h NewSize a A (Some (Inr (p, A')))"
proof -
  let ?b = "aBackend A" and ?ck = "aCookie A"
  note l = live_chunk [OF inv p] and hb = header_in_block [OF live_chunk(2) [OF inv p]]
  have b: "binv ?b" using inv by (simp add: comb_inv_def)
  define F where "F = fill_mode e False (aOptions A)"
  define m1 where "m1 = (if NewSize < OldSize \<and> F \<noteq> NoFill then memset (p + NewSize) (fill_byte F) (OldSize - NewSize) (aMemory A) else aMemory A)"
  define h' where "h' = h\<lparr>SizeOrUnusedBytes := ucast ((if ClassId h \<noteq> 0 then NewSize else E - (p + NewSize)) AND SizeOrUnusedBytesMask)\<rparr>"
  define m2 where "m2 = mem_storeHeader (bHash bld) ?ck p (h'\<lparr>hChecksum := x\<rparr>) m1"
  have hx: "h\<lparr>hChecksum := x, SizeOrUnusedBytes := v\<rparr> = h\<lparr>SizeOrUnusedBytes := v, hChecksum := x\<rparr>" for v by (cases h) simp
  have cx: "ClassId (h\<lparr>hChecksum := x\<rparr>) = ClassId h" by simp
  have A': "A' = A\<lparr>aMemory := m2\<rparr>"
    unfolding r resize_in_place_def Let_def F_def [symmetric] m1_def [symmetric] hx cx h'_def [symmetric] m2_def [symmetric] ..
  note rs = resized [OF l(2) b l(3) E le h'_def]
  have ub: "user_bytes ops ?b p h = bytes_at p (unat OldSize)" by (simp add: user_bytes_def O)
  have pe: "unat p + unat OldSize < 2 ^ 64" using l(2) unat_less_exp [of "block_end ops ?b (chunk_block p h)"] by (simp add: in_block_def O)
  have s1: "same_on (- bytes_at p (unat OldSize)) (aMemory A) m1 \<and> same_on (bytes_at p (min (unat NewSize) (unat OldSize))) (aMemory A) m1"
  proof (cases "NewSize < OldSize \<and> F \<noteq> NoFill")
    case False
    then have "m1 = aMemory A" unfolding m1_def by (rule if_not_P)
    then show ?thesis by simp
  next
    case True
    have lt: "unat NewSize < unat OldSize" using True by (simp add: word_less_nat_alt)
    have u: "unat (OldSize - NewSize) = unat OldSize - unat NewSize" "unat (p + NewSize) = unat p + unat NewSize"
      using lt pe by (subst unat_sub, simp_all add: word_le_nat_alt) (subst unat_add_lem [THEN iffD1], simp_all)
    have "bytes_at (p + NewSize) (unat (OldSize - NewSize)) \<subseteq> bytes_at p (unat OldSize)"
      unfolding u(1) using u(2) lt pe by (intro bytes_at_subset) simp_all
    moreover have "bytes_at p (min (unat NewSize) (unat OldSize)) \<inter> bytes_at (p + NewSize) (unat (OldSize - NewSize)) = {}"
      unfolding u(1) using u(2) lt pe by (intro bytes_at_disjoint) simp_all
    ultimately show ?thesis using True unfolding m1_def by (auto intro!: memset_same_on)
  qed
  have h2: "bytes_at (getAtomicHeader p) 8 \<subseteq> block_set ops ?b (chunk_block p h)" "bytes_at (getAtomicHeader p) 8 \<inter> bytes_at p (unat OldSize) = {}"
    using hb(1,3) by (simp_all add: ub)
  have s2: "same_on (- block_set ops ?b (chunk_block p h)) (aMemory A) m2"
    unfolding m2_def by (rule same_on_trans [OF same_on_mono [OF conjunct1 [OF s1]] stored_same_on]) (use h2(1) hb(2) ub in auto)
  have "same_on (bytes_at p (min (unat NewSize) (unat OldSize))) m1 m2"
    unfolding m2_def
    by (rule stored_same_on) (use h2(2) bytes_at_subset [of p p "min (unat NewSize) (unat OldSize)" "unat OldSize"] pe in auto)
  then have s3: "same_on (bytes_at p (min (unat NewSize) (unat OldSize))) (aMemory A) m2" using s1 same_on_trans by blast
  have hh: "has_header (bHash bld) ?ck p h' m2"
    using has_header_stored [of "bHash bld" ?ck p "h'\<lparr>hChecksum := x\<rparr>" m1, folded m2_def] by (simp add: has_header_def)
  have "State h' = Allocated" using l(4) by (simp add: h'_def)
  from change_chunk [OF inv p _ _ rs(1) this s2 hh rs(2), of A']
  have c: "comb_inv n bld A' (L(p \<mapsto> h'))" "undisturbed (L(p := None)) A A'" by (simp_all add: A' same_settings_def)
  have "p \<noteq> 0" using l(2) by (auto simp: in_block_def)
  moreover have "same_contents (aMemory A) p m2 p (min (unat NewSize) (unat OldSize))"
    by (rule same_contents_on [OF s3]) (use pe in simp_all)
  ultimately show ?thesis using c rs(3) by (auto simp: reallocated_simps A' O)
qed

text \<open>In a new chunk.\<close>

lemma move_spec:
  assumes inv: "comb_inv n bld A L" and p: "L p = Some h" and al: "undisturbed L A A1" "comb_inv n bld A1 (L(q \<mapsto> g))"
    and q: "L q = None" "q \<noteq> 0" "unat NewSize \<le> unat (getSize ops (aBackend A1) q g)" and O: "OldSize = getSize ops (aBackend A) p h"
    and e: "env_ok (ceBackend e)" "ceTSD e < n"
  shows "reallocated n bld L p h NewSize a A (bindO (quarantineOrDeallocateChunk ops bld e p (h\<lparr>hChecksum := x\<rparr>) OldSize
     (A1\<lparr>aMemory := memcpy q p (min NewSize OldSize) (aMemory A1)\<rparr>)) (\<lambda>A. Some (Inr (q, A))))"
proof -
  let ?L = "L(q \<mapsto> g)" and ?k = "unat (min NewSize OldSize)"
  define m where "m = memcpy q p (min NewSize OldSize) (aMemory A1)"
  let ?A2 = "A1\<lparr>aMemory := m\<rparr>"
  have pq: "p \<noteq> q" using p q(1) by auto
  have k: "?k = min (unat NewSize) (unat OldSize)" by (simp add: min_def word_le_nat_alt)
  have Lq: "?L q = Some g" "?L p = Some h" using p pq by simp_all
  have "bytes_at q ?k \<subseteq> user_bytes ops (aBackend A1) q g" using q(3) k by (auto simp: user_bytes_def bytes_at_def)
  then have "same_on (- user_bytes ops (aBackend A1) q g) (aMemory A1) m" unfolding m_def by (intro memcpy_same_on) auto
  note w = user_write [OF al(2) Lq(1) _ _ this, of ?A2]
  have i2: "comb_inv n bld ?A2 ?L" "undisturbed (?L(q := None)) A1 ?A2" by (rule w; simp add: same_settings_def)+
  have u2: "undisturbed (L(p := None)) A ?A2"
    by (rule undisturbed_trans [OF undisturbed_mono [OF al(1)] undisturbed_mono [OF i2(2)]]) (use q(1) in \<open>auto simp: map_le_def\<close>)
  note f = quarantineOrDeallocate_spec [OF i2(1) Lq(2) e, of x OldSize]
  let ?r = "quarantineOrDeallocateChunk ops bld e p (h\<lparr>hChecksum := x\<rparr>) OldSize ?A2"
  have old: "m (q + of_nat i) = aMemory A (p + of_nat i)" if "i < ?k" for i
  proof -
    have "same_on (user_bytes ops (aBackend A) p h) (aMemory A) (aMemory A1)" by (rule undisturbed_contents(1) [OF inv p al(1) p])
    moreover have "p + of_nat i \<in> user_bytes ops (aBackend A) p h"
      unfolding user_bytes_def O [symmetric] using that k unat_less_exp [of OldSize] by (intro in_bytes_of_nat) simp_all
    ultimately show ?thesis using memcpy_byte [OF that] by (simp add: m_def same_on_def)
  qed
  show ?thesis
  proof (cases ?r)
    case None
    then show ?thesis using f by (simp add: freed_def)
  next
    case (Some r)
    show ?thesis
    proof (cases r)
      case (Inl y)
      then have "err y" using f Some by simp
      then show ?thesis using Some Inl by (simp add: bindO_def m_def reallocated_simps(2))
    next
      case (Inr A3)
      have f: "comb_inv n bld A3 (?L(p := None))" "undisturbed (?L(p := None)) ?A2 A3" using f [unfolded Some Inr freed_simps] by blast+
      have le: "L(p := None) \<subseteq>\<^sub>m ?L(p := None)" using q(1) by (auto simp: map_le_def)
      have u3: "undisturbed (L(p := None)) A A3" by (rule undisturbed_trans [OF u2 undisturbed_mono [OF f(2) le]])
      have "(?L(p := None)) q = Some g" using pq by simp
      note c = undisturbed_contents [OF i2(1) Lq(1) f(2) this]
      have c1: "same_on (user_bytes ops (aBackend A1) q g) m (aMemory A3)" "getSize ops (aBackend A3) q g = getSize ops (aBackend A1) q g"
        using c(1,2) by simp_all
      have "aMemory A3 (q + of_nat i) = aMemory A (p + of_nat i)" if "i < ?k" for i
      proof -
        have "q + of_nat i \<in> user_bytes ops (aBackend A1) q g"
          unfolding user_bytes_def using that k q(3) unat_less_exp [of "getSize ops (aBackend A1) q g"] by (intro in_bytes_of_nat) simp_all
        then show ?thesis using c1(1) old [OF that] by (simp add: same_on_def)
      qed
      then have "same_contents (aMemory A) p (aMemory A3) q (min (unat NewSize) (unat OldSize))" by (simp add: same_contents_def k)
      moreover have "(?L(p := None)) = (L(p := None))(q \<mapsto> g)" using pq by (simp add: fun_upd_twist)
      ultimately show ?thesis using Some Inr f(1) u3 q c1(2) by (auto simp: bindO_def m_def reallocated_simps(1) O)
    qed
  qed
qed

lemma comb_reallocate_spec:
  assumes inv: "comb_inv n bld A L" and p: "L p = Some h" and e: "env_ok (ceBackend e)" "reserve_ok (ceBackend e) (aBackend A)"
    and e': "env_ok (ceBackend e')" "ceTSD e' < n" and a: "a < 64"
  shows "reallocated n bld L p h NewSize a A (comb_reallocate ops bld e e' p NewSize (2 ^ a) A)"
proof (cases "MaxAllowedMallocSize \<le> NewSize")
  case True
  then show ?thesis using inv by (simp add: comb_reallocate_def reallocated_def)
next
  case False
  note l = live_chunk [OF inv p]
  let ?x = "computeHeaderChecksum (bHash bld) (aCookie A) p h"
  let ?E = "block_end ops (aBackend A) (chunk_block p h)" and ?O = "getSize ops (aBackend A) p h"
  have al: "isAligned p MinAlignment" using l(2) by (simp add: in_block_def MinAlignment_def)
  have ck: "check_reallocation bld p A = (if opt_get (aOptions A) OptDeallocTypeMismatch \<and> OriginOrWasZeroed h \<noteq> ucast (origin_val Malloc)
      then Inl (DeallocTypeMismatch Reallocating p (ucast (OriginOrWasZeroed h)) (origin_val Malloc)) else Inr (h\<lparr>hChecksum := ?x\<rparr>))"
    using al l(4) by (simp add: check_reallocation_def loads [OF l(1)])
  show ?thesis
  proof (cases "opt_get (aOptions A) OptDeallocTypeMismatch \<and> OriginOrWasZeroed h \<noteq> ucast (origin_val Malloc)")
    case True
    then show ?thesis using ck False by (simp add: comb_reallocate_def bindO_def reallocated_def)
  next
    case nt: False
    have E: "comb_reallocate ops bld e e' p NewSize (2 ^ a) A =
        (if p + NewSize \<le> ?E \<and> (?O < NewSize \<or> ?O - NewSize < bPageSize bld)
         then Some (Inr (p, resize_in_place bld e p (h\<lparr>hChecksum := ?x\<rparr>) ?E ?O NewSize A))
         else bindO (comb_allocate ops bld e NewSize Malloc (2 ^ a) False A) (\<lambda>(NewPtr, A).
           if NewPtr = 0 then Some (Inr (0, A))
           else let A = A\<lparr>aMemory := memcpy NewPtr p (min NewSize ?O) (aMemory A)\<rparr>
                in bindO (quarantineOrDeallocateChunk ops bld e' p (h\<lparr>hChecksum := ?x\<rparr>) ?O A) (\<lambda>A. Some (Inr (NewPtr, A)))))"
      unfolding comb_reallocate_def ck if_not_P [OF nt] if_not_P [OF False] bindO_def option.case sum.case
        block_extent_live [OF inv p] Let_def prod.case ..
    show ?thesis
    proof (cases "p + NewSize \<le> ?E \<and> (?O < NewSize \<or> ?O - NewSize < bPageSize bld)")
      case True
      have "unat ?E < 2 ^ 63" using used_block [OF _ l(3)] inv by (simp add: comb_inv_def)
      moreover have "unat p \<le> unat ?E" using l(2) by (simp add: in_block_def)
      moreover have "unat NewSize < 2 ^ 40" using False by (simp add: too_big_iff)
      ultimately have "unat (p + NewSize) = unat p + unat NewSize" by (subst unat_add_lem [THEN iffD1]) simp_all
      then have "unat p + unat NewSize \<le> unat ?E" using True by (simp add: word_le_nat_alt)
      from resize_spec [OF inv p refl refl this refl] show ?thesis using True E by simp
    next
      case nr: False
      note ab = comb_allocate_spec [OF inv e a, of NewSize Malloc False]
      show ?thesis
      proof (cases "comb_allocate ops bld e NewSize Malloc (2 ^ a) False A")
        case None
        then show ?thesis using ab by (simp add: allocated_def)
      next
        case (Some r)
        show ?thesis
        proof (cases r)
          case (Inl y)
          then show ?thesis using ab Some E nr by (auto simp: allocated_def bindO_def reallocated_def)
        next
          case (Inr z)
          obtain q A1 where z: "z = (q, A1)" by (rule prod.exhaust)
          show ?thesis
          proof (cases "q = 0")
            case True
            then show ?thesis using ab Some Inr E nr by (auto simp: allocated_def bindO_def reallocated_simps(1) z)
          next
            case q0: False
            obtain g where g: "undisturbed L A A1" "comb_inv n bld A1 (L(q \<mapsto> g))" "L q = None" "unat NewSize \<le> unat (getSize ops (aBackend A1) q g)"
              using ab Some Inr q0 by (auto simp: allocated_def z new_chunk_ok_def)
            from move_spec [OF inv p g(1,2,3) q0 g(4) refl e', of a ?x]
            show ?thesis using Some Inr E nr q0 by (simp add: bindO_def z Let_def)
          qed
        qed
      qed
    qed
  qed
qed

end

end
