(* ===== verification/Combined_Run.thy ===== *)
theory Combined_Run
  imports Combined_Realloc
begin

text \<open>A program that uses the combined allocator: it allocates, writes to what it holds, reallocates and frees,
  from several threads, and every state it reaches keeps the invariant.\<close>

section \<open>The steps of a program\<close>

text \<open>The allocator, and for each pointer that the program holds the size that it asked for.\<close>

type_synonym 'b program = "'b allocator \<times> (uptr \<rightharpoonup> uptr)"

inductive comb_step :: "('e, 'b) backend_ops \<Rightarrow> build_env \<Rightarrow> ('e call_env \<Rightarrow> bool) \<Rightarrow> ('e \<Rightarrow> 'b \<Rightarrow> bool) \<Rightarrow> 'b program \<Rightarrow> 'b program \<Rightarrow> bool"
  for ops bld call_ok reserve_ok where
  step_malloc: "\<lbrakk> call_ok e; reserve_ok (ceBackend e) (aBackend A); a < 64; comb_allocate ops bld e Sz Org (2 ^ a) Z A = Some (Inr (p, A')) \<rbrakk> \<Longrightarrow>
    comb_step ops bld call_ok reserve_ok (A, V) (A', if p = 0 then V else V(p \<mapsto> Sz))"
| step_free: "\<lbrakk> call_ok e; V p = Some Sz; comb_deallocate ops bld e p Org DeleteSize A = Some (Inr A') \<rbrakk> \<Longrightarrow>
    comb_step ops bld call_ok reserve_ok (A, V) (A', V(p := None))"
| step_realloc: "\<lbrakk> call_ok e; call_ok e'; reserve_ok (ceBackend e) (aBackend A); a < 64; V p = Some Sz;
      comb_reallocate ops bld e e' p NewSize (2 ^ a) A = Some (Inr (q, A')) \<rbrakk> \<Longrightarrow>
    comb_step ops bld call_ok reserve_ok (A, V) (A', if q = 0 then V else (V(p := None))(q \<mapsto> NewSize))"
| step_write: "\<lbrakk> V p = Some Sz; same_on (- bytes_at p (unat Sz)) (aMemory A) m' \<rbrakk> \<Longrightarrow>
    comb_step ops bld call_ok reserve_ok (A, V) (A\<lparr>aMemory := m'\<rparr>, V)"
| step_drain: "\<lbrakk> call_ok e; comb_drainCache ops bld e A = Some (Inr A') \<rbrakk> \<Longrightarrow> comb_step ops bld call_ok reserve_ok (A, V) (A', V)"
| step_fill: "comb_step ops bld call_ok reserve_ok (A, V) (setFillContents F A, V)"
| step_slack: "comb_step ops bld call_ok reserve_ok (A, V) (setAddLargeAllocationSlack s A, V)"

text \<open>Before the first allocation.\<close>

definition comb_fresh :: "nat \<Rightarrow> 'b allocator \<Rightarrow> bool" where
  "comb_fresh n A \<longleftrightarrow> (\<forall>t<n. aQuarantineCaches A t = empty_quarantine) \<and> gqCache (aQuarantine A) = empty_quarantine"

text \<open>The reports that wrong arguments of the deallocation of a live chunk end in.\<close>

definition free_report :: "u32 \<Rightarrow> UnpackedHeader \<Rightarrow> uptr \<Rightarrow> Origin \<Rightarrow> uptr \<Rightarrow> uptr \<Rightarrow> report option" where
  "free_report Options h Ptr Org DeleteSize Sz =
    (if opt_get Options OptDeallocTypeMismatch \<and> OriginOrWasZeroed h \<noteq> ucast (origin_val Org) \<and>
        (OriginOrWasZeroed h \<noteq> ucast (origin_val Memalign) \<or> Org \<noteq> Malloc)
     then Some (DeallocTypeMismatch Deallocating Ptr (ucast (OriginOrWasZeroed h)) (origin_val Org))
     else if DeleteSize \<noteq> 0 \<and> opt_get Options OptDeleteSizeMismatch \<and> DeleteSize \<noteq> Sz then Some (DeleteSizeMismatch Ptr DeleteSize Sz)
     else None)"

context combined_backend
begin

definition prog_inv :: "nat \<Rightarrow> build_env \<Rightarrow> 'b program \<Rightarrow> bool" where
  "prog_inv n bld = (\<lambda>(A, V). \<exists>L. comb_inv n bld A L \<and> dom L = dom V \<and>
     (\<forall>p h Sz. L p = Some h \<longrightarrow> V p = Some Sz \<longrightarrow> unat Sz \<le> unat (getSize ops (aBackend A) p h)))"

abbreviation "call_ok n e \<equiv> env_ok (ceBackend e) \<and> ceTSD e < n"

section \<open>Deallocation\<close>

lemma check_deallocation_live:
  assumes inv: "comb_inv n bld A L" and p: "L p = Some h"
  shows "check_deallocation ops bld p Org DeleteSize A =
    (case free_report (aOptions A) h p Org DeleteSize (getSize ops (aBackend A) p h) of Some x \<Rightarrow> Inl x
     | None \<Rightarrow> Inr (h\<lparr>hChecksum := computeHeaderChecksum (bHash bld) (aCookie A) p h\<rparr>, getSize ops (aBackend A) p h))"
proof -
  note l = live_chunk [OF inv p]
  have al: "isAligned p MinAlignment" using l(2) by (simp add: in_block_def MinAlignment_def)
  have gs: "getSize ops b p (h\<lparr>hChecksum := x\<rparr>) = getSize ops b p h" for b x by (simp add: getSize_def)
  show ?thesis
    unfolding check_deallocation_def loads [OF l(1)] bindR.simps free_report_def Let_def using al l(4) gs by simp
qed

lemma comb_deallocate_spec:
  assumes inv: "comb_inv n bld A L" and p: "L p = Some h" and e: "env_ok (ceBackend e)" "ceTSD e < n"
  shows "case free_report (aOptions A) h p Org DeleteSize (getSize ops (aBackend A) p h) of
      Some x \<Rightarrow> comb_deallocate ops bld e p Org DeleteSize A = Some (Inl x)
    | None \<Rightarrow> freed n bld L p A (comb_deallocate ops bld e p Org DeleteSize A)"
proof -
  have p0: "p \<noteq> 0" using live_chunk(2) [OF inv p] by (auto simp: in_block_def)
  show ?thesis
    using p0 quarantineOrDeallocate_spec [OF inv p e, of "computeHeaderChecksum (bHash bld) (aCookie A) p h" "getSize ops (aBackend A) p h"]
    by (simp add: comb_deallocate_def check_deallocation_live [OF inv p] bindO_def split: option.split)
qed

section \<open>Draining the cache of a thread\<close>

lemma drain_spec:
  assumes inv: "comb_inv n bld A L" and e: "env_ok (ceBackend e)" "ceTSD e < n"
  shows "case comb_drainCache ops bld e A of None \<Rightarrow> False | Some (Inl x) \<Rightarrow> err x
    | Some (Inr A') \<Rightarrow> comb_inv n bld A' L \<and> undisturbed L A A' \<and> qcList (aQuarantineCaches A' (ceTSD e)) = []"
proof -
  let ?t = "ceTSD e" and ?e = "ceBackend e" and ?C = "aQuarantineCaches A" and ?Q = "aQuarantine A" and ?ck = "aCookie A"
  obtain Hd where Hd: "ok (bHash bld) ?ck Hd (comb_state A)" "parts ops Hd L (waiting_ptrs n A) (waiting_batches n A)"
    "binv (aBackend A)" "quarantines_ok n A" using inv by (rule comb_invE)
  define X where "X = (\<Sum>u\<in>{..<n} - {?t}. ptrs_of (qcList (?C u)))"
  define B where "B = (\<Sum>u\<in>{..<n} - {?t}. addrs_of (qcList (?C u)))"
  have "holds (bHash bld) ?e ?ck L (comb_state A) (X + ptrs_of (qcList (?C ?t)) + ptrs_of (qcList (gqCache ?Q)))
      (B + addrs_of (qcList (?C ?t)) + addrs_of (qcList (gqCache ?Q))) (comb_state A)"
    unfolding holds_def using e(1) Hd by (auto simp: waiting_split [OF e(2)] X_def B_def)
  then have "qc.waits bld ?e ?ck L (comb_state A) X B (?C ?t) ?Q (comb_state A)"
    using Hd(4) e(2) by (simp add: qc.waits_def quarantines_ok_def)
  note w = qc.drainAndRecycle_ok [OF this, of "ceFrame e"]
  let ?d = "quarantine_drainAndRecycle (QuarantineCallback ops bld ?e ?ck) (ceFrame e) (?C ?t, ?Q, comb_state A)"
  show ?thesis
  proof (cases ?d)
    case (Inl x)
    then show ?thesis using w by (simp add: comb_drainCache_def bindO_def)
  next
    case (Inr y)
    obtain C' Q' m b where y: "y = (C', Q', (m, b))" by (metis prod.exhaust)
    have w: "qc.waits bld ?e ?ck L (comb_state A) X B C' Q' (m, b)" "qcList C' = []" using w Inr by (simp_all add: y)
    let ?A1 = "A\<lparr>aQuarantineCaches := ?C(?t := C'), aQuarantine := Q', aMemory := m, aBackend := b\<rparr>"
    have st: "\<forall>p h. L p = Some h \<longrightarrow> State h = Allocated" using live_allocated [OF inv] by simp
    note i = waits_comb_inv [OF e(2) Hd(4) st w(1) X_def B_def, where A' = ?A1]
    have i: "comb_inv n bld ?A1 L" "keeps L (comb_state A) (m, b)" by (rule i; simp)+
    have b: "binv b" using i(1) by (simp add: comb_inv_def)
    obtain r where r: "boDrain ops ?e b = Some r" "case r of Inl x \<Rightarrow> err x | Inr b' \<Rightarrow> binv b' \<and> ends_kept ops b b' (used b) \<and> used b' = used b"
      using drain_law [OF b e(1)] by blast
    show ?thesis
    proof (cases r)
      case (Inl x)
      then show ?thesis using r Inr by (simp add: comb_drainCache_def bindO_def y)
    next
      case (Inr b')
      let ?A2 = "A\<lparr>aQuarantineCaches := ?C(?t := C'), aQuarantine := Q', aMemory := m, aBackend := b'\<rparr>"
      have b': "binv b'" "ends_kept ops (aBackend ?A1) b' (used (aBackend ?A1))" "used b' = used (aBackend ?A1)" using r(2) Inr by simp_all
      have sm: "same_on (\<Union>x\<in>used (aBackend ?A1). block_set ops (aBackend ?A1) x) (aMemory ?A1) m" by simp
      have "comb_inv n bld ?A2 L" "undisturbed L ?A1 ?A2"
        by (rule frame_chunks [OF i(1) _ _ b' sm]; simp add: same_settings_def)+
      moreover have "undisturbed L A ?A1" using i(2) by (simp add: undisturbed_def)
      moreover have "comb_drainCache ops bld e A = Some (Inr ?A2)"
        using \<open>?d = Inr y\<close> r(1) Inr by (simp add: comb_drainCache_def bindO_def y)
      ultimately show ?thesis using undisturbed_trans w(2) by auto
    qed
  qed
qed

section \<open>Every step keeps the invariant\<close>

lemma sizes_kept:
  assumes inv: "comb_inv n bld A L" and u: "undisturbed L' A A'" and le: "L' \<subseteq>\<^sub>m L" "L' p = Some h"
  shows "getSize ops (aBackend A') p h = getSize ops (aBackend A) p h"
proof -
  have "L p = Some h" using le unfolding map_le_def by (metis domI)
  from undisturbed_contents(2) [OF inv this u le(2)] show ?thesis .
qed

lemma prog_invI:
  assumes "comb_inv n bld A L" "dom L = dom V" "\<And>p h Sz. L p = Some h \<Longrightarrow> V p = Some Sz \<Longrightarrow> unat Sz \<le> unat (getSize ops (aBackend A) p h)"
  shows "prog_inv n bld (A, V)"
  using assms by (auto simp: prog_inv_def)

lemma prog_invE:
  assumes "prog_inv n bld (A, V)"
  obtains L where "comb_inv n bld A L" "dom L = dom V" "\<And>p h Sz. L p = Some h \<Longrightarrow> V p = Some Sz \<Longrightarrow> unat Sz \<le> unat (getSize ops (aBackend A) p h)"
  using assms by (auto simp: prog_inv_def)

lemma step_keeps:
  assumes "comb_step ops bld (call_ok n) reserve_ok S S'" and "prog_inv n bld S"
  shows "prog_inv n bld S'"
  using assms
proof (induction rule: comb_step.induct)
  case (step_malloc e A a Sz Org Z p A' V)
  obtain L where L: "comb_inv n bld A L" "dom L = dom V" "\<And>p h Sz. L p = Some h \<Longrightarrow> V p = Some Sz \<Longrightarrow> unat Sz \<le> unat (getSize ops (aBackend A) p h)"
    using step_malloc(5) by (rule prog_invE) blast
  have al: "allocated n bld L Sz Org a Z A (Some (Inr (p, A')))"
    using comb_allocate_spec [OF L(1) _ step_malloc(2,3), of Sz Org Z] step_malloc(1,4) by simp
  have u: "undisturbed L A A'" using al by (simp add: allocated_def)
  have k: "unat Sz' \<le> unat (getSize ops (aBackend A') q g)" if "L q = Some g" "V q = Some Sz'" for q g Sz'
    using sizes_kept [OF L(1) u map_le_refl that(1)] L(3) [OF that] by simp
  show ?case
  proof (cases "p = 0")
    case True
    then have "prog_inv n bld (A', V)" using al L(2) k by (intro prog_invI) (auto simp: allocated_def)
    then show ?thesis using True by simp
  next
    case False
    then obtain h where h: "comb_inv n bld A' (L(p \<mapsto> h))" "new_chunk_ok bld L Sz Org a Z A' p h" using al by (auto simp: allocated_def)
    have "prog_inv n bld (A', V(p \<mapsto> Sz))"
      by (rule prog_invI [OF h(1)]) (use L(2) k h(2) in \<open>auto simp: new_chunk_ok_def split: if_splits\<close>)
    then show ?thesis using False by simp
  qed
next
  case (step_free e V p Sz Org DeleteSize A A')
  obtain L where L: "comb_inv n bld A L" "dom L = dom V" "\<And>p h Sz. L p = Some h \<Longrightarrow> V p = Some Sz \<Longrightarrow> unat Sz \<le> unat (getSize ops (aBackend A) p h)"
    using step_free(4) by (rule prog_invE) blast
  obtain h where h: "L p = Some h" using L(2) step_free(2) by blast
  have "freed n bld L p A (Some (Inr A'))"
    using comb_deallocate_spec [OF L(1) h, of e Org DeleteSize] step_free(1,3) by (simp split: option.splits)
  then have f: "comb_inv n bld A' (L(p := None))" "undisturbed (L(p := None)) A A'" by simp_all
  have le: "L(p := None) \<subseteq>\<^sub>m L" by (auto simp: map_le_def)
  have "unat Sz' \<le> unat (getSize ops (aBackend A') q g)" if "(L(p := None)) q = Some g" "(V(p := None)) q = Some Sz'" for q g Sz'
    using sizes_kept [OF L(1) f(2) le that(1)] L(3) [of q g Sz'] that by (simp split: if_splits)
  moreover have "dom (L(p := None)) = dom (V(p := None))" using L(2) by auto
  ultimately show ?case by (intro prog_invI [OF f(1)])
next
  case (step_realloc e e' A a V p Sz NewSize q A')
  obtain L where L: "comb_inv n bld A L" "dom L = dom V" "\<And>p h Sz. L p = Some h \<Longrightarrow> V p = Some Sz \<Longrightarrow> unat Sz \<le> unat (getSize ops (aBackend A) p h)"
    using step_realloc(7) by (rule prog_invE) blast
  obtain h where h: "L p = Some h" using L(2) step_realloc(5) by blast
  have r: "reallocated n bld L p h NewSize a A (Some (Inr (q, A')))"
    using comb_reallocate_spec [OF L(1) h _ step_realloc(3) _ _ step_realloc(4), of e' NewSize] step_realloc(1,2,6) by simp
  show ?case
  proof (cases "q = 0")
    case True
    then have u: "comb_inv n bld A' L" "undisturbed L A A'" using r by (simp_all add: reallocated_simps(1))
    have "prog_inv n bld (A', V)"
      by (rule prog_invI [OF u(1) L(2)]) (use sizes_kept [OF L(1) u(2) map_le_refl] L(3) in simp)
    then show ?thesis using True by simp
  next
    case False
    then obtain g where g: "comb_inv n bld A' ((L(p := None))(q \<mapsto> g))" "undisturbed (L(p := None)) A A'"
      "unat NewSize \<le> unat (getSize ops (aBackend A') q g)" using r by (auto simp: reallocated_simps(1))
    have le: "L(p := None) \<subseteq>\<^sub>m L" by (auto simp: map_le_def)
    have "unat Sz' \<le> unat (getSize ops (aBackend A') r k)"
      if "((L(p := None))(q \<mapsto> g)) r = Some k" "((V(p := None))(q \<mapsto> NewSize)) r = Some Sz'" for r k Sz'
      using sizes_kept [OF L(1) g(2) le, of r k] L(3) [of r k Sz'] g(3) that by (auto split: if_splits)
    moreover have "dom ((L(p := None))(q \<mapsto> g)) = dom ((V(p := None))(q \<mapsto> NewSize))" using L(2) by auto
    ultimately have "prog_inv n bld (A', (V(p := None))(q \<mapsto> NewSize))" by (intro prog_invI [OF g(1)])
    then show ?thesis using False by simp
  qed
next
  case (step_write V p Sz A m')
  obtain L where L: "comb_inv n bld A L" "dom L = dom V" "\<And>p h Sz. L p = Some h \<Longrightarrow> V p = Some Sz \<Longrightarrow> unat Sz \<le> unat (getSize ops (aBackend A) p h)"
    using step_write(3) by (rule prog_invE) blast
  obtain h where h: "L p = Some h" using L(2) step_write(1) by blast
  have "bytes_at p (unat Sz) \<subseteq> user_bytes ops (aBackend A) p h"
    using L(3) [OF h step_write(1)] by (auto simp: user_bytes_def bytes_at_def)
  then have "same_on (- user_bytes ops (aBackend A) p h) (aMemory A) m'" by (intro same_on_mono [OF step_write(2)]) auto
  note w = user_write [OF L(1) h _ _ this, of "A\<lparr>aMemory := m'\<rparr>"]
  have "comb_inv n bld (A\<lparr>aMemory := m'\<rparr>) L" by (rule w; simp add: same_settings_def)
  then show ?case using L(2,3) by (intro prog_invI) simp_all
next
  case (step_drain e A A' V)
  obtain L where L: "comb_inv n bld A L" "dom L = dom V" "\<And>p h Sz. L p = Some h \<Longrightarrow> V p = Some Sz \<Longrightarrow> unat Sz \<le> unat (getSize ops (aBackend A) p h)"
    using step_drain(3) by (rule prog_invE) blast
  have d: "comb_inv n bld A' L" "undisturbed L A A'" using drain_spec [OF L(1), of e] step_drain(1,2) by simp_all
  show ?case by (rule prog_invI [OF d(1) L(2)]) (use sizes_kept [OF L(1) d(2) map_le_refl] L(3) in simp)
next
  case (step_fill A V F)
  have w: "waiting_ptrs n (setFillContents F A) = waiting_ptrs n A" "waiting_batches n (setFillContents F A) = waiting_batches n A"
    "quarantines_ok n (setFillContents F A) = quarantines_ok n A"
    by (simp_all add: setFillContents_def waiting_ptrs_def waiting_batches_def quarantines_ok_def)
  have "comb_inv n bld (setFillContents F A) L = comb_inv n bld A L" for L
    unfolding comb_inv_def w by (simp add: setFillContents_def)
  then show ?case using step_fill by (simp add: prog_inv_def) (simp add: setFillContents_def)
next
  case (step_slack A V s)
  have w: "waiting_ptrs n (setAddLargeAllocationSlack s A) = waiting_ptrs n A" "waiting_batches n (setAddLargeAllocationSlack s A) = waiting_batches n A"
    "quarantines_ok n (setAddLargeAllocationSlack s A) = quarantines_ok n A"
    by (simp_all add: setAddLargeAllocationSlack_def waiting_ptrs_def waiting_batches_def quarantines_ok_def)
  have "comb_inv n bld (setAddLargeAllocationSlack s A) L = comb_inv n bld A L" for L
    unfolding comb_inv_def w by (simp add: setAddLargeAllocationSlack_def)
  then show ?case using step_slack by (simp add: prog_inv_def) (simp add: setAddLargeAllocationSlack_def)
qed

lemma start_prog_inv:
  assumes "binv (aBackend A)" and "used (aBackend A) = {}" and "comb_fresh n A"
  shows "prog_inv n bld (A, Map.empty)"
proof (rule prog_invI [of _ _ _ Map.empty])
  have e: "qcList empty_quarantine = []" by (simp add: empty_quarantine_def)
  have "waiting_ptrs n A = {#}" "waiting_batches n A = {#}" "quarantines_ok n A"
    using assms(3) by (simp_all add: waiting_ptrs_def waiting_batches_def comb_fresh_def e quarantines_ok_def qcache_ok_empty)
  moreover have "ok (bHash bld) (aCookie A) Map.empty (comb_state A)" using assms(2) by (simp add: heap_ok_def bij_betw_def)
  moreover have "parts ops Map.empty Map.empty {#} {#}" by (simp add: parts_def)
  ultimately show "comb_inv n bld A Map.empty" using assms(1) unfolding comb_inv_def by auto
qed simp_all

lemma run_inv: "(comb_step ops bld (call_ok n) reserve_ok)\<^sup>*\<^sup>* S S' \<Longrightarrow> prog_inv n bld S \<Longrightarrow> prog_inv n bld S'"
  by (induction rule: rtranclp_induct) (blast intro: step_keeps)+

end

end
