(* ===== verification/Combined_Backend.thy ===== *)
theory Combined_Backend
  imports Combined_Run
begin

text \<open>The back ends of the combined allocator: the primary with the caches of its threads, and the
  secondary with its cache, put together as the operations that combined.h calls.\<close>

section \<open>State and operations\<close>

text \<open>beThread: the thread of the call; beTryLock: whether the lock of a region is free; beReleased: the
  ranges of pages that a release gives back, or None when there is no memory for its page map.\<close>

record backend_env =
  beThread :: nat
  bePri :: pri_env
  beSec :: sec_env
  beTryLock :: bool
  beReleased :: "primary \<Rightarrow> nat \<Rightarrow> BatchGroup list \<Rightarrow> (uptr \<times> uptr) list option"

record comb_backend =
  cbPri :: pri_system
  cbSec :: "cache map_alloc"

definition be_allocate :: "pri_config \<Rightarrow> backend_env \<Rightarrow> nat \<Rightarrow> comb_backend \<Rightarrow> (uptr option \<times> comb_backend) result" where
  "be_allocate cfg e c b = (let \<sigma> = cbPri b; t = beThread e in
     bindR (lc_allocate cfg (bePri e) c (thread_state \<sigma> t)) (\<lambda>(q, P, C).
       Inr (q, b\<lparr>cbPri := \<sigma>\<lparr>sPri := P, sCaches := (sCaches \<sigma>)(t := C), sUsed := (case q of None \<Rightarrow> sUsed \<sigma> | Some p \<Rightarrow> (c, p) # sUsed \<sigma>)\<rparr>\<rparr>)))"

definition be_deallocate :: "pri_config \<Rightarrow> backend_env \<Rightarrow> nat \<Rightarrow> uptr \<Rightarrow> comb_backend \<Rightarrow> (bool \<times> comb_backend) result" where
  "be_deallocate cfg e c p b = (let \<sigma> = cbPri b; t = beThread e in
     bindR (lc_deallocate cfg (bePri e) c p (thread_state \<sigma> t)) (\<lambda>(drained, P, C).
       Inr (drained, b\<lparr>cbPri := \<sigma>\<lparr>sPri := P, sCaches := (sCaches \<sigma>)(t := C), sUsed := remove1 (c, p) (sUsed \<sigma>)\<rparr>\<rparr>)))"

definition be_drain :: "pri_config \<Rightarrow> backend_env \<Rightarrow> comb_backend \<Rightarrow> comb_backend result option" where
  "be_drain cfg e b = (let \<sigma> = cbPri b; t = beThread e in
     bindO (lc_drain cfg (bePri e) (thread_state \<sigma> t)) (\<lambda>(P, C).
       Some (Inr (b\<lparr>cbPri := \<sigma>\<lparr>sPri := P, sCaches := (sCaches \<sigma>)(t := C)\<rparr>\<rparr>))))"

text \<open>tryReleaseToOS with the type Normal: releaseToOSMaybe under the lock of the region, if that is free.\<close>

definition be_tryRelease :: "pri_config \<Rightarrow> backend_env \<Rightarrow> nat \<Rightarrow> comb_backend \<Rightarrow> comb_backend \<times> os_event list" where
  "be_tryRelease cfg e c b =
    (if \<not> beTryLock e then (b, [])
     else let \<sigma> = cbPri b; P = sPri \<sigma>; pg = osPageSize (pOs (bePri e)); nw = now (pOs (bePri e)) in
       case release_begin cfg pg nw (pReleaseToOsIntervalMs P) c (SmallerBlockReleasePageDelta P) NormalRelease (Regions P c) of
         (None, R) \<Rightarrow> (b\<lparr>cbPri := \<sigma>\<lparr>sPri := upd_region c (\<lambda>_. R) P\<rparr>\<rparr>, [])
       | (Some (G, fr, dl), R) \<Rightarrow>
           let P1 = upd_region c (\<lambda>_. R) P; rs = beReleased e P1 c G;
               ev = (case rs of None \<Rightarrow> [] | Some rs \<Rightarrow> map (\<lambda>(a, n). ReleaseAndZero (rMemMap R) a n) rs);
               P2 = snd (release_end cfg pg nw c (G, fr, dl) (map_option (\<lambda>rs. sum_list (map snd rs)) rs) P1)
           in (b\<lparr>cbPri := \<sigma>\<lparr>sPri := P2\<rparr>\<rparr>, ev))"

definition be_sec_allocate :: "cache_config \<Rightarrow> backend_env \<Rightarrow> u32 \<Rightarrow> uptr \<Rightarrow> uptr \<Rightarrow> u32 \<Rightarrow> comb_backend \<Rightarrow>
    ((uptr \<times> uptr) option \<times> comb_backend \<times> os_event list) result option" where
  "be_sec_allocate ccfg e Opt Sz Alignment Fill b =
    bindO (sec_allocate (map_cache_ops ccfg) (beSec e) Opt Sz Alignment Fill (cbSec b)) (\<lambda>(r, S, ev). Some (Inr (r, b\<lparr>cbSec := S\<rparr>, ev)))"

definition be_sec_deallocate :: "cache_config \<Rightarrow> backend_env \<Rightarrow> uptr \<Rightarrow> comb_backend \<Rightarrow> (comb_backend \<times> os_event list) result option" where
  "be_sec_deallocate ccfg e p b =
    bindO (sec_deallocate (map_cache_ops ccfg) (beSec e) p (cbSec b)) (\<lambda>(S, ev). Some (Inr (b\<lparr>cbSec := S\<rparr>, ev)))"

text \<open>The blocks that iterateOverBlocks of the primary and of the secondary visit, in this order.\<close>

definition be_blocks :: "pri_config \<Rightarrow> comb_backend \<Rightarrow> uptr list option" where
  "be_blocks cfg b = map_option (\<lambda>L. L @ sec_iterateOverBlocks (cbSec b)) (pri_iterateOverBlocks cfg (sPri (cbPri b)))"

definition scudo_ops :: "pri_config \<Rightarrow> (uptr \<Rightarrow> nat) \<Rightarrow> cache_config \<Rightarrow> (backend_env, comb_backend) backend_ops" where
  "scudo_ops cfg getClassIdBySize ccfg = \<lparr> boAllocate = be_allocate cfg, boDeallocate = be_deallocate cfg, boDrain = be_drain cfg,
     boTryRelease = be_tryRelease cfg, boSecAllocate = be_sec_allocate ccfg, boSecDeallocate = be_sec_deallocate ccfg,
     boBlockEnd = (\<lambda>b. sec_getBlockEnd (cbSec b)), boBlocks = be_blocks cfg, boClassId = getClassIdBySize,
     boClassSize = pri_getSizeByClassId cfg, boCanAllocate = pri_canAllocate cfg, boLargestClassId = pcNumClasses cfg - 1,
     boMaxSize = pcMaxSize cfg \<rparr>"

section \<open>Invariant\<close>

definition sec_headers :: "'c map_alloc \<Rightarrow> uptr list" where
  "sec_headers S = il_iter ptr_link_op (maLinks S) (InUseBlocks S)"

text \<open>The mappings that the secondary holds.\<close>

definition sec_maps :: "cache_config \<Rightarrow> cache map_alloc \<Rightarrow> mem_map multiset" where
  "sec_maps ccfg S = map_cache_owned ccfg (maCache S) + mset (map (hMemMap \<circ> maHeaders S) (sec_headers S))"

definition be_used :: "comb_backend \<Rightarrow> (nat \<times> uptr) set" where
  "be_used b = set (sUsed (cbPri b)) \<union> Pair 0 ` set (sec_iterateOverBlocks (cbSec b))"

definition region_range :: "pri_config \<Rightarrow> primary \<Rightarrow> nat \<Rightarrow> nat set" where
  "region_range cfg P c = {unat (mBase (rMemMap (Regions P c)))..<unat (mBase (rMemMap (Regions P c))) + 2 ^ RegionSizeLog cfg}"

definition outside_regions :: "pri_config \<Rightarrow> primary \<Rightarrow> mem_map \<Rightarrow> bool" where
  "outside_regions cfg P m \<longleftrightarrow> (\<forall>c<pcNumClasses cfg. map_range m \<inter> region_range cfg P c = {})"

text \<open>Regions are below 2^63 and their blocks are aligned to 16 bytes.\<close>

definition regions_placed :: "pri_config \<Rightarrow> primary \<Rightarrow> bool" where
  "regions_placed cfg P \<longleftrightarrow> regions_apart cfg P \<and> (\<forall>c<pcNumClasses cfg. isAligned (RegionBeg (Regions P c)) 16 \<and> RegionBeg (Regions P c) \<noteq> 0 \<and>
     unat (mBase (rMemMap (Regions P c))) + 2 ^ RegionSizeLog cfg < 2 ^ 63)"

definition be_inv :: "pri_config \<Rightarrow> cache_config \<Rightarrow> nat \<Rightarrow> nat \<Rightarrow> comb_backend \<Rightarrow> bool" where
  "be_inv cfg ccfg n p b \<longleftrightarrow> sys_inv cfg n (cbPri b) \<and> regions_placed cfg (sPri (cbPri b)) \<and> (\<forall>c. sOut (cbPri b) c = None) \<and>
     sec_inv (map_cache_inv ccfg) map_cache_blocks (map_cache_owned ccfg) p (cbSec b) (sec_headers (cbSec b)) (sec_maps ccfg (cbSec b)) \<and>
     (\<forall>H\<in>set (sec_headers (cbSec b)). isAligned H 16) \<and> (\<forall>m\<in>#sec_maps ccfg (cbSec b). outside_regions cfg (sPri (cbPri b)) m)"

text \<open>A release gives back memory of its region only, and no page with a block that is not in the groups
  taken out.\<close>

definition block_range_at :: "pri_config \<Rightarrow> primary \<Rightarrow> nat \<Rightarrow> nat \<Rightarrow> nat set" where
  "block_range_at cfg P c i = {unat (RegionBeg (Regions P c)) + i * unat (pri_getSizeByClassId cfg c)..<
     unat (RegionBeg (Regions P c)) + Suc i * unat (pri_getSizeByClassId cfg c)}"

definition range_sound :: "pri_config \<Rightarrow> primary \<Rightarrow> nat \<Rightarrow> BatchGroup list \<Rightarrow> uptr \<times> uptr \<Rightarrow> bool" where
  "range_sound cfg P c G = (\<lambda>(a, n). {unat a..<unat a + unat n} \<subseteq> region_range cfg P c \<and>
     (\<forall>i<List.length (carved cfg c (Regions P c)). block_range_at cfg P c i \<inter> {unat a..<unat a + unat n} \<noteq> {} \<longrightarrow>
       carved cfg c (Regions P c) ! i \<in># list_free G))"

definition release_sound :: "pri_config \<Rightarrow> (primary \<Rightarrow> nat \<Rightarrow> BatchGroup list \<Rightarrow> (uptr \<times> uptr) list option) \<Rightarrow> bool" where
  "release_sound cfg rel \<longleftrightarrow> (\<forall>P c G rs. 0 < c \<longrightarrow> c < pcNumClasses cfg \<longrightarrow> region_ok cfg c (Regions P c) \<longrightarrow>
     list_free G \<subseteq># mset (carved cfg c (Regions P c)) \<longrightarrow> rel P c G = Some rs \<longrightarrow> (\<forall>r\<in>set rs. range_sound cfg P c G r))"

text \<open>What a call asks of its surroundings: a thread of the allocator, a platform with pages of the size
  fixed; and a reservation is apart from what exists.\<close>

definition be_env_ok :: "pri_config \<Rightarrow> nat \<Rightarrow> nat \<Rightarrow> backend_env \<Rightarrow> bool" where
  "be_env_ok cfg n p e \<longleftrightarrow> beThread e < n \<and> osPageSize (sOs (beSec e)) = 2 ^ p \<and> 7 \<le> p \<and> p \<le> 32 \<and> (\<forall>k. growOk (sOs (beSec e)) k) \<and>
     release_sound cfg (beReleased e)"

definition be_reserve_ok :: "pri_config \<Rightarrow> cache_config \<Rightarrow> nat \<Rightarrow> backend_env \<Rightarrow> comb_backend \<Rightarrow> bool" where
  "be_reserve_ok cfg ccfg p e b \<longleftrightarrow> sec_env_ok (beSec e) p (sec_maps ccfg (cbSec b)) \<and>
     (\<forall>k a. reserve (beSec e) k = Some a \<longrightarrow> outside_regions cfg (sPri (cbPri b)) \<lparr> mBase = a, mCapacity = k \<rparr>)"

definition be_err :: "report \<Rightarrow> bool" where
  "be_err x \<longleftrightarrow> x = OutOfBatchClass \<or> (\<exists>z. x = OutOfMemory z)"

section \<open>Blocks of the primary\<close>

lemma be_fields [simp]:
  "boAllocate (scudo_ops cfg cls ccfg) = be_allocate cfg" "boDeallocate (scudo_ops cfg cls ccfg) = be_deallocate cfg"
  "boDrain (scudo_ops cfg cls ccfg) = be_drain cfg" "boTryRelease (scudo_ops cfg cls ccfg) = be_tryRelease cfg"
  "boSecAllocate (scudo_ops cfg cls ccfg) = be_sec_allocate ccfg" "boSecDeallocate (scudo_ops cfg cls ccfg) = be_sec_deallocate ccfg"
  "boBlockEnd (scudo_ops cfg cls ccfg) b = sec_getBlockEnd (cbSec b)" "boBlocks (scudo_ops cfg cls ccfg) = be_blocks cfg"
  "boClassId (scudo_ops cfg cls ccfg) = cls" "boClassSize (scudo_ops cfg cls ccfg) = pri_getSizeByClassId cfg"
  "boCanAllocate (scudo_ops cfg cls ccfg) = pri_canAllocate cfg" "boLargestClassId (scudo_ops cfg cls ccfg) = pcNumClasses cfg - 1"
  by (simp_all add: scudo_ops_def)

lemma be_invD:
  assumes "be_inv cfg ccfg n p b"
  shows "sys_inv cfg n (cbPri b)" "regions_apart cfg (sPri (cbPri b))" "regions_placed cfg (sPri (cbPri b))" "sOut (cbPri b) c = None"
    "sec_inv (map_cache_inv ccfg) map_cache_blocks (map_cache_owned ccfg) p (cbSec b) (sec_headers (cbSec b)) (sec_maps ccfg (cbSec b))"
    "H \<in> set (sec_headers (cbSec b)) \<Longrightarrow> isAligned H 16" "m \<in># sec_maps ccfg (cbSec b) \<Longrightarrow> outside_regions cfg (sPri (cbPri b)) m"
  using assms by (simp_all add: be_inv_def regions_placed_def)

lemma regions_placed_same: "same_bases P P' \<Longrightarrow> regions_placed cfg P' = regions_placed cfg P" "same_bases P P' \<Longrightarrow> region_range cfg P' = region_range cfg P"
  "same_bases P P' \<Longrightarrow> outside_regions cfg P' = outside_regions cfg P"
  by (simp_all add: same_bases_def regions_placed_def regions_apart_def region_range_def outside_regions_def fun_eq_iff)

text \<open>Steps of the primary.\<close>

lemma be_inv_primary:
  assumes "be_inv cfg ccfg n p b" and "sys_inv cfg n \<sigma>" and "same_bases (sPri (cbPri b)) (sPri \<sigma>)" and "\<forall>c. sOut \<sigma> c = None"
  shows "be_inv cfg ccfg n p (b\<lparr>cbPri := \<sigma>\<rparr>)"
  using assms by (simp add: be_inv_def regions_placed_same)

lemma ends_kept_primary: "ends_kept (scudo_ops cfg cls ccfg) b (b\<lparr>cbPri := \<sigma>\<rparr>) X"
  by (simp add: ends_kept_def block_end_def)

lemma primary_block:
  assumes inv: "be_inv cfg ccfg n p b" and x: "x \<in> set (sUsed (cbPri b))"
  shows "0 < fst x" "fst x < pcNumClasses cfg" "16 \<le> unat (pri_getSizeByClassId cfg (fst x))"
    and "unat (block_end (scudo_ops cfg cls ccfg) b x) = unat (snd x) + unat (pri_getSizeByClassId cfg (fst x))"
    and "{unat (snd x)..<unat (snd x) + unat (pri_getSizeByClassId cfg (fst x))} \<subseteq> region_range cfg (sPri (cbPri b)) (fst x)"
    and "unat (snd x) + unat (pri_getSizeByClassId cfg (fst x)) < 2 ^ 63"
    and "y \<in> block_set (scudo_ops cfg cls ccfg) b x \<longleftrightarrow> unat y \<in> block_bytes cfg x"
    and "\<exists>i. block_index cfg (sPri (cbPri b)) x i \<and> unat (snd x) = unat (RegionBeg (Regions (sPri (cbPri b)) (fst x))) + i * unat (pri_getSizeByClassId cfg (fst x)) \<and>
      carved cfg (fst x) (Regions (sPri (cbPri b)) (fst x)) ! i = compactPtr cfg (fst x) (sPri (cbPri b)) (snd x)"
proof -
  let ?z = "pri_getSizeByClassId cfg (fst x)" and ?P = "sPri (cbPri b)"
  note s = be_invD(1) [OF inv] and ap = be_invD(2) [OF inv]
  show c: "0 < fst x" "fst x < pcNumClasses cfg" using s x by (auto simp: sys_inv_def used_ok_def)
  note ok = used_in_carved(3) [OF s c(2)]
  obtain i where i: "block_index cfg ?P x i" "carved cfg (fst x) (Regions ?P (fst x)) ! i = compactPtr cfg (fst x) ?P (snd x)"
    using used_index [OF s x] by blast
  note ib = index_bytes [OF ok used_in_carved(2) [OF s c(2)] ap c(2) i(1)]
  show z: "16 \<le> unat ?z" by (rule cfg_class(1) [OF ok c(2)])
  show "\<exists>i. block_index cfg ?P x i \<and> unat (snd x) = unat (RegionBeg (Regions ?P (fst x))) + i * unat ?z \<and>
      carved cfg (fst x) (Regions ?P (fst x)) ! i = compactPtr cfg (fst x) ?P (snd x)" using i ib(1) by blast
  show "{unat (snd x)..<unat (snd x) + unat ?z} \<subseteq> region_range cfg ?P (fst x)"
    unfolding region_range_def using ib(3,4) by (auto simp: subset_iff)
  have "unat (mBase (rMemMap (Regions ?P (fst x)))) + 2 ^ RegionSizeLog cfg < 2 ^ 63"
    using be_invD(3) [OF inv] c(2) by (simp add: regions_placed_def)
  then show top: "unat (snd x) + unat ?z < 2 ^ 63" using ib(4) by linarith
  then show e: "unat (block_end (scudo_ops cfg cls ccfg) b x) = unat (snd x) + unat ?z"
    using c(1) unat_add_lt [of "snd x" ?z] by (simp add: block_end_def)
  have "unat (block_end (scudo_ops cfg cls ccfg) b x - snd x) = unat ?z"
    using c(1) by (simp add: block_end_def)
  then show "y \<in> block_set (scudo_ops cfg cls ccfg) b x \<longleftrightarrow> unat y \<in> block_bytes cfg x"
    using top by (simp add: block_set_def in_bytes_at block_bytes_def)
qed

section \<open>Blocks of the secondary\<close>

lemma sec_headers_of:
  assumes "sec_inv cinv blocks owned p S Hs K"
  shows "sec_headers S = Hs" "distinct Hs"
proof -
  show "sec_headers S = Hs"
    using assms ptr.iter_refines [of "maLinks S" "InUseBlocks S" Hs] by (simp add: sec_inv_def dl_abs_def sec_headers_def)
  show "distinct Hs" using assms by (simp add: sec_inv_def dl_abs_def sl_abs_def)
qed

lemma sec_maps_of:
  assumes "sec_inv (map_cache_inv ccfg) map_cache_blocks (map_cache_owned ccfg) p S Hs K"
  shows "sec_maps ccfg S = K"
  using assms sec_headers_of(1) [OF assms] by (simp add: sec_maps_def sec_inv_def)

lemma sec_iterate: "sec_iterateOverBlocks S = map (\<lambda>H. H + 64) (sec_headers S)"
  by (simp add: sec_iterateOverBlocks_def sec_headers_def LargeBlock_getHeaderSize_def)

lemma be_used_simps:
  "0 < c \<Longrightarrow> (c, q) \<in> be_used b \<longleftrightarrow> (c, q) \<in> set (sUsed (cbPri b))"
  "(0, q) \<in> be_used b \<longleftrightarrow> (0, q) \<in> set (sUsed (cbPri b)) \<or> (\<exists>H\<in>set (sec_headers (cbSec b)). q = H + 64)"
  by (auto simp: be_used_def sec_iterate)

lemma be_used_cases:
  assumes "be_inv cfg ccfg n p b" and "x \<in> be_used b"
  obtains (primary) "x \<in> set (sUsed (cbPri b))" "0 < fst x" | (secondary) H where "x = (0, H + 64)" "H \<in> set (sec_headers (cbSec b))"
  using assms primary_block(1) [OF assms(1)] by (auto simp: be_used_def sec_iterate)

lemma secondary_block:
  assumes inv: "be_inv cfg ccfg n p b" and H: "H \<in> set (sec_headers (cbSec b))"
  shows "unat (block_end (scudo_ops cfg cls ccfg) b (0, H + 64)) = unat (hCommitBase (maHeaders (cbSec b) H)) + unat (hCommitSize (maHeaders (cbSec b) H))"
    and "unat (H + 64) + 16 \<le> unat (block_end (scudo_ops cfg cls ccfg) b (0, H + 64))" "unat (block_end (scudo_ops cfg cls ccfg) b (0, H + 64)) < 2 ^ 48"
    and "unat (H + 64) = unat H + 64" "hMemMap (maHeaders (cbSec b) H) \<in># sec_maps ccfg (cbSec b)"
    and "unat (mBase (hMemMap (maHeaders (cbSec b) H))) + unat (mCapacity (hMemMap (maHeaders (cbSec b) H))) < 2 ^ 48"
    and "block_set (scudo_ops cfg cls ccfg) b (0, H + 64) \<subseteq> map_bytes (hMemMap (maHeaders (cbSec b) H))"
proof -
  let ?h = "maHeaders (cbSec b) H" and ?E = "block_end (scudo_ops cfg cls ccfg) b (0, H + 64)"
  have live: "live_hdr_ok p ?h H" using be_invD(5) [OF inv] H by (simp add: sec_inv_def)
  then have g: "unat (mBase (hMemMap ?h)) \<le> unat (hCommitBase ?h)" "unat (hCommitBase ?h) + unat (hCommitSize ?h) < 2 ^ 48"
    "unat (hCommitBase ?h) + unat (hCommitSize ?h) \<le> unat (mBase (hMemMap ?h)) + unat (mCapacity (hMemMap ?h))"
    "unat (mBase (hMemMap ?h)) + unat (mCapacity (hMemMap ?h)) < 2 ^ 48"
    "unat (hCommitBase ?h) \<le> unat H" "unat H + 80 \<le> unat (hCommitBase ?h) + unat (hCommitSize ?h)"
    by (auto simp: live_hdr_ok_def geo_ok_def block_of_def in_map_def)
  show u: "unat (H + 64) = unat H + 64" using g by (subst unat_add_lem [THEN iffD1]) simp_all
  have "unat (hCommitBase ?h + hCommitSize ?h) = unat (hCommitBase ?h) + unat (hCommitSize ?h)"
    using g by (subst unat_add_lem [THEN iffD1]) simp_all
  then show E: "unat ?E = unat (hCommitBase ?h) + unat (hCommitSize ?h)" by (simp add: block_end_def sec_getBlockEnd_def Let_def)
  show "unat (H + 64) + 16 \<le> unat ?E" "unat ?E < 2 ^ 48" "unat (mBase (hMemMap ?h)) + unat (mCapacity (hMemMap ?h)) < 2 ^ 48" using E u g by simp_all
  show "hMemMap ?h \<in># sec_maps ccfg (cbSec b)" using H by (auto simp: sec_maps_def)
  have "unat (?E - (H + 64)) = unat ?E - unat (H + 64)" using E u g by (subst unat_sub) (simp_all add: word_le_nat_alt)
  then show "block_set (scudo_ops cfg cls ccfg) b (0, H + 64) \<subseteq> map_bytes (hMemMap ?h)"
    unfolding block_set_def map_bytes_def using E u g by (intro bytes_at_subset) simp_all
qed

lemma secondary_outside:
  assumes inv: "be_inv cfg ccfg n p b" and H: "H \<in> set (sec_headers (cbSec b))" and c: "c < pcNumClasses cfg"
    and y: "y \<in> block_set (scudo_ops cfg cls ccfg) b (0, H + 64)"
  shows "unat y \<notin> region_range cfg (sPri (cbPri b)) c"
proof -
  let ?m = "hMemMap (maHeaders (cbSec b) H)"
  note f = secondary_block [OF inv H]
  have "y \<in> map_bytes ?m" using f(7) y by blast
  then have "unat y \<in> map_range ?m" using f(6) by (subst (asm) unat_in_map_bytes) (simp_all add: map_range_def)
  moreover have "map_range ?m \<inter> region_range cfg (sPri (cbPri b)) c = {}"
    using be_invD(7) [OF inv f(5)] c by (simp add: outside_regions_def)
  ultimately show ?thesis by blast
qed

lemma secondary_disjoint:
  assumes inv: "be_inv cfg ccfg n p b" and GH: "G \<in> set (sec_headers (cbSec b))" "H \<in> set (sec_headers (cbSec b))" "G \<noteq> H"
  shows "block_set (scudo_ops cfg cls ccfg) b (0, G + 64) \<inter> block_set (scudo_ops cfg cls ccfg) b (0, H + 64) = {}"
proof -
  let ?S = "cbSec b" and ?Hs = "sec_headers (cbSec b)" and ?m = "\<lambda>H. hMemMap (maHeaders (cbSec b) H)"
  note s = be_invD(5) [OF inv]
  have d: "distinct ?Hs" by (rule sec_headers_of(2) [OF s])
  have "mset_set {G, H} \<subseteq># mset_set (set ?Hs)" using GH by (intro subset_imp_msubset_mset_set) auto
  then have "{#G, H#} \<subseteq># mset ?Hs" using GH(3) d by (simp add: mset_set_set)
  then have "{#?m G, ?m H#} \<subseteq># mset (map (hMemMap \<circ> maHeaders ?S) ?Hs)"
    using image_mset_subseteq_mono [of "{#G, H#}" "mset ?Hs" "hMemMap \<circ> maHeaders ?S"] by simp
  then have "{#?m G, ?m H#} \<subseteq># sec_maps ccfg ?S" unfolding sec_maps_def by (simp add: subset_mset.add_increasing)
  then have dj: "map_range (?m G) \<inter> map_range (?m H) = {}" using s by (simp add: sec_inv_def disjoint_maps_def)
  have in_range: "unat y \<in> map_range (?m K)" if "y \<in> block_set (scudo_ops cfg cls ccfg) b (0, K + 64)" "K \<in> set ?Hs" for y K
  proof -
    have "y \<in> map_bytes (?m K)" using secondary_block(7) [OF inv that(2)] that(1) by blast
    then show ?thesis using secondary_block(6) [OF inv that(2)] by (subst (asm) unat_in_map_bytes) (simp_all add: map_range_def)
  qed
  have "False" if "y \<in> block_set (scudo_ops cfg cls ccfg) b (0, G + 64)" "y \<in> block_set (scudo_ops cfg cls ccfg) b (0, H + 64)" for y
    using in_range [OF that(1) GH(1)] in_range [OF that(2) GH(2)] dj by blast
  then show ?thesis by blast
qed

lemma be_used_block:
  assumes inv: "be_inv cfg ccfg n p b" and x: "x \<in> be_used b" and al: "\<forall>c<pcNumClasses cfg. 16 dvd unat (pri_getSizeByClassId cfg c)"
  shows "fst x \<le> pcNumClasses cfg - 1 \<and> snd x \<noteq> 0 \<and> isAligned (snd x) 16 \<and>
    unat (snd x) + 16 \<le> unat (block_end (scudo_ops cfg cls ccfg) b x) \<and> unat (block_end (scudo_ops cfg cls ccfg) b x) < 2 ^ 63"
  using inv x
proof (cases rule: be_used_cases)
  case primary
  let ?R = "Regions (sPri (cbPri b)) (fst x)"
  note f = primary_block [OF inv primary(1)]
  obtain i where i: "unat (snd x) = unat (RegionBeg ?R) + i * unat (pri_getSizeByClassId cfg (fst x))" using f(8) by blast
  have a: "isAligned (RegionBeg ?R) 16" using be_invD(3) [OF inv] f(2) by (simp add: regions_placed_def)
  have "16 dvd unat (RegionBeg ?R)" using a isAligned_exp [of "RegionBeg ?R" 4] by (simp add: dvd_eq_mod_eq_0)
  then have "16 dvd unat (snd x)" unfolding i using al f(2) by simp
  then have al': "isAligned (snd x) 16" using isAligned_exp [of "snd x" 4] by (simp add: dvd_eq_mod_eq_0)
  have "RegionBeg ?R \<noteq> 0" using be_invD(3) [OF inv] f(2) by (simp add: regions_placed_def)
  then have "snd x \<noteq> 0" using i by (auto simp: unat_eq_zero)
  then show ?thesis using f al' by simp
next
  case (secondary H)
  note f = secondary_block [OF inv secondary(2)]
  have "isAligned H 16" by (rule be_invD(6) [OF inv secondary(2)])
  then have "isAligned (H + 64) 16" using isAligned_exp [of H 4] isAligned_exp [of "H + 64" 4] f(4)
    by (simp add: mod_add_left_eq [of "unat H" 16 64, symmetric])
  moreover have "H + 64 \<noteq> 0" using f(4) by auto
  moreover have "unat (block_end (scudo_ops cfg cls ccfg) b (0, H + 64)) < 2 ^ 63" by (rule order.strict_trans [OF f(3)]) simp
  ultimately show ?thesis using f(2) by (simp add: secondary(1))
qed

lemma be_used_disjoint:
  assumes inv: "be_inv cfg ccfg n p b" and x: "x \<in> be_used b" "y \<in> be_used b" "x \<noteq> y"
  shows "block_set (scudo_ops cfg cls ccfg) b x \<inter> block_set (scudo_ops cfg cls ccfg) b y = {}"
proof -
  let ?B = "block_set (scudo_ops cfg cls ccfg) b"
  have mixed: "?B u \<inter> ?B (0, H + 64) = {}" if "u \<in> set (sUsed (cbPri b))" "H \<in> set (sec_headers (cbSec b))" for u H
  proof -
    note f = primary_block [OF inv that(1)]
    have "unat z \<in> region_range cfg (sPri (cbPri b)) (fst u)" if "z \<in> ?B u" for z
      using f(5) that unfolding f(7) by (auto simp: block_bytes_def)
    then show ?thesis using secondary_outside [OF inv that(2) f(2)] by blast
  qed
  from inv x(1) show ?thesis
  proof (cases rule: be_used_cases)
    case primary
    from inv x(2) show ?thesis
    proof (cases rule: be_used_cases)
      case y: primary
      have "block_bytes cfg x \<inter> block_bytes cfg y = {}"
        by (rule used_bytes_disjoint [OF be_invD(1,2) [OF inv] primary(1) y(1) x(3)])
      then show ?thesis using primary_block(7) [OF inv primary(1)] primary_block(7) [OF inv y(1)] by blast
    next
      case (secondary H)
      then show ?thesis using mixed primary by simp
    qed
  next
    case (secondary G)
    from inv x(2) show ?thesis
    proof (cases rule: be_used_cases)
      case primary
      then show ?thesis using mixed secondary by blast
    next
      case (secondary H)
      then show ?thesis using secondary_disjoint [OF inv] \<open>x = (0, G + 64)\<close> \<open>G \<in> _\<close> x(3) by auto
    qed
  qed
qed

section \<open>The operations of the primary\<close>

lemma ok_error_be: "ok_error cfg x \<Longrightarrow> be_err x"
  by (auto simp: ok_error_def be_err_def)

lemma be_sec_primary [simp]: "sec_headers (cbSec (b\<lparr>cbPri := \<sigma>\<rparr>)) = sec_headers (cbSec b)"
  by simp

lemma be_reserve_primary:
  "same_bases (sPri (cbPri b)) (sPri \<sigma>) \<Longrightarrow> be_reserve_ok cfg ccfg p e (b\<lparr>cbPri := \<sigma>\<rparr>) = be_reserve_ok cfg ccfg p e b"
  by (simp add: be_reserve_ok_def regions_placed_same)

lemma be_allocate_law:
  assumes inv: "be_inv cfg ccfg n p b" and t: "beThread e < n" and c: "0 < c" "c \<le> pcNumClasses cfg - 1"
  shows "case be_allocate cfg e c b of Inl r \<Rightarrow> be_err r
    | Inr (q, b') \<Rightarrow> be_inv cfg ccfg n p b' \<and> ends_kept (scudo_ops cfg cls ccfg) b b' (be_used b) \<and>
        (\<forall>e. be_reserve_ok cfg ccfg p e b \<longrightarrow> be_reserve_ok cfg ccfg p e b') \<and>
        (case q of None \<Rightarrow> be_used b' = be_used b | Some a \<Rightarrow> (c, a) \<notin> be_used b \<and> be_used b' = insert (c, a) (be_used b))"
proof -
  let ?\<sigma> = "cbPri b" and ?t = "beThread e"
  note s = be_invD(1) [OF inv]
  have c': "c < pcNumClasses cfg" using c by linarith
  have w: "res_ok cfg (\<lambda>(q, S'). pwf cfg S') (lc_allocate cfg (bePri e) c (thread_state ?\<sigma> ?t))"
    by (rule lc_allocate_wf [OF c' sys_invD(1,2) [OF s t]])
  show ?thesis
  proof (cases "lc_allocate cfg (bePri e) c (thread_state ?\<sigma> ?t)")
    case (Inl x)
    then show ?thesis using w ok_error_be by (simp add: be_allocate_def)
  next
    case (Inr y)
    obtain q P C where y: "y = (q, (P, C))" by (metis prod.exhaust)
    let ?\<sigma>' = "?\<sigma>\<lparr>sPri := P, sCaches := (sCaches ?\<sigma>)(?t := C), sUsed := (case q of None \<Rightarrow> sUsed ?\<sigma> | Some a \<Rightarrow> (c, a) # sUsed ?\<sigma>)\<rparr>"
    note i = step_allocate_inv [OF s t c(1) c' Inr [unfolded y]]
    have inv': "be_inv cfg ccfg n p (b\<lparr>cbPri := ?\<sigma>'\<rparr>)"
      by (rule be_inv_primary [OF inv i(1)]) (use i(2) be_invD(4) [OF inv] in simp_all)
    have r: "\<forall>e. be_reserve_ok cfg ccfg p e b \<longrightarrow> be_reserve_ok cfg ccfg p e (b\<lparr>cbPri := ?\<sigma>'\<rparr>)"
      using be_reserve_primary [of b ?\<sigma>'] i(2) by simp
    have "case q of None \<Rightarrow> be_used (b\<lparr>cbPri := ?\<sigma>'\<rparr>) = be_used b
      | Some a \<Rightarrow> (c, a) \<notin> be_used b \<and> be_used (b\<lparr>cbPri := ?\<sigma>'\<rparr>) = insert (c, a) (be_used b)"
    proof (cases q)
      case (Some a)
      have "distinct (sUsed ?\<sigma>')" by (rule used_distinct(1) [OF i(1)])
      then have "(c, a) \<notin> be_used b" using c(1) by (simp add: Some be_used_simps)
      then show ?thesis by (simp add: Some be_used_def)
    qed (simp add: be_used_def)
    then show ?thesis using Inr inv' r ends_kept_primary by (simp add: be_allocate_def Let_def y)
  qed
qed

lemma be_deallocate_law:
  assumes inv: "be_inv cfg ccfg n p b" and t: "beThread e < n" and u: "(c, a) \<in> be_used b" "0 < c"
  shows "case be_deallocate cfg e c a b of Inl r \<Rightarrow> be_err r
    | Inr (_, b') \<Rightarrow> be_inv cfg ccfg n p b' \<and> ends_kept (scudo_ops cfg cls ccfg) b b' (be_used b) \<and> be_used b' = be_used b - {(c, a)}"
proof -
  let ?\<sigma> = "cbPri b" and ?t = "beThread e"
  note s = be_invD(1) [OF inv]
  have u': "(c, a) \<in> set (sUsed ?\<sigma>)" using u by (simp add: be_used_simps)
  have c: "c < pcNumClasses cfg" using primary_block(2) [OF inv u'] by simp
  have w: "res_ok cfg (\<lambda>(q, S'). pwf cfg S') (lc_deallocate cfg (bePri e) c a (thread_state ?\<sigma> ?t))"
    by (rule lc_deallocate_wf [OF sys_invD(1,2) [OF s t] c])
  show ?thesis
  proof (cases "lc_deallocate cfg (bePri e) c a (thread_state ?\<sigma> ?t)")
    case (Inl x)
    then show ?thesis using w ok_error_be by (simp add: be_deallocate_def)
  next
    case (Inr y)
    obtain q P C where y: "y = (q, (P, C))" by (metis prod.exhaust)
    let ?\<sigma>' = "?\<sigma>\<lparr>sPri := P, sCaches := (sCaches ?\<sigma>)(?t := C), sUsed := remove1 (c, a) (sUsed ?\<sigma>)\<rparr>"
    note i = step_deallocate_inv [OF s t u' Inr [unfolded y]]
    have inv': "be_inv cfg ccfg n p (b\<lparr>cbPri := ?\<sigma>'\<rparr>)"
      by (rule be_inv_primary [OF inv i(1)]) (use i(2) be_invD(4) [OF inv] in simp_all)
    have "set (remove1 (c, a) (sUsed ?\<sigma>)) = set (sUsed ?\<sigma>) - {(c, a)}"
      using used_distinct(1) [OF s] by (rule set_remove1_eq)
    moreover have "(c, a) \<notin> Pair 0 ` X" for X :: "uptr set" using u(2) by auto
    ultimately have "be_used (b\<lparr>cbPri := ?\<sigma>'\<rparr>) = be_used b - {(c, a)}" by (auto simp: be_used_def)
    then show ?thesis using Inr inv' ends_kept_primary by (simp add: be_deallocate_def Let_def y)
  qed
qed

lemma be_drain_law:
  assumes inv: "be_inv cfg ccfg n p b" and t: "beThread e < n"
  shows "\<exists>r. be_drain cfg e b = Some r \<and> (case r of Inl x \<Rightarrow> be_err x
    | Inr b' \<Rightarrow> be_inv cfg ccfg n p b' \<and> ends_kept (scudo_ops cfg cls ccfg) b b' (be_used b) \<and> be_used b' = be_used b)"
proof -
  let ?\<sigma> = "cbPri b" and ?t = "beThread e"
  note s = be_invD(1) [OF inv]
  obtain r where r: "lc_drain cfg (bePri e) (thread_state ?\<sigma> ?t) = Some r"
    "res_ok cfg (\<lambda>S'. drained cfg {..<pcNumClasses cfg} (elsewhere cfg n ?\<sigma> ?t) (\<lambda>_. {#}) (thread_state ?\<sigma> ?t) S' \<and> pwf cfg S' \<and> lc_isEmpty cfg (snd S')) r"
    using lc_drain_ok [OF sys_invD(1,2) [OF s t], of "bePri e"] by blast
  show ?thesis
  proof (cases r)
    case (Inl x)
    then show ?thesis using r ok_error_be by (simp add: be_drain_def bindO_def)
  next
    case (Inr y)
    obtain P C where y: "y = (P, C)" by (rule prod.exhaust)
    let ?\<sigma>' = "?\<sigma>\<lparr>sPri := P, sCaches := (sCaches ?\<sigma>)(?t := C)\<rparr>"
    have l: "lc_drain cfg (bePri e) (thread_state ?\<sigma> ?t) = Some (Inr (P, C))" using r(1) Inr y by simp
    note i = step_drain_inv [OF s t l]
    have "be_inv cfg ccfg n p (b\<lparr>cbPri := ?\<sigma>'\<rparr>)"
      by (rule be_inv_primary [OF inv i(1)]) (use i(2) be_invD(4) [OF inv] in simp_all)
    moreover have "be_used (b\<lparr>cbPri := ?\<sigma>'\<rparr>) = be_used b" by (simp add: be_used_def)
    moreover have "be_drain cfg e b = Some (Inr (b\<lparr>cbPri := ?\<sigma>'\<rparr>))" by (simp add: be_drain_def Let_def l bindO_def)
    ultimately show ?thesis using ends_kept_primary by simp
  qed
qed

text \<open>A release gives back no byte of a block in use.\<close>

lemma taken_in_carved:
  assumes s: "sys_inv cfg n \<sigma>" and c: "0 < c" "c < pcNumClasses cfg" and o: "sOut \<sigma> c = Some (G, fr, dl)"
  shows "used_blocks cfg (sPri \<sigma>) (sUsed \<sigma>) c + list_free G \<subseteq># mset (carved cfg c (Regions (sPri \<sigma>) c))"
proof -
  have n: "0 < n" using s by (simp add: sys_inv_def)
  have "mset (carved cfg c (Regions (sPri \<sigma>) c)) = blocks_of cfg c (thread_state \<sigma> 0) + elsewhere cfg n \<sigma> 0 c"
    using sys_invD(1) [OF s n] c(2) by (simp add: pinv_def)
  moreover have "taken_groups (sOut \<sigma> c) = G" by (simp add: o taken_groups_def)
  ultimately have "mset (carved cfg c (Regions (sPri \<sigma>) c)) = used_blocks cfg (sPri \<sigma>) (sUsed \<sigma>) c + list_free G +
      (blocks_of cfg c (thread_state \<sigma> 0) + (\<Sum>u\<in>{..<n} - {0}. mset (Chunks (PerClassArray (sCaches \<sigma> u) c))))"
    using c(1) by (simp add: elsewhere_def rest_blocks_def out_blocks_def ac_simps)
  then show ?thesis by simp
qed

lemma release_avoids:
  assumes inv: "be_inv cfg ccfg n p b" and s1: "sys_inv cfg n \<sigma>" and b1: "same_bases (sPri (cbPri b)) (sPri \<sigma>)" and U: "sUsed \<sigma> = sUsed (cbPri b)"
    and c: "0 < c" "c < pcNumClasses cfg" and o: "sOut \<sigma> c = Some (G, fr, dl)"
    and r: "range_sound cfg (sPri \<sigma>) c G (a, k)" and x: "x \<in> be_used b"
  shows "block_set (scudo_ops cfg cls ccfg) b x \<inter> bytes_at a (unat k) = {}"
proof -
  let ?P = "sPri \<sigma>" and ?B = "block_set (scudo_ops cfg cls ccfg) b x"
  note R = used_in_carved(2,3) [OF s1 c(2)]
  have reg: "region_range cfg (sPri (cbPri b)) = region_range cfg ?P" using regions_placed_same(2) [OF b1] by simp
  have sub: "{unat a..<unat a + unat k} \<subseteq> region_range cfg ?P c" using r by (simp add: range_sound_def)
  have M: "unat (mBase (rMemMap (Regions ?P c))) + 2 ^ RegionSizeLog cfg < 2 ^ 64"
    using be_invD(2) [OF inv] c(2) b1 by (simp add: regions_apart_def same_bases_def)
  have top: "unat a + unat k \<le> 2 ^ 64"
  proof (cases "unat k = 0")
    case False
    then have "unat a + unat k - 1 \<in> region_range cfg ?P c" using sub by auto
    then show ?thesis using M by (auto simp: region_range_def)
  qed (use unat_less_exp [of a] in simp)
  have disj: "unat y \<notin> {unat a..<unat a + unat k}" if y: "y \<in> ?B" for y
    using inv x
  proof (cases rule: be_used_cases)
    case (secondary H)
    then have "unat y \<notin> region_range cfg ?P c" using secondary_outside [OF inv secondary(2) c(2)] y reg by simp
    then show ?thesis using sub by blast
  next
    case primary
    note f = primary_block [OF inv primary(1)]
    have by': "unat y \<in> block_bytes cfg x" using y unfolding f(7) .
    show ?thesis
    proof (cases "fst x = c")
      case False
      have apart: "region_range cfg ?P (fst x) \<inter> region_range cfg ?P c = {}"
        using be_invD(2) [OF inv] c(2) f(2) False b1 by (fastforce simp: regions_apart_def same_bases_def region_range_def)
      have "unat y \<in> region_range cfg ?P (fst x)" using by' f(5) by (auto simp: block_bytes_def reg)
      then show ?thesis using apart sub by blast
    next
      case True
      let ?R = "Regions ?P c" and ?z = "pri_getSizeByClassId cfg c"
      obtain i where i: "block_index cfg ?P x i" "carved cfg (fst x) (Regions ?P (fst x)) ! i = compactPtr cfg (fst x) ?P (snd x)"
        using used_index [OF s1, of x] primary(1) U by auto
      have ap: "regions_apart cfg ?P" using be_invD(2) [OF inv] b1 by (simp add: regions_apart_def same_bases_def)
      have xi: "unat (snd x) = unat (RegionBeg ?R) + i * unat ?z" using index_bytes(1) [OF R(2) _ ap f(2) i(1)] R(1) True by simp
      have len: "i < List.length (carved cfg c ?R)" using i(1) True by (simp add: carved_def block_index_def)
      have inb: "unat y \<in> block_range_at cfg ?P c i" using by' xi True by (simp add: block_bytes_def block_range_at_def)
      show ?thesis
      proof
        assume "unat y \<in> {unat a..<unat a + unat k}"
        then have "block_range_at cfg ?P c i \<inter> {unat a..<unat a + unat k} \<noteq> {}" using inb by blast
        then have "carved cfg c ?R ! i \<in># list_free G" using r len by (simp add: range_sound_def)
        moreover have "carved cfg c ?R ! i \<in># used_blocks cfg ?P (sUsed \<sigma>) c"
        proof -
          have "x \<in> set (filter (\<lambda>y. fst y = c) (sUsed \<sigma>))" using primary(1) U True by simp
          then have "compactPtr cfg c ?P (snd x) \<in> set (map (compactPtr cfg c ?P \<circ> snd) (filter (\<lambda>y. fst y = c) (sUsed \<sigma>)))" by force
          then show ?thesis using i(2) True unfolding used_blocks_def by simp
        qed
        moreover have "used_blocks cfg ?P (sUsed \<sigma>) c + list_free G \<subseteq># mset (carved cfg c ?R)"
          by (rule taken_in_carved [OF s1 c o])
        ultimately have "2 \<le> count (mset (carved cfg c ?R)) (carved cfg c ?R ! i)"
          using mset_subset_eq_count [of "used_blocks cfg ?P (sUsed \<sigma>) c + list_free G" "mset (carved cfg c ?R)" "carved cfg c ?R ! i"]
          by (simp add: count_greater_zero_iff [symmetric] del: count_greater_zero_iff)
        moreover have "distinct (carved cfg c ?R)" by (rule carved_distinct [OF R(2) c(2) R(1)])
        ultimately show False by (simp add: distinct_count_atmost_1 split: if_splits)
      qed
    qed
  qed
  have "y \<notin> bytes_at a (unat k)" if "y \<in> ?B" for y using disj [OF that] unfolding in_bytes_at [OF top] by auto
  then show ?thesis by blast
qed

lemma be_inv_released:
  assumes inv: "be_inv cfg ccfg n p b" and s: "sys_inv cfg n ((cbPri b)\<lparr>sPri := P, sOut := Out\<rparr>)" and O: "Out = sOut (cbPri b)"
    and bs: "same_bases (sPri (cbPri b)) P"
  shows "be_inv cfg ccfg n p (b\<lparr>cbPri := (cbPri b)\<lparr>sPri := P\<rparr>\<rparr>)" "be_used (b\<lparr>cbPri := (cbPri b)\<lparr>sPri := P\<rparr>\<rparr>) = be_used b"
proof -
  have "(cbPri b)\<lparr>sPri := P, sOut := Out\<rparr> = (cbPri b)\<lparr>sPri := P\<rparr>" unfolding O by (cases "cbPri b") simp
  then have s': "sys_inv cfg n ((cbPri b)\<lparr>sPri := P\<rparr>)" using s by simp
  show "be_inv cfg ccfg n p (b\<lparr>cbPri := (cbPri b)\<lparr>sPri := P\<rparr>\<rparr>)"
    by (rule be_inv_primary [OF inv s']) (use bs be_invD(4) [OF inv] in simp_all)
  show "be_used (b\<lparr>cbPri := (cbPri b)\<lparr>sPri := P\<rparr>\<rparr>) = be_used b" by (simp add: be_used_def)
qed

lemma be_tryRelease_law:
  assumes inv: "be_inv cfg ccfg n p b" and e: "release_sound cfg (beReleased e)" and c: "0 < c" "c \<le> pcNumClasses cfg - 1"
    and r: "be_tryRelease cfg e c b = (b', ev)"
  shows "be_inv cfg ccfg n p b' \<and> ends_kept (scudo_ops cfg cls ccfg) b b' (be_used b) \<and> be_used b' = be_used b \<and>
    (\<forall>x\<in>be_used b. block_set (scudo_ops cfg cls ccfg) b x \<inter> events_bytes ev = {})"
proof (cases "beTryLock e")
  case False
  then show ?thesis using r inv by (simp add: be_tryRelease_def ends_kept_def)
next
  case True
  let ?\<sigma> = "cbPri b" and ?P = "sPri (cbPri b)" and ?pg = "osPageSize (pOs (bePri e))" and ?nw = "now (pOs (bePri e))"
  note s = be_invD(1) [OF inv] and out = be_invD(4) [OF inv]
  have c': "c < pcNumClasses cfg" using c by linarith
  obtain x R where rb: "release_begin cfg ?pg ?nw (pReleaseToOsIntervalMs ?P) c (SmallerBlockReleasePageDelta ?P) NormalRelease (Regions ?P c) = (x, R)"
    by (rule prod.exhaust)
  define P1 where "P1 = upd_region c (\<lambda>_. R) ?P"
  define \<sigma>1 where "\<sigma>1 = ?\<sigma>\<lparr>sPri := P1, sOut := (sOut ?\<sigma>)(c := x)\<rparr>"
  have s1: "sys_inv cfg n \<sigma>1" "same_bases ?P P1"
    unfolding \<sigma>1_def P1_def by (rule step_release_begin_inv [OF s c(1) c' out rb])+
  show ?thesis
  proof (cases x)
    case None
    then have "be_tryRelease cfg e c b = (b\<lparr>cbPri := ?\<sigma>\<lparr>sPri := P1\<rparr>\<rparr>, [])" using True rb by (simp add: be_tryRelease_def Let_def P1_def)
    then have b': "b' = b\<lparr>cbPri := ?\<sigma>\<lparr>sPri := P1\<rparr>\<rparr>" "ev = []" using r by simp_all
    have "(sOut ?\<sigma>)(c := x) = sOut ?\<sigma>" using out None by (simp add: fun_upd_idem)
    note i = be_inv_released [OF inv s1(1) [unfolded \<sigma>1_def] this s1(2)]
    show ?thesis using i ends_kept_primary by (simp add: b')
  next
    case (Some y)
    obtain G fr dl where y: "y = (G, fr, dl)" by (metis prod.exhaust)
    let ?rs = "beReleased e P1 c G"
    obtain rb2 P2 where re: "release_end cfg ?pg ?nw c (G, fr, dl) (map_option (\<lambda>rs. sum_list (map snd rs)) ?rs) P1 = (rb2, P2)" by (rule prod.exhaust)
    have res: "b' = b\<lparr>cbPri := ?\<sigma>\<lparr>sPri := P2\<rparr>\<rparr>" "ev = (case ?rs of None \<Rightarrow> [] | Some rs \<Rightarrow> map (\<lambda>(a, n). ReleaseAndZero (rMemMap R) a n) rs)"
      using True rb r re by (simp_all add: be_tryRelease_def Let_def P1_def Some y)
    have o1: "sOut \<sigma>1 c = Some (G, fr, dl)" by (simp add: \<sigma>1_def Some y)
    have P1: "sPri \<sigma>1 = P1" "sUsed \<sigma>1 = sUsed ?\<sigma>" by (simp_all add: \<sigma>1_def)
    note s2 = step_release_end_inv [OF s1(1) c(1) c' o1 re [folded P1(1)]]
    have e2: "\<sigma>1\<lparr>sPri := P2, sOut := (sOut \<sigma>1)(c := None)\<rparr> = ?\<sigma>\<lparr>sPri := P2, sOut := (sOut ?\<sigma>)(c := None)\<rparr>" by (simp add: \<sigma>1_def)
    have id: "(sOut ?\<sigma>)(c := None) = sOut ?\<sigma>" using out by (simp add: fun_upd_idem)
    have b2: "same_bases ?P P2" using same_bases_trans [OF s1(2)] s2(2) P1(1) by simp
    note i = be_inv_released [OF inv s2(1) [unfolded e2] id b2]
    have "block_set (scudo_ops cfg cls ccfg) b x \<inter> events_bytes ev = {}" if x: "x \<in> be_used b" for x
    proof (cases ?rs)
      case None
      then show ?thesis by (simp add: res(2))
    next
      case (Some rs)
      have sub: "list_free G \<subseteq># mset (carved cfg c (Regions P1 c))"
        using taken_in_carved [OF s1(1) c(1) c' o1] by (simp add: P1(1)) (metis mset_subset_eq_add_right subset_mset.order_trans)
      have "region_ok cfg c (Regions P1 c)" using used_in_carved(2) [OF s1(1) c'] by (simp add: P1(1))
      then have rsnd: "range_sound cfg P1 c G r" if "r \<in> set rs" for r
        using e c(1) c' sub Some that by (simp add: release_sound_def)
      have "block_set (scudo_ops cfg cls ccfg) b x \<inter> event_bytes f = {}" if f: "f \<in> set ev" for f
      proof -
        obtain a k where ak: "(a, k) \<in> set rs" "f = ReleaseAndZero (rMemMap R) a k" using f by (auto simp: res(2) Some)
        show ?thesis unfolding ak(2) event_bytes.simps
          by (rule release_avoids [OF inv s1(1) _ P1(2) c(1) c' o1 _ x]) (use s1(2) rsnd [OF ak(1)] P1(1) in simp_all)
      qed
      then show ?thesis by (auto simp: events_bytes_def)
    qed
    then show ?thesis using i ends_kept_primary by (simp add: res(1))
  qed
qed

section \<open>The operations of the secondary\<close>

text \<open>A step of the secondary that keeps the blocks Hs.\<close>

lemma be_inv_secondary:
  assumes inv: "be_inv cfg ccfg n p b" and s: "sec_inv (map_cache_inv ccfg) map_cache_blocks (map_cache_owned ccfg) p S Hs K"
    and al: "\<forall>H\<in>set Hs. isAligned H 16" and K: "\<forall>m\<in>#K. outside_regions cfg (sPri (cbPri b)) m"
  shows "be_inv cfg ccfg n p (b\<lparr>cbSec := S\<rparr>)" "be_used (b\<lparr>cbSec := S\<rparr>) = set (sUsed (cbPri b)) \<union> (\<lambda>H. (0, H + 64)) ` set Hs"
proof -
  note h = sec_headers_of(1) [OF s] and m = sec_maps_of [OF s]
  show "be_inv cfg ccfg n p (b\<lparr>cbSec := S\<rparr>)" using inv s al K by (simp add: be_inv_def h m)
  show "be_used (b\<lparr>cbSec := S\<rparr>) = set (sUsed (cbPri b)) \<union> (\<lambda>H. (0, H + 64)) ` set Hs"
    by (auto simp: be_used_def sec_iterate h)
qed

lemma ends_kept_secondary:
  assumes inv: "be_inv cfg ccfg n p b" and k: "\<forall>H\<in>set Hs. maHeaders S H = maHeaders (cbSec b) H"
    and X: "X \<subseteq> set (sUsed (cbPri b)) \<union> (\<lambda>H. (0, H + 64)) ` set Hs"
  shows "ends_kept (scudo_ops cfg cls ccfg) b (b\<lparr>cbSec := S\<rparr>) X"
  unfolding ends_kept_def
proof
  fix x assume "x \<in> X"
  then consider "x \<in> set (sUsed (cbPri b))" | H where "x = (0, H + 64)" "H \<in> set Hs" using X by auto
  then show "block_end (scudo_ops cfg cls ccfg) (b\<lparr>cbSec := S\<rparr>) x = block_end (scudo_ops cfg cls ccfg) b x"
  proof cases
    case 1
    then show ?thesis using primary_block(1) [OF inv 1] by (simp add: block_end_def)
  next
    case 2
    then show ?thesis using k by (simp add: block_end_def sec_getBlockEnd_def)
  qed
qed

text \<open>Events in mappings outside of the regions and of those of the blocks Hs leave the blocks alone.\<close>

lemma secondary_avoids:
  assumes inv: "be_inv cfg ccfg n p b" and sub: "events_bytes ev \<subseteq> maps_bytes X"
    and top: "\<forall>m\<in>#X. unat (mBase m) + unat (mCapacity m) < 2 ^ 48" and out: "\<forall>m\<in>#X. outside_regions cfg (sPri (cbPri b)) m"
    and dj: "\<forall>m\<in>#X. \<forall>H\<in>set Hs. map_range m \<inter> map_range (hMemMap (maHeaders (cbSec b) H)) = {}" and Hs: "set Hs \<subseteq> set (sec_headers (cbSec b))"
    and x: "x \<in> set (sUsed (cbPri b)) \<union> (\<lambda>H. (0, H + 64)) ` set Hs"
  shows "block_set (scudo_ops cfg cls ccfg) b x \<inter> events_bytes ev = {}"
proof -
  have "z \<notin> map_bytes m" if z: "z \<in> block_set (scudo_ops cfg cls ccfg) b x" and m: "m \<in># X" for z m
  proof
    assume "z \<in> map_bytes m"
    then have zr: "unat z \<in> map_range m" using top m by (subst (asm) unat_in_map_bytes) (auto simp: map_range_def)
    from x consider "x \<in> set (sUsed (cbPri b))" | H where "x = (0, H + 64)" "H \<in> set Hs" by auto
    then show False
    proof cases
      case 1
      note f = primary_block [OF inv 1]
      have "unat z \<in> region_range cfg (sPri (cbPri b)) (fst x)" using z f(5) unfolding f(7) by (auto simp: block_bytes_def)
      then show False using zr out m f(2) by (auto simp: outside_regions_def)
    next
      case 2
      have H: "H \<in> set (sec_headers (cbSec b))" using 2 Hs by blast
      note f = secondary_block [OF inv H]
      have "z \<in> map_bytes (hMemMap (maHeaders (cbSec b) H))" using f(7) z by (auto simp: 2)
      then have "unat z \<in> map_range (hMemMap (maHeaders (cbSec b) H))"
        using f(6) by (subst (asm) unat_in_map_bytes) (simp_all add: map_range_def)
      then show False using zr dj m 2(2) by blast
    qed
  qed
  then show ?thesis using sub by (fastforce simp: maps_bytes_def)
qed

lemma owned_map_block:
  assumes "map_cache_inv ccfg C" and "m \<in># map_cache_owned ccfg C"
  shows "\<exists>E\<in>map_cache_blocks C. cMemMap E = m"
  using assms by (auto simp: map_cache_inv_def map_cache_owned_def owned_maps_def quarantined_def map_cache_blocks_def timeless_def)

lemma sec_maps_facts:
  assumes "sec_inv (map_cache_inv ccfg) map_cache_blocks (map_cache_owned ccfg) p S Hs K"
  shows "m \<in># map_cache_owned ccfg (maCache S) \<Longrightarrow> m \<in># K \<and> unat (mBase m) + unat (mCapacity m) < 2 ^ 48"
    and "m \<in># map_cache_owned ccfg (maCache S) \<Longrightarrow> H \<in> set Hs \<Longrightarrow> map_range m \<inter> map_range (hMemMap (maHeaders S H)) = {}"
    and "H \<in> set Hs \<Longrightarrow> hMemMap (maHeaders S H) \<in># K \<and> unat (mBase (hMemMap (maHeaders S H))) + unat (mCapacity (hMemMap (maHeaders S H))) < 2 ^ 48"
proof -
  have K: "K = map_cache_owned ccfg (maCache S) + mset (map (hMemMap \<circ> maHeaders S) Hs)" "disjoint_maps K" "map_cache_inv ccfg (maCache S)"
    "\<forall>E\<in>map_cache_blocks (maCache S). geo_ok p E" "\<forall>H\<in>set Hs. live_hdr_ok p (maHeaders S H) H"
    using assms by (auto simp: sec_inv_def)
  show "m \<in># K \<and> unat (mBase m) + unat (mCapacity m) < 2 ^ 48" if "m \<in># map_cache_owned ccfg (maCache S)"
    using owned_map_block [OF K(3) that] K(1,4) that by (auto simp: geo_ok_def in_map_def)
  show "hMemMap (maHeaders S H) \<in># K \<and> unat (mBase (hMemMap (maHeaders S H))) + unat (mCapacity (hMemMap (maHeaders S H))) < 2 ^ 48" if "H \<in> set Hs"
    using K(1,5) that by (auto simp: live_hdr_ok_def geo_ok_def block_of_def in_map_def)
  show "map_range m \<inter> map_range (hMemMap (maHeaders S H)) = {}" if "m \<in># map_cache_owned ccfg (maCache S)" "H \<in> set Hs"
  proof -
    have "{#m#} \<subseteq># map_cache_owned ccfg (maCache S)" "{#hMemMap (maHeaders S H)#} \<subseteq># mset (map (hMemMap \<circ> maHeaders S) Hs)"
      using that by simp_all
    then have "{#m#} + {#hMemMap (maHeaders S H)#} \<subseteq># K" unfolding K(1) by (rule subset_mset.add_mono)
    then show ?thesis using K(2) by (simp add: disjoint_maps_def add_mset_commute)
  qed
qed

lemma be_sec_allocate_law:
  assumes inv: "be_inv cfg ccfg n p b" and res: "be_reserve_ok cfg ccfg p e b" and Sz: "unat Sz < 2 ^ 40" and a: "4 \<le> a" "a \<le> 24"
  shows "\<exists>r b' ev. be_sec_allocate ccfg e opt Sz (2 ^ a) Fill b = Some (Inr (r, b', ev)) \<and> be_inv cfg ccfg n p b' \<and>
    ends_kept (scudo_ops cfg cls ccfg) b b' (be_used b) \<and> (\<forall>x\<in>be_used b. block_set (scudo_ops cfg cls ccfg) b x \<inter> events_bytes ev = {}) \<and>
    (case r of None \<Rightarrow> be_used b' = be_used b
     | Some (B, E) \<Rightarrow> (0, B) \<notin> be_used b \<and> be_used b' = insert (0, B) (be_used b) \<and> E = sec_getBlockEnd (cbSec b') B \<and>
         unat B + 16 + unat Sz \<le> unat E \<and> unat E < unat B + 16 + unat Sz + 2 ^ a + 16 \<and> isAligned (B + 16) (2 ^ a))"
proof -
  let ?S = "cbSec b" and ?Hs = "sec_headers (cbSec b)" and ?K = "sec_maps ccfg (cbSec b)" and ?P = "sPri (cbPri b)"
  note s = be_invD(5) [OF inv]
  have env: "sec_env_ok (beSec e) p ?K" and out: "\<And>k a. reserve (beSec e) k = Some a \<Longrightarrow> outside_regions cfg ?P \<lparr> mBase = a, mCapacity = k \<rparr>"
    using res by (simp_all add: be_reserve_ok_def)
  have a40: "a \<le> 40" and Sz45: "unat Sz < 2 ^ 45" and am: "max a 4 = a" using a Sz by simp_all
  obtain r S' ev Hs' where r: "sec_allocate (map_cache_ops ccfg) (beSec e) opt Sz (2 ^ a) Fill ?S = Some (Inr (r, S', ev))"
    "sec_inv (map_cache_inv ccfg) map_cache_blocks (map_cache_owned ccfg) p S' Hs' (?K + mapped ev - unmapped ev)"
    "new_block Sz 16 a S' ?Hs Hs' r" "sec_effect (beSec e) ?Hs ?S S' (map_cache_owned ccfg (maCache ?S)) ev"
    using map_cache.allocate_spec [OF s env a40 Sz45, of opt Fill] unfolding am by blast
  let ?b = "b\<lparr>cbSec := S'\<rparr>" and ?X = "map_cache_owned ccfg (maCache (cbSec b)) + mapped ev"
  have new: "outside_regions cfg ?P m \<and> unat (mBase m) + unat (mCapacity m) < 2 ^ 48 \<and> (\<forall>k\<in>#?K. map_range m \<inter> map_range k = {})"
    if "m \<in># mapped ev" for m
  proof -
    have m: "reserve (beSec e) (mCapacity m) = Some (mBase m)" using r(4) that by (simp add: sec_effect_def)
    have "unat (mBase m) + unat (mCapacity m) < 2 ^ 48 \<and> (\<forall>k\<in>#?K. map_range \<lparr> mBase = mBase m, mCapacity = mCapacity m \<rparr> \<inter> map_range k = {})"
      using env m unfolding sec_env_ok_def by blast
    moreover have e: "\<lparr> mBase = mBase m, mCapacity = mCapacity m \<rparr> = m" by simp
    ultimately show ?thesis using out [OF m] unfolding e by blast
  qed
  have al: "\<forall>H\<in>set Hs'. isAligned H 16"
  proof
    fix H assume H: "H \<in> set Hs'"
    show "isAligned H 16"
    proof (cases "H \<in> set ?Hs")
      case True
      then show ?thesis by (rule be_invD(6) [OF inv])
    next
      case False
      then obtain B E where B: "H = B - 64" "isAligned (B + 16) (2 ^ a)" using r(3) H by (auto simp: new_block_def split: option.splits)
      have "unat H + 80 < 2 ^ 64" using r(2) H by (auto simp: sec_inv_def live_hdr_ok_def geo_ok_def block_of_def in_map_def)
      then have "unat (H + 80) = unat H + 80" by (subst unat_add_lem [THEN iffD1]) simp_all
      then have u: "unat (B + 16) = unat H + 80" by (simp add: B(1) add.commute)
      have "(2 :: nat) ^ 4 dvd 2 ^ a" using a(1) by (rule le_imp_power_dvd)
      then have "16 dvd unat H + 80" using B(2) u unfolding isAligned_exp by (auto dest: dvd_trans)
      then have "16 dvd unat H" by presburger
      then show ?thesis using isAligned_exp [of H 4] by (simp add: dvd_eq_mod_eq_0)
    qed
  qed
  have K': "\<forall>m\<in>#?K + mapped ev - unmapped ev. outside_regions cfg ?P m"
  proof
    fix m assume "m \<in># ?K + mapped ev - unmapped ev"
    then have "m \<in># ?K \<or> m \<in># mapped ev" by (auto dest: in_diffD)
    then show "outside_regions cfg ?P m" using be_invD(7) [OF inv] new by blast
  qed
  note i = be_inv_secondary [OF inv r(2) al K']
  have u: "be_used b = set (sUsed (cbPri b)) \<union> (\<lambda>H. (0, H + 64)) ` set ?Hs" by (auto simp: be_used_def sec_iterate)
  have ek: "ends_kept (scudo_ops cfg cls ccfg) b ?b (be_used b)"
    by (rule ends_kept_secondary [OF inv, of ?Hs]) (use r(4) in \<open>simp_all add: sec_effect_def u\<close>)
  have av: "block_set (scudo_ops cfg cls ccfg) b x \<inter> events_bytes ev = {}" if x: "x \<in> be_used b" for x
  proof (rule secondary_avoids [OF inv, where X = ?X and Hs = ?Hs])
    show "events_bytes ev \<subseteq> maps_bytes ?X" using r(4) by (simp add: sec_effect_def)
    show "\<forall>m\<in>#?X. unat (mBase m) + unat (mCapacity m) < 2 ^ 48" using sec_maps_facts(1) [OF s] new by auto
    show "\<forall>m\<in>#?X. outside_regions cfg ?P m" using sec_maps_facts(1) [OF s] be_invD(7) [OF inv] new by auto
    show "\<forall>m\<in>#?X. \<forall>H\<in>set ?Hs. map_range m \<inter> map_range (hMemMap (maHeaders ?S H)) = {}"
    proof (intro ballI)
      fix m H assume m: "m \<in># ?X" and H: "H \<in> set ?Hs"
      from m have "m \<in># map_cache_owned ccfg (maCache ?S) \<or> m \<in># mapped ev" by simp
      then show "map_range m \<inter> map_range (hMemMap (maHeaders ?S H)) = {}"
        using sec_maps_facts(2) [OF s _ H] sec_maps_facts(3) [OF s H] new by blast
    qed
  qed (use x u in simp_all)
  have "case r of None \<Rightarrow> be_used ?b = be_used b
     | Some (B, E) \<Rightarrow> (0, B) \<notin> be_used b \<and> be_used ?b = insert (0, B) (be_used b) \<and> E = sec_getBlockEnd (cbSec ?b) B \<and>
         unat B + 16 + unat Sz \<le> unat E \<and> unat E < unat B + 16 + unat Sz + 2 ^ a + 16 \<and> isAligned (B + 16) (2 ^ a)"
  proof (cases r)
    case None
    then show ?thesis using r(3) i(2) u by (simp add: new_block_def)
  next
    case (Some x)
    obtain B E where x: "x = (B, E)" by (rule prod.exhaust)
    have nb: "B - 64 \<notin> set ?Hs" "Hs' = ?Hs @ [B - 64]" "E = sec_getBlockEnd S' B" "unat B + 16 + unat Sz \<le> unat E"
      "isAligned (B + 16) (2 ^ a)" "unat E < unat B + 16 + unat Sz + 16 + 2 ^ a"
      using r(3) unfolding new_block_def Some x option.case prod.case by blast+
    have "(0, B) \<notin> set (sUsed (cbPri b))" using primary_block(1) [OF inv] by force
    moreover have "B \<noteq> H + 64" if "H \<in> set ?Hs" for H using nb(1) that by auto
    ultimately have "(0, B) \<notin> be_used b" unfolding u by auto
    then show ?thesis using nb i(2) unfolding Some x by (simp add: nb(3) [symmetric] u)
  qed
  moreover have "be_sec_allocate ccfg e opt Sz (2 ^ a) Fill b = Some (Inr (r, ?b, ev))" by (simp add: be_sec_allocate_def r(1) bindO_def)
  ultimately show ?thesis using i(1) ek av by blast
qed

lemma sec_deallocate_frame:
  "sec_deallocate ops (env\<lparr>reserve := f\<rparr>) q S = sec_deallocate ops env q S"
  "sec_deallocate ops env q S = Some (Inr (S', ev)) \<Longrightarrow> maHeaders S' = maHeaders S"
proof -
  show "sec_deallocate ops (env\<lparr>reserve := f\<rparr>) q S = sec_deallocate ops env q S"
  proof -
    have "return_to_arena (env\<lparr>reserve := f\<rparr>) = return_to_arena env" by (simp add: return_to_arena_def fun_eq_iff Let_def split: option.split)
    moreover have "sOs (env\<lparr>reserve := f\<rparr>) = sOs env" by simp
    ultimately show ?thesis unfolding sec_deallocate_def by (simp only:)
  qed
  show "maHeaders S' = maHeaders S" if "sec_deallocate ops env q S = Some (Inr (S', ev))"
    using that by (auto simp: sec_deallocate_def Let_def split: sum.splits if_splits)
qed

lemma be_sec_deallocate_law:
  assumes inv: "be_inv cfg ccfg n p b" and env: "be_env_ok cfg n p e" and q: "(0, q) \<in> be_used b"
  shows "\<exists>b' ev. be_sec_deallocate ccfg e q b = Some (Inr (b', ev)) \<and> be_inv cfg ccfg n p b' \<and>
    ends_kept (scudo_ops cfg cls ccfg) b b' (be_used b) \<and> be_used b' = be_used b - {(0, q)} \<and>
    (\<forall>x\<in>be_used b'. block_set (scudo_ops cfg cls ccfg) b x \<inter> events_bytes ev = {})"
proof -
  let ?S = "cbSec b" and ?Hs = "sec_headers (cbSec b)" and ?K = "sec_maps ccfg (cbSec b)" and ?P = "sPri (cbPri b)"
  let ?env = "(beSec e)\<lparr>reserve := \<lambda>_. None\<rparr>"
  note s = be_invD(5) [OF inv]
  have env': "sec_env_ok ?env p ?K" using env by (simp add: be_env_ok_def sec_env_ok_def)
  have "(0, q) \<notin> set (sUsed (cbPri b))" using primary_block(1) [OF inv] by force
  then obtain H where H: "H \<in> set ?Hs" "q = H + 64" using q by (auto simp: be_used_simps)
  obtain xs ys where sp: "?Hs = xs @ H # ys" using split_list [OF H(1)] by blast
  obtain S' ev where r: "sec_deallocate (map_cache_ops ccfg) ?env (H + 64) ?S = Some (Inr (S', ev))"
    "sec_inv (map_cache_inv ccfg) map_cache_blocks (map_cache_owned ccfg) p S' (xs @ ys) (?K - unmapped ev)" "mapped ev = {#}"
    "sec_effect ?env (xs @ ys) ?S S' (add_mset (hMemMap (maHeaders ?S H)) (map_cache_owned ccfg (maCache ?S))) ev"
    using map_cache.deallocate_spec [OF s [unfolded sp] env'] unfolding sp [symmetric] by blast
  let ?b = "b\<lparr>cbSec := S'\<rparr>" and ?X = "add_mset (hMemMap (maHeaders (cbSec b) H)) (map_cache_owned ccfg (maCache (cbSec b)))"
  have hd: "maHeaders S' = maHeaders ?S" by (rule sec_deallocate_frame(2) [OF r(1)])
  have dist: "H \<notin> set (xs @ ys)" using sec_headers_of(2) [OF s] by (simp add: sp)
  have al: "\<forall>G\<in>set (xs @ ys). isAligned G 16" using be_invD(6) [OF inv] by (auto simp: sp)
  have K': "\<forall>m\<in>#?K - unmapped ev. outside_regions cfg ?P m" using be_invD(7) [OF inv] by (auto dest: in_diffD)
  note i = be_inv_secondary [OF inv r(2) al K']
  have u: "be_used b = set (sUsed (cbPri b)) \<union> (\<lambda>H. (0, H + 64)) ` set ?Hs" by (auto simp: be_used_def sec_iterate)
  have u': "be_used ?b = be_used b - {(0, q)}"
    using \<open>(0, q) \<notin> set (sUsed (cbPri b))\<close> dist unfolding i(2) u sp H(2) by auto
  have ek: "ends_kept (scudo_ops cfg cls ccfg) b ?b (be_used b)"
    by (rule ends_kept_secondary [OF inv, of ?Hs]) (simp_all add: u hd)
  have HK: "{#hMemMap (maHeaders ?S H), hMemMap (maHeaders ?S G)#} \<subseteq># ?K" if G: "G \<in> set (xs @ ys)" for G
  proof -
    have "{#hMemMap (maHeaders ?S G)#} \<subseteq># mset (map (hMemMap \<circ> maHeaders ?S) (xs @ ys))" using G by auto
    then have "add_mset (hMemMap (maHeaders ?S H)) {#hMemMap (maHeaders ?S G)#} \<subseteq>#
        add_mset (hMemMap (maHeaders ?S H)) (mset (map (hMemMap \<circ> maHeaders ?S) (xs @ ys)))" by simp
    also have "\<dots> \<subseteq># ?K" unfolding sec_maps_def sp by simp
    finally show ?thesis .
  qed
  have av: "block_set (scudo_ops cfg cls ccfg) b x \<inter> events_bytes ev = {}" if x: "x \<in> be_used ?b" for x
  proof (rule secondary_avoids [OF inv, where X = ?X and Hs = "xs @ ys"])
    show "events_bytes ev \<subseteq> maps_bytes ?X" using r(3,4) by (simp add: sec_effect_def)
    show "\<forall>m\<in>#?X. unat (mBase m) + unat (mCapacity m) < 2 ^ 48" using sec_maps_facts(1,3) [OF s] H(1) by auto
    show "\<forall>m\<in>#?X. outside_regions cfg ?P m" using sec_maps_facts(1,3) [OF s] H(1) be_invD(7) [OF inv] by auto
    show "\<forall>m\<in>#?X. \<forall>G\<in>set (xs @ ys). map_range m \<inter> map_range (hMemMap (maHeaders ?S G)) = {}"
    proof (intro ballI)
      fix m G assume "m \<in># ?X" and G: "G \<in> set (xs @ ys)"
      then consider "m = hMemMap (maHeaders ?S H)" | "m \<in># map_cache_owned ccfg (maCache ?S)" by auto
      then show "map_range m \<inter> map_range (hMemMap (maHeaders ?S G)) = {}"
      proof cases
        case 1
        have "disjoint_maps ?K" using s by (simp add: sec_inv_def)
        then show ?thesis using HK [OF G] 1 by (simp add: disjoint_maps_def)
      next
        case 2
        show ?thesis by (rule sec_maps_facts(2) [OF s 2]) (use G sp in auto)
      qed
    qed
    show "set (xs @ ys) \<subseteq> set ?Hs" by (auto simp: sp)
    show "x \<in> set (sUsed (cbPri b)) \<union> (\<lambda>H. (0, H + 64)) ` set (xs @ ys)" using x i(2) by simp
  qed
  have "be_sec_deallocate ccfg e q b = Some (Inr (?b, ev))"
    using r(1) by (simp add: be_sec_deallocate_def sec_deallocate_frame(1) H(2) bindO_def)
  then show ?thesis using i(1) ek u' av by blast
qed

section \<open>Visiting the blocks\<close>

lemma be_blocks_law:
  assumes inv: "be_inv cfg ccfg n p b"
  shows "\<exists>L. be_blocks cfg b = Some L \<and> snd ` be_used b \<subseteq> set L \<and> distinct L"
proof -
  let ?P = "sPri (cbPri b)" and ?cs = "[1..<pcNumClasses cfg]"
  let ?L = "concat (map (region_blocks cfg (sPri (cbPri b))) ?cs)"
  note s = be_invD(1) [OF inv] and ap = be_invD(2) [OF inv]
  have it: "pri_iterateOverBlocks cfg ?P = Some ?L" by (rule iterate_all [OF s ap])
  have at: "\<exists>i. block_index cfg ?P (c, q) i \<and> unat q = unat (RegionBeg (Regions ?P c)) + i * unat (pri_getSizeByClassId cfg c) \<and>
      unat q \<in> region_range cfg ?P c" if q: "q \<in> set (region_blocks cfg ?P c)" and c: "c < pcNumClasses cfg" for q c
  proof -
    obtain i where i: "block_index cfg ?P (c, q) i" using q by (auto simp: region_blocks_def block_index_def)
    note R = used_in_carved(2,3) [OF s c]
    have f: "fst (c, q) < pcNumClasses cfg" "region_ok cfg (fst (c, q)) (Regions ?P (fst (c, q)))" using c R by simp_all
    note ib = index_bytes [OF R(2) f(2) ap f(1) i]
    have "0 < unat (pri_getSizeByClassId cfg c)" using cfg_class(1) [OF R(2) c] by simp
    then have "unat q \<in> region_range cfg ?P c" using ib(3,4) by (auto simp: region_range_def)
    then show ?thesis using i ib(1) by auto
  qed
  have dreg: "distinct (region_blocks cfg ?P c)" if c: "c < pcNumClasses cfg" for c
  proof -
    let ?n = "unat (AllocatedUser (Regions ?P c)) div unat (pri_getSizeByClassId cfg c)"
    let ?f = "\<lambda>i. RegionBeg (Regions ?P c) + of_nat i * pri_getSizeByClassId cfg c"
    have R: "region_ok cfg (fst (c, q)) (Regions ?P (fst (c, q)))" "fst (c, q) < pcNumClasses cfg" for q :: uptr
      using used_in_carved(2) [OF s c] c by simp_all
    have u: "unat (?f i) = unat (RegionBeg (Regions ?P c)) + i * unat (pri_getSizeByClassId cfg c)" if "i < ?n" for i
      using index_bytes(1) [OF used_in_carved(3) [OF s c] R(1) ap R(2), of "?f i" i] that by (simp add: block_index_def)
    have "0 < unat (pri_getSizeByClassId cfg c)" using cfg_class(1) [OF used_in_carved(3) [OF s c] c] by simp
    then have "inj_on ?f {..<?n}" using u unfolding inj_on_def by (metis add_left_cancel lessThan_iff mult_cancel2 less_numeral_extra(3))
    then show ?thesis by (simp add: region_blocks_def distinct_map lessThan_atLeast0)
  qed
  have apart: "region_range cfg ?P c \<inter> region_range cfg ?P d = {}" if "c < pcNumClasses cfg" "d < pcNumClasses cfg" "c \<noteq> d" for c d
    using ap that by (fastforce simp: regions_apart_def region_range_def)
  have dcat: "distinct (concat (map (region_blocks cfg ?P) cs))" if "distinct cs" "\<forall>c\<in>set cs. c < pcNumClasses cfg" for cs
    using that
  proof (induction cs)
    case (Cons c cs)
    have "set (region_blocks cfg ?P c) \<inter> set (region_blocks cfg ?P d) = {}" if "d \<in> set cs" for d
    proof -
      have "c \<noteq> d" "c < pcNumClasses cfg" "d < pcNumClasses cfg" using Cons.prems that by auto
      then have "False" if "q \<in> set (region_blocks cfg ?P c)" "q \<in> set (region_blocks cfg ?P d)" for q
        using at [OF that(1)] at [OF that(2)] apart [of c d] by blast
      then show ?thesis by blast
    qed
    then show ?case using Cons dreg by auto
  qed simp
  have d1: "distinct ?L" by (rule dcat) auto
  let ?S = "sec_iterateOverBlocks (cbSec b)"
  have d2: "distinct ?S" using sec_headers_of(2) [OF be_invD(5) [OF inv]] by (simp add: sec_iterate distinct_map inj_on_def)
  have d3: "set ?L \<inter> set ?S = {}"
  proof -
    have False if "q \<in> set ?L" "q \<in> set ?S" for q
    proof -
      obtain c where c: "q \<in> set (region_blocks cfg ?P c)" "c < pcNumClasses cfg" using \<open>q \<in> set ?L\<close> by auto
      obtain H where H: "q = H + 64" "H \<in> set (sec_headers (cbSec b))" using \<open>q \<in> set ?S\<close> by (auto simp: sec_iterate)
      have "H + 64 \<in> block_set (scudo_ops cfg undefined ccfg) b (0, H + 64)"
      proof -
        have "unat (block_end (scudo_ops cfg undefined ccfg) b (0, H + 64) - (H + 64)) =
          unat (block_end (scudo_ops cfg undefined ccfg) b (0, H + 64)) - unat (H + 64)"
          using secondary_block(2) [OF inv H(2), of undefined] by (subst unat_sub) (simp_all add: word_le_nat_alt)
        then show ?thesis using secondary_block(2) [OF inv H(2), of undefined] by (simp add: block_set_def bytes_at_def)
      qed
      from secondary_outside [OF inv H(2) c(2) this] show False using at [OF c] H(1) by blast
    qed
    then show ?thesis by blast
  qed
  have "snd ` be_used b \<subseteq> set (?L @ ?S)"
  proof
    fix q assume "q \<in> snd ` be_used b"
    then obtain x where x: "x \<in> be_used b" "q = snd x" by blast
    from inv x(1) show "q \<in> set (?L @ ?S)"
    proof (cases rule: be_used_cases)
      case primary
      note f = primary_block(2,8) [OF inv primary(1)]
      obtain i where "block_index cfg ?P x i" using f(2) by blast
      from block_index_listed [OF this] show ?thesis using f(1) primary(2) x(2) by auto
    next
      case (secondary H)
      then show ?thesis using x(2) by (simp add: sec_iterate)
    qed
  qed
  moreover have "be_blocks cfg b = Some (?L @ ?S)" by (simp add: be_blocks_def it)
  ultimately show ?thesis using d1 d2 d3 by (intro exI [of _ "?L @ ?S"]) simp
qed

section \<open>The default configuration\<close>

definition default_getClassIdBySize :: "uptr \<Rightarrow> nat" where
  "default_getClassIdBySize Sz = unat (fixed_getClassIdBySize DefaultSizeClassConfig Sz)"

definition default_ops :: "cache_config \<Rightarrow> (backend_env, comb_backend) backend_ops" where
  "default_ops = scudo_ops DefaultPrimaryConfig default_getClassIdBySize"

lemma default_classes: "pcNumClasses DefaultPrimaryConfig = 45" "unat (fixed_NumClasses DefaultSizeClassConfig) = 45"
  by (simp_all add: default_config size_class_defs)

lemma default_class_size: "0 < c \<Longrightarrow> pri_getSizeByClassId DefaultPrimaryConfig c = fixed_getSizeByClassId DefaultSizeClassConfig (of_nat c)"
  by (simp add: pri_getSizeByClassId_def DefaultPrimaryConfig_def fixed_pri_config_def)

lemma default_max: "pcMaxSize DefaultPrimaryConfig = fixed_MaxSize DefaultSizeClassConfig" "unat (fixed_MaxSize DefaultSizeClassConfig) = 131072"
  by (simp_all add: default_config fixed_MaxSize_def)

lemma default_class_fits:
  assumes "pri_canAllocate DefaultPrimaryConfig Sz"
  shows "0 < default_getClassIdBySize Sz \<and> default_getClassIdBySize Sz \<le> pcNumClasses DefaultPrimaryConfig - 1 \<and>
    unat Sz \<le> unat (pri_getSizeByClassId DefaultPrimaryConfig (default_getClassIdBySize Sz))"
proof (cases "Sz = 0")
  case True
  have "fixed_getClassIdBySize DefaultSizeClassConfig 0 = 1"
    by (simp add: fixed_getClassIdBySize_def default_config size_class_defs)
  then show ?thesis by (simp add: True default_getClassIdBySize_def default_classes)
next
  case False
  have m: "1 \<le> unat Sz" "Sz \<le> fixed_MaxSize DefaultSizeClassConfig"
    using False assms by (simp_all add: pri_canAllocate_def default_max Suc_le_eq unat_gt_0)
  note r = default_sc.class_range [OF m] and f = default_sc.class_fits [OF m]
  have "0 < default_getClassIdBySize Sz" using r by (simp add: default_getClassIdBySize_def)
  from default_class_size [OF this] show ?thesis using r f
    by (simp add: default_getClassIdBySize_def default_classes word_le_nat_alt)
qed

lemma default_class_mono:
  assumes "0 < c" "c \<le> d" "d \<le> pcNumClasses DefaultPrimaryConfig - 1"
  shows "unat (pri_getSizeByClassId DefaultPrimaryConfig c) \<le> unat (pri_getSizeByClassId DefaultPrimaryConfig d)"
proof -
  have u: "unat (of_nat c :: uptr) = c" "unat (of_nat d :: uptr) = d" using assms by (simp_all add: default_classes unat_of_nat take_bit_eq_mod)
  have "fixed_getSizeByClassId DefaultSizeClassConfig (of_nat c) \<le> fixed_getSizeByClassId DefaultSizeClassConfig (of_nat d)"
    using assms by (intro default_sc.size_mono_le) (simp_all add: u default_classes)
  then show ?thesis using assms by (simp add: default_class_size word_le_nat_alt)
qed

lemma default_class_bound:
  assumes "0 < c" "c \<le> pcNumClasses DefaultPrimaryConfig - 1"
  shows "unat (pri_getSizeByClassId DefaultPrimaryConfig c) < 2 ^ 20"
proof -
  have u: "unat (of_nat c :: uptr) = c" using assms by (simp add: default_classes unat_of_nat take_bit_eq_mod)
  have n: "unat (fixed_NumClasses DefaultSizeClassConfig - 1) = 44" using default_classes(2) by (subst unat_minus_one) auto
  have "fixed_getSizeByClassId DefaultSizeClassConfig (of_nat c) \<le> fixed_getSizeByClassId DefaultSizeClassConfig (fixed_NumClasses DefaultSizeClassConfig - 1)"
    using assms by (intro default_sc.size_mono_le) (simp_all add: u default_classes n)
  then show ?thesis using assms default_sc.last_size default_max(2) by (simp add: default_class_size word_le_nat_alt)
qed

lemma default_class_align: "\<forall>c<pcNumClasses DefaultPrimaryConfig. 16 dvd unat (pri_getSizeByClassId DefaultPrimaryConfig c)"
proof -
  have l: "list_all (\<lambda>c. 16 dvd unat (fixed_getSizeByClassId DefaultSizeClassConfig (of_nat c))) [1..<45]"
    unfolding upt_1_45 by (simp add: DefaultSizeClassConfig_def size_class_defs)
  have z0: "pri_getSizeByClassId DefaultPrimaryConfig 0 = 128"
    by (simp add: default_config pri_getSizeByClassId_def sizeof_TransferBatch_def sizeof_BatchGroup_def roundUp_def)
  show ?thesis
  proof (intro allI impI)
    fix c assume c: "c < pcNumClasses DefaultPrimaryConfig"
    show "16 dvd unat (pri_getSizeByClassId DefaultPrimaryConfig c)"
    proof (cases "c = 0")
      case False
      then have "c \<in> set [1..<45]" using c by (simp add: default_classes)
      then show ?thesis using l False unfolding list_all_iff by (simp add: default_class_size)
    qed (simp add: z0)
  qed
qed

interpretation scudo: combined_backend "default_ops ccfg" "be_inv DefaultPrimaryConfig ccfg n p" be_used "be_env_ok DefaultPrimaryConfig n p"
  "be_reserve_ok DefaultPrimaryConfig ccfg p" be_err for ccfg n p
proof unfold_locales
  note d = default_ops_def
  let ?cfg = DefaultPrimaryConfig and ?inv = "be_inv DefaultPrimaryConfig ccfg n p"
  show "fst x \<le> boLargestClassId (default_ops ccfg) \<and> snd x \<noteq> 0 \<and> isAligned (snd x) 16 \<and>
      unat (snd x) + 16 \<le> unat (block_end (default_ops ccfg) b x) \<and> unat (block_end (default_ops ccfg) b x) < 2 ^ 63"
    if "?inv b" "x \<in> be_used b" for b x
    using be_used_block [OF that default_class_align] by (simp add: d)
  show "block_set (default_ops ccfg) b x \<inter> block_set (default_ops ccfg) b y = {}"
    if "?inv b" "x \<in> be_used b" "y \<in> be_used b" "x \<noteq> y" for b x y
    unfolding d by (rule be_used_disjoint [OF that])
  show "case boAllocate (default_ops ccfg) e c b of Inl r \<Rightarrow> be_err r
      | Inr (q, b') \<Rightarrow> ?inv b' \<and> ends_kept (default_ops ccfg) b b' (be_used b) \<and>
          (\<forall>e. be_reserve_ok ?cfg ccfg p e b \<longrightarrow> be_reserve_ok ?cfg ccfg p e b') \<and>
          (case q of None \<Rightarrow> be_used b' = be_used b | Some a \<Rightarrow> (c, a) \<notin> be_used b \<and> be_used b' = insert (c, a) (be_used b))"
    if "?inv b" "be_env_ok ?cfg n p e" "0 < c" "c \<le> boLargestClassId (default_ops ccfg)" for b e c
    unfolding d be_fields by (rule be_allocate_law [OF that(1) _ that(3)]) (use that in \<open>simp_all add: be_env_ok_def d\<close>)
  show "case boDeallocate (default_ops ccfg) e c q b of Inl r \<Rightarrow> be_err r
      | Inr (_, b') \<Rightarrow> ?inv b' \<and> ends_kept (default_ops ccfg) b b' (be_used b) \<and> be_used b' = be_used b - {(c, q)}"
    if "?inv b" "be_env_ok ?cfg n p e" "(c, q) \<in> be_used b" "0 < c" for b e c q
    unfolding d be_fields by (rule be_deallocate_law [OF that(1) _ that(3,4)]) (use that in \<open>simp_all add: be_env_ok_def d\<close>)
  show "?inv b' \<and> ends_kept (default_ops ccfg) b b' (be_used b) \<and> be_used b' = be_used b \<and>
      (\<forall>x\<in>be_used b. block_set (default_ops ccfg) b x \<inter> events_bytes ev = {})"
    if "?inv b" "be_env_ok ?cfg n p e" "0 < c" "c \<le> boLargestClassId (default_ops ccfg)" "boTryRelease (default_ops ccfg) e c b = (b', ev)" for b e c b' ev
    unfolding d be_fields by (rule be_tryRelease_law [OF that(1) _ that(3)]) (use that in \<open>simp_all add: be_env_ok_def d\<close>)
  show "\<exists>r. boDrain (default_ops ccfg) e b = Some r \<and> (case r of Inl x \<Rightarrow> be_err x
      | Inr b' \<Rightarrow> ?inv b' \<and> ends_kept (default_ops ccfg) b b' (be_used b) \<and> be_used b' = be_used b)"
    if "?inv b" "be_env_ok ?cfg n p e" for b e
    unfolding d be_fields by (rule be_drain_law [OF that(1)]) (use that in \<open>simp_all add: be_env_ok_def d\<close>)
  show "\<exists>r b' ev. boSecAllocate (default_ops ccfg) e opt Sz (2 ^ a) Fill b = Some (Inr (r, b', ev)) \<and> ?inv b' \<and>
      ends_kept (default_ops ccfg) b b' (be_used b) \<and> (\<forall>x\<in>be_used b. block_set (default_ops ccfg) b x \<inter> events_bytes ev = {}) \<and>
      (case r of None \<Rightarrow> be_used b' = be_used b
       | Some (B, E) \<Rightarrow> (0, B) \<notin> be_used b \<and> be_used b' = insert (0, B) (be_used b) \<and> E = boBlockEnd (default_ops ccfg) b' B \<and>
           unat B + 16 + unat Sz \<le> unat E \<and> unat E < unat B + 16 + unat Sz + 2 ^ a + 16 \<and> isAligned (B + 16) (2 ^ a))"
    if "?inv b" "be_env_ok ?cfg n p e" "be_reserve_ok ?cfg ccfg p e b" "unat Sz < 2 ^ 40" "4 \<le> a" "a \<le> 24" for b e Sz a opt Fill
    using be_sec_allocate_law [OF that(1,3-6), of opt Fill default_getClassIdBySize] unfolding d be_fields by blast
  show "\<exists>b' ev. boSecDeallocate (default_ops ccfg) e q b = Some (Inr (b', ev)) \<and> ?inv b' \<and> ends_kept (default_ops ccfg) b b' (be_used b) \<and>
      be_used b' = be_used b - {(0, q)} \<and> (\<forall>x\<in>be_used b'. block_set (default_ops ccfg) b x \<inter> events_bytes ev = {})"
    if "?inv b" "be_env_ok ?cfg n p e" "(0, q) \<in> be_used b" for b e q
    using be_sec_deallocate_law [OF that, of default_getClassIdBySize] unfolding d be_fields by blast
  show "0 < boClassId (default_ops ccfg) Sz \<and> boClassId (default_ops ccfg) Sz \<le> boLargestClassId (default_ops ccfg) \<and>
      unat Sz \<le> unat (boClassSize (default_ops ccfg) (boClassId (default_ops ccfg) Sz))" if "boCanAllocate (default_ops ccfg) Sz" for Sz
    using default_class_fits [of Sz] that by (simp add: d)
  show "unat (boClassSize (default_ops ccfg) c) \<le> unat (boClassSize (default_ops ccfg) k)"
    if "0 < c" "c \<le> k" "k \<le> boLargestClassId (default_ops ccfg)" for c k
    using default_class_mono [of c k] that by (simp add: d)
  show "unat (boClassSize (default_ops ccfg) c) < 2 ^ 20" if "0 < c" "c \<le> boLargestClassId (default_ops ccfg)" for c
    using default_class_bound [of c] that by (simp add: d)
  show "boLargestClassId (default_ops ccfg) < 83" by (simp add: d default_classes)
  show "be_err (OutOfMemory k)" for k by (simp add: be_err_def)
  show "boCanAllocate (default_ops ccfg) (sizeof_QuarantineBatch + getHeaderSize)"
    by (simp add: d pri_canAllocate_def default_max word_le_nat_alt sizeof_QuarantineBatch_def getHeaderSize_16)
  show "\<exists>L. boBlocks (default_ops ccfg) b = Some L \<and> snd ` be_used b \<subseteq> set L \<and> distinct L" if "?inv b" for b
    using be_blocks_law [OF that] by (simp add: d)
qed

end
