(* ===== verification/Combined_Properties.thy ===== *)
theory Combined_Properties
  imports Combined_Backend
begin

text \<open>The combined allocator with the default configuration: its initialisation, the runs of a program that uses
  it, the invariant of every state so reached, and the abstract heap that the program sees.\<close>

section \<open>Initialisation and runs\<close>

text \<open>What the process gives to the initialisation: the page size, the memory that is reserved for the regions
  and a random seed.\<close>

record boot_env =
  btPageSize :: uptr
  btReserve :: "uptr \<Rightarrow> uptr option"
  btSeed :: u32

definition boot_ok :: "boot_env \<Rightarrow> bool" where
  "boot_ok e \<longleftrightarrow> 16 dvd unat (btPageSize e) \<and> unat (btPageSize e) \<le> 2 ^ 28 \<and>
     (\<forall>k base. btReserve e k = Some base \<longrightarrow> base \<noteq> 0 \<and> isAligned base 16 \<and> unat base + unat k < 2 ^ 63)"

text \<open>init of the primary and of the cache of the secondary.\<close>

definition be_init :: "cache_config \<Rightarrow> boot_env \<Rightarrow> int \<Rightarrow> comb_backend \<Rightarrow> comb_backend result" where
  "be_init ccfg e ReleaseToOsInterval b =
    bindR (pri_init DefaultPrimaryConfig (btPageSize e) (btReserve e) (btSeed e) ReleaseToOsInterval (sPri (cbPri b))) (\<lambda>P.
      Inr (b\<lparr>cbPri := (cbPri b)\<lparr>sPri := P\<rparr>, cbSec := (cbSec b)\<lparr>maCache := cache_init ccfg ReleaseToOsInterval (maCache (cbSec b))\<rparr>\<rparr>))"

text \<open>The object before: no blocks, no entries in the caches, no chunks in the quarantine, and no shared
  arenas, so that large blocks are mapped.\<close>

definition blank :: "nat \<Rightarrow> comb_backend allocator \<Rightarrow> bool" where
  "blank n A \<longleftrightarrow> 0 < n \<and> comb_fresh n A \<and> (\<exists>P C. fresh_primary P \<and> fresh_cache C \<and> cbPri (aBackend A) = pri_start DefaultPrimaryConfig P C) \<and>
     (\<forall>i. \<not> isValidBlock (cEntries (maCache (cbSec (aBackend A))) i) \<and> \<not> isValidBlock (cQuarantine (maCache (cbSec (aBackend A))) i)) \<and>
     (\<exists>l. InUseBlocks (cbSec (aBackend A)) = il_clear ptr_link_op l) \<and> \<not> pInitialized (maPool (cbSec (aBackend A)))"

definition comb_start :: "cache_config \<Rightarrow> nat \<Rightarrow> comb_backend allocator \<Rightarrow> bool" where
  "comb_start ccfg n A \<longleftrightarrow> EntriesArraySize ccfg < 65535 \<and> QuarantineSize ccfg < 2 ^ 32 \<and>
     (\<exists>F Cookie e A0. boot_ok e \<and> blank n A0 \<and> comb_init (default_ops ccfg) F Cookie (be_init ccfg e) A0 = Inr A)"

text \<open>A call by one of n threads, on a platform with pages of 2 ^ p bytes.\<close>

definition comb_call_ok :: "nat \<Rightarrow> nat \<Rightarrow> backend_env call_env \<Rightarrow> bool" where
  "comb_call_ok n p e \<longleftrightarrow> be_env_ok DefaultPrimaryConfig n p (ceBackend e) \<and> ceTSD e < n"

definition comb_map_ok :: "cache_config \<Rightarrow> nat \<Rightarrow> backend_env call_env \<Rightarrow> comb_backend allocator \<Rightarrow> bool" where
  "comb_map_ok ccfg p e A \<longleftrightarrow> be_reserve_ok DefaultPrimaryConfig ccfg p (ceBackend e) (aBackend A)"

definition comb_reached :: "cache_config \<Rightarrow> nat \<Rightarrow> nat \<Rightarrow> build_env \<Rightarrow> comb_backend program \<Rightarrow> bool" where
  "comb_reached ccfg n p bld S \<longleftrightarrow> (\<exists>A. comb_start ccfg n A \<and>
     (comb_step (default_ops ccfg) bld (comb_call_ok n p) (be_reserve_ok DefaultPrimaryConfig ccfg p))\<^sup>*\<^sup>* (A, Map.empty) S)"

section \<open>The start\<close>

lemma initRegion_place:
  assumes "16 dvd unat PgSize" and "unat PgSize \<le> 2 ^ 28" and "isAligned (mBase M) 16" and "mBase M \<noteq> 0"
    and "unat (mBase M) + 2 ^ 32 < 2 ^ 63"
  shows "isAligned (RegionBeg (initRegion cfg PgSize d c M ro R)) 16" "RegionBeg (initRegion cfg PgSize d c M ro R) \<noteq> 0"
proof -
  obtain r s where rs: "getRandomModN (RandState R) 16 = (r, s)" by (rule prod.exhaust)
  have r: "unat r < 16" using getRandomModN_less [of 16 "RandState R"] rs by simp
  have u: "unat (ucast r + 1 :: uptr) = unat r + 1"
    using r by (subst unat_add_lt) (simp_all add: unsigned_ucast_eq take_bit_eq_mod)
  have "(unat r + 1) * unat PgSize \<le> 16 * 2 ^ 28" using r assms(2) by (intro mult_le_mono) simp_all
  then have le: "(unat r + 1) * unat PgSize \<le> 2 ^ 32" by simp
  then have m: "unat ((ucast r + 1) * PgSize) = (unat r + 1) * unat PgSize"
    using unat_mult_lt [of "ucast r + 1 :: uptr" PgSize, unfolded u] by simp
  have a: "unat (mBase M + (ucast r + 1) * PgSize) = unat (mBase M) + (unat r + 1) * unat PgSize"
    using assms(5) le m by (subst unat_add_lt) simp_all
  have "16 dvd unat (mBase M)" using assms(3) by (simp add: aligned_dvd)
  then have "16 dvd unat (mBase M + (ucast r + 1) * PgSize)" unfolding a using assms(1) by (intro dvd_add dvd_mult)
  moreover have "unat (mBase M + (ucast r + 1) * PgSize) \<noteq> 0" unfolding a using assms(4) by (simp add: unat_eq_zero)
  ultimately show "isAligned (RegionBeg (initRegion cfg PgSize d c M ro R)) 16" "RegionBeg (initRegion cfg PgSize d c M ro R) \<noteq> 0"
    using assms(3,4) by (auto simp: initRegion_def rs Let_def aligned_dvd)
qed

lemma default_regions: "RegionSizeLog DefaultPrimaryConfig = 32" "EnableContiguousRegions DefaultPrimaryConfig"
  "push_bit 32 1 * of_nat 45 = (193273528320 :: uptr)"
  by (simp_all add: default_config size_class_defs)

lemma boot_placed:
  assumes e: "boot_ok e" and i: "pri_init DefaultPrimaryConfig (btPageSize e) (btReserve e) Seed iv P0 = Inr P" and f: "fresh_primary P0"
  shows "fresh_primary P" "regions_placed DefaultPrimaryConfig P" "c < 45 \<Longrightarrow> region_ok DefaultPrimaryConfig c (Regions P c)"
    and "btReserve e 193273528320 = Some a \<Longrightarrow> c < 45 \<Longrightarrow> unat a \<le> unat (mBase (rMemMap (Regions P c)))"
proof -
  let ?cfg = DefaultPrimaryConfig and ?k = "193273528320 :: uptr"
  have pg: "16 * unat (btPageSize e) \<le> 2 ^ RegionSizeLog ?cfg" using e by (simp add: boot_ok_def default_regions)
  have kk: "push_bit (RegionSizeLog ?cfg) 1 * of_nat (pcNumClasses ?cfg) = ?k"
    unfolding default_regions(1) default_classes by (rule default_regions(3))
  have res: "unat base + 193273528320 < 2 ^ 63 \<and> base \<noteq> 0 \<and> isAligned base 16" if "btReserve e ?k = Some base" for base
  proof -
    have "base \<noteq> 0 \<and> isAligned base 16 \<and> unat base + unat ?k < 2 ^ 63" using e that unfolding boot_ok_def by blast
    then show ?thesis by simp
  qed
  have res': "unat base + pcNumClasses ?cfg * 2 ^ RegionSizeLog ?cfg < 2 ^ 64"
    if "btReserve e (push_bit (RegionSizeLog ?cfg) 1 * of_nat (pcNumClasses ?cfg)) = Some base" for base
    using res [of base] that unfolding kk by (simp add: default_regions default_classes)
  note st = pri_init_state [OF default_ok i f pg res']
  show "fresh_primary P" "c < 45 \<Longrightarrow> region_ok ?cfg c (Regions P c)" using st by (simp_all add: default_classes)
  obtain base d rs where b: "btReserve e ?k = Some base"
    and m: "mset (map (Regions P) [0..<pcNumClasses ?cfg]) = mset (pri_regions ?cfg (btPageSize e) d base rs (Regions P0))"
    using pri_init_regions [OF default_ok i] unfolding kk by blast
  note rb = res [OF b]
  have bb: "unat (base + push_bit 32 (of_nat I)) = unat base + I * 2 ^ 32" if "I < 45" for I
    using region_bases(1) [of base ?cfg I] that rb by (simp add: default_regions default_classes)
  have R: "isAligned (RegionBeg (Regions P c)) 16 \<and> RegionBeg (Regions P c) \<noteq> 0 \<and> unat (mBase (rMemMap (Regions P c))) + 2 ^ RegionSizeLog ?cfg < 2 ^ 63 \<and>
      unat base \<le> unat (mBase (rMemMap (Regions P c)))"
    if "c < pcNumClasses ?cfg" for c
  proof -
    have "Regions P c \<in> set (map (Regions P) [0..<pcNumClasses ?cfg])" using that by simp
    then obtain I where I: "I < 45" and R: "Regions P c = initRegion ?cfg (btPageSize e) d I
        \<lparr> mBase = base + push_bit 32 (of_nat I), mCapacity = push_bit 32 1 \<rparr> (EnableRandomOffset ?cfg) ((Regions P0 I)\<lparr>RandState := rs ! I\<rparr>)"
      unfolding mset_eq_setD [OF m] by (auto simp: pri_regions_def default_regions default_classes)
    let ?M = "\<lparr> mBase = base + push_bit 32 (of_nat I), mCapacity = push_bit 32 1 \<rparr> :: mem_map"
    have u: "unat (mBase ?M) = unat base + I * 2 ^ 32" using bb [OF I] by simp
    have "16 dvd unat base" using rb by (simp add: aligned_dvd)
    moreover have "(16 :: nat) dvd I * 2 ^ 32" by (intro dvd_mult) simp
    ultimately have "isAligned (mBase ?M) 16" unfolding aligned_dvd u by (rule dvd_add)
    moreover have "mBase ?M \<noteq> 0" using u rb by (metis add_is_0 unat_0 unat_eq_zero)
    moreover have lt: "unat (mBase ?M) + 2 ^ 32 < 2 ^ 63" unfolding u using I rb by simp
    moreover have "16 dvd unat (btPageSize e)" "unat (btPageSize e) \<le> 2 ^ 28" using e by (simp_all add: boot_ok_def)
    ultimately have "isAligned (RegionBeg (Regions P c)) 16" "RegionBeg (Regions P c) \<noteq> 0"
      unfolding R by (intro initRegion_place; simp)+
    moreover have "rMemMap (Regions P c) = ?M" unfolding R by (rule initRegion_fields(4)) (use pg in \<open>simp_all add: default_regions\<close>)
    ultimately show ?thesis using lt u by (simp add: default_regions)
  qed
  then show "regions_placed ?cfg P" using st(2) by (simp add: regions_placed_def)
  show "unat a \<le> unat (mBase (rMemMap (Regions P c)))" if "btReserve e 193273528320 = Some a" "c < 45"
    using R [of c] that b by (simp add: default_classes)
qed

lemma comb_start_inv:
  assumes "comb_start ccfg n A"
  shows "be_inv DefaultPrimaryConfig ccfg n p (aBackend A)" "be_used (aBackend A) = {}" "comb_fresh n A"
proof -
  let ?cfg = DefaultPrimaryConfig
  obtain F ck e A0 where s: "boot_ok e" "blank n A0" "comb_init (default_ops ccfg) F ck (be_init ccfg e) A0 = Inr A"
    and cc: "EntriesArraySize ccfg < 65535" "QuarantineSize ccfg < 2 ^ 32"
    using assms by (auto simp: comb_start_def)
  let ?S = "cbSec (aBackend A0)" and ?iv = "release_to_os_interval_ms F"
  obtain P0 C where b: "fresh_primary P0" "fresh_cache C" "cbPri (aBackend A0) = pri_start ?cfg P0 C" using s(2) by (auto simp: blank_def)
  obtain l where l: "InUseBlocks ?S = il_clear ptr_link_op l" using s(2) by (auto simp: blank_def)
  obtain P Q where i: "pri_init ?cfg (btPageSize e) (btReserve e) (btSeed e) ?iv P0 = Inr P"
    and q: "gq_init (of_int (to_sint32 (quarantine_size_kb F * 1024))) (of_int (to_sint32 (thread_local_quarantine_size_kb F * 1024))) (aQuarantine A0) = Inr Q"
    and AB: "aBackend A = (aBackend A0)\<lparr>cbPri := (cbPri (aBackend A0))\<lparr>sPri := P\<rparr>, cbSec := ?S\<lparr>maCache := cache_init ccfg ?iv (maCache ?S)\<rparr>\<rparr>"
    and AQ: "aQuarantine A = Q" "aQuarantineCaches A = aQuarantineCaches A0"
    using s(3) b(3) unfolding comb_init_def be_init_def
    by (auto simp: pri_start_def bindR_Inr_iff)
  have pst: "cbPri (aBackend A) = pri_start ?cfg P C" unfolding AB by (simp add: b(3) pri_start_def)
  note pl = boot_placed [OF s(1) i b(1)]
  have sys: "sys_inv ?cfg n (cbPri (aBackend A))"
    unfolding pst using s(2) pl b(2) by (intro start_inv [OF default_ok default_wf]) (simp_all add: blank_def default_classes)
  have sec: "sec_run_inv (map_cache_inv ccfg) map_cache_blocks (map_cache_owned ccfg) p (cbSec (aBackend A), {}, {#})"
    by (rule init_run_inv [OF cc, where C = "maCache ?S" and ms = ?iv and l = l]) (use s(2) l in \<open>simp_all add: AB blank_def\<close>)
  then have si: "sec_inv (map_cache_inv ccfg) map_cache_blocks (map_cache_owned ccfg) p (cbSec (aBackend A)) [] {#}"
    by (auto simp: sec_run_inv_def)
  note sh = sec_headers_of(1) [OF si] and sm = sec_maps_of [OF si]
  show "be_used (aBackend A) = {}" by (simp add: be_used_def sec_iterate sh pst pri_start_def)
  show "be_inv ?cfg ccfg n p (aBackend A)"
    unfolding be_inv_def sh sm using sys si pl(2) by (simp add: pst pri_start_def)
  show "comb_fresh n A" using s(2) q unfolding blank_def comb_fresh_def AQ by (auto simp: gq_init_def bindR_Inr_iff)
qed

lemma reached_prog_inv:
  assumes "comb_reached ccfg n p bld S"
  shows "scudo.prog_inv ccfg n p n bld S"
proof -
  obtain A where A: "comb_start ccfg n A"
    "(comb_step (default_ops ccfg) bld (comb_call_ok n p) (be_reserve_ok DefaultPrimaryConfig ccfg p))\<^sup>*\<^sup>* (A, Map.empty) S"
    using assms by (auto simp: comb_reached_def)
  note s = comb_start_inv [OF A(1)]
  have c: "comb_call_ok n p = (\<lambda>e. be_env_ok DefaultPrimaryConfig n p (ceBackend e) \<and> ceTSD e < n)" by (simp add: comb_call_ok_def fun_eq_iff)
  show ?thesis by (rule scudo.run_inv [OF A(2) [unfolded c] scudo.start_prog_inv [OF s]])
qed

section \<open>What the invariant says of the pointers that the program holds\<close>

text \<open>The bytes of every chunk held are the same in both states.\<close>

definition contents_kept :: "(uptr \<rightharpoonup> uptr) \<Rightarrow> 'b allocator \<Rightarrow> 'b allocator \<Rightarrow> bool" where
  "contents_kept V A A' \<longleftrightarrow> (\<forall>q Sz. V q = Some Sz \<longrightarrow> same_contents (aMemory A) q (aMemory A') q (unat Sz))"

context combined_backend
begin

lemma block_bytes_nat:
  assumes "in_block ops b p h" and "unat (block_end ops b (chunk_block p h)) < 2 ^ 63"
    and "unat p - 16 \<le> x" "x < unat p + unat (getSize ops b p h)"
  shows "of_nat x \<in> block_set ops b (chunk_block p h)"
proof -
  let ?B = "getBlockBegin p h" and ?E = "block_end ops b (chunk_block p h)"
  have i: "unat ?B + 16 \<le> unat p" "unat p + unat (getSize ops b p h) \<le> unat ?E" using assms(1) by (simp_all add: in_block_def)
  have x: "unat ?B \<le> x" "x < unat ?E" using i assms(3,4) by linarith+
  then have u: "unat (of_nat x :: uptr) = x" using assms(2) by (simp add: unat_of_nat)
  have s: "unat (?E - ?B) = unat ?E - unat ?B" using x by (subst unat_sub) (simp_all add: word_le_nat_alt)
  have "unat (of_nat x - ?B) = x - unat ?B" using x u by (subst unat_sub) (simp_all add: word_le_nat_alt)
  then have "unat (of_nat x - ?B) < unat (?E - ?B)" using s x by linarith
  then show ?thesis by (simp add: block_set_def bytes_at_def chunk_block_def [of p h])
qed

lemma live_place:
  assumes inv: "comb_inv n bld A L" and p: "L p = Some h"
  shows "p \<noteq> 0" "isAligned p 16" "16 \<le> unat p" "unat p + unat (getSize ops (aBackend A) p h) < 2 ^ 63"
    and "unat (block_end ops (aBackend A) (chunk_block p h)) < 2 ^ 63"
proof -
  note l = live_chunk [OF inv p]
  have b: "binv (aBackend A)" using inv by (simp add: comb_inv_def)
  have i: "unat (getBlockBegin p h) + 16 \<le> unat p" "unat p + unat (getSize ops (aBackend A) p h) \<le> unat (block_end ops (aBackend A) (chunk_block p h))"
    "isAligned p 16" using l(2) by (simp_all add: in_block_def)
  show e: "unat (block_end ops (aBackend A) (chunk_block p h)) < 2 ^ 63" using used_block [OF b l(3)] by simp
  show "isAligned p 16" by (rule i(3))
  show "16 \<le> unat p" using i(1) by linarith
  then show "p \<noteq> 0" by auto
  show "unat p + unat (getSize ops (aBackend A) p h) < 2 ^ 63" using i(2) e by linarith
qed

lemma live_apart:
  assumes inv: "comb_inv n bld A L" and p: "L p = Some h" and q: "L q = Some g" "p \<noteq> q"
  shows "{unat p - 16..<unat p + unat (getSize ops (aBackend A) p h)} \<inter> {unat q - 16..<unat q + unat (getSize ops (aBackend A) q g)} = {}"
proof -
  have "x \<notin> {unat q - 16..<unat q + unat (getSize ops (aBackend A) q g)}"
    if "x \<in> {unat p - 16..<unat p + unat (getSize ops (aBackend A) p h)}" for x
  proof
    assume "x \<in> {unat q - 16..<unat q + unat (getSize ops (aBackend A) q g)}"
    then have "of_nat x \<in> block_set ops (aBackend A) (chunk_block q g)"
      by (intro block_bytes_nat live_chunk [OF inv q(1)] live_place [OF inv q(1)]) simp_all
    moreover have "of_nat x \<in> block_set ops (aBackend A) (chunk_block p h)"
      using that by (intro block_bytes_nat live_chunk [OF inv p] live_place [OF inv p]) simp_all
    ultimately show False using live_chunk(5) [OF inv p q] by blast
  qed
  then show ?thesis by blast
qed

lemma live_queries:
  assumes inv: "comb_inv n bld A L" and p: "L p = Some h"
  shows "getUsableSize ops bld p A = Inr (getSize ops (aBackend A) p h)" "isOwned bld p A"
    and "isPrimaryAllocationPtr bld p A = Inr (ClassId h \<noteq> 0)"
    and "loadHeader (bHash bld) (aCookie A) p (words (aMemory A)) = Inr (h\<lparr>hChecksum := computeHeaderChecksum (bHash bld) (aCookie A) p h\<rparr>)"
proof -
  note l = live_chunk [OF inv p] and pl = live_place [OF inv p]
  show ld: "loadHeader (bHash bld) (aCookie A) p (words (aMemory A)) = Inr (h\<lparr>hChecksum := computeHeaderChecksum (bHash bld) (aCookie A) p h\<rparr>)"
    by (rule loads [OF l(1)])
  have gs: "getSize ops b p (h\<lparr>hChecksum := x\<rparr>) = getSize ops b p h" for b x by (simp add: getSize_def)
  show "getUsableSize ops bld p A = Inr (getSize ops (aBackend A) p h)"
    using pl(1) l(4) by (simp add: getUsableSize_def getAllocSize_def ld gs)
  have al: "isAligned p MinAlignment" using pl(2) by (simp add: MinAlignment_def)
  show "isPrimaryAllocationPtr bld p A = Inr (ClassId h \<noteq> 0)" using pl(1) l(4) al by (simp add: isPrimaryAllocationPtr_def ld)
  have v: "Chunk.isValid (bHash bld) (aCookie A) p (words (aMemory A)) = (True, h\<lparr>hChecksum := computeHeaderChecksum (bHash bld) (aCookie A) p h\<rparr>)"
    using has_header_loads [OF l(1)] by simp
  show "isOwned bld p A" using pl(1) l(4) al by (simp add: isOwned_def v)
qed

text \<open>A chunk that waits in the quarantine is rejected by every operation.\<close>

lemma waiting_chunk:
  assumes inv: "comb_inv n bld A L" and q: "q \<in># waiting_ptrs n A"
  shows "L q = None" "comb_deallocate ops bld e q Org D A = Some (Inl (InvalidChunkState Deallocating q))"
    and "NewSize < MaxAllowedMallocSize \<Longrightarrow> comb_reallocate ops bld e e' q NewSize a A = Some (Inl (InvalidChunkState Reallocating q))"
    and "getUsableSize ops bld q A = Inl (InvalidChunkState Sizing q)" and "\<not> isOwned bld q A"
proof -
  obtain Hd where Hd: "ok (bHash bld) (aCookie A) Hd (comb_state A)" "parts ops Hd L (waiting_ptrs n A) (waiting_batches n A)"
    "binv (aBackend A)" using inv by (rule comb_invE)
  obtain h where h: "Hd q = Some h" "State h = Quarantined" using Hd(2) q by (auto simp: parts_def)
  note f = chunk_facts(1,2) [OF Hd(1,3) h(1)]
  show "L q = None" using parts_live(2) [OF Hd(2)] q by fastforce
  have al: "isAligned q MinAlignment" "q \<noteq> 0" using f(2) by (auto simp: in_block_def MinAlignment_def)
  note ld = loads [OF f(1)]
  show "comb_deallocate ops bld e q Org D A = Some (Inl (InvalidChunkState Deallocating q))"
    using al h(2) by (simp add: comb_deallocate_def check_deallocation_def ld bindO_def Quarantined_def Allocated_def)
  show "comb_reallocate ops bld e e' q NewSize a A = Some (Inl (InvalidChunkState Reallocating q))" if "NewSize < MaxAllowedMallocSize"
    using al h(2) that by (simp add: comb_reallocate_def check_reallocation_def ld bindO_def Quarantined_def Allocated_def)
  show "getUsableSize ops bld q A = Inl (InvalidChunkState Sizing q)"
    using al h(2) by (simp add: getUsableSize_def getAllocSize_def ld Quarantined_def Allocated_def)
  show "\<not> isOwned bld q A" using h(2) has_header_loads(2) [OF f(1)] by (simp add: isOwned_def Quarantined_def Allocated_def)
qed

lemma kept_contents:
  assumes inv: "comb_inv n bld A L" and u: "undisturbed L' A A'" and le: "L' \<subseteq>\<^sub>m L"
    and V: "dom V \<subseteq> dom L'" and sz: "\<And>p h Sz. L p = Some h \<Longrightarrow> V p = Some Sz \<Longrightarrow> unat Sz \<le> unat (getSize ops (aBackend A) p h)"
  shows "contents_kept V A A'"
  unfolding contents_kept_def
proof (intro allI impI)
  fix q Sz assume q: "V q = Some Sz"
  then obtain g where g: "L' q = Some g" using V by blast
  then have L: "L q = Some g" using le unfolding map_le_def by (metis domI)
  note c = undisturbed_contents [OF inv L u g]
  have "unat (getSize ops (aBackend A) q g) \<le> 2 ^ 64" using unat_less_exp [of "getSize ops (aBackend A) q g"] by simp
  from same_contents_on [OF c(1) [unfolded user_bytes_def] this sz [OF L q]]
  show "same_contents (aMemory A) q (aMemory A') q (unat Sz)" .
qed

end

section \<open>The abstract heap\<close>

text \<open>What a program sees: the pointers that it holds, each with the bytes that it asked for.\<close>

type_synonym heap = "uptr \<rightharpoonup> u8 list"

definition heap_of :: "'b program \<Rightarrow> heap" where
  "heap_of = (\<lambda>(A, V) q. map_option (\<lambda>Sz. map (\<lambda>i. aMemory A (q + of_nat i)) [0..<unat Sz]) (V q))"

text \<open>malloc adds an object under a pointer that is not in use, free removes one, a write changes the bytes of
  one, realloc moves one and keeps its beginning; a call that returns null changes nothing.\<close>

inductive heap_step :: "heap \<Rightarrow> heap \<Rightarrow> bool" where
  heap_skip: "heap_step h h"
| heap_alloc: "h q = None \<Longrightarrow> heap_step h (h(q \<mapsto> bs))"
| heap_free: "h q \<noteq> None \<Longrightarrow> heap_step h (h(q := None))"
| heap_write: "h q = Some bs \<Longrightarrow> List.length bs' = List.length bs \<Longrightarrow> heap_step h (h(q \<mapsto> bs'))"
| heap_realloc: "\<lbrakk> h q = Some bs; r = q \<or> h r = None; k = min (List.length bs) (List.length bs'); take k bs' = take k bs \<rbrakk> \<Longrightarrow>
    heap_step h ((h(q := None))(r \<mapsto> bs'))"

lemma heap_of_kept: "contents_kept V A A' \<Longrightarrow> heap_of (A', V) = heap_of (A, V)"
  by (auto simp: heap_of_def contents_kept_def same_contents_def fun_eq_iff map_option_case split: option.split)

lemma heap_of_update:
  "heap_of (A, V(q := None)) = (heap_of (A, V))(q := None)"
  "heap_of (A, V(q \<mapsto> Sz)) = (heap_of (A, V))(q \<mapsto> map (\<lambda>i. aMemory A (q + of_nat i)) [0..<unat Sz])"
  by (auto simp: heap_of_def fun_eq_iff)

lemma heap_of_dom: "heap_of (A, V) q = None \<longleftrightarrow> V q = None"
  by (simp add: heap_of_def)

context combined_backend
begin

lemma step_heap:
  assumes "comb_step ops bld (call_ok n) reserve_ok S S'" and "prog_inv n bld S"
  shows "heap_step (heap_of S) (heap_of S')"
  using assms
proof (induction rule: comb_step.induct)
  case (step_malloc e A a Sz Org Z q A' V)
  obtain L where L: "comb_inv n bld A L" "dom L = dom V" "\<And>p h Sz. L p = Some h \<Longrightarrow> V p = Some Sz \<Longrightarrow> unat Sz \<le> unat (getSize ops (aBackend A) p h)"
    using step_malloc(5) by (rule prog_invE) blast
  have al: "allocated n bld L Sz Org a Z A (Some (Inr (q, A')))"
    using comb_allocate_spec [OF L(1) _ step_malloc(2,3), of Sz Org Z] step_malloc(1,4) by simp
  then have u: "undisturbed L A A'" by (simp add: allocated_def)
  have k: "contents_kept V A A'" by (rule kept_contents [OF L(1) u map_le_refl _ L(3)]) (use L(2) in simp_all)
  have "q \<noteq> 0 \<Longrightarrow> L q = None" using al by (auto simp: allocated_def new_chunk_ok_def)
  then have "q \<noteq> 0 \<Longrightarrow> heap_of (A, V) q = None" using L(2) unfolding heap_of_dom by blast
  then have "q \<noteq> 0 \<Longrightarrow> heap_step (heap_of (A, V)) (heap_of (A', V(q \<mapsto> Sz)))"
    unfolding heap_of_update heap_of_kept [OF k] by (intro heap_alloc)
  then show ?case by (simp add: heap_of_kept [OF k] heap_skip)
next
  case (step_free e V q Sz Org DeleteSize A A')
  obtain L where L: "comb_inv n bld A L" "dom L = dom V" "\<And>p h Sz. L p = Some h \<Longrightarrow> V p = Some Sz \<Longrightarrow> unat Sz \<le> unat (getSize ops (aBackend A) p h)"
    using step_free(4) by (rule prog_invE) blast
  obtain h where h: "L q = Some h" using L(2) step_free(2) by blast
  have "freed n bld L q A (Some (Inr A'))"
    using comb_deallocate_spec [OF L(1) h, of e Org DeleteSize] step_free(1,3) by (simp split: option.splits)
  then have u: "undisturbed (L(q := None)) A A'" by simp
  have le: "L(q := None) \<subseteq>\<^sub>m L" by (auto simp: map_le_def)
  have "contents_kept (V(q := None)) A A'"
    by (rule kept_contents [OF L(1) u le]) (use L(2,3) in \<open>auto split: if_splits\<close>)
  note k = heap_of_kept [OF this]
  have "heap_of (A, V) q \<noteq> None" using step_free(2) by (simp add: heap_of_def)
  then show ?case unfolding k unfolding heap_of_update by (rule heap_free)
next
  case (step_realloc e e' A a V q Sz NewSize r A')
  obtain L where L: "comb_inv n bld A L" "dom L = dom V" "\<And>p h Sz. L p = Some h \<Longrightarrow> V p = Some Sz \<Longrightarrow> unat Sz \<le> unat (getSize ops (aBackend A) p h)"
    using step_realloc(7) by (rule prog_invE) blast
  obtain h where h: "L q = Some h" using L(2) step_realloc(5) by blast
  have re: "reallocated n bld L q h NewSize a A (Some (Inr (r, A')))"
    using comb_reallocate_spec [OF L(1) h _ step_realloc(3) _ _ step_realloc(4), of e' NewSize] step_realloc(1,2,6) by simp
  show ?case
  proof (cases "r = 0")
    case True
    then have u: "undisturbed L A A'" using re by (simp add: reallocated_simps(1))
    have "contents_kept V A A'" by (rule kept_contents [OF L(1) u map_le_refl _ L(3)]) (use L(2) in simp_all)
    from heap_of_kept [OF this] show ?thesis using True by (simp add: heap_skip)
  next
    case False
    then obtain g where g: "undisturbed (L(q := None)) A A'" "r \<noteq> q \<longrightarrow> L r = None"
      "same_contents (aMemory A) q (aMemory A') r (min (unat NewSize) (unat (getSize ops (aBackend A) q h)))"
      using re by (auto simp: reallocated_simps(1))
    have le: "L(q := None) \<subseteq>\<^sub>m L" by (auto simp: map_le_def)
    have "contents_kept (V(q := None)) A A'"
      by (rule kept_contents [OF L(1) g(1) le]) (use L(2,3) in \<open>auto split: if_splits\<close>)
    note k = heap_of_kept [OF this]
    let ?bs = "map (\<lambda>i. aMemory A (q + of_nat i)) [0..<unat Sz]" and ?bs' = "map (\<lambda>i. aMemory A' (r + of_nat i)) [0..<unat NewSize]"
    have bs: "heap_of (A, V) q = Some ?bs" using step_realloc(5) by (simp add: heap_of_def)
    have r: "r = q \<or> heap_of (A, V) r = None" using g(2) L(2) unfolding heap_of_dom by blast
    let ?k = "min (List.length ?bs) (List.length ?bs')"
    have le: "unat Sz \<le> unat (getSize ops (aBackend A) q h)" by (rule L(3) [OF h step_realloc(5)])
    have t: "take ?k ?bs' = take ?k ?bs" using g(3) le by (intro nth_equalityI) (simp_all add: same_contents_def)
    have "heap_step (heap_of (A, V)) (heap_of (A', (V(q := None))(r \<mapsto> NewSize)))"
      unfolding heap_of_update(2) k unfolding heap_of_update(1) by (rule heap_realloc [OF bs r refl t])
    then show ?thesis using False by simp
  qed
next
  case (step_write V q Sz A m')
  obtain L where L: "comb_inv n bld A L" "dom L = dom V" "\<And>p h Sz. L p = Some h \<Longrightarrow> V p = Some Sz \<Longrightarrow> unat Sz \<le> unat (getSize ops (aBackend A) p h)"
    using step_write(3) by (rule prog_invE) blast
  obtain h where h: "L q = Some h" using L(2) step_write(1) by blast
  have "bytes_at q (unat Sz) \<subseteq> user_bytes ops (aBackend A) q h"
    using L(3) [OF h step_write(1)] by (auto simp: user_bytes_def bytes_at_def)
  then have same: "same_on (- user_bytes ops (aBackend A) q h) (aMemory A) m'" by (intro same_on_mono [OF step_write(2)]) auto
  note w = user_write(2) [OF L(1) h _ _ same, of "A\<lparr>aMemory := m'\<rparr>"]
  have u: "undisturbed (L(q := None)) A (A\<lparr>aMemory := m'\<rparr>)" by (rule w; simp add: same_settings_def)
  have le: "L(q := None) \<subseteq>\<^sub>m L" by (auto simp: map_le_def)
  have "contents_kept (V(q := None)) A (A\<lparr>aMemory := m'\<rparr>)"
    by (rule kept_contents [OF L(1) u le]) (use L(2,3) in \<open>auto split: if_splits\<close>)
  note k = heap_of_kept [OF this]
  let ?A' = "A\<lparr>aMemory := m'\<rparr>" and ?bs' = "map (\<lambda>i. m' (q + of_nat i)) [0..<unat Sz]"
  have V: "V(q \<mapsto> Sz) = V" using step_write(1) by auto
  have "heap_of (?A', V) = (heap_of (?A', V))(q \<mapsto> ?bs')" using heap_of_update(2) [of ?A' V q Sz] unfolding V by simp
  also have "\<dots> = ((heap_of (?A', V))(q := None))(q \<mapsto> ?bs')" by simp
  also have "(heap_of (?A', V))(q := None) = (heap_of (A, V))(q := None)" using k unfolding heap_of_update(1) .
  finally have "heap_of (?A', V) = (heap_of (A, V))(q \<mapsto> ?bs')" unfolding fun_upd_upd .
  moreover have "heap_of (A, V) q = Some (map (\<lambda>i. aMemory A (q + of_nat i)) [0..<unat Sz])" using step_write(1) by (simp add: heap_of_def)
  ultimately show ?case using heap_write [of "heap_of (A, V)" q _ ?bs'] by (metis length_map)
next
  case (step_drain e A A' V)
  obtain L where L: "comb_inv n bld A L" "dom L = dom V" "\<And>p h Sz. L p = Some h \<Longrightarrow> V p = Some Sz \<Longrightarrow> unat Sz \<le> unat (getSize ops (aBackend A) p h)"
    using step_drain(3) by (rule prog_invE) blast
  have u: "undisturbed L A A'" using drain_spec [OF L(1), of e] step_drain(1,2) by simp
  have "contents_kept V A A'" by (rule kept_contents [OF L(1) u map_le_refl _ L(3)]) (use L(2) in simp_all)
  from heap_of_kept [OF this] show ?case by (simp add: heap_skip)
next
  case (step_fill A V F)
  then show ?case by (simp add: heap_of_def setFillContents_def heap_skip)
next
  case (step_slack A V s)
  then show ?case by (simp add: heap_of_def setAddLargeAllocationSlack_def heap_skip)
qed

end

lemma reached_live:
  assumes "comb_reached ccfg n p bld (A, V)"
  obtains L where "scudo.comb_inv ccfg n p n bld A L" "dom L = dom V"
    "\<And>q h Sz. L q = Some h \<Longrightarrow> V q = Some Sz \<Longrightarrow> unat Sz \<le> unat (getSize (default_ops ccfg) (aBackend A) q h)"
  using scudo.prog_invE [OF reached_prog_inv [OF assms]] by blast

lemma live_of:
  assumes "dom L = dom V" and "V q = Some Sz"
  obtains h where "L q = Some h"
  using assms by blast

lemma reached_chunk:
  assumes "comb_reached ccfg n p bld (A, V)" and "V q = Some Sz"
  obtains L h where "scudo.comb_inv ccfg n p n bld A L" "L q = Some h" "unat Sz \<le> unat (getSize (default_ops ccfg) (aBackend A) q h)"
proof -
  obtain L where L: "scudo.comb_inv ccfg n p n bld A L" "dom L = dom V"
    "\<And>q h Sz. L q = Some h \<Longrightarrow> V q = Some Sz \<Longrightarrow> unat Sz \<le> unat (getSize (default_ops ccfg) (aBackend A) q h)"
    using reached_live [OF assms(1)] by blast
  obtain h where h: "L q = Some h" using live_of [OF L(2) assms(2)] .
  show thesis by (rule that [OF L(1) h L(3) [OF h assms(2)]])
qed

lemma reached_be_inv: "comb_reached ccfg n p bld (A, V) \<Longrightarrow> be_inv DefaultPrimaryConfig ccfg n p (aBackend A)"
  by (erule reached_live) (simp add: scudo.comb_inv_def)

end
