(* ===== verification/Combined_Claims.thy ===== *)
theory Combined_Claims
  imports Combined_Properties
begin

text \<open>The properties of the combined allocator with the default configuration: what every call of malloc, free,
  realloc and drain promises in the states that a program reaches, that together they refine an abstract heap,
  and an example run that has them all at work.\<close>

section \<open>Properties\<close>







section \<open>An example\<close>

definition boot4k :: boot_env where
  "boot4k = \<lparr> btPageSize = 4096, btReserve = (\<lambda>k. if k = 193273528320 then Some 0x10000000000 else None), btSeed = 42 \<rparr>"

definition blank4k :: "comb_backend allocator" where
  "blank4k = \<lparr> aCookie = 0, aQuarantineMaxChunkSize = 0, aOptions = 0,
     aQuarantine = \<lparr> gqCache = empty_quarantine, gqMinSize = 0, gqMaxSize = 0, gqMaxCacheSize = 0 \<rparr>,
     aQuarantineCaches = (\<lambda>_. empty_quarantine), aMemory = (\<lambda>_. 0),
     aBackend = \<lparr> cbPri = pri_start DefaultPrimaryConfig start_primary start_cache, cbSec = sec0\<lparr>maCache := cache0\<rparr> \<rparr> \<rparr>"

definition call4k :: "backend_env call_env" where
  "call4k = \<lparr> ceDisableMemInit = False, ceTSD = 0, ceFrame = 0x7000, ceTryLock = True,
     ceBackend = \<lparr> beThread = 0, bePri = \<lparr> pOs = os4k, reserveRegion = (\<lambda>_. None) \<rparr>, beSec = sec4k, beTryLock = True, beReleased = (\<lambda>_ _ _. None) \<rparr> \<rparr>"

definition build4k :: build_env where
  "build4k = \<lparr> bHash = \<lparr> HashAlgorithm = BSD, hwCRC32 = (\<lambda>_ _. 0) \<rparr>, bPageSize = 4096 \<rparr>"

lemma default_getMax: "pcMaxSize DefaultPrimaryConfig = 131072"
  by (simp add: default_config fixed_MaxSize_def)

lemma sanity_checks: "performSanityChecks (default_ops ccfg) = Inr ()"
proof -
  have m: "boMaxSize (default_ops ccfg) = 131072" "boLargestClassId (default_ops ccfg) = 44"
    by (simp_all add: default_ops_def scudo_ops_def default_getMax default_classes)
  let ?i = "getMostSignificantSetBitIndex 131056"
  have b: "2 ^ ?i \<le> (131056 :: nat)" "(131056 :: nat) < 2 ^ (?i + 1)" using msb_spec [of 131056] by simp_all
  have "\<not> ?i \<le> 15" using b(2) power_increasing [of "?i + 1" 16 "2 :: nat"] by auto
  moreover have "\<not> 17 \<le> ?i" using b(1) power_increasing [of 17 ?i "2 :: nat"] by auto
  ultimately have i: "?i = 16" by linarith
  show ?thesis
    by (simp add: performSanityChecks_def m MinAlignment_def i getHeaderSize_16 OffsetMask_def Let_def)
qed

definition flags4k :: flags where
  "flags4k = default_flags\<lparr>release_to_os_interval_ms := 0\<rparr>"

lemma boot4k_ok: "boot_ok boot4k"
  by (simp add: boot_ok_def boot4k_def isAligned_def)

lemma blank4k_ok: "blank 1 blank4k"
proof -
  have "fresh_primary start_primary" by (simp add: fresh_primary_def small_primary_def small_region_def)
  then show ?thesis using small_ready(2) by (auto simp: blank_def blank4k_def comb_fresh_def cache0_def no_block_def isValidBlock_def sec0_def)
qed

lemma start4k:
  obtains A where "comb_start DefaultCacheConfig 1 A" "cbSec (aBackend A) = sec0" "aMemory A = (\<lambda>_. 0)" "aOptions A = flag_options flags4k 0"
    "\<And>c. c < 45 \<Longrightarrow> 0x10000000000 \<le> unat (mBase (rMemMap (Regions (sPri (cbPri (aBackend A))) c)))"
proof -
  have n: "pcNumClasses DefaultPrimaryConfig = 45" "RegionSizeLog DefaultPrimaryConfig = 32" "EnableContiguousRegions DefaultPrimaryConfig"
    by (simp_all add: default_config size_class_defs)
  have "\<exists>P. pri_init DefaultPrimaryConfig 4096 (btReserve boot4k) 42 0 start_primary = Inr P"
    by (auto simp: pri_init_def n Let_def boot4k_def split: prod.split)
  then obtain P where P: "pri_init DefaultPrimaryConfig 4096 (btReserve boot4k) 42 0 start_primary = Inr P" by blast
  have f: "fresh_primary start_primary" by (simp add: fresh_primary_def small_primary_def small_region_def)
  have P': "pri_init DefaultPrimaryConfig (btPageSize boot4k) (btReserve boot4k) (btSeed boot4k) 0 start_primary = Inr P"
    using P by (simp add: boot4k_def)
  have r: "btReserve boot4k 193273528320 = Some 0x10000000000" by (simp add: boot4k_def)
  have pl: "unat (0x10000000000 :: uptr) \<le> unat (mBase (rMemMap (Regions P c)))" if "c < 45" for c
    using boot_placed(4) [OF boot4k_ok P' f r that] .
  let ?b = "(aBackend blank4k)\<lparr>cbPri := (cbPri (aBackend blank4k))\<lparr>sPri := P\<rparr>, cbSec := sec0\<rparr>"
  have s0: "(cbSec (aBackend blank4k))\<lparr>maCache := cache_init DefaultCacheConfig 0 (maCache (cbSec (aBackend blank4k)))\<rparr> = sec0"
    by (simp add: blank4k_def sec0_def)
  have b: "be_init DefaultCacheConfig boot4k 0 (aBackend blank4k) = Inr ?b"
    unfolding be_init_def s0 using P' by (simp add: blank4k_def pri_start_def)
  have "\<exists>A. comb_init (default_ops DefaultCacheConfig) flags4k 7 (be_init DefaultCacheConfig boot4k) blank4k = Inr A \<and>
      aBackend A = ?b \<and> aMemory A = (\<lambda>_. 0) \<and> aOptions A = flag_options flags4k 0"
    unfolding comb_init_def sanity_checks using b by (simp add: flags4k_def default_flags_def gq_init_def) (simp add: blank4k_def)
  then obtain A where A: "comb_init (default_ops DefaultCacheConfig) flags4k 7 (be_init DefaultCacheConfig boot4k) blank4k = Inr A"
      "aBackend A = ?b" "aMemory A = (\<lambda>_. 0)" "aOptions A = flag_options flags4k 0" by blast
  have "comb_start DefaultCacheConfig 1 A"
    unfolding comb_start_def using boot4k_ok blank4k_ok A(1) sec0_init(1,2) by blast
  then show thesis using that [of A] A pl by simp
qed

lemma options4k: "flag_options flags4k 0 = opt_set OptDeleteSizeMismatch (opt_set MayReturnNull 0)"
  by (simp add: flag_options_def flags4k_def default_flags_def)


lemma call4k_ok: "comb_call_ok 1 12 call4k"
  by (simp add: comb_call_ok_def be_env_ok_def call4k_def sec4k_def os4k_def release_sound_def)

lemma map4k_ok:
  assumes "cbSec (aBackend A) = sec0"
    and "\<And>c. c < 45 \<Longrightarrow> 0x10000000000 \<le> unat (mBase (rMemMap (Regions (sPri (cbPri (aBackend A))) c)))"
  shows "comb_map_ok DefaultCacheConfig 12 call4k A"
proof -
  have "sec_inv (map_cache_inv DefaultCacheConfig) map_cache_blocks (map_cache_owned DefaultCacheConfig) 12 sec0 [] {#}"
    using init_run_inv [OF sec0_init] by (auto simp: sec_run_inv_def)
  note m = sec_maps_of [OF this]
  have "outside_regions DefaultPrimaryConfig (sPri (cbPri (aBackend A))) \<lparr> mBase = 0x40000000, mCapacity = k \<rparr>" if "unat k < 0x10000000" for k
    unfolding outside_regions_def
  proof (intro allI impI)
    fix c assume "c < pcNumClasses DefaultPrimaryConfig"
    then have "0x10000000000 \<le> unat (mBase (rMemMap (Regions (sPri (cbPri (aBackend A))) c)))" using assms(2) by (simp add: default_classes)
    then show "map_range \<lparr> mBase = 0x40000000, mCapacity = k \<rparr> \<inter> region_range DefaultPrimaryConfig (sPri (cbPri (aBackend A))) c = {}"
      using that by (auto simp: map_range_def region_range_def)
  qed
  then show ?thesis
    using sec4k_ok by (simp add: comb_map_ok_def be_reserve_ok_def assms(1) m call4k_def sec4k_def word_less_nat_alt split: if_splits)
qed


lemma start4k_reached:
  obtains A where "comb_reached DefaultCacheConfig 1 12 build4k (A, Map.empty)" "comb_map_ok DefaultCacheConfig 12 call4k A"
    "cbSec (aBackend A) = sec0" "aOptions A = flag_options flags4k 0"
proof -
  obtain A where A: "comb_start DefaultCacheConfig 1 A" "cbSec (aBackend A) = sec0" "aOptions A = flag_options flags4k 0"
    "\<And>c. c < 45 \<Longrightarrow> 0x10000000000 \<le> unat (mBase (rMemMap (Regions (sPri (cbPri (aBackend A))) c)))"
    using start4k by metis
  have "comb_map_ok DefaultCacheConfig 12 call4k A" using map4k_ok [OF A(2)] A(4) by simp
  then show thesis using that [of A] A(1-3) unfolding comb_reached_def by blast
qed











lemma sec4k_allocate_big:
  "\<exists>S' ev. sec_allocate (map_cache_ops DefaultCacheConfig) sec4k Opt 0x100000 0x200000 Fill sec0 = Some (Inr (Some (0x401ffff0, 0x40401000), S', ev))"
  if "\<not> opt_get Opt AddLargeAllocationSlack"
proof -
  have "\<exists>S' ev. allocate_new sec4k 0x100000 0x200000 sec0 = (Some (0x401ffff0, 0x40401000), S', ev)"
    by (simp add: allocate_new_def sec4k_def os4k_def mapping_size_def getHeadersSize_def LargeBlock_getHeaderSize_def
        roundUp_def roundDown_def place_block_def mapSecondary_def remap_def Let_def MAP_RESIZABLE_def MAP_ALLOWNOMEM_def MaxUnreleasedCachePages_def)
  then show ?thesis using that
    by (auto simp: sec_allocate_def shouldUseArena_def sec0_init Let_def sec4k_def os4k_def max_def)
qed

lemma memalign4k:
  assumes "cbSec (aBackend A) = sec0" and "aOptions A = flag_options flags4k 0" and inv: "be_inv DefaultPrimaryConfig DefaultCacheConfig 1 12 (aBackend A)"
    and res: "comb_map_ok DefaultCacheConfig 12 call4k A"
  obtains A' where "comb_allocate (default_ops DefaultCacheConfig) build4k call4k 0x100000 Memalign (2 ^ 21) False A = Some (Inr (0x40200000, A'))"
    "has_header (bHash build4k) (aCookie A') 0x40200000 (chunk_header 0 Memalign 0x101000 0) (aMemory A')"
    "boBlockEnd (default_ops DefaultCacheConfig) (aBackend A') 0x401ffff0 = 0x40401000" "aOptions A' = aOptions A"
proof -
  let ?ops = "default_ops DefaultCacheConfig" and ?F = "fill_mode call4k False (flag_options flags4k 0)"
  have o: "\<not> opt_get (flag_options flags4k 0) AddLargeAllocationSlack" by (simp add: options4k opt_get_def opt_set_def)
  obtain S ev where s: "sec_allocate (map_cache_ops DefaultCacheConfig) sec4k (flag_options flags4k 0) 0x100000 0x200000 ?F sec0 =
      Some (Inr (Some (0x401ffff0, 0x40401000), S, ev))" using sec4k_allocate_big [OF o] by blast
  have na: "\<not> boCanAllocate ?ops (needed_size 0x100000 0x200000)"
    by (simp add: default_ops_def pri_canAllocate_def default_getMax needed_size_def roundUp_def MinAlignment_def)
  have sa: "boSecAllocate ?ops (ceBackend call4k) (flag_options flags4k 0) 0x100000 0x200000 ?F (aBackend A) =
      Some (Inr (Some (0x401ffff0, 0x40401000), (aBackend A)\<lparr>cbSec := S\<rparr>, ev))"
    using s assms(1) by (simp add: default_ops_def be_sec_allocate_def call4k_def bindO_def)
  have b: "allocate_block ?ops call4k 0x100000 0x200000 ?F A = Some (Inr (0, 0x401ffff0, 0x40401000,
      A\<lparr>aBackend := (aBackend A)\<lparr>cbSec := S\<rparr>, aMemory := events_memory ev (aMemory A)\<rparr>))"
    using na sa by (simp add: allocate_block_def bindO_def assms(2))
  have E: "boBlockEnd ?ops ((aBackend A)\<lparr>cbSec := S\<rparr>) 0x401ffff0 = 0x40401000"
    using scudo.sec_allocate_law [where a = 21 and Sz = "0x100000" and opt = "flag_options flags4k 0" and Fill = ?F and e = "ceBackend call4k", OF inv]
      call4k_ok res sa by (simp add: comb_call_ok_def comb_map_ok_def)
  have u: "roundUp (0x401ffff0 + getHeaderSize) 0x200000 = 0x40200000" by (simp add: roundUp_def getHeaderSize_16)
  let ?m = "events_memory ev (aMemory A)"
  let ?A' = "A\<lparr>aBackend := (aBackend A)\<lparr>cbSec := S\<rparr>, aMemory := mem_storeHeader (bHash build4k) (aCookie A) 0x40200000 (chunk_header 0 Memalign 0x101000 0) ?m\<rparr>"
  have "comb_allocate ?ops build4k call4k 0x100000 Memalign (2 ^ 21) False A = Some (Inr (0x40200000, ?A'))"
    by (simp add: comb_allocate_def MaxAlignment_def MinAlignment_def MaxAllowedMallocSize_def assms(2) b bindO_def u Let_def)
      (simp add: initChunk_def Let_def getHeaderSize_16)
  from that [OF this] show thesis using E by (simp add: has_header_stored)
qed

text \<open>C24: A chunk of the secondary whose alignment is above 1 MB can leave more unused bytes behind it than its
  header has bits for: for 1 MB at an alignment of 2 MB, mapped at 1 GB, the usable size is 2 MB, and giving
  the chunk back with the size that it was asked for with is reported as a mismatch.\<close>

theorem big_alignment_loses_size:
  "\<exists>A A'. comb_reached DefaultCacheConfig 1 12 build4k (A, Map.empty) \<and> comb_map_ok DefaultCacheConfig 12 call4k A \<and>
     comb_allocate (default_ops DefaultCacheConfig) build4k call4k 0x100000 Memalign (2 ^ 21) False A = Some (Inr (0x40200000, A')) \<and>
     getUsableSize (default_ops DefaultCacheConfig) build4k 0x40200000 A' = Inr 0x200000 \<and>
     comb_deallocate (default_ops DefaultCacheConfig) build4k call4k 0x40200000 Memalign 0x100000 A' =
       Some (Inl (DeleteSizeMismatch 0x40200000 0x100000 0x200000))"
proof -
  let ?ops = "default_ops DefaultCacheConfig" and ?h = "chunk_header 0 Memalign 0x101000 0" and ?q = "0x40200000 :: uptr"
  obtain A where A: "comb_reached DefaultCacheConfig 1 12 build4k (A, Map.empty)" "comb_map_ok DefaultCacheConfig 12 call4k A"
    "cbSec (aBackend A) = sec0" "aOptions A = flag_options flags4k 0" by (rule start4k_reached)
  note inv = reached_be_inv [OF A(1)]
  obtain A' where A': "comb_allocate ?ops build4k call4k 0x100000 Memalign (2 ^ 21) False A = Some (Inr (?q, A'))"
    "has_header (bHash build4k) (aCookie A') ?q ?h (aMemory A')"
    "boBlockEnd ?ops (aBackend A') 0x401ffff0 = 0x40401000" "aOptions A' = aOptions A"
    using memalign4k [OF A(3,4) inv A(2)] by blast
  note ld = scudo.loads [OF A'(2)]
  have st: "State ?h = Allocated" "ClassId ?h = 0" by (simp_all add: chunk_header_def)
  have bb: "getBlockBegin ?q (?h\<lparr>hChecksum := x\<rparr>) = 0x401ffff0" for x
    by (simp add: getBlockBegin_def chunk_header_def getHeaderSize_16)
  have sz: "SizeOrUnusedBytes ?h = 0x1000" by (simp add: chunk_header_def SizeOrUnusedBytesMask_def)
  have gs: "getSize ?ops (aBackend A') ?q (?h\<lparr>hChecksum := x\<rparr>) = 0x200000" for x
    using A'(3) bb by (simp add: getSize_def st sz)
  have us: "getUsableSize ?ops build4k ?q A' = Inr 0x200000" by (simp add: getUsableSize_def getAllocSize_def ld st gs)
  have o: "\<not> opt_get (aOptions A') OptDeallocTypeMismatch" "opt_get (aOptions A') OptDeleteSizeMismatch"
    by (simp_all add: A'(4) A(4) options4k opt_get_def opt_set_def)
  have "isAligned ?q MinAlignment" by (simp add: isAligned_def MinAlignment_def)
  then have "comb_deallocate ?ops build4k call4k ?q Memalign 0x100000 A' = Some (Inl (DeleteSizeMismatch ?q 0x100000 0x200000))"
    using o by (simp add: comb_deallocate_def check_deallocation_def ld st gs bindO_def)
  then show ?thesis using A(1,2) A'(1) us by blast
qed

end
